(* ===== verification/SS_Prelude.thy ===== *)
theory SS_Prelude
  imports Complex_Main "HOL-Library.AList" "HOL-Library.Code_Target_Nat"
    "HOL-Library.Product_Lexorder"
begin

text \<open>
  Shared vocabulary of the development.

  \<^item> Clock readings are rational numbers (\<open>time\<close>): the source reads them with
    \<^verbatim>\<open>time.time()\<close> and passes them on, so every operation that reads the clock takes
    the reading as an argument. Float rounding is not modelled.
  \<^item> A Python \<^verbatim>\<open>dict\<close> is an association list with distinct keys: \<open>AList.update\<close>
    replaces in place or appends (Python's insertion order), \<open>AList.delete\<close> removes,
    \<open>map_of\<close> is \<^verbatim>\<open>.get\<close>.
  \<^item> An exception is the left summand of \<open>error + value\<close>.
  \<^item> Two interfaces every component uses are locales: a keyed store (a dict, a table with a
    unique key) and a machine (a state, its operations as events, an invariant).
\<close>

type_synonym time = rat

type_synonym ('k, 'v) dict = "('k \<times> 'v) list"

named_theorems dict_simps \<open>lookups after updates and deletions of a dict\<close>
named_theorems record_defs \<open>definitions a component unfolds in its own proofs\<close>

section \<open>Python's integers from numbers\<close>

text \<open>\<^verbatim>\<open>int(x)\<close> of a float truncates towards zero.\<close>

definition py_trunc :: "rat \<Rightarrow> int" where
  "py_trunc x = (if 0 \<le> x then \<lfloor>x\<rfloor> else \<lceil>x\<rceil>)"

lemma py_trunc_nonneg: "0 \<le> x \<Longrightarrow> 0 \<le> py_trunc x"
  by (simp add: py_trunc_def)

lemma py_trunc_le: "0 \<le> x \<Longrightarrow> of_int (py_trunc x) \<le> x"
  by (simp add: py_trunc_def)

lemma py_trunc_of_int [simp]: "py_trunc (of_int n) = n"
  by (simp add: py_trunc_def)

text \<open>\<^verbatim>\<open>x if x is not None else d\<close>.\<close>

definition opt :: "'a option \<Rightarrow> 'a \<Rightarrow> 'a" where
  "opt x d = (case x of None \<Rightarrow> d | Some y \<Rightarrow> y)"

section \<open>Dicts\<close>

definition dict_wf :: "('k, 'v) dict \<Rightarrow> bool" where
  "dict_wf d = distinct (map fst d)"

definition dget :: "('k, 'v) dict \<Rightarrow> 'k \<Rightarrow> 'v \<Rightarrow> 'v" where
  "dget d k v = (case map_of d k of None \<Rightarrow> v | Some w \<Rightarrow> w)"

lemma dict_wf_Nil [simp]: "dict_wf []"
  by (simp add: dict_wf_def)

lemma dict_wf_update [simp]: "dict_wf d \<Longrightarrow> dict_wf (AList.update k v d)"
  by (simp add: dict_wf_def distinct_update)

lemma dict_wf_delete [simp]: "dict_wf d \<Longrightarrow> dict_wf (AList.delete k d)"
  by (simp add: dict_wf_def distinct_delete)

lemma distinct_map_filter_fst: "distinct (map f xs) \<Longrightarrow> distinct (map f (filter P xs))"
  by (induction xs) auto

lemma dict_wf_filter [simp]: "dict_wf d \<Longrightarrow> dict_wf (filter P d)"
  unfolding dict_wf_def by (rule distinct_map_filter_fst)

lemma map_of_update [dict_simps]:
  "map_of (AList.update k v d) k' = (if k' = k then Some v else map_of d k')"
  by (simp add: update_conv')

lemma map_of_delete [dict_simps]:
  "map_of (AList.delete k d) k' = (if k' = k then None else map_of d k')"
  by (simp add: delete_conv')

lemma map_of_filter [dict_simps]:
  assumes "dict_wf d"
  shows "map_of (filter P d) k =
    (case map_of d k of None \<Rightarrow> None | Some v \<Rightarrow> if P (k, v) then Some v else None)"
  using assms unfolding dict_wf_def
  by (induction d) (auto simp: weak_map_of_SomeI split: option.splits dest: map_of_SomeD
      intro!: image_eqI simp: map_of_eq_None_iff)

lemma dget_update [dict_simps]: "dget (AList.update k v d) k' w = (if k' = k then v else dget d k' w)"
  by (simp add: dget_def dict_simps)

lemma dget_delete [dict_simps]: "dget (AList.delete k d) k' w = (if k' = k then w else dget d k' w)"
  by (simp add: dget_def dict_simps)

lemma length_update_le: "length (AList.update k v d) \<le> Suc (length d)"
  by (induction d) auto

lemma length_update:
  "length (AList.update k v d) = (if map_of d k = None then Suc (length d) else length d)"
  by (induction d) auto

lemma length_delete_le: "length (AList.delete k d) \<le> length d"
  by (induction d) auto

lemma dict_wf_map_of: "dict_wf d \<Longrightarrow> (map_of d k = Some v) = ((k, v) \<in> set d)"
  unfolding dict_wf_def by simp

section \<open>Interface: a keyed store\<close>

text \<open>
  What the clients of a dict or of a database table with a unique key rely on. The provider
  promises what a lookup answers after an insertion or a removal, and that both keep the key
  unique.
\<close>

locale keyed_store =
  fixes lookup :: "'m \<Rightarrow> 'k \<Rightarrow> 'v option"
    and put :: "'k \<Rightarrow> 'v \<Rightarrow> 'm \<Rightarrow> 'm"
    and remove :: "'k \<Rightarrow> 'm \<Rightarrow> 'm"
    and wf :: "'m \<Rightarrow> bool"
  assumes lookup_put: "wf m \<Longrightarrow> lookup (put k v m) k' = (if k' = k then Some v else lookup m k')"
    and lookup_remove: "wf m \<Longrightarrow> lookup (remove k m) k' = (if k' = k then None else lookup m k')"
    and wf_put: "wf m \<Longrightarrow> wf (put k v m)"
    and wf_remove: "wf m \<Longrightarrow> wf (remove k m)"
begin

lemma put_get: "wf m \<Longrightarrow> lookup (put k v m) k = Some v"
  by (simp add: lookup_put)

lemma put_other: "wf m \<Longrightarrow> k' \<noteq> k \<Longrightarrow> lookup (put k v m) k' = lookup m k'"
  by (simp add: lookup_put)

lemma remove_get: "wf m \<Longrightarrow> lookup (remove k m) k = None"
  by (simp add: lookup_remove)

lemma put_remove: "wf m \<Longrightarrow> lookup (remove k (put k v m)) k' = lookup (remove k m) k'"
  by (simp add: lookup_put lookup_remove wf_put)

lemma put_put: "wf m \<Longrightarrow> lookup (put k w (put k v m)) k' = lookup (put k w m) k'"
  by (simp add: lookup_put wf_put)

lemma wf_fold_put: "wf m \<Longrightarrow> wf (fold (\<lambda>(k, v). put k v) kvs m)"
  by (induction kvs arbitrary: m) (auto simp: wf_put)

lemma wf_fold_remove: "wf m \<Longrightarrow> wf (fold remove ks m)"
  by (induction ks arbitrary: m) (auto simp: wf_remove)

lemma lookup_fold_remove:
  "wf m \<Longrightarrow> lookup (fold remove ks m) k = (if k \<in> set ks then None else lookup m k)"
  by (induction ks arbitrary: m) (auto simp: lookup_remove wf_remove)

end

interpretation dict: keyed_store map_of AList.update AList.delete dict_wf
  by unfold_locales (auto simp: dict_simps)

section \<open>Interface: a machine with an invariant\<close>

text \<open>
  A component with state: \<open>step\<close> performs one operation, \<open>inv\<close> is kept by every operation,
  so it holds after any sequence of them. A machine with an observable that only grows keeps
  it monotone over any sequence.
\<close>

locale machine =
  fixes step :: "'s \<Rightarrow> 'e \<Rightarrow> 's"
    and inv :: "'s \<Rightarrow> bool"
  assumes step_inv: "inv s \<Longrightarrow> inv (step s e)"
begin

lemma run_inv: "inv s \<Longrightarrow> inv (foldl step s es)"
  by (induction es arbitrary: s) (auto intro: step_inv)

lemma run_prefix_inv: "inv s \<Longrightarrow> inv (foldl step s (take n es))"
  by (rule run_inv)

end

text \<open>
  The same for operations of an allowed kind only, with what one of them may do to the state given as a
  relation: so may any sequence of them.
\<close>

locale guided_machine =
  fixes step :: "'s \<Rightarrow> 'e \<Rightarrow> 's"
    and inv :: "'s \<Rightarrow> bool"
    and allowed :: "'e \<Rightarrow> bool"
    and rel :: "'s \<Rightarrow> 's \<Rightarrow> bool"
  assumes guided_inv: "inv s \<Longrightarrow> allowed e \<Longrightarrow> inv (step s e)"
    and guided_rel: "inv s \<Longrightarrow> allowed e \<Longrightarrow> rel s (step s e)"
    and rel_refl: "rel s s"
    and rel_trans: "rel s t \<Longrightarrow> rel t u \<Longrightarrow> rel s u"
begin

lemma run_guided:
  "inv s \<Longrightarrow> list_all allowed es \<Longrightarrow> inv (foldl step s es) \<and> rel s (foldl step s es)"
proof (induction es arbitrary: s)
  case Nil
  then show ?case by (simp add: rel_refl)
next
  case (Cons e es)
  then have "inv (step s e)" "rel s (step s e)" by (simp_all add: guided_inv guided_rel)
  with Cons show ?case using rel_trans by auto
qed

end

locale monotone_machine = machine +
  fixes obs :: "'a \<Rightarrow> 'o::order"
  assumes step_mono: "inv s \<Longrightarrow> obs s \<le> obs (step s e)"

sublocale monotone_machine \<subseteq> ordered: guided_machine step inv "\<lambda>_. True" "\<lambda>s t. obs s \<le> obs t"
  by unfold_locales (auto intro: step_inv step_mono order_trans)

context monotone_machine
begin

lemma run_mono: "inv s \<Longrightarrow> obs s \<le> obs (foldl step s es)"
  using ordered.run_guided by (simp add: list_all_iff)

end

section \<open>Windows over a log in time order\<close>

text \<open>
  Several components keep a queue of time-stamped entries in arrival order and expire from its
  left end. On a queue in time order that is the same as keeping the recent entries.
\<close>

lemma dropWhile_eq_filter:
  assumes "sorted (map f xs)"
  shows "dropWhile (\<lambda>x. f x \<le> (c :: 'b :: linorder)) xs = filter (\<lambda>x. c < f x) xs"
  using assms
proof (induction xs)
  case (Cons x xs)
  show ?case
  proof (cases "f x \<le> c")
    case True
    with Cons show ?thesis by auto
  next
    case False
    with Cons.prems have "\<forall>y\<in>set xs. c < f y" by auto
    with False show ?thesis by (auto simp: filter_id_conv)
  qed
qed simp

lemma sorted_dropWhile_map: "sorted (map f xs) \<Longrightarrow> sorted (map f (dropWhile P xs))"
  by (induction xs) auto

lemma sorted_snoc_map:
  "sorted (map f xs) \<Longrightarrow> (\<forall>x\<in>set xs. f x \<le> f y) \<Longrightarrow> sorted (map f (xs @ [y]))"
  by (simp add: sorted_append)

end
