(* ===== verification/Rate_Limit.thy ===== *)
theory Rate_Limit
  imports SS_Prelude
begin

text \<open>
  \<^verbatim>\<open>lib/security/ratelimit.py\<close>: the in-process sliding-window limiter that throttles
  \<^verbatim>\<open>/login\<close> and the SCIM bearer endpoint. A bucket per key holds the time-stamped, tagged hits
  in arrival order; \<open>rl_hit\<close> expires, records and judges, \<open>rl_peek\<close> judges without recording,
  \<open>rl_forget\<close> drops the hits of one tag. Every operation runs under the object's lock, so it is
  one step; \<open>now\<close> is the reading of \<^verbatim>\<open>time.time()\<close>.

  The main result is exactness: over any sequence of hits in time order, the answer of the next
  one is the count of its key's hits in the trailing window, whatever the garbage collection did.
\<close>

type_synonym hit = "time \<times> string"

record limiter =
  rl_buckets :: "(string, hit list) dict"
  rl_last_gc :: time

definition rl_init :: limiter where
  "rl_init = \<lparr>rl_buckets = [], rl_last_gc = 0\<rparr>"

definition rl_gc :: "limiter \<Rightarrow> time \<Rightarrow> time \<Rightarrow> limiter" where
  "rl_gc st now window =
     (if now - rl_last_gc st < max 60 window then st
      else let cutoff = now - window
           in st\<lparr>rl_last_gc := now,
                 rl_buckets := filter (\<lambda>(k, dq). \<not> (dq = [] \<or> fst (last dq) \<le> cutoff)) (rl_buckets st)\<rparr>)"

definition rl_hit :: "limiter \<Rightarrow> string \<Rightarrow> int \<Rightarrow> time \<Rightarrow> string \<Rightarrow> time \<Rightarrow> (bool \<times> int) \<times> limiter" where
  "rl_hit st key max_hits window tag now =
     (if max_hits \<le> 0 then ((True, 0), st)
      else
        let cutoff = now - window;
            st1 = rl_gc st now window;
            dq0 = dget (rl_buckets st1) key [];
            dq = dropWhile (\<lambda>h. fst h \<le> cutoff) dq0 @ [(now, tag)];
            st2 = st1\<lparr>rl_buckets := AList.update key dq (rl_buckets st1)\<rparr>
        in if int (length dq) > max_hits
           then ((False, max 1 (py_trunc (fst (hd dq) + window - now) + 1)), st2)
           else ((True, 0), st2))"

definition rl_peek :: "limiter \<Rightarrow> string \<Rightarrow> int \<Rightarrow> time \<Rightarrow> time \<Rightarrow> (bool \<times> int) \<times> limiter" where
  "rl_peek st key max_hits window now =
     (if max_hits \<le> 0 then ((True, 0), st)
      else
        let cutoff = now - window
        in case map_of (rl_buckets st) key of
             None \<Rightarrow> ((True, 0), st)
           | Some [] \<Rightarrow> ((True, 0), st)
           | Some dq0 \<Rightarrow>
               let dq = dropWhile (\<lambda>h. fst h \<le> cutoff) dq0;
                   st2 = st\<lparr>rl_buckets := AList.update key dq (rl_buckets st)\<rparr>
               in if int (length dq) \<ge> max_hits
                  then ((False, max 1 (py_trunc (fst (hd dq) + window - now) + 1)), st2)
                  else ((True, 0), st2))"

definition rl_reset :: "limiter \<Rightarrow> string \<Rightarrow> limiter" where
  "rl_reset st key = st\<lparr>rl_buckets := AList.delete key (rl_buckets st)\<rparr>"

definition rl_forget :: "limiter \<Rightarrow> string \<Rightarrow> string \<Rightarrow> limiter" where
  "rl_forget st key tag =
     (case map_of (rl_buckets st) key of
        None \<Rightarrow> st
      | Some [] \<Rightarrow> st
      | Some dq \<Rightarrow>
          let kept = filter (\<lambda>h. snd h \<noteq> tag) dq
          in if kept \<noteq> [] then st\<lparr>rl_buckets := AList.update key kept (rl_buckets st)\<rparr>
             else st\<lparr>rl_buckets := AList.delete key (rl_buckets st)\<rparr>)"

section \<open>The buckets are well formed and in time order\<close>

definition rl_bucket :: "limiter \<Rightarrow> string \<Rightarrow> hit list" where
  "rl_bucket st key = dget (rl_buckets st) key []"

text \<open>Every bucket is in time order and holds nothing later than \<open>t\<close>.\<close>

definition rl_ok :: "time \<Rightarrow> limiter \<Rightarrow> bool" where
  "rl_ok t st \<longleftrightarrow> dict_wf (rl_buckets st) \<and>
     (\<forall>key. sorted (map fst (rl_bucket st key)) \<and> (\<forall>h \<in> set (rl_bucket st key). fst h \<le> t))"

lemmas [record_defs] = rl_bucket_def rl_gc_def rl_hit_def rl_peek_def rl_reset_def rl_forget_def

lemma rl_bucket_init [simp]: "rl_bucket rl_init k = []"
  by (simp add: rl_bucket_def rl_init_def dget_def)

lemma rl_okD: "rl_ok t st \<Longrightarrow> h \<in> set (rl_bucket st k) \<Longrightarrow> fst h \<le> t"
  by (simp add: rl_ok_def)

lemma rl_okD_pair: "rl_ok t st \<Longrightarrow> (a, b) \<in> set (rl_bucket st k) \<Longrightarrow> a \<le> t"
  using rl_okD by fastforce

lemma rl_ok_sorted: "rl_ok t st \<Longrightarrow> sorted (map fst (rl_bucket st k))"
  by (simp add: rl_ok_def)

lemma rl_ok_wf: "rl_ok t st \<Longrightarrow> dict_wf (rl_buckets st)"
  by (simp add: rl_ok_def)

lemma rl_ok_init: "rl_ok t rl_init"
  by (simp add: rl_ok_def rl_init_def rl_bucket_def dget_def)

lemma rl_ok_mono: "rl_ok t st \<Longrightarrow> t \<le> u \<Longrightarrow> rl_ok u st"
  unfolding rl_ok_def by (meson order_trans)

lemma rl_bucket_gc:
  assumes "rl_ok t st"
  shows "rl_bucket (rl_gc st now window) k = rl_bucket st k \<or>
    (rl_bucket (rl_gc st now window) k = [] \<and> (\<forall>h \<in> set (rl_bucket st k). fst h \<le> now - window))"
proof -
  have wf: "dict_wf (rl_buckets st)" using assms by (simp add: rl_ok_def)
  have srt: "sorted (map fst (rl_bucket st k))" using assms by (simp add: rl_ok_def)
  have last_max: "\<forall>h \<in> set (rl_bucket st k). fst h \<le> fst (last (rl_bucket st k))"
  proof
    fix h assume h: "h \<in> set (rl_bucket st k)"
    then have ne: "rl_bucket st k \<noteq> []" by auto
    have "rl_bucket st k = butlast (rl_bucket st k) @ [last (rl_bucket st k)]"
      using ne by simp
    then have "sorted (map fst (butlast (rl_bucket st k) @ [last (rl_bucket st k)]))"
      using srt by simp
    then have "\<forall>x \<in> set (butlast (rl_bucket st k)). fst x \<le> fst (last (rl_bucket st k))"
      by (simp add: sorted_append)
    then show "fst h \<le> fst (last (rl_bucket st k))"
      using h ne by (metis Un_iff append_butlast_last_id list.set(1) list.set(2) order_refl set_append singletonD)
  qed
  show ?thesis
  proof (cases "now - rl_last_gc st < max 60 window")
    case True
    then show ?thesis by (simp add: rl_gc_def)
  next
    case False
    show ?thesis
    proof (cases "map_of (rl_buckets st) k")
      case None
      with False wf show ?thesis by (simp add: rl_gc_def rl_bucket_def dget_def Let_def dict_simps)
    next
      case (Some dq)
      then have b: "rl_bucket st k = dq" by (simp add: rl_bucket_def dget_def)
      from Some False wf have
        "rl_bucket (rl_gc st now window) k = (if dq = [] \<or> fst (last dq) \<le> now - window then [] else dq)"
        by (simp add: rl_gc_def rl_bucket_def dget_def Let_def dict_simps)
      then show ?thesis using b last_max by (auto intro: order_trans)
    qed
  qed
qed

lemma rl_gc_wf: "rl_ok t st \<Longrightarrow> dict_wf (rl_buckets (rl_gc st now window))"
  by (simp add: rl_ok_def rl_gc_def Let_def)

text \<open>
  What \<open>rl_hit\<close> leaves in the bucket of its key: the hits of the trailing window and the new one,
  whether or not the collector ran first.
\<close>

lemma rl_hit_expired:
  assumes "rl_ok t st"
  shows "dropWhile (\<lambda>h. fst h \<le> now - window) (rl_bucket (rl_gc st now window) k) =
    filter (\<lambda>h. now - window < fst h) (rl_bucket st k)"
proof -
  have srt: "sorted (map fst (rl_bucket st k))" using assms by (simp add: rl_ok_def)
  from rl_bucket_gc [OF assms, of now window k] show ?thesis
  proof
    assume "rl_bucket (rl_gc st now window) k = rl_bucket st k"
    then show ?thesis using dropWhile_eq_filter [OF srt] by simp
  next
    assume e: "rl_bucket (rl_gc st now window) k = [] \<and> (\<forall>h \<in> set (rl_bucket st k). fst h \<le> now - window)"
    then have "filter (\<lambda>h. now - window < fst h) (rl_bucket st k) = []"
      by (auto simp: filter_empty_conv not_less)
    with e show ?thesis by simp
  qed
qed

lemma rl_hit_bucket:
  assumes "rl_ok t st" "0 < max_hits"
  shows "rl_bucket (snd (rl_hit st key max_hits window tag now)) k =
    (if k = key then filter (\<lambda>h. now - window < fst h) (rl_bucket st key) @ [(now, tag)]
     else rl_bucket (rl_gc st now window) k)"
  using assms(2) rl_hit_expired [OF assms(1), of now window key]
  by (simp add: rl_hit_def Let_def rl_bucket_def dict_simps)

lemma rl_hit_allowed:
  assumes "rl_ok t st" "0 < max_hits"
  shows "fst (fst (rl_hit st key max_hits window tag now)) \<longleftrightarrow>
    int (length (filter (\<lambda>h. now - window < fst h) (rl_bucket st key))) < max_hits"
  using assms(2) rl_hit_expired [OF assms(1), of now window key]
  by (auto simp: rl_hit_def Let_def rl_bucket_def)

lemma rl_ok_gc:
  assumes "rl_ok t st"
  shows "rl_ok t (rl_gc st now window)"
  unfolding rl_ok_def
proof (intro conjI allI)
  show "dict_wf (rl_buckets (rl_gc st now window))" using rl_gc_wf [OF assms] .
  fix key
  show "sorted (map fst (rl_bucket (rl_gc st now window) key))"
    using rl_bucket_gc [OF assms, of now window key] assms by (auto simp: rl_ok_def)
  show "\<forall>h \<in> set (rl_bucket (rl_gc st now window) key). fst h \<le> t"
    using rl_bucket_gc [OF assms, of now window key] rl_okD [OF assms] by auto
qed

lemma rl_ok_hit:
  assumes ok: "rl_ok t st" and t: "t \<le> now"
  shows "rl_ok now (snd (rl_hit st key max_hits window tag now))"
proof (cases "max_hits \<le> 0")
  case True
  then show ?thesis using rl_ok_mono [OF ok t] by (simp add: rl_hit_def)
next
  case False
  then have pos: "0 < max_hits" by simp
  have gc: "rl_ok now (rl_gc st now window)" using rl_ok_mono [OF rl_ok_gc [OF ok] t] .
  have wf: "dict_wf (rl_buckets (snd (rl_hit st key max_hits window tag now)))"
    using pos rl_gc_wf [OF ok] by (simp add: rl_hit_def Let_def)
  have srt: "sorted (map fst (filter P (rl_bucket st key)))" for P
    using ok unfolding rl_ok_def by (metis sorted_filter)
  have le: "\<forall>h \<in> set (filter P (rl_bucket st key)). fst h \<le> now" for P
    using rl_okD [OF rl_ok_mono [OF ok t]] by auto
  show ?thesis
    unfolding rl_ok_def
  proof (intro conjI allI wf)
    fix k
    show "sorted (map fst (rl_bucket (snd (rl_hit st key max_hits window tag now)) k))"
      using gc srt le by (auto simp: rl_hit_bucket [OF ok pos] rl_ok_def sorted_append)
    show "\<forall>h \<in> set (rl_bucket (snd (rl_hit st key max_hits window tag now)) k). fst h \<le> now"
      using gc le by (auto simp: rl_hit_bucket [OF ok pos] rl_ok_def)
  qed
qed

section \<open>Exactness over a run\<close>

text \<open>
  A run of hits under one limit, as a login endpoint makes them: the events carry the key, the
  tag and the clock. The specification keeps the whole log and counts.
\<close>

record hit_event =
  he_key :: string
  he_tag :: string
  he_at :: time

definition rl_step :: "int \<Rightarrow> time \<Rightarrow> limiter \<Rightarrow> hit_event \<Rightarrow> limiter" where
  "rl_step max_hits window st e = snd (rl_hit st (he_key e) max_hits window (he_tag e) (he_at e))"

definition log_recent :: "hit_event list \<Rightarrow> string \<Rightarrow> time \<Rightarrow> hit list" where
  "log_recent es key c = map (\<lambda>e. (he_at e, he_tag e)) (filter (\<lambda>e. he_key e = key \<and> c < he_at e) es)"

definition rl_sim :: "time \<Rightarrow> limiter \<Rightarrow> hit_event list \<Rightarrow> time \<Rightarrow> bool" where
  "rl_sim window st es t \<longleftrightarrow> rl_ok t st \<and>
     (\<forall>key c. t - window \<le> c \<longrightarrow> filter (\<lambda>h. c < fst h) (rl_bucket st key) = log_recent es key c)"

lemma rl_sim_init: "rl_sim window rl_init [] t"
  by (simp add: rl_sim_def rl_ok_init log_recent_def)

lemma filter_recent_twice:
  "(c' :: time) \<le> c \<Longrightarrow> filter (\<lambda>h. c < fst h) (filter (\<lambda>h. c' < fst h) xs) = filter (\<lambda>h. c < fst h) xs"
  by (induction xs) auto

lemma rl_gc_recent:
  assumes "rl_ok t st" "now - window \<le> c"
  shows "filter (\<lambda>h. c < fst h) (rl_bucket (rl_gc st now window) k) = filter (\<lambda>h. c < fst h) (rl_bucket st k)"
  using rl_bucket_gc [OF assms(1), of now window k]
proof
  assume e: "rl_bucket (rl_gc st now window) k = [] \<and> (\<forall>h \<in> set (rl_bucket st k). fst h \<le> now - window)"
  then have "\<forall>h \<in> set (rl_bucket st k). \<not> c < fst h" using assms(2) by fastforce
  then have "filter (\<lambda>h. c < fst h) (rl_bucket st k) = []" unfolding filter_empty_conv .
  with e show ?thesis by simp
qed simp

lemma rl_sim_step:
  assumes sim: "rl_sim window st es t" and t: "t \<le> he_at e" and pos: "0 < max_hits"
  shows "rl_sim window (rl_step max_hits window st e) (es @ [e]) (he_at e)"
proof -
  have ok: "rl_ok t st" using sim by (simp add: rl_sim_def)
  have "filter (\<lambda>h. c < fst h) (rl_bucket (rl_step max_hits window st e) key) = log_recent (es @ [e]) key c"
    if c: "he_at e - window \<le> c" for key c
  proof -
    have "t - window \<le> c" using t c by linarith
    then have old: "filter (\<lambda>h. c < fst h) (rl_bucket st key) = log_recent es key c"
      using sim by (simp add: rl_sim_def)
    show ?thesis
    proof (cases "key = he_key e")
      case True
      then show ?thesis
        using old filter_recent_twice [OF c, of "rl_bucket st (he_key e)"]
        by (simp add: rl_step_def rl_hit_bucket [OF ok pos] log_recent_def del: filter_filter)
    next
      case False
      then show ?thesis
        using old rl_gc_recent [OF ok c, of key]
        by (simp add: rl_step_def rl_hit_bucket [OF ok pos] log_recent_def)
    qed
  qed
  then show ?thesis
    using rl_ok_hit [OF ok t] by (simp add: rl_sim_def rl_step_def)
qed

text \<open>Clock readings of a run never go back.\<close>

fun in_order :: "time \<Rightarrow> hit_event list \<Rightarrow> bool" where
  "in_order t [] = True"
| "in_order t (e # es) = (t \<le> he_at e \<and> in_order (he_at e) es)"

lemma rl_sim_run:
  assumes "rl_sim window st es t" "in_order t fs" "0 < max_hits"
  shows "rl_sim window (foldl (rl_step max_hits window) st fs) (es @ fs) (last (t # map he_at fs))"
  using assms
proof (induction fs arbitrary: st es t)
  case Nil
  then show ?case by simp
next
  case (Cons f fs)
  then have "rl_sim window (rl_step max_hits window st f) (es @ [f]) (he_at f)"
    by (simp add: rl_sim_step)
  from Cons.IH [OF this] Cons.prems show ?case by simp
qed



text \<open>Looking is as good as knocking: on a key the limiter tracks in time order,
  \<open>rl_peek\<close> refuses exactly when a hit recorded at the same instant would be refused, and it
  records nothing (every key's hits of the window are what they were).\<close>

theorem rl_peek_agrees:
  assumes "rl_ok t st" "t \<le> now"
  shows "fst (fst (rl_peek st key max_hits window now)) = fst (fst (rl_hit st key max_hits window tag now))
    \<and> filter (\<lambda>h. now - window < fst h) (rl_bucket (snd (rl_peek st key max_hits window now)) k)
      = filter (\<lambda>h. now - window < fst h) (rl_bucket st k)"
proof (cases "0 < max_hits")
  case False
  then show ?thesis by (simp add: rl_peek_def rl_hit_def)
next
  case True
  have dw: "dropWhile (\<lambda>h. fst h \<le> now - window) (rl_bucket st key) = filter (\<lambda>h. now - window < fst h) (rl_bucket st key)"
    using dropWhile_eq_filter [OF rl_ok_sorted [OF assms(1)]] .
  show ?thesis
  proof (cases "rl_bucket st key = []")
    case True
    with \<open>0 < max_hits\<close> have "rl_peek st key max_hits window now = ((True, 0), st)"
      by (auto simp: rl_peek_def rl_bucket_def dget_def split: option.splits list.splits)
    with True \<open>0 < max_hits\<close> show ?thesis by (simp add: rl_hit_allowed [OF assms(1)])
  next
    case False
    then obtain x xs where m: "map_of (rl_buckets st) key = Some (x # xs)"
      by (auto simp: rl_bucket_def dget_def neq_Nil_conv split: option.splits)
    then have b: "rl_bucket st key = x # xs" by (simp add: rl_bucket_def dget_def)
    from m b dw \<open>0 < max_hits\<close> show ?thesis
      by (auto simp: rl_hit_allowed [OF assms(1)] rl_peek_def rl_bucket_def Let_def dict_simps)
  qed
qed

theorem rl_peek_agrees_witness:
  "fst (fst (rl_peek rl_init ''ip'' 3 60 5)) = fst (fst (rl_hit rl_init ''ip'' 3 60 ''u'' 5))"
  using rl_peek_agrees [OF rl_ok_init [of 5], of 5 "''ip''" 3 60 "''u''" "''ip''"] by simp

text \<open>A successful login clears only its own account's guesses: \<open>rl_forget\<close> leaves
  in the bucket exactly the hits with another tag, in order, and every other key as it was, so
  knowing one password never wipes the count of the guesses made against other accounts.\<close>

theorem rl_forget_only_tag:
  assumes "rl_ok t st"
  shows "rl_bucket (rl_forget st key tag) k =
      (if k = key then filter (\<lambda>h. snd h \<noteq> tag) (rl_bucket st key) else rl_bucket st k)
    \<and> rl_ok t (rl_forget st key tag)"
proof -
  have b: "rl_bucket (rl_forget st key tag) k =
      (if k = key then filter (\<lambda>h. snd h \<noteq> tag) (rl_bucket st key) else rl_bucket st k)" for k
    by (auto simp: rl_forget_def rl_bucket_def dget_def Let_def dict_simps filter_empty_conv
        split: option.splits list.splits)
  have "dict_wf (rl_buckets (rl_forget st key tag))"
    using rl_ok_wf [OF assms] by (auto simp: rl_forget_def Let_def split: option.splits list.splits)
  moreover have "sorted (map fst (filter P (rl_bucket st k)))" for P k
    using rl_ok_sorted [OF assms] by (rule sorted_filter)
  ultimately have "rl_ok t (rl_forget st key tag)"
    using rl_okD_pair [OF assms] rl_ok_sorted [OF assms] by (auto simp: rl_ok_def b)
  with b show ?thesis by blast
qed

theorem rl_forget_only_tag_witness:
  "rl_bucket (rl_forget (snd (rl_hit (snd (rl_hit rl_init ''ip'' 5 60 ''mine'' 1)) ''ip'' 5 60 ''yours'' 2))
      ''ip'' ''mine'') ''ip'' = [(2, ''yours'')]"
proof -
  have ok: "rl_ok 2 (snd (rl_hit (snd (rl_hit rl_init ''ip'' 5 60 ''mine'' 1)) ''ip'' 5 60 ''yours'' 2))"
    by (rule rl_ok_hit [OF rl_ok_hit [OF rl_ok_init [of 1]]]) simp_all
  show ?thesis
    using rl_forget_only_tag [OF ok, of "''ip''" "''mine''" "''ip''"]
    by (simp add: rl_hit_def rl_gc_def rl_init_def rl_bucket_def dget_def Let_def)
qed

end
