(* ===== verification/Py_Text.thy ===== *)
theory Py_Text
  imports SS_Prelude
begin

text \<open>
  The part of Python's \<^verbatim>\<open>str\<close> the source uses. A \<open>char\<close> is a code point below 256, so text is
  modelled on that range; the character classes are Python's on it.
\<close>

abbreviation code :: "char \<Rightarrow> nat" where
  "code c \<equiv> of_char c"

section \<open>Character classes\<close>

definition is_space :: "char \<Rightarrow> bool" where
  "is_space c = (let n = code c in (9 \<le> n \<and> n \<le> 13) \<or> (28 \<le> n \<and> n \<le> 32) \<or> n = 133 \<or> n = 160)"

definition is_dec :: "char \<Rightarrow> bool" where
  "is_dec c = (48 \<le> code c \<and> code c \<le> 57)"

definition is_hex :: "char \<Rightarrow> bool" where
  "is_hex c = (let n = code c in is_dec c \<or> (65 \<le> n \<and> n \<le> 70) \<or> (97 \<le> n \<and> n \<le> 102))"

text \<open>\<^verbatim>\<open>str.isdigit\<close> also accepts the superscripts of the Latin-1 range.\<close>

definition is_digit_char :: "char \<Rightarrow> bool" where
  "is_digit_char c = (is_dec c \<or> code c = 178 \<or> code c = 179 \<or> code c = 185)"

definition is_ascii :: "char \<Rightarrow> bool" where
  "is_ascii c = (code c < 128)"

definition is_upper_az :: "char \<Rightarrow> bool" where
  "is_upper_az c = (65 \<le> code c \<and> code c \<le> 90)"

definition is_lower_az :: "char \<Rightarrow> bool" where
  "is_lower_az c = (97 \<le> code c \<and> code c \<le> 122)"

definition to_lower :: "char \<Rightarrow> char" where
  "to_lower c =
     (let n = code c in
      if (65 \<le> n \<and> n \<le> 90) \<or> (192 \<le> n \<and> n \<le> 222 \<and> n \<noteq> 215) then char_of (n + 32) else c)"

definition py_lower :: "string \<Rightarrow> string" where
  "py_lower s = map to_lower s"

section \<open>Splitting, stripping, joining\<close>

text \<open>\<^verbatim>\<open>s.split(c)\<close> for a one-character separator: at least one piece.\<close>

fun py_split :: "char \<Rightarrow> string \<Rightarrow> string list" where
  "py_split c [] = [[]]"
| "py_split c (x # xs) =
     (if x = c then [] # py_split c xs
      else (case py_split c xs of [] \<Rightarrow> [[x]] | w # ws \<Rightarrow> (x # w) # ws))"

definition py_strip :: "string \<Rightarrow> string" where
  "py_strip s = rev (dropWhile is_space (rev (dropWhile is_space s)))"

fun py_join :: "string \<Rightarrow> string list \<Rightarrow> string" where
  "py_join sep [] = []"
| "py_join sep [w] = w"
| "py_join sep (w # ws) = w @ sep @ py_join sep ws"

text \<open>\<^verbatim>\<open>''.join(s.split())\<close> removes every white space character.\<close>

definition drop_spaces :: "string \<Rightarrow> string" where
  "drop_spaces s = filter (\<lambda>c. \<not> is_space c) s"

definition starts_with :: "string \<Rightarrow> string \<Rightarrow> bool" where
  "starts_with p s = (take (length p) s = p)"

definition ends_with :: "string \<Rightarrow> string \<Rightarrow> bool" where
  "ends_with p s = (length p \<le> length s \<and> drop (length s - length p) s = p)"

fun is_infix :: "string \<Rightarrow> string \<Rightarrow> bool" where
  "is_infix p [] = (p = [])"
| "is_infix p (x # xs) = (starts_with p (x # xs) \<or> is_infix p xs)"

lemma py_split_nonempty: "py_split c s \<noteq> []"
  by (induction s) (auto split: list.splits)

lemma py_join_split: "py_join [c] (py_split c s) = s"
proof (induction s)
  case Nil
  then show ?case by simp
next
  case (Cons x s)
  obtain w ws where w: "py_split c s = w # ws"
    using py_split_nonempty [of c s] by (auto simp: neq_Nil_conv)
  with Cons show ?case by (cases ws) auto
qed

lemma starts_with_append [simp]: "starts_with p (p @ s)"
  by (simp add: starts_with_def)

lemma starts_with_iff: "starts_with p s \<longleftrightarrow> (\<exists>t. s = p @ t)"
  unfolding starts_with_def by (metis append_take_drop_id append_eq_conv_conj)

section \<open>Numbers in decimal and hexadecimal\<close>

fun dec_value :: "nat \<Rightarrow> string \<Rightarrow> nat" where
  "dec_value acc [] = acc"
| "dec_value acc (c # cs) = dec_value (10 * acc + (code c - 48)) cs"

definition hex_digit :: "char \<Rightarrow> nat" where
  "hex_digit c =
     (let n = code c in if n \<le> 57 then n - 48 else if n \<le> 70 then n - 55 else n - 87)"

fun hex_value :: "nat \<Rightarrow> string \<Rightarrow> nat" where
  "hex_value acc [] = acc"
| "hex_value acc (c # cs) = hex_value (16 * acc + hex_digit c) cs"

fun show_dec :: "nat \<Rightarrow> string" where
  "show_dec n = (if n < 10 then [char_of (48 + n)] else show_dec (n div 10) @ [char_of (48 + n mod 10)])"

definition hex_char :: "nat \<Rightarrow> char" where
  "hex_char d = (if d < 10 then char_of (48 + d) else char_of (87 + d))"

fun show_hex :: "nat \<Rightarrow> string" where
  "show_hex n = (if n < 16 then [hex_char n] else show_hex (n div 16) @ [hex_char (n mod 16)])"

definition show_int :: "int \<Rightarrow> string" where
  "show_int n = (if n < 0 then CHR ''-'' # show_dec (nat (- n)) else show_dec (nat n))"

declare show_dec.simps [simp del] show_hex.simps [simp del]

lemma dec_value_append: "dec_value acc (xs @ ys) = dec_value (dec_value acc xs) ys"
  by (induction xs arbitrary: acc) auto

lemma code_digit: "n < 10 \<Longrightarrow> code (char_of (48 + n) :: char) = 48 + n"
  by (simp add: of_char_of)

lemma dec_value_show: "dec_value 0 (show_dec n) = n"
proof (induction n rule: show_dec.induct)
  case (1 n)
  show ?case
  proof (cases "n < 10")
    case True
    then show ?thesis by (subst show_dec.simps) (simp add: code_digit)
  next
    case False
    with "1" show ?thesis by (subst show_dec.simps) (simp add: dec_value_append code_digit)
  qed
qed

lemma show_dec_digits: "c \<in> set (show_dec n) \<Longrightarrow> is_dec c"
proof (induction n rule: show_dec.induct)
  case (1 n)
  show ?case
  proof (cases "n < 10")
    case True
    with "1.prems" show ?thesis by (subst (asm) show_dec.simps) (simp add: code_digit is_dec_def)
  next
    case False
    with "1.prems" have "c \<in> set (show_dec (n div 10)) \<or> c = char_of (48 + n mod 10)"
      by (subst (asm) show_dec.simps) auto
    with False "1.IH" show ?thesis
      using code_digit [of "n mod 10"] by (auto simp: is_dec_def)
  qed
qed

lemma show_dec_nonempty: "show_dec n \<noteq> []"
  by (subst show_dec.simps) simp

lemma show_dec_inj: "show_dec m = show_dec n \<Longrightarrow> m = n"
  using dec_value_show by metis

text \<open>\<^verbatim>\<open>str(n).zfill(k)\<close> of a number below \<open>10 ^ k\<close>.\<close>

definition zfill :: "nat \<Rightarrow> string \<Rightarrow> string" where
  "zfill k s = replicate (k - length s) (char_of (48 :: nat)) @ s"

lemma length_show_dec_le: "n < 10 ^ k \<Longrightarrow> 0 < k \<Longrightarrow> length (show_dec n) \<le> k"
proof (induction k arbitrary: n)
  case 0
  then show ?case by simp
next
  case (Suc k)
  show ?case
  proof (cases "n < 10")
    case True
    then show ?thesis by (subst show_dec.simps) simp
  next
    case False
    have "n div 10 < 10 ^ k" using Suc.prems by (simp add: less_mult_imp_div_less mult.commute)
    moreover have "0 < k" using False Suc.prems by (cases k) auto
    ultimately have "length (show_dec (n div 10)) \<le> k" by (rule Suc.IH)
    with False show ?thesis by (subst show_dec.simps) simp
  qed
qed

lemma length_zfill: "n < 10 ^ k \<Longrightarrow> 0 < k \<Longrightarrow> length (zfill k (show_dec n)) = k"
  using length_show_dec_le by (simp add: zfill_def)

lemma dec_value_zeros: "dec_value 0 (replicate m (char_of (48 :: nat)) @ s) = dec_value 0 s"
  by (induction m) (simp_all add: of_char_of)

lemma dec_value_zfill: "dec_value 0 (zfill k (show_dec n)) = n"
  by (simp add: zfill_def dec_value_zeros dec_value_show)

end
