(* ===== verification/Ip_Address.thy ===== *)
theory Ip_Address
  imports Py_Text
begin

text \<open>
  The part of Python's \<^verbatim>\<open>ipaddress\<close> that the ban list uses: reading and printing one address,
  reading a network with \<^verbatim>\<open>strict=False\<close>, membership and the IPv4-mapped form. An address is its
  integer value; an IPv6 address keeps its scope. \<open>None\<close> is the \<^verbatim>\<open>ValueError\<close> of the library.
\<close>

datatype ip_addr = V4 nat | V6 nat "string option"

datatype ip_net = Net4 nat nat | Net6 nat nat  \<comment> \<open>network address and prefix length\<close>

section \<open>IPv4\<close>

definition parse_octet :: "string \<Rightarrow> nat option" where
  "parse_octet s =
     (if s = [] \<or> \<not> list_all is_dec s \<or> 3 < length s then None
      else if s \<noteq> ''0'' \<and> hd s = CHR ''0'' then None
      else let n = dec_value 0 s in if 255 < n then None else Some n)"

definition parse_v4 :: "string \<Rightarrow> nat option" where
  "parse_v4 s =
     (case py_split (CHR ''.'') s of
        [a, b, c, d] \<Rightarrow>
          (case (parse_octet a, parse_octet b, parse_octet c, parse_octet d) of
             (Some w, Some x, Some y, Some z) \<Rightarrow> Some (((w * 256 + x) * 256 + y) * 256 + z)
           | _ \<Rightarrow> None)
      | _ \<Rightarrow> None)"

definition show_v4 :: "nat \<Rightarrow> string" where
  "show_v4 n = py_join ''.'' [show_dec (n div 16777216), show_dec (n div 65536 mod 256),
     show_dec (n div 256 mod 256), show_dec (n mod 256)]"

section \<open>IPv6\<close>

definition parse_hextet :: "string \<Rightarrow> nat option" where
  "parse_hextet s = (if s = [] \<or> \<not> list_all is_hex s \<or> 4 < length s then None else Some (hex_value 0 s))"

fun hextets :: "nat \<Rightarrow> string list \<Rightarrow> nat option" where
  "hextets acc [] = Some acc"
| "hextets acc (p # ps) =
     (case parse_hextet p of None \<Rightarrow> None | Some h \<Rightarrow> hextets (acc * 65536 + h) ps)"

text \<open>An IPv4-style suffix becomes two hexadecimal groups.\<close>

definition v6_parts :: "string \<Rightarrow> string list option" where
  "v6_parts s =
     (let parts = py_split (CHR '':'') s in
      if length parts < 3 then None
      else if CHR ''.'' \<in> set (last parts) then
        (case parse_v4 (last parts) of
           None \<Rightarrow> None
         | Some n \<Rightarrow> Some (butlast parts @ [show_hex (n div 65536), show_hex (n mod 65536)]))
      else Some parts)"

definition parse_v6_int :: "string \<Rightarrow> nat option" where
  "parse_v6_int s =
     (case v6_parts s of
        None \<Rightarrow> None
      | Some parts \<Rightarrow>
          if 9 < length parts then None
          else
            (case filter (\<lambda>i. parts ! i = []) [1..<length parts - 1] of
               [] \<Rightarrow> if length parts = 8 then hextets 0 parts else None
             | [k] \<Rightarrow>
                 let hi = (if hd parts = [] then k - 1 else k);
                     lo0 = length parts - k - 1;
                     lo = (if last parts = [] then lo0 - 1 else lo0)
                 in if (hd parts = [] \<and> hi \<noteq> 0) \<or> (last parts = [] \<and> lo \<noteq> 0) then None
                    else if 8 < hi + lo + 1 then None
                    else (case hextets 0 (take hi parts) of
                            None \<Rightarrow> None
                          | Some a \<Rightarrow> hextets (a * 65536 ^ (8 - (hi + lo))) (drop (length parts - lo) parts))
             | _ \<Rightarrow> None))"

definition parse_v6 :: "string \<Rightarrow> ip_addr option" where
  "parse_v6 s =
     (case py_split (CHR ''%'') s of
        [a] \<Rightarrow> map_option (\<lambda>n. V6 n None) (parse_v6_int a)
      | [a, sc] \<Rightarrow> if sc = [] then None else map_option (\<lambda>n. V6 n (Some sc)) (parse_v6_int a)
      | _ \<Rightarrow> None)"

text \<open>Printing compresses the first longest run of at least two zero groups.\<close>

fun zero_run :: "nat list \<Rightarrow> nat" where
  "zero_run (0 # xs) = Suc (zero_run xs)"
| "zero_run xs = 0"

definition best_run :: "nat list \<Rightarrow> nat \<times> nat" where
  "best_run hs = fold (\<lambda>i (b, l). if l < zero_run (drop i hs) then (i, zero_run (drop i hs)) else (b, l))
     [0..<length hs] (0, 0)"

definition v6_groups :: "nat \<Rightarrow> nat list" where
  "v6_groups n = map (\<lambda>i. n div 65536 ^ (7 - i) mod 65536) [0..<8]"

definition show_v6_int :: "nat \<Rightarrow> string" where
  "show_v6_int n =
     (let hs = v6_groups n; r = best_run hs; b = fst r; l = snd r; hex = map show_hex in
      if l > 1
      then py_join '':'' (hex (take b hs)) @ ''::'' @ py_join '':'' (hex (drop (b + l) hs))
      else py_join '':'' (hex hs))"

section \<open>Addresses\<close>

definition ip_address :: "string \<Rightarrow> ip_addr option" where
  "ip_address s =
     (if CHR ''/'' \<in> set s then None
      else case parse_v4 s of Some n \<Rightarrow> Some (V4 n) | None \<Rightarrow> parse_v6 s)"

definition show_ip :: "ip_addr \<Rightarrow> string" where
  "show_ip a = (case a of V4 n \<Rightarrow> show_v4 n
     | V6 n None \<Rightarrow> show_v6_int n
     | V6 n (Some sc) \<Rightarrow> show_v6_int n @ ''%'' @ sc)"

definition ipv4_mapped :: "ip_addr \<Rightarrow> ip_addr option" where
  "ipv4_mapped a = (case a of V4 n \<Rightarrow> None
     | V6 n sc \<Rightarrow> if n div 2 ^ 32 = 65535 then Some (V4 (n mod 2 ^ 32)) else None)"

section \<open>Networks\<close>

text \<open>
  The part after the slash: a prefix length, or for IPv4 a netmask or a host mask in dotted form.
\<close>

definition parse_prefix :: "nat \<Rightarrow> string \<Rightarrow> nat option" where
  "parse_prefix w s =
     (if s = [] \<or> \<not> list_all is_dec s then None
      else let n = dec_value 0 s in if w < n then None else Some n)"

definition mask_prefix :: "nat \<Rightarrow> nat option" where
  "mask_prefix m = find (\<lambda>p. m = 2 ^ 32 - 2 ^ (32 - p)) [0..<33]"

definition parse_mask4 :: "string \<Rightarrow> nat option" where
  "parse_mask4 s =
     (case parse_prefix 32 s of
        Some p \<Rightarrow> Some p
      | None \<Rightarrow>
          (case parse_v4 s of
             None \<Rightarrow> None
           | Some m \<Rightarrow>
               (case mask_prefix m of Some p \<Rightarrow> Some p | None \<Rightarrow> mask_prefix (2 ^ 32 - 1 - m))))"

definition net_base :: "nat \<Rightarrow> nat \<Rightarrow> nat \<Rightarrow> nat" where
  "net_base w p n = n div 2 ^ (w - p) * 2 ^ (w - p)"

definition ip_network :: "string \<Rightarrow> ip_net option" where
  "ip_network s =
     (let pieces = py_split (CHR ''/'') s in
      if 2 < length pieces then None
      else
        let a = hd pieces in
        case (parse_v4 a, if length pieces = 1 then Some 32 else parse_mask4 (pieces ! 1)) of
          (Some n, Some p) \<Rightarrow> Some (Net4 (net_base 32 p n) p)
        | _ \<Rightarrow>
            (case (parse_v6 a, if length pieces = 1 then Some 128 else parse_prefix 128 (pieces ! 1)) of
               (Some (V6 n _), Some p) \<Rightarrow> Some (Net6 (net_base 128 p n) p)
             | _ \<Rightarrow> None))"

definition show_net :: "ip_net \<Rightarrow> string" where
  "show_net n = (case n of Net4 a p \<Rightarrow> show_v4 a @ ''/'' @ show_dec p
     | Net6 a p \<Rightarrow> show_v6_int a @ ''/'' @ show_dec p)"

definition in_net :: "ip_addr \<Rightarrow> ip_net \<Rightarrow> bool" where
  "in_net a n = (case (a, n) of
       (V4 x, Net4 b p) \<Rightarrow> net_base 32 p x = b
     | (V6 x _, Net6 b p) \<Rightarrow> net_base 128 p x = b
     | _ \<Rightarrow> False)"

section \<open>Reading back what was printed\<close>

lemma py_split_no_sep: "c \<notin> set s \<Longrightarrow> py_split c s = [s]"
  by (induction s) auto

lemma py_split_append: "c \<notin> set s \<Longrightarrow> py_split c (s @ c # t) = s # py_split c t"
  by (induction s) auto

lemma parse_octet_show: "n < 256 \<Longrightarrow> parse_octet (show_dec n) = Some n"
proof -
  assume n: "n < 256"
  have "length (show_dec n) \<le> 3" using n by (intro length_show_dec_le) auto
  moreover have "hd (show_dec n) \<noteq> CHR ''0'' \<or> show_dec n = ''0''"
  proof (cases "n < 10")
    case True
    then show ?thesis
      by (subst (1 2) show_dec.simps, cases "n = 0") (auto dest: arg_cong [where f = "of_char :: char \<Rightarrow> nat"] simp: code_digit)
  next
    case False
    have "\<forall>m. 0 < m \<longrightarrow> hd (show_dec m) \<noteq> CHR ''0''"
    proof (intro allI impI)
      fix m :: nat assume "0 < m"
      then show "hd (show_dec m) \<noteq> CHR ''0''"
      proof (induction m rule: show_dec.induct)
        case (1 m)
        show ?case
        proof (cases "m < 10")
          case True
          then have "code (char_of (48 + m) :: char) \<noteq> code (CHR ''0'')"
            using 1 by (simp add: code_digit)
          then have "char_of (48 + m) \<noteq> CHR ''0''" by metis
          then show ?thesis using True by (subst show_dec.simps) simp
        next
          case False
          with 1 show ?thesis by (subst show_dec.simps) (simp add: show_dec_nonempty)
        qed
      qed
    qed
    with False show ?thesis by simp
  qed
  ultimately show ?thesis
    using n show_dec_nonempty [of n] show_dec_digits [of _ n]
    by (auto simp: parse_octet_def dec_value_show list_all_iff)
qed

lemma dot_not_dec: "CHR ''.'' \<notin> set (show_dec n)"
  using show_dec_digits [of "CHR ''.''" n] by (auto simp: is_dec_def)

lemma v4_octets:
  "((n div 16777216 * 256 + n div 65536 mod 256) * 256 + n div 256 mod 256) * 256 + n mod 256 = (n :: nat)"
proof -
  have a: "n div 16777216 * 256 + n div 65536 mod 256 = n div 65536"
    using div_mult_mod_eq [of "n div 65536" 256] by (simp add: div_mult2_eq [symmetric])
  have b: "n div 65536 * 256 + n div 256 mod 256 = n div 256"
    using div_mult_mod_eq [of "n div 256" 256] by (simp add: div_mult2_eq [symmetric])
  show ?thesis using a b div_mult_mod_eq [of n 256] by simp
qed

lemma parse_v4_show: "n < 2 ^ 32 \<Longrightarrow> parse_v4 (show_v4 n) = Some n"
proof -
  assume n: "n < 2 ^ 32"
  have "py_split (CHR ''.'') (show_v4 n) = [show_dec (n div 16777216), show_dec (n div 65536 mod 256),
     show_dec (n div 256 mod 256), show_dec (n mod 256)]"
    by (simp add: show_v4_def py_split_append py_split_no_sep dot_not_dec)
  moreover have "n div 16777216 < 256" using n by (simp add: less_mult_imp_div_less)
  ultimately show ?thesis using v4_octets [of n] by (simp add: parse_v4_def parse_octet_show)
qed

lemma slash_not_show_v4: "CHR ''/'' \<notin> set (show_v4 n)"
  using show_dec_digits [of "CHR ''/''"] by (auto simp: show_v4_def is_dec_def)

lemma ip_address_show_v4: "n < 2 ^ 32 \<Longrightarrow> ip_address (show_v4 n) = Some (V4 n)"
  by (simp add: ip_address_def parse_v4_show slash_not_show_v4)

end
