(* ===== verification/Ban_Jail.thy ===== *)
theory Ban_Jail
  imports Ip_Address
begin

text \<open>
  \<^verbatim>\<open>lib/services/ipban/jail.py\<close>: the progressive per-address jail every port-exposing service
  shares, in the mode without a database store. A \<open>jail\<close> holds the configuration
  (\<^verbatim>\<open>configure\<close>), the offence times per address and track, the attempt history and the bans.
  The injected callbacks \<^verbatim>\<open>persist\<close> and \<^verbatim>\<open>notify\<close> are outputs: an operation answers the
  effects it causes, in order, and the two flags of the configuration say whether the callbacks
  were given. Each operation takes the clock readings it makes. The mode backed by the shared
  database is in theory \<open>Ban_Store\<close>.
\<close>

section \<open>State\<close>

datatype track = Auth | Authz

definition category_track :: "(string, track) dict" where
  "category_track =
     [(''login_failed'', Auth), (''login_throttled'', Auth), (''csrf_failed'', Auth),
      (''scim_auth_failed'', Auth), (''unauthorized'', Auth), (''forbidden_anon'', Auth),
      (''syslog_drop'', Auth), (''forbidden'', Authz)]"

record ban_rec =
  b_ip :: string
  b_until :: "time option"  \<comment> \<open>\<^verbatim>\<open>None\<close> is permanent\<close>
  b_level :: int
  b_reason :: string
  b_category :: string
  b_banned_at :: time
  b_by :: string
  b_first_seen :: time
  b_offenses :: int
  b_detail :: string
  b_block_action :: string

record attempt =
  a_ts :: time
  a_category :: string
  a_track :: track

record jail_cfg =
  c_enabled :: bool
  c_auth_threshold :: int
  c_auth_window :: time
  c_authz_threshold :: int
  c_authz_window :: time
  c_durations :: "int list"
  c_permanent_after :: int
  c_whitelist :: "ip_net list"
  c_persist :: bool
  c_notify :: bool

record jail =
  j_cfg :: jail_cfg
  j_offenses :: "(string, (track, time list) dict) dict"
  j_history :: "(string, attempt list) dict"
  j_jail :: "(string, ban_rec) dict"
  j_last_gc :: time

datatype effect =
    Persist string "ban_rec option"
  | Notify string string  \<comment> \<open>action and address\<close>

definition default_durations :: "int list" where
  "default_durations = [900, 3600, 21600, 86400]"

definition offense_max_ips :: nat where
  "offense_max_ips = 4096"

definition parse_nets :: "string list \<Rightarrow> ip_net list" where
  "parse_nets vs = List.map_filter (\<lambda>s. let t = py_strip s in if t = [] then None else ip_network t) vs"

definition loopback_nets :: "ip_net list" where
  "loopback_nets = parse_nets [''127.0.0.0/8'', ''::1'']"

definition jail_init :: "bool \<Rightarrow> bool \<Rightarrow> jail" where
  "jail_init persist notify =
     \<lparr>j_cfg = \<lparr>c_enabled = True, c_auth_threshold = 10, c_auth_window = 600,
               c_authz_threshold = 30, c_authz_window = 600, c_durations = default_durations,
               c_permanent_after = int (length default_durations), c_whitelist = loopback_nets,
               c_persist = persist, c_notify = notify\<rparr>,
      j_offenses = [], j_history = [], j_jail = [], j_last_gc = 0\<rparr>"

section \<open>Configuration\<close>

text \<open>The keyword arguments of \<^verbatim>\<open>configure\<close>; \<open>None\<close> leaves the setting alone.\<close>

record jail_update =
  u_enabled :: "bool option"
  u_auth_threshold :: "int option"
  u_auth_window :: "time option"
  u_authz_threshold :: "int option"
  u_authz_window :: "time option"
  u_durations :: "int list option"
  u_permanent_after :: "int option"
  u_whitelist :: "string list option"
  u_extra_whitelist :: "string list option"

fun dedup_nets :: "string list \<Rightarrow> ip_net list \<Rightarrow> ip_net list" where
  "dedup_nets seen [] = []"
| "dedup_nets seen (n # ns) =
     (if show_net n \<in> set seen then dedup_nets seen ns else n # dedup_nets (show_net n # seen) ns)"

definition configure :: "jail \<Rightarrow> jail_update \<Rightarrow> jail" where
  "configure j u =
     (let c = j_cfg j;
          ds = (case u_durations u of
                  None \<Rightarrow> c_durations c
                | Some xs \<Rightarrow> let ys = map (max 1) xs in if ys = [] then default_durations else ys);
          wl = (if u_whitelist u \<noteq> None \<or> u_extra_whitelist u \<noteq> None
                then let base = (case u_whitelist u of Some w \<Rightarrow> parse_nets w | None \<Rightarrow> c_whitelist c)
                     in dedup_nets [] (base @ parse_nets (opt (u_extra_whitelist u) []) @ loopback_nets)
                else c_whitelist c)
      in j\<lparr>j_cfg := c\<lparr>
           c_enabled := opt (u_enabled u) (c_enabled c),
           c_auth_threshold := opt (map_option (max 0) (u_auth_threshold u)) (c_auth_threshold c),
           c_auth_window := opt (map_option (max 1) (u_auth_window u)) (c_auth_window c),
           c_authz_threshold := opt (map_option (max 0) (u_authz_threshold u)) (c_authz_threshold c),
           c_authz_window := opt (map_option (max 1) (u_authz_window u)) (c_authz_window c),
           c_durations := ds,
           c_permanent_after := opt (map_option (max 0) (u_permanent_after u)) (c_permanent_after c),
           c_whitelist := wl\<rparr>\<rparr>)"

section \<open>Addresses and tracks\<close>

definition normalize_ip :: "string \<Rightarrow> string" where
  "normalize_ip ip =
     (if ip = [] then ip
      else case ip_address (py_strip ip) of
             None \<Rightarrow> ip
           | Some a \<Rightarrow> (case ipv4_mapped a of None \<Rightarrow> ip | Some m \<Rightarrow> show_ip m))"

definition whitelisted_in :: "ip_net list \<Rightarrow> string \<Rightarrow> bool" where
  "whitelisted_in nets ip0 =
     (let ip = normalize_ip ip0 in
      if ip = [] then False
      else case ip_address ip of None \<Rightarrow> False | Some a \<Rightarrow> list_ex (in_net a) nets)"

definition is_whitelisted :: "jail \<Rightarrow> string \<Rightarrow> bool" where
  "is_whitelisted j ip = whitelisted_in (c_whitelist (j_cfg j)) ip"

definition track_for :: "string \<Rightarrow> track" where
  "track_for category = dget category_track category Auth"

definition threshold_window :: "jail_cfg \<Rightarrow> track \<Rightarrow> int \<times> time" where
  "threshold_window c t =
     (case t of Authz \<Rightarrow> (c_authz_threshold c, c_authz_window c)
              | Auth \<Rightarrow> (c_auth_threshold c, c_auth_window c))"

section \<open>The query\<close>

text \<open>\<^verbatim>\<open>not until or now >= until\<close>: a term of 0 counts as over.\<close>

definition term_over :: "time \<Rightarrow> time \<Rightarrow> bool" where
  "term_over now u = (u = 0 \<or> u \<le> now)"

definition is_banned :: "jail \<Rightarrow> string \<Rightarrow> time \<Rightarrow> (bool \<times> int \<times> string) \<times> jail" where
  "is_banned j ip0 now =
     (let ip = normalize_ip ip0 in
      if \<not> c_enabled (j_cfg j) \<or> ip = [] \<or> is_whitelisted j ip then ((False, 0, []), j)
      else case map_of (j_jail j) ip of
             None \<Rightarrow> ((False, 0, []), j)
           | Some r \<Rightarrow>
               (case b_until r of
                  None \<Rightarrow> ((True, 31536000, b_reason r), j)
                | Some u \<Rightarrow>
                    if term_over now u
                    then ((False, 0, []), j\<lparr>j_jail := AList.update ip (r\<lparr>b_until := Some 0\<rparr>) (j_jail j)\<rparr>)
                    else ((True, max 1 (py_trunc (u - now)), b_reason r), j)))"

definition is_banned_flag :: "jail \<Rightarrow> string \<Rightarrow> time \<Rightarrow> bool \<times> jail" where
  "is_banned_flag j ip now = (let r = is_banned j ip now in (fst (fst r), snd r))"

section \<open>Bans\<close>

text \<open>
  The record of the next ban: the level is one more than the previous ban's, and the term is the
  forced one, permanent past \<open>c_permanent_after\<close>, or the rung of the ladder.
\<close>

definition rung :: "int list \<Rightarrow> int \<Rightarrow> int" where
  "rung ds i = (if i < 0 then ds ! nat (int (length ds) + i) else ds ! nat i)"

definition ban_term :: "jail_cfg \<Rightarrow> int \<Rightarrow> int option \<Rightarrow> time \<Rightarrow> time option" where
  "ban_term c level forced now =
     (case forced of
        Some d \<Rightarrow> if d \<le> 0 then None else Some (now + of_int d)
      | None \<Rightarrow>
          if c_permanent_after c \<noteq> 0 \<and> level > c_permanent_after c then None
          else let idx = min (level - 1) (int (length (c_durations c)) - 1)
               in Some (now + of_int (rung (c_durations c) idx)))"

definition next_ban ::
  "jail_cfg \<Rightarrow> ban_rec option \<Rightarrow> string \<Rightarrow> string \<Rightarrow> string \<Rightarrow> string \<Rightarrow> string \<Rightarrow> int \<Rightarrow> int option \<Rightarrow> time \<Rightarrow> ban_rec" where
  "next_ban c prev ip category reason by detail offenses forced now =
     (let level = (case prev of Some p \<Rightarrow> b_level p | None \<Rightarrow> 0) + 1
      in \<lparr>b_ip = ip, b_until = ban_term c level forced now, b_level = level, b_reason = reason,
          b_category = category, b_banned_at = now, b_by = by,
          b_first_seen = (case prev of Some p \<Rightarrow> b_first_seen p | None \<Rightarrow> now),
          b_offenses = (case prev of Some p \<Rightarrow> b_offenses p | None \<Rightarrow> 0)
            + (if offenses = 0 then 1 else offenses),
          b_detail = detail,
          b_block_action = (case prev of Some p \<Rightarrow> b_block_action p | None \<Rightarrow> [])\<rparr>)"

definition ban_locked ::
  "jail \<Rightarrow> string \<Rightarrow> string \<Rightarrow> string \<Rightarrow> string \<Rightarrow> string \<Rightarrow> int \<Rightarrow> int option \<Rightarrow> time \<Rightarrow> ban_rec \<times> jail \<times> effect list" where
  "ban_locked j ip category reason by detail offenses forced now =
     (let r = next_ban (j_cfg j) (map_of (j_jail j) ip) ip category reason by detail offenses forced now
      in (r, j\<lparr>j_jail := AList.update ip r (j_jail j)\<rparr>,
          if c_persist (j_cfg j) then [Persist ip (Some r)] else []))"

definition notify_ban :: "jail_cfg \<Rightarrow> ban_rec \<Rightarrow> effect list" where
  "notify_ban c r =
     (if c_notify c
      then [Notify (if (if b_level r = 0 then 1 else b_level r) > 1 then ''ban_escalated'' else ''banned'') (b_ip r)]
      else [])"

definition ban :: "jail \<Rightarrow> string \<Rightarrow> int option \<Rightarrow> string \<Rightarrow> string \<Rightarrow> time \<Rightarrow> ban_rec option \<times> jail \<times> effect list" where
  "ban j ip0 duration reason by now =
     (let ip = normalize_ip ip0 in
      if ip = [] \<or> is_whitelisted j ip then (None, j, [])
      else let (r, j', es) = ban_locked j ip reason reason by [] 0 duration now
           in (Some r, j', es @ notify_ban (j_cfg j) r))"

definition unban :: "jail \<Rightarrow> string \<Rightarrow> bool \<times> jail \<times> effect list" where
  "unban j ip0 =
     (let ip = normalize_ip ip0 in
      if ip = [] then (False, j, [])
      else
        let existed = (map_of (j_jail j) ip \<noteq> None);
            j' = j\<lparr>j_jail := AList.delete ip (j_jail j), j_offenses := AList.delete ip (j_offenses j),
                   j_history := AList.delete ip (j_history j)\<rparr>;
            es = (if existed
                  then (if c_persist (j_cfg j) then [Persist ip None] else [])
                    @ (if c_notify (j_cfg j) then [Notify ''unbanned'' ip] else [])
                  else [])
        in (existed, j', es))"

definition block_actions :: "string list" where
  "block_actions = [''page'', ''minimal'', ''reject'', ''json'']"

definition set_block_action :: "jail \<Rightarrow> string \<Rightarrow> string \<Rightarrow> bool \<times> jail" where
  "set_block_action j ip0 action0 =
     (let ip = normalize_ip ip0;
          action = (if action0 \<in> set block_actions then action0 else [])
      in case map_of (j_jail j) ip of
           None \<Rightarrow> (False, j)
         | Some r \<Rightarrow> (True, j\<lparr>j_jail := AList.update ip (r\<lparr>b_block_action := action\<rparr>) (j_jail j)\<rparr>))"

definition block_action :: "jail \<Rightarrow> string \<Rightarrow> string" where
  "block_action j ip0 =
     (let ip = normalize_ip ip0 in
      if ip = [] then []
      else case map_of (j_jail j) ip of None \<Rightarrow> [] | Some r \<Rightarrow> b_block_action r)"

definition clear_offenses :: "jail \<Rightarrow> string \<Rightarrow> bool \<times> jail" where
  "clear_offenses j ip0 =
     (let ip = normalize_ip ip0 in
      if ip = [] then (False, j)
      else (map_of (j_offenses j) ip \<noteq> None,
            j\<lparr>j_offenses := AList.delete ip (j_offenses j), j_history := AList.delete ip (j_history j)\<rparr>))"

section \<open>Offence intake\<close>

definition stale_offender :: "time \<Rightarrow> time \<Rightarrow> (track, time list) dict \<Rightarrow> bool" where
  "stale_offender now max_window per =
     list_all (\<lambda>(t, dq). dq = [] \<or> last dq \<le> now - max_window) per"

definition jail_gc :: "jail \<Rightarrow> time \<Rightarrow> jail" where
  "jail_gc j now =
     (if now - j_last_gc j < 300 then j
      else
        let max_window = max (c_auth_window (j_cfg j)) (c_authz_window (j_cfg j));
            stale = map fst (filter (\<lambda>(ip, per). stale_offender now max_window per) (j_offenses j))
        in j\<lparr>j_last_gc := now,
             j_offenses := filter (\<lambda>(ip, per). ip \<notin> set stale) (j_offenses j),
             j_history := filter (\<lambda>(ip, h). \<not> (ip \<in> set stale \<and> map_of (j_jail j) ip = None)) (j_history j)\<rparr>)"

definition push_bounded :: "nat \<Rightarrow> 'a list \<Rightarrow> 'a \<Rightarrow> 'a list" where
  "push_bounded n xs x = (let ys = xs @ [x] in drop (length ys - n) ys)"

definition register_offense ::
  "jail \<Rightarrow> string \<Rightarrow> string \<Rightarrow> int \<Rightarrow> string \<Rightarrow> time \<Rightarrow> time \<Rightarrow> bool \<times> jail \<times> effect list" where
  "register_offense j ip0 category weight detail now now' =
     (let ip = normalize_ip ip0 in
      if \<not> c_enabled (j_cfg j) \<or> ip = [] \<or> weight \<le> 0 \<or> is_whitelisted j ip then (False, j, [])
      else
        let track = track_for category; (threshold, window) = threshold_window (j_cfg j) track in
        if threshold \<le> 0 then (False, j, [])
        else
          let j1 = jail_gc j now; per0 = map_of (j_offenses j1) ip in
          if per0 = None \<and> offense_max_ips \<le> length (j_offenses j1) then (False, j1, [])
          else
            let per = opt per0 [];
                dq = dropWhile (\<lambda>t. t \<le> now - window) (dget per track []) @ replicate (nat weight) now;
                hist = push_bounded 200 (dget (j_history j1) ip [])
                         \<lparr>a_ts = now, a_category = category, a_track = track\<rparr>;
                count = int (length dq);
                fire = (threshold \<le> count);
                per' = AList.update track (if fire then [] else dq) per;
                j2 = j1\<lparr>j_offenses := AList.update ip per' (j_offenses j1),
                        j_history := AList.update ip hist (j_history j1)\<rparr>
            in if fire
               then let (r, j3, es) = ban_locked j2 ip category category ''system'' detail count None now'
                    in (True, j3, es @ notify_ban (j_cfg j) r)
               else (False, j2, []))"

section \<open>Listings and boot\<close>

definition jail_history :: "jail \<Rightarrow> string \<Rightarrow> int \<Rightarrow> attempt list" where
  "jail_history j ip limit = take (nat (max 1 limit)) (rev (dget (j_history j) (normalize_ip ip) []))"

definition load_bans :: "jail \<Rightarrow> ban_rec list \<Rightarrow> jail" where
  "load_bans j rs =
     fold (\<lambda>r k. if b_ip r = [] then k else k\<lparr>j_jail := AList.update (b_ip r) r (j_jail k)\<rparr>) rs j"

definition ban_active :: "time \<Rightarrow> ban_rec \<Rightarrow> bool" where
  "ban_active now r = (case b_until r of None \<Rightarrow> True | Some u \<Rightarrow> u \<noteq> 0 \<and> now < u)"

record ban_row =
  r_ban :: ban_rec
  r_active :: bool
  r_permanent :: bool
  r_retry_after :: "int option"

definition ban_row_of :: "time \<Rightarrow> ban_rec \<Rightarrow> ban_row" where
  "ban_row_of now r =
     \<lparr>r_ban = r, r_active = ban_active now r, r_permanent = (b_until r = None),
      r_retry_after = (case b_until r of None \<Rightarrow> None
        | Some u \<Rightarrow> Some (if u = 0 then 0 else max 0 (py_trunc (u - now))))\<rparr>"

definition list_bans :: "jail \<Rightarrow> bool \<Rightarrow> time \<Rightarrow> ban_row list" where
  "list_bans j active_only now =
     sort_key (\<lambda>d. - b_banned_at (r_ban d))
       (map (ban_row_of now) (filter (\<lambda>r. \<not> active_only \<or> ban_active now r) (map snd (j_jail j))))"

record track_row =
  t_count :: int
  t_threshold :: int
  t_remaining :: int

record offender =
  o_ip :: string
  o_tracks :: "(track, track_row) dict"
  o_total :: int
  o_remaining :: int

definition track_rows :: "jail_cfg \<Rightarrow> time \<Rightarrow> (track, time list) dict \<Rightarrow> (track, track_row) dict" where
  "track_rows c now per =
     List.map_filter (\<lambda>(t, dq).
       let (threshold, window) = threshold_window c t;
           cnt = int (length (filter (\<lambda>x. now - window < x) dq))
       in if threshold \<le> 0 \<or> cnt \<le> 0 then None
          else Some (t, \<lparr>t_count = cnt, t_threshold = threshold, t_remaining = max 0 (threshold - cnt)\<rparr>)) per"

definition offender_of :: "jail \<Rightarrow> int \<Rightarrow> time \<Rightarrow> string \<times> (track, time list) dict \<Rightarrow> offender option" where
  "offender_of j min_count now p =
     (let (ip, per) = p in
      if (case map_of (j_jail j) ip of None \<Rightarrow> False | Some r \<Rightarrow> ban_active now r) then None
      else
        let rows = track_rows (j_cfg j) now per; total = sum_list (map (t_count \<circ> snd) rows)
        in if rows \<noteq> [] \<and> min_count \<le> total
           then Some \<lparr>o_ip = ip, o_tracks = rows, o_total = total,
                      o_remaining = Min (set (map (t_remaining \<circ> snd) rows))\<rparr>
           else None)"

definition list_offenders :: "jail \<Rightarrow> int \<Rightarrow> time \<Rightarrow> offender list" where
  "list_offenders j min_count now =
     sort_key (\<lambda>d. (o_remaining d, - o_total d)) (List.map_filter (offender_of j min_count now) (j_offenses j))"

section \<open>The request body of a manual ban\<close>

datatype json = JNull | JBool bool | JInt int | JStr string

text \<open>\<^verbatim>\<open>str(v)\<close> and \<^verbatim>\<open>int(v)\<close> of a scalar of the body; \<open>None\<close> is a \<^verbatim>\<open>ValueError\<close>.\<close>

definition str_of :: "json \<Rightarrow> string" where
  "str_of v = (case v of JNull \<Rightarrow> ''None'' | JBool b \<Rightarrow> if b then ''True'' else ''False''
     | JInt n \<Rightarrow> show_int n | JStr s \<Rightarrow> s)"

text \<open>\<^verbatim>\<open>int(s)\<close> of a text: white space around, one sign, digits that single underscores may part.\<close>

definition int_of_text :: "string \<Rightarrow> int option" where
  "int_of_text s0 =
     (let s = py_strip s0; neg = (s \<noteq> [] \<and> hd s = CHR ''-'');
          body = (if s \<noteq> [] \<and> (hd s = CHR ''-'' \<or> hd s = CHR ''+'') then tl s else s);
          groups = py_split (CHR ''_'') body
      in if list_all (\<lambda>g. g \<noteq> [] \<and> list_all is_dec g) groups
         then Some (let n = int (dec_value 0 (concat groups)) in if neg then - n else n) else None)"

definition int_of :: "json \<Rightarrow> int option" where
  "int_of v = (case v of JNull \<Rightarrow> None | JBool b \<Rightarrow> Some (if b then 1 else 0) | JInt n \<Rightarrow> Some n
     | JStr s \<Rightarrow> int_of_text s)"

definition json_truthy :: "json \<Rightarrow> bool" where
  "json_truthy v = (case v of JNull \<Rightarrow> False | JBool b \<Rightarrow> b | JInt n \<Rightarrow> n \<noteq> 0 | JStr s \<Rightarrow> s \<noteq> [])"

text \<open>
  The answer is the error key, or the address, the forced duration and the reason. The clean-up
  of the reason is that of the source: strip, cut at \<open>max_reason\<close>, \<^verbatim>\<open>manual\<close> when nothing is left.
\<close>

definition parse_manual_ban :: "(string, json) dict \<Rightarrow> nat \<Rightarrow> string + string \<times> int option \<times> string" where
  "parse_manual_ban data max_reason =
     (let ip0 = py_strip (str_of (dget data ''ip'' (JStr []))) in
      if ip0 = [] then Inl ''ipban_ip_required''
      else case ip_address ip0 of
             None \<Rightarrow> Inl ''ipban_ip_invalid''
           | Some a \<Rightarrow>
               let dur0 = dget data ''duration_secs'' JNull;
                   dur = (if dur0 = JNull \<or> dur0 = JStr [] then None else int_of dur0);
                   r0 = dget data ''reason'' JNull;
                   r1 = take max_reason (py_strip (str_of (if json_truthy r0 then r0 else JStr ''manual'')))
               in if (case dur of Some d \<Rightarrow> d < 0 | None \<Rightarrow> False) then Inl ''ipban_duration_invalid''
                  else Inr (show_ip a, dur, if r1 = [] then ''manual'' else r1))"

end
