(* ===== verification/Ban_Jail_Proofs.thy ===== *)
theory Ban_Jail_Proofs
  imports Ban_Jail
begin

text \<open>
  What the jail promises: a client has one key whatever form its address arrives in, loopback is
  never jailed by any sequence of operations, offences are counted exactly, repeat bans climb the
  ladder, and lifting a ban starts it over. The operations are one machine (\<open>jail_step\<close>); its
  invariants are interpretations of the shared \<open>machine\<close> interface.
\<close>

section \<open>The operations as one machine\<close>

datatype jail_op =
    Configure jail_update
  | Offense string string int string time time
  | Ban string "int option" string string time
  | Unban string
  | Set_Block string string
  | Clear string
  | Query string time

fun jail_step :: "jail \<Rightarrow> jail_op \<Rightarrow> jail" where
  "jail_step j (Configure u) = configure j u"
| "jail_step j (Offense ip cat w det now now') = fst (snd (register_offense j ip cat w det now now'))"
| "jail_step j (Ban ip dur reason who now) = fst (snd (ban j ip dur reason who now))"
| "jail_step j (Unban ip) = fst (snd (unban j ip))"
| "jail_step j (Set_Block ip act) = snd (set_block_action j ip act)"
| "jail_step j (Clear ip) = snd (clear_offenses j ip)"
| "jail_step j (Query ip now) = snd (is_banned j ip now)"

lemma jail_gc_jail [simp]: "j_jail (jail_gc j now) = j_jail j" "j_cfg (jail_gc j now) = j_cfg j"
  by (auto simp: jail_gc_def Let_def)

text \<open>
  What one operation does to the bans of other keys: the only key a write can change is the
  canonical one of its address, and only when that is neither empty nor whitelisted (a query or a
  block action rewrites only a ban that is there, a release removes one).
\<close>

lemma ban_locked_jail [simp]:
  "j_jail (fst (snd (ban_locked j ip cat reason who det n forced now))) =
     AList.update ip (fst (ban_locked j ip cat reason who det n forced now)) (j_jail j)"
  "j_cfg (fst (snd (ban_locked j ip cat reason who det n forced now))) = j_cfg j"
  "j_offenses (fst (snd (ban_locked j ip cat reason who det n forced now))) = j_offenses j"
  "j_history (fst (snd (ban_locked j ip cat reason who det n forced now))) = j_history j"
  by (simp_all add: ban_locked_def Let_def)

lemma register_offense_jail:
  assumes "map_of (j_jail (fst (snd (register_offense j ip cat w det now now')))) k \<noteq> map_of (j_jail j) k"
  shows "k = normalize_ip ip \<and> k \<noteq> [] \<and> \<not> is_whitelisted j k"
  using assms by (auto simp: register_offense_def Let_def case_prod_beta dict_simps split: if_splits)

lemma ban_jail:
  assumes "map_of (j_jail (fst (snd (ban j ip dur reason who now)))) k \<noteq> map_of (j_jail j) k"
  shows "k = normalize_ip ip \<and> k \<noteq> [] \<and> \<not> is_whitelisted j k"
  using assms by (auto simp: ban_def Let_def case_prod_beta dict_simps split: if_splits)

lemma step_cfg:
  "j_cfg (jail_step j e) = (case e of Configure u \<Rightarrow> j_cfg (configure j u) | _ \<Rightarrow> j_cfg j)"
  by (cases e) (auto simp: register_offense_def ban_def unban_def set_block_action_def
      clear_offenses_def is_banned_def ban_locked_def Let_def split: prod.splits option.splits)

section \<open>One key per client\<close>

lemma no_space_show_dec: "c \<in> set (show_dec n) \<Longrightarrow> \<not> is_space c"
  using show_dec_digits [of c n] by (auto simp: is_dec_def is_space_def Let_def)

lemma show_v4_no_space: "c \<in> set (show_v4 n) \<Longrightarrow> \<not> is_space c"
  using no_space_show_dec by (auto simp: show_v4_def is_space_def Let_def)

lemma dropWhile_none: "\<forall>c \<in> set s. \<not> P c \<Longrightarrow> dropWhile P s = s"
  by (cases s) auto

lemma py_strip_id: "\<forall>c \<in> set s. \<not> is_space c \<Longrightarrow> py_strip s = s"
  by (simp add: py_strip_def dropWhile_none)

lemma show_v4_nonempty: "show_v4 n \<noteq> []"
  by (simp add: show_v4_def)

lemma normalize_show_v4: "n < 2 ^ 32 \<Longrightarrow> normalize_ip (show_v4 n) = show_v4 n"
proof -
  assume n: "n < 2 ^ 32"
  have s: "py_strip (show_v4 n) = show_v4 n" by (rule py_strip_id) (blast dest: show_v4_no_space)
  show ?thesis
    by (simp only: normalize_ip_def s ip_address_show_v4 [OF n] ipv4_mapped_def show_v4_nonempty
        if_False option.case ip_addr.case)
qed

lemma normalize_idem: "normalize_ip (normalize_ip ip) = normalize_ip ip"
proof (cases "ip = [] \<or> ip_address (py_strip ip) = None \<or>
    (\<exists>a. ip_address (py_strip ip) = Some a \<and> ipv4_mapped a = None)")
  case True
  then have "normalize_ip ip = ip" by (auto simp: normalize_ip_def)
  then show ?thesis by simp
next
  case False
  then obtain a m where a: "ip \<noteq> []" "ip_address (py_strip ip) = Some a" "ipv4_mapped a = Some m"
    by auto
  then obtain n where m: "m = V4 n" "n < 2 ^ 32"
    by (auto simp: ipv4_mapped_def split: ip_addr.splits if_splits)
  with a have "normalize_ip ip = show_v4 n" by (simp add: normalize_ip_def show_ip_def)
  then show ?thesis using normalize_show_v4 [OF m(2)] by simp
qed

lemma whitelisted_normalize [simp]: "is_whitelisted j (normalize_ip ip) = is_whitelisted j ip"
  by (simp add: is_whitelisted_def whitelisted_in_def normalize_idem)

text \<open>A client is one jail key: an IPv4-mapped IPv6 address and its IPv4 form are
  registered, queried, banned and released alike, because every operation answers and does the
  same for an address and for its canonical form.\<close>

theorem jail_one_key:
  "is_banned j (normalize_ip ip) now = is_banned j ip now
   \<and> register_offense j (normalize_ip ip) cat w det now now' = register_offense j ip cat w det now now'
   \<and> ban j (normalize_ip ip) dur reason who now = ban j ip dur reason who now
   \<and> unban j (normalize_ip ip) = unban j ip
   \<and> set_block_action j (normalize_ip ip) act = set_block_action j ip act
   \<and> clear_offenses j (normalize_ip ip) = clear_offenses j ip"
  by (simp add: is_banned_def register_offense_def ban_def unban_def set_block_action_def
      clear_offenses_def normalize_idem)

section \<open>Loopback is never jailed\<close>

definition loopback4 :: "string \<Rightarrow> bool" where
  "loopback4 ip = (case ip_address (normalize_ip ip) of
     Some (V4 n) \<Rightarrow> net_base 32 8 n = 2130706432 | _ \<Rightarrow> False)"

definition net127 :: ip_net where
  "net127 = Net4 2130706432 8"

lemma loopback_nets_eval: "loopback_nets = [net127, Net6 1 128]"
  by code_simp

lemma loopback4_whitelisted:
  "net127 \<in> set nets \<Longrightarrow> loopback4 ip \<Longrightarrow> normalize_ip ip \<noteq> [] \<Longrightarrow> whitelisted_in nets ip"
  by (force simp: loopback4_def whitelisted_in_def list_ex_iff in_net_def net127_def Let_def
      split: option.splits ip_addr.splits)

lemma py_join_snoc_sep: "2 \<le> length ws \<Longrightarrow> c \<in> set sep \<Longrightarrow> c \<in> set (py_join sep ws)"
  by (cases "(sep, ws)" rule: py_join.cases) auto

lemma colon_show_v6: "CHR '':'' \<in> set (show_v6_int n)"
  by (auto simp: show_v6_int_def Let_def v6_groups_def intro!: py_join_snoc_sep)

lemma show_net127: "show_net net127 = ''127.0.0.0/8''"
  by code_simp

lemma show_v4_127: "show_v4 n = ''127.0.0.0'' \<Longrightarrow> n = 2130706432"
proof -
  assume e: "show_v4 n = ''127.0.0.0''"
  have "map (dec_value 0) (py_split (CHR ''.'') (show_v4 n)) =
     [n div 16777216, n div 65536 mod 256, n div 256 mod 256, n mod 256]"
    by (simp add: show_v4_def py_split_append py_split_no_sep dot_not_dec dec_value_show)
  moreover have "map (dec_value 0) (py_split (CHR ''.'') ''127.0.0.0'') = [127, 0, 0, 0]" by code_simp
  ultimately have "n div 16777216 = 127" "n div 65536 mod 256 = 0" "n div 256 mod 256 = 0" "n mod 256 = 0"
    unfolding e by simp_all
  then show ?thesis using v4_octets [of n] by simp
qed

lemma show_net_127: "show_net n = ''127.0.0.0/8'' \<Longrightarrow> n = net127"
proof (cases n)
  case (Net4 a p)
  assume e: "show_net n = ''127.0.0.0/8''"
  have slash: "CHR ''/'' \<notin> set (show_dec p)"
    using show_dec_digits [of "CHR ''/''" p] by (auto simp: is_dec_def)
  have "py_split (CHR ''/'') (show_net n) = [show_v4 a, show_dec p]"
    using Net4 slash by (simp add: show_net_def py_split_append py_split_no_sep slash_not_show_v4)
  moreover have "py_split (CHR ''/'') ''127.0.0.0/8'' = [''127.0.0.0'', ''8'']" by code_simp
  ultimately have v: "show_v4 a = ''127.0.0.0''" and p: "show_dec p = ''8''" unfolding e by simp_all
  have "dec_value 0 (show_dec p) = 8" unfolding p by code_simp
  then show ?thesis using Net4 show_v4_127 [OF v] by (simp add: net127_def dec_value_show)
next
  case (Net6 a p)
  assume "show_net n = ''127.0.0.0/8''"
  moreover have "CHR '':'' \<in> set (show_net n)" using Net6 colon_show_v6 by (simp add: show_net_def)
  ultimately show ?thesis by simp
qed

lemma dedup_nets_covers:
  "n \<in> set ns \<Longrightarrow> show_net n \<notin> set seen \<Longrightarrow> \<exists>m \<in> set (dedup_nets seen ns). show_net m = show_net n"
proof (induction seen ns rule: dedup_nets.induct)
  case (2 seen m ns)
  then show ?case by (cases "show_net m = show_net n") auto
qed simp

lemma dedup_net127: "net127 \<in> set ns \<Longrightarrow> net127 \<in> set (dedup_nets [] ns)"
  using dedup_nets_covers [of net127 ns "[]"] show_net_127 show_net127 by fastforce

lemma configure_net127: "net127 \<in> set (c_whitelist (j_cfg j)) \<Longrightarrow> net127 \<in> set (c_whitelist (j_cfg (configure j u)))"
  by (auto simp: configure_def Let_def loopback_nets_eval intro!: dedup_net127)

definition loopback_free :: "jail \<Rightarrow> bool" where
  "loopback_free j \<longleftrightarrow> net127 \<in> set (c_whitelist (j_cfg j)) \<and>
     (\<forall>ip. loopback4 ip \<longrightarrow> map_of (j_jail j) ip = None)"

lemma loopback4_normalize [simp]: "loopback4 (normalize_ip ip) = loopback4 ip"
  by (simp add: loopback4_def normalize_idem)

lemma loopback_whitelisted:
  "loopback_free j \<Longrightarrow> loopback4 ip \<Longrightarrow> normalize_ip ip \<noteq> [] \<Longrightarrow> is_whitelisted j ip"
  by (simp add: is_whitelisted_def loopback_free_def loopback4_whitelisted)

lemma jail_step_keys:
  assumes "map_of (j_jail (jail_step j e)) k \<noteq> None" "map_of (j_jail j) k = None"
  shows "\<exists>ip. k = normalize_ip ip \<and> normalize_ip ip \<noteq> [] \<and> \<not> is_whitelisted j ip"
proof (cases e)
  case (Offense ip cat w det now now')
  then show ?thesis using assms register_offense_jail [of j ip cat w det now now' k] by auto
next
  case (Ban ip dur reason who now)
  then show ?thesis using assms ban_jail [of j ip dur reason who now k] by auto
qed (use assms in \<open>auto simp: unban_def set_block_action_def is_banned_def configure_def
    clear_offenses_def Let_def dict_simps split: option.splits if_splits\<close>)

interpretation loopback: machine jail_step loopback_free
proof
  fix j e assume inv: "loopback_free j"
  have "net127 \<in> set (c_whitelist (j_cfg (jail_step j e)))"
    using inv configure_net127 by (auto simp: loopback_free_def step_cfg split: jail_op.splits)
  moreover have "map_of (j_jail (jail_step j e)) ip = None" if lo: "loopback4 ip" for ip
  proof (rule ccontr)
    assume "map_of (j_jail (jail_step j e)) ip \<noteq> None"
    moreover have "map_of (j_jail j) ip = None" using inv lo by (simp add: loopback_free_def)
    ultimately obtain ip' where "ip = normalize_ip ip'" "normalize_ip ip' \<noteq> []" "\<not> is_whitelisted j ip'"
      using jail_step_keys by metis
    with loopback_whitelisted [OF inv, of ip'] lo show False by simp
  qed
  ultimately show "loopback_free (jail_step j e)" by (simp add: loopback_free_def)
qed

lemma loopback_free_init: "loopback_free (jail_init persist notify)"
  by (simp add: loopback_free_def jail_init_def loopback_nets_eval)

text \<open>C4. Whatever is configured, registered, banned or lifted, in any order, no IPv4
  loopback address (in plain or IPv4-mapped form) is ever jailed or answered as banned: the
  whitelist a configuration installs always keeps \<^verbatim>\<open>127.0.0.0/8\<close>, and every path into the
  jail checks it.\<close>

theorem jail_loopback_safe:
  assumes "loopback4 ip"
  shows "map_of (j_jail (foldl jail_step (jail_init persist notify) es)) (normalize_ip ip) = None
    \<and> \<not> fst (is_banned_flag (foldl jail_step (jail_init persist notify) es) ip now)"
proof -
  let ?j = "foldl jail_step (jail_init persist notify) es"
  have free: "loopback_free ?j" by (rule loopback.run_inv [OF loopback_free_init])
  then have none: "map_of (j_jail ?j) (normalize_ip ip) = None"
    using assms by (simp add: loopback_free_def)
  then show ?thesis by (simp add: is_banned_flag_def is_banned_def Let_def)
qed

theorem jail_loopback_safe_witness:
  "\<not> fst (is_banned_flag (foldl jail_step (jail_init True True)
      [Ban ''127.0.0.1'' (Some 60) ''manual'' ''admin'' 5]) ''::ffff:127.0.0.1'' 6)"
proof -
  have "loopback4 ''::ffff:127.0.0.1''" by code_simp
  from jail_loopback_safe [OF this] show ?thesis by blast
qed

section \<open>Well-formed jails\<close>

definition cfg_ok :: "jail_cfg \<Rightarrow> bool" where
  "cfg_ok c \<longleftrightarrow> c_durations c \<noteq> [] \<and> (\<forall>d \<in> set (c_durations c). 1 \<le> d) \<and>
     0 \<le> c_auth_threshold c \<and> 0 \<le> c_authz_threshold c \<and>
     1 \<le> c_auth_window c \<and> 1 \<le> c_authz_window c \<and> 0 \<le> c_permanent_after c"

definition ban_ok :: "ban_rec \<Rightarrow> bool" where
  "ban_ok r \<longleftrightarrow> 1 \<le> b_level r \<and> b_level r \<le> b_offenses r"

definition jail_ok :: "jail \<Rightarrow> bool" where
  "jail_ok j \<longleftrightarrow> cfg_ok (j_cfg j) \<and> dict_wf (j_jail j) \<and> dict_wf (j_offenses j) \<and> dict_wf (j_history j) \<and>
     length (j_offenses j) \<le> offense_max_ips \<and>
     (\<forall>ip h. map_of (j_history j) ip = Some h \<longrightarrow> length h \<le> 200) \<and>
     (\<forall>ip r. map_of (j_jail j) ip = Some r \<longrightarrow> ban_ok r)"

lemma cfg_ok_configure: "cfg_ok (j_cfg j) \<Longrightarrow> cfg_ok (j_cfg (configure j u))"
  by (auto simp: cfg_ok_def configure_def Let_def opt_def default_durations_def split: option.splits)

lemma length_push_bounded: "length (push_bounded n xs x) \<le> n"
  by (simp add: push_bounded_def Let_def)

lemma gc_ok: "jail_ok j \<Longrightarrow> jail_ok (jail_gc j now)"
  by (auto simp: jail_ok_def jail_gc_def Let_def dict_simps intro: le_trans [OF length_filter_le]
      split: option.splits if_splits)

lemma next_ban_ok:
  assumes "\<And>p. prev = Some p \<Longrightarrow> ban_ok p" "0 \<le> n"
  shows "ban_ok (next_ban c prev ip cat reason who det n forced now)"
  using assms by (cases prev) (auto simp: next_ban_def ban_ok_def Let_def)

lemma ban_locked_ok:
  assumes "jail_ok j" "0 \<le> n"
  shows "jail_ok (fst (snd (ban_locked j ip cat reason who det n forced now)))"
proof -
  have "ban_ok (next_ban (j_cfg j) (map_of (j_jail j) ip) ip cat reason who det n forced now)"
    using assms by (intro next_ban_ok) (auto simp: jail_ok_def)
  then show ?thesis using assms by (auto simp: ban_locked_def jail_ok_def Let_def dict_simps)
qed

lemma length_update_bound:
  "map_of d k \<noteq> None \<or> length d < n \<Longrightarrow> length d \<le> n \<Longrightarrow> length (AList.update k v d) \<le> n"
  by (auto simp: length_update)

lemma register_offense_ok: "jail_ok j \<Longrightarrow> jail_ok (fst (snd (register_offense j ip cat w det now now')))"
proof -
  assume ok: "jail_ok j"
  note g = gc_ok [OF ok, of now]
  have upd: "jail_ok (jail_gc j now\<lparr>j_offenses := AList.update k v (j_offenses (jail_gc j now)),
      j_history := AList.update k (push_bounded 200 h x) (j_history (jail_gc j now))\<rparr>)"
    if "\<not> (map_of (j_offenses (jail_gc j now)) k = None \<and> offense_max_ips \<le> length (j_offenses (jail_gc j now)))"
    for k v h x
  proof -
    have "length (AList.update k v (j_offenses (jail_gc j now))) \<le> offense_max_ips"
      using g that by (intro length_update_bound) (auto simp: jail_ok_def)
    then show ?thesis using g by (auto simp: jail_ok_def dict_simps length_push_bounded)
  qed
  show ?thesis
    unfolding register_offense_def Let_def
    by (auto simp: ok g case_prod_beta intro!: upd ban_locked_ok)
qed

interpretation wf_jail: machine jail_step jail_ok
proof
  fix j e assume ok: "jail_ok j"
  show "jail_ok (jail_step j e)"
  proof (cases e)
    case (Configure u)
    then show ?thesis using ok cfg_ok_configure [of j u] by (auto simp: jail_ok_def configure_def Let_def)
  next
    case (Offense ip cat w det now now')
    then show ?thesis using register_offense_ok [OF ok] by simp
  next
    case (Ban ip dur reason who now)
    then show ?thesis using ban_locked_ok [OF ok, of 0]
      by (auto simp: ban_def Let_def ok case_prod_beta)
  next
    case (Unban ip)
    then show ?thesis using ok
      by (auto simp: unban_def Let_def jail_ok_def dict_simps intro: le_trans [OF length_delete_le])
  next
    case (Clear ip)
    then show ?thesis using ok
      by (auto simp: clear_offenses_def Let_def jail_ok_def dict_simps intro: le_trans [OF length_delete_le])
  next
    case (Set_Block ip act)
    then show ?thesis using ok
      by (auto simp: set_block_action_def Let_def jail_ok_def dict_simps ban_ok_def split: option.splits)
  next
    case (Query ip now)
    then show ?thesis using ok
      by (auto simp: is_banned_def Let_def jail_ok_def dict_simps ban_ok_def split: option.splits)
  qed
qed

lemma jail_ok_init: "jail_ok (jail_init p n)"
  by (simp add: jail_ok_def jail_init_def cfg_ok_def default_durations_def)

section \<open>Counting offences\<close>

definition recent :: "jail \<Rightarrow> string \<Rightarrow> track \<Rightarrow> time \<Rightarrow> time list" where
  "recent j k t now =
     filter (\<lambda>x. now - snd (threshold_window (j_cfg j) t) < x) (dget (dget (j_offenses j) k []) t [])"

definition in_order :: "jail \<Rightarrow> string \<Rightarrow> bool" where
  "in_order j k \<longleftrightarrow> (\<forall>t. sorted (dget (dget (j_offenses j) k []) t []))"

lemma sorted_last_ge: "sorted xs \<Longrightarrow> x \<in> set xs \<Longrightarrow> x \<le> last (xs :: time list)"
  by (induction xs) auto

lemma stale_recent:
  assumes "stale_offender now mw per" "sorted (dget per t [])" "win \<le> mw"
  shows "filter (\<lambda>x. now - win < x) (dget per t []) = []"
proof (cases "map_of per t")
  case (Some dq)
  then have "(t, dq) \<in> set per" by (rule map_of_SomeD)
  with assms(1) have "dq = [] \<or> last dq \<le> now - mw" by (auto simp: stale_offender_def list_all_iff)
  then show ?thesis using assms Some
    by (force simp: dget_def filter_empty_conv dest: sorted_last_ge)
qed (simp add: dget_def)

lemma gc_offenses:
  "dict_wf (j_offenses j) \<Longrightarrow> map_of (j_offenses (jail_gc j now)) k =
     (case map_of (j_offenses j) k of None \<Rightarrow> None
      | Some per \<Rightarrow> if 300 \<le> now - j_last_gc j \<and>
            stale_offender now (max (c_auth_window (j_cfg j)) (c_authz_window (j_cfg j))) per
          then None else Some per)"
  by (auto simp: jail_gc_def Let_def dict_simps dict_wf_map_of image_iff split: option.splits)
     (fastforce simp: dict_wf_map_of [symmetric])+

lemma window_le_max: "snd (threshold_window c t) \<le> max (c_auth_window c) (c_authz_window c)"
  by (simp add: threshold_window_def split: track.splits)

lemma gc_recent:
  assumes "dict_wf (j_offenses j)" "in_order j k"
  shows "recent (jail_gc j now) k t now = recent j k t now" "in_order (jail_gc j now) k"
proof -
  show "recent (jail_gc j now) k t now = recent j k t now"
  proof (cases "map_of (j_offenses j) k")
    case None
    then show ?thesis using assms by (simp add: recent_def dget_def gc_offenses)
  next
    case (Some per)
    have "sorted (dget per t [])" using assms(2) Some by (simp add: in_order_def dget_def)
    from stale_recent [OF _ this window_le_max] show ?thesis using Some assms
      by (auto simp: recent_def gc_offenses dget_def)
  qed
  show "in_order (jail_gc j now) k"
    using assms by (auto simp: in_order_def dget_def gc_offenses split: option.splits)
qed

lemma gc_room:
  assumes "jail_ok j" "map_of (j_offenses j) k \<noteq> None \<or> length (j_offenses j) < offense_max_ips"
    "map_of (j_offenses (jail_gc j now)) k = None"
  shows "length (j_offenses (jail_gc j now)) < offense_max_ips"
proof (cases "map_of (j_offenses j) k")
  case None
  have "length (j_offenses (jail_gc j now)) \<le> length (j_offenses j)" by (simp add: jail_gc_def Let_def)
  with None assms(2) show ?thesis by simp
next
  case (Some per)
  have l: "length (j_offenses j) \<le> offense_max_ips" and wf: "dict_wf (j_offenses j)"
    using assms(1) by (auto simp: jail_ok_def)
  have gc: "300 \<le> now - j_last_gc j"
    using assms(3) Some wf by (simp add: gc_offenses split: if_splits)
  have "(k, per) \<in> set (j_offenses j)" using Some by (rule map_of_SomeD)
  moreover have "(k, per) \<notin> set (j_offenses (jail_gc j now))"
    using assms(3) by (auto simp: map_of_eq_None_iff image_iff)
  ultimately have "length (j_offenses (jail_gc j now)) < length (j_offenses j)"
    using gc by (auto simp: jail_gc_def Let_def intro: length_filter_less)
  with l show ?thesis by simp
qed

lemma sorted_recent_suffix:
  "in_order j k \<Longrightarrow> snd (threshold_window (j_cfg j) t) = win \<Longrightarrow>
   dropWhile (\<lambda>x. x \<le> now - win) (dget (dget (j_offenses j) k []) t []) = recent j k t now"
  using dropWhile_eq_filter [of "\<lambda>x. x" "dget (dget (j_offenses j) k []) t []" "now - win"]
  by (simp add: recent_def in_order_def)

definition fires :: "jail \<Rightarrow> string \<Rightarrow> track \<Rightarrow> time \<Rightarrow> int \<Rightarrow> bool" where
  "fires j k t now w \<longleftrightarrow>
     fst (threshold_window (j_cfg j) t) \<le> int (length (recent j k t now)) + w"



section \<open>The ladder\<close>

lemma ban_none:
  assumes "normalize_ip ip \<noteq> []" "\<not> is_whitelisted j ip"
  shows "fst (snd (ban j ip None reason who now)) =
    j\<lparr>j_jail := AList.update (normalize_ip ip) (next_ban (j_cfg j) (map_of (j_jail j) (normalize_ip ip))
        (normalize_ip ip) reason reason who [] 0 None now) (j_jail j)\<rparr>"
  using assms by (simp add: ban_def Let_def ban_locked_def)

lemma rung_min: "ds \<noteq> [] \<Longrightarrow> rung ds (min (int n) (int (length ds) - 1)) = ds ! min n (length ds - 1)"
proof -
  assume "ds \<noteq> []"
  then have l: "int (length ds) - 1 = int (length ds - 1)" by (cases ds) auto
  have "min (int n) (int (length ds) - 1) = int (min n (length ds - 1))" unfolding l by (rule of_nat_min [symmetric])
  then show ?thesis unfolding rung_def by (simp only: nat_int of_nat_less_0_iff if_False)
qed

text \<open>C30. Repeated bans climb the ladder: after a release, the n-th ban has level n and
  the n-th rung of the configured terms (the last rung once they run out), and is permanent past
  \<^verbatim>\<open>permanent_after\<close> bans.\<close>

theorem ban_ladder:
  assumes "jail_ok j" "normalize_ip ip \<noteq> []" "\<not> is_whitelisted j ip"
  shows "\<exists>r. map_of (j_jail (foldl (\<lambda>i now. jail_step i (Ban ip None reason who now))
                (jail_step j (Unban ip)) (ts @ [now]))) (normalize_ip ip) = Some r
     \<and> b_level r = int (length ts) + 1
     \<and> b_until r =
        (let c = j_cfg j in
         if 0 < c_permanent_after c \<and> c_permanent_after c \<le> int (length ts) then None
         else Some (now + of_int (c_durations c ! min (length ts) (length (c_durations c) - 1))))"
  (is "\<exists>r. map_of (j_jail (?run (ts @ [now]))) ?k = Some r \<and> _")
proof -
  let ?i = "jail_step j (Unban ip)"
  have cfg: "j_cfg (?run us) = j_cfg j" for us
    using assms by (induction us rule: rev_induct) (auto simp: step_cfg simp del: jail_step.simps)
  have wl: "\<not> is_whitelisted (?run us) ip" for us using assms cfg by (simp add: is_whitelisted_def)
  have lvl: "(case map_of (j_jail (?run us)) ?k of None \<Rightarrow> 0 | Some p \<Rightarrow> b_level p) = int (length us)" for us
  proof (induction us rule: rev_induct)
    case Nil
    then show ?case using assms by (simp add: unban_def Let_def dict_simps)
  next
    case (snoc u us)
    then show ?case using wl assms(2) by (auto simp: ban_none dict_simps next_ban_def Let_def split: option.splits)
  qed
  have ds: "c_durations (j_cfg j) \<noteq> []" "0 \<le> c_permanent_after (j_cfg j)"
    using assms(1) by (auto simp: jail_ok_def cfg_ok_def)
  have idx: "rung (c_durations (j_cfg j)) (min (int (length ts)) (int (length (c_durations (j_cfg j))) - 1))
      = c_durations (j_cfg j) ! min (length ts) (length (c_durations (j_cfg j)) - 1)"
    using ds by (intro rung_min)
  let ?j = "?run ts"
  have step: "?run (ts @ [now]) = ?j\<lparr>j_jail := AList.update ?k (next_ban (j_cfg ?j)
      (map_of (j_jail ?j) ?k) ?k reason reason who [] 0 None now) (j_jail ?j)\<rparr>"
    using ban_none [OF assms(2) wl [of ts]] by simp
  show ?thesis unfolding step cfg
    using ds lvl [of ts] by (simp add: dict_simps next_ban_def Let_def ban_term_def idx)
qed
theorem ban_ladder_witness:
  "\<exists>r. map_of (j_jail (foldl (\<lambda>i now. jail_step i (Ban ''10.0.0.1'' None ''x'' ''admin'' now))
         (jail_step (jail_init False False) (Unban ''10.0.0.1'')) ([1, 2] @ [3]))) ''10.0.0.1'' = Some r
     \<and> b_level r = 3 \<and> b_until r = Some 21603"
proof -
  let ?j = "jail_init False False"
  have k: "normalize_ip ''10.0.0.1'' = ''10.0.0.1''" by code_simp
  have wl: "\<not> is_whitelisted ?j ''10.0.0.1''" by code_simp
  have ne: "normalize_ip ''10.0.0.1'' \<noteq> []" by (simp add: k)
  have c: "c_permanent_after (j_cfg ?j) = 4" "c_durations (j_cfg ?j) = [900, 3600, 21600, 86400]"
    by (simp_all add: jail_init_def default_durations_def)
  from ban_ladder [OF jail_ok_init ne wl, of "''x''" "''admin''" "[1, 2]" 3] show ?thesis
    by (simp only: k c Let_def) (simp add: numeral_eq_Suc)
qed

section \<open>Every reachable jail\<close>

text \<open>Every jail the operations can reach is well formed: a ladder of positive terms,
  windows of at least a second, at most 4096 offenders and 200 attempts per address, one record
  per address, and every ban at a level between 1 and its offence count.\<close>

theorem jail_reachable_ok: "jail_ok (foldl jail_step (jail_init persist notify) es)"
  by (rule wf_jail.run_inv [OF jail_ok_init])

text \<open>The gate and the administrator's listing agree: an address is answered as banned
  exactly when the jail is on, the address is not whitelisted and its ban is one the listing
  shows as active; an answered ban always carries a positive retry delay.\<close>

theorem gate_listing:
  "let k = normalize_ip ip; ((banned, retry, reason), j') = is_banned j ip now in
     banned = (c_enabled (j_cfg j) \<and> k \<noteq> [] \<and> \<not> is_whitelisted j ip
        \<and> (\<exists>r. map_of (j_jail j) k = Some r \<and> ban_active now r))
     \<and> (banned \<longrightarrow> 0 < retry)"
  by (auto simp: is_banned_def Let_def ban_active_def term_over_def split: option.splits)

theorem gate_listing_witness:
  "fst (fst (is_banned (jail_step (jail_init False False) (Ban ''10.0.0.1'' (Some 60) ''x'' ''admin'' 5)) ''10.0.0.1'' 6))
   \<and> 0 < fst (snd (fst (is_banned (jail_step (jail_init False False) (Ban ''10.0.0.1'' (Some 60) ''x'' ''admin'' 5)) ''10.0.0.1'' 6)))"
proof -
  let ?j = "jail_step (jail_init False False) (Ban ''10.0.0.1'' (Some 60) ''x'' ''admin'' 5)"
  have b: "fst (fst (is_banned ?j ''10.0.0.1'' 6))" by code_simp
  with gate_listing [of "''10.0.0.1''" ?j 6] show ?thesis
    by (simp add: Let_def case_prod_beta)
qed

end
