(* ===== verification/Gf256.thy ===== *)
theory Gf256
  imports SS_Prelude
begin

text \<open>
  The arithmetic of \<^verbatim>\<open>lib/core/mfa/qr.py\<close>: the log and antilog tables of GF(256), its product,
  and Reed-Solomon error correction. What the Reed-Solomon proof needs of the field is the
  interface \<open>char2_ring\<close>, interpreted on \<^verbatim>\<open>^\<close> and \<^verbatim>\<open>_gf_mul\<close>. Python's integers are \<open>int\<close>.
\<close>

unbundle bit_operations_syntax

section \<open>Interface: a ring of characteristic two\<close>

fun peval :: "('a \<Rightarrow> 'a \<Rightarrow> 'a) \<Rightarrow> ('a \<Rightarrow> 'a \<Rightarrow> 'a) \<Rightarrow> 'a \<Rightarrow> 'a \<Rightarrow> 'a list \<Rightarrow> 'a" where
  "peval add mul z a [] = z"
| "peval add mul z a (c # cs) = add c (mul a (peval add mul z a cs))"

fun rpow :: "('a \<Rightarrow> 'a \<Rightarrow> 'a) \<Rightarrow> 'a \<Rightarrow> 'a \<Rightarrow> nat \<Rightarrow> 'a" where
  "rpow mul one a 0 = one"
| "rpow mul one a (Suc n) = mul a (rpow mul one a n)"

locale char2_ring =
  fixes carr :: "'a \<Rightarrow> bool" and add mul :: "'a \<Rightarrow> 'a \<Rightarrow> 'a" and z one :: 'a
  assumes z_carr: "carr z" and one_carr: "carr one"
    and add_carr: "carr x \<Longrightarrow> carr y \<Longrightarrow> carr (add x y)"
    and mul_carr: "carr x \<Longrightarrow> carr y \<Longrightarrow> carr (mul x y)"
    and add_assoc: "add (add x y) w = add x (add y w)"
    and add_comm: "add x y = add y x"
    and add_z: "add z x = x"
    and add_self: "add x x = z"
    and mul_comm: "carr x \<Longrightarrow> carr y \<Longrightarrow> mul x y = mul y x"
    and mul_assoc: "carr x \<Longrightarrow> carr y \<Longrightarrow> carr w \<Longrightarrow> mul (mul x y) w = mul x (mul y w)"
    and mul_one: "carr x \<Longrightarrow> mul one x = x"
    and distrib: "carr x \<Longrightarrow> carr y \<Longrightarrow> carr w \<Longrightarrow> mul x (add y w) = add (mul x y) (mul x w)"
begin

lemma add_lcomm: "add x (add y w) = add y (add x w)"
  by (metis add_assoc add_comm)

lemma add_z_right: "add x z = x"
  by (metis add_comm add_z)

lemma add_cancel: "add x (add x y) = y"
  by (metis add_assoc add_self add_z)

lemma mul_z: "carr x \<Longrightarrow> mul x z = z"
  by (metis add_self distrib mul_carr z_carr)

lemma mul_lcomm: "carr x \<Longrightarrow> carr y \<Longrightarrow> carr w \<Longrightarrow> mul x (mul y w) = mul y (mul x w)"
  by (metis mul_assoc mul_comm)

lemma rpow_carr: "carr a \<Longrightarrow> carr (rpow mul one a n)"
  by (induction n) (auto simp: one_carr mul_carr)

lemma peval_carr: "carr a \<Longrightarrow> list_all carr cs \<Longrightarrow> carr (peval add mul z a cs)"
  by (induction cs) (auto simp: z_carr add_carr mul_carr)

lemma peval_append:
  assumes "carr a" "list_all carr xs" "list_all carr ys"
  shows "peval add mul z a (xs @ ys) =
    add (peval add mul z a xs) (mul (rpow mul one a (length xs)) (peval add mul z a ys))"
  using assms
  by (induction xs) (simp_all add: mul_one peval_carr add_z distrib mul_carr rpow_carr mul_assoc add_assoc)

lemma peval_zeros: "carr a \<Longrightarrow> peval add mul z a (replicate n z) = z"
  by (induction n) (simp_all add: add_z mul_z)

lemma peval_scale:
  assumes "carr a" "carr k" "list_all carr xs"
  shows "peval add mul z a (map (mul k) xs) = mul k (peval add mul z a xs)"
  using assms
  by (induction xs) (simp_all add: mul_z distrib mul_carr peval_carr mul_lcomm [of a k])

lemma peval_add:
  assumes "carr a" "list_all carr xs" "list_all carr ys" "length xs = length ys"
  shows "peval add mul z a (map2 add xs ys) = add (peval add mul z a xs) (peval add mul z a ys)"
  using assms(4,2,3)
proof (induction xs ys rule: list_induct2)
  case (Cons x xs y ys)
  then show ?case using assms(1)
    by (simp add: distrib peval_carr) (metis add_assoc add_lcomm)
qed (simp add: add_z)

lemma map2_carr: "list_all carr xs \<Longrightarrow> list_all carr ys \<Longrightarrow> list_all carr (map2 add xs ys)"
  by (auto simp: list_all_iff in_set_zip intro!: add_carr)

text \<open>Multiplying a polynomial (lowest coefficient first) by \<open>x + r\<close>.\<close>

lemma peval_times_root:
  assumes "carr a" "carr r" "list_all carr p"
  shows "peval add mul z a (map2 add (z # p) (map (\<lambda>c. mul c r) (p @ [z]))) =
    mul (add a r) (peval add mul z a p)"
proof -
  have m: "map (\<lambda>c. mul c r) (p @ [z]) = map (mul r) (p @ [z])"
    using assms by (auto simp: list_all_iff z_carr intro: mul_comm)
  have "peval add mul z a (map2 add (z # p) (map (mul r) (p @ [z]))) =
      add (mul a (peval add mul z a p)) (mul r (peval add mul z a p))"
    using assms
    by (subst peval_add)
       (auto simp: z_carr list_all_iff mul_carr peval_scale add_z peval_append mul_z rpow_carr add_z_right)
  also have "\<dots> = mul (add a r) (peval add mul z a p)"
    using assms by (simp add: mul_comm [of _ "peval add mul z a p"] peval_carr add_carr distrib)
  finally show ?thesis unfolding m .
qed

text \<open>
  One step of the shift register that divides by a monic generator with root \<open>a\<close>: the register
  (highest coefficient first) is the dividend so far, times the register's length power of \<open>a\<close>.
\<close>

lemma register_step:
  assumes c: "carr a" "carr b" "carr r" "list_all carr rs" "list_all carr g"
    and len: "length g = Suc (length rs)"
    and root: "peval add mul z a (g @ [one]) = z"
  shows "peval add mul z a (rev (map2 add (rs @ [z]) (map (\<lambda>x. mul x (add b r)) (rev g)))) =
    add (mul a (peval add mul z a (rev (r # rs)))) (mul (rpow mul one a (length g)) b)"
proof -
  let ?P = "peval add mul z a" and ?A = "rpow mul one a (length g)" and ?f = "add b r"
  have f: "carr ?f" "carr ?A" using c by (simp_all add: add_carr rpow_carr)
  have g: "?P g = ?A"
  proof -
    have "add (?P g) ?A = z"
      using root c by (simp add: peval_append one_carr mul_carr rpow_carr mul_z mul_comm [of _ one]
          mul_one add_z_right)
    then show ?thesis by (metis add_cancel add_z_right)
  qed
  have rev: "rev (map2 add (rs @ [z]) (map (\<lambda>x. mul x ?f) (rev g))) =
      map2 add (z # rev rs) (map (mul ?f) g)"
  proof -
    have "map (\<lambda>x. mul x ?f) (rev g) = rev (map (mul ?f) g)"
      using c f by (auto simp: list_all_iff rev_map intro: mul_comm)
    moreover have "rev (zip (rs @ [z]) (rev (map (mul ?f) g))) = zip (rev (rs @ [z])) (map (mul ?f) g)"
      using len by (subst zip_rev [symmetric]) auto
    ultimately show ?thesis by (simp only: rev_map rev_append) simp
  qed
  have "?P (map2 add (z # rev rs) (map (mul ?f) g)) = add (mul a (?P (rev rs))) (mul ?f ?A)"
    using c f len
    by (subst peval_add) (auto simp: z_carr list_all_iff mul_carr peval_scale g add_z)
  also have "\<dots> = add (mul a (?P (rev (r # rs)))) (mul ?A b)"
  proof -
    have "?P (rev (r # rs)) = add (?P (rev rs)) (mul (rpow mul one a (length rs)) r)"
      using c by (simp add: peval_append mul_z rpow_carr add_z_right)
    then have "mul a (?P (rev (r # rs))) = add (mul a (?P (rev rs))) (mul ?A r)"
      using c len by (simp add: distrib peval_carr mul_carr rpow_carr mul_assoc)
    moreover have "mul ?f ?A = add (mul ?A b) (mul ?A r)"
      using c f by (simp add: mul_comm [of ?f] distrib)
    ultimately show ?thesis by (simp add: add_assoc add_comm add_lcomm)
  qed
  finally show ?thesis unfolding rev .
qed

end

section \<open>The tables\<close>

text \<open>\<^verbatim>\<open>_init_tables\<close>: the first loop walks \<open>x\<close> through the powers of the generator, the second
  repeats the antilog table so that a sum of two logs needs no reduction.\<close>

definition xt :: "int \<Rightarrow> int" where
  "xt x = (let y = 2 * x in if y AND 256 \<noteq> 0 then y XOR 285 else y)"

definition init_step :: "nat \<Rightarrow> int \<times> int list \<times> nat list \<Rightarrow> int \<times> int list \<times> nat list" where
  "init_step i st = (let (x, ex, lg) = st in (xt x, ex[i := x], lg[nat x := i]))"

definition gf_tables :: "int list \<times> nat list" where
  "gf_tables =
     (let (x, ex, lg) = fold init_step [0..<255] (1, replicate 512 0, replicate 256 0)
      in (fold (\<lambda>i e. e[i := e ! (i - 255)]) [255..<512] ex, lg))"

definition gf_exp :: "int list" where
  "gf_exp = fst gf_tables"

definition gf_log :: "nat list" where
  "gf_log = snd gf_tables"

definition gf_mul :: "int \<Rightarrow> int \<Rightarrow> int" where
  "gf_mul a b = (if a = 0 \<or> b = 0 then 0 else gf_exp ! (gf_log ! nat a + gf_log ! nat b))"

definition is_byte :: "int \<Rightarrow> bool" where
  "is_byte x = (0 \<le> x \<and> x < 256)"

definition alpha :: "nat \<Rightarrow> int" where
  "alpha i = (xt ^^ i) 1"

lemma alpha_Suc: "alpha (Suc i) = xt (alpha i)"
  by (simp add: alpha_def)

lemma xt_0 [simp]: "xt 0 = 0"
  by (simp add: xt_def)

fun powers :: "nat \<Rightarrow> int \<Rightarrow> int list" where
  "powers 0 x = []"
| "powers (Suc n) x = x # powers n (xt x)"

lemma powers_map: "powers n x = map (\<lambda>i. (xt ^^ i) x) [0..<n]"
proof (induction n arbitrary: x)
  case (Suc n)
  have "map (\<lambda>i. (xt ^^ i) x) [0..<Suc n] = x # map (\<lambda>i. (xt ^^ Suc i) x) [0..<n]"
    by (simp only: upt_conv_Cons [OF zero_less_Suc] map_Suc_upt [symmetric] list.map map_map funpow_0 comp_def)
  with Suc show ?case by (simp add: funpow_swap1)
qed simp

lemma powers_sorted: "sort (powers 255 1) = [1..255]"
  by code_simp

lemma powers_wrap: "xt (last (powers 255 1)) = 1"
  by code_simp

lemma alpha_set: "alpha ` {..<255} = {1..255}"
proof -
  have "set (powers 255 1) = set [1..255]" using powers_sorted by (metis set_sort)
  then show ?thesis by (simp add: powers_map alpha_def atLeast0LessThan)
qed

lemma alpha_inj: "inj_on alpha {..<255}"
proof -
  have "card (alpha ` {..<255}) = card {..<255 :: nat}" by (simp add: alpha_set)
  then show ?thesis by (rule eq_card_imp_inj_on [rotated]) simp
qed

lemma alpha_255: "alpha 255 = 1"
proof -
  have "last (powers 255 1) = alpha 254" by (simp add: powers_map last_map alpha_def)
  with powers_wrap show ?thesis using alpha_Suc [of 254] by simp
qed

lemma alpha_period: "alpha (i + 255) = alpha i"
  using alpha_255 by (simp add: alpha_def funpow_add)

lemma alpha_byte: "is_byte (alpha i) \<and> alpha i \<noteq> 0"
proof (induction i rule: less_induct)
  case (less i)
  show ?case
  proof (cases "i < 255")
    case True
    then have "alpha i \<in> {1..255}" using alpha_set by blast
    then show ?thesis by (simp add: is_byte_def)
  next
    case False
    then show ?thesis using less [of "i - 255"] alpha_period [of "i - 255"] by simp
  qed
qed

lemma init_loop:
  assumes "n \<le> 255"
  shows "\<exists>ex lg. fold init_step [0..<n] (1, replicate 512 0, replicate 256 0) = (alpha n, ex, lg)
    \<and> length ex = 512 \<and> length lg = 256 \<and> (\<forall>i<n. ex ! i = alpha i) \<and> (\<forall>i<n. lg ! nat (alpha i) = i)"
  using assms
proof (induction n)
  case (Suc n)
  then obtain ex lg where e: "fold init_step [0..<n] (1, replicate 512 0, replicate 256 0) = (alpha n, ex, lg)"
      "length ex = 512" "length lg = 256" "\<forall>i<n. ex ! i = alpha i" "\<forall>i<n. lg ! nat (alpha i) = i"
    by auto
  have "nat (alpha i) \<noteq> nat (alpha n)" if "i < n" for i
    using that Suc.prems alpha_byte [of i] alpha_byte [of n] inj_onD [OF alpha_inj, of i n]
    by (auto simp: is_byte_def eq_nat_nat_iff)
  moreover have "nat (alpha n) < 256" using alpha_byte [of n] by (simp add: is_byte_def nat_less_iff)
  moreover have "fold init_step [0..<Suc n] (1, replicate 512 0, replicate 256 0) =
      (alpha (Suc n), ex[n := alpha n], lg[nat (alpha n) := n])"
    using e(1) by (simp add: alpha_Suc) (simp add: init_step_def)
  ultimately show ?case using e(2-) Suc.prems
    by (intro exI conjI) (assumption | auto simp: nth_list_update less_Suc_eq)+
qed (simp add: alpha_def)

lemma copy_loop:
  assumes "length ex = 512" "\<forall>i<255. ex ! i = alpha i" "n \<le> 257"
  shows "length (fold (\<lambda>i e. e[i := e ! (i - 255)]) [255..<255 + n] ex) = 512 \<and>
    (\<forall>i<255 + n. fold (\<lambda>i e. e[i := e ! (i - 255)]) [255..<255 + n] ex ! i = alpha i)"
  using assms(3)
proof (induction n)
  case 0
  then show ?case using assms by simp
next
  case (Suc n)
  let ?e = "fold (\<lambda>i e. e[i := e ! (i - 255)]) [255..<255 + n] ex"
  have "[255..<255 + Suc n] = [255..<255 + n] @ [255 + n]"
    by (simp only: add_Suc_right upt_Suc_append le_add1)
  moreover have "?e ! n = alpha (255 + n)" using Suc alpha_period [of n] by (simp add: add.commute)
  ultimately show ?case using Suc by (auto simp: nth_list_update less_Suc_eq)
qed

lemma gf_tables:
  "i < 512 \<Longrightarrow> gf_exp ! i = alpha i" "j < 255 \<Longrightarrow> gf_log ! nat (alpha j) = j"
proof -
  obtain ex lg where e: "fold init_step [0..<255] (1, replicate 512 0, replicate 256 0) = (alpha 255, ex, lg)"
      "length ex = 512" "\<forall>i<255. ex ! i = alpha i" "\<forall>i<255. lg ! nat (alpha i) = i"
    using init_loop [of 255] by auto
  show "i < 512 \<Longrightarrow> gf_exp ! i = alpha i" "j < 255 \<Longrightarrow> gf_log ! nat (alpha j) = j"
    using copy_loop [OF e(2,3), of 257] e
    by (simp_all add: gf_exp_def gf_log_def gf_tables_def del: upt_rec_numeral)
qed


section \<open>The field's laws\<close>

lemma xor_byte: "is_byte x \<Longrightarrow> is_byte y \<Longrightarrow> is_byte (x XOR y)"
  using XOR_upper [of x 8 y] by (simp add: is_byte_def)

lemma and_256: "(x AND 256 \<noteq> 0) = bit (x :: int) 8"
  using and_exp_eq_0_iff_not_bit [of x 8] by simp

lemma xt_xor: "xt (x XOR y) = xt x XOR xt y"
proof -
  have d: "2 * (x XOR y) = (2 * x) XOR (2 * y)"
    using push_bit_xor [of 1 x y] by (simp add: push_bit_eq_mult mult.commute)
  have b: "bit ((2 * x) XOR (2 * y)) 8 = (bit (2 * x) 8 \<noteq> bit (2 * y) 8)" by (simp add: bit_xor_iff)
  show ?thesis unfolding xt_def Let_def and_256 d b
    by (auto simp: xor.assoc xor.left_commute xor.commute)
qed

lemma xt_pow_xor: "(xt ^^ i) (x XOR y) = (xt ^^ i) x XOR (xt ^^ i) y"
  by (induction i) (simp_all add: xt_xor)

lemma byte_cases:
  assumes "is_byte a"
  obtains "a = 0" | i where "i < 255" "a = alpha i"
proof (cases "a = 0")
  case False
  then have "a \<in> alpha ` {..<255}" unfolding alpha_set using assms by (auto simp: is_byte_def)
  then show ?thesis using that by auto
qed (use that in auto)

lemma xt_pow_0 [simp]: "(xt ^^ i) 0 = 0"
  by (induction i) simp_all

lemma gf_mul_0 [simp]: "gf_mul 0 b = 0" "gf_mul a 0 = 0"
  by (simp_all add: gf_mul_def)

lemma gf_mul_alpha: "i < 255 \<Longrightarrow> j < 255 \<Longrightarrow> gf_mul (alpha i) (alpha j) = alpha (i + j)"
  using alpha_byte by (simp add: gf_mul_def gf_tables)

lemma gf_mul_pow:
  assumes "i < 255" "is_byte b"
  shows "gf_mul (alpha i) b = (xt ^^ i) b"
  using assms(2)
proof (cases b rule: byte_cases)
  case 1
  then show ?thesis by simp
next
  case (2 j)
  then show ?thesis using assms(1) gf_mul_alpha [of i j] by (simp add: alpha_def funpow_add)
qed

lemma xt_pow_byte:
  assumes "is_byte b"
  shows "is_byte ((xt ^^ i) b)"
  using assms
proof (cases b rule: byte_cases)
  case 1
  then show ?thesis by (simp add: is_byte_def)
next
  case (2 j)
  then show ?thesis using alpha_byte [of "i + j"] by (simp add: alpha_def funpow_add)
qed

lemma gf_mul_byte: "is_byte a \<Longrightarrow> is_byte b \<Longrightarrow> is_byte (gf_mul a b)"
  by (erule byte_cases [of a]) (auto simp: gf_mul_pow xt_pow_byte, simp add: is_byte_def)

lemma gf_mul_comm: "gf_mul a b = gf_mul b a"
  by (simp add: gf_mul_def add.commute)

lemma gf_mul_assoc:
  assumes "is_byte a" "is_byte b" "is_byte c"
  shows "gf_mul (gf_mul a b) c = gf_mul a (gf_mul b c)"
  using assms(1)
proof (cases a rule: byte_cases)
  case (2 i)
  note i = 2
  show ?thesis using assms(2)
  proof (cases b rule: byte_cases)
    case (2 j)
    have "gf_mul (gf_mul (alpha i) (alpha j)) c = (xt ^^ (i + j)) c"
    proof (cases "i + j < 255")
      case True
      then show ?thesis using i 2 assms gf_mul_pow [of "i + j" c] by (simp add: gf_mul_alpha)
    next
      case False
      have p: "(xt ^^ 255) c = c"
        using assms(3)
      proof (cases c rule: byte_cases)
        case 1
        then show ?thesis by simp
      next
        case (2 k)
        then show ?thesis using alpha_period [of k] by (simp add: alpha_def funpow_add add.commute [of k])
      qed
      let ?k = "i + j - 255"
      have k: "i + j = ?k + 255" "?k < 255" using False i 2 by simp_all
      have "gf_mul (alpha (i + j)) c = gf_mul (alpha ?k) c" using alpha_period [of ?k] k(1) by simp
      also have "\<dots> = (xt ^^ ?k) c" using k(2) assms by (simp add: gf_mul_pow)
      also have "\<dots> = (xt ^^ (i + j)) c" by (subst (2) k(1), simp only: funpow_add comp_apply p)
      finally show ?thesis using i 2 by (simp add: gf_mul_alpha)
    qed
    then show ?thesis using i 2 assms by (simp add: gf_mul_pow xt_pow_byte funpow_add)
  qed simp
qed simp

interpretation gf: char2_ring is_byte "(XOR)" gf_mul "0 :: int" "1 :: int"
proof
  show "gf_mul x (y XOR w) = gf_mul x y XOR gf_mul x w" if "is_byte x" "is_byte y" "is_byte w" for x y w
    using that(1) by (cases x rule: byte_cases) (simp_all add: gf_mul_pow xor_byte that xt_pow_xor)
  show "gf_mul 1 x = x" if "is_byte x" for x
    using gf_mul_pow [of 0 x] that by (simp add: alpha_def)
  show "is_byte (gf_mul x y)" if "is_byte x" "is_byte y" for x y using that by (rule gf_mul_byte)
  show "gf_mul (gf_mul x y) w = gf_mul x (gf_mul y w)" if "is_byte x" "is_byte y" "is_byte w" for x y w
    using that by (rule gf_mul_assoc)
  show "(x XOR y) XOR w = x XOR (y XOR w)" for x y w :: int by (rule xor.assoc)
  show "x XOR y = y XOR x" for x y :: int by (rule xor.commute)
qed (simp_all add: xor_byte gf_mul_comm, simp_all add: is_byte_def)


section \<open>Reed-Solomon\<close>

text \<open>\<^verbatim>\<open>_rs_generator\<close>: the polynomial, lowest coefficient first, times \<open>x + alpha i\<close> in place.\<close>

definition gen_step :: "nat \<Rightarrow> int list \<Rightarrow> int list" where
  "gen_step i poly0 =
     (let poly = poly0 @ [0];
          poly' = fold (\<lambda>j p. p[j := (p ! (j - 1)) XOR gf_mul (p ! j) (gf_exp ! i)])
                    (rev [1..<length poly]) poly
      in poly'[0 := gf_mul (poly' ! 0) (gf_exp ! i)])"

definition rs_generator :: "nat \<Rightarrow> int list" where
  "rs_generator degree = fold gen_step [0..<degree] [1]"

definition ecc_step :: "int list \<Rightarrow> nat \<Rightarrow> int \<Rightarrow> int list \<Rightarrow> int list" where
  "ecc_step gen degree byte rem0 =
     (let factor = byte XOR hd rem0; rem = tl rem0 @ [0]
      in fold (\<lambda>i r. r[i := (r ! i) XOR gf_mul (gen ! (degree - 1 - i)) factor]) [0..<degree] rem)"

definition rs_ecc :: "int list \<Rightarrow> nat \<Rightarrow> int list" where
  "rs_ecc data degree =
     (let gen = rs_generator degree in fold (ecc_step gen degree) data (replicate degree 0))"

lemma fold_update_up:
  "n \<le> length xs \<Longrightarrow> fold (\<lambda>i r. r[i := f i (r ! i)]) [0..<n] xs = map (\<lambda>i. if i < n then f i (xs ! i) else xs ! i) [0..<length xs]"
proof (induction n)
  case 0
  then show ?case by (simp add: map_nth)
next
  case (Suc n)
  then show ?case by (auto intro!: nth_equalityI simp: nth_list_update)
qed

lemma fold_update_down:
  assumes "n < length xs" "m \<le> n"
  shows "fold (\<lambda>j p. p[j := f (p ! (j - 1)) (p ! j)]) (rev [Suc m..<Suc n]) xs =
    map (\<lambda>j. if m < j \<and> j \<le> n then f (xs ! (j - 1)) (xs ! j) else xs ! j) [0..<length xs]"
  using assms(2)
proof (induction "n - m" arbitrary: m)
  case 0
  then show ?case by (auto intro!: nth_equalityI)
next
  case (Suc k)
  then have "Suc m < Suc n" by simp
  then have l: "rev [Suc m..<Suc n] = rev [Suc (Suc m)..<Suc n] @ [Suc m]"
    by (simp only: upt_conv_Cons rev.simps)
  have "fold (\<lambda>j p. p[j := f (p ! (j - 1)) (p ! j)]) (rev [Suc (Suc m)..<Suc n]) xs =
      map (\<lambda>j. if Suc m < j \<and> j \<le> n then f (xs ! (j - 1)) (xs ! j) else xs ! j) [0..<length xs]"
    using Suc.hyps(1) [of "Suc m"] Suc.hyps(2) by (simp del: upt_Suc)
  then show ?case unfolding l using assms(1) Suc.hyps(2)
    by (auto intro!: nth_equalityI simp: nth_list_update)
qed

lemma gen_step:
  assumes "i < 512" "p \<noteq> []"
  shows "gen_step i p = map2 (XOR) (0 # p) (map (\<lambda>c. gf_mul c (alpha i)) (p @ [0]))"
proof -
  let ?q = "p @ [0]" and ?f = "\<lambda>u v. u XOR gf_mul v (alpha i)"
  have r: "rev [1..<length ?q] = rev [Suc 0..<Suc (length p)]" by simp
  have e: "gf_exp ! i = alpha i" using assms(1) by (rule gf_tables)
  have down: "fold (\<lambda>j p. p[j := ?f (p ! (j - 1)) (p ! j)]) (rev [Suc 0..<Suc (length p)]) ?q =
      map (\<lambda>j. if 0 < j \<and> j \<le> length p then ?f (?q ! (j - 1)) (?q ! j) else ?q ! j) [0..<length ?q]"
    by (rule fold_update_down) simp_all
  have "gen_step i p ! k = map2 (XOR) (0 # p) (map (\<lambda>c. gf_mul c (alpha i)) ?q) ! k"
    if "k < Suc (length p)" for k
  proof (cases k)
    case 0
    then show ?thesis unfolding gen_step_def Let_def r e down using assms(2)
      by (simp del: upt_Suc add: nth_append)
  next
    case (Suc m)
    then have k: "m < length p" using that by simp
    then show ?thesis unfolding gen_step_def Let_def r e down Suc using assms(2)
      by (simp del: upt_Suc add: nth_append) 
  qed
  moreover have "length (gen_step i p) = Suc (length p)"
    unfolding gen_step_def Let_def r e down by simp
  ultimately show ?thesis by (intro nth_equalityI) simp_all
qed

lemma rs_generator_shape:
  "n \<le> 512 \<Longrightarrow> \<exists>g. rs_generator n = g @ [1] \<and> length g = n \<and> list_all is_byte g
     \<and> (\<forall>i<n. peval (XOR) gf_mul 0 (alpha i) (rs_generator n) = 0)"
proof (induction n)
  case (Suc n)
  then obtain g where g: "rs_generator n = g @ [1]" "length g = n" "list_all is_byte g"
      "\<forall>i<n. peval (XOR) gf_mul 0 (alpha i) (rs_generator n) = 0" by auto
  let ?p = "rs_generator n"
  have n: "n < 512" using Suc.prems by simp
  have pb: "list_all is_byte ?p" using g by (simp add: is_byte_def)
  have a: "is_byte (alpha i)" for i using alpha_byte by blast
  have s: "rs_generator (Suc n) = map2 (XOR) (0 # ?p) (map (\<lambda>c. gf_mul c (alpha n)) (?p @ [0]))"
    using gen_step [of n ?p] n g(1) unfolding rs_generator_def by simp
  have shape: "rs_generator (Suc n) =
      map2 (XOR) (0 # g) (map (\<lambda>c. gf_mul c (alpha n)) ?p) @ [1]"
  proof -
    have "0 # ?p = (0 # g) @ [1]" "map (\<lambda>c. gf_mul c (alpha n)) (?p @ [0]) = map (\<lambda>c. gf_mul c (alpha n)) ?p @ [0]"
      using g by simp_all
    moreover have "length (0 # g) = length (map (\<lambda>c. gf_mul c (alpha n)) ?p)" using g by simp
    ultimately show ?thesis unfolding s by (simp only: zip_append map_append zip_Cons_Cons) simp
  qed
  have "length (map2 (XOR) (0 # g) (map (\<lambda>c. gf_mul c (alpha n)) ?p)) = Suc n" using g by simp
  moreover have "list_all is_byte (map2 (XOR) (0 # g) (map (\<lambda>c. gf_mul c (alpha n)) ?p))"
    using g pb a by (intro gf.map2_carr) (auto simp: list_all_iff gf_mul_byte gf.z_carr)
  moreover have "peval (XOR) gf_mul 0 (alpha i) (rs_generator (Suc n)) = 0" if "i < Suc n" for i
  proof -
    have e: "peval (XOR) gf_mul 0 (alpha i) (rs_generator (Suc n)) =
        gf_mul (alpha i XOR alpha n) (peval (XOR) gf_mul 0 (alpha i) ?p)"
      unfolding s by (rule gf.peval_times_root [OF a a pb])
    show ?thesis unfolding e using that g(4) by (cases "i = n") simp_all
  qed
  ultimately show ?case using shape by blast
qed (simp add: rs_generator_def)

lemma ecc_step:
  assumes "length rs = n" "length g = Suc n"
  shows "ecc_step (g @ [1]) (Suc n) b (r # rs) = map2 (XOR) (rs @ [0]) (map (\<lambda>x. gf_mul x (b XOR r)) (rev g))"
  unfolding ecc_step_def Let_def using assms
  by (subst fold_update_up) (auto intro!: nth_equalityI simp: nth_append rev_nth)

lemma rs_fold:
  assumes g: "length g = Suc n" "list_all is_byte g" and a: "is_byte a"
    and root: "peval (XOR) gf_mul 0 a (g @ [1]) = 0"
    and d: "list_all is_byte data"
  shows "let rem = fold (ecc_step (g @ [1]) (Suc n)) data (replicate (Suc n) 0) in
    length rem = Suc n \<and> list_all is_byte rem \<and>
    peval (XOR) gf_mul 0 a (rev rem) =
      gf_mul (rpow gf_mul 1 a (Suc n)) (peval (XOR) gf_mul 0 a (rev data))"
  using d
proof (induction data rule: rev_induct)
  case Nil
  have "list_all is_byte (replicate (Suc n) 0)" by (simp only: list_all_iff set_replicate) (simp add: is_byte_def)
  then show ?case using gf.peval_zeros [OF a, of "Suc n"] gf.rpow_carr [OF a, of "Suc n"]
    by (simp only: Let_def fold_simps id_apply rev_replicate length_replicate rev.simps peval.simps gf_mul_0)
next
  case (snoc b data)
  let ?P = "peval (XOR) gf_mul 0 a" and ?A = "rpow gf_mul 1 a (Suc n)"
  obtain r rs where rem: "fold (ecc_step (g @ [1]) (Suc n)) data (replicate (Suc n) 0) = r # rs"
      and len: "length rs = n" and rb: "is_byte r" "list_all is_byte rs"
      and ev: "?P (rev (r # rs)) = gf_mul ?A (?P (rev data))"
    using snoc by (cases "fold (ecc_step (g @ [1]) (Suc n)) data (replicate (Suc n) 0)") (auto simp: Let_def)
  have b: "is_byte b" and db: "list_all is_byte (rev data)" using snoc.prems by simp_all
  have A: "is_byte ?A" using a by (rule gf.rpow_carr)
  have P: "is_byte (?P (rev data))" by (rule gf.peval_carr [OF a db])
  have st: "fold (ecc_step (g @ [1]) (Suc n)) (data @ [b]) (replicate (Suc n) 0) =
      map2 (XOR) (rs @ [0]) (map (\<lambda>x. gf_mul x (b XOR r)) (rev g))"
    by (simp only: fold_append comp_apply rem fold_simps id_apply) (rule ecc_step [OF len g(1)])
  have "?P (rev (map2 (XOR) (rs @ [0]) (map (\<lambda>x. gf_mul x (b XOR r)) (rev g)))) =
      gf_mul a (?P (rev (r # rs))) XOR gf_mul ?A b"
    using gf.register_step [OF a b rb g(2) _ root] g(1) len by simp
  also have "\<dots> = gf_mul ?A (?P (rev (data @ [b])))"
    unfolding ev using a b A P
    by (simp add: gf.distrib gf.mul_lcomm gf_mul_byte xor.commute)
  finally have ev': "?P (rev (map2 (XOR) (rs @ [0]) (map (\<lambda>x. gf_mul x (b XOR r)) (rev g)))) =
      gf_mul ?A (?P (rev (data @ [b])))" .
  have "list_all is_byte (map2 (XOR) (rs @ [0]) (map (\<lambda>x. gf_mul x (b XOR r)) (rev g)))"
    using g b rb by (intro gf.map2_carr) (auto simp: list_all_iff gf_mul_byte xor_byte gf.z_carr)
  with ev' show ?case unfolding st Let_def using g(1) len by simp
qed

text \<open>
  The data followed by its correction bytes, read as a polynomial over GF(256), vanishes at each
  of the generator's roots; the correction has the requested length and consists of bytes.
\<close>

lemma rs_codeword:
  assumes "list_all is_byte data" "0 < degree" "degree \<le> 512"
  shows "length (rs_ecc data degree) = degree \<and> list_all is_byte (rs_ecc data degree)
    \<and> (\<forall>i<degree. peval (XOR) gf_mul 0 (gf_exp ! i) (rev (data @ rs_ecc data degree)) = 0)"
proof -
  obtain n where n: "degree = Suc n" using assms(2) by (cases degree) auto
  obtain g where g: "rs_generator degree = g @ [1]" "length g = degree" "list_all is_byte g"
      "\<forall>i<degree. peval (XOR) gf_mul 0 (alpha i) (rs_generator degree) = 0"
    using rs_generator_shape [OF assms(3)] by blast
  have a: "is_byte (alpha i)" for i using alpha_byte by blast
  have len: "length g = Suc n" using g n by simp
  have ecc: "rs_ecc data degree = fold (ecc_step (g @ [1]) degree) data (replicate degree 0)"
    by (simp only: rs_ecc_def Let_def g(1))
  have f: "length (rs_ecc data degree) = degree \<and> list_all is_byte (rs_ecc data degree) \<and>
      peval (XOR) gf_mul 0 (alpha i) (rev (rs_ecc data degree)) =
      gf_mul (rpow gf_mul 1 (alpha i) degree) (peval (XOR) gf_mul 0 (alpha i) (rev data))"
    if "i < degree" for i
    using rs_fold [OF len g(3) a _ assms(1), folded n, of i] g(4) that
    unfolding ecc Let_def g(1) by blast
  have z: "peval (XOR) gf_mul 0 (gf_exp ! i) (rev (data @ rs_ecc data degree)) = 0" if "i < degree" for i
  proof -
    have "gf_exp ! i = alpha i" using that assms(3) by (simp add: gf_tables)
    then show ?thesis using f [OF that] a assms(1)
      by (simp add: gf.peval_append)
  qed
  show ?thesis using f [of 0] z assms(2) by blast
qed

end
