(* ===== verification/Qr.thy ===== *)
theory Qr
  imports Gf256 Py_Text "HOL-Library.Log_Nat"
begin

text \<open>
  \<^verbatim>\<open>lib/core/mfa/qr.py\<close>: byte mode, error correction level L, versions 1 to 10, from the payload
  to the SVG element. Bytes and bits are Python integers (\<open>int\<close>), positions and sizes \<open>nat\<close>; a
  symbol is a list of rows of modules. The two grids \<^verbatim>\<open>mod\<close> and \<^verbatim>\<open>res\<close> the source mutates in
  place are threaded through the functions that write them.
\<close>

section \<open>The tables of the standard\<close>

definition ec_l :: "(nat, nat \<times> (nat \<times> nat) list) dict" where
  "ec_l = [(1, 7, [(1, 19)]), (2, 10, [(1, 34)]), (3, 15, [(1, 55)]), (4, 20, [(1, 80)]),
           (5, 26, [(1, 108)]), (6, 18, [(2, 68)]), (7, 20, [(2, 78)]), (8, 24, [(2, 97)]),
           (9, 30, [(2, 116)]), (10, 18, [(2, 68), (2, 69)])]"

definition align_centres :: "(nat, nat list) dict" where
  "align_centres = [(1, []), (2, [6, 18]), (3, [6, 22]), (4, [6, 26]), (5, [6, 30]), (6, [6, 34]),
     (7, [6, 22, 38]), (8, [6, 24, 42]), (9, [6, 26, 46]), (10, [6, 28, 50])]"

definition ec_level_bits :: int where "ec_level_bits = 1"

definition format_mask :: int where "format_mask = 21522"

definition format_poly :: int where "format_poly = 1335"

definition version_poly :: int where "version_poly = 7973"

definition max_version :: nat where
  "max_version = Max (set (map fst ec_l))"

text \<open>The two table rows of a version; only versions of the table are ever asked for.\<close>

definition ec_of :: "nat \<Rightarrow> nat \<times> (nat \<times> nat) list" where
  "ec_of v = dget ec_l v (0, [])"

definition data_total :: "nat \<Rightarrow> nat" where
  "data_total v = sum_list (map (\<lambda>(count, sz). count * sz) (snd (ec_of v)))"

section \<open>Data codewords\<close>

definition put_bits :: "int \<Rightarrow> nat \<Rightarrow> int list" where
  "put_bits value len = map (\<lambda>i. drop_bit i value AND 1) (rev [0..<len])"

definition char_count_bits :: "nat \<Rightarrow> nat" where
  "char_count_bits v = (if v < 10 then 8 else 16)"

definition capacity :: "nat \<Rightarrow> nat" where
  "capacity v = data_total v - 1 - char_count_bits v div 8"

definition best_version :: "nat \<Rightarrow> nat" where
  "best_version nbytes =
     (case find (\<lambda>v. nbytes \<le> capacity v) [1..<max_version + 1] of Some v \<Rightarrow> v | None \<Rightarrow> 0)"

text \<open>\<^verbatim>\<open>int(''.join(...), 2)\<close> of a run of bits, and the bits cut into runs of eight.\<close>

definition bits_value :: "int list \<Rightarrow> int" where
  "bits_value bs = foldl (\<lambda>a b. 2 * a + b) 0 bs"

fun chunks8 :: "int list \<Rightarrow> int list list" where
  "chunks8 [] = []"
| "chunks8 (b # bs) = take 8 (b # bs) # chunks8 (drop 7 bs)"

definition pad_codewords :: "nat \<Rightarrow> int list" where
  "pad_codewords n = map (\<lambda>i. if i mod 2 = 0 then 236 else 17) [0..<n]"

definition data_codewords :: "int list \<Rightarrow> nat \<Rightarrow> int list" where
  "data_codewords payload v =
     (let total = data_total v;
          bits = put_bits 4 4 @ put_bits (int (length payload)) (char_count_bits v)
                 @ concat (map (\<lambda>b. put_bits b 8) payload);
          bits = bits @ put_bits 0 (min 4 (total * 8 - length bits));
          bits = bits @ put_bits 0 (nat ((- int (length bits)) mod 8));
          data = map bits_value (chunks8 bits)
      in data @ pad_codewords (total - length data))"

section \<open>Blocks\<close>

text \<open>The sizes of the blocks in order, the blocks themselves, and the weave of their columns.\<close>

definition block_sizes :: "nat \<Rightarrow> nat list" where
  "block_sizes v = concat (map (\<lambda>(count, sz). replicate count sz) (snd (ec_of v)))"

fun split_blocks :: "nat list \<Rightarrow> 'a list \<Rightarrow> 'a list list" where
  "split_blocks [] data = []"
| "split_blocks (s # ss) data = take s data # split_blocks ss (drop s data)"

definition weave :: "'a list list \<Rightarrow> nat \<Rightarrow> 'a list" where
  "weave blocks n = concat (map (\<lambda>i. map (\<lambda>b. b ! i) (filter (\<lambda>b. i < length b) blocks)) [0..<n])"

definition interleave :: "int list \<Rightarrow> nat \<Rightarrow> int list" where
  "interleave data v =
     (let ec = fst (ec_of v); blocks = split_blocks (block_sizes v) data;
          eccs = map (\<lambda>b. rs_ecc b ec) blocks
      in weave blocks (Max (set (map length blocks)))
         @ concat (map (\<lambda>i. map (\<lambda>e. e ! i) eccs) [0..<ec]))"

section \<open>Format and version information\<close>

definition bit_length :: "int \<Rightarrow> nat" where
  "bit_length n = (if n = 0 then 0 else floorlog 2 (nat \<bar>n\<bar>))"

definition poly_degree :: "int \<Rightarrow> nat" where
  "poly_degree poly = bit_length poly - 1"

definition bch_remainder :: "int \<Rightarrow> int \<Rightarrow> nat \<Rightarrow> int" where
  "bch_remainder value poly data_bits =
     (let degree = poly_degree poly
      in fold (\<lambda>shift rem. if rem AND push_bit (shift + degree) 1 \<noteq> 0 then rem XOR push_bit shift poly else rem)
           (rev [0..<data_bits]) (push_bit degree value))"

definition format_bits :: "nat \<Rightarrow> int" where
  "format_bits mk =
     (let value = push_bit 3 ec_level_bits OR (int mk AND 7)
      in (push_bit 10 value OR bch_remainder value format_poly 5) XOR format_mask)"

definition version_bits :: "nat \<Rightarrow> int" where
  "version_bits v = push_bit 12 (int v) OR bch_remainder (int v) version_poly 6"

section \<open>Function patterns\<close>

type_synonym grid = "bool list list"

definition cell :: "grid \<Rightarrow> nat \<Rightarrow> nat \<Rightarrow> bool" where
  "cell g r c = g ! r ! c"

definition set_cell :: "nat \<Rightarrow> nat \<Rightarrow> bool \<Rightarrow> grid \<Rightarrow> grid" where
  "set_cell r c v g = g[r := (g ! r)[c := v]]"

definition blank :: "nat \<Rightarrow> grid" where
  "blank sz = replicate sz (replicate sz False)"

text \<open>A symbol under construction: the modules and the reserved cells.\<close>

type_synonym canvas = "grid \<times> grid"

definition paint :: "nat \<times> nat \<times> bool \<Rightarrow> canvas \<Rightarrow> canvas" where
  "paint p cv = (let (r, c, v) = p; (m, s) = cv in (set_cell r c v m, set_cell r c True s))"

definition paint_free :: "nat \<times> nat \<times> bool \<Rightarrow> canvas \<Rightarrow> canvas" where
  "paint_free p cv = (let (r, c, v) = p in if cell (snd cv) r c then cv else paint p cv)"

definition reserve :: "nat \<times> nat \<Rightarrow> canvas \<Rightarrow> canvas" where
  "reserve p cv = (let (r, c) = p; (m, s) = cv in (m, set_cell r c True s))"

definition box :: "int \<Rightarrow> int \<Rightarrow> (int \<times> int) list" where
  "box lo hi = concat (map (\<lambda>r. map (\<lambda>c. (r, c)) [lo..hi - 1]) [lo..hi - 1])"

text \<open>The cells of a box at a corner that lie inside the symbol.\<close>

definition placed :: "nat \<Rightarrow> int \<Rightarrow> int \<Rightarrow> (int \<Rightarrow> int \<Rightarrow> bool) \<Rightarrow> (int \<times> int) list \<Rightarrow> (nat \<times> nat \<times> bool) list" where
  "placed sz tp left fn cs =
     List.map_filter (\<lambda>(r, c). let rr = tp + r; cc = left + c in
        if 0 \<le> rr \<and> rr < int sz \<and> 0 \<le> cc \<and> cc < int sz
        then Some (nat rr, nat cc, fn r c) else None) cs"

definition finder_dark :: "int \<Rightarrow> int \<Rightarrow> bool" where
  "finder_dark r c = (r = 0 \<or> r = 6 \<or> c = 0 \<or> c = 6 \<or> (2 \<le> r \<and> r \<le> 4 \<and> 2 \<le> c \<and> c \<le> 4))"

definition finder :: "nat \<Rightarrow> int \<times> int \<Rightarrow> canvas \<Rightarrow> canvas" where
  "finder sz corner cv =
     (let (tp, left) = corner
      in fold paint_free (placed sz tp left (\<lambda>r c. False) (box (- 1) 8))
           (fold paint (placed sz tp left finder_dark (box 0 7)) cv))"

definition timing_cells :: "nat \<Rightarrow> (nat \<times> nat \<times> bool) list" where
  "timing_cells sz = concat (map (\<lambda>i. [(6, i, i mod 2 = 0), (i, 6, i mod 2 = 0)]) [0..<sz])"

definition alignment :: "nat \<Rightarrow> nat list \<Rightarrow> (nat \<times> nat \<times> bool) list" where
  "alignment sz centres =
     concat (map (\<lambda>row. concat (map (\<lambda>col.
       if (row, col) \<in> {(6, 6), (6, sz - 7), (sz - 7, 6)} then []
       else map (\<lambda>(r, c). (nat (int row + r), nat (int col + c), max \<bar>r\<bar> \<bar>c\<bar> \<noteq> 1)) (box (- 2) 3))
       centres)) centres)"

definition format_area :: "nat \<Rightarrow> (nat \<times> nat) list" where
  "format_area sz =
     concat (map (\<lambda>i. [(8, i), (i, 8)]) [0..<9])
     @ concat (map (\<lambda>i. [(8, sz - 1 - i), (sz - 1 - i, 8)]) [0..<8])"

definition version_area :: "nat \<Rightarrow> nat \<Rightarrow> (nat \<times> nat) list" where
  "version_area sz v =
     (if 7 \<le> v
      then concat (map (\<lambda>i. [(sz - 11 + i mod 3, i div 3), (i div 3, sz - 11 + i mod 3)]) [0..<18])
      else [])"

definition function_patterns :: "nat \<Rightarrow> canvas \<Rightarrow> canvas" where
  "function_patterns v cv0 =
     (let sz = length (fst cv0);
          cv = fold (finder sz) [(0, 0), (0, int sz - 7), (int sz - 7, 0)] cv0;
          cv = fold paint_free (timing_cells sz) cv;
          cv = fold paint (alignment sz (dget align_centres v [])) cv;
          cv = paint (sz - 8, 8, True) cv
      in fold reserve (format_area sz @ version_area sz v) cv)"

definition write_cells :: "(nat \<times> nat \<times> bool) list \<Rightarrow> grid \<Rightarrow> grid" where
  "write_cells ws g = fold (\<lambda>(r, c, v). set_cell r c v) ws g"

definition py_bit :: "int \<Rightarrow> nat \<Rightarrow> bool" where
  "py_bit bits i = (drop_bit i bits AND 1 \<noteq> 0)"

definition write_version :: "nat \<Rightarrow> grid \<Rightarrow> grid" where
  "write_version v g =
     (if v < 7 then g
      else let sz = length g; bits = version_bits v
           in write_cells (concat (map (\<lambda>i. [(sz - 11 + i mod 3, i div 3, py_bit bits i),
                                             (i div 3, sz - 11 + i mod 3, py_bit bits i)]) [0..<18])) g)"

text \<open>The two copies of the format: cell and bit index.\<close>

definition format_copy1 :: "(nat \<times> nat \<times> nat) list" where
  "format_copy1 = map (\<lambda>i. (8, i, i)) [0..<6] @ [(8, 7, 6), (8, 8, 7), (7, 8, 8)]
     @ map (\<lambda>i. (14 - i, 8, i)) [9..<15]"

definition format_copy2 :: "nat \<Rightarrow> (nat \<times> nat \<times> nat) list" where
  "format_copy2 sz = map (\<lambda>i. (8, sz - 1 - i, i)) [0..<8] @ map (\<lambda>i. (sz - 15 + i, 8, i)) [8..<15]"

definition write_format :: "nat \<Rightarrow> grid \<Rightarrow> grid" where
  "write_format mk g =
     (let bits = format_bits mk
      in write_cells (map (\<lambda>(r, c, i). (r, c, py_bit bits i)) (format_copy1 @ format_copy2 (length g))) g)"

section \<open>Data placement\<close>

definition mask_at :: "nat \<Rightarrow> nat \<Rightarrow> nat \<Rightarrow> bool" where
  "mask_at mk row col =
     (if mk = 0 then (row + col) mod 2 = 0
      else if mk = 1 then row mod 2 = 0
      else if mk = 2 then col mod 3 = 0
      else if mk = 3 then (row + col) mod 3 = 0
      else if mk = 4 then (row div 2 + col div 3) mod 2 = 0
      else if mk = 5 then (row * col) mod 2 + (row * col) mod 3 = 0
      else if mk = 6 then ((row * col) mod 2 + (row * col) mod 3) mod 2 = 0
      else ((row + col) mod 2 + (row * col) mod 3) mod 2 = 0)"

text \<open>The cells in the order the loops of \<^verbatim>\<open>_place_data\<close> visit them: two columns at a time from the
  right, skipping the timing column, up and down in turn.\<close>

function zigzag :: "nat \<Rightarrow> nat \<Rightarrow> bool \<Rightarrow> (nat \<times> nat) list" where
  "zigzag sz col upward =
     (if col = 0 then []
      else let col = (if col = 6 then col - 1 else col);
               rows = (if upward then rev [0..<sz] else [0..<sz])
           in concat (map (\<lambda>row. [(row, col), (row, col - 1)]) rows) @ zigzag sz (col - 2) (\<not> upward))"
  by pat_completeness auto
termination
  by (relation "measure (\<lambda>(sz, col, up). col)") auto

declare zigzag.simps [simp del]

definition data_bits :: "int list \<Rightarrow> int list" where
  "data_bits data = concat (map (\<lambda>byte. map (\<lambda>i. drop_bit i byte AND 1) (rev [0..<8])) data)"

definition place_step :: "grid \<Rightarrow> int list \<Rightarrow> nat \<Rightarrow> nat \<times> nat \<Rightarrow> nat \<times> grid \<Rightarrow> nat \<times> grid" where
  "place_step res bits mk p st =
     (let (row, c) = p; (idx, g) = st
      in if cell res row c then st
         else let bit = (if idx < length bits then bits ! idx \<noteq> 0 else False)
              in (idx + 1, set_cell row c (bit \<noteq> mask_at mk row c) g))"

definition place_data :: "grid \<Rightarrow> int list \<Rightarrow> nat \<Rightarrow> grid \<Rightarrow> grid" where
  "place_data res data mk g =
     (let sz = length g
      in snd (fold (place_step res (data_bits data) mk) (zigzag sz (sz - 1) True) (0, g)))"

section \<open>Penalty\<close>

definition columns :: "grid \<Rightarrow> grid" where
  "columns g = map (\<lambda>c. map (\<lambda>r. cell g r c) [0..<length g]) [0..<length g]"

fun run_score :: "nat \<Rightarrow> bool \<Rightarrow> bool list \<Rightarrow> nat" where
  "run_score run prev [] = (if 5 \<le> run then 3 + (run - 5) else 0)"
| "run_score run prev (v # vs) =
     (if v = prev then run_score (run + 1) prev vs
      else (if 5 \<le> run then 3 + (run - 5) else 0) + run_score 1 v vs)"

definition line_runs :: "bool list \<Rightarrow> nat" where
  "line_runs line = (case line of [] \<Rightarrow> 0 | v # vs \<Rightarrow> run_score 1 v vs)"

definition block_score :: "grid \<Rightarrow> nat" where
  "block_score g =
     sum_list (map (\<lambda>r. sum_list (map (\<lambda>c.
       if cell g r c = cell g r (c + 1) \<and> cell g r (c + 1) = cell g (r + 1) c
          \<and> cell g (r + 1) c = cell g (r + 1) (c + 1) then 3 else 0) [0..<length g - 1]))
       [0..<length g - 1])"

definition pattern_a :: "bool list" where
  "pattern_a = [True, False, True, True, True, False, True, False, False, False, False]"

definition line_finders :: "nat \<Rightarrow> bool list \<Rightarrow> nat" where
  "line_finders sz line =
     sum_list (map (\<lambda>i. let w = take 11 (drop i line) in
       if w = pattern_a \<or> w = rev pattern_a then 40 else 0) [0..<sz - 10])"

definition penalty :: "grid \<Rightarrow> int" where
  "penalty g =
     (let sz = length g; ls = g @ columns g;
          dark = int (sum_list (map (\<lambda>row. length (filter (\<lambda>v. v) row)) g))
      in int (sum_list (map line_runs ls)) + int (block_score g)
         + int (sum_list (map (line_finders sz) ls))
         + 10 * (\<bar>dark * 100 div (int sz * int sz) - 50\<bar> div 5))"

section \<open>The symbol\<close>

definition utf8 :: "string \<Rightarrow> int list" where
  "utf8 s = concat (map (\<lambda>c. let n = of_char c in
     if n < 128 then [n] else [192 OR drop_bit 6 n, 128 OR (n AND 63)]) s)"

definition qr_size :: "nat \<Rightarrow> nat" where
  "qr_size v = v * 4 + 17"

definition symbol :: "int list \<Rightarrow> nat \<Rightarrow> nat \<Rightarrow> grid" where
  "symbol data v mk =
     (let (m, res) = function_patterns v (blank (qr_size v), blank (qr_size v))
      in write_format mk (place_data res data mk (write_version v m)))"

definition pick_best :: "grid option \<Rightarrow> grid \<Rightarrow> grid option" where
  "pick_best best g =
     (case best of None \<Rightarrow> Some g | Some b \<Rightarrow> if penalty g < penalty b then Some g else best)"

definition qr_symbol :: "int list \<Rightarrow> grid" where
  "qr_symbol payload =
     (let v = best_version (length payload)
      in if v = 0 then []
         else let data = interleave (data_codewords payload v) v
              in case foldl (\<lambda>best mk. pick_best best (symbol data v mk)) None [0..<8] of
                   Some g \<Rightarrow> g | None \<Rightarrow> [])"

definition qr_matrix :: "string \<Rightarrow> grid" where
  "qr_matrix text = qr_symbol (utf8 text)"

section \<open>The SVG element\<close>

text \<open>The runs of dark modules of a row: start and length.\<close>

function dark_runs :: "nat \<Rightarrow> bool list \<Rightarrow> (nat \<times> nat) list" where
  "dark_runs c [] = []"
| "dark_runs c (False # vs) = dark_runs (c + 1) vs"
| "dark_runs c (True # vs) =
     (let n = length (takeWhile (\<lambda>v. v) (True # vs))
      in (c, n) # dark_runs (c + n) (dropWhile (\<lambda>v. v) vs))"
  by pat_completeness auto
termination
  by (relation "measure (\<lambda>(c, vs). length vs)") (auto simp: le_imp_less_Suc length_dropWhile_le)

definition svg_path :: "nat \<Rightarrow> grid \<Rightarrow> string" where
  "svg_path quiet g =
     concat (map (\<lambda>(r, row). concat (map (\<lambda>(c, n).
       ''M'' @ show_dec (c + quiet) @ '' '' @ show_dec (r + quiet) @ ''h'' @ show_dec n @ ''v1h-''
         @ show_dec n @ ''z'') (dark_runs 0 row))) (enumerate 0 g))"

definition svg :: "string \<Rightarrow> nat \<Rightarrow> string" where
  "svg text quiet =
     (let g = qr_matrix text; total = show_dec (length g + quiet * 2)
      in if g = [] then []
         else ''<svg xmlns=\"http://www.w3.org/2000/svg\" viewBox=\"0 0 '' @ total @ '' '' @ total
              @ ''\" shape-rendering=\"crispEdges\" role=\"img\">''
              @ ''<rect width=\"'' @ total @ ''\" height=\"'' @ total @ ''\" fill=\"#fff\"/>''
              @ ''<path fill=\"#000\" d=\"'' @ svg_path quiet g @ ''\"/>'' @ ''</svg>'')"

end
