(* ===== verification/Qr_Proofs.thy ===== *)
theory Qr_Proofs
  imports Qr
begin

text \<open>
  What the symbol promises: a reader that knows only the standard gets the payload back. The
  reader is the specification (\<open>qr_read\<close> for the codewords, \<open>deinterleave\<close> for the blocks,
  \<open>read_symbol\<close> for the grid); each stage of the encoder is inverted by its part, and the
  stages compose to the round trip of the whole symbol.
\<close>

section \<open>Bits\<close>

lemma length_put_bits [simp]: "length (put_bits v n) = n"
  by (simp add: put_bits_def)

lemma put_bits_Suc: "put_bits v (Suc n) = (drop_bit n v AND 1) # put_bits v n"
  by (simp add: put_bits_def)

lemma bit_01: "drop_bit n (v :: int) AND 1 = (v div 2 ^ n) mod 2"
  by (simp add: drop_bit_eq_div and_one_eq)

lemma bits_value_from: "foldl (\<lambda>a b. 2 * a + b) x bs = x * 2 ^ length bs + bits_value bs"
proof (induction bs arbitrary: x)
  case (Cons c bs)
  have s: "foldl (\<lambda>a b. 2 * a + b) y (c # bs) = (2 * y + c) * 2 ^ length bs + bits_value bs" for y
    by (simp only: foldl_Cons) (rule Cons)
  show ?case unfolding s bits_value_def [of "c # bs"] by (simp add: distrib_right)
qed (simp add: bits_value_def)

lemma bits_value_Cons: "bits_value (b # bs) = b * 2 ^ length bs + bits_value bs"
  using bits_value_from [of b bs] by (simp add: bits_value_def [of "b # bs"])

lemma bits_value_put: "bits_value (put_bits v n) = v mod 2 ^ n"
proof (induction n)
  case (Suc n)
  have "v mod 2 ^ Suc n = 2 ^ n * (v div 2 ^ n mod 2) + v mod 2 ^ n"
    using zmod_zmult2_eq [of 2 v "2 ^ n"] by (simp add: mult.commute)
  with Suc show ?case by (simp add: put_bits_Suc bits_value_Cons bit_01)
qed (simp add: put_bits_def bits_value_def)

definition is_bits :: "int list \<Rightarrow> bool" where
  "is_bits bs = list_all (\<lambda>b. b = 0 \<or> b = 1) bs"

lemma is_bits_put [simp]: "is_bits (put_bits v n)"
proof -
  have "v div 2 ^ i mod 2 = 0 \<or> v div 2 ^ i mod 2 = 1" for i by presburger
  then show ?thesis by (auto simp: is_bits_def put_bits_def list_all_iff bit_01)
qed

lemma is_bits_append [simp]: "is_bits (xs @ ys) = (is_bits xs \<and> is_bits ys)"
  by (simp add: is_bits_def)

lemma is_bits_concat: "is_bits (concat xss) = list_all is_bits xss"
  by (induction xss) (auto simp: is_bits_def)

lemma bits_value_bound: "is_bits bs \<Longrightarrow> 0 \<le> bits_value bs \<and> bits_value bs < 2 ^ length bs"
  by (induction bs) (auto simp: bits_value_Cons is_bits_def, simp_all add: bits_value_def)

lemma put_bits_mod: "put_bits (v mod 2 ^ n) n = put_bits v n"
proof -
  have "drop_bit i (v mod 2 ^ n) AND 1 = drop_bit i v AND 1" if "i < n" for i
    using that by (simp add: take_bit_eq_mod [symmetric] and_one_eq odd_iff_mod_2_eq_one [symmetric]
        mod_2_eq_odd bit_iff_odd_drop_bit [symmetric] bit_take_bit_iff)
  then show ?thesis by (auto simp: put_bits_def)
qed

lemma put_bits_value: "is_bits bs \<Longrightarrow> put_bits (bits_value bs) (length bs) = bs"
proof (induction bs)
  case (Cons b bs)
  then have r: "0 \<le> bits_value bs" "bits_value bs < 2 ^ length bs" and b: "b = 0 \<or> b = 1"
    using bits_value_bound [of bs] by (auto simp: is_bits_def)
  have "(b * 2 ^ length bs + bits_value bs) div 2 ^ length bs = b" using r by simp
  moreover have "put_bits (b * 2 ^ length bs + bits_value bs) (length bs) = put_bits (bits_value bs) (length bs)"
    by (subst put_bits_mod [symmetric]) (use r in simp)
  ultimately show ?case using Cons b by (auto simp: bits_value_Cons put_bits_Suc bit_01 is_bits_def)
qed (simp add: put_bits_def)

lemma data_bits_eq: "data_bits data = concat (map (\<lambda>b. put_bits b 8) data)"
  by (simp only: data_bits_def put_bits_def)

lemma length_data_bits [simp]: "length (data_bits data) = 8 * length data"
  by (simp add: data_bits_eq length_concat comp_def sum_list_triv)

lemma chunks8_concat: "list_all (\<lambda>c. length c = 8) cs \<Longrightarrow> chunks8 (concat cs) = cs"
proof (induction cs)
  case (Cons c cs)
  then obtain b bs where "c = b # bs" "length bs = 7" by (cases c) auto
  with Cons show ?case by simp
qed simp

lemma chunks8_all: "8 dvd length bs \<Longrightarrow> concat (chunks8 bs) = bs \<and> list_all (\<lambda>c. length c = 8) (chunks8 bs)"
proof (induction bs rule: chunks8.induct)
  case (2 b bs)
  then obtain k where k: "Suc (length bs) = 8 * k" by (auto simp: dvd_def)
  then have l: "7 \<le> length bs" and d: "length (drop 7 bs) = 8 * (k - 1)" by (cases k; simp)+
  have IH: "concat (chunks8 (drop 7 bs)) = drop 7 bs \<and> list_all (\<lambda>c. length c = 8) (chunks8 (drop 7 bs))"
    using 2 d by simp
  then show ?case using l by simp
qed simp

lemma length_concat_8: "list_all (\<lambda>c. length c = 8) cs \<Longrightarrow> length (concat cs) = 8 * length cs"
  by (induction cs) auto

lemma length_chunks8: "8 dvd length bs \<Longrightarrow> 8 * length (chunks8 bs) = length bs"
  using chunks8_all [of bs] length_concat_8 [of "chunks8 bs"] by simp

lemma data_bits_values:
  assumes "8 dvd length bs" "is_bits bs"
  shows "data_bits (map bits_value (chunks8 bs)) = bs"
proof -
  have "map (\<lambda>c. put_bits (bits_value c) 8) (chunks8 bs) = chunks8 bs"
  proof (rule map_idI)
    fix c assume c: "c \<in> set (chunks8 bs)"
    then have "length c = 8" "is_bits c"
      using chunks8_all [OF assms(1)] assms(2) by (auto simp: list_all_iff) (metis is_bits_concat list_all_iff)
    then show "put_bits (bits_value c) 8 = c" using put_bits_value [of c] by simp
  qed
  then show ?thesis using chunks8_all [OF assms(1)] by (simp add: data_bits_eq comp_def)
qed

section \<open>Codewords\<close>

text \<open>The standard's reading of the data codewords: mode indicator, character count, bytes.\<close>

definition qr_read :: "nat \<Rightarrow> int list \<Rightarrow> int list option" where
  "qr_read v cws =
     (let bits = data_bits cws; cc = char_count_bits v;
          n = nat (bits_value (take cc (drop 4 bits)))
      in if bits_value (take 4 bits) \<noteq> 4 then None
         else Some (map bits_value (chunks8 (take (8 * n) (drop (4 + cc) bits)))))"

definition version_ok :: "nat \<Rightarrow> bool" where
  "version_ok v = (1 \<le> v \<and> v \<le> 10)"

lemma version_cases:
  assumes "version_ok v"
  shows "v \<in> set [1..<11]"
  using assms by (auto simp: version_ok_def)

lemma capacities:
  assumes "version_ok v"
  shows "Suc (Suc (capacity v)) \<le> data_total v" "int (capacity v) < 2 ^ char_count_bits v"
    "capacity v = data_total v - 1 - char_count_bits v div 8" "8 dvd char_count_bits v"
    "capacity v + 1 + char_count_bits v div 8 = data_total v"
proof -
  have "list_all (\<lambda>v. Suc (Suc (capacity v)) \<le> data_total v \<and> int (capacity v) < 2 ^ char_count_bits v
      \<and> capacity v + 1 + char_count_bits v div 8 = data_total v \<and> char_count_bits v mod 8 = 0) [1..<11]"
    by code_simp
  then have "\<forall>v \<in> set [1..<11]. Suc (Suc (capacity v)) \<le> data_total v \<and> int (capacity v) < 2 ^ char_count_bits v
      \<and> capacity v + 1 + char_count_bits v div 8 = data_total v \<and> char_count_bits v mod 8 = 0"
    by (simp only: list_all_iff)
  with version_cases [OF assms] have a: "Suc (Suc (capacity v)) \<le> data_total v \<and> int (capacity v) < 2 ^ char_count_bits v
      \<and> capacity v + 1 + char_count_bits v div 8 = data_total v \<and> char_count_bits v mod 8 = 0" by blast
  then show "Suc (Suc (capacity v)) \<le> data_total v" "int (capacity v) < 2 ^ char_count_bits v"
    "capacity v + 1 + char_count_bits v div 8 = data_total v" "8 dvd char_count_bits v" by auto
  show "capacity v = data_total v - 1 - char_count_bits v div 8" by (rule capacity_def)
qed

lemma pad_to_byte: "8 dvd n + nat ((- int n) mod 8)"
proof -
  have "(int n + (- int n) mod 8) mod 8 = 0" by presburger
  moreover have "int (n + nat ((- int n) mod 8)) = int n + (- int n) mod 8" by simp
  ultimately have "8 dvd int (n + nat ((- int n) mod 8))" by (simp only: dvd_eq_mod_eq_0)
  then show ?thesis by presburger
qed

lemma data_bits_append: "data_bits (xs @ ys) = data_bits xs @ data_bits ys"
  by (simp add: data_bits_eq)

lemma codewords_bytes:
  assumes "8 dvd length b" "is_bits b"
  shows "list_all is_byte (map bits_value (chunks8 b))"
proof -
  have "is_byte (bits_value c)" if "c \<in> set (chunks8 b)" for c
  proof -
    have "length c = 8" "is_bits c"
      using that chunks8_all [OF assms(1)] assms(2) is_bits_concat [of "chunks8 b"] by (auto simp: list_all_iff)
    then show ?thesis using bits_value_bound [of c] by (simp add: is_byte_def)
  qed
  then show ?thesis by (simp add: list_all_iff)
qed

lemma data_codewords_bits:
  assumes "version_ok v" "length payload \<le> capacity v"
  shows "length (data_codewords payload v) = data_total v \<and> list_all is_byte (data_codewords payload v)
    \<and> (\<exists>rest. data_bits (data_codewords payload v) =
        put_bits 4 4 @ put_bits (int (length payload)) (char_count_bits v)
        @ data_bits payload @ rest)"
proof -
  let ?T = "data_total v" and ?cc = "char_count_bits v"
  define b0 where "b0 = put_bits 4 4 @ put_bits (int (length payload)) ?cc @ data_bits payload"
  define b1 where "b1 = b0 @ put_bits 0 (min 4 (?T * 8 - length b0))"
  define b2 where "b2 = b1 @ put_bits 0 (nat ((- int (length b1)) mod 8))"
  define data where "data = map bits_value (chunks8 b2)"
  have dc: "data_codewords payload v = data @ pad_codewords (?T - length data)"
    by (simp only: data_codewords_def Let_def data_def b2_def b1_def b0_def data_bits_eq append_assoc)
  note c = capacities [OF assms(1)]
  have l0: "length b0 = 4 + ?cc + 8 * length payload" by (simp add: b0_def)
  obtain k where k: "?cc = 8 * k" using c(4) by (auto simp: dvd_def)
  have "length b0 + 4 \<le> 8 * ?T" using l0 k c(5) assms(2) by simp
  then have "length b1 \<le> 8 * ?T" by (simp add: b1_def)
  moreover have d2: "8 dvd length b2" using pad_to_byte [of "length b1"] by (simp add: b2_def)
  moreover have "length b2 < length b1 + 8" by (simp add: b2_def nat_less_iff)
  ultimately have l2: "length b2 \<le> 8 * ?T" by (auto simp: dvd_def)
  have ld: "8 * length data = length b2" using length_chunks8 [OF d2] by (simp add: data_def)
  have b2: "is_bits b2"
    by (simp add: b2_def b1_def b0_def is_bits_concat data_bits_eq list_all_iff)
  then have db: "data_bits data = b2" unfolding data_def by (rule data_bits_values [OF d2])
  have pre: "b2 = b0 @ drop (length b0) b2" by (simp add: b2_def b1_def)
  have "data_bits (data_codewords payload v) =
      b0 @ (drop (length b0) b2 @ data_bits (pad_codewords (?T - length data)))"
    unfolding dc data_bits_append db by (subst pre) (simp only: append_assoc)
  moreover have "list_all is_byte (pad_codewords n)" for n
    by (auto simp: pad_codewords_def list_all_iff is_byte_def)
  then have "list_all is_byte (data_codewords payload v)"
    using codewords_bytes [OF d2 b2] by (simp add: dc data_def)
  moreover have "length (data_codewords payload v) = ?T" using ld l2 by (simp add: dc pad_codewords_def)
  ultimately show ?thesis by (auto simp: b0_def)
qed

lemma bytes_back:
  assumes "list_all is_byte payload"
  shows "map bits_value (chunks8 (data_bits payload)) = payload"
proof -
  have "chunks8 (data_bits payload) = map (\<lambda>b. put_bits b 8) payload"
    unfolding data_bits_eq by (rule chunks8_concat) (simp add: list_all_iff)
  moreover have "bits_value (put_bits b 8) = b" if "b \<in> set payload" for b
    using that assms by (simp add: bits_value_put list_all_iff is_byte_def)
  ultimately show ?thesis by (simp add: map_idI)
qed

lemma codewords_read:
  assumes "version_ok v" "length payload \<le> capacity v" "list_all is_byte payload"
  shows "qr_read v (data_codewords payload v) = Some payload"
proof -
  obtain rest where bits: "data_bits (data_codewords payload v) =
        put_bits 4 4 @ put_bits (int (length payload)) (char_count_bits v) @ data_bits payload @ rest"
    using data_codewords_bits [OF assms(1,2)] by blast
  have m: "bits_value (put_bits 4 4) = 4" by (simp add: bits_value_put)
  have n: "bits_value (put_bits (int (length payload)) (char_count_bits v)) = int (length payload)"
    using capacities(2) [OF assms(1)] assms(2) by (simp add: bits_value_put)
  show ?thesis using m n bytes_back [OF assms(3)] by (simp add: qr_read_def bits Let_def)
qed

section \<open>Blocks\<close>

text \<open>Where the interleaving puts codeword \<open>i\<close> of block \<open>b\<close>, and the blocks read back from there.\<close>

definition weave_pos :: "nat list \<Rightarrow> nat \<Rightarrow> nat \<Rightarrow> nat" where
  "weave_pos sizes b i =
     sum_list (map (\<lambda>j. length (filter (\<lambda>s. j < s) sizes)) [0..<i]) + length (filter (\<lambda>s. i < s) (take b sizes))"

definition unweave :: "nat list \<Rightarrow> 'a list \<Rightarrow> 'a list list" where
  "unweave sizes xs = map (\<lambda>b. map (\<lambda>i. xs ! weave_pos sizes b i) [0..<sizes ! b]) [0..<length sizes]"

lemma upt_split: "i < n \<Longrightarrow> [0..<n] = [0..<i] @ i # [Suc i..<n]"
  using upt_add_eq_append [of 0 i "n - i"] by (simp add: upt_conv_Cons)

lemma nth_concat_map:
  "i < n \<Longrightarrow> k < length (f i) \<Longrightarrow>
   concat (map f [0..<n]) ! (sum_list (map (\<lambda>j. length (f j)) [0..<i]) + k) = f i ! k"
proof (induction n)
  case (Suc n)
  show ?case
  proof (cases "i < n")
    case True
    have "sum_list (map (\<lambda>j. length (f j)) [0..<i]) + k < length (concat (map f [0..<n]))"
    proof -
      show ?thesis using Suc.prems by (subst upt_split [OF True]) (simp add: length_concat comp_def)
    qed
    then show ?thesis using Suc True by (simp add: nth_append)
  next
    case False
    then have "i = n" using Suc.prems by simp
    then show ?thesis using Suc.prems by (simp add: nth_append length_concat comp_def)
  qed
qed simp

lemma nth_filter_take:
  "b < length xs \<Longrightarrow> P (xs ! b) \<Longrightarrow> filter P xs ! length (filter P (take b xs)) = xs ! b"
proof (induction xs arbitrary: b)
  case (Cons x xs)
  then show ?case by (cases b) auto
qed simp

lemma length_filter_take_less:
  "b < length xs \<Longrightarrow> P (xs ! b) \<Longrightarrow> length (filter P (take b xs)) < length (filter P xs)"
proof (induction xs arbitrary: b)
  case (Cons x xs)
  then show ?case by (cases b) auto
qed simp

lemma weave_nth:
  assumes "b < length blocks" "i < length (blocks ! b)" "length (blocks ! b) \<le> n"
  shows "(weave blocks n @ rest) ! weave_pos (map length blocks) b i = blocks ! b ! i
    \<and> weave_pos (map length blocks) b i < length (weave blocks n)"
proof -
  let ?f = "\<lambda>i. map (\<lambda>b. b ! i) (filter (\<lambda>b. i < length b) blocks)"
  let ?k = "length (filter (\<lambda>b. i < length b) (take b blocks))"
  have k: "?k < length (?f i)" using assms by (simp add: length_filter_take_less)
  have e: "?f i ! ?k = blocks ! b ! i" using assms k by (simp add: nth_filter_take)
  have p: "weave_pos (map length blocks) b i = sum_list (map (\<lambda>j. length (?f j)) [0..<i]) + ?k"
    by (simp add: weave_pos_def take_map filter_map comp_def)
  have "weave_pos (map length blocks) b i < length (weave blocks n)"
  proof -
    have "i < n" using assms by simp
    from upt_split [OF this] show ?thesis unfolding weave_def p using k by (simp add: length_concat comp_def)
  qed
  moreover have "weave blocks n ! weave_pos (map length blocks) b i = blocks ! b ! i"
    unfolding weave_def p using nth_concat_map [of i n ?k ?f] assms k e by simp
  ultimately show ?thesis by (simp add: nth_append)
qed

lemma unweave_weave:
  assumes "\<forall>b \<in> set blocks. length b \<le> n" "sizes = map length blocks"
  shows "unweave sizes (weave blocks n @ rest) = blocks"
  using assms by (auto simp: unweave_def intro!: nth_equalityI weave_nth [THEN conjunct1])

lemma length_weave:
  "\<forall>b \<in> set blocks. length b \<le> n \<Longrightarrow> length (weave blocks n) = sum_list (map length blocks)"
proof (induction blocks)
  case (Cons b bs)
  have "length (weave (b # bs) n) = length (filter (\<lambda>i. i < length b) [0..<n]) + length (weave bs n)"
    by (induction n) (auto simp: weave_def)
  moreover have "length (filter (\<lambda>i. i < m) [0..<n]) = min m n" for m
    by (induction n) (auto simp: min_def)
  ultimately show ?case using Cons by simp
qed (simp add: weave_def)

lemma split_blocks_props:
  "sum_list ss \<le> length data \<Longrightarrow> map length (split_blocks ss data) = ss"
  "sum_list ss = length data \<Longrightarrow> concat (split_blocks ss data) = data"
  by (induction ss data rule: split_blocks.induct) auto

definition total_codewords :: "nat \<Rightarrow> nat" where
  "total_codewords v = data_total v + length (block_sizes v) * fst (ec_of v)"

definition deinterleave :: "nat \<Rightarrow> int list \<Rightarrow> int list list \<times> int list list" where
  "deinterleave v xs =
     (unweave (block_sizes v) xs,
      unweave (replicate (length (block_sizes v)) (fst (ec_of v))) (drop (data_total v) xs))"

lemma block_facts:
  assumes "version_ok v"
  shows "sum_list (block_sizes v) = data_total v" "0 < fst (ec_of v)" "fst (ec_of v) \<le> 512"
    "block_sizes v \<noteq> []"
proof -
  have "list_all (\<lambda>v. sum_list (block_sizes v) = data_total v \<and> 0 < fst (ec_of v) \<and> fst (ec_of v) \<le> 512
      \<and> block_sizes v \<noteq> []) [1..<11]" by code_simp
  with version_cases [OF assms]
  show "sum_list (block_sizes v) = data_total v" "0 < fst (ec_of v)" "fst (ec_of v) \<le> 512"
    "block_sizes v \<noteq> []" unfolding list_all_iff by blast+
qed

lemma columns_weave:
  "\<forall>e \<in> set eccs. length e = n \<Longrightarrow> concat (map (\<lambda>i. map (\<lambda>e. e ! i) eccs) [0..<n]) = weave eccs n"
  by (auto simp: weave_def filter_id_conv intro!: arg_cong [where f = concat])

lemma interleave_read:
  assumes "version_ok v" "length data = data_total v" "list_all is_byte data"
  defines "bs \<equiv> split_blocks (block_sizes v) data"
  shows "deinterleave v (interleave data v) = (bs, map (\<lambda>b. rs_ecc b (fst (ec_of v))) bs)"
    "length (interleave data v) = total_codewords v" "list_all is_byte (interleave data v)"
    "map length bs = block_sizes v" "concat bs = data"
proof -
  let ?ec = "fst (ec_of v)" and ?N = "Max (set (map length bs))"
  let ?es = "map (\<lambda>b. rs_ecc b ?ec) bs"
  note f = block_facts [OF assms(1)]
  show len: "map length bs = block_sizes v" and cat: "concat bs = data"
    using split_blocks_props [of "block_sizes v" data] f(1) assms(2) by (simp_all add: bs_def)
  have byt: "list_all is_byte b" if "b \<in> set bs" for b
    using that assms(3) cat by (auto simp: list_all_iff)
  have es: "\<forall>e \<in> set ?es. length e = ?ec" "\<forall>e \<in> set ?es. list_all is_byte e"
    using byt rs_codeword f by auto
  have N: "\<forall>b \<in> set bs. length b \<le> ?N" by simp
  have il: "interleave data v = weave bs ?N @ weave ?es ?ec"
    using columns_weave [OF es(1)] by (simp add: interleave_def Let_def bs_def comp_def)
  have lw: "length (weave bs ?N) = data_total v" using length_weave [OF N] len f(1) by simp
  have el: "map length ?es = replicate (length (block_sizes v)) ?ec"
    using es(1) arg_cong [OF len, of length] by (auto simp: list_eq_iff_nth_eq)
  have "unweave (replicate (length (block_sizes v)) ?ec) (weave ?es ?ec @ []) = ?es"
    using es(1) el by (intro unweave_weave) auto
  moreover have "unweave (block_sizes v) (weave bs ?N @ weave ?es ?ec) = bs"
    using N len by (intro unweave_weave) auto
  ultimately show "deinterleave v (interleave data v) = (bs, ?es)"
    using lw by (simp add: deinterleave_def il)
  have "length (weave ?es ?ec) = sum_list (map length ?es)" using es(1) by (intro length_weave) auto
  then show "length (interleave data v) = total_codewords v"
    unfolding il el using lw by (simp add: total_codewords_def sum_list_replicate)
  have wb: "list_all is_byte (weave xs n)" if "\<forall>b \<in> set xs. list_all is_byte b" for xs n
    using that by (auto simp: weave_def list_all_iff)
  show "list_all is_byte (interleave data v)" unfolding il using wb [of bs] wb [of ?es] byt es(2) by simp
qed

text \<open>Read column by column as the standard lays them out, the interleaved codewords give
  back the data blocks in order, and every block with its own correction bytes is a codeword of
  the Reed-Solomon code: it vanishes at every root of the generator.\<close>

theorem interleave_codewords:
  assumes "version_ok v" "length data = data_total v" "list_all is_byte data"
  shows "let (bs, es) = deinterleave v (interleave data v); ec = fst (ec_of v) in
     concat bs = data \<and> map length bs = block_sizes v \<and> length es = length bs
     \<and> (\<forall>(b, e) \<in> set (zip bs es). length e = ec
          \<and> (\<forall>i<ec. peval (XOR) gf_mul 0 (gf_exp ! i) (rev (b @ e)) = 0))"
proof -
  let ?ec = "fst (ec_of v)"
  note r = interleave_read [OF assms] and f = block_facts [OF assms(1)]
  have "length e = ?ec \<and> (\<forall>i<?ec. peval (XOR) gf_mul 0 (gf_exp ! i) (rev (b @ e)) = 0)"
    if "b \<in> set (split_blocks (block_sizes v) data)" "e = rs_ecc b ?ec" for b e
  proof -
    have "set b \<subseteq> set (concat (split_blocks (block_sizes v) data))" using that(1) by auto
    then have "list_all is_byte b" unfolding r(5) using assms(3) by (auto simp: list_all_iff)
    from rs_codeword [OF this f(2,3)] show ?thesis using that(2) by blast
  qed
  then show ?thesis unfolding r(1) Let_def using r(4,5) by (auto simp: zip_map2 zip_same_conv_map)
qed

theorem interleave_codewords_witness:
  "concat (fst (deinterleave 1 (interleave (data_codewords [104, 105] 1) 1))) = data_codewords [104, 105] 1"
proof -
  have v: "version_ok 1" by code_simp
  have l: "length (data_codewords [104, 105] 1) = data_total 1" by code_simp
  have b: "list_all is_byte (data_codewords [104, 105] 1)" by code_simp
  from interleave_codewords [OF v l b] show ?thesis by (simp add: case_prod_beta Let_def)
qed

section \<open>Grids\<close>

definition grid_ok :: "nat \<Rightarrow> grid \<Rightarrow> bool" where
  "grid_ok n g = (length g = n \<and> (\<forall>row \<in> set g. length row = n))"

lemma grid_ok_blank [simp]: "grid_ok n (blank n)"
  by (simp add: grid_ok_def blank_def)

lemma cell_blank: "r < n \<Longrightarrow> c < n \<Longrightarrow> \<not> cell (blank n) r c"
  by (simp add: cell_def blank_def)

lemma grid_ok_set [simp]: "grid_ok n g \<Longrightarrow> r < n \<Longrightarrow> grid_ok n (set_cell r c v g)"
  by (auto simp: grid_ok_def set_cell_def dest!: set_update_subset_insert [THEN subsetD])

lemma cell_set:
  "grid_ok n g \<Longrightarrow> r < n \<Longrightarrow> c < n \<Longrightarrow>
   cell (set_cell r c v g) r' c' = (if r' = r \<and> c' = c then v else cell g r' c')"
  by (auto simp: grid_ok_def set_cell_def cell_def nth_list_update)

lemma write_cells:
  assumes "grid_ok n g" "\<forall>(r, c, v) \<in> set ws. r < n \<and> c < n"
    "distinct (map (\<lambda>(r, c, v). (r, c)) ws)"
  shows "grid_ok n (write_cells ws g) \<and>
    (\<forall>(r, c, v) \<in> set ws. cell (write_cells ws g) r c = v) \<and>
    (\<forall>r c. (r, c) \<notin> (\<lambda>(r, c, v). (r, c)) ` set ws \<longrightarrow> cell (write_cells ws g) r c = cell g r c)"
  using assms
proof (induction ws arbitrary: g)
  case (Cons w ws)
  obtain r c v where w: "w = (r, c, v)" by (cases w)
  have "grid_ok n (set_cell r c v g)" using Cons.prems w by simp
  note IH = Cons.IH [OF this] 
  have e: "write_cells (w # ws) g = write_cells ws (set_cell r c v g)" by (simp add: write_cells_def w)
  show ?case unfolding e using IH Cons.prems w by (auto simp: cell_set)
qed (simp add: write_cells_def)

section \<open>The order of the data cells\<close>

definition zig_start :: "nat \<Rightarrow> bool" where
  "zig_start col = (if col < 6 then odd col \<or> col = 0 else even col)"

lemma distinct_pairs:
  "distinct xs \<Longrightarrow> a \<noteq> b \<Longrightarrow> distinct (concat (map (\<lambda>row. [(row, a), (row, b)]) xs))"
  by (induction xs) auto

lemma zig_step:
  assumes "zig_start col" "col \<noteq> 0" "k = (if col = 6 then col - 1 else col)"
  shows "zig_start (k - 2)" "1 \<le> k"
    "(c = k \<or> c = k - 1 \<or> c \<le> k - 2 \<and> c \<noteq> 6 \<and> k - 2 \<noteq> 0) = (c \<le> col \<and> c \<noteq> 6)"
proof -
  show "1 \<le> k" using assms by auto
  show "zig_start (k - 2)" using assms by (auto simp: zig_start_def split: if_splits)
  show "(c = k \<or> c = k - 1 \<or> c \<le> k - 2 \<and> c \<noteq> 6 \<and> k - 2 \<noteq> 0) = (c \<le> col \<and> c \<noteq> 6)"
  proof (cases "col < 7")
    case True
    then have "col = 1 \<or> col = 3 \<or> col = 5 \<or> col = 6"
      using assms(1,2) unfolding zig_start_def by (auto split: if_splits) presburger+
    then show ?thesis using assms(3) by auto
  next
    case False
    then have "even col" using assms(1) by (simp add: zig_start_def)
    with False have "8 \<le> col" by presburger
    with False show ?thesis using assms(3) by auto
  qed
qed

lemma zigzag_set:
  "zig_start col \<Longrightarrow>
   set (zigzag n col up) = {(r, c). r < n \<and> c \<le> col \<and> c \<noteq> 6 \<and> col \<noteq> 0} \<and> distinct (zigzag n col up)"
proof (induction n col up rule: zigzag.induct)
  case (1 n col up)
  show ?case
  proof (cases "col = 0")
    case True
    then show ?thesis by (simp add: zigzag.simps)
  next
    case False
    define k where "k = (if col = 6 then col - 1 else col)"
    define rows where "rows = (if up then rev [0..<n] else [0..<n])"
    define here where "here = concat (map (\<lambda>row. [(row, k), (row, k - 1)]) rows)"
    have z: "zigzag n col up = here @ zigzag n (k - 2) (\<not> up)"
      using False by (subst zigzag.simps) (simp add: Let_def here_def rows_def k_def)
    note k = zig_step [OF "1.prems" False k_def]
    have IH: "set (zigzag n (k - 2) (\<not> up)) = {(r, c). r < n \<and> c \<le> k - 2 \<and> c \<noteq> 6 \<and> k - 2 \<noteq> 0}
        \<and> distinct (zigzag n (k - 2) (\<not> up))"
      using "1.IH" [OF False k_def _ k(1)] by blast
    have r: "set rows = {0..<n}" "distinct rows" by (auto simp: rows_def)
    have here: "set here = {(r, c). r < n \<and> (c = k \<or> c = k - 1)}" by (auto simp: here_def r)
    have dh: "distinct here" using distinct_pairs [OF r(2), of k "k - 1"] k(2) by (simp add: here_def)
    have "set here \<inter> set (zigzag n (k - 2) (\<not> up)) = {}" using here IH k(2) by auto
    then have d: "distinct (zigzag n col up)" unfolding z using dh IH by simp
    have "set (zigzag n col up) = {(r, c). r < n \<and> (c = k \<or> c = k - 1 \<or> c \<le> k - 2 \<and> c \<noteq> 6 \<and> k - 2 \<noteq> 0)}"
      unfolding z set_append here using IH by auto
    also have "\<dots> = {(r, c). r < n \<and> c \<le> col \<and> c \<noteq> 6 \<and> col \<noteq> 0}"
      using k(3) False by auto
    finally show ?thesis using d by blast
  qed
qed

section \<open>Reserved cells\<close>

text \<open>A canvas of side \<open>n\<close>, and its reserved cells as a set: every painting step adds its cell.\<close>

definition canvas_ok :: "nat \<Rightarrow> canvas \<Rightarrow> bool" where
  "canvas_ok n cv = (grid_ok n (fst cv) \<and> grid_ok n (snd cv))"

definition reserved :: "canvas \<Rightarrow> (nat \<times> nat) set" where
  "reserved cv = {(r, c). r < length (snd cv) \<and> c < length (snd cv) \<and> cell (snd cv) r c}"

definition inside :: "nat \<Rightarrow> (nat \<times> nat) set" where
  "inside n = {0..<n} \<times> {0..<n}"

definition pos :: "nat \<times> nat \<times> bool \<Rightarrow> nat \<times> nat" where
  "pos p = (fst p, fst (snd p))"

lemma paint_canvas:
  assumes "canvas_ok n cv" "pos p \<in> inside n"
  shows "canvas_ok n (paint p cv) \<and> reserved (paint p cv) = insert (pos p) (reserved cv)"
proof -
  obtain r c v where p: "p = (r, c, v)" by (cases p)
  obtain m s where cv: "cv = (m, s)" by (cases cv)
  have rc: "r < n" "c < n" using assms(2) by (simp_all add: p pos_def inside_def)
  show ?thesis using assms(1) rc
    by (auto simp: p cv paint_def Let_def canvas_ok_def reserved_def pos_def cell_set) (auto simp: grid_ok_def set_cell_def)
qed

lemma paint_free_canvas:
  assumes "canvas_ok n cv" "pos p \<in> inside n"
  shows "canvas_ok n (paint_free p cv) \<and> reserved (paint_free p cv) = insert (pos p) (reserved cv)"
proof -
  obtain r c v where p: "p = (r, c, v)" by (cases p)
  have "(r, c) \<in> reserved cv" if "cell (snd cv) r c"
    using that assms by (simp add: reserved_def p pos_def inside_def canvas_ok_def grid_ok_def)
  then show ?thesis using paint_canvas [OF assms] assms(1)
    by (auto simp: paint_free_def p Let_def pos_def)
qed

lemma reserve_canvas:
  assumes "canvas_ok n cv" "p \<in> inside n"
  shows "canvas_ok n (reserve p cv) \<and> reserved (reserve p cv) = insert p (reserved cv)"
proof -
  obtain r c where p: "p = (r, c)" by (cases p)
  obtain m s where cv: "cv = (m, s)" by (cases cv)
  have rc: "r < n" "c < n" using assms(2) by (simp_all add: p inside_def)
  show ?thesis using assms(1) rc
    by (auto simp: p cv reserve_def Let_def canvas_ok_def reserved_def cell_set) (auto simp: grid_ok_def set_cell_def)
qed

lemma fold_canvas:
  assumes step: "\<And>p cv. canvas_ok n cv \<Longrightarrow> f p \<in> inside n \<Longrightarrow>
      canvas_ok n (op p cv) \<and> reserved (op p cv) = insert (f p) (reserved cv)"
    and "canvas_ok n cv" "f ` set ps \<subseteq> inside n"
  shows "canvas_ok n (fold op ps cv) \<and> reserved (fold op ps cv) = f ` set ps \<union> reserved cv"
  using assms(2,3)
proof (induction ps arbitrary: cv)
  case (Cons p ps)
  then show ?case using step [of cv p] by simp
qed simp

lemmas fold_paint = fold_canvas [where op = paint and f = pos, OF paint_canvas]
lemmas fold_paint_free = fold_canvas [where op = paint_free and f = pos, OF paint_free_canvas]
lemmas fold_reserve = fold_canvas [where op = reserve and f = "\<lambda>p. p", OF reserve_canvas]

text \<open>The cells each pattern covers.\<close>

definition finder_area :: "nat \<Rightarrow> int \<times> int \<Rightarrow> (nat \<times> nat) set" where
  "finder_area n corner = {(r, c). r < n \<and> c < n \<and> fst corner - 1 \<le> int r \<and> int r < fst corner + 8
      \<and> snd corner - 1 \<le> int c \<and> int c < snd corner + 8}"

lemma set_box: "set (box lo hi) = {lo..<hi} \<times> {lo..<hi}"
  by (auto simp: box_def)

lemma map_filter_set: "set (List.map_filter f xs) = {y. \<exists>x \<in> set xs. f x = Some y}"
  by (induction xs) (auto simp: List.map_filter_simps split: option.splits)

lemma placed_pos:
  "pos ` set (placed n tp left fn (box lo hi)) =
   {(r, c). r < n \<and> c < n \<and> tp + lo \<le> int r \<and> int r < tp + hi \<and> left + lo \<le> int c \<and> int c < left + hi}"
  (is "_ = ?S")
proof
  show "pos ` set (placed n tp left fn (box lo hi)) \<subseteq> ?S"
    by (auto simp: placed_def map_filter_set set_box pos_def Let_def split: if_splits)
  show "?S \<subseteq> pos ` set (placed n tp left fn (box lo hi))"
  proof clarify
    fix r c assume a: "r < n" "c < n" "tp + lo \<le> int r" "int r < tp + hi" "left + lo \<le> int c" "int c < left + hi"
    have "(r, c, fn (int r - tp) (int c - left)) \<in> set (placed n tp left fn (box lo hi))"
      unfolding placed_def map_filter_set set_box
      using a by (intro CollectI bexI [of _ "(int r - tp, int c - left)"]) (auto simp: Let_def)
    then show "(r, c) \<in> pos ` set (placed n tp left fn (box lo hi))"
      by (intro image_eqI [of _ _ "(r, c, fn (int r - tp) (int c - left))"]) (simp add: pos_def)
  qed
qed

lemma finder_canvas:
  assumes "canvas_ok n cv"
  shows "canvas_ok n (finder n corner cv) \<and> reserved (finder n corner cv) = finder_area n corner \<union> reserved cv"
proof -
  obtain tp left where k: "corner = (tp, left)" by (cases corner)
  let ?a = "placed n tp left finder_dark (box 0 7)" and ?b = "placed n tp left (\<lambda>r c. False) (box (- 1) 8)"
  have a: "canvas_ok n (fold paint ?a cv) \<and> reserved (fold paint ?a cv) = pos ` set ?a \<union> reserved cv"
    by (rule fold_paint) (auto simp: assms placed_pos inside_def)
  have b: "canvas_ok n (fold paint_free ?b (fold paint ?a cv)) \<and>
      reserved (fold paint_free ?b (fold paint ?a cv)) = pos ` set ?b \<union> reserved (fold paint ?a cv)"
    by (rule fold_paint_free) (auto simp: a placed_pos inside_def)
  have "pos ` set ?b \<union> (pos ` set ?a \<union> reserved cv) = finder_area n corner \<union> reserved cv"
    by (auto simp: placed_pos finder_area_def k)
  then show ?thesis using a b by (simp add: finder_def k)
qed

definition area :: "nat \<Rightarrow> (nat \<times> nat) set" where
  "area v =
     (let n = qr_size v
      in finder_area n (0, 0) \<union> finder_area n (0, int n - 7) \<union> finder_area n (int n - 7, 0)
         \<union> pos ` set (timing_cells n) \<union> pos ` set (alignment n (dget align_centres v []))
         \<union> {(n - 8, 8)} \<union> set (format_area n) \<union> set (version_area n v))"

lemma align_ok:
  assumes "version_ok v" "k \<in> set (dget align_centres v [])"
  shows "6 \<le> k" "k + 7 \<le> qr_size v"
proof -
  have "list_all (\<lambda>v. list_all (\<lambda>k. 6 \<le> k \<and> k + 7 \<le> qr_size v) (dget align_centres v [])) [1..<11]" by code_simp
  then show "6 \<le> k" "k + 7 \<le> qr_size v" using version_cases [OF assms(1)] assms(2) unfolding list_all_iff by blast+
qed

lemma concat2_cases:
  "p \<in> set (concat (map (\<lambda>a. concat (map (f a) ys)) xs)) \<Longrightarrow> \<exists>a \<in> set xs. \<exists>b \<in> set ys. p \<in> set (f a b)"
  by auto

lemma alignment_pos:
  assumes "version_ok v" "(r, c) \<in> pos ` set (alignment n ks)" "ks = dget align_centres v []" "n = qr_size v"
  shows "\<exists>row \<in> set ks. \<exists>col \<in> set ks. (row, col) \<notin> {(6, 6), (6, n - 7), (n - 7, 6)}
     \<and> row - 2 \<le> r \<and> r < row + 3 \<and> col - 2 \<le> c \<and> c < col + 3 \<and> r < n \<and> c < n"
proof -
  obtain p where p: "(r, c) = pos p" "p \<in> set (alignment n ks)" using assms(2) by blast
  have "\<exists>row \<in> set ks. \<exists>col \<in> set ks. p \<in> set (if (row, col) \<in> {(6, 6), (6, n - 7), (n - 7, 6)} then []
       else map (\<lambda>(r, c). (nat (int row + r), nat (int col + c), max \<bar>r\<bar> \<bar>c\<bar> \<noteq> 1)) (box (- 2) 3))"
    using p(2) unfolding alignment_def by (rule concat2_cases)
  then obtain row col where k': "row \<in> set ks" "col \<in> set ks"
      and q: "p \<in> set (if (row, col) \<in> {(6, 6), (6, n - 7), (n - 7, 6)} then []
       else map (\<lambda>(r, c). (nat (int row + r), nat (int col + c), max \<bar>r\<bar> \<bar>c\<bar> \<noteq> 1)) (box (- 2) 3))"
    by blast
  have e: "(row, col) \<notin> {(6, 6), (6, n - 7), (n - 7, 6)}"
  proof
    assume "(row, col) \<in> {(6, 6), (6, n - 7), (n - 7, 6)}"
    with q show False by (simp only: if_True list.set empty_iff)
  qed
  note k = k' e
  have m: "p \<in> (\<lambda>(r, c). (nat (int row + r), nat (int col + c), max \<bar>r\<bar> \<bar>c\<bar> \<noteq> 1)) ` set (box (- 2) 3)"
    using q unfolding if_not_P [OF e] set_map .
  obtain dr dc where d: "r = nat (int row + dr)" "c = nat (int col + dc)" "- 2 \<le> dr" "dr < 3" "- 2 \<le> dc" "dc < 3"
    using p(1) m by (auto simp: set_box pos_def)
  have b: "row + 7 \<le> n" "col + 7 \<le> n" "6 \<le> row" "6 \<le> col"
    using align_ok [OF assms(1), folded assms(3,4)] k(1,2) by simp_all
  have "row - 2 \<le> r \<and> r < row + 3 \<and> col - 2 \<le> c \<and> c < col + 3 \<and> r < n \<and> c < n"
    unfolding d(1,2) using b d(3-) by (intro conjI) linarith+
  with k show ?thesis by blast
qed

lemma area_inside:
  assumes "version_ok v"
  shows "area v \<subseteq> inside (qr_size v)"
proof -
  have n: "21 \<le> qr_size v" using assms by (simp add: version_ok_def qr_size_def)
  have "pos ` set (alignment (qr_size v) (dget align_centres v [])) \<subseteq> inside (qr_size v)"
  proof
    fix p assume "p \<in> pos ` set (alignment (qr_size v) (dget align_centres v []))"
    then show "p \<in> inside (qr_size v)"
      using alignment_pos [OF assms _ refl refl, of "fst p" "snd p"] by (cases p) (auto simp: inside_def)
  qed
  then show ?thesis using n
    by (auto simp: area_def Let_def inside_def finder_area_def timing_cells_def pos_def format_area_def
        version_area_def)
qed

lemma function_patterns_canvas:
  assumes "version_ok v"
  shows "canvas_ok (qr_size v) (function_patterns v (blank (qr_size v), blank (qr_size v))) \<and>
    reserved (function_patterns v (blank (qr_size v), blank (qr_size v))) = area v"
proof -
  let ?n = "qr_size v" and ?ks = "dget align_centres v []"
  let ?c0 = "(blank ?n, blank ?n)"
  have len: "length (fst ?c0) = ?n" by (simp add: blank_def)
  note ins = area_inside [OF assms, unfolded area_def Let_def]
  have c0: "canvas_ok ?n ?c0" "reserved ?c0 = {}"
    by (auto simp: canvas_ok_def reserved_def cell_blank) (simp add: blank_def cell_def)
  define c1 where "c1 = fold (finder ?n) [(0, 0), (0, int ?n - 7), (int ?n - 7, 0)] ?c0"
  define c2 where "c2 = fold paint_free (timing_cells ?n) c1"
  define c3 where "c3 = fold paint (alignment ?n ?ks) c2"
  define c4 where "c4 = paint (?n - 8, 8, True) c3"
  define c5 where "c5 = fold reserve (format_area ?n @ version_area ?n v) c4"
  have c1: "canvas_ok ?n c1 \<and> reserved c1 = finder_area ?n (0, 0) \<union> finder_area ?n (0, int ?n - 7)
      \<union> finder_area ?n (int ?n - 7, 0)"
    unfolding c1_def using c0 by (auto simp: finder_canvas)
  have c2: "canvas_ok ?n c2 \<and> reserved c2 = pos ` set (timing_cells ?n) \<union> reserved c1"
    unfolding c2_def using c1 ins by (intro fold_paint_free) auto
  have c3: "canvas_ok ?n c3 \<and> reserved c3 = pos ` set (alignment ?n ?ks) \<union> reserved c2"
    unfolding c3_def using c2 ins by (intro fold_paint) auto
  have c4: "canvas_ok ?n c4 \<and> reserved c4 = insert (?n - 8, 8) (reserved c3)"
    unfolding c4_def using paint_canvas [of ?n c3 "(?n - 8, 8, True)"] c3 ins by (simp add: pos_def)
  have c5: "canvas_ok ?n c5 \<and> reserved c5 = (\<lambda>p. p) ` set (format_area ?n @ version_area ?n v) \<union> reserved c4"
    unfolding c5_def using c4 ins by (intro fold_reserve) auto
  have "function_patterns v ?c0 = c5"
    by (simp only: function_patterns_def Let_def len c1_def c2_def c3_def c4_def c5_def)
  then show ?thesis using c1 c2 c3 c4 c5 by (auto simp: area_def Let_def)
qed

section \<open>How many cells are left\<close>

text \<open>
  Rectangles (rows and columns) that cover every reserved cell off the timing row and column. The
  sum of their sizes bounds the reserved cells, so the free cells can be counted by arithmetic.
\<close>

definition off6 :: "nat \<Rightarrow> nat \<Rightarrow> nat list" where
  "off6 a b = filter (\<lambda>i. i \<noteq> 6) [a..<b]"

definition rects :: "nat \<Rightarrow> (nat list \<times> nat list) list" where
  "rects v =
     (let n = qr_size v; ks = dget align_centres v []
      in [(off6 0 9, off6 0 9), (off6 0 9, off6 (n - 8) n), (off6 (n - 8) n, off6 0 9)]
         @ concat (map (\<lambda>row. concat (map (\<lambda>col.
             if (row, col) \<in> {(6, 6), (6, n - 7), (n - 7, 6)} then []
             else [(off6 (row - 2) (row + 3), off6 (col - 2) (col + 3))]) ks)) ks)
         @ (if 7 \<le> v then [(off6 (n - 11) (n - 8), off6 0 6), (off6 0 6, off6 (n - 11) (n - 8))] else []))"

lemma mem_off6: "i \<in> set (off6 a b) \<longleftrightarrow> a \<le> i \<and> i < b \<and> i \<noteq> 6"
  by (auto simp: off6_def)

lemma free_count:
  assumes "version_ok v"
  shows "8 * total_codewords v + sum_list (map (\<lambda>(rs, cs). length rs * length cs) (rects v)) + (qr_size v - 1)
    \<le> qr_size v * (qr_size v - 1)"
proof -
  have "list_all (\<lambda>v. 8 * total_codewords v + sum_list (map (\<lambda>(rs, cs). length rs * length cs) (rects v)) + (qr_size v - 1)
    \<le> qr_size v * (qr_size v - 1)) [1..<11]" by code_simp
  then show ?thesis using version_cases [OF assms] unfolding list_all_iff by blast
qed

lemma card_rects:
  "card (\<Union>(rs, cs) \<in> set rl. set rs \<times> set cs) \<le> sum_list (map (\<lambda>(rs, cs). length rs * length cs) rl)"
proof (induction rl)
  case (Cons x rl)
  obtain rs cs where x: "x = (rs, cs)" by (cases x)
  let ?A = "set rs \<times> set cs" and ?B = "\<Union>(rs, cs) \<in> set rl. set rs \<times> set cs"
  have "card (?A \<union> ?B) \<le> card ?A + card ?B" by (rule card_Un_le)
  moreover have "card ?A \<le> length rs * length cs" by (simp add: card_cartesian_product mult_le_mono card_length)
  ultimately show ?case using Cons by (simp add: x)
qed simp

lemma area_rects:
  assumes "version_ok v" "(r, c) \<in> area v" "r \<noteq> 6" "c \<noteq> 6"
  shows "(r, c) \<in> (\<Union>(rs, cs) \<in> set (rects v). set rs \<times> set cs)"
proof -
  let ?n = "qr_size v" and ?ks = "dget align_centres v []"
  have n: "21 \<le> ?n" using assms(1) by (simp add: version_ok_def qr_size_def)
  have inr: "(r, c) \<in> (\<Union>(rs, cs) \<in> set (rects v). set rs \<times> set cs)"
    if "(rs, cs) \<in> set (rects v)" "r \<in> set rs" "c \<in> set cs" for rs cs
    using that by auto
  have corner: "(r, c) \<in> (\<Union>(rs, cs) \<in> set (rects v). set rs \<times> set cs)"
    if "(r < 9 \<and> c < 9) \<or> (r < 9 \<and> ?n - 8 \<le> c \<and> c < ?n) \<or> (?n - 8 \<le> r \<and> r < ?n \<and> c < 9)"
  proof -
    from that consider "r < 9 \<and> c < 9" | "r < 9 \<and> ?n - 8 \<le> c \<and> c < ?n" | "?n - 8 \<le> r \<and> r < ?n \<and> c < 9" by blast
    then show ?thesis
    proof cases
      case 1 then show ?thesis using assms by (intro inr [of "off6 0 9" "off6 0 9"]) (auto simp: rects_def Let_def mem_off6)
    next
      case 2 then show ?thesis using assms by (intro inr [of "off6 0 9" "off6 (?n - 8) ?n"]) (auto simp: rects_def Let_def mem_off6)
    next
      case 3 then show ?thesis using assms by (intro inr [of "off6 (?n - 8) ?n" "off6 0 9"]) (auto simp: rects_def Let_def mem_off6)
    qed
  qed
  consider "(r, c) \<in> finder_area ?n (0, 0) \<union> finder_area ?n (0, int ?n - 7) \<union> finder_area ?n (int ?n - 7, 0)"
    | "(r, c) \<in> pos ` set (timing_cells ?n)" | "(r, c) \<in> pos ` set (alignment ?n ?ks)"
    | "(r, c) = (?n - 8, 8)" | "(r, c) \<in> set (format_area ?n)" | "(r, c) \<in> set (version_area ?n v)"
    using assms(2) unfolding area_def Let_def by blast
  then show ?thesis
  proof cases
    case 1
    then show ?thesis using n by (intro corner) (auto simp: finder_area_def)
  next
    case 2
    then show ?thesis using assms(3,4) by (auto simp: timing_cells_def pos_def)
  next
    case 3
    from alignment_pos [OF assms(1) this refl refl] obtain row col where
      k: "row \<in> set ?ks" "col \<in> set ?ks" "(row, col) \<notin> {(6, 6), (6, ?n - 7), (?n - 7, 6)}"
      and b: "row - 2 \<le> r \<and> r < row + 3 \<and> col - 2 \<le> c \<and> c < col + 3" by blast
    have "(off6 (row - 2) (row + 3), off6 (col - 2) (col + 3)) \<in> set (concat (map (\<lambda>row. concat (map (\<lambda>col.
        if (row, col) \<in> {(6, 6), (6, ?n - 7), (?n - 7, 6)} then []
        else [(off6 (row - 2) (row + 3), off6 (col - 2) (col + 3))]) ?ks)) ?ks))"
      unfolding set_concat set_map using k(1,2)
      by (intro UN_I [of "set (concat (map (\<lambda>col.
        if (row, col) \<in> {(6, 6), (6, ?n - 7), (?n - 7, 6)} then []
        else [(off6 (row - 2) (row + 3), off6 (col - 2) (col + 3))]) ?ks))"] UnionI)
        (use k in \<open>auto intro!: bexI [of _ row] bexI [of _ col]\<close>)
    then have "(off6 (row - 2) (row + 3), off6 (col - 2) (col + 3)) \<in> set (rects v)"
      unfolding rects_def Let_def set_append by blast
    then show ?thesis
    proof (rule inr)
      show "r \<in> set (off6 (row - 2) (row + 3))" "c \<in> set (off6 (col - 2) (col + 3))"
        unfolding mem_off6 using b assms(3,4) by blast+
    qed
  next
    case 4
    then show ?thesis using n by (intro corner) auto
  next
    case 5
    then show ?thesis using n by (intro corner) (auto simp: format_area_def)
  next
    case 6
    then obtain i where v: "7 \<le> v" and i: "i < 18"
      "(r, c) = (?n - 11 + i mod 3, i div 3) \<or> (r, c) = (i div 3, ?n - 11 + i mod 3)"
      by (auto simp: version_area_def split: if_splits)
    have q: "i div 3 < 6" "?n - 11 + i mod 3 < ?n - 8" "?n - 11 \<le> ?n - 11 + i mod 3" using i(1) n by auto
    from i(2) show ?thesis
    proof
      assume "(r, c) = (?n - 11 + i mod 3, i div 3)"
      then show ?thesis using q v assms(3,4)
        by (intro inr [of "off6 (?n - 11) (?n - 8)" "off6 0 6"]) (auto simp: rects_def Let_def mem_off6)
    next
      assume "(r, c) = (i div 3, ?n - 11 + i mod 3)"
      then show ?thesis using q v assms(3,4)
        by (intro inr [of "off6 0 6" "off6 (?n - 11) (?n - 8)"]) (auto simp: rects_def Let_def mem_off6)
    qed
  qed
qed

definition data_cells :: "nat \<Rightarrow> grid \<Rightarrow> (nat \<times> nat) list" where
  "data_cells n res = filter (\<lambda>(r, c). \<not> cell res r c) (zigzag n (n - 1) True)"

lemma zig_start_size: "version_ok v \<Longrightarrow> zig_start (qr_size v - 1)"
  by (simp add: version_ok_def zig_start_def qr_size_def)

lemma data_cells_set:
  assumes "version_ok v" "canvas_ok (qr_size v) (m, res)" "reserved (m, res) = area v"
  shows "set (data_cells (qr_size v) res) = {(r, c). r < qr_size v \<and> c < qr_size v \<and> c \<noteq> 6} - area v"
    "distinct (data_cells (qr_size v) res)"
proof -
  let ?n = "qr_size v"
  have n: "21 \<le> ?n" using assms(1) by (simp add: version_ok_def qr_size_def)
  note z = zigzag_set [OF zig_start_size [OF assms(1)], of ?n True]
  have res: "cell res r c = ((r, c) \<in> area v)" if "r < ?n" "c < ?n" for r c
    using that assms(2,3) by (auto simp: reserved_def canvas_ok_def grid_ok_def)
  have cells: "(r, c) \<in> set (zigzag ?n (?n - 1) True) \<longleftrightarrow> r < ?n \<and> c < ?n \<and> c \<noteq> 6" for r c
  proof -
    have "c \<le> ?n - 1 \<longleftrightarrow> c < ?n" "?n - 1 \<noteq> 0" using n by linarith+
    then show ?thesis using z by blast
  qed
  have "(r, c) \<in> set (data_cells ?n res) \<longleftrightarrow> (r < ?n \<and> c < ?n \<and> c \<noteq> 6) \<and> (r, c) \<notin> area v" for r c
    unfolding data_cells_def set_filter mem_Collect_eq prod.case cells using res [of r c] by blast
  then show "set (data_cells ?n res) = {(r, c). r < ?n \<and> c < ?n \<and> c \<noteq> 6} - area v"
    by (auto simp only: set_eq_iff split_paired_All Diff_iff mem_Collect_eq prod.case)
  show "distinct (data_cells ?n res)" using z by (simp add: data_cells_def)
qed

lemma data_cells_room:
  assumes "version_ok v" "canvas_ok (qr_size v) (m, res)" "reserved (m, res) = area v"
  shows "8 * total_codewords v \<le> length (data_cells (qr_size v) res)"
proof -
  let ?n = "qr_size v" and ?R = "\<Union>(rs, cs) \<in> set (rects v). set rs \<times> set cs"
  let ?all = "{0..<?n} \<times> ({0..<?n} - {6})" and ?row = "{6 :: nat} \<times> ({0..<?n} - {6})"
  have n: "21 \<le> ?n" using assms(1) by (simp add: version_ok_def qr_size_def)
  have fin: "finite ?R" by auto
  have "?all - (?row \<union> ?R) \<subseteq> set (data_cells ?n res)"
  proof
    fix p assume p: "p \<in> ?all - (?row \<union> ?R)"
    obtain r c where rc: "p = (r, c)" by (cases p)
    have b: "r < ?n" "c < ?n" "c \<noteq> 6" "r \<noteq> 6" using p unfolding rc by (simp, simp, simp, simp, blast)
    have "(r, c) \<notin> ?R" using p unfolding rc by blast
    then have "(r, c) \<notin> area v" using area_rects [OF assms(1) _ b(4,3)] by blast
    then show "p \<in> set (data_cells ?n res)" unfolding data_cells_set(1) [OF assms] rc using b by blast
  qed
  then have "card (?all - (?row \<union> ?R)) \<le> card (set (data_cells ?n res))" by (rule card_mono [rotated]) simp
  then have "card (?all - (?row \<union> ?R)) \<le> length (data_cells ?n res)" using card_length le_trans by blast
  moreover have "card ?all - card (?row \<union> ?R) \<le> card (?all - (?row \<union> ?R))"
    by (rule diff_card_le_card_Diff) (intro finite_UnI fin, simp)
  moreover have "card (?row \<union> ?R) \<le> card ?row + card ?R" by (rule card_Un_le)
  moreover have "card ?all = ?n * (?n - 1)" "card ?row = ?n - 1" using n by (simp_all add: card_cartesian_product)
  moreover note card_rects [of "rects v"] free_count [OF assms(1)]
  ultimately show ?thesis by linarith
qed

section \<open>Writing and reading a symbol\<close>

lemma place_fold:
  assumes "grid_ok n g" "distinct ps" "set ps \<subseteq> inside n"
  shows "let (idx', g') = fold (place_step res bits mk) ps (idx, g); free = filter (\<lambda>(r, c). \<not> cell res r c) ps in
     grid_ok n g' \<and> (\<forall>r c. (r, c) \<notin> set free \<longrightarrow> cell g' r c = cell g r c)
     \<and> map (\<lambda>(r, c). cell g' r c \<noteq> mask_at mk r c) free
        = map (\<lambda>k. idx + k < length bits \<and> bits ! (idx + k) \<noteq> 0) [0..<length free]"
  using assms
proof (induction ps arbitrary: idx g)
  case Nil
  then show ?case by simp
next
  case (Cons p ps)
  obtain r c where p: "p = (r, c)" by (cases p)
  have rc: "r < n" "c < n" using Cons.prems(3) by (auto simp: p inside_def)
  show ?case
  proof (cases "cell res r c")
    case True
    then have "fold (place_step res bits mk) (p # ps) (idx, g) = fold (place_step res bits mk) ps (idx, g)"
      by (simp add: place_step_def p)
    then show ?thesis using Cons.IH [OF Cons.prems(1), of idx] Cons.prems True by (simp add: p)
  next
    case False
    define b where "b = (idx < length bits \<and> bits ! idx \<noteq> 0)"
    define g2 where "g2 = set_cell r c (b \<noteq> mask_at mk r c) g"
    let ?free = "filter (\<lambda>(r, c). \<not> cell res r c) ps"
    obtain idx' g' where f: "fold (place_step res bits mk) ps (idx + 1, g2) = (idx', g')" by fastforce
    have "place_step res bits mk p (idx, g) = (idx + 1, g2)"
      using False by (simp add: place_step_def p g2_def b_def)
    then have st: "fold (place_step res bits mk) (p # ps) (idx, g) = (idx', g')"
      using f by (simp only: fold_simps)
    have ok2: "grid_ok n g2" using Cons.prems(1) rc by (simp add: g2_def)
    have prems: "distinct ps" "set ps \<subseteq> inside n" using Cons.prems(2,3) by simp_all
    note IH = Cons.IH [OF ok2 prems, of "idx + 1", unfolded f Let_def prod.case]
    have c2: "cell g2 r' c' = (if r' = r \<and> c' = c then b \<noteq> mask_at mk r c else cell g r' c')" for r' c'
      unfolding g2_def by (rule cell_set [OF Cons.prems(1) rc])
    have fresh: "(r, c) \<notin> set ?free" using Cons.prems(2) by (auto simp: p)
    have here: "cell g' r c = (b \<noteq> mask_at mk r c)" using IH fresh c2 by simp
    have free: "filter (\<lambda>(r, c). \<not> cell res r c) (p # ps) = p # ?free" using False by (simp add: p)
    have e1: "map (\<lambda>k. idx + k < length bits \<and> bits ! (idx + k) \<noteq> 0) [0..<length (p # ?free)] =
        b # map (\<lambda>k. idx + 1 + k < length bits \<and> bits ! (idx + 1 + k) \<noteq> 0) [0..<length ?free]"
      by (simp only: length_Cons upt_conv_Cons [OF zero_less_Suc] map_Suc_upt [symmetric] list.map map_map comp_def
          b_def) simp
    have e2: "map (\<lambda>(r, c). cell g' r c \<noteq> mask_at mk r c) (p # ?free) =
        b # map (\<lambda>k. idx + 1 + k < length bits \<and> bits ! (idx + 1 + k) \<noteq> 0) [0..<length ?free]"
      using IH here by (simp add: p) blast
    have e3: "\<forall>r' c'. (r', c') \<notin> set (p # ?free) \<longrightarrow> cell g' r' c' = cell g r' c'"
      using IH c2 by (auto simp: p)
    show ?thesis unfolding st Let_def prod.case free
      by (intro conjI, rule conjunct1 [OF IH], rule e3, simp only: e1 e2)
  qed
qed

lemma place_data:
  assumes "version_ok v" "canvas_ok (qr_size v) (m, res)" "reserved (m, res) = area v" "grid_ok (qr_size v) g"
    "8 * length data \<le> length (data_cells (qr_size v) res)"
  shows "grid_ok (qr_size v) (place_data res data mk g)"
    "(r, c) \<in> area v \<Longrightarrow> cell (place_data res data mk g) r c = cell g r c"
    "take (8 * length data) (map (\<lambda>(r, c). of_bool (cell (place_data res data mk g) r c \<noteq> mask_at mk r c))
        (data_cells (qr_size v) res)) = data_bits data"
proof -
  let ?n = "qr_size v" and ?bits = "data_bits data" and ?cells = "data_cells (qr_size v) res"
  have n: "21 \<le> ?n" using assms(1) by (simp add: version_ok_def qr_size_def)
  note z = zigzag_set [OF zig_start_size [OF assms(1)], of ?n True]
  have lt: "c \<le> ?n - 1 \<Longrightarrow> c < ?n" for c using n by linarith
  have ins: "set (zigzag ?n (?n - 1) True) \<subseteq> inside ?n"
    unfolding conjunct1 [OF z] inside_def using lt by auto
  obtain idx g' where f: "fold (place_step res ?bits mk) (zigzag ?n (?n - 1) True) (0, g) = (idx, g')" by fastforce
  have g': "place_data res data mk g = g'"
    using assms(4) f by (simp add: place_data_def Let_def grid_ok_def)
  note p = place_fold [OF assms(4) conjunct2 [OF z] ins, of res ?bits mk 0, unfolded f Let_def prod.case,
      folded data_cells_def]
  show "grid_ok ?n (place_data res data mk g)" using p g' by simp
  show "cell (place_data res data mk g) r c = cell g r c" if "(r, c) \<in> area v"
    using that p g' data_cells_set(1) [OF assms(1-3)] by auto
  have "map (\<lambda>(r, c). of_bool (cell g' r c \<noteq> mask_at mk r c) :: int) ?cells =
      map of_bool (map (\<lambda>k. 0 + k < length ?bits \<and> ?bits ! (0 + k) \<noteq> 0) [0..<length ?cells])"
    by (simp only: p [THEN conjunct2, THEN conjunct2, symmetric] map_map comp_def) (simp add: case_prod_beta)
  moreover have "take (8 * length data) (map of_bool (map (\<lambda>k. 0 + k < length ?bits \<and> ?bits ! (0 + k) \<noteq> 0)
      [0..<length ?cells])) = ?bits"
  proof (rule nth_equalityI)
    have "is_bits ?bits" by (simp add: data_bits_eq is_bits_concat list_all_iff)
    then have "?bits ! i = 0 \<or> ?bits ! i = 1" if "i < 8 * length data" for i
      using that by (auto simp: is_bits_def list_all_length)
    then show "take (8 * length data) (map of_bool (map (\<lambda>k. 0 + k < length ?bits \<and> ?bits ! (0 + k) \<noteq> 0)
      [0..<length ?cells])) ! i = ?bits ! i" if "i < length (take (8 * length data) (map of_bool
      (map (\<lambda>k. 0 + k < length ?bits \<and> ?bits ! (0 + k) \<noteq> 0) [0..<length ?cells])))" for i
      using that assms(5) by fastforce
  qed (use assms(5) in simp)
  ultimately show "take (8 * length data) (map (\<lambda>(r, c). of_bool (cell (place_data res data mk g) r c
      \<noteq> mask_at mk r c)) ?cells) = ?bits" unfolding g' by simp
qed

lemma format_copies:
  assumes "version_ok v"
  shows "\<forall>(r, c, i) \<in> set (format_copy1 @ format_copy2 (qr_size v)). (r, c) \<in> area v"
    "distinct (map (\<lambda>(r, c, i). (r, c)) (format_copy1 @ format_copy2 (qr_size v)))"
proof -
  let ?n = "qr_size v"
  have n: "21 \<le> ?n" using assms by (simp add: version_ok_def qr_size_def)
  have low: "(8, i) \<in> area v \<and> (i, 8) \<in> area v" if "i < 9" for i
    using that by (auto simp: area_def Let_def format_area_def)
  have high: "(8, j) \<in> area v \<and> (j, 8) \<in> area v" if "?n - 8 \<le> j" "j < ?n" for j
  proof -
    have "j = ?n - 1 - (?n - 1 - j)" "?n - 1 - j < 8" using that by linarith+
    then have "(8, j) \<in> set (format_area ?n) \<and> (j, 8) \<in> set (format_area ?n)"
      unfolding format_area_def by fastforce
    then show ?thesis unfolding area_def Let_def by blast
  qed
  have "(r, c) \<in> area v" if "(r, c, i) \<in> set format_copy1" for r c i
  proof -
    have "r = 8 \<and> c < 9 \<or> c = 8 \<and> r < 9" using that by (auto simp: format_copy1_def)
    then show ?thesis using low by blast
  qed
  moreover have "(r, c) \<in> area v" if "(r, c, i) \<in> set (format_copy2 ?n)" for r c i
  proof -
    have "r = 8 \<and> ?n - 8 \<le> c \<and> c < ?n \<or> c = 8 \<and> ?n - 8 \<le> r \<and> r < ?n"
      using that n by (auto simp: format_copy2_def)
    then show ?thesis using high by blast
  qed
  ultimately show "\<forall>(r, c, i) \<in> set (format_copy1 @ format_copy2 ?n). (r, c) \<in> area v" by auto
  have "list_all (\<lambda>v. distinct (map (\<lambda>(r, c, i). (r, c)) (format_copy1 @ format_copy2 (qr_size v)))) [1..<11]"
    by code_simp
  then show "distinct (map (\<lambda>(r, c, i). (r, c)) (format_copy1 @ format_copy2 ?n))"
    using version_cases [OF assms] unfolding list_all_iff by blast
qed

lemma write_format:
  assumes "version_ok v" "grid_ok (qr_size v) g"
  shows "grid_ok (qr_size v) (write_format mk g)"
    "\<forall>(r, c, i) \<in> set (format_copy1 @ format_copy2 (qr_size v)). cell (write_format mk g) r c = py_bit (format_bits mk) i"
    "(r, c) \<notin> area v \<Longrightarrow> cell (write_format mk g) r c = cell g r c"
proof -
  let ?n = "qr_size v" and ?fc = "format_copy1 @ format_copy2 (qr_size v)"
  let ?ws = "map (\<lambda>(r, c, i). (r, c, py_bit (format_bits mk) i)) ?fc"
  have w: "write_format mk g = write_cells ?ws g"
    using assms(2) by (simp add: write_format_def Let_def grid_ok_def)
  note fc = format_copies [OF assms(1)]
  have ins: "\<forall>(r, c, b) \<in> set ?ws. r < ?n \<and> c < ?n"
    using fc(1) area_inside [OF assms(1)] by (fastforce simp: inside_def)
  have "map (\<lambda>(r, c, v). (r, c)) ?ws = map (\<lambda>(r, c, i). (r, c)) ?fc" by (simp add: case_prod_beta)
  then have d: "distinct (map (\<lambda>(r, c, v). (r, c)) ?ws)" using fc(2) by (simp only:)
  note wc = write_cells [OF assms(2) ins d]
  show "grid_ok ?n (write_format mk g)" unfolding w using wc by blast
  show "\<forall>(r, c, i) \<in> set ?fc. cell (write_format mk g) r c = py_bit (format_bits mk) i"
    unfolding w using wc [THEN conjunct2, THEN conjunct1] unfolding set_map by (simp add: case_prod_beta)
  show "cell (write_format mk g) r c = cell g r c" if "(r, c) \<notin> area v"
  proof -
    have "(r, c) \<notin> (\<lambda>(r, c, v). (r, c)) ` set ?ws" using that fc(1) by fastforce
    then show ?thesis unfolding w using wc by blast
  qed
qed

section \<open>The whole symbol\<close>

definition read_mask :: "grid \<Rightarrow> nat option" where
  "read_mask g = find (\<lambda>m. list_all (\<lambda>(r, c, i). cell g r c = py_bit (format_bits m) i)
     (format_copy1 @ format_copy2 (length g))) [0..<8]"

definition read_codewords :: "nat \<Rightarrow> nat \<Rightarrow> grid \<Rightarrow> int list" where
  "read_codewords v m g =
     (let res = snd (function_patterns v (blank (length g), blank (length g)))
      in map bits_value (chunks8 (take (8 * total_codewords v)
           (map (\<lambda>(r, c). of_bool (cell g r c \<noteq> mask_at m r c)) (data_cells (length g) res)))))"

text \<open>The standard's reader: the version from the size, the mask from both copies of the format.\<close>

definition qr_decode :: "grid \<Rightarrow> int list option" where
  "qr_decode g =
     (let v = (length g - 17) div 4
      in if g = [] then None
         else case read_mask g of None \<Rightarrow> None
              | Some m \<Rightarrow> qr_read v (concat (fst (deinterleave v (read_codewords v m g)))))"

lemma write_cells_grid:
  "grid_ok n g \<Longrightarrow> \<forall>(r, c, v) \<in> set ws. r < n \<Longrightarrow> grid_ok n (write_cells ws g)"
  by (induction ws arbitrary: g) (auto simp: write_cells_def)

lemma write_version_grid:
  assumes "version_ok v" "grid_ok (qr_size v) g"
  shows "grid_ok (qr_size v) (write_version v g)"
proof -
  have n: "21 \<le> qr_size v" using assms(1) by (simp add: version_ok_def qr_size_def)
  have l: "length g = qr_size v" using assms(2) by (simp add: grid_ok_def)
  show ?thesis
    unfolding write_version_def Let_def l using assms(2) n
    by (auto intro!: write_cells_grid)
qed

lemma symbol_parts:
  fixes mk :: nat
  assumes "version_ok v" "length data = total_codewords v"
  defines "g \<equiv> symbol data v mk"
  shows "grid_ok (qr_size v) g"
    "\<forall>(r, c, i) \<in> set (format_copy1 @ format_copy2 (qr_size v)). cell g r c = py_bit (format_bits mk) i"
    "list_all is_byte data \<Longrightarrow> read_codewords v mk g = data"
proof -
  let ?n = "qr_size v"
  obtain m res where fp: "function_patterns v (blank ?n, blank ?n) = (m, res)" by fastforce
  have cv: "canvas_ok ?n (m, res)" "reserved (m, res) = area v"
    using function_patterns_canvas [OF assms(1)] fp by simp_all
  then have gm: "grid_ok ?n m" by (simp add: canvas_ok_def)
  note gv = write_version_grid [OF assms(1) gm]
  have room: "8 * length data \<le> length (data_cells ?n res)" using data_cells_room [OF assms(1) cv] assms(2) by simp
  note pd = place_data [OF assms(1) cv gv room, where mk = mk]
  note wf = write_format [OF assms(1) pd(1), where mk = mk]
  have g: "g = write_format mk (place_data res data mk (write_version v m))"
    by (simp add: g_def symbol_def fp)
  show ok: "grid_ok ?n g" unfolding g by (rule wf(1))
  show "\<forall>(r, c, i) \<in> set (format_copy1 @ format_copy2 ?n). cell g r c = py_bit (format_bits mk) i"
    unfolding g by (rule wf(2))
  assume byt: "list_all is_byte data"
  have len: "length g = ?n" using ok by (simp add: grid_ok_def)
  have same: "cell g r c = cell (place_data res data mk (write_version v m)) r c"
    if "(r, c) \<in> set (data_cells ?n res)" for r c
    using that data_cells_set(1) [OF assms(1) cv] unfolding g by (intro wf(3)) blast
  have "map (\<lambda>(r, c). of_bool (cell g r c \<noteq> mask_at mk r c) :: int) (data_cells ?n res) =
      map (\<lambda>(r, c). of_bool (cell (place_data res data mk (write_version v m)) r c \<noteq> mask_at mk r c)) (data_cells ?n res)"
    using same by (intro map_cong) auto
  then have "take (8 * total_codewords v) (map (\<lambda>(r, c). of_bool (cell g r c \<noteq> mask_at mk r c)) (data_cells ?n res))
      = data_bits data"
    using pd(3) assms(2) by (simp only:)
  then show "read_codewords v mk g = data"
    using bytes_back [OF byt] by (simp add: read_codewords_def len fp)
qed

lemma format_distinct: "distinct (map (\<lambda>m. map (py_bit (format_bits m)) [0..<15]) [0..<8])"
  by code_simp

lemma read_mask_symbol:
  assumes "version_ok v" "length data = total_codewords v" "mk < 8"
  shows "read_mask (symbol data v mk) = Some mk"
proof -
  let ?g = "symbol data v mk" and ?fc = "format_copy1 @ format_copy2 (qr_size v)"
  let ?P = "\<lambda>m. list_all (\<lambda>(r, c, i). cell ?g r c = py_bit (format_bits m) i) ?fc"
  note sp = symbol_parts [OF assms(1,2), of mk]
  have idx: "\<exists>r c. (r, c, i) \<in> set ?fc" if "i < 15" for i
  proof -
    have "map (\<lambda>(r, c, i). i) format_copy1 = [0..<15]" by code_simp
    then have "i \<in> set (map (\<lambda>(r, c, i). i) format_copy1)" using that by simp
    then show ?thesis by fastforce
  qed
  have P: "?P mk" using sp(2) by (simp only: list_all_iff)
  have uniq: "m = mk" if "?P m" "m < 8" for m
  proof -
    have "py_bit (format_bits m) i = py_bit (format_bits mk) i" if i: "i < 15" for i
    proof -
      obtain r c where "(r, c, i) \<in> set ?fc" using idx [OF i] by blast
      then show ?thesis using \<open>?P m\<close> P unfolding list_all_iff by fastforce
    qed
    then have "map (py_bit (format_bits m)) [0..<15] = map (py_bit (format_bits mk)) [0..<15]"
      by (intro map_cong refl) simp
    then have "map (\<lambda>m. map (py_bit (format_bits m)) [0..<15]) [0..<8] ! m =
        map (\<lambda>m. map (py_bit (format_bits m)) [0..<15]) [0..<8] ! mk"
      using that(2) assms(3) by (simp only: nth_map length_upt nth_upt) simp
    then show ?thesis using format_distinct that(2) assms(3)
      by (subst (asm) nth_eq_iff_index_eq) simp_all
  qed
  have "length ?g = qr_size v" using sp(1) by (simp add: grid_ok_def)
  then have rm: "read_mask ?g = find ?P [0..<8]" by (simp only: read_mask_def)
  have "find ?P [0..<8] \<noteq> None"
  proof
    assume "find ?P [0..<8] = None"
    then have "\<not> (\<exists>m \<in> set [0..<8]. ?P m)" by (simp add: find_None_iff)
    then show False using P assms(3) by (auto simp del: list_all_append)
  qed
  then obtain m where m: "find ?P [0..<8] = Some m" by blast
  then have "?P m \<and> m < 8"
    by (metis (no_types, lifting) atLeastLessThan_iff find_Some_iff nth_mem set_upt)
  then show ?thesis using uniq m rm by simp
qed

lemma pick_best_fold:
  "foldl pick_best b gs = (case b of None \<Rightarrow> if gs = [] then None else foldl pick_best (Some (hd gs)) (tl gs)
     | Some g \<Rightarrow> foldl pick_best (Some g) gs)"
  by (cases b; cases gs) (auto simp: pick_best_def)

lemma pick_best_some:
  "\<exists>h \<in> set (g # gs). foldl pick_best (Some g) gs = Some h \<and> (\<forall>k \<in> set (g # gs). penalty h \<le> penalty k)"
proof (induction gs arbitrary: g)
  case (Cons x gs)
  let ?g = "if penalty x < penalty g then x else g"
  have "foldl pick_best (Some g) (x # gs) = foldl pick_best (Some ?g) gs" by (simp add: pick_best_def)
  moreover obtain h where "h \<in> set (?g # gs)" "foldl pick_best (Some ?g) gs = Some h"
      "\<forall>k \<in> set (?g # gs). penalty h \<le> penalty k" using Cons [of ?g] by blast
  ultimately show ?case by (intro bexI [of _ h]) (auto split: if_splits)
qed simp

lemma best_version:
  "(case best_version n of 0 \<Rightarrow> 271 < n | Suc _ \<Rightarrow> n \<le> 271 \<and> version_ok (best_version n) \<and> n \<le> capacity (best_version n))"
proof -
  have "max_version = 10" by code_simp
  then have m: "max_version + 1 = 11" by simp
  have bv: "best_version n = (case find (\<lambda>v. n \<le> capacity v) [1..<11] of Some v \<Rightarrow> v | None \<Rightarrow> 0)"
    unfolding best_version_def m ..
  show ?thesis
  proof (cases "find (\<lambda>v. n \<le> capacity v) [1..<11]")
    case None
    have "capacity 10 = 271" by code_simp
    moreover have "10 \<in> set [1..<11 :: nat]" by simp
    then have "\<not> n \<le> capacity 10" using None unfolding find_None_iff by blast
    ultimately show ?thesis using bv unfolding None by simp
  next
    case (Some v)
    then have b: "best_version n = v" using bv by simp
    have v: "n \<le> capacity v" "v \<in> set [1..<11]"
      using Some unfolding find_Some_iff by (blast, metis nth_mem)
    have "list_all (\<lambda>v. capacity v \<le> 271) [1..<11]" by code_simp
    then have "capacity v \<le> 271" using v(2) unfolding list_all_iff by blast
    then show ?thesis using v b by (auto simp: version_ok_def split: nat.split)
  qed
qed

lemma qr_symbol_pick:
  assumes "length payload \<le> 271"
  defines "v \<equiv> best_version (length payload)"
  defines "data \<equiv> interleave (data_codewords payload v) v"
  shows "version_ok v \<and> length payload \<le> capacity v \<and>
    (\<exists>mk<8. qr_symbol payload = symbol data v mk \<and> (\<forall>m<8. penalty (symbol data v mk) \<le> penalty (symbol data v m)))"
proof -
  have v: "version_ok v" "length payload \<le> capacity v" "v \<noteq> 0"
    using best_version [of "length payload"] assms(1) unfolding v_def by (auto split: nat.splits)
  let ?gs = "map (symbol data v) [0..<8]"
  have "foldl (\<lambda>best m. pick_best best (symbol data v m)) None [0..<8] = foldl pick_best None ?gs"
    by (simp only: foldl_map)
  also have "\<dots> = foldl pick_best (Some (hd ?gs)) (tl ?gs)"
    by (subst pick_best_fold) simp
  finally have fold: "foldl (\<lambda>best m. pick_best best (symbol data v m)) None [0..<8] = \<dots>" .
  have "?gs \<noteq> []" by simp
  then have gs: "hd ?gs # tl ?gs = ?gs" by (rule list.collapse)
  obtain h where h: "h \<in> set ?gs" "foldl pick_best (Some (hd ?gs)) (tl ?gs) = Some h"
      "\<forall>k \<in> set ?gs. penalty h \<le> penalty k"
    using pick_best_some [of "hd ?gs" "tl ?gs"] unfolding gs by blast
  have "qr_symbol payload = h"
    using v(3) fold h(2) by (simp only: qr_symbol_def Let_def v_def [symmetric] data_def [symmetric] if_False option.case)
  moreover obtain mk where "mk < 8" "h = symbol data v mk" using h(1) by (auto simp del: upt_rec_numeral)
  ultimately show ?thesis using v h(3) by (auto simp del: upt_rec_numeral)
qed

lemma symbol_decode:
  assumes "list_all is_byte payload"
  shows "qr_decode (qr_symbol payload) = (if length payload \<le> 271 then Some payload else None)"
proof (cases "length payload \<le> 271")
  case False
  then have "best_version (length payload) = 0" using best_version [of "length payload"] by (auto split: nat.splits)
  then show ?thesis using False by (simp add: qr_symbol_def qr_decode_def)
next
  case True
  define v where "v = best_version (length payload)"
  define dc where "dc = data_codewords payload v"
  obtain mk where v: "version_ok v" "length payload \<le> capacity v"
      and mk: "mk < 8" "qr_symbol payload = symbol (interleave dc v) v mk"
    using qr_symbol_pick [OF True] unfolding v_def dc_def by blast
  note cw = data_codewords_bits [OF v, folded dc_def]
  have dl: "length dc = data_total v" and db: "list_all is_byte dc" using cw by blast+
  note il = interleave_read [OF v(1) dl db]
  note sp = symbol_parts [OF v(1) il(2), of mk]
  have len: "length (symbol (interleave dc v) v mk) = qr_size v" using sp(1) by (simp add: grid_ok_def)
  have vs: "(qr_size v - 17) div 4 = v" by (simp add: qr_size_def)
  have ne: "symbol (interleave dc v) v mk \<noteq> []" using len by (auto simp: qr_size_def)
  have "qr_decode (qr_symbol payload) = qr_read v (concat (fst (deinterleave v (interleave dc v))))"
    unfolding mk(2) qr_decode_def Let_def len vs read_mask_symbol [OF v(1) il(2) mk(1)]
    using ne sp(3) [OF il(3)] by (simp only: if_False option.case)
  also have "\<dots> = Some payload"
    using il(1,5) codewords_read [OF v assms] by (simp add: dc_def)
  finally show ?thesis using True by simp
qed

lemma utf8_bytes: "list_all is_byte (utf8 s)"
proof -
  have "is_byte (192 OR drop_bit 6 n) \<and> is_byte (128 OR (n AND 63))" if n: "0 \<le> n" "n < 256" for n :: int
  proof -
    have "drop_bit 6 n < 256" using n by (simp add: drop_bit_eq_div)
    moreover have "(n AND 63) < 256" using AND_upper2 [of n 63] n by simp
    ultimately show ?thesis using n OR_upper [of 192 8 "drop_bit 6 n"] OR_upper [of 128 8 "n AND 63"]
      by (simp add: is_byte_def)
  qed
  moreover have "0 \<le> (of_char c :: int) \<and> (of_char c :: int) < 256" for c
  proof -
    have "(of_char c :: int) mod 256 = of_char c" by (rule of_char_mod_256)
    then show ?thesis by presburger
  qed
  ultimately show ?thesis by (auto simp: utf8_def list_all_iff is_byte_def Let_def)
qed


text \<open>The symbol drawn is the one that reads best: in the smallest version that holds
  the payload, no mask gives a symbol with a smaller penalty than the mask chosen.\<close>

theorem qr_least_penalty:
  assumes "length payload \<le> 271" "m < 8"
  shows "let v = best_version (length payload); data = interleave (data_codewords payload v) v in
     length payload \<le> capacity v \<and> (\<forall>u. 1 \<le> u \<and> u < v \<longrightarrow> capacity u < length payload)
     \<and> penalty (qr_symbol payload) \<le> penalty (symbol data v m)"
proof -
  let ?n = "length payload"
  have "max_version = 10" by code_simp
  then have mx: "max_version + 1 = 11" by simp
  have less: "capacity u < ?n" if u: "1 \<le> u" "u < best_version ?n" for u
  proof -
    obtain v where f: "find (\<lambda>v. ?n \<le> capacity v) [1..<11] = Some v" and b: "best_version ?n = v"
      using u unfolding best_version_def mx by (auto split: option.splits simp del: upt_rec_numeral)
    then obtain i where i: "i < 10" "v = [1..<11] ! i" "\<forall>j<i. \<not> ?n \<le> capacity ([1..<11] ! j)"
      unfolding find_Some_iff by (auto simp del: upt_rec_numeral)
    have v: "v = i + 1" using i(1,2) by (simp add: nth_upt del: upt_rec_numeral)
    then have "u - 1 < i" "[1..<11] ! (u - 1) = u" using u b i(1) by (simp_all add: nth_upt del: upt_rec_numeral)
    then show ?thesis using i(3) by fastforce
  qed
  show ?thesis using qr_symbol_pick [OF assms(1)] assms(2) less unfolding Let_def by fastforce
qed

theorem qr_least_penalty_witness:
  "penalty (qr_symbol [104, 105])
     \<le> penalty (symbol (interleave (data_codewords [104, 105] 1) 1) 1 3)"
proof -
  have v: "best_version (length [104, 105 :: int]) = 1" by code_simp
  show ?thesis using qr_least_penalty [of "[104, 105]" 3, unfolded Let_def v] by simp
qed

section \<open>Format and version information\<close>

definition popcount :: "nat \<Rightarrow> int \<Rightarrow> nat" where
  "popcount n x = length (filter (py_bit x) [0..<n])"

text \<open>The format and version words are code words of their BCH codes: a word keeps the
  value it protects in its top bits, leaves no remainder, and two words of level L differ in at
  least five bits (eight for versions), so two (three) damaged modules never change the reading.\<close>

theorem format_words:
  "list_all (\<lambda>m. let w = format_bits m XOR format_mask in
       drop_bit 10 w = 8 + int m \<and> bch_remainder (drop_bit 10 w) format_poly 5 = w AND 1023) [0..<8]
   \<and> list_all (\<lambda>v. drop_bit 12 (version_bits v) = int v) [7..<11]
   \<and> list_all (\<lambda>m. list_all (\<lambda>k. 5 \<le> popcount 15 (format_bits m XOR format_bits k)) [0..<m]) [0..<8]
   \<and> list_all (\<lambda>v. list_all (\<lambda>u. 8 \<le> popcount 18 (version_bits v XOR version_bits u)) [7..<v]) [7..<11]"
  by code_simp

section \<open>The SVG element\<close>

lemma shift_upt: "map ((+) n) [0..<m] = [n..<n + m]"
  by (induction m) simp_all

lemma dark_runs_from:
  "concat (map (\<lambda>(c, n). [c..<c + n]) (dark_runs k row)) = map (\<lambda>i. k + i) (filter (\<lambda>i. row ! i) [0..<length row])"
proof (induction k row rule: dark_runs.induct)
  case (2 c vs)
  have "filter (\<lambda>i. (False # vs) ! i) [0..<length (False # vs)] = map Suc (filter (\<lambda>i. vs ! i) [0..<length vs])"
    by (simp only: length_Cons upt_conv_Cons [OF zero_less_Suc] map_Suc_upt [symmetric] filter.simps filter_map) (simp add: comp_def)
  with 2 show ?case by (simp add: comp_def)
next
  case (3 c vs)
  let ?n = "length (takeWhile (\<lambda>v. v) (True # vs))" and ?rest = "dropWhile (\<lambda>v. v) vs"
  have split: "True # vs = replicate ?n True @ ?rest"
  proof -
    have "takeWhile (\<lambda>v. v) (True # vs) = replicate ?n True"
      by (metis (mono_tags, lifting) replicate_length_same set_takeWhileD)
    then show ?thesis by (metis (full_types) dropWhile.simps(2) takeWhile_dropWhile_id)
  qed
  have "filter (\<lambda>i. (replicate n True @ xs) ! i) [0..<length (replicate n True @ xs)] =
      [0..<n] @ map ((+) n) (filter (\<lambda>i. xs ! i) [0..<length xs])" for n xs
  proof -
    have "[0..<n + length xs] = [0..<n] @ map ((+) n) [0..<length xs]"
      by (simp add: upt_add_eq_append [of 0 n "length xs"] shift_upt)
    then show ?thesis by (simp add: filter_map comp_def nth_append filter_id_conv)
  qed
  from this [of ?n ?rest] have f: "filter (\<lambda>i. (True # vs) ! i) [0..<length (True # vs)] =
      [0..<?n] @ map ((+) ?n) (filter (\<lambda>i. ?rest ! i) [0..<length ?rest])"
    unfolding split [symmetric] .
  show ?case unfolding f using 3 by (simp add: comp_def add.assoc Let_def shift_upt del: takeWhile.simps)
qed simp

text \<open>The path of the SVG element covers the symbol exactly: the runs of a row are its dark
  modules, left to right, each once.\<close>

theorem svg_runs_exact:
  "concat (map (\<lambda>(c, n). [c..<c + n]) (dark_runs 0 row)) = filter (\<lambda>i. row ! i) [0..<length row]"
  by (simp add: dark_runs_from)

lemma capacity_of_the_largest: "capacity max_version = 271"
  by code_simp

end
