(* ===== verification/Config_Tree.thy ===== *)
theory Config_Tree
  imports Py_Text "HOL-Library.Sublist"
begin

text \<open>
  \<^verbatim>\<open>lib/config/config_control.py\<close>: the tree of settings every part of the program reads and the
  monitor keeps its working state in. A value is a JSON value; a dictionary keeps insertion
  order. The file behind the tree (\<^verbatim>\<open>ConfigStore\<close>) is not modelled.
\<close>

section \<open>Values\<close>

datatype cval =
    CNone
  | CBool bool
  | CInt int
  | CFloat rat
  | CStr string
  | CList "cval list"
  | CTuple "cval list"
  | CDict "(string \<times> cval) list"

datatype cfg_error = TypeErr | IndexErr | ValueErr

text \<open>The forms \<^verbatim>\<open>find_key\<close> may have; \<open>KOther b\<close> is any other type, with its truth value.\<close>

datatype find_key = KStr string | KList "string list" | KTuple "string list" | KOther bool

datatype r_type = RStr | RInt | RBool | RList | RDict | RTuple

record config =
  cfg_data :: cval
  cfg_dirty :: bool

definition key_truthy :: "find_key \<Rightarrow> bool" where
  "key_truthy k = (case k of KStr s \<Rightarrow> s \<noteq> [] | KList l \<Rightarrow> l \<noteq> [] | KTuple l \<Rightarrow> l \<noteq> [] | KOther b \<Rightarrow> b)"

fun truthy :: "cval \<Rightarrow> bool" where
  "truthy CNone = False"
| "truthy (CBool b) = b"
| "truthy (CInt n) = (n \<noteq> 0)"
| "truthy (CFloat x) = (x \<noteq> 0)"
| "truthy (CStr s) = (s \<noteq> [])"
| "truthy (CList l) = (l \<noteq> [])"
| "truthy (CTuple l) = (l \<noteq> [])"
| "truthy (CDict d) = (d \<noteq> [])"

section \<open>Keys\<close>

text \<open>\<^verbatim>\<open>s.split()\<close>: the words between runs of white space; \<^verbatim>\<open>s.split(sep)\<close>.\<close>

function py_words :: "string \<Rightarrow> string list" where
  "py_words s =
     (let t = dropWhile is_space s
      in if t = [] then [] else takeWhile (\<lambda>c. \<not> is_space c) t # py_words (dropWhile (\<lambda>c. \<not> is_space c) t))"
  by pat_completeness auto
termination
proof (relation "measure length")
  fix s t assume t: "t = dropWhile is_space s" "t \<noteq> []"
  then have "\<not> is_space (hd t)" using hd_dropWhile by blast
  then have "dropWhile (\<lambda>c. \<not> is_space c) t = dropWhile (\<lambda>c. \<not> is_space c) (tl t)" using t(2) by (cases t) auto
  then have "length (dropWhile (\<lambda>c. \<not> is_space c) t) \<le> length (tl t)" by (simp only: length_dropWhile_le)
  also have "\<dots> < length t" using t(2) by simp
  also have "length t \<le> length s" unfolding t(1) by (rule length_dropWhile_le)
  finally show "(dropWhile (\<lambda>c. \<not> is_space c) t, s) \<in> measure length" by simp
qed simp

declare py_words.simps [simp del]

function py_split_on :: "string \<Rightarrow> string \<Rightarrow> string list" where
  "py_split_on sep [] = [[]]"
| "py_split_on sep (x # xs) =
     (if starts_with sep (x # xs) then [] # py_split_on sep (drop (length sep - 1) xs)
      else (case py_split_on sep xs of [] \<Rightarrow> [[x]] | w # ws \<Rightarrow> (x # w) # ws))"
  by pat_completeness auto
termination
  by (relation "measure (\<lambda>(sep, s). length s)") auto

definition convert_find_key_to_list :: "find_key \<Rightarrow> string option \<Rightarrow> cfg_error + string list" where
  "convert_find_key_to_list k sep =
     (case k of
        KStr s \<Rightarrow> (case sep of None \<Rightarrow> Inr (py_words s)
                   | Some p \<Rightarrow> if p = [] then Inl ValueErr else Inr (py_split_on p s))
      | KList l \<Rightarrow> Inr l
      | KTuple l \<Rightarrow> Inr l
      | KOther b \<Rightarrow> Inl TypeErr)"

section \<open>Reading\<close>

text \<open>The loop of \<^verbatim>\<open>get_conf\<close>: a key that is not there is skipped, the search goes on with the next.\<close>

fun get_loop :: "cval \<Rightarrow> string list \<Rightarrow> cval" where
  "get_loop w [] = CNone"
| "get_loop w (t # ks) =
     (case w of
        CDict d \<Rightarrow> (case map_of d t of
                      Some v \<Rightarrow> if ks = [] then v else get_loop v ks
                    | None \<Rightarrow> get_loop w ks)
      | _ \<Rightarrow> get_loop w ks)"

definition empty_of :: "r_type \<Rightarrow> cval" where
  "empty_of r = (case r of RList \<Rightarrow> CList [] | RDict \<Rightarrow> CDict [] | RTuple \<Rightarrow> CTuple [] | RInt \<Rightarrow> CInt 0
     | RBool \<Rightarrow> CBool False | RStr \<Rightarrow> CStr [])"

definition get_conf :: "cval \<Rightarrow> find_key \<Rightarrow> cval \<Rightarrow> string option \<Rightarrow> r_type \<Rightarrow> cfg_error + cval" where
  "get_conf data k def_val sep r =
     (let out = (if truthy data
                 then case convert_find_key_to_list k sep of Inl e \<Rightarrow> Inl e | Inr ks \<Rightarrow> Inr (get_loop data ks)
                 else Inr CNone)
      in case out of
           Inl e \<Rightarrow> Inl e
         | Inr v \<Rightarrow> if v \<noteq> CNone then Inr v
                    else if def_val = CNone then Inr (empty_of r) else Inr def_val)"

fun exist_loop :: "cval \<Rightarrow> string list \<Rightarrow> bool" where
  "exist_loop w [] = False"
| "exist_loop w (t # ks) =
     (case w of
        CDict d \<Rightarrow> (case map_of d t of Some v \<Rightarrow> if ks = [] then True else exist_loop v ks | None \<Rightarrow> False)
      | _ \<Rightarrow> False)"

definition is_exist_conf :: "cval \<Rightarrow> find_key \<Rightarrow> string option \<Rightarrow> cfg_error + bool" where
  "is_exist_conf data k sep =
     (if key_truthy k \<and> truthy data
      then case convert_find_key_to_list k sep of Inl e \<Rightarrow> Inl e | Inr ks \<Rightarrow> Inr (exist_loop data ks)
      else Inr False)"

section \<open>Writing\<close>

fun nest :: "string list \<Rightarrow> cval \<Rightarrow> cval" where
  "nest [] v = v"
| "nest (k # ks) v = CDict [(k, nest ks v)]"

definition convert_list_to_dict :: "string list \<Rightarrow> cval \<Rightarrow> cfg_error + cval" where
  "convert_list_to_dict ks v = (if ks = [] then Inl IndexErr else Inr (nest ks v))"

text \<open>\<^verbatim>\<open>_update_value_find_key\<close>: a dictionary is merged into the one that is there, anything else
  replaces what is there.\<close>

function update_value :: "cval \<Rightarrow> (string \<times> cval) list \<Rightarrow> cval" where
  "update_value src [] = src"
| "update_value src ((k, v) # ovs) =
     (case src of
        CDict d \<Rightarrow>
          update_value
            (CDict (AList.update k (case v of CDict vs \<Rightarrow> update_value (dget d k (CDict [])) vs | _ \<Rightarrow> v) d)) ovs
      | _ \<Rightarrow> update_value (CDict [(k, v)]) ovs)"
  by pat_completeness auto
termination
  by (relation "measure (\<lambda>(src, ovs). size_list (size_prod (\<lambda>_. 0) size) ovs)") auto

definition set_in :: "cval \<Rightarrow> find_key \<Rightarrow> cval \<Rightarrow> string option \<Rightarrow> cfg_error + cval" where
  "set_in data k v sep =
     (case convert_find_key_to_list k sep of
        Inl e \<Rightarrow> Inl e
      | Inr ks \<Rightarrow> (case convert_list_to_dict ks v of
                     Inl e \<Rightarrow> Inl e
                   | Inr upd \<Rightarrow> (case upd of CDict ovs \<Rightarrow> Inr (update_value data ovs) | _ \<Rightarrow> Inr data)))"

definition set_conf :: "config \<Rightarrow> find_key \<Rightarrow> cval \<Rightarrow> string option \<Rightarrow> cfg_error + bool \<times> config" where
  "set_conf c k v sep =
     (if key_truthy k
      then case set_in (cfg_data c) k v sep of
             Inl e \<Rightarrow> Inl e
           | Inr d \<Rightarrow> Inr (True, c\<lparr>cfg_data := d, cfg_dirty := True\<rparr>)
      else Inr (False, c))"

section \<open>Paths\<close>

text \<open>The specification: a path leads to a value when every step is a key of a dictionary.\<close>

fun look :: "cval \<Rightarrow> string list \<Rightarrow> cval option" where
  "look w [] = Some w"
| "look w (k # ks) =
     (case w of CDict d \<Rightarrow> (case map_of d k of Some v \<Rightarrow> look v ks | None \<Rightarrow> None) | _ \<Rightarrow> None)"

definition merge :: "cval \<Rightarrow> cval \<Rightarrow> cval" where
  "merge old v = (case v of CDict vs \<Rightarrow> update_value old vs | _ \<Rightarrow> v)"

text \<open>Writing at a path: the value is merged into what is there; what is no dictionary is replaced.\<close>

fun put :: "cval \<Rightarrow> string list \<Rightarrow> cval \<Rightarrow> cval" where
  "put src [] v = merge src v"
| "put src (k # ks) v =
     (case src of
        CDict d \<Rightarrow> CDict (AList.update k (put (dget d k (CDict [])) ks v) d)
      | _ \<Rightarrow> CDict [(k, nest ks v)])"

lemma merge_nest: "merge src (nest ks v) = put src ks v"
proof (induction ks arbitrary: src)
  case (Cons k ks)
  show ?case
  proof (cases src)
    case (CDict d)
    have "update_value (CDict d) [(k, nest ks v)] = CDict (AList.update k (merge (dget d k (CDict [])) (nest ks v)) d)"
      by (cases "nest ks v") (simp_all add: merge_def)
    then show ?thesis using Cons CDict by (simp add: merge_def)
  qed (simp_all add: merge_def)
qed simp

lemma set_in_put: "ks \<noteq> [] \<Longrightarrow> set_in data (KList ks) v sep = Inr (put data ks v)"
  using merge_nest [of data ks v]
  by (cases ks) (simp_all add: set_in_def convert_find_key_to_list_def convert_list_to_dict_def merge_def)

lemma look_get: "look w ks = Some v \<Longrightarrow> ks \<noteq> [] \<Longrightarrow> get_loop w ks = v"
  by (induction w ks rule: look.induct) (auto split: cval.splits option.splits)

lemma look_exist: "ks \<noteq> [] \<Longrightarrow> exist_loop w ks = (look w ks \<noteq> None)"
  by (induction w ks rule: look.induct) (auto split: cval.splits option.splits)

lemma look_nest: "look (nest ks v) ks = Some v"
  by (induction ks) auto

lemma look_nest_other: "\<not> prefix ks q \<Longrightarrow> \<not> prefix q ks \<Longrightarrow> look (nest ks v) q = None"
proof (induction ks arbitrary: q)
  case (Cons k ks)
  then show ?case by (cases q) auto
qed simp

lemma look_put_ex: "\<exists>old. look (put src ks v) ks = Some (merge old v) \<or> look (put src ks v) ks = Some v"
proof (induction ks arbitrary: src)
  case (Cons k ks)
  then show ?case by (cases src) (auto simp: dict_simps look_nest)
qed auto

lemma look_put: "look src ks = Some old \<Longrightarrow> look (put src ks v) ks = Some (merge old v)"
proof (induction ks arbitrary: src)
  case (Cons k ks)
  then show ?case by (cases src) (auto simp: dict_simps dget_def split: option.splits)
qed simp

lemma look_put_scalar:
  assumes "\<And>vs. v \<noteq> CDict vs"
  shows "look (put src ks v) ks = Some v"
proof -
  have "merge old v = v" for old using assms by (cases v) (auto simp: merge_def)
  then show ?thesis using look_put_ex [of src ks v] by auto
qed

lemma look_put_other: "\<not> prefix ks q \<Longrightarrow> \<not> prefix q ks \<Longrightarrow> look (put src ks v) q = look src q"
proof (induction ks arbitrary: src q)
  case (Cons k ks)
  obtain k' q' where q: "q = k' # q'" using Cons.prems by (cases q) auto
  have "look (CDict []) q' = None" if "q' \<noteq> []" using that by (cases q') auto
  moreover have "q' \<noteq> []" if "k = k'" using Cons.prems q that by (cases q') auto
  ultimately show ?case
    using Cons q look_nest_other [of ks q' v]
    by (cases src) (auto simp: dict_simps dget_def split: option.splits)
qed simp

lemma update_value_keeps:
  "map_of d k = Some w \<Longrightarrow> k \<notin> fst ` set ovs \<Longrightarrow>
   \<exists>d'. update_value (CDict d) ovs = CDict d' \<and> map_of d' k = Some w"
proof (induction "CDict d" ovs arbitrary: d rule: update_value.induct)
  case (2 k' v ovs d)
  then show ?case by (auto simp: dict_simps)
qed simp

lemma put_truthy: "ks \<noteq> [] \<Longrightarrow> truthy (put src ks v)"
proof (cases ks)
  case (Cons k ks')
  have "AList.update k x d \<noteq> []" for x :: cval and d by (cases d) auto
  then show ?thesis using Cons by (cases src) auto
qed simp

lemma look_truthy: "look w ks = Some v \<Longrightarrow> ks \<noteq> [] \<Longrightarrow> truthy w"
  by (cases w; cases ks) auto

lemma get_conf_look:
  "look data ks = Some v \<Longrightarrow> ks \<noteq> [] \<Longrightarrow> v \<noteq> CNone \<Longrightarrow> get_conf data (KList ks) def_val sep r = Inr v"
  using look_truthy [of data ks v] look_get [of data ks v]
  by (simp add: get_conf_def convert_find_key_to_list_def)

lemma is_exist_look:
  "ks \<noteq> [] \<Longrightarrow> is_exist_conf data (KList ks) sep = Inr (look data ks \<noteq> None)"
  using look_truthy [of data ks] look_exist [of ks data]
  by (auto simp: is_exist_conf_def key_truthy_def convert_find_key_to_list_def)

lemma set_conf_put:
  "ks \<noteq> [] \<Longrightarrow> set_conf c (KList ks) v sep = Inr (True, c\<lparr>cfg_data := put (cfg_data c) ks v, cfg_dirty := True\<rparr>)"
  by (simp add: set_conf_def key_truthy_def set_in_put)



text \<open>A dictionary is merged, never replaced: writing one at a path leaves every field
  the old one had and the new one does not mention. Writing an empty dictionary is no change.\<close>

theorem config_set_merges:
  assumes "ks \<noteq> []" "look (cfg_data c) (ks @ [f]) = Some w" "f \<notin> fst ` set vs"
  shows "\<exists>c'. set_conf c (KList ks) (CDict vs) None = Inr (True, c')
     \<and> look (cfg_data c') (ks @ [f]) = Some w \<and> (vs = [] \<longrightarrow> look (cfg_data c') ks = look (cfg_data c) ks)"
proof -
  have app: "look d (as @ bs) = (case look d as of None \<Rightarrow> None | Some x \<Rightarrow> look x bs)" for d as bs
    by (induction d as rule: look.induct) (auto split: cval.splits option.splits)
  obtain d where d: "look (cfg_data c) ks = Some (CDict d)" "map_of d f = Some w"
    using assms(2) unfolding app by (auto split: option.splits cval.splits)
  obtain d' where "update_value (CDict d) vs = CDict d'" "map_of d' f = Some w"
    using update_value_keeps [OF d(2) assms(3)] by blast
  then show ?thesis
    using look_put [OF d(1), of "CDict vs"] assms(1) d
    by (intro exI [of _ "c\<lparr>cfg_data := put (cfg_data c) ks (CDict vs), cfg_dirty := True\<rparr>"])
      (auto simp: set_conf_put app merge_def)
qed

theorem config_set_merges_witness:
  "\<exists>c'. set_conf \<lparr>cfg_data = CDict [(''m'', CDict [(''cpu'', CInt 3)])], cfg_dirty = False\<rparr> (KList [''m''])
       (CDict [(''ram'', CInt 1)]) None = Inr (True, c')
     \<and> look (cfg_data c') [''m'', ''cpu''] = Some (CInt 3)"
  using config_set_merges [of "[''m'']" "\<lparr>cfg_data = CDict [(''m'', CDict [(''cpu'', CInt 3)])], cfg_dirty = False\<rparr>"
      "''cpu''" "CInt 3" "[(''ram'', CInt 1)]"] by auto

text \<open>The two readers disagree about a path with a missing step: \<^verbatim>\<open>get_conf\<close> skips the
  step and goes on searching for the next key in the same dictionary, so it answers a value at a
  path that \<^verbatim>\<open>is_exist_conf\<close> says is not there.\<close>

theorem get_conf_skips_missing_step:
  "get_conf (CDict [(''a'', CInt 1)]) (KList [''missing'', ''a'']) (CInt 0) None RStr = Inr (CInt 1)
   \<and> is_exist_conf (CDict [(''a'', CInt 1)]) (KList [''missing'', ''a'']) None = Inr False"
  by code_simp

end
