(* ===== verification/Monitor.thy ===== *)
theory Monitor
  imports Config_Tree
begin

text \<open>
  The check engine: what a module returns (\<^verbatim>\<open>lib/modules/dict_return_check.py\<close>), how a module
  records and announces it (\<^verbatim>\<open>lib/modules/module_base.py\<close>), what the monitor makes of it
  (\<^verbatim>\<open>lib/services/monitoring/monitor.py\<close>) and which alert reaches which channel
  (\<^verbatim>\<open>lib/core/notify/monitor_notifier.py\<close>, \<^verbatim>\<open>router.py\<close>). The monitor's working state is a tree of
  theory \<open>Config_Tree\<close>, written and read through \<^verbatim>\<open>set_conf\<close> and \<^verbatim>\<open>get_conf\<close> as the source
  does. What a module measures, and what a channel does with a message, are arguments.
\<close>

section \<open>What a module returns\<close>

record check_entry =
  e_status :: bool
  e_message :: string
  e_send :: bool
  e_other :: "(string \<times> cval) list"
  e_severity :: string
  e_name :: string

record check_result =
  rc_list :: "(string, check_entry) dict"
  rc_kept :: "string list"

definition rc_empty :: check_result where
  "rc_empty = \<lparr>rc_list = [], rc_kept = []\<rparr>"

definition norm_severity :: "string option \<Rightarrow> bool \<Rightarrow> string" where
  "norm_severity severity status =
     (if status then []
      else case severity of
             Some s \<Rightarrow> if py_lower s = ''warning'' then ''warning'' else ''error''
           | None \<Rightarrow> ''error'')"

text \<open>\<^verbatim>\<open>key.split('/', 1)[0]\<close>.\<close>

definition head_part :: "string \<Rightarrow> string" where
  "head_part k = takeWhile (\<lambda>c. c \<noteq> CHR ''/'') k"

definition rc_keep :: "check_result \<Rightarrow> string \<Rightarrow> check_result" where
  "rc_keep r p = (if p = [] then r else r\<lparr>rc_kept := List.insert p (rc_kept r)\<rparr>)"

definition is_kept :: "check_result \<Rightarrow> string \<Rightarrow> bool" where
  "is_kept r k = (rc_kept r \<noteq> [] \<and> (k \<in> set (rc_kept r) \<or> head_part k \<in> set (rc_kept r)))"

definition rc_keys :: "check_result \<Rightarrow> string list" where
  "rc_keys r = map fst (rc_list r)"

definition rc_exists :: "check_result \<Rightarrow> string \<Rightarrow> bool" where
  "rc_exists r k = (map_of (rc_list r) k \<noteq> None)"

definition rc_set ::
  "check_result \<Rightarrow> string \<Rightarrow> bool \<Rightarrow> string \<Rightarrow> bool \<Rightarrow> (string \<times> cval) list \<Rightarrow> string option \<Rightarrow> string
    \<Rightarrow> bool \<times> check_result" where
  "rc_set r key status message send other severity name =
     (if key = [] then (False, r)
      else (True, r\<lparr>rc_list := AList.update key
             \<lparr>e_status = status, e_message = message, e_send = send, e_other = other,
              e_severity = norm_severity severity status, e_name = name\<rparr> (rc_list r)\<rparr>))"

text \<open>
  \<^verbatim>\<open>update\<close> checks the option's name without regard to case and writes the name as it was
  spelled, so only an exact spelling reaches a field that is ever read. Values are of the
  documented type of their field; another type is outside the model and changes nothing.
\<close>

definition rc_update :: "check_result \<Rightarrow> string \<Rightarrow> string \<Rightarrow> cval \<Rightarrow> bool \<times> check_result" where
  "rc_update r key field v =
     (case (if key = [] then None else map_of (rc_list r) key) of
        None \<Rightarrow> (False, r)
      | Some e \<Rightarrow>
          if py_lower field \<notin> {''status'', ''message'', ''send'', ''other_data'', ''severity''} then (False, r)
          else
            let e' = (case v of
                 CBool b \<Rightarrow> if field = ''status'' then e\<lparr>e_status := b\<rparr> else if field = ''send'' then e\<lparr>e_send := b\<rparr> else e
               | CStr s \<Rightarrow> if field = ''message'' then e\<lparr>e_message := s\<rparr> else if field = ''severity'' then e\<lparr>e_severity := s\<rparr> else e
               | CDict d \<Rightarrow> if field = ''other_data'' then e\<lparr>e_other := d\<rparr> else e
               | _ \<Rightarrow> e)
            in (True, r\<lparr>rc_list := AList.update key e' (rc_list r)\<rparr>))"

definition rc_remove :: "check_result \<Rightarrow> string \<Rightarrow> bool \<times> check_result" where
  "rc_remove r key =
     (if rc_exists r key then (True, r\<lparr>rc_list := AList.delete key (rc_list r)\<rparr>) else (False, r))"

definition rc_status :: "check_result \<Rightarrow> string \<Rightarrow> bool" where
  "rc_status r k = (case map_of (rc_list r) k of Some e \<Rightarrow> e_status e | None \<Rightarrow> False)"

definition rc_message :: "check_result \<Rightarrow> string \<Rightarrow> string" where
  "rc_message r k = (case map_of (rc_list r) k of Some e \<Rightarrow> e_message e | None \<Rightarrow> [])"

section \<open>Alerts\<close>

record alert =
  al_kind :: string
  al_module :: string
  al_item :: string
  al_message :: string
  al_also :: string
  al_simulated :: bool

definition alert_kind :: "bool \<Rightarrow> string \<Rightarrow> string" where
  "alert_kind status severity =
     (if status then ''recovery'' else if severity = ''warning'' then ''warn'' else ''down'')"

definition notify_kind :: "string list option \<Rightarrow> string \<Rightarrow> bool \<Rightarrow> string" where
  "notify_kind events kind status =
     (let kind = py_strip kind
      in if kind = [] \<or> status then []
         else case events of None \<Rightarrow> [] | Some ks \<Rightarrow> if kind \<in> set ks then kind else [])"

definition add_alert ::
  "string \<Rightarrow> string \<Rightarrow> string \<Rightarrow> string \<Rightarrow> string \<Rightarrow> bool \<Rightarrow> alert list \<Rightarrow> alert list" where
  "add_alert kind md item message also sim alerts =
     (if kind = [] \<or> message = [] then alerts
      else alerts @ [\<lparr>al_kind = kind, al_module = md, al_item = item, al_message = message,
                      al_also = also, al_simulated = sim\<rparr>])"

definition is_simulated_result :: "(string \<times> cval) list \<Rightarrow> bool" where
  "is_simulated_result other = truthy (dget other ''_simulated'' CNone)"

section \<open>The monitor's state\<close>

text \<open>
  What the monitor reads and does not change: the modules' configuration, the devices (identity,
  name, in maintenance; \<open>None\<close> without a device store), the registered notification events
  (\<open>None\<close> when the registry fails), and whether a notifier was given.
\<close>

record mon_env =
  en_modules :: cval
  en_devices :: "(string \<times> string \<times> bool) list option"
  en_events :: "string list option"
  en_notifier :: bool

record mon =
  m_status :: config
  m_alerts :: "alert list"
  m_counts_dirty :: bool

definition st_set :: "string list \<Rightarrow> cval \<Rightarrow> mon \<Rightarrow> mon" where
  "st_set path v m =
     (case set_conf (m_status m) (KList path) v None of
        Inr (_, c) \<Rightarrow> m\<lparr>m_status := c\<rparr> | Inl _ \<Rightarrow> m)"

definition st_get :: "mon \<Rightarrow> string list \<Rightarrow> cval \<Rightarrow> cval" where
  "st_get m path d =
     (case get_conf (cfg_data (m_status m)) (KList path) d None RStr of Inr v \<Rightarrow> v | Inl _ \<Rightarrow> d)"

text \<open>Python's \<^verbatim>\<open>==\<close> on the values a status can be: booleans are the numbers 0 and 1.\<close>

definition num_of :: "cval \<Rightarrow> rat option" where
  "num_of v = (case v of CBool b \<Rightarrow> Some (if b then 1 else 0) | CInt n \<Rightarrow> Some (of_int n)
     | CFloat x \<Rightarrow> Some x | _ \<Rightarrow> None)"

definition py_eq :: "cval \<Rightarrow> cval \<Rightarrow> bool" where
  "py_eq a b = (case (num_of a, num_of b) of (Some x, Some y) \<Rightarrow> x = y | _ \<Rightarrow> a = b)"

definition int_value :: "cval \<Rightarrow> int" where
  "int_value v = (case v of CInt n \<Rightarrow> n | CBool b \<Rightarrow> (if b then 1 else 0) | CFloat x \<Rightarrow> py_trunc x | _ \<Rightarrow> 0)"

text \<open>\<^verbatim>\<open>prev in (None, '')\<close>.\<close>

definition unset :: "cval \<Rightarrow> bool" where
  "unset v = (v = CNone \<or> v = CStr [])"

definition uid_names :: "mon_env \<Rightarrow> (string, string) dict" where
  "uid_names env =
     (case en_devices env of None \<Rightarrow> []
      | Some ds \<Rightarrow> fold (\<lambda>(uid, name, mt) m. if uid = [] then m
                       else AList.update uid (if name = [] then uid else name) m) ds [])"

text \<open>\<^verbatim>\<open>_item_label\<close>: the collections in order; the first one that knows the item and its device decides.\<close>

fun label_in :: "(string, string) dict \<Rightarrow> string \<Rightarrow> (string \<times> cval) list \<Rightarrow> string option" where
  "label_in names key [] = None"
| "label_in names key ((coll, items) # cs) =
     (case items of
        CDict its \<Rightarrow>
          if starts_with ''__'' coll then label_in names key cs
          else
            let i1 = dget its key CNone; it = (if truthy i1 then i1 else dget its (head_part key) CNone)
            in (case it of
                  CDict f \<Rightarrow>
                    (case dget f ''device_uid'' CNone of
                       CStr u \<Rightarrow>
                         if u = [] then label_in names key cs
                         else (case map_of names u of Some n \<Rightarrow> if n = [] then None else Some n | None \<Rightarrow> None)
                     | v \<Rightarrow> if truthy v then None else label_in names key cs)
                | _ \<Rightarrow> label_in names key cs)
      | _ \<Rightarrow> label_in names key cs)"

definition item_label :: "mon_env \<Rightarrow> string \<Rightarrow> string \<Rightarrow> string" where
  "item_label env md key =
     (if key = [] then []
      else
        let names = uid_names env;
            found = (case get_conf (en_modules env) (KList [md]) CNone None RStr of
                       Inr (CDict cs) \<Rightarrow> label_in names key cs | _ \<Rightarrow> None)
        in case found of Some n \<Rightarrow> n | None \<Rightarrow> dget names key key)"

section \<open>Alerts from a module\<close>

definition send_message ::
  "mon_env \<Rightarrow> mon \<Rightarrow> string \<Rightarrow> bool \<Rightarrow> string \<Rightarrow> string \<Rightarrow> string \<Rightarrow> string \<Rightarrow> bool \<Rightarrow> mon" where
  "send_message env m message status md item severity kind sim =
     (if message \<noteq> [] \<and> en_notifier env
      then m\<lparr>m_alerts := add_alert (alert_kind status severity) md item message
               (notify_kind (en_events env) kind status) sim (m_alerts m)\<rparr>
      else m)"

definition check_status :: "mon \<Rightarrow> bool \<Rightarrow> string \<Rightarrow> string \<Rightarrow> bool" where
  "check_status m status md sub =
     (let cur = st_get m (md # (if sub = [] then [] else [sub]) @ [''status'']) CNone
      in if unset cur \<and> status then False else \<not> py_eq cur (CBool status))"

text \<open>The module's own gate: also a changed reason of a failure that goes on.\<close>

definition old_message :: "mon \<Rightarrow> string \<Rightarrow> string \<Rightarrow> cval" where
  "old_message m md key =
     (case st_get m [md] (CDict []) of
        CDict d \<Rightarrow> (case dget d key (CDict []) of
                     CDict e \<Rightarrow> (case dget e ''other_data'' (CDict []) of
                                  CDict od \<Rightarrow> dget od ''message'' (CStr []) | _ \<Rightarrow> CStr [])
                   | _ \<Rightarrow> CStr [])
      | _ \<Rightarrow> CStr [])"

definition check_status_custom :: "mon \<Rightarrow> bool \<Rightarrow> string \<Rightarrow> string \<Rightarrow> string \<Rightarrow> bool" where
  "check_status_custom m status md key reason =
     (let changed = check_status m status md key
      in if status \<or> changed then changed
         else if CStr reason \<noteq> old_message m md key then True else changed)"

definition emit ::
  "mon_env \<Rightarrow> string \<Rightarrow> mon \<times> check_result \<Rightarrow> string \<Rightarrow> bool \<Rightarrow> string \<Rightarrow> (string \<times> cval) list \<Rightarrow> string option
    \<Rightarrow> string \<Rightarrow> string option \<Rightarrow> string \<Rightarrow> mon \<times> check_result" where
  "emit env md st key status message other severity name change_msg kind =
     (let (m, r) = st;
          r' = snd (rc_set r key status message False other severity name);
          changed = (case change_msg of Some c \<Rightarrow> check_status_custom m status md key c
                     | None \<Rightarrow> check_status m status md key)
      in (if changed
          then send_message env m message status md name (opt severity []) kind (is_simulated_result other)
          else m, r'))"

definition fail_streak :: "mon \<Rightarrow> string \<Rightarrow> string \<Rightarrow> bool \<Rightarrow> int \<times> mon" where
  "fail_streak m md key failed =
     (let path = [md, key, ''fail_count''];
          prev = int_value (st_get m path (CInt 0));
          cur = (if failed then prev + 1 else 0)
      in if cur \<noteq> prev then (cur, (st_set path (CInt cur) m)\<lparr>m_counts_dirty := True\<rparr>) else (cur, m))"

text \<open>The stored entries of a module, and the failures among them under a prefix that this run did not report.\<close>

definition stored_entries :: "mon \<Rightarrow> string \<Rightarrow> (string \<times> cval) list" where
  "stored_entries m md = (case st_get m [md] (CDict []) of CDict d \<Rightarrow> d | _ \<Rightarrow> [])"

definition rstrip_slash :: "string \<Rightarrow> string" where
  "rstrip_slash p = rev (dropWhile (\<lambda>c. c = CHR ''/'') (rev p))"

definition lingering :: "mon \<Rightarrow> check_result \<Rightarrow> string \<Rightarrow> string \<Rightarrow> (string \<times> (string \<times> cval) list) list" where
  "lingering m r md pfx =
     (let pre = rstrip_slash pfx @ ''/''
      in List.map_filter (\<lambda>(k, e). case e of
           CDict f \<Rightarrow> if starts_with pre k \<and> \<not> rc_exists r k \<and> dget f ''status'' CNone = CBool False
                      then Some (k, f) else None
         | _ \<Rightarrow> None) (stored_entries m md))"

definition field_text :: "(string \<times> cval) list \<Rightarrow> string \<Rightarrow> string" where
  "field_text f k = (case dget f k CNone of CStr s \<Rightarrow> s | _ \<Rightarrow> [])"

definition field_dict :: "(string \<times> cval) list \<Rightarrow> string \<Rightarrow> (string \<times> cval) list" where
  "field_dict f k = (case dget f k CNone of CDict d \<Rightarrow> d | _ \<Rightarrow> [])"

text \<open>\<open>msg\<close> is the caller's \<^verbatim>\<open>message_fn\<close>, \<open>label\<close> the configured label of an item.\<close>

definition settle_cleared ::
  "mon_env \<Rightarrow> string \<Rightarrow> (string \<Rightarrow> string) \<Rightarrow> (string \<Rightarrow> string) \<Rightarrow> mon \<times> check_result \<Rightarrow> string
    \<Rightarrow> string list \<times> mon \<times> check_result" where
  "settle_cleared env md label msg st pfx =
     (let found = lingering (fst st) (snd st) md pfx;
          pre = rstrip_slash pfx @ ''/'';
          name_of = (\<lambda>(k, f). let n1 = field_text (field_dict f ''other_data'') ''name''; n2 = field_text f ''name''
                      in if n1 \<noteq> [] then n1 else if n2 \<noteq> [] then n2 else drop (length pre) k)
      in (map fst found,
          fold (\<lambda>(k, f) s. emit env md s k True (msg (name_of (k, f))) [(''name'', CStr (name_of (k, f)))]
                 None (label (head_part k)) None []) found st))"

definition carry_forward :: "mon \<Rightarrow> string \<Rightarrow> check_result \<Rightarrow> string \<Rightarrow> string list \<times> check_result" where
  "carry_forward m md r pfx =
     (let found = lingering m r md pfx
      in (map fst found,
          fold (\<lambda>(k, f) r. snd (rc_set r k False (field_text f ''message'') False (field_dict f ''other_data'')
                 (let s = field_text f ''severity'' in if s = [] then None else Some s) (field_text f ''name''))) found r))"

section \<open>What the monitor makes of a result\<close>

definition process_entry :: "mon_env \<Rightarrow> string \<Rightarrow> string \<times> check_entry \<Rightarrow> mon \<times> bool \<Rightarrow> mon \<times> bool" where
  "process_entry env md ke st =
     (let (key, e) = ke; (m0, changed) = st;
          m1 = st_set [md, key, ''other_data''] (CDict (e_other e)) m0;
          m2 = st_set [md, key, ''message''] (CStr (e_message e)) m1;
          m3 = st_set [md, key, ''severity''] (CStr (e_severity e)) m2;
          prev = st_get m3 [md, key, ''status''] CNone
      in if py_eq prev (CBool (e_status e)) then (m3, changed)
         else
           let m4 = st_set [md, key, ''status''] (CBool (e_status e)) m3;
               kind = alert_kind (e_status e) (e_severity e);
               name = (if e_name e \<noteq> [] then e_name e else item_label env md key)
           in (if e_send e \<and> en_notifier env \<and> \<not> (kind = ''recovery'' \<and> unset prev)
               then m4\<lparr>m_alerts := add_alert kind md name (e_message e) []
                        (is_simulated_result (e_other e)) (m_alerts m4)\<rparr>
               else m4, True))"

text \<open>\<^verbatim>\<open>s.strip('; ')\<close>.\<close>

definition strip_chars :: "char list \<Rightarrow> string \<Rightarrow> string" where
  "strip_chars cs s = rev (dropWhile (\<lambda>c. c \<in> set cs) (rev (dropWhile (\<lambda>c. c \<in> set cs) s)))"

fun longest :: "string \<Rightarrow> string list \<Rightarrow> string" where
  "longest b [] = b"
| "longest b (x # xs) = longest (if length x > length b then x else b) xs"

definition recovered_by_parts ::
  "mon_env \<Rightarrow> string \<Rightarrow> string \<Rightarrow> cval \<Rightarrow> check_result \<Rightarrow> alert list \<Rightarrow> alert list" where
  "recovered_by_parts env md key entry r alerts =
     (case entry of
        CDict f \<Rightarrow>
          if \<not> en_notifier env \<or> dget f ''status'' CNone \<noteq> CBool False then alerts
          else
            let parts = filter (\<lambda>c. starts_with (key @ ''/'') c \<or> starts_with (key @ ''_'') c) (rc_keys r);
                label = item_label env md key
            in if parts = []
               then (case filter (\<lambda>c. starts_with (c @ ''/'') key \<and> rc_status r c) (rc_keys r) of
                       [] \<Rightarrow> alerts
                     | c # cs \<Rightarrow>
                         let text = py_strip (rc_message r (longest c cs))
                         in add_alert ''recovery'' md label
                              (if text \<noteq> [] then key @ '': '' @ text else label) [] False alerts)
               else
                 let text = strip_chars [CHR '';'', CHR '' ''] (py_join ''; '' (map (rc_message r) (take 3 parts)))
                 in add_alert ''recovery'' md label (if text \<noteq> [] then text else label) [] False alerts
      | _ \<Rightarrow> alerts)"

definition is_orphan :: "check_result \<Rightarrow> string \<times> cval \<Rightarrow> bool" where
  "is_orphan r ke =
     (let (k, entry) = ke
      in \<not> rc_exists r k \<and> \<not> is_kept r k
         \<and> (case entry of
              CDict f \<Rightarrow> map_of f ''status'' \<noteq> None \<or> head_part k \<notin> head_part ` set (rc_keys r)
            | _ \<Rightarrow> head_part k \<notin> head_part ` set (rc_keys r)))"

definition prune_orphans :: "mon_env \<Rightarrow> string \<Rightarrow> check_result \<Rightarrow> mon \<Rightarrow> mon \<times> bool" where
  "prune_orphans env md r m =
     (case cfg_data (m_status m) of
        CDict ms \<Rightarrow>
          (case map_of ms md of
             Some (CDict entries) \<Rightarrow>
               let orphans = filter (is_orphan r) entries;
                   alerts = fold (\<lambda>(k, e). recovered_by_parts env md k e r) orphans (m_alerts m);
                   left = fold AList.delete (map fst orphans) entries;
                   c = (m_status m)\<lparr>cfg_data := CDict (AList.update md (CDict left) ms)\<rparr>
               in (m\<lparr>m_status := c, m_alerts := alerts\<rparr>, orphans \<noteq> [])
           | _ \<Rightarrow> (m, False))
      | _ \<Rightarrow> (m, False))"

definition process_module_result :: "mon_env \<Rightarrow> string \<Rightarrow> check_result \<Rightarrow> bool \<Rightarrow> mon \<Rightarrow> mon \<times> bool" where
  "process_module_result env md r prune m =
     (let (m1, changed) = fold (process_entry env md) (rc_list r) (m, False)
      in if prune then let (m2, pruned) = prune_orphans env md r m1 in (m2, changed \<or> pruned)
         else (m1, changed))"

section \<open>Maintenance\<close>

text \<open>\<^verbatim>\<open>skey.rsplit('_', 1)[0]\<close>.\<close>

definition rsplit_head :: "string \<Rightarrow> string" where
  "rsplit_head s = (if CHR ''_'' \<in> set s then rev (tl (dropWhile (\<lambda>c. c \<noteq> CHR ''_'') (rev s))) else s)"

definition maint_uids :: "mon_env \<Rightarrow> string list" where
  "maint_uids env = (case en_devices env of None \<Rightarrow> [] | Some ds \<Rightarrow> map fst (filter (\<lambda>(u, n, mt). mt) ds))"

text \<open>The items of a module bound to one of the devices, over its collections.\<close>

definition bound_items :: "string list \<Rightarrow> cval \<Rightarrow> string list" where
  "bound_items uids mcfg =
     (case mcfg of
        CDict cs \<Rightarrow> concat (map (\<lambda>(coll, items). case items of
            CDict its \<Rightarrow> if starts_with ''__'' coll then []
              else map fst (filter (\<lambda>(k, it). case it of
                     CDict f \<Rightarrow> (case dget f ''device_uid'' CNone of CStr u \<Rightarrow> u \<in> set uids | _ \<Rightarrow> False)
                   | _ \<Rightarrow> False) its)
          | _ \<Rightarrow> []) cs)
      | _ \<Rightarrow> [])"

definition purged :: "string list \<Rightarrow> string \<Rightarrow> bool" where
  "purged items k = ((if k \<in> set items then k else rsplit_head k) \<in> set items)"

fun purge_modules :: "string list \<Rightarrow> (string \<times> cval) list \<Rightarrow> (string \<times> cval) list \<Rightarrow> (string \<times> cval) list \<times> bool" where
  "purge_modules uids [] ms = (ms, False)"
| "purge_modules uids ((mname, mcfg) # cfg) ms =
     (let items = bound_items uids mcfg
      in case (if items = [] then None else map_of ms mname) of
           Some (CDict entries) \<Rightarrow>
             let left = filter (\<lambda>(k, e). \<not> purged items k) entries;
                 (ms', d) = purge_modules uids cfg (AList.update mname (CDict left) ms)
             in (ms', d \<or> left \<noteq> entries)
         | _ \<Rightarrow> purge_modules uids cfg ms)"

definition purge_maintenance :: "mon_env \<Rightarrow> mon \<Rightarrow> mon \<times> bool" where
  "purge_maintenance env m =
     (let uids = maint_uids env
      in if uids = [] then (m, False)
         else case (en_modules env, cfg_data (m_status m)) of
                (CDict cfg, CDict ms) \<Rightarrow>
                  let (ms', dirty) = purge_modules uids cfg ms
                  in (m\<lparr>m_status := (m_status m)\<lparr>cfg_data := CDict ms'\<rparr>\<rparr>, dirty)
              | _ \<Rightarrow> (m, False))"

section \<open>Delivery\<close>

definition deliverable :: "alert list \<Rightarrow> alert list" where
  "deliverable alerts = filter (\<lambda>a. \<not> al_simulated a) alerts"

definition cell_name :: "string \<Rightarrow> string \<Rightarrow> string" where
  "cell_name channel kind = channel @ ''_on_'' @ kind"

definition picked :: "(string \<Rightarrow> bool) \<Rightarrow> string option \<Rightarrow> string \<Rightarrow> alert list \<Rightarrow> alert list" where
  "picked matrix route_kind name alerts =
     (case route_kind of
        Some k \<Rightarrow> if matrix (cell_name name k) then alerts else []
      | None \<Rightarrow> filter (\<lambda>a. matrix (cell_name name (al_kind a))
                        \<or> (al_also a \<noteq> [] \<and> matrix (cell_name name (al_also a)))) alerts)"

text \<open>
  \<^verbatim>\<open>_send\<close>: \<open>matrix\<close> is the routing matrix (\<open>None\<close> when the configuration cannot be read), \<open>chans\<close>
  the registered channels in order, \<open>flush\<close> what a channel does with its batch (\<open>Inl\<close> an
  exception's text). The answer lists what each channel was handed and its result.
\<close>

definition nf_send ::
  "(string \<Rightarrow> bool) option \<Rightarrow> string option \<Rightarrow> string list \<Rightarrow> (string \<Rightarrow> alert list \<Rightarrow> string + bool \<times> string)
    \<Rightarrow> alert list \<Rightarrow> (string \<times> alert list \<times> bool \<times> string) list" where
  "nf_send matrix route_kind chans flush alerts0 =
     (let alerts = deliverable alerts0
      in if alerts = [] then []
         else case matrix of
                None \<Rightarrow> []
              | Some mx \<Rightarrow>
                  List.map_filter (\<lambda>name.
                    let p = picked mx route_kind name alerts
                    in if p = [] then None
                       else Some (name, p, case flush name p of Inl e \<Rightarrow> (False, e) | Inr r \<Rightarrow> r)) chans)"

definition nf_flush ::
  "(string \<Rightarrow> bool) option \<Rightarrow> string option \<Rightarrow> string list \<Rightarrow> (string \<Rightarrow> alert list \<Rightarrow> string + bool \<times> string)
    \<Rightarrow> mon \<Rightarrow> (string \<times> alert list \<times> bool \<times> string) list \<times> mon" where
  "nf_flush matrix route_kind chans flush m =
     (if m_alerts m = [] then [] else nf_send matrix route_kind chans flush (m_alerts m), m\<lparr>m_alerts := []\<rparr>)"

text \<open>\<^verbatim>\<open>run_dispatch\<close>: one event to the channels the matrix or the caller names.\<close>

definition run_dispatch ::
  "(string \<Rightarrow> bool) option \<Rightarrow> string list \<Rightarrow> (string \<Rightarrow> string + bool \<times> string) \<Rightarrow> string \<Rightarrow> string list option
    \<Rightarrow> (string \<times> bool \<times> string) list" where
  "run_dispatch matrix chans send kind wanted =
     (case matrix of
        None \<Rightarrow> []
      | Some mx \<Rightarrow>
          let active = (case wanted of Some ws \<Rightarrow> filter (\<lambda>n. n \<in> set ws) chans
                        | None \<Rightarrow> filter (\<lambda>n. mx (cell_name n kind)) chans)
          in map (\<lambda>n. (n, case send n of Inl e \<Rightarrow> (False, e) | Inr r \<Rightarrow> r)) active)"

section \<open>A cycle\<close>

text \<open>
  One cycle after the modules ran: maintenance is purged, every module that answered is processed
  in the order its future completed (a failed or timed-out one is \<open>None\<close> and changes nothing), and
  the answer says whether the purge and the cycle saved the state.
\<close>

definition process_done :: "mon_env \<Rightarrow> string \<times> check_result option \<Rightarrow> mon \<times> bool \<Rightarrow> mon \<times> bool" where
  "process_done env out st =
     (case snd out of
        None \<Rightarrow> st
      | Some r \<Rightarrow> let (m', ch) = process_module_result env (fst out) r True (fst st) in (m', snd st \<or> ch))"

definition mon_cycle :: "mon_env \<Rightarrow> (string \<times> check_result option) list \<Rightarrow> mon \<Rightarrow> mon \<times> bool \<times> bool" where
  "mon_cycle env outs m =
     (let (m1, purged) = purge_maintenance env m;
          (m2, changed) = fold (process_done env) outs (m1, False);
          save = (changed \<or> m_counts_dirty m2)
      in (if save then m2\<lparr>m_counts_dirty := False\<rparr> else m2, purged, save))"

end
