(* ===== verification/Monitor_Proofs.thy ===== *)
theory Monitor_Proofs
  imports Monitor
begin

text \<open>
  What the check engine promises: an alert for every change of a recorded state and for nothing
  else, no recovery of something that never failed, no stored result that outlives its item, and
  no simulated alert outside the panel.
\<close>

section \<open>The working state\<close>

declare look.simps(2) [simp del] put.simps(2) [simp del]

abbreviation tree :: "mon \<Rightarrow> cval" where
  "tree m \<equiv> cfg_data (m_status m)"

lemma st_set_put:
  "path \<noteq> [] \<Longrightarrow> st_set path v m = m\<lparr>m_status := (m_status m)\<lparr>cfg_data := put (tree m) path v, cfg_dirty := True\<rparr>\<rparr>"
  by (simp add: st_set_def set_conf_put)

lemma st_set_alerts [simp]: "m_alerts (st_set path v m) = m_alerts m" "m_counts_dirty (st_set path v m) = m_counts_dirty m"
  by (auto simp: st_set_def split: sum.splits)

text \<open>The recorded status of a check, as \<^verbatim>\<open>get_conf\<close> answers it: the empty text when there is none.\<close>

definition old_status :: "mon \<Rightarrow> string \<Rightarrow> string \<Rightarrow> cval" where
  "old_status m md k = (case look (tree m) [md, k, ''status''] of
     Some v \<Rightarrow> if v = CNone then CStr [] else v | None \<Rightarrow> CStr [])"

lemma st_get_status:
  assumes "look (tree m) [md, k] = Some (CDict f)"
  shows "st_get m [md, k, ''status''] CNone = old_status m md k"
proof -
  obtain d e where d: "tree m = CDict d" "map_of d md = Some (CDict e)" "map_of e k = Some (CDict f)"
    using assms by (auto simp: look.simps(2) split: cval.splits option.splits)
  have "truthy (tree m)" using d by auto
  then show ?thesis using d
    by (auto simp: st_get_def get_conf_def convert_find_key_to_list_def old_status_def empty_of_def look.simps(2)
        split: option.splits)
qed

lemma look_snoc_dict: "look w (ks @ [k]) = Some v \<Longrightarrow> \<exists>f. look w ks = Some (CDict f)"
  by (induction w ks rule: look.induct) (auto simp: look.simps(2) split: cval.splits option.splits)

text \<open>The three fields refreshed first make the entry a dictionary and leave every status alone.\<close>

definition refreshed :: "string \<Rightarrow> string \<times> check_entry \<Rightarrow> mon \<Rightarrow> mon" where
  "refreshed md ke m =
     st_set [md, fst ke, ''severity''] (CStr (e_severity (snd ke)))
       (st_set [md, fst ke, ''message''] (CStr (e_message (snd ke)))
         (st_set [md, fst ke, ''other_data''] (CDict (e_other (snd ke))) m))"

lemma refreshed_status: "look (tree (refreshed md ke m)) [md', k', ''status''] = look (tree m) [md', k', ''status'']"
  by (simp add: refreshed_def st_set_put look_put_other)

lemma refreshed_entry: "\<exists>f. look (tree (refreshed md ke m)) [md, fst ke] = Some (CDict f)"
proof -
  have "look (tree (refreshed md ke m)) ([md, fst ke] @ [''severity'']) = Some (CStr (e_severity (snd ke)))"
    by (simp add: refreshed_def st_set_put) (rule look_put_scalar, simp)
  then show ?thesis by (rule look_snoc_dict)
qed

lemma refreshed_alerts [simp]: "m_alerts (refreshed md ke m) = m_alerts m"
  by (simp add: refreshed_def)

lemma refreshed_old [simp]: "old_status (refreshed md ke m) md' k' = old_status m md' k'"
  by (simp only: old_status_def refreshed_status)

text \<open>The alert one result raises, given what was recorded before.\<close>

definition entry_alert :: "mon_env \<Rightarrow> string \<Rightarrow> mon \<Rightarrow> string \<times> check_entry \<Rightarrow> alert list" where
  "entry_alert env md m ke =
     (let (k, e) = ke; prev = old_status m md k
      in if py_eq prev (CBool (e_status e)) \<or> \<not> e_send e \<or> \<not> en_notifier env \<or> (e_status e \<and> unset prev) then []
         else add_alert (alert_kind (e_status e) (e_severity e)) md
                (if e_name e \<noteq> [] then e_name e else item_label env md k)
                (e_message e) [] (is_simulated_result (e_other e)) [])"

lemma add_alert_append: "add_alert k md i msg also sim as = as @ add_alert k md i msg also sim []"
  by (simp add: add_alert_def)

lemma kind_recovery [simp]: "(alert_kind s v = ''recovery'') = s"
  by (simp add: alert_kind_def)

lemma process_entry_eq:
  "process_entry env md ke (m, ch) =
     (let r = refreshed md ke m; prev = old_status m md (fst ke); s = e_status (snd ke)
      in if py_eq prev (CBool s) then (r, ch)
         else ((st_set [md, fst ke, ''status''] (CBool s) r)\<lparr>m_alerts := m_alerts m @ entry_alert env md m ke\<rparr>, True))"
proof -
  obtain k e where ke: "ke = (k, e)" by (cases ke)
  obtain f where "look (tree (refreshed md ke m)) [md, fst ke] = Some (CDict f)" using refreshed_entry by blast
  from st_get_status [OF this] have p: "st_get (refreshed md ke m) [md, k, ''status''] CNone = old_status m md k"
    by (simp add: ke)
  have r: "st_set [md, k, ''severity''] (CStr (e_severity e)) (st_set [md, k, ''message''] (CStr (e_message e))
        (st_set [md, k, ''other_data''] (CDict (e_other e)) m)) = refreshed md ke m"
    by (simp add: refreshed_def ke)
  show ?thesis
    unfolding process_entry_def ke prod.case Let_def fst_conv snd_conv
    unfolding r [unfolded ke] p [unfolded ke]
    using add_alert_append [of "alert_kind (e_status e) (e_severity e)" md
        "if e_name e \<noteq> [] then e_name e else item_label env md k" "e_message e" "[]"
        "is_simulated_result (e_other e)" "m_alerts m"]
    by (auto simp: entry_alert_def Let_def)
qed

definition settled :: "mon \<Rightarrow> string \<Rightarrow> string \<times> check_entry \<Rightarrow> bool" where
  "settled m md ke = py_eq (old_status m md (fst ke)) (CBool (e_status (snd ke)))"

lemma old_status_alerts [simp]: "old_status (m\<lparr>m_alerts := as\<rparr>) md k = old_status m md k"
  by (simp add: old_status_def)

lemma old_status_set:
  "old_status (st_set [md, k, ''status''] (CBool s) m) md' k' =
     (if md' = md \<and> k' = k then CBool s else old_status m md' k')"
proof -
  have "look (put (tree m) [md, k, ''status''] (CBool s)) [md, k, ''status''] = Some (CBool s)"
    by (rule look_put_scalar) simp
  then show ?thesis by (auto simp: old_status_def st_set_put look_put_other)
qed

lemma py_eq_refl [simp]: "py_eq v v"
  by (simp add: py_eq_def split: option.split)

lemma process_entry_effect:
  assumes "process_entry env md ke (m, ch) = (m', ch')"
  shows "m_alerts m' = m_alerts m @ entry_alert env md m ke"
    "ch' = (ch \<or> \<not> settled m md ke)"
    "\<forall>md' k'. (md', k') \<noteq> (md, fst ke) \<longrightarrow> old_status m' md' k' = old_status m md' k'"
    "settled m' md ke"
  using assms
  by (auto simp: process_entry_eq Let_def settled_def old_status_set entry_alert_def case_prod_beta split: if_splits)

lemma process_entries:
  assumes "distinct (map fst kes)" "fold (process_entry env md) kes (m, ch) = (m', ch')"
  shows "m_alerts m' = m_alerts m @ concat (map (entry_alert env md m) kes)
    \<and> ch' = (ch \<or> (\<exists>ke \<in> set kes. \<not> settled m md ke))
    \<and> (\<forall>ke \<in> set kes. settled m' md ke)
    \<and> (\<forall>md' k'. md' \<noteq> md \<or> k' \<notin> fst ` set kes \<longrightarrow> old_status m' md' k' = old_status m md' k')"
  using assms
proof (induction kes arbitrary: m ch)
  case (Cons ke kes)
  obtain m1 ch1 where p: "process_entry env md ke (m, ch) = (m1, ch1)" by fastforce
  note e = process_entry_effect [OF p]
  have d: "distinct (map fst kes)" and new: "fst ke \<notin> fst ` set kes" using Cons.prems(1) by auto
  have f: "fold (process_entry env md) kes (m1, ch1) = (m', ch')" using Cons.prems(2) p by simp
  note IH = Cons.IH [OF d f]
  have same: "old_status m1 md (fst x) = old_status m md (fst x)" if "x \<in> set kes" for x
    using that new e(3) by (metis Pair_inject image_eqI)
  have a: "map (entry_alert env md m1) kes = map (entry_alert env md m) kes"
    using same by (auto simp: entry_alert_def split: prod.split)
  have s: "settled m1 md x = settled m md x" if "x \<in> set kes" for x using same that by (simp add: settled_def)
  have "settled m' md ke" using IH e(4) new by (auto simp: settled_def)
  then show ?case using IH e a s by auto
qed simp



text \<open>A state that goes on is announced once: processing the same results again raises
  no alert and reports no change.\<close>

theorem monitor_quiet:
  assumes "dict_wf (rc_list r)"
  shows "let m1 = fst (process_module_result env md r False m); (m2, changed) = process_module_result env md r False m1
     in m_alerts m2 = m_alerts m1 \<and> \<not> changed"
proof -
  have d: "distinct (map fst (rc_list r))" using assms by (simp add: dict_wf_def)
  obtain m1 ch1 where f1: "fold (process_entry env md) (rc_list r) (m, False) = (m1, ch1)" by fastforce
  obtain m2 ch2 where f2: "fold (process_entry env md) (rc_list r) (m1, False) = (m2, ch2)" by fastforce
  have s: "\<forall>ke \<in> set (rc_list r). settled m1 md ke" using process_entries [OF d f1] by blast
  have "entry_alert env md m1 ke = []" if "ke \<in> set (rc_list r)" for ke
    using s that by (auto simp: entry_alert_def settled_def split: prod.split)
  then have "concat (map (entry_alert env md m1) (rc_list r)) = []" by simp
  then show ?thesis using process_entries [OF d f2] s by (simp add: process_module_result_def f1 f2)
qed

theorem monitor_quiet_witness:
  "\<not> snd (process_module_result \<lparr>en_modules = CDict [], en_devices = None, en_events = None, en_notifier = True\<rparr> ''ping''
      (snd (rc_set rc_empty ''srv1'' False ''down'' True [] None [])) False
      (fst (process_module_result \<lparr>en_modules = CDict [], en_devices = None, en_events = None, en_notifier = True\<rparr> ''ping''
      (snd (rc_set rc_empty ''srv1'' False ''down'' True [] None [])) False
        \<lparr>m_status = \<lparr>cfg_data = CDict [], cfg_dirty = False\<rparr>, m_alerts = [], m_counts_dirty = False\<rparr>)))"
proof -
  have wf: "dict_wf (rc_list (snd (rc_set rc_empty ''srv1'' False ''down'' True [] None [])))" by code_simp
  show ?thesis using monitor_quiet [OF wf] by (simp add: case_prod_beta Let_def)
qed

section \<open>Pruning\<close>

definition mod_wf :: "string \<Rightarrow> mon \<Rightarrow> bool" where
  "mod_wf md m = (\<forall>es. look (tree m) [md] = Some (CDict es) \<longrightarrow> dict_wf es)"

lemma dict_wf_single [simp]: "dict_wf [x]"
  by (simp add: dict_wf_def)

lemma put_dict_wf:
  "\<forall>es. x = CDict es \<longrightarrow> dict_wf es \<Longrightarrow> put x (k # ks) v = CDict es \<Longrightarrow> dict_wf es"
  unfolding put.simps(2) [of x k ks v] by (cases x) auto

lemma look_one: "look w [k] = (case w of CDict d \<Rightarrow> map_of d k | _ \<Rightarrow> None)"
  unfolding look.simps(2) by (cases w) (auto split: option.split)

lemma put_wf:
  assumes "\<forall>es. look w [md] = Some (CDict es) \<longrightarrow> dict_wf es"
  shows "\<forall>es. look (put w (md # k # ks) v) [md] = Some (CDict es) \<longrightarrow> dict_wf es"
proof -
  let ?x = "case w of CDict d \<Rightarrow> dget d md (CDict []) | _ \<Rightarrow> CDict []"
  have x: "\<forall>es. ?x = CDict es \<longrightarrow> dict_wf es"
    using assms by (cases w) (auto simp: look_one dget_def split: option.split)
  have "look (put w (md # k # ks) v) [md] = Some (case w of CDict d \<Rightarrow> put ?x (k # ks) v | _ \<Rightarrow> CDict [(k, nest ks v)])"
    unfolding put.simps(2) [of w md] look_one by (cases w) (auto simp: dict_simps)
  then show ?thesis using put_dict_wf [OF x, of k ks v] by (cases w) auto
qed

lemma tree_st_set: "tree (st_set (k # ks) v m) = put (tree m) (k # ks) v"
  by (simp add: st_set_put)

lemma mod_wf_st_set: "mod_wf md m \<Longrightarrow> mod_wf md (st_set (md # k # ks) v m)"
  unfolding mod_wf_def tree_st_set by (rule put_wf)

lemma mod_wf_alerts [simp]: "mod_wf md (m\<lparr>m_alerts := as\<rparr>) = mod_wf md m"
  by (simp add: mod_wf_def)

lemma mod_wf_process_entry: "mod_wf md m \<Longrightarrow> mod_wf md (fst (process_entry env md ke (m, ch)))"
  by (simp add: process_entry_eq Let_def refreshed_def mod_wf_st_set)

lemma mod_wf_process: "mod_wf md m \<Longrightarrow> mod_wf md (fst (fold (process_entry env md) kes (m, ch)))"
proof (induction kes arbitrary: m ch)
  case (Cons ke kes)
  obtain m1 ch1 where p: "process_entry env md ke (m, ch) = (m1, ch1)" by fastforce
  have "mod_wf md m1" using mod_wf_process_entry [OF Cons.prems, of env ke ch] p by simp
  from Cons.IH [OF this, of ch1] show ?case using p by simp
qed simp

lemma look_delete_all:
  "map_of (fold AList.delete ks es) k = (if k \<in> set ks then None else map_of es k)"
  by (induction ks arbitrary: es) (auto simp: dict_simps)

definition orphans_of :: "string \<Rightarrow> check_result \<Rightarrow> mon \<Rightarrow> string list" where
  "orphans_of md r m = (case look (tree m) [md] of Some (CDict es) \<Rightarrow> map fst (filter (is_orphan r) es) | _ \<Rightarrow> [])"

lemma look_two: "look w [a, b] = (case look w [a] of Some v \<Rightarrow> look v [b] | None \<Rightarrow> None)"
  by (cases w) (auto simp: look.simps(2) split: option.split)

lemma prune_look:
  "look (tree (fst (prune_orphans env md r m))) [md', k] =
     (if md' = md \<and> k \<in> set (orphans_of md r m) then None else look (tree m) [md', k])"
proof (cases "\<exists>es. look (tree m) [md] = Some (CDict es)")
  case True
  then obtain ms es where t: "tree m = CDict ms" "map_of ms md = Some (CDict es)"
    by (auto simp: look.simps(2) split: cval.splits option.splits)
  then show ?thesis
    by (auto simp: prune_orphans_def orphans_of_def look_two look.simps(2) dict_simps look_delete_all Let_def
        simp del: set_map set_filter split: option.split)
next
  case False
  then have "fst (prune_orphans env md r m) = m" "orphans_of md r m = []"
    by (auto simp: prune_orphans_def orphans_of_def look.simps(2) split: cval.splits option.splits)
  then show ?thesis by simp
qed

lemma mem_orphans:
  assumes "mod_wf md m" "look (tree m) [md, k] = Some e"
  shows "k \<in> set (orphans_of md r m) \<longleftrightarrow> is_orphan r (k, e)"
proof -
  obtain es where es: "look (tree m) [md] = Some (CDict es)" "map_of es k = Some e"
    using assms(2) unfolding look_two by (auto simp: look.simps(2) split: option.splits cval.splits)
  then have wf: "dict_wf es" using assms(1) by (simp add: mod_wf_def)
  have "(k, e') \<in> set es \<longleftrightarrow> e' = e" for e' using dict_wf_map_of [OF wf, of k e'] es(2) by auto
  then show ?thesis by (force simp: orphans_of_def es(1))
qed

text \<open>C14. What a module stops reporting is dropped, and nothing else is: after a full run a
  recorded result is one the run reported or kept; a bookkeeping entry (a failure streak) stands
  while any part of its item is reported; no other module is touched; and a run narrowed to one
  device drops nothing.\<close>

theorem monitor_prune_exact:
  assumes "mod_wf md m"
  shows "let m1 = fst (process_module_result env md r False m); m' = fst (process_module_result env md r True m) in
     (\<forall>k f. look (tree m') [md, k] = Some (CDict f) \<and> map_of f ''status'' \<noteq> None \<longrightarrow> rc_exists r k \<or> is_kept r k)
     \<and> (\<forall>k. rc_exists r k \<or> is_kept r k \<longrightarrow> look (tree m') [md, k] = look (tree m1) [md, k])
     \<and> (\<forall>k f. look (tree m1) [md, k] = Some (CDict f) \<and> map_of f ''status'' = None \<and>
          head_part k \<in> head_part ` set (rc_keys r) \<longrightarrow> look (tree m') [md, k] = Some (CDict f))
     \<and> (\<forall>md' k. md' \<noteq> md \<longrightarrow> look (tree m') [md', k] = look (tree m1) [md', k])"
proof -
  obtain m1 ch where f: "fold (process_entry env md) (rc_list r) (m, False) = (m1, ch)" by fastforce
  have wf: "mod_wf md m1" using mod_wf_process [OF assms, of env "rc_list r" False] f by simp
  have m1: "fst (process_module_result env md r False m) = m1" by (simp add: process_module_result_def f)
  have m': "fst (process_module_result env md r True m) = fst (prune_orphans env md r m1)"
    by (simp add: process_module_result_def f case_prod_beta)
  note pl = prune_look [of env md r m1]
  have orphan: "k \<in> set (orphans_of md r m1) \<longleftrightarrow> (\<exists>e. look (tree m1) [md, k] = Some e \<and> is_orphan r (k, e))" for k
  proof
    assume k: "k \<in> set (orphans_of md r m1)"
    then obtain es b where es: "look (tree m1) [md] = Some (CDict es)" "(k, b) \<in> set es"
      by (auto simp: orphans_of_def split: option.splits cval.splits dest: sym)
    then have "map_of es k \<noteq> None" using weak_map_of_SomeI by fastforce
    then have "look (tree m1) [md, k] \<noteq> None" using es(1) by (simp add: look_two look_one)
    then show "\<exists>e. look (tree m1) [md, k] = Some e \<and> is_orphan r (k, e)" using mem_orphans [OF wf] k by auto
  qed (use mem_orphans [OF wf] in blast)
  show ?thesis unfolding m1 m' Let_def pl
    using orphan by (auto simp: is_orphan_def split: if_splits)
qed

theorem monitor_prune_exact_witness:
  "let env = \<lparr>en_modules = CDict [], en_devices = None, en_events = None, en_notifier = True\<rparr>;
       r = snd (rc_set rc_empty ''srv1'' True ''up'' True [] None []);
       m = \<lparr>m_status = \<lparr>cfg_data = CDict [(''ping'', CDict [(''old'', CDict [(''status'', CBool False)])])], cfg_dirty = False\<rparr>,
            m_alerts = [], m_counts_dirty = False\<rparr>
   in \<forall>k f. look (tree (fst (process_module_result env ''ping'' r True m))) [''ping'', k] = Some (CDict f)
        \<and> map_of f ''status'' \<noteq> None \<longrightarrow> rc_exists r k \<or> is_kept r k"
proof -
  let ?m = "\<lparr>m_status = \<lparr>cfg_data = CDict [(''ping'', CDict [(''old'', CDict [(''status'', CBool False)])])], cfg_dirty = False\<rparr>,
            m_alerts = [], m_counts_dirty = False\<rparr>"
  have wf: "mod_wf ''ping'' ?m" by (simp add: mod_wf_def look_one)
  show ?thesis unfolding Let_def by (rule monitor_prune_exact [OF wf, unfolded Let_def, THEN conjunct1])
qed

section \<open>Delivery\<close>



text \<open>
  The one way round the mark: the recovery announced for a pruned failure is added without it,
  whoever reported the parts. A simulated item whose failure was recorded under its bare key and
  whose parts answer next raises an alert that is delivered.
\<close>

lemma simulated_recovery_is_delivered:
  "let env = \<lparr>en_modules = CDict [], en_devices = None, en_events = None, en_notifier = True\<rparr>;
       r1 = snd (rc_set rc_empty ''srv'' False ''down'' True [(''_simulated'', CStr ''demo'')] None []);
       r2 = snd (rc_set rc_empty ''srv_ram'' True ''ok'' True [(''_simulated'', CStr ''demo'')] None []);
       m0 = \<lparr>m_status = \<lparr>cfg_data = CDict [], cfg_dirty = False\<rparr>, m_alerts = [], m_counts_dirty = False\<rparr>;
       m1 = fst (process_module_result env ''ram_swap'' r1 True m0);
       m2 = fst (process_module_result env ''ram_swap'' r2 True (m1\<lparr>m_alerts := []\<rparr>))
   in map al_kind (deliverable (m_alerts m1)) = [] \<and> map al_kind (deliverable (m_alerts m2)) = [''recovery'']"
  by code_simp

section \<open>Failure streaks\<close>

fun trailing :: "int \<Rightarrow> bool list \<Rightarrow> int" where
  "trailing p [] = p"
| "trailing p (b # bs) = trailing (if b then p + 1 else 0) bs"

lemma fail_streak_step:
  assumes "look (tree m) [md, k, ''fail_count''] = Some (CInt p)"
  shows "fst (fail_streak m md k b) = (if b then p + 1 else 0)
    \<and> look (tree (snd (fail_streak m md k b))) [md, k, ''fail_count''] = Some (CInt (if b then p + 1 else 0))
    \<and> m_counts_dirty (snd (fail_streak m md k b)) = (m_counts_dirty m \<or> (if b then p + 1 else 0) \<noteq> p)"
proof -
  have "st_get m [md, k, ''fail_count''] (CInt 0) = CInt p"
    using get_conf_look [OF assms] by (simp add: st_get_def)
  moreover have "look (put (tree m) [md, k, ''fail_count''] (CInt n)) [md, k, ''fail_count''] = Some (CInt n)" for n
    by (rule look_put_scalar) simp
  ultimately show ?thesis using assms by (auto simp: fail_streak_def Let_def tree_st_set int_value_def)
qed

text \<open>The failure streak of a check is the number of its last consecutive failures: over
  any sequence of outcomes the counter grows by one with each failure and starts over at zero
  with each success, and a counter that moved is flagged to be saved even when no status did.\<close>

theorem fail_streak_counts:
  assumes "look (tree m) [md, k, ''fail_count''] = Some (CInt p)"
  shows "let m' = foldl (\<lambda>m b. snd (fail_streak m md k b)) m bs in
     look (tree m') [md, k, ''fail_count''] = Some (CInt (trailing p bs))
     \<and> fst (fail_streak m' md k b) = trailing p (bs @ [b])
     \<and> (trailing p bs \<noteq> p \<longrightarrow> m_counts_dirty m')"
  using assms
proof (induction bs arbitrary: m p)
  case Nil
  then show ?case using fail_streak_step [OF Nil] by simp
next
  case (Cons c bs)
  note st = fail_streak_step [OF Cons.prems, of c]
  let ?m1 = "snd (fail_streak m md k c)" and ?p1 = "if c then p + 1 else 0"
  have dirty: "m_counts_dirty n \<Longrightarrow> m_counts_dirty (foldl (\<lambda>m b. snd (fail_streak m md k b)) n cs)" for n cs
    by (induction cs arbitrary: n) (auto simp: fail_streak_def Let_def)
  have IH: "let m' = foldl (\<lambda>m b. snd (fail_streak m md k b)) ?m1 bs in
     look (tree m') [md, k, ''fail_count''] = Some (CInt (trailing ?p1 bs))
     \<and> fst (fail_streak m' md k b) = trailing ?p1 (bs @ [b])
     \<and> (trailing ?p1 bs \<noteq> ?p1 \<longrightarrow> m_counts_dirty m')"
    by (rule Cons.IH) (use st in blast)
  show ?case using IH st dirty [of ?m1 bs] unfolding Let_def foldl_Cons trailing.simps append_Cons by metis
qed

theorem fail_streak_counts_witness:
  "fst (fail_streak (foldl (\<lambda>m b. snd (fail_streak m ''ping'' ''srv1'' b))
       \<lparr>m_status = \<lparr>cfg_data = CDict [(''ping'', CDict [(''srv1'', CDict [(''fail_count'', CInt 4)])])], cfg_dirty = False\<rparr>,
        m_alerts = [], m_counts_dirty = False\<rparr> [True, False, True]) ''ping'' ''srv1'' True) = 2"
proof -
  let ?m = "\<lparr>m_status = \<lparr>cfg_data = CDict [(''ping'', CDict [(''srv1'', CDict [(''fail_count'', CInt 4)])])], cfg_dirty = False\<rparr>,
        m_alerts = [], m_counts_dirty = False\<rparr>"
  have p: "look (tree ?m) [''ping'', ''srv1'', ''fail_count''] = Some (CInt 4)" by code_simp
  show ?thesis using fail_streak_counts [OF p, of "[True, False, True]" True] by (simp add: Let_def)
qed

section \<open>Maintenance\<close>

lemma map_of_filter_key: "map_of (filter (\<lambda>(k, e). \<not> P k) es) k = (if P k then None else map_of es k)"
  by (induction es) auto

definition entry_of :: "(string \<times> cval) list \<Rightarrow> string \<Rightarrow> string \<Rightarrow> cval option" where
  "entry_of ms md k = (case map_of ms md of Some (CDict es) \<Rightarrow> map_of es k | _ \<Rightarrow> None)"

lemma look_entry: "look (CDict ms) [md, k] = entry_of ms md k"
  by (auto simp: look_two look_one entry_of_def split: option.split cval.split)

lemma purge_modules_entry:
  "distinct (map fst cfg) \<Longrightarrow> entry_of (fst (purge_modules uids cfg ms)) md k =
     (if (\<exists>mcfg. map_of cfg md = Some mcfg \<and> bound_items uids mcfg \<noteq> [] \<and> purged (bound_items uids mcfg) k)
      then None else entry_of ms md k)"
proof (induction cfg arbitrary: ms)
  case (Cons mc cfg)
  obtain mname mcfg where mc: "mc = (mname, mcfg)" by (cases mc)
  let ?items = "bound_items uids mcfg"
  have d: "distinct (map fst cfg)" and out: "map_of cfg mname = None"
    using Cons.prems by (auto simp: map_of_eq_None_iff mc)
  note IH = Cons.IH [OF d]
  show ?case
  proof (cases "\<exists>es. ?items \<noteq> [] \<and> map_of ms mname = Some (CDict es)")
    case True
    then obtain es where es: "?items \<noteq> []" "map_of ms mname = Some (CDict es)" by blast
    let ?ms = "AList.update mname (CDict (filter (\<lambda>(k, e). \<not> purged ?items k) es)) ms"
    have "fst (purge_modules uids ((mname, mcfg) # cfg) ms) = fst (purge_modules uids cfg ?ms)"
      using es by (simp add: Let_def case_prod_beta)
    moreover have "entry_of ?ms md k = (if md = mname \<and> purged ?items k then None else entry_of ms md k)"
      using es by (auto simp: entry_of_def dict_simps map_of_filter_key)
    moreover have "entry_of (fst (purge_modules uids cfg ?ms)) md k =
      (if (\<exists>mcfg. map_of cfg md = Some mcfg \<and> bound_items uids mcfg \<noteq> [] \<and> purged (bound_items uids mcfg) k)
       then None else entry_of ?ms md k)"
      by (rule IH)
    ultimately show ?thesis using out es by (auto simp: mc)
  next
    case False
    then have "purge_modules uids ((mname, mcfg) # cfg) ms = purge_modules uids cfg ms"
      by (auto simp: Let_def split: option.split cval.split)
    moreover have "entry_of ms mname k = None" if "?items \<noteq> []"
      using that False by (auto simp: entry_of_def split: option.split cval.split)
    moreover have "entry_of (fst (purge_modules uids cfg ms)) md k =
      (if (\<exists>mcfg. map_of cfg md = Some mcfg \<and> bound_items uids mcfg \<noteq> [] \<and> purged (bound_items uids mcfg) k)
       then None else entry_of ms md k)"
      by (rule IH)
    ultimately show ?thesis using out by (auto simp: mc)
  qed
qed simp

text \<open>A check bound to a device in maintenance has no live status: the purge drops, in every
  module, the entries of the bound items and their \<^verbatim>\<open>_\<close>-suffixed parts, and leaves every other
  entry of every module as it was.\<close>

theorem maintenance_purge_exact:
  assumes "en_modules env = CDict cfg" "dict_wf cfg" "tree m = CDict ms" "map_of cfg md = Some mcfg"
  shows "look (tree (fst (purge_maintenance env m))) [md, k] =
    (if purged (bound_items (maint_uids env) mcfg) k then None else look (tree m) [md, k])"
proof (cases "maint_uids env = []")
  case True
  have "bound_items [] mcfg = []"
    by (auto simp: bound_items_def filter_empty_conv split: cval.splits) (metis cval.exhaust)+
  then have "bound_items (maint_uids env) mcfg = []" using True by simp
  then show ?thesis using True by (simp add: purge_maintenance_def purged_def)
next
  case False
  have "look (tree (fst (purge_maintenance env m))) [md, k] = entry_of (fst (purge_modules (maint_uids env) cfg ms)) md k"
    using False assms(1,3) by (simp add: purge_maintenance_def Let_def case_prod_beta look_entry)
  also have "\<dots> = (if purged (bound_items (maint_uids env) mcfg) k then None else entry_of ms md k)"
    using assms(2,4) by (auto simp: purge_modules_entry dict_wf_def purged_def)
  finally show ?thesis using assms(3) by (simp add: look_entry)
qed

theorem maintenance_purge_exact_witness:
  "let env = \<lparr>en_modules = CDict [(''ping'', CDict [(''list'', CDict [(''srv1'', CDict [(''device_uid'', CStr ''d1'')])])])],
              en_devices = Some [(''d1'', ''web'', True)], en_events = None, en_notifier = True\<rparr>;
       m = \<lparr>m_status = \<lparr>cfg_data = CDict [(''ping'', CDict [(''srv1_ram'', CDict [(''status'', CBool True)])])], cfg_dirty = False\<rparr>,
            m_alerts = [], m_counts_dirty = False\<rparr>
   in look (tree (fst (purge_maintenance env m))) [''ping'', ''srv1_ram''] = None"
proof -
  let ?mcfg = "CDict [(''list'', CDict [(''srv1'', CDict [(''device_uid'', CStr ''d1'')])])]"
  let ?env = "\<lparr>en_modules = CDict [(''ping'', ?mcfg)],
              en_devices = Some [(''d1'', ''web'', True)], en_events = None, en_notifier = True\<rparr>"
  let ?m = "\<lparr>m_status = \<lparr>cfg_data = CDict [(''ping'', CDict [(''srv1_ram'', CDict [(''status'', CBool True)])])], cfg_dirty = False\<rparr>,
            m_alerts = [], m_counts_dirty = False\<rparr>"
  have p: "purged (bound_items (maint_uids ?env) ?mcfg) ''srv1_ram''" by code_simp
  show ?thesis unfolding Let_def
    using maintenance_purge_exact [of ?env "[(''ping'', ?mcfg)]" ?m _ "''ping''" ?mcfg "''srv1_ram''"] p by simp
qed

text \<open>A part under a slash is none of the purge's keys.\<close>

lemma purge_misses_composite_keys: "\<not> purged [''srv1''] ''srv1/site''"
  by code_simp

end
