(* ===== verification/Check_State.thy ===== *)
theory Check_State
  imports Monitor
begin

text \<open>
  \<^verbatim>\<open>lib/services/monitoring/check_state/store.py\<close>: the table behind the monitor's working state, one
  row per check. A table is a list of rows; the two uniqueness constraints (the row's own \<open>uid\<close>
  and the triple of module, key and metric) are checked on insertion, and a write that breaks
  one is rolled back. \<^verbatim>\<open>uuid4\<close> is an argument, \<^verbatim>\<open>json.dumps\<close> and \<^verbatim>\<open>json.loads\<close> are inverse.
\<close>

record cs_row =
  k_uid :: string
  k_module :: string
  k_key :: string
  k_item :: "string option"
  k_metric :: string
  k_status :: bool
  k_message :: "string option"
  k_other :: "(string \<times> cval) list"
  k_fail :: int
  k_ts :: time
  k_severity :: string
  k_state :: "(string \<times> cval) list"

type_synonym pk = "string \<times> string \<times> string"

definition pk_of :: "cs_row \<Rightarrow> pk" where
  "pk_of r = (k_module r, k_key r, k_metric r)"

section \<open>Result keys\<close>

text \<open>\<^verbatim>\<open>rsplit('_', 1)[1]\<close>.\<close>

definition rsplit_tail :: "string \<Rightarrow> string" where
  "rsplit_tail s = rev (takeWhile (\<lambda>c. c \<noteq> CHR ''_'') (rev s))"

text \<open>A resolver answers the item a key belongs to; \<open>None\<close> and the empty text are no answer.\<close>

type_synonym resolver = "string \<Rightarrow> string \<Rightarrow> string option"

definition resolve :: "resolver option \<Rightarrow> string \<Rightarrow> string \<Rightarrow> string option" where
  "resolve rs md k = (case rs of None \<Rightarrow> None
     | Some f \<Rightarrow> (case f md k of Some u \<Rightarrow> if u = [] then None else Some u | None \<Rightarrow> None))"

definition split_key :: "resolver option \<Rightarrow> string \<Rightarrow> string \<Rightarrow> string \<times> string \<times> string option" where
  "split_key rs md k =
     (case resolve rs md k of
        None \<Rightarrow> (k, [], None)
      | Some u \<Rightarrow>
          let hd_part = head_part k; tl_part = drop (length hd_part + 1) k
          in if CHR ''/'' \<in> set k \<and> tl_part \<noteq> [] \<and> resolve rs md hd_part = Some u
             then (u, CHR ''/'' # tl_part, Some u)
             else let base = rsplit_head k
                  in if base \<noteq> k \<and> resolve rs md base = Some u then (u, rsplit_tail k, Some u)
                     else (u, [], Some u))"

definition join_key :: "string \<Rightarrow> string \<Rightarrow> string" where
  "join_key k metric =
     (if metric = [] then k else if hd metric = CHR ''/'' then k @ metric else k @ ''_'' @ metric)"

section \<open>Reading\<close>

definition get_all :: "cs_row list \<Rightarrow> string option \<Rightarrow> (pk, cs_row) dict" where
  "get_all t md =
     fold (\<lambda>r d. AList.update (pk_of r) r d)
       (filter (\<lambda>r. case md of None \<Rightarrow> True | Some m \<Rightarrow> m = [] \<or> k_module r = m) t) []"

definition status_entry :: "cs_row \<Rightarrow> cval" where
  "status_entry r = CDict
     [(''status'', CBool (k_status r)), (''severity'', CStr (k_severity r)), (''other_data'', CDict (k_other r)),
      (''fail_count'', CInt (k_fail r)), (''message'', CStr (opt (k_message r) [])), (''ts'', CFloat (k_ts r)),
      (''item_uid'', case k_item r of Some u \<Rightarrow> CStr u | None \<Rightarrow> CNone), (''metric'', CStr (k_metric r)),
      (''uid'', CStr (k_uid r)), (''module_state'', CDict (k_state r))]"

definition as_status_dict :: "cs_row list \<Rightarrow> (string, (string, cval) dict) dict" where
  "as_status_dict t =
     fold (\<lambda>(pk, r) out. AList.update (k_module r)
             (AList.update (join_key (k_key r) (k_metric r)) (status_entry r) (dget out (k_module r) [])) out)
       (get_all t None) []"

section \<open>Writing\<close>

definition dict_field :: "(string \<times> cval) list \<Rightarrow> string \<Rightarrow> (string \<times> cval) list" where
  "dict_field f k = (case dget f k CNone of CDict d \<Rightarrow> d | _ \<Rightarrow> [])"

definition str_field :: "(string \<times> cval) list \<Rightarrow> string \<Rightarrow> string option" where
  "str_field f k = (case dget f k CNone of CStr s \<Rightarrow> Some s | _ \<Rightarrow> None)"

text \<open>
  One result as a row: the identity of the row it replaces is kept, and so is the time of the last
  change while the status is the same.
\<close>

definition row_for ::
  "string \<Rightarrow> resolver option \<Rightarrow> (pk, cs_row) dict \<Rightarrow> time \<Rightarrow> string \<Rightarrow> string \<Rightarrow> (string \<times> cval) list \<Rightarrow> cs_row" where
  "row_for md rs existing now fresh k f =
     (let (key, metric, item) = split_key rs md k;
          item = (case item of Some u \<Rightarrow> Some u | None \<Rightarrow> str_field f ''item_uid'');
          status = truthy (dget f ''status'' CNone);
          ex = map_of existing (md, key, metric);
          own = (case dget f ''last_change_ts'' CNone of CFloat x \<Rightarrow> if x = 0 then now else x
                 | CInt n \<Rightarrow> if n = 0 then now else of_int n | _ \<Rightarrow> now);
          ts = (case ex of Some r \<Rightarrow> if k_status r = status \<and> k_ts r \<noteq> 0 then k_ts r else own | None \<Rightarrow> own)
      in \<lparr>k_uid = (case ex of Some r \<Rightarrow> if k_uid r = [] then fresh else k_uid r | None \<Rightarrow> fresh),
          k_module = md, k_key = key, k_item = item, k_metric = metric, k_status = status,
          k_message = str_field f ''message'', k_other = dict_field f ''other_data'',
          k_fail = int_value (dget f ''fail_count'' CNone), k_ts = ts,
          k_severity = norm_severity (str_field f ''severity'') status,
          k_state = dict_field f ''module_state''\<rparr>)"

text \<open>\<open>fresh\<close> is the supply of new identifiers, one for each result key.\<close>

definition rows_for ::
  "string \<Rightarrow> (string \<times> cval) list \<Rightarrow> (pk, cs_row) dict \<Rightarrow> resolver option \<Rightarrow> time \<Rightarrow> (string \<Rightarrow> string) \<Rightarrow> (pk, cs_row) dict" where
  "rows_for md checks existing rs now fresh =
     fold (\<lambda>(k, v) d. case v of
         CDict f \<Rightarrow> let r = row_for md rs existing now (fresh k) k f in AList.update (pk_of r) r d
       | _ \<Rightarrow> d) checks []"

definition rows_ok :: "cs_row list \<Rightarrow> bool" where
  "rows_ok t = (distinct (map k_uid t) \<and> distinct (map pk_of t))"

definition persist_module ::
  "cs_row list \<Rightarrow> string \<Rightarrow> (string \<times> cval) list \<Rightarrow> resolver option \<Rightarrow> time \<Rightarrow> (string \<Rightarrow> string) \<Rightarrow> bool \<times> cs_row list" where
  "persist_module t md0 checks rs now fresh =
     (let md = py_strip md0
      in if md = [] then (False, t)
         else let rows = rows_for md checks (get_all t (Some md)) rs now fresh;
                  t' = filter (\<lambda>r. k_module r \<noteq> md) t @ map snd rows
              in if rows_ok t' then (True, t') else (False, t))"

definition persist_status ::
  "cs_row list \<Rightarrow> (string \<times> cval) list \<Rightarrow> resolver option \<Rightarrow> time \<Rightarrow> (string \<Rightarrow> string \<Rightarrow> string) \<Rightarrow> bool \<times> cs_row list" where
  "persist_status t data rs now fresh =
     (let existing = get_all t None;
          rows = fold (\<lambda>(md, v) d. case v of
                    CDict checks \<Rightarrow> AList.updates (map fst (rows_for md checks existing rs now (fresh md)))
                                      (map snd (rows_for md checks existing rs now (fresh md))) d
                  | _ \<Rightarrow> d) data [];
          t' = map snd rows
      in if rows_ok t' then (True, t') else (False, t))"

text \<open>\<^verbatim>\<open>set\<close>: one row replaced; its own state is kept unless the caller gives one.\<close>

definition cs_set ::
  "cs_row list \<Rightarrow> string \<Rightarrow> string \<Rightarrow> bool \<Rightarrow> string option \<Rightarrow> string option \<Rightarrow> string \<Rightarrow> (string \<times> cval) list
    \<Rightarrow> int \<Rightarrow> time \<Rightarrow> string option \<Rightarrow> (string \<times> cval) list option \<Rightarrow> string \<Rightarrow> bool \<times> cs_row list" where
  "cs_set t md key status message item metric other fails ts severity state fresh =
     (let ex = find (\<lambda>r. pk_of r = (md, key, metric)) t;
          r = \<lparr>k_uid = (case ex of Some r \<Rightarrow> if k_uid r = [] then fresh else k_uid r | None \<Rightarrow> fresh),
               k_module = md, k_key = key, k_item = item, k_metric = metric, k_status = status,
               k_message = message, k_other = other, k_fail = fails, k_ts = ts,
               k_severity = norm_severity severity status,
               k_state = (case state of Some d \<Rightarrow> d | None \<Rightarrow> (case ex of Some r \<Rightarrow> k_state r | None \<Rightarrow> []))\<rparr>;
          t' = filter (\<lambda>r. pk_of r \<noteq> (md, key, metric)) t @ [r]
      in if rows_ok t' then (True, t') else (False, t))"

definition cs_delete :: "cs_row list \<Rightarrow> string \<Rightarrow> string \<Rightarrow> cs_row list" where
  "cs_delete t md key = filter (\<lambda>r. \<not> (k_module r = md \<and> k_key r = key)) t"

definition cs_count :: "cs_row list \<Rightarrow> nat" where
  "cs_count t = length t"

definition cs_clear :: "cs_row list \<Rightarrow> cs_row list" where
  "cs_clear t = []"

section \<open>Splitting and joining a key\<close>

lemma head_part_append: "CHR ''/'' \<notin> set u \<Longrightarrow> head_part (u @ CHR ''/'' # t) = u"
  by (induction u) (auto simp: head_part_def)

lemma rsplit_suffix:
  "CHR ''_'' \<notin> set s \<Longrightarrow> rsplit_head (u @ CHR ''_'' # s) = u \<and> rsplit_tail (u @ CHR ''_'' # s) = s"
proof -
  assume s: "CHR ''_'' \<notin> set s"
  have "takeWhile (\<lambda>c. c \<noteq> CHR ''_'') (rev s @ CHR ''_'' # rev u) = rev s"
    "dropWhile (\<lambda>c. c \<noteq> CHR ''_'') (rev s @ CHR ''_'' # rev u) = CHR ''_'' # rev u"
    using s by (auto simp: takeWhile_append dropWhile_append)
  then show ?thesis by (simp add: rsplit_head_def rsplit_tail_def)
qed

text \<open>What a module reports under is what it reads back: for an item the resolver knows under
  its own identifier, a result key that is the item's, a part under a slash, or a part after an
  underscore splits into the item and a metric that join to the same key; without a resolver
  every key is its own.\<close>

theorem split_join_key:
  assumes "u \<noteq> []" "CHR ''/'' \<notin> set u" "rs md u = Some u"
    and "k = u \<and> \<not> (\<exists>b. rsplit_head u = b \<and> b \<noteq> u \<and> rs md b = Some u)
         \<or> (\<exists>t. t \<noteq> [] \<and> k = u @ CHR ''/'' # t)
         \<or> (\<exists>s. s \<noteq> [] \<and> CHR ''_'' \<notin> set s \<and> CHR ''/'' \<notin> set s \<and> k = u @ CHR ''_'' # s)"
    and "rs md k = Some u"
  shows "(let (key, metric, item) = split_key (Some rs) md k in
       join_key key metric = k \<and> key = u \<and> item = Some u)
     \<and> (let (key, metric, item) = split_key None md k in join_key key metric = k)"
proof -
  have res: "resolve (Some rs) md u = Some u" "resolve (Some rs) md k = Some u"
    using assms(1,3,5) by (simp_all add: resolve_def)
  consider (own) "k = u" "\<not> (rsplit_head u \<noteq> u \<and> rs md (rsplit_head u) = Some u)"
    | (slash) t where "t \<noteq> []" "k = u @ CHR ''/'' # t"
    | (part) s where "s \<noteq> []" "CHR ''_'' \<notin> set s" "CHR ''/'' \<notin> set s" "k = u @ CHR ''_'' # s"
    using assms(4) by blast
  then have "let (key, metric, item) = split_key (Some rs) md k in join_key key metric = k \<and> key = u \<and> item = Some u"
  proof cases
    case own
    then show ?thesis using assms res
      by (auto simp: split_key_def Let_def join_key_def resolve_def split: option.splits if_splits)
  next
    case slash
    then show ?thesis using assms(2) res
      by (simp add: split_key_def head_part_append join_key_def)
  next
    case part
    have "hd s \<noteq> CHR ''/''" using part(1,3) hd_in_set by metis
    then show ?thesis using part assms(2) res rsplit_suffix [OF part(2), of u]
      by (auto simp: split_key_def join_key_def Let_def)
  qed
  then show ?thesis by (simp add: split_key_def resolve_def join_key_def)
qed

theorem split_join_key_witness:
  "fst (split_key (Some (\<lambda>md k. Some ''i1'')) ''ram_swap'' ''i1_ram'') = ''i1''"
  using split_join_key [of "''i1''" "\<lambda>md k. Some ''i1''" "''ram_swap''" "''i1_ram''"]
  by (auto simp: case_prod_beta Let_def)

section \<open>Saving a module\<close>

lemma get_all_from:
  "map_of (fold (\<lambda>r d. AList.update (pk_of r) r d) rs d) p = Some r \<Longrightarrow>
   r \<in> set rs \<and> pk_of r = p \<or> map_of d p = Some r"
  by (induction rs arbitrary: d) (fastforce simp: dict_simps split: if_splits)+

lemma get_all_notin:
  "p \<notin> pk_of ` set rs \<Longrightarrow> map_of (fold (\<lambda>r d. AList.update (pk_of r) r d) rs d) p = map_of d p"
  by (induction rs arbitrary: d) (auto simp: dict_simps)

lemma get_all_in:
  "distinct (map pk_of rs) \<Longrightarrow> r \<in> set rs \<Longrightarrow> map_of (fold (\<lambda>r d. AList.update (pk_of r) r d) rs d) (pk_of r) = Some r"
  by (induction rs arbitrary: d) (auto simp: get_all_notin dict_simps)

lemma get_all_module:
  assumes "rows_ok t" "md \<noteq> []"
  shows "map_of (get_all t (Some md)) p = Some r \<longleftrightarrow> r \<in> set t \<and> pk_of r = p \<and> k_module r = md"
proof -
  have "distinct (map pk_of (filter (\<lambda>r. k_module r = md) t))"
    using assms(1) by (auto simp: rows_ok_def intro: distinct_map_filter_fst)
  from get_all_in [OF this, of r "[]"] show ?thesis
    using get_all_from [of "filter (\<lambda>r. k_module r = md) t" "[]" p r] assms(2) by (auto simp: get_all_def)
qed

lemma rows_for_from:
  "map_of (fold (\<lambda>(k, v) d. case v of CDict f \<Rightarrow> AList.update (pk_of (R k f)) (R k f) d | _ \<Rightarrow> d) checks d) p = Some r \<Longrightarrow>
   (\<exists>k f. (k, CDict f) \<in> set checks \<and> r = R k f \<and> pk_of r = p) \<or> map_of d p = Some r"
proof (induction checks arbitrary: d)
  case (Cons kv checks)
  obtain k v where kv: "kv = (k, v)" by (cases kv)
  show ?case
  proof (cases v)
    case (CDict f)
    then show ?thesis using Cons.IH [of "AList.update (pk_of (R k f)) (R k f) d"] Cons.prems
      by (auto simp: kv dict_simps split: if_splits)
  qed (use Cons in \<open>auto simp: kv\<close>)
qed simp

lemma rows_for_has:
  "(k, CDict f) \<in> set checks \<or> p \<in> fst ` set d \<and> p = pk_of (R k f) \<Longrightarrow> p = pk_of (R k f) \<Longrightarrow>
   map_of (fold (\<lambda>(k, v) d. case v of CDict f \<Rightarrow> AList.update (pk_of (R k f)) (R k f) d | _ \<Rightarrow> d) checks d) p \<noteq> None"
proof (induction checks arbitrary: d)
  case Nil
  then show ?case by (simp add: map_of_eq_None_iff)
next
  case (Cons kv checks)
  obtain k' v where kv: "kv = (k', v)" by (cases kv)
  have upd: "fst ` set (AList.update q x d) = insert q (fst ` set d)" for q x by (simp add: dom_update flip: dom_map_of_conv_image_fst) (simp add: update_conv' dom_map_of_conv_image_fst)
  show ?case
  proof (cases v)
    case (CDict f')
    then show ?thesis using Cons.IH [of "AList.update (pk_of (R k' f')) (R k' f') d"] Cons.prems
      by (auto simp: kv upd)
  qed (use Cons in \<open>auto simp: kv\<close>)
qed

lemma rows_for_wf:
  "dict_wf d \<Longrightarrow> dict_wf (fold (\<lambda>(k, v) d. case v of CDict f \<Rightarrow> AList.update (pk_of (R k f)) (R k f) d | _ \<Rightarrow> d) checks d)"
proof (induction checks arbitrary: d)
  case (Cons kv checks)
  then show ?case by (cases kv; cases "snd kv") auto
qed simp

lemma rows_for_eq:
  "rows_for md checks existing rs now fresh =
    fold (\<lambda>(k, v) d. case v of CDict f \<Rightarrow> AList.update (pk_of (row_for md rs existing now (fresh k) k f))
        (row_for md rs existing now (fresh k) k f) d | _ \<Rightarrow> d) checks []"
  unfolding rows_for_def Let_def ..

lemma rows_for_rows:
  assumes "(p, r) \<in> set (rows_for md checks existing rs now fresh)"
  shows "\<exists>k f. (k, CDict f) \<in> set checks \<and> r = row_for md rs existing now (fresh k) k f \<and> pk_of r = p"
proof -
  let ?R = "\<lambda>k f. row_for md rs existing now (fresh k) k f"
  have "map_of (rows_for md checks existing rs now fresh) p = Some r"
    using assms rows_for_wf [of "[]" ?R checks] unfolding rows_for_eq by (simp add: dict_wf_map_of)
  then show ?thesis using rows_for_from [of ?R checks "[]" p r] unfolding rows_for_eq by simp
qed

lemma rows_for_snd:
  "r \<in> snd ` set (rows_for md checks existing rs now fresh) \<Longrightarrow>
   \<exists>k f. (k, CDict f) \<in> set checks \<and> r = row_for md rs existing now (fresh k) k f"
proof -
  assume "r \<in> snd ` set (rows_for md checks existing rs now fresh)"
  then obtain p where "(p, r) \<in> set (rows_for md checks existing rs now fresh)" by force
  from rows_for_rows [OF this] show ?thesis by blast
qed

lemma row_for_pk: "pk_of (row_for md rs existing now u k f) = (md, fst (split_key rs md k), fst (snd (split_key rs md k)))"
  by (simp add: row_for_def pk_of_def Let_def case_prod_beta)

lemma row_for_keeps:
  assumes "map_of existing (pk_of (row_for md rs existing now u k f)) = Some r0"
  shows "(k_uid r0 \<noteq> [] \<longrightarrow> k_uid (row_for md rs existing now u k f) = k_uid r0)
    \<and> (k_status (row_for md rs existing now u k f) = k_status r0 \<and> k_ts r0 \<noteq> 0
        \<longrightarrow> k_ts (row_for md rs existing now u k f) = k_ts r0)"
  using assms by (auto simp: row_for_pk) (auto simp: row_for_def Let_def case_prod_beta)

lemma row_for_new:
  assumes "map_of existing (pk_of (row_for md rs existing now u k f)) = None"
  shows "k_uid (row_for md rs existing now u k f) = u"
  using assms by (auto simp: row_for_pk) (auto simp: row_for_def Let_def case_prod_beta)

lemma row_for_fields: "k_module (row_for md rs existing now u k f) = md"
  "k_status (row_for md rs existing now u k f) = truthy (dget f ''status'' CNone)"
  by (simp_all add: row_for_def Let_def case_prod_beta)

text \<open>
  The rows a save writes have identities of their own: a replaced row's, or a fresh one.
\<close>

lemma distinct_map_append:
  "distinct (map f xs) \<Longrightarrow> distinct (map f ys) \<Longrightarrow> \<forall>x \<in> set xs. \<forall>y \<in> set ys. f x \<noteq> f y \<Longrightarrow>
   distinct (map f (xs @ ys))"
  by auto

lemma persist_rows_ok:
  assumes ok: "rows_ok t" and md: "md \<noteq> []" and wf: "dict_wf checks"
    and fresh: "\<forall>k. fresh k \<notin> k_uid ` set t" "inj fresh" and uids: "\<forall>r \<in> set t. k_uid r \<noteq> []"
  shows "rows_ok (filter (\<lambda>r. k_module r \<noteq> md) t @ map snd (rows_for md checks (get_all t (Some md)) rs now fresh))"
proof -
  let ?ex = "get_all t (Some md)" and ?rows = "rows_for md checks (get_all t (Some md)) rs now fresh"
  let ?old = "filter (\<lambda>r. k_module r \<noteq> md) t"
  note ga = get_all_module [OF ok md]
  have wfr: "dict_wf ?rows" unfolding rows_for_eq by (rule rows_for_wf) simp
  have pkr: "pk_of (snd x) = fst x" if "x \<in> set ?rows" for x using rows_for_rows [of "fst x" "snd x"] that by fastforce
  have old: "distinct (map k_uid ?old)" "distinct (map pk_of ?old)"
    using ok by (auto simp: rows_ok_def intro: distinct_map_filter_fst)
  have mods: "k_module r = md" if "r \<in> snd ` set ?rows" for r
    using rows_for_snd [OF that] row_for_fields(1) by blast
  have e: "map pk_of (map snd ?rows) = map fst ?rows" using pkr by simp
  have dpk: "distinct (map pk_of (map snd ?rows))" unfolding e using wfr by (simp add: dict_wf_def)
  have uid: "(\<exists>r0 \<in> set t. pk_of r0 = pk_of r \<and> k_module r0 = md \<and> k_uid r = k_uid r0) \<or> 
      (\<exists>k f. (k, CDict f) \<in> set checks \<and> k_uid r = fresh k \<and> pk_of r = (md, fst (split_key rs md k), fst (snd (split_key rs md k))))"
    if r: "r \<in> snd ` set ?rows" for r
  proof -
    obtain k f where kf: "(k, CDict f) \<in> set checks" "r = row_for md rs ?ex now (fresh k) k f"
      using rows_for_snd [OF r] by blast
    show ?thesis
    proof (cases "map_of ?ex (pk_of r)")
      case None
      then have "k_uid r = fresh k" unfolding kf(2) by (rule row_for_new)
      moreover have "pk_of r = (md, fst (split_key rs md k), fst (snd (split_key rs md k)))"
        unfolding kf(2) by (rule row_for_pk)
      ultimately show ?thesis using kf(1) by blast
    next
      case (Some r0)
      then have "k_uid r = k_uid r0" using row_for_keeps [of ?ex md rs now "fresh k" k f r0] kf ga uids by auto
      moreover have "r0 \<in> set t" "pk_of r0 = pk_of r" "k_module r0 = md" using Some ga by blast+
      ultimately show ?thesis by blast
    qed
  qed
  have inj: "r = s" if rs: "r \<in> snd ` set ?rows" "s \<in> snd ` set ?rows" "k_uid r = k_uid s" for r s
  proof -
    have same_pk: "pk_of r = pk_of s \<Longrightarrow> r = s"
      using rs(1,2) dpk unfolding distinct_map [of pk_of] set_map inj_on_def by blast
    have u_inj: "\<And>a b. a \<in> set t \<Longrightarrow> b \<in> set t \<Longrightarrow> k_uid a = k_uid b \<Longrightarrow> a = b"
      using ok unfolding rows_ok_def distinct_map inj_on_def by blast
    have new: "fresh a = k_uid b \<Longrightarrow> b \<in> set t \<Longrightarrow> False" for a b using fresh(1) by (metis image_eqI)
    from uid [OF rs(1)] show ?thesis
    proof
      assume "\<exists>r0 \<in> set t. pk_of r0 = pk_of r \<and> k_module r0 = md \<and> k_uid r = k_uid r0"
      then obtain a where a: "a \<in> set t" "pk_of a = pk_of r" "k_uid r = k_uid a" by blast
      from uid [OF rs(2)] show ?thesis
      proof
        assume "\<exists>r0 \<in> set t. pk_of r0 = pk_of s \<and> k_module r0 = md \<and> k_uid s = k_uid r0"
        then obtain b where "b \<in> set t" "pk_of b = pk_of s" "k_uid s = k_uid b" by blast
        then show ?thesis using a u_inj rs(3) same_pk by metis
      qed (use a new rs(3) in metis)
    next
      assume "\<exists>k f. (k, CDict f) \<in> set checks \<and> k_uid r = fresh k \<and> pk_of r = (md, fst (split_key rs md k), fst (snd (split_key rs md k)))"
      then obtain k where k: "k_uid r = fresh k" "pk_of r = (md, fst (split_key rs md k), fst (snd (split_key rs md k)))" by blast
      from uid [OF rs(2)] show ?thesis
      proof
        assume "\<exists>k f. (k, CDict f) \<in> set checks \<and> k_uid s = fresh k \<and> pk_of s = (md, fst (split_key rs md k), fst (snd (split_key rs md k)))"
        then obtain l where "k_uid s = fresh l" "pk_of s = (md, fst (split_key rs md l), fst (snd (split_key rs md l)))" by blast
        then show ?thesis using k fresh(2) rs(3) same_pk by (metis injD)
      qed (use k new rs(3) in metis)
    qed
  qed
  have "distinct (map snd ?rows)" using dpk by (metis distinct_map)
  then have duid: "distinct (map k_uid (map snd ?rows))" using inj by (auto simp: distinct_map inj_on_def simp del: map_map)
  have cross: "k_uid r \<noteq> k_uid s" if "r \<in> set ?old" "s \<in> snd ` set ?rows" for r s
  proof
    assume e: "k_uid r = k_uid s"
    have rt: "r \<in> set t" "k_module r \<noteq> md" using that(1) by auto
    from uid [OF that(2)] show False
    proof
      assume "\<exists>r0 \<in> set t. pk_of r0 = pk_of s \<and> k_module r0 = md \<and> k_uid s = k_uid r0"
      then obtain r0 where "r0 \<in> set t" "k_module r0 = md" "k_uid r = k_uid r0" using e by auto
      then have "r = r0" using ok rt(1) unfolding rows_ok_def distinct_map inj_on_def by blast
      then show False using rt(2) \<open>k_module r0 = md\<close> by simp
    next
      assume "\<exists>k f. (k, CDict f) \<in> set checks \<and> k_uid s = fresh k \<and> pk_of s = (md, fst (split_key rs md k), fst (snd (split_key rs md k)))"
      then show False using fresh(1) rt(1) e by (metis image_eqI)
    qed
  qed
  have cross2: "pk_of r \<noteq> pk_of s" if "r \<in> set ?old" "s \<in> snd ` set ?rows" for r s
    using that mods by (auto simp: pk_of_def)
  show ?thesis unfolding rows_ok_def
    by (intro conjI distinct_map_append old dpk duid ballI; simp only: set_map; erule (1) cross cross2)
qed




end
