(* ===== verification/Py_Num.thy ===== *)
theory Py_Num
  imports Py_Text
begin

text \<open>
  Python's conversions to a number, on the values a JSON document or a form field can hold:
  \<^verbatim>\<open>int(x)\<close> and \<^verbatim>\<open>float(x)\<close> with the strings they accept, truth values, and the floats that are
  not numbers. Overflow of a float to infinity is not modelled (floats are rationals).
\<close>

datatype jval = JNull | JBool bool | JInt int | JFloat rat | JStr string | JOther

text \<open>\<^verbatim>\<open>bool(x)\<close>; \<open>JOther\<close> is a non-empty list or dict.\<close>

fun truthy :: "jval \<Rightarrow> bool" where
  "truthy JNull = False"
| "truthy (JBool b) = b"
| "truthy (JInt n) = (n \<noteq> 0)"
| "truthy (JFloat x) = (x \<noteq> 0)"
| "truthy (JStr s) = (s \<noteq> [])"
| "truthy JOther = True"

definition py_or :: "jval \<Rightarrow> jval \<Rightarrow> jval" where
  "py_or v d = (if truthy v then v else d)"

text \<open>Digits with single underscores between them.\<close>

definition digit_groups :: "string \<Rightarrow> nat option" where
  "digit_groups s =
     (let ws = py_split CHR ''_'' s
      in if list_all (\<lambda>w. w \<noteq> [] \<and> list_all is_dec w) ws then Some (dec_value 0 (concat ws)) else None)"

definition sign_of :: "string \<Rightarrow> bool \<times> string" where
  "sign_of s = (case s of
      [] \<Rightarrow> (False, [])
    | c # cs \<Rightarrow> if c = CHR ''-'' then (True, cs) else if c = CHR ''+'' then (False, cs) else (False, s))"

definition int_of_str :: "string \<Rightarrow> int option" where
  "int_of_str s = (let (neg, d) = sign_of (py_strip s)
     in map_option (\<lambda>n. if neg then - int n else int n) (digit_groups d))"

fun py_int :: "jval \<Rightarrow> int option" where
  "py_int JNull = None"
| "py_int (JBool b) = Some (if b then 1 else 0)"
| "py_int (JInt n) = Some n"
| "py_int (JFloat x) = Some (py_trunc x)"
| "py_int (JStr s) = int_of_str s"
| "py_int JOther = None"

text \<open>A float: a number, an infinity, or not a number.\<close>

datatype pyfloat = Fin rat | Inf bool | NaN

text \<open>The digits of a fraction or an exponent; both parts of a mantissa may be empty, not together.\<close>

definition mantissa :: "string \<Rightarrow> rat option" where
  "mantissa s =
     (case py_split CHR ''.'' s of
        [w] \<Rightarrow> map_option of_nat (digit_groups w)
      | [w, f] \<Rightarrow>
          if w = [] \<and> f = [] then None
          else (case (if w = [] then Some 0 else digit_groups w, if f = [] then Some 0 else digit_groups f) of
              (Some a, Some b) \<Rightarrow> Some (of_nat a + of_nat b / 10 ^ length (filter is_dec f))
            | _ \<Rightarrow> None)
      | _ \<Rightarrow> None)"

definition scale10 :: "rat \<Rightarrow> bool \<Rightarrow> nat \<Rightarrow> rat" where
  "scale10 x neg n = (if neg then x / 10 ^ n else x * 10 ^ n)"

definition float_of_str :: "string \<Rightarrow> pyfloat option" where
  "float_of_str s =
     (let (neg, d) = sign_of (py_lower (py_strip s)); sg = (\<lambda>x. if neg then - x else x)
      in if d = ''inf'' \<or> d = ''infinity'' then Some (Inf neg)
         else if d = ''nan'' then Some NaN
         else case py_split CHR ''e'' d of
             [m] \<Rightarrow> map_option (\<lambda>x. Fin (sg x)) (mantissa m)
           | [m, e] \<Rightarrow>
               (let (eneg, ed) = sign_of e
                in case (mantissa m, digit_groups ed) of
                    (Some x, Some n) \<Rightarrow> Some (Fin (sg (scale10 x eneg n)))
                  | _ \<Rightarrow> None)
           | _ \<Rightarrow> None)"

fun py_float :: "jval \<Rightarrow> pyfloat option" where
  "py_float JNull = None"
| "py_float (JBool b) = Some (Fin (if b then 1 else 0))"
| "py_float (JInt n) = Some (Fin (of_int n))"
| "py_float (JFloat x) = Some (Fin x)"
| "py_float (JStr s) = float_of_str s"
| "py_float JOther = None"

text \<open>Comparisons with zero and with a reading, and the sum the code forms; every comparison
  with \<open>NaN\<close> is false.\<close>

definition float_le0 :: "pyfloat \<Rightarrow> bool" where
  "float_le0 x = (case x of Fin r \<Rightarrow> r \<le> 0 | Inf neg \<Rightarrow> neg | NaN \<Rightarrow> False)"

definition float_gt0 :: "pyfloat \<Rightarrow> bool" where
  "float_gt0 x = (case x of Fin r \<Rightarrow> 0 < r | Inf neg \<Rightarrow> \<not> neg | NaN \<Rightarrow> False)"

definition reaches :: "rat \<Rightarrow> pyfloat \<Rightarrow> bool" where
  "reaches a x = (case x of Fin r \<Rightarrow> r \<le> a | Inf neg \<Rightarrow> neg | NaN \<Rightarrow> False)"

definition float_times :: "pyfloat \<Rightarrow> rat \<Rightarrow> pyfloat" where
  "float_times x k = (case x of Fin r \<Rightarrow> Fin (r * k) | _ \<Rightarrow> x)"

definition float_plus :: "rat \<Rightarrow> pyfloat \<Rightarrow> pyfloat" where
  "float_plus a x = (case x of Fin r \<Rightarrow> Fin (a + r) | _ \<Rightarrow> x)"

lemma digit_groups_show: "digit_groups (show_dec n) = Some n"
proof -
  have "CHR ''_'' \<notin> set s \<Longrightarrow> py_split CHR ''_'' s = [s]" for s
    by (induction s) auto
  moreover have "CHR ''_'' \<notin> set (show_dec n)"
    using show_dec_digits [of "CHR ''_''" n] by (auto simp: is_dec_def)
  ultimately have "py_split CHR ''_'' (show_dec n) = [show_dec n]" by blast
  then show ?thesis
    using show_dec_nonempty [of n] show_dec_digits [of _ n] dec_value_show [of n]
    by (simp add: digit_groups_def list_all_iff)
qed

text \<open>\<^verbatim>\<open>int(str(n)) == n\<close>: the conversion inverts printing.\<close>

lemma int_of_str_show: "int_of_str (show_dec n) = Some (int n)"
proof -
  obtain c cs where c: "show_dec n = c # cs" using show_dec_nonempty [of n] by (cases "show_dec n") auto
  have d: "list_all is_dec (show_dec n)" using show_dec_digits [of _ n] by (simp add: list_all_iff)
  have ns: "list_all is_dec xs \<Longrightarrow> dropWhile is_space xs = xs" for xs
    by (cases xs) (auto simp: is_dec_def is_space_def Let_def)
  have "list_all is_dec (rev (show_dec n))" using d by (simp add: list_all_iff)
  with ns d have "py_strip (show_dec n) = show_dec n" by (simp add: py_strip_def)
  moreover have "sign_of (show_dec n) = (False, show_dec n)"
    using d c by (auto simp: sign_of_def is_dec_def)
  ultimately show ?thesis by (simp add: int_of_str_def digit_groups_show)
qed

end
