(* ===== verification/Backup_Schedule.thy ===== *)
theory Backup_Schedule
  imports Py_Num
begin

text \<open>
  When an automatic backup is due and which old ones go: \<^verbatim>\<open>lib/core/backup/schedule.py\<close>.

  A naive \<^verbatim>\<open>datetime\<close> is a pair of its proleptic Gregorian ordinal and the second of the day. The
  time zone of the host is a pair of functions, \<open>local\<close> (\<^verbatim>\<open>fromtimestamp\<close>) and \<open>epoch\<close>
  (\<^verbatim>\<open>timestamp\<close>), which are arguments. A copy is what \<^verbatim>\<open>list_backups\<close> says of an archive; its name
  is a file name, so no two copies of a listing share it.
\<close>

section \<open>Names\<close>

definition auto_prefix :: string where
  "auto_prefix = ''auto-''"

definition slug_char :: "char \<Rightarrow> bool" where
  "slug_char c = (is_lower_az c \<or> is_upper_az c \<or> is_dec c \<or> c = CHR ''_'' \<or> c = CHR ''-'')"

text \<open>\<^verbatim>\<open>re.sub\<close>: every maximal run of other characters becomes one dash.\<close>

function slug_sub :: "string \<Rightarrow> string" where
  "slug_sub [] = []"
| "slug_sub (c # cs) =
     (if slug_char c then c # slug_sub cs
      else CHR ''-'' # slug_sub (dropWhile (\<lambda>x. \<not> slug_char x) cs))"
  by pat_completeness auto
termination
  by (relation "measure length") (auto simp: le_imp_less_Suc length_dropWhile_le)

definition strip_dashes :: "string \<Rightarrow> string" where
  "strip_dashes s = rev (dropWhile (\<lambda>c. c = CHR ''-'') (rev (dropWhile (\<lambda>c. c = CHR ''-'') s)))"

definition task_slug :: "string \<Rightarrow> string" where
  "task_slug name = py_lower (take 32 (strip_dashes (slug_sub (py_strip name))))"

type_synonym dt = "int \<times> rat"

text \<open>The calendar date of an ordinal, and the ordinal of the first of January.\<close>

definition leap :: "int \<Rightarrow> bool" where
  "leap y = (y mod 4 = 0 \<and> (y mod 100 \<noteq> 0 \<or> y mod 400 = 0))"

definition days_before_year :: "int \<Rightarrow> int" where
  "days_before_year y = (y - 1) * 365 + (y - 1) div 4 - (y - 1) div 100 + (y - 1) div 400"

definition month_days :: "bool \<Rightarrow> int list" where
  "month_days lp = [31, if lp then 29 else 28, 31, 30, 31, 30, 31, 31, 30, 31, 30, 31]"

fun month_of :: "int list \<Rightarrow> int \<Rightarrow> int \<Rightarrow> int \<times> int" where
  "month_of [] m n = (m, n + 1)"
| "month_of (d # ds) m n = (if n < d then (m, n + 1) else month_of ds (m + 1) (n - d))"

definition ord_ymd :: "int \<Rightarrow> int \<times> int \<times> int" where
  "ord_ymd ord =
     (let n = ord - 1;
          n400 = n div 146097; n = n mod 146097;
          n100 = n div 36524; n = n mod 36524;
          n4 = n div 1461; n = n mod 1461;
          n1 = n div 365; n = n mod 365;
          y = n400 * 400 + n100 * 100 + n4 * 4 + n1 + 1
      in if n1 = 4 \<or> n100 = 4 then (y - 1, 12, 31)
         else let (m, d) = month_of (month_days (leap y)) 1 n in (y, m, d))"

definition weekday :: "int \<Rightarrow> int" where
  "weekday ord = (ord + 6) mod 7"

text \<open>The ISO year and week: those of the week's Thursday.\<close>

definition iso_week :: "int \<Rightarrow> int \<times> int" where
  "iso_week ord =
     (let th = ord - weekday ord + 3; y = fst (ord_ymd th)
      in (y, (th - days_before_year y - 1) div 7 + 1))"

definition two :: "int \<Rightarrow> string" where
  "two n = zfill 2 (show_dec (nat n))"

definition stamp :: "dt \<Rightarrow> string" where
  "stamp now =
     (let (y, m, d) = ord_ymd (fst now); s = \<lfloor>snd now\<rfloor>
      in show_dec (nat y) @ two m @ two d @ ''-'' @ two (s div 3600) @ two (s mod 3600 div 60) @ two (s mod 60))"

definition auto_name :: "dt \<Rightarrow> string \<Rightarrow> string" where
  "auto_name now task =
     (let slug = task_slug task
      in if slug \<noteq> [] then auto_prefix @ slug @ ''-'' @ stamp now else auto_prefix @ stamp now)"

text \<open>\<^verbatim>\<open>\d{8}-\d{6}\<close>.\<close>

definition is_stamp :: "string \<Rightarrow> bool" where
  "is_stamp s = (length s = 15 \<and> list_all is_dec (take 8 s) \<and> s ! 8 = CHR ''-'' \<and> list_all is_dec (drop 9 s))"

definition after_prefix :: "string \<Rightarrow> string \<Rightarrow> bool" where
  "after_prefix p n = (starts_with p n \<and> is_stamp (drop (length p) n))"

definition is_auto :: "string \<Rightarrow> string option \<Rightarrow> bool" where
  "is_auto n task =
     (if \<not> starts_with auto_prefix n then False
      else case task of
             None \<Rightarrow> True
           | Some t \<Rightarrow>
               (let slug = task_slug t
                in if slug = [] then after_prefix auto_prefix n
                   else after_prefix (auto_prefix @ slug @ ''-'') n))"

section \<open>Intervals\<close>

definition is_due :: "jval \<Rightarrow> rat \<Rightarrow> rat option \<Rightarrow> bool" where
  "is_due every_hours now_ts last_ts =
     (case py_float every_hours of
        None \<Rightarrow> False
      | Some hours \<Rightarrow>
          if float_le0 hours then False
          else case last_ts of
                 None \<Rightarrow> True
               | Some l \<Rightarrow> reaches (now_ts - l) (float_times hours 3600))"

record backup =
  bk_name :: string
  bk_mtime :: int
  bk_size :: int
  bk_status :: string
  bk_locked :: bool

definition last_auto_ts :: "backup list \<Rightarrow> string option \<Rightarrow> int option" where
  "last_auto_ts backups task =
     (let stamps = map bk_mtime (filter (\<lambda>b. is_auto (bk_name b) task \<and> bk_mtime b \<noteq> 0) backups)
      in if stamps = [] then None else Some (Max (set stamps)))"

section \<open>Retention\<close>

datatype bucket = Daily | Weekly | Monthly | Yearly

definition buckets :: "(string \<times> bucket) list" where
  "buckets = [(''keep_daily'', Daily), (''keep_weekly'', Weekly), (''keep_monthly'', Monthly), (''keep_yearly'', Yearly)]"

definition retention_keys :: "string list" where
  "retention_keys = ''keep_last'' # map fst buckets @ [''max_size'']"

datatype policy = Scalar jval | Rules "(string, jval) dict"

definition int_or_zero :: "jval \<Rightarrow> int" where
  "int_or_zero v = opt (py_int (py_or v (JInt 0))) 0"

definition policy_fields :: "(string, jval) dict \<Rightarrow> (string, int) dict" where
  "policy_fields src =
     filter (\<lambda>(k, v). 0 < v) (map (\<lambda>k. (k, int_or_zero (dget src k JNull))) retention_keys)"

definition retention_policy :: "policy \<Rightarrow> (string, int) dict" where
  "retention_policy task =
     (case task of
        Scalar JNull \<Rightarrow> []
      | Scalar v \<Rightarrow> (case py_int v of None \<Rightarrow> [] | Some n \<Rightarrow> [(''keep_last'', n)])
      | Rules src \<Rightarrow>
          (let out = policy_fields src; legacy = int_or_zero (dget src ''keep'' JNull)
           in if map_of out ''keep_last'' = None \<and> 0 < legacy then AList.update ''keep_last'' legacy out
              else out))"

record task =
  tk_name :: string
  tk_mode :: jval
  tk_every :: jval
  tk_days :: "jval list option"
  tk_at :: jval
  tk_profile :: string
  tk_rules :: "(string, jval) dict"

record profile =
  pf_id :: string
  pf_rules :: "(string, jval) dict"

definition with_profile :: "task \<Rightarrow> profile list \<Rightarrow> task" where
  "with_profile src profiles =
     (if tk_profile src = [] then src
      else case find (\<lambda>p. pf_id p = tk_profile src) profiles of
             None \<Rightarrow> src
           | Some prof \<Rightarrow>
               src\<lparr>tk_rules := AList.update ''keep'' (JInt 0)
                     (fold (\<lambda>k r. AList.update k (dget (pf_rules prof) k (JInt 0)) r) retention_keys (tk_rules src))\<rparr>)"

text \<open>The period of a reading: the numbers its \<^verbatim>\<open>strftime\<close> format prints.\<close>

definition period_of :: "bucket \<Rightarrow> dt \<Rightarrow> int list" where
  "period_of b t =
     (let (y, m, d) = ord_ymd (fst t)
      in case b of
           Daily \<Rightarrow> [y, m, d]
         | Weekly \<Rightarrow> [fst (iso_week (fst t)), snd (iso_week (fst t))]
         | Monthly \<Rightarrow> [y, m]
         | Yearly \<Rightarrow> [y])"

definition newest_first :: "backup list \<Rightarrow> backup list" where
  "newest_first bs = sort_key (\<lambda>b. - bk_mtime b) bs"

definition autos_of :: "backup list \<Rightarrow> string option \<Rightarrow> backup list" where
  "autos_of backups task = newest_first (filter (\<lambda>b. is_auto (bk_name b) task) backups)"

text \<open>\<^verbatim>\<open>xs[:n]\<close>, counting from the end for a negative \<open>n\<close>.\<close>

definition py_take :: "int \<Rightarrow> 'a list \<Rightarrow> 'a list" where
  "py_take n xs = (if 0 \<le> n then take (nat n) xs else take (length xs - nat (- n)) xs)"

fun bucket_keep :: "(backup \<Rightarrow> int list) \<Rightarrow> int \<Rightarrow> int list list \<Rightarrow> backup list \<Rightarrow> string list" where
  "bucket_keep period want seen [] = []"
| "bucket_keep period want seen (b # bs) =
     (if List.member seen (period b) then bucket_keep period want seen bs
      else bk_name b # (if want \<le> int (Suc (length seen)) then []
                        else bucket_keep period want (period b # seen) bs))"

definition bucket_names :: "(rat \<Rightarrow> dt) \<Rightarrow> (string, int) dict \<Rightarrow> backup list \<Rightarrow> string \<times> bucket \<Rightarrow> string list" where
  "bucket_names local rules autos kb =
     (let want = dget rules (fst kb) 0
      in if want \<le> 0 then []
         else bucket_keep (\<lambda>b. period_of (snd kb) (local (of_int (bk_mtime b)))) want [] autos)"

definition survivors :: "(rat \<Rightarrow> dt) \<Rightarrow> backup list \<Rightarrow> policy \<Rightarrow> string option \<Rightarrow> backup list" where
  "survivors local backups policy task =
     (let rules = retention_policy policy; autos = autos_of backups task
      in if autos = [] then []
         else if \<not> list_ex (\<lambda>k. dget rules k 0 \<noteq> 0) (''keep_last'' # map fst buckets) then autos
         else (let keep = map bk_name (py_take (dget rules ''keep_last'' 0) autos)
                          @ concat (map (bucket_names local rules autos) buckets)
               in filter (\<lambda>b. List.member keep (bk_name b)) autos))"

definition apply_floors :: "backup list \<Rightarrow> backup list \<Rightarrow> backup list" where
  "apply_floors autos keep =
     (if autos = [] then keep
      else (let out = (if keep = [] then [hd autos] else keep);
                names = map bk_name out;
                out = (if list_ex (\<lambda>b. bk_status b = ''ok'') out then out
                       else case find (\<lambda>b. bk_status b = ''ok'') autos of
                              None \<Rightarrow> out
                            | Some good \<Rightarrow> if List.member names (bk_name good) then out else out @ [good])
            in newest_first out))"

fun budget_loop :: "int \<Rightarrow> backup list \<Rightarrow> int \<Rightarrow> backup list \<Rightarrow> backup list" where
  "budget_loop budget out used [] = out"
| "budget_loop budget out used (b # bs) =
     (if bk_locked b then budget_loop budget out used bs
      else if out \<noteq> [] \<and> budget < used + bk_size b then out
      else budget_loop budget (out @ [b]) (used + bk_size b) bs)"

definition over_budget :: "backup list \<Rightarrow> int option \<Rightarrow> backup list" where
  "over_budget kept max_size =
     (let budget = opt max_size 0
      in if budget \<le> 0 then kept
         else (let locked = filter bk_locked kept
               in newest_first (budget_loop budget locked (sum_list (map bk_size locked)) kept)))"

definition kept_copies :: "(rat \<Rightarrow> dt) \<Rightarrow> backup list \<Rightarrow> policy \<Rightarrow> string option \<Rightarrow> backup list" where
  "kept_copies local backups policy task =
     (let autos = autos_of backups task
      in apply_floors autos
           (over_budget (apply_floors autos (survivors local backups policy task))
             (map_of (retention_policy policy) ''max_size'')))"

definition prune :: "(rat \<Rightarrow> dt) \<Rightarrow> backup list \<Rightarrow> policy \<Rightarrow> string option \<Rightarrow> string list" where
  "prune local backups policy task =
     (let keep_names = map bk_name (kept_copies local backups policy task)
      in map bk_name (filter (\<lambda>b. \<not> List.member keep_names (bk_name b) \<and> \<not> bk_locked b)
           (rev (autos_of backups task))))"

section \<open>The calendar\<close>

definition mode_calendar :: jval where
  "mode_calendar = JStr ''calendar''"

definition parse_at :: "jval \<Rightarrow> int \<times> int" where
  "parse_at value =
     (case value of
        JStr v \<Rightarrow>
          (let s = py_strip v; hh = takeWhile (\<lambda>c. c \<noteq> CHR '':'') s; rest = dropWhile (\<lambda>c. c \<noteq> CHR '':'') s
           in if rest = [] then (3, 0)
              else case (int_of_str hh, int_of_str (tl rest)) of
                     (Some h, Some m) \<Rightarrow> if 0 \<le> h \<and> h \<le> 23 \<and> 0 \<le> m \<and> m \<le> 59 then (h, m) else (3, 0)
                   | _ \<Rightarrow> (3, 0))
      | _ \<Rightarrow> (3, 0))"

text \<open>One element of the days: \<open>None\<close> when it is passed over, \<open>Inl\<close> when \<^verbatim>\<open>int\<close> raises on it.\<close>

definition day_number :: "jval \<Rightarrow> string + int option" where
  "day_number d =
     (case d of
        JInt n \<Rightarrow> Inr (if 0 \<le> n \<and> n \<le> 6 then Some n else None)
      | JStr s \<Rightarrow>
          (let w = dropWhile (\<lambda>c. c = CHR ''-'') s
           in if w = [] \<or> \<not> list_all is_digit_char w then Inr None
              else case int_of_str s of
                     None \<Rightarrow> Inl ''ValueError''
                   | Some n \<Rightarrow> Inr (if 0 \<le> n \<and> n \<le> 6 then Some n else None))
      | _ \<Rightarrow> Inr None)"

fun day_numbers :: "jval list \<Rightarrow> string + int list" where
  "day_numbers [] = Inr []"
| "day_numbers (d # ds) =
     (case day_number d of
        Inl e \<Rightarrow> Inl e
      | Inr n \<Rightarrow> (case day_numbers ds of
                   Inl e \<Rightarrow> Inl e
                 | Inr ns \<Rightarrow> Inr (case n of None \<Rightarrow> ns | Some x \<Rightarrow> x # ns)))"

definition normalise_days :: "jval list option \<Rightarrow> string + int list" where
  "normalise_days days =
     (case days of
        None \<Rightarrow> Inr []
      | Some ds \<Rightarrow>
          (case day_numbers ds of
             Inl e \<Rightarrow> Inl e
           | Inr ns \<Rightarrow> (let out = sort (remdups ns) in Inr (if length out = 7 then [] else out))))"

definition at_time :: "int \<times> int \<Rightarrow> rat" where
  "at_time hm = of_int (fst hm * 3600 + snd hm * 60)"

definition wanted_day :: "int list \<Rightarrow> dt \<Rightarrow> bool" where
  "wanted_day wanted cand = (wanted = [] \<or> List.member wanted (weekday (fst cand)))"

definition last_due_at :: "dt \<Rightarrow> jval list option \<Rightarrow> jval \<Rightarrow> string + dt option" where
  "last_due_at now days tm =
     (case normalise_days days of
        Inl e \<Rightarrow> Inl e
      | Inr wanted \<Rightarrow>
          Inr (find (\<lambda>cand. cand \<le> now \<and> wanted_day wanted cand)
                (map (\<lambda>back. (fst now - back, at_time (parse_at tm))) [0..7])))"

definition is_due_calendar :: "(dt \<Rightarrow> rat) \<Rightarrow> dt \<Rightarrow> jval list option \<Rightarrow> jval \<Rightarrow> rat option \<Rightarrow> string + bool" where
  "is_due_calendar epoch now days tm last_ts =
     (case last_due_at now days tm of
        Inl e \<Rightarrow> Inl e
      | Inr None \<Rightarrow> Inr False
      | Inr (Some due) \<Rightarrow> Inr (case last_ts of None \<Rightarrow> True | Some l \<Rightarrow> l < epoch due))"

definition task_is_due :: "(rat \<Rightarrow> dt) \<Rightarrow> (dt \<Rightarrow> rat) \<Rightarrow> task \<Rightarrow> rat \<Rightarrow> rat option \<Rightarrow> string + bool" where
  "task_is_due local epoch task now_ts last_ts =
     (if tk_mode task = mode_calendar
      then is_due_calendar epoch (local now_ts) (tk_days task) (tk_at task) last_ts
      else Inr (is_due (tk_every task) now_ts last_ts))"

definition next_window :: "dt \<Rightarrow> int list \<Rightarrow> jval \<Rightarrow> dt option" where
  "next_window now wanted tm =
     find (\<lambda>cand. now < cand \<and> wanted_day wanted cand)
       (map (\<lambda>fwd. (fst now + fwd, at_time (parse_at tm))) [0..7])"

definition next_due_at :: "(rat \<Rightarrow> dt) \<Rightarrow> (dt \<Rightarrow> rat) \<Rightarrow> task \<Rightarrow> rat \<Rightarrow> rat option \<Rightarrow> string + pyfloat" where
  "next_due_at local epoch task now_ts last_ts =
     (case task_is_due local epoch task now_ts last_ts of
        Inl e \<Rightarrow> Inl e
      | Inr True \<Rightarrow> Inr (Fin now_ts)
      | Inr False \<Rightarrow>
          if tk_mode task = mode_calendar
          then (case normalise_days (tk_days task) of
                  Inl e \<Rightarrow> Inl e
                | Inr wanted \<Rightarrow>
                    Inr (case next_window (local now_ts) wanted (tk_at task) of
                           None \<Rightarrow> Fin 0
                         | Some cand \<Rightarrow> Fin (epoch cand)))
          else Inr (case py_float (py_or (tk_every task) (JInt 0)) of
                      None \<Rightarrow> Fin 0
                    | Some hours \<Rightarrow>
                        (case last_ts of
                           None \<Rightarrow> Fin 0
                         | Some l \<Rightarrow> if float_le0 hours then Fin 0 else float_plus l (float_times hours 3600))))"

definition due_span :: "(rat \<Rightarrow> dt) \<Rightarrow> (dt \<Rightarrow> rat) \<Rightarrow> task \<Rightarrow> rat \<Rightarrow> string + pyfloat" where
  "due_span local epoch task now_ts =
     (if tk_mode task = mode_calendar
      then (case last_due_at (local now_ts) (tk_days task) (tk_at task) of
              Inl e \<Rightarrow> Inl e
            | Inr prev \<Rightarrow>
                (case next_due_at local epoch (task\<lparr>tk_mode := mode_calendar\<rparr>) now_ts (map_option epoch prev) of
                   Inl e \<Rightarrow> Inl e
                 | Inr nxt \<Rightarrow>
                     Inr (case (prev, nxt) of
                            (Some p, Fin n) \<Rightarrow> if n \<noteq> 0 then Fin (max 0 (n - epoch p)) else Fin 86400
                          | _ \<Rightarrow> Fin 86400)))
      else Inr (case py_float (py_or (tk_every task) (JInt 0)) of
                  None \<Rightarrow> Fin 0
                | Some hours \<Rightarrow> if float_gt0 hours then float_times hours 3600 else Fin 0))"

end
