(* ===== verification/Backup_Proofs.thy ===== *)
theory Backup_Proofs
  imports Backup_Schedule
begin

text \<open>The retention of \<^verbatim>\<open>Backup_Schedule\<close>: what the rules keep, what is deleted, and the floors under any policy.\<close>

section \<open>The order of the copies\<close>

lemma set_newest_first [simp]: "set (newest_first bs) = set bs"
  by (simp add: newest_first_def)

lemma newest_first_Nil [simp]: "newest_first [] = []"
  by (simp add: newest_first_def)

lemma newest_first_eq_Nil [simp]: "newest_first bs = [] \<longleftrightarrow> bs = []"
  using set_newest_first [of bs] by (metis set_empty)

lemma distinct_newest_first:
  assumes "distinct (map bk_name bs)"
  shows "distinct (map bk_name (newest_first bs))"
  using assms by (simp add: newest_first_def distinct_map)

lemma newest_first_sorted: "sorted (map (\<lambda>b. - bk_mtime b) (newest_first bs))"
  by (simp add: newest_first_def)

lemma hd_newest_first:
  assumes "\<forall>x \<in> set bs. bk_mtime x \<le> bk_mtime b"
  shows "newest_first (b # bs) = b # newest_first bs"
  using assms by (simp add: newest_first_def insort_is_Cons)

lemma set_autos: "b \<in> set (autos_of backups t) \<longleftrightarrow> b \<in> set backups \<and> is_auto (bk_name b) t"
  by (auto simp: autos_of_def)

lemma distinct_autos: "distinct (map bk_name backups) \<Longrightarrow> distinct (map bk_name (autos_of backups t))"
  unfolding autos_of_def by (intro distinct_newest_first distinct_map_filter_fst)

lemma autos_name_inj:
  "distinct (map bk_name backups) \<Longrightarrow> a \<in> set backups \<Longrightarrow> b \<in> set backups \<Longrightarrow> bk_name a = bk_name b \<Longrightarrow> a = b"
  by (metis distinct_map inj_onD)

lemma hd_autos_newest:
  assumes "autos_of backups t = a # as"
  shows "\<forall>x \<in> set as. bk_mtime x \<le> bk_mtime a"
  using newest_first_sorted [of "filter (\<lambda>b. is_auto (bk_name b) t) backups"] assms
  by (auto simp: autos_of_def)

section \<open>The rules\<close>

text \<open>A bucket rule keeps the newest copy of each of the most recent periods.\<close>

definition claimed :: "(backup \<Rightarrow> int list) \<Rightarrow> int \<Rightarrow> backup list \<Rightarrow> backup \<Rightarrow> bool" where
  "claimed period want autos b \<longleftrightarrow>
     (\<exists>xs ys. autos = xs @ b # ys \<and> period b \<notin> period ` set xs \<and> int (card (period ` set xs)) < want)"

lemma bucket_keep_iff:
  assumes "distinct seen" "int (length seen) < want"
  shows "n \<in> set (bucket_keep period want seen bs) \<longleftrightarrow>
    (\<exists>xs b ys. bs = xs @ b # ys \<and> bk_name b = n \<and> period b \<notin> set seen \<union> period ` set xs
       \<and> int (card (set seen \<union> period ` set xs)) < want)"
  using assms
proof (induction bs arbitrary: seen)
  case Nil
  then show ?case by simp
next
  case (Cons a bs)
  let ?Q = "\<lambda>seen bs. \<exists>xs b ys. bs = xs @ b # ys \<and> bk_name b = n \<and> period b \<notin> set seen \<union> period ` set xs
       \<and> int (card (set seen \<union> period ` set xs)) < want"
  have split: "?Q seen (a # bs) \<longleftrightarrow>
      (bk_name a = n \<and> period a \<notin> set seen) \<or> ?Q (period a # seen) bs" (is "?L \<longleftrightarrow> ?R")
  proof
    assume ?L
    then obtain xs b ys where *: "a # bs = xs @ b # ys" "bk_name b = n" "period b \<notin> set seen \<union> period ` set xs"
      "int (card (set seen \<union> period ` set xs)) < want" by blast
    show ?R
    proof (cases xs)
      case Nil
      with * show ?thesis by simp
    next
      case (Cons x zs)
      with * have "bs = zs @ b # ys" "period b \<notin> set (period a # seen) \<union> period ` set zs"
        "int (card (set (period a # seen) \<union> period ` set zs)) < want" by auto
      with *(2) show ?thesis by blast
    qed
  next
    assume ?R
    then show ?L
    proof
      assume "bk_name a = n \<and> period a \<notin> set seen"
      then show ?L using Cons.prems
        by (intro exI [of _ "[]"] exI [of _ a] exI [of _ bs]) (simp add: distinct_card)
    next
      assume "?Q (period a # seen) bs"
      then obtain xs b ys where "bs = xs @ b # ys" "bk_name b = n" "period b \<notin> set (period a # seen) \<union> period ` set xs"
        "int (card (set (period a # seen) \<union> period ` set xs)) < want" by blast
      then show ?L
        by (intro exI [of _ "a # xs"] exI [of _ b] exI [of _ ys]) simp
    qed
  qed
  show ?case
  proof (cases "period a \<in> set seen")
    case True
    have "?Q (period a # seen) bs = ?Q seen bs" using True by (simp add: insert_absorb)
    moreover have "n \<in> set (bucket_keep period want seen (a # bs)) \<longleftrightarrow> ?Q seen bs"
      using True Cons.IH [OF Cons.prems] by simp
    ultimately show ?thesis using split True by blast
  next
    case new: False
    show ?thesis
    proof (cases "want \<le> int (Suc (length seen))")
      case True
      have "\<not> ?Q (period a # seen) bs"
      proof
        assume "?Q (period a # seen) bs"
        then obtain xs where "int (card (set (period a # seen) \<union> period ` set xs)) < want" by blast
        moreover have "card (set (period a # seen)) \<le> card (set (period a # seen) \<union> period ` set xs)"
          by (rule card_mono) auto
        moreover have "card (set (period a # seen)) = Suc (length seen)"
          using new Cons.prems by (simp add: distinct_card)
        ultimately show False using True by linarith
      qed
      moreover have "n \<in> set (bucket_keep period want seen (a # bs)) \<longleftrightarrow> bk_name a = n"
        using new True by auto
      ultimately show ?thesis using split new by blast
    next
      case False
      have "n \<in> set (bucket_keep period want (period a # seen) bs) \<longleftrightarrow> ?Q (period a # seen) bs"
        using new Cons.prems False by (intro Cons.IH) simp_all
      then have "n \<in> set (bucket_keep period want seen (a # bs)) \<longleftrightarrow> bk_name a = n \<or> ?Q (period a # seen) bs"
        using new False by auto
      then show ?thesis using split new by blast
    qed
  qed
qed

lemma py_take_set: "set (py_take n xs) \<subseteq> set xs"
  unfolding py_take_def by (simp add: set_take_subset)

text \<open>The readings of a copy's name in a listing whose names are distinct.\<close>

lemma name_mem:
  assumes "distinct (map bk_name autos)" "set ys \<subseteq> set autos" "b \<in> set autos"
  shows "bk_name b \<in> bk_name ` set ys \<longleftrightarrow> b \<in> set ys"
  using assms by (auto simp: distinct_map dest: inj_onD)

lemma claimed_name:
  assumes "distinct (map bk_name autos)" "b \<in> set autos"
  shows "bk_name b \<in> set (bucket_names local rules autos (k, bk)) \<longleftrightarrow>
    claimed (\<lambda>b. period_of bk (local (of_int (bk_mtime b)))) (dget rules k 0) autos b"
proof (cases "dget rules k 0 \<le> 0")
  case True
  then show ?thesis by (auto simp: bucket_names_def claimed_def)
next
  case False
  let ?p = "\<lambda>b. period_of bk (local (of_int (bk_mtime b)))"
  have "bk_name b \<in> set (bucket_names local rules autos (k, bk)) \<longleftrightarrow>
     (\<exists>xs c ys. autos = xs @ c # ys \<and> bk_name c = bk_name b \<and> ?p c \<notin> ?p ` set xs
       \<and> int (card (?p ` set xs)) < dget rules k 0)"
    using False bucket_keep_iff [of "[]" "dget rules k 0" "bk_name b" ?p autos]
    by (simp add: bucket_names_def)
  also have "\<dots> \<longleftrightarrow> claimed ?p (dget rules k 0) autos b"
  proof -
    have "c = b" if "autos = xs @ c # ys" "bk_name c = bk_name b" for xs c ys
      using assms that by (metis autos_name_inj in_set_conv_decomp)
    then show ?thesis unfolding claimed_def by blast
  qed
  finally show ?thesis .
qed

text \<open>
  What a retention policy keeps, in terms of its rules alone: with every count at zero all automatic
  copies of the task; otherwise a copy survives exactly when it is among the last ones counted, or some
  bucket rule claims it, being the newest copy of its day, week, month or year and that period one of
  the most recent \<open>N\<close> that have a copy. Nothing the policy keeps is a hand-made copy or another task's.\<close>

theorem survivors_exact:
  assumes "distinct (map bk_name backups)"
  shows "b \<in> set (survivors local backups pol t) \<longleftrightarrow>
    (let rules = retention_policy pol; autos = autos_of backups t
     in b \<in> set backups \<and> is_auto (bk_name b) t \<and>
        ((\<forall>k. List.member (''keep_last'' # map fst buckets) k \<longrightarrow> dget rules k 0 = 0)
         \<or> b \<in> set (py_take (dget rules ''keep_last'' 0) autos)
         \<or> (\<exists>k bk. List.member buckets (k, bk) \<and>
              claimed (\<lambda>b. period_of bk (local (of_int (bk_mtime b)))) (dget rules k 0) autos b)))"
proof -
  let ?rules = "retention_policy pol"
  let ?autos = "autos_of backups t"
  let ?keep = "map bk_name (py_take (dget ?rules ''keep_last'' 0) ?autos)
                          @ concat (map (bucket_names local ?rules ?autos) buckets)"
  have d: "distinct (map bk_name ?autos)" using assms by (rule distinct_autos)
  have sv: "survivors local backups pol t =
     (if ?autos = [] then [] else if (\<forall>k. List.member (''keep_last'' # map fst buckets) k \<longrightarrow> dget ?rules k 0 = 0)
      then ?autos else filter (\<lambda>b. bk_name b \<in> set ?keep) ?autos)"
    unfolding survivors_def Let_def list_ex_iff by auto
  have kp: "bk_name b \<in> set ?keep \<longleftrightarrow> b \<in> set (py_take (dget ?rules ''keep_last'' 0) ?autos) \<or>
      (\<exists>k bk. List.member buckets (k, bk) \<and>
         claimed (\<lambda>b. period_of bk (local (of_int (bk_mtime b)))) (dget ?rules k 0) ?autos b)"
    if b: "b \<in> set ?autos"
  proof -
    have "bk_name b \<in> set ?keep \<longleftrightarrow> bk_name b \<in> bk_name ` set (py_take (dget ?rules ''keep_last'' 0) ?autos)
        \<or> (\<exists>kb \<in> set buckets. bk_name b \<in> set (bucket_names local ?rules ?autos kb))" by auto
    also have "\<dots> \<longleftrightarrow> b \<in> set (py_take (dget ?rules ''keep_last'' 0) ?autos)
        \<or> (\<exists>kb \<in> set buckets. bk_name b \<in> set (bucket_names local ?rules ?autos kb))"
      using name_mem [OF d py_take_set b] by simp
    finally show ?thesis using claimed_name [OF d b, of local ?rules] by auto
  qed
  define Z where "Z \<longleftrightarrow> (\<forall>k. List.member (''keep_last'' # map fst buckets) k \<longrightarrow> dget ?rules k 0 = 0)"
  define K where "K = set ?keep"
  have "b \<in> set (survivors local backups pol t) \<longleftrightarrow> b \<in> set ?autos \<and> (Z \<or> bk_name b \<in> K)"
    unfolding sv Z_def [symmetric] K_def [symmetric] by (cases "?autos = []") auto
  also have "\<dots> \<longleftrightarrow> (b \<in> set backups \<and> is_auto (bk_name b) t) \<and> (Z \<or> bk_name b \<in> K)"
    by (simp only: set_autos)
  finally show ?thesis
    using kp unfolding Let_def Z_def [symmetric] K_def [symmetric] set_autos by blast
qed

text \<open>A host whose clock is in UTC: ordinal 719163 is the first of January 1970.\<close>

definition utc :: "rat \<Rightarrow> dt" where
  "utc s = (719163 + \<lfloor>s\<rfloor> div 86400, s - of_int (\<lfloor>s\<rfloor> div 86400 * 86400))"

definition copy_at :: "string \<Rightarrow> int \<Rightarrow> backup" where
  "copy_at n m = \<lparr>bk_name = ''auto-db-20240101-0000'' @ n, bk_mtime = m, bk_size = 10, bk_status = ''ok'', bk_locked = False\<rparr>"

theorem survivors_exact_witness:
  "let bs = [copy_at ''03'' 200000, copy_at ''02'' 190000, copy_at ''01'' 100000];
       pol = Rules [(''keep_daily'', JInt 2)]; autos = autos_of bs (Some ''DB'')
   in copy_at ''01'' 100000 \<in> set (survivors utc bs pol (Some ''DB''))
      \<and> \<not> claimed (\<lambda>b. period_of Daily (utc (of_int (bk_mtime b)))) (dget (retention_policy pol) ''keep_daily'' 0) autos (copy_at ''02'' 190000)"
proof -
  let ?bs = "[copy_at ''03'' 200000, copy_at ''02'' 190000, copy_at ''01'' 100000]"
  have "distinct (map bk_name ?bs)" by (simp add: copy_at_def)
  from survivors_exact [OF this, of "copy_at ''02'' 190000" utc "Rules [(''keep_daily'', JInt 2)]" "Some ''DB''"]
  have "copy_at ''02'' 190000 \<notin> set (survivors utc ?bs (Rules [(''keep_daily'', JInt 2)]) (Some ''DB'')) \<Longrightarrow>
     copy_at ''02'' 190000 \<in> set ?bs \<and> is_auto (bk_name (copy_at ''02'' 190000)) (Some ''DB'') \<Longrightarrow>
     \<not> (\<exists>k bk. List.member buckets (k, bk) \<and>
          claimed (\<lambda>b. period_of bk (utc (of_int (bk_mtime b)))) (dget (retention_policy (Rules [(''keep_daily'', JInt 2)])) k 0)
            (autos_of ?bs (Some ''DB'')) (copy_at ''02'' 190000))"
    by (simp only: Let_def) blast
  moreover have "copy_at ''02'' 190000 \<notin> set (survivors utc ?bs (Rules [(''keep_daily'', JInt 2)]) (Some ''DB''))"
    by code_simp
  moreover have "is_auto (bk_name (copy_at ''02'' 190000)) (Some ''DB'')" by code_simp
  moreover have "List.member buckets (''keep_daily'', Daily)" by (simp add: buckets_def)
  moreover have "copy_at ''01'' 100000 \<in> set (survivors utc ?bs (Rules [(''keep_daily'', JInt 2)]) (Some ''DB''))"
    by code_simp
  ultimately show ?thesis unfolding Let_def by auto
qed

section \<open>What is deleted\<close>

lemma find_SomeD: "find P xs = Some x \<Longrightarrow> x \<in> set xs \<and> P x"
  by (auto simp: find_Some_iff)

lemma survivors_sub: "set (survivors local backups pol t) \<subseteq> set (autos_of backups t)"
  unfolding survivors_def Let_def by auto

lemma apply_floors_sub: "set keep \<subseteq> set autos \<Longrightarrow> set (apply_floors autos keep) \<subseteq> set autos"
  unfolding apply_floors_def Let_def by (auto split: option.splits dest: find_SomeD hd_in_set)

lemma apply_floors_mono: "set keep \<subseteq> set (apply_floors autos keep)"
  unfolding apply_floors_def Let_def by (auto split: option.splits)

lemma budget_loop_mono: "set out \<subseteq> set (budget_loop budget out n bs)"
  by (induction bs arbitrary: out n) (simp_all, fastforce)

lemma budget_loop_sub: "set (budget_loop budget out n bs) \<subseteq> set out \<union> set bs"
  by (induction bs arbitrary: out n) (simp_all, fastforce+)

lemma over_budget_sub: "set (over_budget kept m) \<subseteq> set kept"
  unfolding over_budget_def Let_def
  by (auto dest: subsetD [OF budget_loop_sub])

lemma kept_sub: "set (kept_copies local backups pol t) \<subseteq> set (autos_of backups t)"
  unfolding kept_copies_def Let_def
  by (intro apply_floors_sub order_trans [OF over_budget_sub] survivors_sub)

lemma kept_floor: "set (autos_of backups t) \<noteq> {} \<Longrightarrow> set (kept_copies local backups pol t) \<noteq> {}"
  unfolding kept_copies_def Let_def apply_floors_def by (auto split: option.splits)

lemma apply_floors_ok:
  assumes "distinct (map bk_name autos)" "set keep \<subseteq> set autos" "b \<in> set autos" "bk_status b = ''ok''"
  shows "\<exists>x \<in> set (apply_floors autos keep). bk_status x = ''ok''"
proof -
  define out where "out = (if keep = [] then [hd autos] else keep)"
  have ne: "autos \<noteq> []" using assms(3) by auto
  have sub: "set out \<subseteq> set autos" using assms(2) ne by (auto simp: out_def)
  obtain g where g: "find (\<lambda>b. bk_status b = ''ok'') autos = Some g"
    using assms(3,4) by (cases "find (\<lambda>b. bk_status b = ''ok'') autos") (auto simp: find_None_iff)
  then have go: "g \<in> set autos" "bk_status g = ''ok''" by (auto dest: find_SomeD)
  show ?thesis
  proof (cases "list_ex (\<lambda>b. bk_status b = ''ok'') out")
    case True
    then have "\<exists>x \<in> set out. bk_status x = ''ok''" by (simp add: list_ex_iff)
    with True ne show ?thesis by (simp add: apply_floors_def out_def [symmetric])
  next
    case False
    have "g \<notin> set out" using False go by (auto simp: list_ex_iff)
    then have "bk_name g \<notin> bk_name ` set out" using name_mem [OF assms(1) sub go(1)] by simp
    then have "apply_floors autos keep = newest_first (out @ [g])"
      using False ne g by (simp add: apply_floors_def out_def [symmetric])
    with go show ?thesis by simp
  qed
qed

lemma hd_filter_hd: "xs \<noteq> [] \<Longrightarrow> P (hd xs) \<Longrightarrow> filter P xs \<noteq> [] \<and> hd (filter P xs) = hd xs"
  by (cases xs) auto

lemma survivors_hd:
  assumes "survivors local backups pol t \<noteq> []"
  shows "hd (survivors local backups pol t) = hd (autos_of backups t)"
proof -
  let ?rules = "retention_policy pol"
  let ?autos = "autos_of backups t"
  define keep where "keep = map bk_name (py_take (dget ?rules ''keep_last'' 0) ?autos)
                          @ concat (map (bucket_names local ?rules ?autos) buckets)"
  have ne: "?autos \<noteq> []" using assms by (auto simp: survivors_def)
  then obtain a as where a: "?autos = a # as" by (cases ?autos) auto
  have first: "bk_name a \<in> set (bucket_names local ?rules ?autos kb)" if "bucket_names local ?rules ?autos kb \<noteq> []" for kb
    using that a by (auto simp: bucket_names_def Let_def split: if_splits)
  have "bk_name a \<in> set (map bk_name (py_take n ?autos))" if "py_take n ?autos \<noteq> []" for n
  proof -
    have "\<exists>m. py_take n ?autos = take m ?autos" by (cases "0 \<le> n") (auto simp: py_take_def)
    then obtain m where m: "py_take n ?autos = take m ?autos" ..
    with that a have "0 < m" by (cases m) auto
    then show ?thesis using m a by (cases m) auto
  qed
  then have k: "bk_name a \<in> set keep" if "keep \<noteq> []"
    using that first unfolding keep_def by (fastforce simp: concat_eq_Nil_conv)
  have "survivors local backups pol t = ?autos \<or> survivors local backups pol t = filter (\<lambda>b. List.member keep (bk_name b)) ?autos"
    using ne unfolding survivors_def Let_def keep_def [symmetric] by auto
  then show ?thesis
  proof
    assume s: "survivors local backups pol t = filter (\<lambda>b. List.member keep (bk_name b)) ?autos"
    with assms have "keep \<noteq> []" by (auto simp: filter_empty_conv)
    with s a k show ?thesis by simp
  qed simp
qed

lemma newest_first_Cons_hd:
  assumes "hd bs = a" "bs \<noteq> []" "\<forall>x \<in> set bs. bk_mtime x \<le> bk_mtime a"
  shows "hd (newest_first bs) = a"
  using assms hd_newest_first [of "tl bs" a] by (cases bs) auto

lemma apply_floors_hd:
  assumes "autos = a # as" "\<forall>x \<in> set as. bk_mtime x \<le> bk_mtime a" "set keep \<subseteq> set autos" "keep = [] \<or> hd keep = a"
  shows "apply_floors autos keep \<noteq> [] \<and> hd (apply_floors autos keep) = a"
proof -
  define out where "out = (if keep = [] then [hd autos] else keep)"
  have o: "out \<noteq> []" "hd out = a" "set out \<subseteq> set autos" using assms by (auto simp: out_def)
  have top: "\<forall>x \<in> set autos. bk_mtime x \<le> bk_mtime a" using assms(1,2) by auto
  have "hd (newest_first ys) = a" if "ys = out \<or> (\<exists>g \<in> set autos. ys = out @ [g])" for ys
  proof (rule newest_first_Cons_hd)
    show "hd ys = a" "ys \<noteq> []" using that o by auto
    have "set ys \<subseteq> set autos" using that o by auto
    then show "\<forall>x \<in> set ys. bk_mtime x \<le> bk_mtime a" using top by blast
  qed
  moreover have "\<exists>ys. apply_floors autos keep = newest_first ys \<and> (ys = out \<or> (\<exists>g \<in> set autos. ys = out @ [g]))"
  proof -
    have ne: "autos \<noteq> []" using assms(1) by simp
    have e: "apply_floors autos keep = newest_first
        (if list_ex (\<lambda>b. bk_status b = ''ok'') out then out
         else case find (\<lambda>b. bk_status b = ''ok'') autos of None \<Rightarrow> out
              | Some good \<Rightarrow> if List.member (map bk_name out) (bk_name good) then out else out @ [good])"
      using ne by (simp add: apply_floors_def out_def [symmetric] Let_def)
    show ?thesis
    proof (cases "find (\<lambda>b. bk_status b = ''ok'') autos")
      case None
      with e show ?thesis by auto
    next
      case (Some g)
      then have "g \<in> set autos" by (auto dest: find_SomeD)
      with e Some show ?thesis by auto
    qed
  qed
  ultimately show ?thesis using o(1) newest_first_eq_Nil by (metis append_is_Nil_conv)
qed

lemma over_budget_hd:
  assumes "kept \<noteq> []" "opt m 0 \<le> 0 \<or> (\<forall>x \<in> set kept. \<not> bk_locked x)"
  shows "hd kept \<in> set (over_budget kept m)"
proof (cases "opt m 0 \<le> 0")
  case True
  with assms(1) show ?thesis by (simp add: over_budget_def)
next
  case False
  then have l: "filter bk_locked kept = []" and n: "\<not> bk_locked (hd kept)"
    using assms by (auto simp: filter_empty_conv)
  obtain a as where "kept = a # as" using assms(1) by (cases kept) auto
  with False l n budget_loop_mono [of "[a]" "opt m 0" "bk_size a" as] show ?thesis
    by (simp add: over_budget_def)
qed

lemma prune_set:
  assumes "distinct (map bk_name backups)"
  shows "n \<in> set (prune local backups pol t) \<longleftrightarrow>
    (\<exists>b \<in> set backups. bk_name b = n \<and> is_auto n t \<and> \<not> bk_locked b \<and> b \<notin> set (kept_copies local backups pol t))"
proof -
  have "bk_name b \<in> set (map bk_name (kept_copies local backups pol t)) \<longleftrightarrow> b \<in> set (kept_copies local backups pol t)"
    if "b \<in> set (autos_of backups t)" for b
    using name_mem [OF distinct_autos [OF assms] kept_sub that] by simp
  then show ?thesis
    unfolding prune_def Let_def by (auto simp: set_autos)
qed



text \<open>C31.
  The floors hold through any policy and any budget: a task that has automatic copies is left with at
  least one, and if any of them is good with at least one good one. When no copy of the task is locked,
  or there is no size budget, the newest copy is never deleted.\<close>

theorem prune_floors:
  assumes "distinct (map bk_name backups)" and "autos_of backups t \<noteq> []"
  shows "(\<exists>b \<in> set backups. is_auto (bk_name b) t \<and> bk_name b \<notin> set (prune local backups pol t))
    \<and> ((\<exists>b \<in> set backups. is_auto (bk_name b) t \<and> bk_status b = ''ok'') \<longrightarrow>
        (\<exists>b \<in> set backups. is_auto (bk_name b) t \<and> bk_status b = ''ok'' \<and> bk_name b \<notin> set (prune local backups pol t)))
    \<and> (opt (map_of (retention_policy pol) ''max_size'') 0 \<le> 0 \<or> (\<forall>b \<in> set (autos_of backups t). \<not> bk_locked b) \<longrightarrow>
        bk_name (hd (autos_of backups t)) \<notin> set (prune local backups pol t))"
proof -
  let ?K = "kept_copies local backups pol t"
  have safe: "b \<in> set backups \<and> is_auto (bk_name b) t \<and> bk_name b \<notin> set (prune local backups pol t)" if "b \<in> set ?K" for b
  proof -
    have b: "b \<in> set backups" "is_auto (bk_name b) t" using that kept_sub set_autos by blast+
    moreover have "b' = b" if "b' \<in> set backups" "bk_name b' = bk_name b" for b'
      using autos_name_inj [OF assms(1) that(1) b(1) that(2)] .
    ultimately show ?thesis using that prune_set [OF assms(1)] by blast
  qed
  have "\<exists>b \<in> set ?K. bk_status b = ''ok''" if "b \<in> set backups" "is_auto (bk_name b) t" "bk_status b = ''ok''" for b
    unfolding kept_copies_def Let_def
  proof (rule apply_floors_ok [OF distinct_autos [OF assms(1)]])
    show "set (over_budget (apply_floors (autos_of backups t) (survivors local backups pol t))
        (map_of (retention_policy pol) ''max_size'')) \<subseteq> set (autos_of backups t)"
      by (intro order_trans [OF over_budget_sub] apply_floors_sub survivors_sub)
    show "b \<in> set (autos_of backups t)" using that set_autos by blast
  qed (rule that(3))
  moreover have "hd (autos_of backups t) \<in> set ?K"
    if "opt (map_of (retention_policy pol) ''max_size'') 0 \<le> 0 \<or> (\<forall>b \<in> set (autos_of backups t). \<not> bk_locked b)"
  proof -
    let ?F = "apply_floors (autos_of backups t) (survivors local backups pol t)"
    obtain a as where a: "autos_of backups t = a # as" using assms(2) by (cases "autos_of backups t") auto
    have F: "?F \<noteq> [] \<and> hd ?F = a"
    proof (rule apply_floors_hd [OF a hd_autos_newest [OF a]])
      show "set (survivors local backups pol t) \<subseteq> set (autos_of backups t)" by (rule survivors_sub)
      show "survivors local backups pol t = [] \<or> hd (survivors local backups pol t) = a"
        using survivors_hd [of local backups pol t] a by auto
    qed
    have sub: "set ?F \<subseteq> set (autos_of backups t)" by (intro apply_floors_sub survivors_sub)
    have "hd ?F \<in> set (over_budget ?F (map_of (retention_policy pol) ''max_size''))"
      using that sub F by (intro over_budget_hd) auto
    then show ?thesis
      using F a subsetD [OF apply_floors_mono] unfolding kept_copies_def Let_def by simp
  qed
  moreover have "\<exists>b. b \<in> set ?K"
    using kept_floor [of backups t local pol] assms(2) hd_in_set by (metis all_not_in_conv set_empty)
  ultimately show ?thesis using safe by blast
qed

theorem prune_floors_witness:
  "\<exists>b \<in> set [copy_at ''02'' 190000, copy_at ''01'' 100000]. is_auto (bk_name b) (Some ''DB'') \<and>
     bk_name b \<notin> set (prune utc [copy_at ''02'' 190000, copy_at ''01'' 100000] (Rules [(''keep_last'', JInt 1), (''max_size'', JStr ''1'')]) (Some ''DB''))"
proof -
  let ?bs = "[copy_at ''02'' 190000, copy_at ''01'' 100000]"
  have d: "distinct (map bk_name ?bs)" by (simp add: copy_at_def)
  have "autos_of ?bs (Some ''DB'') \<noteq> []" by code_simp
  from prune_floors [OF d this] show ?thesis by blast
qed

text \<open>
  The proviso is needed: an old locked copy larger than the budget makes the budget loop stop at the
  newest copy, and the floors, which look only for an empty set, do not bring it back.
\<close>

lemma newest_copy_lost_to_a_locked_one:
  "prune utc [copy_at ''02'' 190000, (copy_at ''01'' 100000)\<lparr>bk_locked := True\<rparr>]
     (Rules [(''keep_last'', JInt 5), (''max_size'', JInt 15)]) (Some ''DB'') = [bk_name (copy_at ''02'' 190000)]"
  by code_simp

text \<open>The newest good copy may go while an older good one stays: the floor only asks that one be left.\<close>

lemma newest_good_copy_lost:
  "prune utc [(copy_at ''04'' 700000)\<lparr>bk_status := ''partial''\<rparr>, copy_at ''03'' 690000, copy_at ''02'' 20000]
     (Rules [(''keep_weekly'', JInt 2)]) (Some ''DB'') = [bk_name (copy_at ''03'' 690000)]"
  by code_simp

end
