(* ===== verification/Backup_Calendar.thy ===== *)
theory Backup_Calendar
  imports Backup_Schedule
begin

text \<open>Names and the calendar of \<^verbatim>\<open>Backup_Schedule\<close>: which task an archive belongs to, and when a copy is due.\<close>


section \<open>Whose copy an archive is\<close>

lemma length_stamp: "is_stamp s \<Longrightarrow> length s = 15"
  by (simp add: is_stamp_def)

lemma after_prefix_iff: "after_prefix p n \<longleftrightarrow> (\<exists>s. n = p @ s \<and> is_stamp s)"
  by (auto simp: after_prefix_def starts_with_iff)

lemma is_auto_task:
  "is_auto n (Some t) \<longleftrightarrow> (\<exists>s. is_stamp s \<and>
     n = auto_prefix @ (if task_slug t = [] then [] else task_slug t @ ''-'') @ s)"
  by (auto simp: is_auto_def Let_def after_prefix_iff)

lemma month_of_bounds:
  assumes "0 \<le> n" "n < sum_list ds" "list_all (\<lambda>d. d \<le> 31) ds"
  shows "m \<le> fst (month_of ds m n) \<and> fst (month_of ds m n) < m + int (length ds)
    \<and> 1 \<le> snd (month_of ds m n) \<and> snd (month_of ds m n) \<le> 31"
  using assms
proof (induction ds arbitrary: m n)
  case (Cons d ds)
  show ?case
  proof (cases "n < d")
    case True
    with Cons.prems show ?thesis by simp
  next
    case False
    with Cons.prems have "0 \<le> n - d" "n - d < sum_list ds" "list_all (\<lambda>d. d \<le> 31) ds" by auto
    from Cons.IH [OF this, of "m + 1"] False show ?thesis by auto
  qed
qed simp

lemma ord_ymd_bounds:
  assumes "ord_ymd ord = (y, m, d)"
  shows "1 \<le> m \<and> m \<le> 12 \<and> 1 \<le> d \<and> d \<le> 31"
proof -
  define n where "n = (ord - 1) mod 146097 mod 36524 mod 1461 mod 365"
  have n: "0 \<le> n" "n < 365" by (simp_all add: n_def)
  have "1 \<le> fst (month_of (month_days lp) 1 n) \<and> fst (month_of (month_days lp) 1 n) < 1 + int (length (month_days lp))
    \<and> 1 \<le> snd (month_of (month_days lp) 1 n) \<and> snd (month_of (month_days lp) 1 n) \<le> 31" for lp
    using n by (intro month_of_bounds) (auto simp: month_days_def)
  moreover have "length (month_days lp) = 12" for lp by (simp add: month_days_def)
  ultimately have b: "1 \<le> fst (month_of (month_days lp) 1 n) \<and> fst (month_of (month_days lp) 1 n) \<le> 12
    \<and> 1 \<le> snd (month_of (month_days lp) 1 n) \<and> snd (month_of (month_days lp) 1 n) \<le> 31" for lp
    by (metis zle_add1_eq_le of_nat_numeral add.commute)
  have "(m, d) = (12, 31) \<or> (\<exists>lp. (m, d) = month_of (month_days lp) 1 n)"
  proof -
    define Y where "Y = (ord - 1) div 146097 * 400 + (ord - 1) mod 146097 div 36524 * 100
      + (ord - 1) mod 146097 mod 36524 div 1461 * 4 + (ord - 1) mod 146097 mod 36524 mod 1461 div 365 + 1"
    define C where "C \<longleftrightarrow> (ord - 1) mod 146097 mod 36524 mod 1461 div 365 = 4 \<or> (ord - 1) mod 146097 div 36524 = 4"
    have e: "ord_ymd ord = (if C then (Y - 1, 12, 31)
        else (case month_of (month_days (leap Y)) 1 n of (m, d) \<Rightarrow> (Y, m, d)))"
      by (simp only: ord_ymd_def Let_def n_def Y_def C_def)
    obtain m' d' where md: "month_of (month_days (leap Y)) 1 n = (m', d')"
      by (cases "month_of (month_days (leap Y)) 1 n")
    have "(y, m, d) = (Y - 1, 12, 31) \<or> (y, m, d) = (Y, m', d')"
      using e assms unfolding md by (cases C) (simp_all only: if_True if_False prod.case simp_thms)
    then show ?thesis using md by (metis prod.inject)
  qed
  then show ?thesis using b by (metis fst_conv snd_conv order_refl one_le_numeral)
qed

lemma length_two: "0 \<le> n \<Longrightarrow> n < 100 \<Longrightarrow> length (two n) = 2 \<and> list_all is_dec (two n)"
proof -
  assume n: "0 \<le> n" "n < 100"
  then have "length (two n) = 2" unfolding two_def by (intro length_zfill) auto
  moreover have "is_dec (char_of (48 :: nat))" by (simp add: is_dec_def)
  then have "is_dec c" if "c \<in> set (two n)" for c
    using that show_dec_digits [of c "nat n"] unfolding two_def zfill_def set_append by auto
  then have "list_all is_dec (two n)" by (simp add: list_all_iff)
  ultimately show ?thesis by simp
qed

lemma length_show_dec4: "1000 \<le> y \<Longrightarrow> y \<le> 9999 \<Longrightarrow> length (show_dec (nat y)) = 4"
proof -
  assume y: "1000 \<le> y" "y \<le> 9999"
  then have "length (show_dec (nat y)) \<le> 4" by (intro length_show_dec_le) auto
  moreover have "\<not> length (show_dec (nat y)) \<le> 3"
  proof
    have up: "dec_value acc s < (acc + 1) * 10 ^ length s" if "list_all is_dec s" for acc s
      using that
    proof (induction s arbitrary: acc)
      case (Cons c s)
      have "dec_value (10 * acc + (of_char c - 48)) s < (10 * acc + (of_char c - 48) + 1) * 10 ^ length s"
        using Cons by auto
      also have "\<dots> \<le> (10 * acc + 9 + 1) * 10 ^ length s"
        using Cons.prems by (intro mult_right_mono) (auto simp: is_dec_def)
      finally show ?case by (simp add: algebra_simps)
    qed simp
    assume "length (show_dec (nat y)) \<le> 3"
    then have "(10 :: nat) ^ length (show_dec (nat y)) \<le> 10 ^ 3" by (intro power_increasing) auto
    moreover have "dec_value 0 (show_dec (nat y)) < 1 * 10 ^ length (show_dec (nat y))"
      using up [of "show_dec (nat y)" 0] show_dec_digits [of _ "nat y"] by (simp add: list_all_iff)
    ultimately have "dec_value 0 (show_dec (nat y)) < 1000" by (simp only: mult_1) simp
    with y show False using dec_value_show [of "nat y"] by simp
  qed
  ultimately show ?thesis by simp
qed

lemma is_stamp_stamp:
  assumes "1000 \<le> fst (ord_ymd (fst now))" "fst (ord_ymd (fst now)) \<le> 9999" "0 \<le> snd now" "snd now < 86400"
  shows "is_stamp (stamp now)"
proof -
  obtain y m d where o: "ord_ymd (fst now) = (y, m, d)" by (cases "ord_ymd (fst now)")
  define s where "s = \<lfloor>snd now\<rfloor>"
  have s: "0 \<le> s" "s < 86400" using assms(3,4) by (auto simp: s_def floor_less_iff)
  have md: "length (two m) = 2 \<and> list_all is_dec (two m)" "length (two d) = 2 \<and> list_all is_dec (two d)"
    using ord_ymd_bounds [OF o] by (intro length_two; simp)+
  have h: "0 \<le> s div 3600" "s div 3600 < 100" "0 \<le> s mod 3600 div 60" "s mod 3600 div 60 < 100"
      "0 \<le> s mod 60" "s mod 60 < 100"
    using s zdiv_mono1 [of s 86399 3600] zdiv_mono1 [of "s mod 3600" 3599 60] pos_mod_bound [of 3600 s]
      pos_mod_sign [of 3600 s] pos_mod_bound [of 60 s] by (simp_all add: pos_imp_zdiv_nonneg_iff)
  have "length (two (s div 3600)) = 2 \<and> list_all is_dec (two (s div 3600))"
    "length (two (s mod 3600 div 60)) = 2 \<and> list_all is_dec (two (s mod 3600 div 60))"
    "length (two (s mod 60)) = 2 \<and> list_all is_dec (two (s mod 60))"
    using h by (simp_all add: length_two)
  moreover have "length (show_dec (nat y)) = 4" using assms(1,2) o by (intro length_show_dec4) auto
  moreover have "list_all is_dec (show_dec (nat y))" using show_dec_digits by (auto simp: list_all_iff)
  moreover have "stamp now = show_dec (nat y) @ two m @ two d @ ''-'' @ two (s div 3600) @ two (s mod 3600 div 60) @ two (s mod 60)"
    by (simp add: stamp_def o s_def Let_def)
  ultimately show ?thesis using md by (simp add: is_stamp_def nth_append)
qed

text \<open>
  A copy belongs to one task: the name the scheduler gives it is recognised as that task's, and no name
  is claimed by two tasks whose names reduce to different slugs, so that the retention of one never counts
  or deletes the copies of another, not even for tasks such as \<open>db\<close> and \<open>db-full\<close>.\<close>

theorem task_owns_its_copies:
  assumes "1000 \<le> fst (ord_ymd (fst now))" "fst (ord_ymd (fst now)) \<le> 9999" "0 \<le> snd now" "snd now < 86400"
  shows "is_auto (auto_name now t) (Some t) \<and> is_auto (auto_name now t) None
    \<and> (\<forall>n s u. is_auto n (Some s) \<and> is_auto n (Some u) \<longrightarrow> task_slug s = task_slug u)"
proof (intro conjI allI impI)
  show "is_auto (auto_name now t) (Some t)"
    unfolding is_auto_task auto_name_def Let_def using is_stamp_stamp [OF assms] by auto
  show "is_auto (auto_name now t) None"
    by (simp add: is_auto_def auto_name_def Let_def)
next
  fix n s u
  assume "is_auto n (Some s) \<and> is_auto n (Some u)"
  then obtain a b where a: "is_stamp a" "n = auto_prefix @ (if task_slug s = [] then [] else task_slug s @ ''-'') @ a"
    and b: "is_stamp b" "n = auto_prefix @ (if task_slug u = [] then [] else task_slug u @ ''-'') @ b"
    unfolding is_auto_task by blast
  define p where "p = (\<lambda>x. if task_slug x = [] then [] else task_slug x @ ''-'')"
  have "p s @ a = p u @ b" using a(2) b(2) unfolding p_def by simp
  moreover have "length a = length b" using length_stamp [OF a(1)] length_stamp [OF b(1)] by simp
  ultimately have "p s = p u" by simp
  then show "task_slug s = task_slug u" unfolding p_def by (cases "task_slug s = []"; cases "task_slug u = []") auto
qed

theorem task_owns_its_copies_witness:
  "is_auto (auto_name (738886, 3723) ''db'') (Some ''db'') \<and> \<not> is_auto (auto_name (738886, 3723) ''db-full'') (Some ''db'')"
proof -
  have "ord_ymd 738886 = (2024, 1, 1)" by code_simp
  then have h: "1000 \<le> fst (ord_ymd (fst (738886, 3723 :: rat)))" "fst (ord_ymd (fst (738886, 3723 :: rat))) \<le> 9999" by simp_all
  have "task_slug ''db'' \<noteq> task_slug ''db-full''" by code_simp
  with task_owns_its_copies [OF h, of "''db''"] task_owns_its_copies [OF h, of "''db-full''"] show ?thesis by auto
qed

section \<open>When a copy is due\<close>

text \<open>The instants a calendar task is due: the hour and minute of every wanted day.\<close>

definition due_moment :: "int list \<Rightarrow> jval \<Rightarrow> dt \<Rightarrow> bool" where
  "due_moment wanted tm c \<longleftrightarrow> snd c = at_time (parse_at tm) \<and> wanted_day wanted c"

lemma day_numbers_range: "day_numbers ds = Inr ns \<Longrightarrow> n \<in> set ns \<Longrightarrow> 0 \<le> n \<and> n \<le> 6"
proof (induction ds arbitrary: ns)
  case (Cons d ds)
  from Cons.prems(1) obtain x ns' where d: "day_number d = Inr x" "day_numbers ds = Inr ns'"
    "ns = (case x of None \<Rightarrow> ns' | Some y \<Rightarrow> y # ns')" by (auto split: sum.splits)
  have "x = Some y \<Longrightarrow> 0 \<le> y \<and> y \<le> 6" for y
    using d(1) by (auto simp: day_number_def Let_def split: jval.splits if_splits option.splits)
  with d Cons.prems(2) Cons.IH [OF d(2)] show ?case by (auto split: option.splits)
qed simp

lemma normalise_days_range: "normalise_days days = Inr wanted \<Longrightarrow> n \<in> set wanted \<Longrightarrow> 0 \<le> n \<and> n \<le> 6"
  using day_numbers_range by (auto simp: normalise_days_def Let_def split: option.splits sum.splits if_splits)

text \<open>Among any seven consecutive days, one is wanted.\<close>

lemma wanted_within_week:
  assumes "\<forall>n \<in> set wanted. 0 \<le> n \<and> n \<le> 6"
  shows "\<exists>k. 0 \<le> k \<and> k \<le> 6 \<and> wanted_day wanted (d + k, x)"
proof (cases wanted)
  case Nil
  then show ?thesis by (intro exI [of _ 0]) (simp add: wanted_day_def)
next
  case (Cons w ws)
  let ?k = "(w - d - 6) mod 7"
  have "weekday (d + ?k) = (d + 6 + (w - d - 6) mod 7) mod 7" by (simp add: weekday_def algebra_simps)
  also have "\<dots> = (d + 6 + (w - d - 6)) mod 7" by (rule mod_add_right_eq)
  also have "\<dots> = w mod 7" by simp
  also have "\<dots> = w" using assms Cons by simp
  finally have "wanted_day wanted (d + ?k, x)" using Cons by (simp add: wanted_day_def)
  moreover have "0 \<le> ?k" "?k \<le> 6" using pos_mod_bound [of 7 "w - d - 6"] by (simp, linarith)
  ultimately show ?thesis by blast
qed

lemma at_time_bounds: "0 \<le> at_time (parse_at tm) \<and> at_time (parse_at tm) < 86400"
proof -
  obtain h m where p: "parse_at tm = (h, m)" by (cases "parse_at tm")
  then have "0 \<le> h \<and> h \<le> 23 \<and> 0 \<le> m \<and> m \<le> 59"
    by (auto simp: parse_at_def Let_def split: jval.splits if_splits option.splits)
  then have "0 \<le> h * 3600 + m * 60" "h * 3600 + m * 60 < 86400" by linarith+
  then have "(of_int 0 :: rat) \<le> of_int (h * 3600 + m * 60)" "(of_int (h * 3600 + m * 60) :: rat) < of_int 86400"
    by (simp_all only: of_int_le_iff of_int_less_iff)
  then show ?thesis by (simp add: at_time_def p)
qed

text \<open>The first of a run of candidates that passes a test.\<close>

lemma find_upto:
  assumes "find P (map f [i..j]) = Some c"
  shows "\<exists>k. i \<le> k \<and> k \<le> j \<and> c = f k \<and> P c \<and> (\<forall>l. i \<le> l \<and> l < k \<longrightarrow> \<not> P (f l))"
  using assms
proof (induction i j rule: upto.induct)
  case (1 i j)
  show ?case
  proof (cases "i \<le> j")
    case True
    show ?thesis
    proof (cases "P (f i)")
      case True
      with \<open>i \<le> j\<close> "1.prems" show ?thesis by (intro exI [of _ i]) (auto simp: upto_rec1)
    next
      case False
      with \<open>i \<le> j\<close> "1.prems" have "find P (map f [i + 1..j]) = Some c" by (simp add: upto_rec1)
      then obtain k where k: "i + 1 \<le> k" "k \<le> j" "c = f k" "P c" "\<forall>l. i + 1 \<le> l \<and> l < k \<longrightarrow> \<not> P (f l)"
        using "1.IH" \<open>i \<le> j\<close> by blast
      have "\<not> P (f l)" if "i \<le> l" "l < k" for l
        using k(5) False that by (cases "l = i") auto
      with k show ?thesis by (intro exI [of _ k]) auto
    qed
  next
    case False
    with "1.prems" show ?thesis by simp
  qed
qed

lemma find_upto_ex: "i \<le> k \<Longrightarrow> k \<le> j \<Longrightarrow> P (f k) \<Longrightarrow> \<exists>c. find P (map f [i..j]) = Some c"
  by (cases "find P (map f [i..j])") (auto simp: find_None_iff)

text \<open>C39.
  A calendar task always has a last due moment and a next one, and they are the right ones: the latest
  instant at or before now, and the earliest after now, that falls on a wanted day at the configured time
  of day, whatever the days chosen; the walk over a week never misses it.\<close>

theorem due_moments_exact:
  assumes "normalise_days days = Inr wanted" "0 \<le> snd now" "snd now < 86400"
  shows "(\<exists>c. last_due_at now days tm = Inr (Some c) \<and> due_moment wanted tm c \<and> c \<le> now
             \<and> (\<forall>c'. due_moment wanted tm c' \<and> c' \<le> now \<longrightarrow> c' \<le> c))
    \<and> (\<exists>c. next_window now wanted tm = Some c \<and> due_moment wanted tm c \<and> now < c
             \<and> (\<forall>c'. due_moment wanted tm c' \<and> now < c' \<longrightarrow> c \<le> c'))"
proof
  let ?t = "at_time (parse_at tm)"
  have t: "0 \<le> ?t" "?t < 86400" using at_time_bounds by auto
  have r: "\<forall>n \<in> set wanted. 0 \<le> n \<and> n \<le> 6" using normalise_days_range [OF assms(1)] by blast
  obtain d s where now: "now = (d, s)" by (cases now)
  show "\<exists>c. last_due_at now days tm = Inr (Some c) \<and> due_moment wanted tm c \<and> c \<le> now
             \<and> (\<forall>c'. due_moment wanted tm c' \<and> c' \<le> now \<longrightarrow> c' \<le> c)"
  proof -
    let ?P = "\<lambda>c. c \<le> now \<and> wanted_day wanted c"
    let ?f = "\<lambda>back. (d - back, ?t)"
    obtain k where k: "0 \<le> k" "k \<le> 6" "wanted_day wanted (d - 7 + k, ?t)"
      using wanted_within_week [OF r] by blast
    then have "?P (?f (7 - k))" by (simp add: now algebra_simps)
    with k obtain c where c: "find ?P (map ?f [0..7]) = Some c"
      using find_upto_ex [of 0 "7 - k" 7 ?P ?f] by auto
    from find_upto [OF this] obtain j where j: "0 \<le> j" "j \<le> 7" "c = ?f j" "?P c"
      "\<forall>l. 0 \<le> l \<and> l < j \<longrightarrow> \<not> ?P (?f l)" by blast
    have "c' \<le> c" if "due_moment wanted tm c'" "c' \<le> now" for c'
    proof (rule ccontr)
      define e where "e = fst c'"
      assume "\<not> c' \<le> c"
      moreover have e: "c' = (e, ?t)" using that(1) by (simp add: due_moment_def e_def prod_eq_iff)
      ultimately have "d - j < e" using j(3) by auto
      moreover have "e \<le> d" using that(2) now e by auto
      ultimately have "0 \<le> d - e" "d - e < j" by auto
      with j(5) have "\<not> ?P (?f (d - e))" by blast
      then show False using that e by (simp add: due_moment_def)
    qed
    with c j show ?thesis
      by (intro exI [of _ c]) (auto simp: last_due_at_def assms(1) now due_moment_def)
  qed
  show "\<exists>c. next_window now wanted tm = Some c \<and> due_moment wanted tm c \<and> now < c
             \<and> (\<forall>c'. due_moment wanted tm c' \<and> now < c' \<longrightarrow> c \<le> c')"
  proof -
    let ?P = "\<lambda>c. now < c \<and> wanted_day wanted c"
    let ?f = "\<lambda>fwd. (d + fwd, ?t)"
    obtain k where k: "0 \<le> k" "k \<le> 6" "wanted_day wanted (d + 1 + k, ?t)"
      using wanted_within_week [OF r] by blast
    then have "?P (?f (1 + k))" by (simp add: now algebra_simps)
    with k obtain c where c: "find ?P (map ?f [0..7]) = Some c"
      using find_upto_ex [of 0 "1 + k" 7 ?P ?f] by auto
    from find_upto [OF this] obtain j where j: "0 \<le> j" "j \<le> 7" "c = ?f j" "?P c"
      "\<forall>l. 0 \<le> l \<and> l < j \<longrightarrow> \<not> ?P (?f l)" by blast
    have "c \<le> c'" if "due_moment wanted tm c'" "now < c'" for c'
    proof (rule ccontr)
      define e where "e = fst c'"
      assume "\<not> c \<le> c'"
      moreover have e: "c' = (e, ?t)" using that(1) by (simp add: due_moment_def e_def prod_eq_iff)
      ultimately have "e < d + j" using j(3) by auto
      moreover have "d \<le> e" using that(2) now e by auto
      ultimately have "0 \<le> e - d" "e - d < j" by auto
      with j(5) have "\<not> ?P (?f (e - d))" by blast
      then show False using that e by (simp add: due_moment_def)
    qed
    with c j show ?thesis
      by (intro exI [of _ c]) (auto simp: next_window_def now due_moment_def)
  qed
qed

theorem due_moments_exact_witness:
  "\<exists>c. last_due_at (738886, 3723) (Some [JInt 2, JStr ''4'']) (JStr ''03:30'') = Inr (Some c) \<and>
       due_moment [2, 4] (JStr ''03:30'') c \<and> c \<le> (738886, 3723)"
proof -
  have n: "normalise_days (Some [JInt 2, JStr ''4'']) = Inr [2, 4]" by code_simp
  have b: "0 \<le> snd (738886 :: int, 3723 :: rat)" "snd (738886 :: int, 3723 :: rat) < 86400" by simp_all
  show ?thesis using due_moments_exact [OF n b, of "JStr ''03:30''"] by blast
qed

end
