(* ===== verification/Py_Bytes.thy ===== *)
theory Py_Bytes
  imports SS_Prelude
begin

text \<open>
  Byte strings, lists of numbers below 256, and the big-endian numbers of \<^verbatim>\<open>struct\<close> and
  \<^verbatim>\<open>int.to_bytes\<close>.
\<close>

definition be_value :: "nat list \<Rightarrow> nat" where
  "be_value bs = foldl (\<lambda>a b. 256 * a + b) 0 bs"

fun be_bytes :: "nat \<Rightarrow> nat \<Rightarrow> nat list" where
  "be_bytes 0 n = []"
| "be_bytes (Suc k) n = be_bytes k (n div 256) @ [n mod 256]"

lemma length_be_bytes [simp]: "length (be_bytes k n) = k"
  by (induction k arbitrary: n) auto

lemma be_value_bytes: "n < 256 ^ k \<Longrightarrow> be_value (be_bytes k n) = n"
proof (induction k arbitrary: n)
  case 0
  then show ?case by (simp add: be_value_def)
next
  case (Suc k)
  have "n div 256 < 256 ^ k" using Suc.prems by (simp add: less_mult_imp_div_less mult.commute)
  with Suc.IH have "be_value (be_bytes k (n div 256)) = n div 256" by blast
  then show ?case by (simp add: be_value_def)
qed

lemma be_value_bound: "list_all (\<lambda>b. b < 256) bs \<Longrightarrow> be_value bs < 256 ^ length bs"
proof (induction bs rule: rev_induct)
  case (snoc b bs)
  then have "be_value bs < 256 ^ length bs" "b < 256" by auto
  then have "256 * be_value bs + b < 256 * 256 ^ length bs" by linarith
  then show ?case by (simp add: be_value_def)
qed (simp add: be_value_def)

lemma be_bytes_range: "list_all (\<lambda>b. b < 256) (be_bytes k n)"
  by (induction k arbitrary: n) auto

end
