(* ===== verification/Cbor.thy ===== *)
theory Cbor
  imports Py_Num Py_Bytes
begin

text \<open>
  The CBOR decoder of the security keys: \<^verbatim>\<open>lib/core/mfa/cbor.py\<close>. A byte string is a list of
  numbers below 256, a text a list of code points. An exception \<^verbatim>\<open>CborError\<close> is a left value that
  names its message.
\<close>

section \<open>UTF-8\<close>

definition cont :: "nat \<Rightarrow> bool" where
  "cont b = (128 \<le> b \<and> b \<le> 191)"

text \<open>\<^verbatim>\<open>bytes.decode('utf-8')\<close>: the strict decoder, shortest forms only and no surrogates.\<close>

definition utf8_step :: "nat list \<Rightarrow> (nat \<times> nat list) option" where
  "utf8_step bs =
     (case bs of
        a # r1 \<Rightarrow>
          if a < 128 then Some (a, r1)
          else (case r1 of
              b # r2 \<Rightarrow>
                if 194 \<le> a \<and> a \<le> 223 \<and> cont b then Some ((a - 192) * 64 + (b - 128), r2)
                else (case r2 of
                    c # r3 \<Rightarrow>
                      if 224 \<le> a \<and> a \<le> 239 \<and> cont b \<and> cont c \<and> (a = 224 \<longrightarrow> 160 \<le> b) \<and> (a = 237 \<longrightarrow> b < 160)
                      then Some ((a - 224) * 4096 + (b - 128) * 64 + (c - 128), r3)
                      else (case r3 of
                          d # r4 \<Rightarrow>
                            if 240 \<le> a \<and> a \<le> 244 \<and> cont b \<and> cont c \<and> cont d
                               \<and> (a = 240 \<longrightarrow> 144 \<le> b) \<and> (a = 244 \<longrightarrow> b < 144)
                            then Some ((a - 240) * 262144 + (b - 128) * 4096 + (c - 128) * 64 + (d - 128), r4)
                            else None
                        | [] \<Rightarrow> None)
                  | [] \<Rightarrow> None)
            | [] \<Rightarrow> None)
      | [] \<Rightarrow> None)"

lemma utf8_step_shorter: "utf8_step bs = Some (c, r) \<Longrightarrow> length r < length bs"
  by (auto simp: utf8_step_def split: list.splits if_splits)

function utf8_decode :: "nat list \<Rightarrow> nat list option" where
  "utf8_decode bs =
     (if bs = [] then Some []
      else case utf8_step bs of
             None \<Rightarrow> None
           | Some (c, r) \<Rightarrow> (case utf8_decode r of None \<Rightarrow> None | Some cs \<Rightarrow> Some (c # cs)))"
  by pat_completeness auto
termination
  by (relation "measure length") (auto dest: utf8_step_shorter)

declare utf8_decode.simps [simp del]

section \<open>The decoder\<close>

datatype cbor_value =
    Cb_int int
  | Cb_bytes "nat list"
  | Cb_text "nat list"
  | Cb_array "cbor_value list"
  | Cb_map "(cbor_value \<times> cbor_value) list"
  | Cb_bool bool
  | Cb_null

datatype cb_error =
    Truncated
  | Bad_length
  | Too_deep
  | Bad_string
  | Not_utf8
  | Array_too_long
  | Map_too_long
  | Key_not_hashable
  | Duplicate_key
  | Unsupported_simple
  | Trailing_data

definition max_item :: nat where
  "max_item = 1048576"

definition cb_head :: "nat list \<Rightarrow> nat \<Rightarrow> cb_error + nat \<times> nat \<times> nat" where
  "cb_head data i0 =
     (if length data \<le> i0 then Inl Truncated
      else let initial = data ! i0; major = initial div 32; minor = initial mod 32; i = i0 + 1
        in if minor < 24 then Inr (major, minor, i)
           else if minor = 24 then
             (if length data < i + 1 then Inl Truncated else Inr (major, data ! i, i + 1))
           else if minor = 25 \<or> minor = 26 \<or> minor = 27 then
             (let width = (if minor = 25 then 2 else if minor = 26 then 4 else 8)
              in if length data < i + width then Inl Truncated
                 else Inr (major, be_value (take width (drop i data)), i + width))
           else Inl Bad_length)"

text \<open>Python compares dict keys by value: \<^verbatim>\<open>True == 1\<close> and \<^verbatim>\<open>False == 0\<close>.\<close>

fun key_value :: "cbor_value \<Rightarrow> cbor_value" where
  "key_value (Cb_bool b) = Cb_int (if b then 1 else 0)"
| "key_value v = v"

fun hashable :: "cbor_value \<Rightarrow> bool" where
  "hashable (Cb_array xs) = False"
| "hashable (Cb_map kvs) = False"
| "hashable v = True"

definition cb_string :: "nat list \<Rightarrow> nat \<Rightarrow> nat \<Rightarrow> nat \<Rightarrow> cb_error + cbor_value \<times> nat" where
  "cb_string data major arg i =
     (if max_item < arg \<or> length data < i + arg then Inl Bad_string
      else let raw = take arg (drop i data)
        in if major = 2 then Inr (Cb_bytes raw, i + arg)
           else case utf8_decode raw of
                  None \<Rightarrow> Inl Not_utf8
                | Some cs \<Rightarrow> Inr (Cb_text cs, i + arg))"

definition cb_simple :: "nat \<Rightarrow> nat \<Rightarrow> cb_error + cbor_value \<times> nat" where
  "cb_simple arg i =
     (if arg = 20 then Inr (Cb_bool False, i)
      else if arg = 21 then Inr (Cb_bool True, i)
      else if arg = 22 then Inr (Cb_null, i)
      else Inl Unsupported_simple)"

function (sequential)
  cb_item :: "nat list \<Rightarrow> nat \<Rightarrow> nat \<Rightarrow> cb_error + cbor_value \<times> nat"
  and cb_items :: "nat list \<Rightarrow> nat \<Rightarrow> nat \<Rightarrow> nat \<Rightarrow> cb_error + cbor_value list \<times> nat"
  and cb_pairs :: "nat list \<Rightarrow> nat \<Rightarrow> nat \<Rightarrow> nat \<Rightarrow> (cbor_value \<times> cbor_value) list \<Rightarrow> cb_error + (cbor_value \<times> cbor_value) list \<times> nat"
where
  "cb_item data i depth =
     (if 16 < depth then Inl Too_deep
      else case cb_head data i of
        Inl e \<Rightarrow> Inl e
      | Inr (major, arg, j) \<Rightarrow>
          if major = 0 then Inr (Cb_int (int arg), j)
          else if major = 1 then Inr (Cb_int (- 1 - int arg), j)
          else if major = 2 \<or> major = 3 then cb_string data major arg j
          else if major = 4 then
            (if max_item < arg then Inl Array_too_long
             else case cb_items data j (depth + 1) arg of
                    Inl e \<Rightarrow> Inl e
                  | Inr (xs, k) \<Rightarrow> Inr (Cb_array xs, k))
          else if major = 5 then
            (if max_item < arg then Inl Map_too_long
             else case cb_pairs data j (depth + 1) arg [] of
                    Inl e \<Rightarrow> Inl e
                  | Inr (kvs, k) \<Rightarrow> Inr (Cb_map kvs, k))
          else if major = 6 then cb_item data j (depth + 1)
          else cb_simple arg j)"
| "cb_items data i depth 0 = Inr ([], i)"
| "cb_items data i depth (Suc n) =
     (case cb_item data i depth of
        Inl e \<Rightarrow> Inl e
      | Inr (x, j) \<Rightarrow>
          (case cb_items data j depth n of
             Inl e \<Rightarrow> Inl e
           | Inr (xs, k) \<Rightarrow> Inr (x # xs, k)))"
| "cb_pairs data i depth 0 out = Inr (out, i)"
| "cb_pairs data i depth (Suc n) out =
     (case cb_item data i depth of
        Inl e \<Rightarrow> Inl e
      | Inr (key, j) \<Rightarrow>
          if \<not> hashable key then Inl Key_not_hashable
          else (case cb_item data j depth of
             Inl e \<Rightarrow> Inl e
           | Inr (val, k) \<Rightarrow>
               if List.member (map (key_value \<circ> fst) out) (key_value key) then Inl Duplicate_key
               else cb_pairs data k depth n (out @ [(key, val)])))"
  by pat_completeness auto
termination
  by (relation "inv_image (less_than <*lex*> less_than)
      (\<lambda>x. case x of Inl (d, i, depth) \<Rightarrow> (17 - depth, 0)
         | Inr (Inl (d, i, depth, n)) \<Rightarrow> (17 - depth, n)
         | Inr (Inr (d, i, depth, n, out)) \<Rightarrow> (17 - depth, n))") auto

declare cb_item.simps [simp del]

definition decode_from :: "nat list \<Rightarrow> nat \<Rightarrow> cb_error + cbor_value \<times> nat" where
  "decode_from data offset =
     (case cb_item data offset 0 of
        Inl e \<Rightarrow> Inl e
      | Inr (v, end_i) \<Rightarrow> Inr (v, end_i - offset))"

definition decode :: "nat list \<Rightarrow> cb_error + cbor_value" where
  "decode data =
     (case decode_from data 0 of
        Inl e \<Rightarrow> Inl e
      | Inr (v, used) \<Rightarrow> if used \<noteq> length data then Inl Trailing_data else Inr v)"

end
