(* ===== verification/Cbor_Proofs.thy ===== *)
theory Cbor_Proofs
  imports Cbor
begin

text \<open>The decoder of \<^verbatim>\<open>Cbor\<close>: it inverts a canonical encoder, depends only on the bytes it consumes, and answers only well-formed values.\<close>

section \<open>UTF-8 both ways\<close>

definition valid_cp :: "nat \<Rightarrow> bool" where
  "valid_cp c \<longleftrightarrow> c < 55296 \<or> (57344 \<le> c \<and> c < 1114112)"

definition utf8_char :: "nat \<Rightarrow> nat list" where
  "utf8_char c =
     (if c < 128 then [c]
      else if c < 2048 then [192 + c div 64, 128 + c mod 64]
      else if c < 65536 then [224 + c div 4096, 128 + c div 64 mod 64, 128 + c mod 64]
      else [240 + c div 262144, 128 + c div 4096 mod 64, 128 + c div 64 mod 64, 128 + c mod 64])"

definition utf8_encode :: "nat list \<Rightarrow> nat list" where
  "utf8_encode cs = concat (map utf8_char cs)"

lemma cont_digit: "cont (128 + x mod 64)"
  using mod_less_divisor [of 64 x] by (simp add: cont_def)

lemma digits2: "c div 64 * 64 + c mod 64 = (c :: nat)"
  by simp

lemma digits3: "c div 4096 * 4096 + c div 64 mod 64 * 64 + c mod 64 = (c :: nat)"
proof -
  have "c div 4096 = c div 64 div 64" by (simp add: div_mult2_eq [symmetric])
  moreover have "c div 64 div 64 * 64 + c div 64 mod 64 = c div 64" by simp
  ultimately have "c div 4096 * 64 + c div 64 mod 64 = c div 64" by simp
  moreover have "c div 64 * 64 + c mod 64 = c" by simp
  ultimately show ?thesis by linarith
qed

lemma digits4: "c div 262144 * 262144 + c div 4096 mod 64 * 4096 + c div 64 mod 64 * 64 + c mod 64 = (c :: nat)"
proof -
  have "c div 262144 = c div 4096 div 64" by (simp add: div_mult2_eq [symmetric])
  moreover have "c div 4096 div 64 * 64 + c div 4096 mod 64 = c div 4096" by simp
  ultimately have "c div 262144 * 64 + c div 4096 mod 64 = c div 4096" by simp
  then show ?thesis using digits3 [of c] by linarith
qed

lemma utf8_step_char:
  assumes "valid_cp c"
  shows "utf8_step (utf8_char c @ r) = Some (c, r)"
proof -
  consider "c < 128" | "128 \<le> c" "c < 2048" | "2048 \<le> c" "c < 65536" | "65536 \<le> c" "c < 1114112"
    using assms unfolding valid_cp_def by linarith
  then show ?thesis
  proof cases
    case 1
    then show ?thesis by (simp add: utf8_char_def utf8_step_def)
  next
    case 2
    then have "2 \<le> c div 64" "c div 64 < 32" using div_le_mono [of 128 c 64] by (auto simp: less_mult_imp_div_less)
    with 2 show ?thesis by (simp add: utf8_char_def utf8_step_def cont_digit)
  next
    case 3
    have a: "c div 4096 < 16" using 3 by (simp add: less_mult_imp_div_less)
    have b: "32 \<le> c div 64 mod 64" if "c div 4096 = 0"
      using 3 that digits3 [of c] mod_less_divisor [of 64 c] by simp
    have d: "c div 64 mod 64 < 32" if "c div 4096 = 13"
      using assms 3 that digits3 [of c] by (auto simp: valid_cp_def)
    from a b d 3 digits3 [of c] show ?thesis by (simp add: utf8_char_def utf8_step_def cont_digit)
  next
    case 4
    have a: "c div 262144 \<le> 4" using 4 div_le_mono [of c 1114111 262144] by simp
    have b: "16 \<le> c div 4096 mod 64" if "c div 262144 = 0"
      using 4 that digits4 [of c] mod_less_divisor [of 64 c] mod_less_divisor [of 64 "c div 64"] by simp
    have d: "c div 4096 mod 64 < 16" if "c div 262144 = 4"
      using 4 that digits4 [of c] by simp
    from a b d 4 digits4 [of c] show ?thesis by (simp add: utf8_char_def utf8_step_def cont_digit)
  qed
qed

lemma utf8_decode_encode: "list_all valid_cp cs \<Longrightarrow> utf8_decode (utf8_encode cs) = Some cs"
proof (induction cs)
  case Nil
  then show ?case by (simp add: utf8_encode_def utf8_decode.simps)
next
  case (Cons c cs)
  have "utf8_encode (c # cs) = utf8_char c @ utf8_encode cs" by (simp add: utf8_encode_def)
  moreover have "utf8_char c \<noteq> []" by (simp add: utf8_char_def)
  ultimately show ?case using Cons utf8_step_char [of c "utf8_encode cs"]
    by (subst utf8_decode.simps) simp
qed

lemma digit_split: "z < 64 \<Longrightarrow> (q * 64 + z) div 64 = q \<and> (q * 64 + z) mod 64 = (z :: nat)"
  by simp

lemma utf8_step_inv:
  assumes "utf8_step bs = Some (c, r)"
  shows "valid_cp c \<and> bs = utf8_char c @ r"
proof -
  from assms consider
      a where "bs = a # r" "a < 128" "c = a"
    | a b where "bs = a # b # r" "194 \<le> a" "a \<le> 223" "cont b" "c = (a - 192) * 64 + (b - 128)"
    | a b d where "bs = a # b # d # r" "224 \<le> a" "a \<le> 239" "cont b" "cont d" "a = 224 \<longrightarrow> 160 \<le> b"
        "a = 237 \<longrightarrow> b < 160" "c = (a - 224) * 4096 + (b - 128) * 64 + (d - 128)"
    | a b d e where "bs = a # b # d # e # r" "240 \<le> a" "a \<le> 244" "cont b" "cont d" "cont e"
        "a = 240 \<longrightarrow> 144 \<le> b" "a = 244 \<longrightarrow> b < 144"
        "c = (a - 240) * 262144 + (b - 128) * 4096 + (d - 128) * 64 + (e - 128)"
    by (auto simp: utf8_step_def split: list.splits if_splits)
  then show ?thesis
  proof cases
    case 1
    then show ?thesis by (simp add: utf8_char_def valid_cp_def)
  next
    case (2 a b)
    define x y where "x = a - 192" and "y = b - 128"
    with 2 have xy: "a = 192 + x" "b = 128 + y" "2 \<le> x" "x < 32" "y < 64" by (auto simp: cont_def)
    then have c: "c = x * 64 + y" using 2 by simp
    then have "c div 64 = x" "c mod 64 = y" using xy by simp_all
    with xy c 2(1) show ?thesis by (auto simp: utf8_char_def valid_cp_def)
  next
    case (3 a b d)
    define x y z where "x = a - 224" and "y = b - 128" and "z = d - 128"
    with 3 have xy: "a = 224 + x" "b = 128 + y" "d = 128 + z" "x < 16" "y < 64" "z < 64"
      "x = 0 \<longrightarrow> 32 \<le> y" "x = 13 \<longrightarrow> y < 32" by (auto simp: cont_def)
    then have c: "c = (x * 64 + y) * 64 + z" using 3 by simp
    then have d1: "c div 64 = x * 64 + y" "c mod 64 = z" using digit_split [OF xy(6), of "x * 64 + y"] by simp_all
    moreover have "c div 4096 = x" "c div 64 mod 64 = y"
      using d1 digit_split [OF xy(5), of x] div_mult2_eq [of c 64 64] by simp_all
    moreover have "2048 \<le> c" using xy c by (cases "x = 0") auto
    moreover have "c < 65536" using xy c by simp
    moreover have "valid_cp c"
      using xy c by (cases "x < 13"; cases "x = 13") (auto simp: valid_cp_def)
    ultimately show ?thesis using xy 3(1) by (simp add: utf8_char_def)
  next
    case (4 a b d e)
    define x y z w where "x = a - 240" and "y = b - 128" and "z = d - 128" and "w = e - 128"
    with 4 have xy: "a = 240 + x" "b = 128 + y" "d = 128 + z" "e = 128 + w" "x \<le> 4" "y < 64" "z < 64" "w < 64"
      "x = 0 \<longrightarrow> 16 \<le> y" "x = 4 \<longrightarrow> y < 16" by (auto simp: cont_def)
    then have c: "c = ((x * 64 + y) * 64 + z) * 64 + w" using 4 by simp
    then have d1: "c div 64 = (x * 64 + y) * 64 + z" "c mod 64 = w"
      using digit_split [OF xy(8), of "(x * 64 + y) * 64 + z"] by simp_all
    then have d2: "c div 4096 = x * 64 + y" "c div 64 mod 64 = z"
      using digit_split [OF xy(7), of "x * 64 + y"] div_mult2_eq [of c 64 64] by simp_all
    then have d3: "c div 262144 = x" "c div 4096 mod 64 = y"
      using digit_split [OF xy(6), of x] div_mult2_eq [of c 4096 64] by simp_all
    have "65536 \<le> c" using xy c by (cases "x = 0") auto
    moreover have "c < 1114112" using xy c by (cases "x = 4") auto
    ultimately show ?thesis using xy d1 d2 d3 4(1) by (simp add: utf8_char_def valid_cp_def)
  qed
qed

lemma utf8_decode_inv: "utf8_decode bs = Some cs \<Longrightarrow> list_all valid_cp cs \<and> utf8_encode cs = bs"
proof (induction bs arbitrary: cs rule: utf8_decode.induct)
  case (1 bs)
  show ?case
  proof (cases "bs = []")
    case True
    with 1 show ?thesis by (simp add: utf8_decode.simps utf8_encode_def)
  next
    case False
    with "1.prems" obtain c r cs' where s: "utf8_step bs = Some (c, r)" "utf8_decode r = Some cs'" "cs = c # cs'"
      by (subst (asm) utf8_decode.simps) (auto split: option.splits prod.splits)
    with "1.IH" False have "list_all valid_cp cs' \<and> utf8_encode cs' = r" by blast
    with s utf8_step_inv [OF s(1)] show ?thesis by (simp add: utf8_encode_def)
  qed
qed

section \<open>A canonical encoder\<close>

text \<open>The shortest encoding of RFC 8949; the specification the decoder is checked against.\<close>

definition enc_head :: "nat \<Rightarrow> nat \<Rightarrow> nat list" where
  "enc_head major n =
     (if n < 24 then [major * 32 + n]
      else if n < 2 ^ 8 then (major * 32 + 24) # be_bytes 1 n
      else if n < 2 ^ 16 then (major * 32 + 25) # be_bytes 2 n
      else if n < 2 ^ 32 then (major * 32 + 26) # be_bytes 4 n
      else (major * 32 + 27) # be_bytes 8 n)"

fun cb_enc :: "cbor_value \<Rightarrow> nat list" where
  "cb_enc (Cb_int n) = (if 0 \<le> n then enc_head 0 (nat n) else enc_head 1 (nat (- 1 - n)))"
| "cb_enc (Cb_bytes bs) = enc_head 2 (length bs) @ bs"
| "cb_enc (Cb_text cs) = enc_head 3 (length (utf8_encode cs)) @ utf8_encode cs"
| "cb_enc (Cb_array xs) = enc_head 4 (length xs) @ concat (map cb_enc xs)"
| "cb_enc (Cb_map kvs) = enc_head 5 (length kvs) @ concat (map (\<lambda>(k, v). cb_enc k @ cb_enc v) kvs)"
| "cb_enc (Cb_bool b) = [if b then 245 else 244]"
| "cb_enc Cb_null = [246]"

text \<open>The values a document may hold, at a given depth.\<close>

fun cb_ok :: "nat \<Rightarrow> cbor_value \<Rightarrow> bool" where
  "cb_ok d (Cb_int n) = (d \<le> 16 \<and> - (2 ^ 64) \<le> n \<and> n < 2 ^ 64)"
| "cb_ok d (Cb_bytes bs) = (d \<le> 16 \<and> length bs \<le> max_item \<and> list_all (\<lambda>b. b < 256) bs)"
| "cb_ok d (Cb_text cs) = (d \<le> 16 \<and> length (utf8_encode cs) \<le> max_item \<and> list_all valid_cp cs)"
| "cb_ok d (Cb_array xs) = (d \<le> 16 \<and> length xs \<le> max_item \<and> list_all (cb_ok (d + 1)) xs)"
| "cb_ok d (Cb_map kvs) = (d \<le> 16 \<and> length kvs \<le> max_item
     \<and> list_all (\<lambda>(k, v). hashable k \<and> cb_ok (d + 1) k \<and> cb_ok (d + 1) v) kvs
     \<and> distinct (map (key_value \<circ> fst) kvs))"
| "cb_ok d (Cb_bool b) = (d \<le> 16)"
| "cb_ok d Cb_null = (d \<le> 16)"

lemma cb_head_byte:
  assumes "data ! i = major * 32 + minor" "minor < 32" "i < length data"
  shows "cb_head data i =
     (if minor < 24 then Inr (major, minor, i + 1)
           else if minor = 24 then
             (if length data < i + 2 then Inl Truncated else Inr (major, data ! (i + 1), i + 2))
           else if minor = 25 \<or> minor = 26 \<or> minor = 27 then
             (let width = (if minor = 25 then 2 else if minor = 26 then 4 else 8)
              in if length data < i + 1 + width then Inl Truncated
                 else Inr (major, be_value (take width (drop (i + 1) data)), i + 1 + width))
           else Inl Bad_length)"
proof -
  have "data ! i div 32 = major" "data ! i mod 32 = minor" using assms by simp_all
  with assms(3) show ?thesis by (simp add: cb_head_def Let_def)
qed

lemma cb_head_enc:
  assumes "n < 2 ^ 64"
  shows "cb_head (pre @ enc_head major n @ rest) (length pre) = Inr (major, n, length pre + length (enc_head major n))"
proof -
  have wide: "cb_head (pre @ ((major * 32 + minor) # be_bytes k n) @ rest) (length pre)
      = Inr (major, n, length pre + length ((major * 32 + minor) # be_bytes k n))"
    if "(minor, k) \<in> {(25, 2), (26, 4), (27, 8)}" "n < 256 ^ k" for minor k
    using that be_value_bytes [OF that(2)]
    by (subst cb_head_byte [of _ _ major minor]) (auto simp: nth_append Let_def)
  consider "n < 24" | "24 \<le> n" "n < 256" | "256 \<le> n" "n < 65536" | "65536 \<le> n" "n < 4294967296" | "4294967296 \<le> n"
    by linarith
  then show ?thesis
  proof cases
    case 1
    then show ?thesis by (subst cb_head_byte [of _ _ major n]) (auto simp: nth_append enc_head_def)
  next
    case 2
    then show ?thesis by (subst cb_head_byte [of _ _ major 24]) (auto simp: nth_append enc_head_def)
  next
    case 3
    with wide [of 25 2] show ?thesis by (simp add: enc_head_def)
  next
    case 4
    with wide [of 26 4] show ?thesis by (simp add: enc_head_def)
  next
    case 5
    with assms wide [of 27 8] show ?thesis by (simp add: enc_head_def)
  qed
qed

section \<open>Decoding what was encoded\<close>

text \<open>An item, in the middle of any document, is read back and the reader stops at its end.\<close>

definition reads_back :: "cbor_value \<Rightarrow> bool" where
  "reads_back v \<longleftrightarrow> (\<forall>pre rest d. cb_ok d v \<longrightarrow>
     cb_item (pre @ cb_enc v @ rest) (length pre) d = Inr (v, length pre + length (cb_enc v)))"

lemma reads_backD:
  "reads_back v \<Longrightarrow> cb_ok d v \<Longrightarrow> data = pre @ cb_enc v @ rest \<Longrightarrow> i = length pre \<Longrightarrow>
     cb_item data i d = Inr (v, i + length (cb_enc v))"
  by (simp add: reads_back_def)

lemma cb_items_enc:
  assumes "\<forall>x \<in> set xs. reads_back x" "list_all (cb_ok d) xs"
    "data = pre @ concat (map cb_enc xs) @ rest" "i = length pre"
  shows "cb_items data i d (length xs) = Inr (xs, i + length (concat (map cb_enc xs)))"
  using assms
proof (induction xs arbitrary: pre i)
  case Nil
  then show ?case by simp
next
  case (Cons x xs)
  have "cb_item data i d = Inr (x, i + length (cb_enc x))"
    using Cons.prems by (intro reads_backD [of x d data pre "concat (map cb_enc xs) @ rest"]) auto
  moreover have "cb_items data (i + length (cb_enc x)) d (length xs)
      = Inr (xs, i + length (cb_enc x) + length (concat (map cb_enc xs)))"
    using Cons.prems by (intro Cons.IH [of "pre @ cb_enc x"]) auto
  ultimately show ?case by simp
qed

lemma cb_pairs_enc:
  assumes "\<forall>(k, v) \<in> set kvs. reads_back k \<and> reads_back v"
    "list_all (\<lambda>(k, v). hashable k \<and> cb_ok d k \<and> cb_ok d v) kvs"
    "distinct (map (key_value \<circ> fst) (out @ kvs))"
    "data = pre @ concat (map (\<lambda>(k, v). cb_enc k @ cb_enc v) kvs) @ rest" "i = length pre"
  shows "cb_pairs data i d (length kvs) out
     = Inr (out @ kvs, i + length (concat (map (\<lambda>(k, v). cb_enc k @ cb_enc v) kvs)))"
  using assms
proof (induction kvs arbitrary: pre i out)
  case Nil
  then show ?case by simp
next
  case (Cons kv kvs)
  obtain k v where kv: "kv = (k, v)" by (cases kv)
  let ?tail = "concat (map (\<lambda>(k, v). cb_enc k @ cb_enc v) kvs) @ rest"
  have "cb_item data i d = Inr (k, i + length (cb_enc k))"
    using Cons.prems kv by (intro reads_backD [of k d data pre "cb_enc v @ ?tail"]) auto
  moreover have "cb_item data (i + length (cb_enc k)) d = Inr (v, i + length (cb_enc k) + length (cb_enc v))"
    using Cons.prems kv by (intro reads_backD [of v d data "pre @ cb_enc k" ?tail]) auto
  moreover have "cb_pairs data (i + length (cb_enc k) + length (cb_enc v)) d (length kvs) (out @ [(k, v)])
      = Inr ((out @ [(k, v)]) @ kvs, i + length (cb_enc k) + length (cb_enc v)
          + length (concat (map (\<lambda>(k, v). cb_enc k @ cb_enc v) kvs)))"
    using Cons.prems kv by (intro Cons.IH [of _ "pre @ cb_enc k @ cb_enc v"]) auto
  moreover have "hashable k" "key_value k \<notin> (key_value \<circ> fst) ` set out"
    using Cons.prems kv by (auto simp: image_comp)
  ultimately show ?case using kv by (simp add: image_comp)
qed

lemma reads_backI:
  assumes "n < 2 ^ 64" "cb_enc v = enc_head major n @ body"
    and "\<And>pre rest d data i. cb_ok d v \<Longrightarrow> data = (pre @ enc_head major n) @ body @ rest \<Longrightarrow> i = length (pre @ enc_head major n) \<Longrightarrow>
      cb_head data (length pre) = Inr (major, n, i) \<Longrightarrow> cb_item data (length pre) d = Inr (v, i + length body)"
  shows "reads_back v"
  unfolding reads_back_def
proof (intro allI impI)
  fix pre rest d
  assume "cb_ok d v"
  moreover have "cb_head (pre @ enc_head major n @ body @ rest) (length pre) = Inr (major, n, length (pre @ enc_head major n))"
    using cb_head_enc [OF assms(1), of pre major "body @ rest"] by simp
  ultimately show "cb_item (pre @ cb_enc v @ rest) (length pre) d = Inr (v, length pre + length (cb_enc v))"
    using assms(3) [of d "pre @ cb_enc v @ rest" pre rest] assms(2) by simp
qed

lemma max_item_bound: "n \<le> max_item \<Longrightarrow> n < 2 ^ 64"
  by (simp add: max_item_def)

lemma reads_back: "reads_back v"
proof (induction v)
  case (Cb_int n)
  show ?case
  proof (cases "- (2 ^ 64) \<le> n \<and> n < 2 ^ 64")
    case False
    then show ?thesis by (auto simp: reads_back_def)
  next
    case True
    show ?thesis
    proof (cases "0 \<le> n")
      case nonneg: True
      with True show ?thesis
        by (intro reads_backI [of "nat n" _ 0 "[]"]) (auto simp: cb_item.simps)
    next
      case False
      with True show ?thesis
        by (intro reads_backI [of "nat (- 1 - n)" _ 1 "[]"]) (auto simp: cb_item.simps)
    qed
  qed
next
  case (Cb_bytes bs)
  show ?case
  proof (cases "length bs \<le> max_item")
    case False
    then show ?thesis by (auto simp: reads_back_def)
  next
    case True
    then show ?thesis
      by (intro reads_backI [OF max_item_bound [OF True], of _ 2 bs]) (auto simp: cb_item.simps cb_string_def)
  qed
next
  case (Cb_text cs)
  show ?case
  proof (cases "length (utf8_encode cs) \<le> max_item")
    case False
    then show ?thesis by (auto simp: reads_back_def)
  next
    case True
    then show ?thesis
      by (intro reads_backI [OF max_item_bound [OF True], of _ 3 "utf8_encode cs"])
        (auto simp: cb_item.simps cb_string_def utf8_decode_encode)
  qed
next
  case (Cb_array xs)
  show ?case
  proof (cases "length xs \<le> max_item")
    case False
    then show ?thesis by (auto simp: reads_back_def)
  next
    case True
    show ?thesis
    proof (rule reads_backI [OF max_item_bound [OF True], of _ 4 "concat (map cb_enc xs)"])
      fix pre rest d data i
      assume *: "cb_ok d (Cb_array xs)" "data = (pre @ enc_head 4 (length xs)) @ concat (map cb_enc xs) @ rest"
        "i = length (pre @ enc_head 4 (length xs))" "cb_head data (length pre) = Inr (4, length xs, i)"
      have "cb_items data i (d + 1) (length xs) = Inr (xs, i + length (concat (map cb_enc xs)))"
        using Cb_array * by (intro cb_items_enc [of xs "d + 1" data "pre @ enc_head 4 (length xs)" rest i]) auto
      with * show "cb_item data (length pre) d = Inr (Cb_array xs, i + length (concat (map cb_enc xs)))"
        by (simp add: cb_item.simps)
    qed simp
  qed
next
  case (Cb_map kvs)
  let ?body = "concat (map (\<lambda>(k, v). cb_enc k @ cb_enc v) kvs)"
  show ?case
  proof (cases "length kvs \<le> max_item")
    case False
    then show ?thesis by (auto simp: reads_back_def)
  next
    case True
    show ?thesis
    proof (rule reads_backI [OF max_item_bound [OF True], of _ 5 ?body])
      fix pre rest d data i
      assume *: "cb_ok d (Cb_map kvs)" "data = (pre @ enc_head 5 (length kvs)) @ ?body @ rest"
        "i = length (pre @ enc_head 5 (length kvs))" "cb_head data (length pre) = Inr (5, length kvs, i)"
      have "\<forall>(k, v) \<in> set kvs. reads_back k \<and> reads_back v" using Cb_map by fastforce
      then have "cb_pairs data i (d + 1) (length kvs) [] = Inr ([] @ kvs, i + length ?body)"
        using * by (intro cb_pairs_enc [of kvs "d + 1" "[]" data "pre @ enc_head 5 (length kvs)" rest i]) auto
      with * show "cb_item data (length pre) d = Inr (Cb_map kvs, i + length ?body)"
        by (simp add: cb_item.simps)
    qed simp
  qed
next
  case (Cb_bool b)
  show ?case
    by (intro reads_backI [of "if b then 21 else 20" _ 7 "[]"]) (auto simp: cb_item.simps cb_simple_def enc_head_def)
next
  case Cb_null
  show ?case
    by (intro reads_backI [of 22 _ 7 "[]"]) (auto simp: cb_item.simps cb_simple_def enc_head_def)
qed

text \<open>C26.
  Whatever a canonical encoder writes for a value of the supported kinds, nested at most sixteen deep and
  with items of at most \<open>max_item\<close>, is decoded to that very value: as a whole document, and in the middle
  of a longer buffer, where the number of bytes consumed is the length of the encoding.\<close>

theorem decode_encode:
  assumes "cb_ok 0 v"
  shows "decode (cb_enc v) = Inr v \<and> decode_from (pre @ cb_enc v @ rest) (length pre) = Inr (v, length (cb_enc v))"
proof -
  have r: "cb_item (p @ cb_enc v @ q) (length p) 0 = Inr (v, length p + length (cb_enc v))" for p q
    using reads_back [of v] assms by (simp add: reads_back_def)
  from r [of "[]" "[]"] r [of pre rest] show ?thesis by (simp add: decode_def decode_from_def)
qed

theorem decode_encode_witness:
  "let v = Cb_map [(Cb_text [97, 8364], Cb_array [Cb_int 7, Cb_int (- 70000), Cb_null]), (Cb_int 3, Cb_bytes [1, 2, 255])]
   in decode (cb_enc v) = Inr v"
proof -
  have "cb_ok 0 (Cb_map [(Cb_text [97, 8364], Cb_array [Cb_int 7, Cb_int (- 70000), Cb_null]), (Cb_int 3, Cb_bytes [1, 2, 255])])"
    by code_simp
  from decode_encode [OF this] show ?thesis by (simp only: Let_def)
qed

section \<open>What an answer depends on\<close>

lemma cb_head_frame:
  assumes "cb_head data i = Inr (major, arg, j)"
  shows "i < j \<and> j \<le> length data \<and> (take j data' = take j data \<longrightarrow> cb_head data' i = Inr (major, arg, j))"
proof -
  have sub: "take m (drop k xs) = take m (drop k ys) \<and> k + m \<le> length ys"
    if "take (k + m) ys = take (k + m) xs" "k + m \<le> length xs" for m k and xs ys :: "nat list"
  proof -
    have "min (length ys) (k + m) = min (length xs) (k + m)" using that(1) by (metis length_take)
    with that(2) have "k + m \<le> length ys" by linarith
    moreover have "take m (drop k zs) = drop k (take (k + m) zs)" for zs :: "nat list"
      by (simp add: take_drop add.commute)
    ultimately show ?thesis using that(1) by simp
  qed
  have nth: "ys ! k = xs ! k \<and> k < length ys" if "take j ys = take j xs" "k < j" "j \<le> length xs" for k and xs ys :: "nat list"
  proof -
    have "min (length ys) j = min (length xs) j" using that(1) by (metis length_take)
    with that have "k < length ys" by linarith
    moreover have "ys ! k = xs ! k" using that(1,2) by (metis nth_take)
    ultimately show ?thesis by blast
  qed
  have i: "i < length data" using assms by (auto simp: cb_head_def split: if_splits)
  define m where "m = data ! i mod 32"
  have "m < 24 \<or> m = 24 \<or> m = 25 \<or> m = 26 \<or> m = 27 \<or> 27 < m" by linarith
  then consider "m < 24" | "m = 24" | w :: nat where "(m, w) \<in> {(25, 2), (26, 4), (27, 8)}" | "27 < m" by blast
  then show ?thesis
  proof cases
    case 1
    with assms i have j: "j = i + 1" "major = data ! i div 32" "arg = m" by (simp_all add: cb_head_def Let_def m_def)
    have "cb_head data' i = Inr (major, arg, j)" if t: "take j data' = take j data"
      using nth [OF t, of i] 1 i j by (simp add: cb_head_def Let_def m_def)
    with i j show ?thesis by simp
  next
    case 2
    with assms i have j: "j = i + 2" "major = data ! i div 32" "arg = data ! (i + 1)" "i + 2 \<le> length data"
      by (simp_all add: cb_head_def Let_def m_def split: if_splits)
    have "cb_head data' i = Inr (major, arg, j)" if t: "take j data' = take j data"
      using nth [OF t, of i] nth [OF t, of "i + 1"] 2 i j by (simp add: cb_head_def Let_def m_def)
    with i j show ?thesis by simp
  next
    case (3 w)
    have e: "cb_head xs i = (if length xs < i + 1 + w then Inl Truncated
        else Inr (xs ! i div 32, be_value (take w (drop (i + 1) xs)), i + 1 + w))"
      if "i < length xs" "xs ! i mod 32 = m" for xs
      using 3 that by (auto simp: cb_head_def Let_def)
    from e [OF i] assms have j: "j = i + 1 + w" "major = data ! i div 32" "arg = be_value (take w (drop (i + 1) data))"
      "i + 1 + w \<le> length data" by (simp_all add: m_def split: if_splits)
    have "cb_head data' i = Inr (major, arg, j)" if t: "take j data' = take j data"
      using nth [OF t, of i] sub [of "i + 1" w data' data] t i j e [of data'] by (simp add: m_def)
    with i j show ?thesis by simp
  next
    case 4
    with assms i show ?thesis by (simp add: cb_head_def Let_def m_def)
  qed
qed

lemma take_le: "take j ys = take j xs \<Longrightarrow> k \<le> j \<Longrightarrow> take k ys = take k xs"
  by (metis min.absorb1 take_take)

lemma take_drop_same: "take (i + n) ys = take (i + n) xs \<Longrightarrow> take n (drop i ys) = take n (drop i xs)"
  by (metis add.commute take_drop)

lemma take_long: "take j ys = take j xs \<Longrightarrow> j \<le> length xs \<Longrightarrow> j \<le> length ys"
  by (metis length_take min.absorb_iff2 min.commute)

lemma cb_string_frame:
  assumes "cb_string data major arg i = Inr (v, j)"
  shows "i \<le> j \<and> j \<le> length data \<and> (take j data' = take j data \<longrightarrow> cb_string data' major arg i = Inr (v, j))"
proof -
  have j: "j = i + arg" "i + arg \<le> length data" "arg \<le> max_item"
    using assms by (auto simp: cb_string_def Let_def split: if_splits option.splits)
  have "cb_string data' major arg i = Inr (v, j)" if t: "take j data' = take j data"
    using assms j take_drop_same [of i arg data' data] take_long [OF t] t
    by (simp add: cb_string_def Let_def)
  with j show ?thesis by simp
qed

lemma cb_simple_end: "cb_simple arg i = Inr (v, j) \<Longrightarrow> j = i"
  by (auto simp: cb_simple_def split: if_splits)

text \<open>The computation induction over the three readers, for a property of what they answer.\<close>

lemma cb_frame:
  "cb_item data i d = Inr (v, j) \<Longrightarrow>
     i < j \<and> j \<le> length data \<and> (\<forall>data'. take j data' = take j data \<longrightarrow> cb_item data' i d = Inr (v, j))"
  "cb_items data i d n = Inr (xs, j) \<Longrightarrow> i \<le> length data \<Longrightarrow>
     i \<le> j \<and> j \<le> length data \<and> (\<forall>data'. take j data' = take j data \<longrightarrow> cb_items data' i d n = Inr (xs, j))"
  "cb_pairs data i d n out = Inr (kvs, j) \<Longrightarrow> i \<le> length data \<Longrightarrow>
     i \<le> j \<and> j \<le> length data \<and> (\<forall>data'. take j data' = take j data \<longrightarrow> cb_pairs data' i d n out = Inr (kvs, j))"
proof (induction data i d and data i d n and data i d n out arbitrary: v j and xs j and kvs j
    rule: cb_item_cb_items_cb_pairs.induct)
  case (1 data i d)
  note e = cb_item.simps [of _ i d]
  have d: "\<not> 16 < d" using "1.prems" unfolding e [of data] by (cases "16 < d") simp_all
  obtain major arg k where h: "cb_head data i = Inr (major, arg, k)"
    using "1.prems" d unfolding e [of data] by (auto split: sum.splits)
  note hf = cb_head_frame [OF h]
  have ik: "i < k" "k \<le> length data" using hf by blast+
  show ?case
  proof (cases "major = 4")
    case True
    with "1.prems" d h obtain xs where xs: "cb_items data k (d + 1) arg = Inr (xs, j)" "v = Cb_array xs" "\<not> max_item < arg"
      unfolding e [of data] by (auto split: if_splits sum.splits)
    have *: "k \<le> j \<and> j \<le> length data \<and> (\<forall>data'. take j data' = take j data \<longrightarrow> cb_items data' k (d + 1) arg = Inr (xs, j))"
      by (rule "1.IH"(1) [OF d h refl refl _ _ _ _ _ xs(1)]) (use True xs hf in auto)
    have "cb_item data' i d = Inr (v, j)" if t: "take j data' = take j data" for data'
      using * t take_le [OF t, of k] hf [of data'] d xs True by (simp add: e [of data'])
    with * ik show ?thesis by auto
  next
    case n4: False
    show ?thesis
    proof (cases "major = 5")
      case True
      with "1.prems" d h obtain kvs where xs: "cb_pairs data k (d + 1) arg [] = Inr (kvs, j)" "v = Cb_map kvs" "\<not> max_item < arg"
        unfolding e [of data] by (auto split: if_splits sum.splits)
      have *: "k \<le> j \<and> j \<le> length data \<and> (\<forall>data'. take j data' = take j data \<longrightarrow> cb_pairs data' k (d + 1) arg [] = Inr (kvs, j))"
        by (rule "1.IH"(2) [OF d h refl refl _ _ _ _ _ _ xs(1)]) (use True xs hf in auto)
      have "cb_item data' i d = Inr (v, j)" if t: "take j data' = take j data" for data'
        using * t take_le [OF t, of k] hf [of data'] d xs True by (simp add: e [of data'])
      with * ik show ?thesis by auto
    next
      case n5: False
      show ?thesis
      proof (cases "major = 6")
        case True
        with "1.prems" d h have x: "cb_item data k (d + 1) = Inr (v, j)"
          unfolding e [of data] by simp
        have *: "k < j \<and> j \<le> length data \<and> (\<forall>data'. take j data' = take j data \<longrightarrow> cb_item data' k (d + 1) = Inr (v, j))"
          by (rule "1.IH"(3) [OF d h refl refl _ _ _ _ _ _ x]) (use True in auto)
        have "cb_item data' i d = Inr (v, j)" if t: "take j data' = take j data" for data'
          using * t take_le [OF t, of k] hf [of data'] d True by (simp add: e [of data'])
        with * ik show ?thesis by auto
      next
        case n6: False
        show ?thesis
        proof (cases "major = 2 \<or> major = 3")
          case True
          with "1.prems" d h have x: "cb_string data major arg k = Inr (v, j)"
            unfolding e [of data] by (auto split: if_splits)
          have "cb_item data' i d = Inr (v, j)" if t: "take j data' = take j data" for data'
            using cb_string_frame [OF x, of data'] t take_le [OF t, of k] hf [of data'] d True
            by (auto simp: e [of data'])
          moreover have "k \<le> j" "j \<le> length data" using cb_string_frame [OF x] by blast+
          ultimately show ?thesis using ik by auto
        next
          case False
          with "1.prems" d h n4 n5 n6 have x: "j = k"
            unfolding e [of data] by (auto split: if_splits dest: cb_simple_end)
          have "cb_item data' i d = Inr (v, j)" if t: "take j data' = take j data" for data'
            using "1.prems" hf [of data'] t x d h False n4 n5 n6 by (auto simp: e)
          with x ik show ?thesis by auto
        qed
      qed
    qed
  qed
next
  case (2 data i d)
  then show ?case by simp
next
  case (3 data i d n)
  from "3.prems" obtain x k ys where x: "cb_item data i d = Inr (x, k)" "cb_items data k d n = Inr (ys, j)" "xs = x # ys"
    by (auto split: sum.splits)
  from "3.IH"(1) [OF x(1)] have h: "i < k" "k \<le> length data"
    "\<forall>data'. take k data' = take k data \<longrightarrow> cb_item data' i d = Inr (x, k)" by auto
  from "3.IH"(2) [OF x(1) refl x(2) h(2)] have t: "k \<le> j" "j \<le> length data"
    "\<forall>data'. take j data' = take j data \<longrightarrow> cb_items data' k d n = Inr (ys, j)" by auto
  have "cb_items data' i d (Suc n) = Inr (xs, j)" if tk: "take j data' = take j data" for data'
    using take_le [OF tk t(1)] h(3) t(3) tk x(3) by simp
  moreover have "i \<le> j" using h(1) t(1) by simp
  ultimately show ?case using t(2) by blast
next
  case (4 data i d out)
  then show ?case by simp
next
  case (5 data i d n out)
  from "5.prems" obtain key k val l where x: "cb_item data i d = Inr (key, k)" "hashable key" "cb_item data k d = Inr (val, l)"
    "\<not> List.member (map (key_value \<circ> fst) out) (key_value key)" "cb_pairs data l d n (out @ [(key, val)]) = Inr (kvs, j)"
    by (auto split: sum.splits if_splits)
  from "5.IH"(1) [OF x(1)] have h: "i < k" "k \<le> length data"
    "\<forall>data'. take k data' = take k data \<longrightarrow> cb_item data' i d = Inr (key, k)" by auto
  from "5.IH"(2) [OF x(1) refl _ x(3)] x(2) have h2: "k < l" "l \<le> length data"
    "\<forall>data'. take l data' = take l data \<longrightarrow> cb_item data' k d = Inr (val, l)" by auto
  from "5.IH"(3) [OF x(1) refl _ x(3) refl x(4,5) h2(2)] x(2) have t: "l \<le> j" "j \<le> length data"
    "\<forall>data'. take j data' = take j data \<longrightarrow> cb_pairs data' l d n (out @ [(key, val)]) = Inr (kvs, j)" by auto
  have "cb_pairs data' i d (Suc n) out = Inr (kvs, j)" if tk: "take j data' = take j data" for data'
    using take_le [OF tk, of k] take_le [OF tk, of l] h(3) h2 t tk x(2,4) by simp
  moreover have "i \<le> j" using h(1) h2(1) t(1) by simp
  ultimately show ?case using t(2) by blast
qed

text \<open>C33.
  Decoding at an offset consumes at least one byte and never reads past the end of the buffer, and the
  answer depends on the bytes up to the last one consumed and on nothing after it: cutting or replacing
  what follows the item changes neither the value nor the count.\<close>

theorem decode_from_frame:
  assumes "decode_from data off = Inr (v, n)" "take (off + n) data' = take (off + n) data"
  shows "0 < n \<and> off + n \<le> length data \<and> decode_from data' off = Inr (v, n)"
proof -
  obtain j where j: "cb_item data off 0 = Inr (v, j)" "n = j - off"
    using assms(1) by (auto simp: decode_from_def split: sum.splits)
  from cb_frame(1) [OF j(1)] have f: "off < j" "j \<le> length data"
    "take j data' = take j data \<longrightarrow> cb_item data' off 0 = Inr (v, j)" by auto
  with assms(2) j(2) have "cb_item data' off 0 = Inr (v, j)" by simp
  with f j show ?thesis by (simp add: decode_from_def)
qed

theorem decode_from_frame_witness:
  "decode_from [0xff, 0x82, 1, 0x41, 7, 0x20] 1 = Inr (Cb_array [Cb_int 1, Cb_bytes [7]], 4) \<and>
   decode_from [0xff, 0x82, 1, 0x41, 7] 1 = Inr (Cb_array [Cb_int 1, Cb_bytes [7]], 4)"
proof -
  have e: "decode_from [0xff, 0x82, 1, 0x41, 7, 0x20] 1 = Inr (Cb_array [Cb_int 1, Cb_bytes [7]], 4)" by code_simp
  have t: "take (1 + 4) [0xff, 0x82, 1, 0x41, 7] = take (1 + 4) [0xff, 0x82, 1, 0x41, 7, 0x20 :: nat]" by simp
  show ?thesis using decode_from_frame [OF e t] e by blast
qed

section \<open>What an answer can be\<close>

lemma all_bytes_nth: "list_all (\<lambda>b. b < 256) data \<Longrightarrow> i < length data \<Longrightarrow> data ! i < (256 :: nat)"
  by (simp add: list_all_length)

lemma all_bytes_cut: "list_all (\<lambda>b. b < 256) data \<Longrightarrow> list_all (\<lambda>b. b < (256 :: nat)) (take w (drop i data))"
  by (auto simp: list_all_iff dest: in_set_takeD in_set_dropD)

lemma cb_head_arg:
  assumes "cb_head data i = Inr (major, arg, j)" "list_all (\<lambda>b. b < 256) data"
  shows "arg < 2 ^ 64"
proof -
  have "be_value (take w (drop k data)) < 2 ^ 64" if "w \<in> {2, 4, 8}" for w k
  proof -
    have "be_value (take w (drop k data)) < 256 ^ length (take w (drop k data))"
      by (rule be_value_bound [OF all_bytes_cut [OF assms(2)]])
    also have "\<dots> \<le> 256 ^ 8" using that by (intro power_increasing) auto
    finally show ?thesis by simp
  qed
  moreover have "data ! k < 2 ^ 64" if "k < length data" for k
    using all_bytes_nth [OF assms(2) that] by simp
  ultimately show ?thesis
    using assms(1) by (auto simp: cb_head_def Let_def split: if_splits)
qed

lemma cb_ok_outer: "cb_ok (Suc d) v \<Longrightarrow> cb_ok d v"
proof (induction v arbitrary: d)
  case (Cb_array xs)
  then show ?case by (auto simp: list_all_iff)
next
  case (Cb_map kvs)
  then show ?case by (fastforce simp: list_all_iff)
qed auto

lemma cb_string_ok:
  assumes "cb_string data major arg i = Inr (v, j)" "list_all (\<lambda>b. b < 256) data" "d \<le> 16"
  shows "cb_ok d v"
proof -
  have "length (take arg (drop i data)) \<le> max_item" "list_all (\<lambda>b. b < 256) (take arg (drop i data))"
    using assms(1) all_bytes_cut [OF assms(2)] by (auto simp: cb_string_def split: if_splits)
  with assms(1,3) utf8_decode_inv [of "take arg (drop i data)"] show ?thesis
    by (auto simp: cb_string_def Let_def split: if_splits option.splits)
qed

lemma cb_typed:
  "cb_item data i d = Inr (v, j) \<Longrightarrow> list_all (\<lambda>b. b < 256) data \<Longrightarrow> cb_ok d v"
  "cb_items data i d n = Inr (xs, j) \<Longrightarrow> list_all (\<lambda>b. b < 256) data \<Longrightarrow> length xs = n \<and> list_all (cb_ok d) xs"
  "cb_pairs data i d n out = Inr (kvs, j) \<Longrightarrow> list_all (\<lambda>b. b < 256) data \<Longrightarrow>
     list_all (\<lambda>(k, v). hashable k \<and> cb_ok d k \<and> cb_ok d v) out \<Longrightarrow> distinct (map (key_value \<circ> fst) out) \<Longrightarrow>
     length kvs = length out + n \<and> list_all (\<lambda>(k, v). hashable k \<and> cb_ok d k \<and> cb_ok d v) kvs
       \<and> distinct (map (key_value \<circ> fst) kvs)"
proof (induction data i d and data i d n and data i d n out arbitrary: v j and xs j and kvs j
    rule: cb_item_cb_items_cb_pairs.induct)
  case (1 data i d)
  note e = cb_item.simps [of _ i d]
  have d: "\<not> 16 < d" using "1.prems" unfolding e [of data] by (cases "16 < d") simp_all
  obtain major arg k where h: "cb_head data i = Inr (major, arg, k)"
    using "1.prems" d unfolding e [of data] by (auto split: sum.splits)
  have arg: "arg < 2 ^ 64" by (rule cb_head_arg [OF h "1.prems"(2)])
  consider "major = 0" | "major = 1" | "major = 2 \<or> major = 3" | "major = 4" | "major = 5" | "major = 6" | "6 < major"
    by linarith
  then show ?case
  proof cases
    case 1
    with "1.prems" d h arg show ?thesis unfolding e [of data] by auto
  next
    case 2
    with "1.prems" d h arg show ?thesis unfolding e [of data] by auto
  next
    case 3
    with "1.prems" d h have "cb_string data major arg k = Inr (v, j)" unfolding e [of data] by (auto split: if_splits)
    then show ?thesis using d "1.prems" by (intro cb_string_ok) auto
  next
    case 4
    with "1.prems" d h obtain xs where xs: "cb_items data k (d + 1) arg = Inr (xs, j)" "v = Cb_array xs" "\<not> max_item < arg"
      unfolding e [of data] by (auto split: if_splits sum.splits)
    have "length xs = arg \<and> list_all (cb_ok (d + 1)) xs"
      by (rule "1.IH"(1) [OF d h refl refl _ _ _ _ _ xs(1)]) (use 4 xs "1.prems" in auto)
    with xs d show ?thesis by simp
  next
    case 5
    with "1.prems" d h obtain kvs where xs: "cb_pairs data k (d + 1) arg [] = Inr (kvs, j)" "v = Cb_map kvs" "\<not> max_item < arg"
      unfolding e [of data] by (auto split: if_splits sum.splits)
    have "length kvs = length ([] :: (cbor_value \<times> cbor_value) list) + arg
       \<and> list_all (\<lambda>(k, v). hashable k \<and> cb_ok (d + 1) k \<and> cb_ok (d + 1) v) kvs \<and> distinct (map (key_value \<circ> fst) kvs)"
      by (rule "1.IH"(2) [OF d h refl refl _ _ _ _ _ _ xs(1)]) (use 5 xs "1.prems" in auto)
    with xs d show ?thesis by simp
  next
    case 6
    with "1.prems" d h have x: "cb_item data k (d + 1) = Inr (v, j)" unfolding e [of data] by simp
    have "cb_ok (d + 1) v"
      by (rule "1.IH"(3) [OF d h refl refl _ _ _ _ _ _ x]) (use 6 "1.prems" in auto)
    then show ?thesis by (simp add: cb_ok_outer)
  next
    case 7
    with "1.prems" d h show ?thesis unfolding e [of data] by (auto simp: cb_simple_def split: if_splits)
  qed
next
  case (2 data i d)
  then show ?case by simp
next
  case (3 data i d n)
  from "3.prems" obtain x k ys where x: "cb_item data i d = Inr (x, k)" "cb_items data k d n = Inr (ys, j)" "xs = x # ys"
    by (auto split: sum.splits)
  from "3.IH"(1) [OF x(1) "3.prems"(2)] "3.IH"(2) [OF x(1) refl x(2) "3.prems"(2)] x(3) show ?case by simp
next
  case (4 data i d out)
  then show ?case by simp
next
  case (5 data i d n out)
  from "5.prems" obtain key k val l where x: "cb_item data i d = Inr (key, k)" "hashable key" "cb_item data k d = Inr (val, l)"
    "\<not> List.member (map (key_value \<circ> fst) out) (key_value key)" "cb_pairs data l d n (out @ [(key, val)]) = Inr (kvs, j)"
    by (auto split: sum.splits if_splits)
  have kv: "cb_ok d key" "cb_ok d val"
    using "5.IH"(1) [OF x(1) "5.prems"(2)] "5.IH"(2) [OF x(1) refl _ x(3) "5.prems"(2)] x(2) by auto
  have "length kvs = length (out @ [(key, val)]) + n \<and> list_all (\<lambda>(k, v). hashable k \<and> cb_ok d k \<and> cb_ok d v) kvs
       \<and> distinct (map (key_value \<circ> fst) kvs)"
    by (rule "5.IH"(3) [OF x(1) refl _ x(3) refl x(4,5) "5.prems"(2)]) (use x kv "5.prems" in auto)
  then show ?case by (simp add: comp_def)
qed

text \<open>C40.
  Whatever bytes arrive, a document that is accepted is a well-formed value: integers of at most 64 bits,
  valid code points, no item over the ceiling, nesting of at most sixteen, and maps whose keys are scalars
  no two of which Python would call equal. Its canonical encoding is accepted as the same value.\<close>

theorem decode_well_formed:
  assumes "decode data = Inr v" "list_all (\<lambda>b. b < 256) data"
  shows "cb_ok 0 v \<and> decode (cb_enc v) = Inr v"
proof -
  obtain j where j: "cb_item data 0 0 = Inr (v, j)"
    using assms(1) by (auto simp: decode_def decode_from_def split: sum.splits if_splits)
  have ok: "cb_ok 0 v" by (rule cb_typed(1) [OF j assms(2)])
  moreover have "cb_item (cb_enc v) 0 0 = Inr (v, length (cb_enc v))"
    using reads_backD [OF reads_back ok, of "cb_enc v" "[]" "[]" 0] by simp
  ultimately show ?thesis by (simp add: decode_def decode_from_def)
qed

theorem decode_well_formed_witness:
  "decode (cb_enc (Cb_array [Cb_int 5, Cb_bool True])) = Inr (Cb_array [Cb_int 5, Cb_bool True])"
proof -
  have a: "decode [0x98, 2, 0x18, 5, 0xf8, 21] = Inr (Cb_array [Cb_int 5, Cb_bool True])" by code_simp
  have b: "list_all (\<lambda>b. b < 256) [0x98, 2, 0x18, 5, 0xf8, 21 :: nat]" by simp
  show ?thesis using decode_well_formed [OF a b] by blast
qed

text \<open>
  The decoder is not canonical: a length or a number may be written in a longer form than needed, so two
  documents can say the same thing. And the argument of a half-precision float is read as the number of a
  simple value: the float \<open>0x0014\<close> is taken for \<open>False\<close>.
\<close>

lemma two_encodings_accepted: "decode [5] = Inr (Cb_int 5) \<and> decode [0x18, 5] = Inr (Cb_int 5)"
  by code_simp

lemma half_float_read_as_false: "decode [0xf9, 0, 20] = Inr (Cb_bool False)"
  by code_simp

end
