(* ===== verification/Sha1.thy ===== *)
theory Sha1
  imports Py_Bytes "HOL-Library.Word"
begin

text \<open>
  SHA-1 (FIPS 180-4) and HMAC (RFC 2104) on byte strings: what \<^verbatim>\<open>hashlib.sha1\<close> and \<^verbatim>\<open>hmac.new\<close> of
  the standard library compute. The one-time codes are built on them.
\<close>

unbundle bit_operations_syntax

type_synonym w32 = "32 word"

definition sha1_pad :: "nat list \<Rightarrow> nat list" where
  "sha1_pad msg = msg @ [128] @ replicate ((119 - length msg mod 64) mod 64) 0 @ be_bytes 8 (8 * length msg)"

fun to_words :: "nat list \<Rightarrow> w32 list" where
  "to_words (a # b # c # d # r) = of_nat (be_value [a, b, c, d]) # to_words r"
| "to_words _ = []"

text \<open>The message schedule, newest word first.\<close>

fun schedule :: "nat \<Rightarrow> w32 list \<Rightarrow> w32 list" where
  "schedule 0 ws = rev ws"
| "schedule (Suc n) ws = schedule n (word_rotl 1 (ws ! 2 XOR ws ! 7 XOR ws ! 13 XOR ws ! 15) # ws)"

definition round_f :: "nat \<Rightarrow> w32 \<Rightarrow> w32 \<Rightarrow> w32 \<Rightarrow> w32" where
  "round_f t b c d =
     (if t < 20 then (b AND c) OR (NOT b AND d)
      else if t < 40 then b XOR c XOR d
      else if t < 60 then (b AND c) OR (b AND d) OR (c AND d)
      else b XOR c XOR d)"

definition round_k :: "nat \<Rightarrow> w32" where
  "round_k t = (if t < 20 then 0x5A827999 else if t < 40 then 0x6ED9EBA1 else if t < 60 then 0x8F1BBCDC else 0xCA62C1D6)"

fun rounds :: "nat \<Rightarrow> w32 list \<Rightarrow> w32 \<times> w32 \<times> w32 \<times> w32 \<times> w32 \<Rightarrow> w32 \<times> w32 \<times> w32 \<times> w32 \<times> w32" where
  "rounds t [] st = st"
| "rounds t (w # ws) (a, b, c, d, e) =
     rounds (t + 1) ws (word_rotl 5 a + round_f t b c d + e + round_k t + w, a, word_rotl 30 b, c, d)"

definition compress :: "w32 \<times> w32 \<times> w32 \<times> w32 \<times> w32 \<Rightarrow> w32 list \<Rightarrow> w32 \<times> w32 \<times> w32 \<times> w32 \<times> w32" where
  "compress h ws =
     (let (a, b, c, d, e) = h; (a', b', c', d', e') = rounds 0 (schedule 64 (rev ws)) h
      in (a + a', b + b', c + c', d + d', e + e'))"

function sha1_blocks :: "w32 list \<Rightarrow> w32 \<times> w32 \<times> w32 \<times> w32 \<times> w32 \<Rightarrow> w32 \<times> w32 \<times> w32 \<times> w32 \<times> w32" where
  "sha1_blocks ws h = (if length ws < 16 then h else sha1_blocks (drop 16 ws) (compress h (take 16 ws)))"
  by pat_completeness auto
termination
  by (relation "measure (length \<circ> fst)") auto

declare sha1_blocks.simps [simp del]

definition sha1 :: "nat list \<Rightarrow> nat list" where
  "sha1 msg =
     (let (a, b, c, d, e) = sha1_blocks (to_words (sha1_pad msg))
            (0x67452301, 0xEFCDAB89, 0x98BADCFE, 0x10325476, 0xC3D2E1F0)
      in concat (map (\<lambda>w. be_bytes 4 (unat w)) [a, b, c, d, e]))"

definition xor_byte :: "nat \<Rightarrow> nat \<Rightarrow> nat" where
  "xor_byte m b = nat (int m XOR int b)"

definition hmac_sha1 :: "nat list \<Rightarrow> nat list \<Rightarrow> nat list" where
  "hmac_sha1 key msg =
     (let k0 = (if 64 < length key then sha1 key else key);
          k = k0 @ replicate (64 - length k0) 0
      in sha1 (map (xor_byte 92) k @ sha1 (map (xor_byte 54) k @ msg)))"

lemma length_sha1: "length (sha1 msg) = 20"
  by (simp add: sha1_def Let_def split: prod.split)

lemma sha1_bytes: "list_all (\<lambda>b. b < 256) (sha1 msg)"
proof -
  have "b < 256" if "b \<in> set (be_bytes 4 n)" for b n
    using that be_bytes_range [of 4 n] by (auto simp: list_all_iff)
  then show ?thesis by (auto simp: sha1_def Let_def list_all_iff split: prod.split)
qed

lemma length_hmac: "length (hmac_sha1 key msg) = 20"
  by (simp add: hmac_sha1_def Let_def length_sha1)

lemma hmac_bytes: "list_all (\<lambda>b. b < 256) (hmac_sha1 key msg)"
  by (simp add: hmac_sha1_def Let_def sha1_bytes)

end
