(* ===== verification/Totp.thy ===== *)
theory Totp
  imports Py_Num Sha1
begin

text \<open>
  Time-based one-time passwords: \<^verbatim>\<open>lib/core/mfa/totp.py\<close>. The clock reading is an argument, as are the
  random bytes of a fresh secret; base32 and percent encoding are the standard library's.
\<close>

definition totp_period :: int where "totp_period = 30"
definition totp_digits :: nat where "totp_digits = 6"
definition totp_window :: int where "totp_window = 1"
definition secret_nbytes :: nat where "secret_nbytes = 20"

section \<open>Secrets\<close>

definition b32_alphabet :: string where
  "b32_alphabet = ''ABCDEFGHIJKLMNOPQRSTUVWXYZ234567''"

definition b32_value :: "char \<Rightarrow> nat option" where
  "b32_value c =
     (if is_upper_az c then Some (code c - 65) else if 50 \<le> code c \<and> code c \<le> 55 then Some (code c - 24) else None)"

fun b32_digits :: "nat \<Rightarrow> nat \<Rightarrow> nat list" where
  "b32_digits 0 n = []"
| "b32_digits (Suc k) n = b32_digits k (n div 32) @ [n mod 32]"

text \<open>\<^verbatim>\<open>base64.b32encode\<close> without its padding.\<close>

function b32_encode :: "nat list \<Rightarrow> string" where
  "b32_encode bs =
     (if bs = [] then []
      else let n = length (take 5 bs)
        in map (\<lambda>d. b32_alphabet ! d) (take ((8 * n + 4) div 5) (b32_digits 8 (be_value (take 5 bs @ replicate (5 - n) 0))))
           @ b32_encode (drop 5 bs))"
  by pat_completeness auto
termination
  by (relation "measure length") auto

declare b32_encode.simps [simp del]

definition secret_new :: "nat list \<Rightarrow> string" where
  "secret_new token_bytes = b32_encode token_bytes"

text \<open>\<^verbatim>\<open>str.upper\<close> on Latin-1; a capital outside the range is some non-ASCII character.\<close>

definition up_char :: "char \<Rightarrow> string" where
  "up_char c =
     (let n = code c
      in if is_lower_az c \<or> (224 \<le> n \<and> n \<le> 254 \<and> n \<noteq> 247) then [char_of (n - 32)]
         else if n = 223 then ''SS'' else [c])"

definition py_upper :: "string \<Rightarrow> string" where
  "py_upper s = concat (map up_char s)"

fun b32_acc :: "nat \<Rightarrow> string \<Rightarrow> nat option" where
  "b32_acc acc [] = Some acc"
| "b32_acc acc (c # cs) = (case b32_value c of None \<Rightarrow> None | Some v \<Rightarrow> b32_acc (32 * acc + v) cs)"

text \<open>The quanta of eight characters: the bytes so far and the last accumulator.\<close>

function b32_quanta :: "string \<Rightarrow> nat \<Rightarrow> (nat list \<times> nat) option" where
  "b32_quanta s acc =
     (if s = [] then Some ([], acc)
      else case b32_acc 0 (take 8 s) of
             None \<Rightarrow> None
           | Some a \<Rightarrow> (case b32_quanta (drop 8 s) a of
                          None \<Rightarrow> None
                        | Some (bs, l) \<Rightarrow> Some (be_bytes 5 a @ bs, l)))"
  by pat_completeness auto
termination
  by (relation "measure (length \<circ> fst)") auto

declare b32_quanta.simps [simp del]

text \<open>\<^verbatim>\<open>base64.b32decode(text, casefold=True)\<close>, \<open>None\<close> for any exception.\<close>

definition b32_decode :: "string \<Rightarrow> nat list option" where
  "b32_decode text0 =
     (if \<not> list_all is_ascii text0 \<or> length text0 mod 8 \<noteq> 0 then None
      else let s = rev (dropWhile (\<lambda>c. c = CHR ''='') (rev (py_upper text0)));
               padchars = length text0 - length s
        in case b32_quanta s 0 of
             None \<Rightarrow> None
           | Some (decoded, acc) \<Rightarrow>
               if \<not> List.member [0, 1, 3, 4, 6] padchars then None
               else if padchars \<noteq> 0 \<and> decoded \<noteq> [] then
                 Some (take (length decoded - 5) decoded
                       @ take ((43 - 5 * padchars) div 8) (be_bytes 5 (acc * 32 ^ padchars)))
               else Some decoded)"

definition secret_bytes :: "string \<Rightarrow> nat list" where
  "secret_bytes secret =
     (let text0 = py_upper (drop_spaces secret)
      in if text0 = [] then []
         else opt (b32_decode (text0 @ replicate (nat ((- int (length text0)) mod 8)) (CHR ''=''))) [])"

section \<open>Codes\<close>

definition current_step :: "rat \<Rightarrow> int \<Rightarrow> int" where
  "current_step now period = \<lfloor>now / of_int (max 1 period)\<rfloor>"

definition truncated :: "nat list \<Rightarrow> nat" where
  "truncated mac = (let offset = last mac mod 16 in be_value (take 4 (drop offset mac)) mod 2 ^ 31)"

definition code_at :: "string \<Rightarrow> int \<Rightarrow> nat \<Rightarrow> string" where
  "code_at secret step digits =
     (let key = secret_bytes secret
      in if key = [] then []
         else zfill digits (show_dec (truncated (hmac_sha1 key (be_bytes 8 (nat (max 0 step)))) mod 10 ^ digits)))"

definition totp_verify :: "string \<Rightarrow> string \<Rightarrow> rat \<Rightarrow> int \<Rightarrow> nat \<Rightarrow> int \<Rightarrow> int \<Rightarrow> int option" where
  "totp_verify secret code0 now period digits window after_step =
     (let key = secret_bytes secret; got = drop_spaces code0
      in if key = [] \<or> \<not> list_all is_ascii got \<or> got = [] \<or> \<not> list_all is_digit_char got \<or> length got \<noteq> digits then None
         else let here = current_step now period
           in foldl (\<lambda>found step.
                  if step \<le> after_step then found
                  else if code_at secret step digits = got \<and> found = None then Some step else found)
                None [here - window..here + window])"

section \<open>The link and the groups\<close>

text \<open>The bytes of a Latin-1 character in UTF-8.\<close>

definition char_utf8 :: "char \<Rightarrow> nat list" where
  "char_utf8 c = (let n = code c in if n < 128 then [n] else [192 + n div 64, 128 + n mod 64])"

definition upper_hex :: "nat \<Rightarrow> char" where
  "upper_hex d = (if d < 10 then char_of (48 + d) else char_of (55 + d))"

definition unreserved :: "char \<Rightarrow> bool" where
  "unreserved c = (is_lower_az c \<or> is_upper_az c \<or> is_dec c \<or> List.member ''_.-~'' c)"

definition quote_char :: "char \<Rightarrow> string" where
  "quote_char c =
     (if unreserved c then [c]
      else concat (map (\<lambda>b. [CHR ''%'', upper_hex (b div 16), upper_hex (b mod 16)]) (char_utf8 c)))"

definition url_quote :: "string \<Rightarrow> string" where
  "url_quote s = concat (map quote_char s)"

text \<open>\<^verbatim>\<open>quote_plus\<close>, which \<^verbatim>\<open>urlencode\<close> applies to keys and values.\<close>

definition quote_plus :: "string \<Rightarrow> string" where
  "quote_plus s = concat (map (\<lambda>c. if c = CHR '' '' then ''+'' else quote_char c) s)"

definition urlencode :: "(string \<times> string) list \<Rightarrow> string" where
  "urlencode kvs = py_join ''&'' (map (\<lambda>(k, v). quote_plus k @ ''='' @ quote_plus v) kvs)"

definition provisioning_uri :: "string \<Rightarrow> string \<Rightarrow> string \<Rightarrow> nat \<Rightarrow> nat \<Rightarrow> string" where
  "provisioning_uri secret account issuer digits period =
     (if secret = [] \<or> account = [] then []
      else let label = url_quote (if issuer \<noteq> [] then issuer @ '':'' @ account else account);
               params = [(''secret'', secret), (''algorithm'', ''SHA1''), (''digits'', show_dec digits), (''period'', show_dec period)]
                 @ (if issuer \<noteq> [] then [(''issuer'', issuer)] else [])
        in ''otpauth://totp/'' @ label @ ''?'' @ urlencode params)"

text \<open>The pieces of a text of a given width, at least one.\<close>

function pieces :: "nat \<Rightarrow> string \<Rightarrow> string list" where
  "pieces width s = (if s = [] then [] else take (max 1 width) s # pieces width (drop (max 1 width) s))"
  by pat_completeness auto
termination
  by (relation "measure (length \<circ> snd)") auto

declare pieces.simps [simp del]

definition secret_groups :: "string \<Rightarrow> nat \<Rightarrow> string" where
  "secret_groups secret width = py_join '' '' (pieces width secret)"

end
