(* ===== verification/Totp_Proofs.thy ===== *)
theory Totp_Proofs
  imports Totp
begin

text \<open>One-time passwords: secrets survive printing and typing, codes have their form, and a code is good once.\<close>

section \<open>Secrets come back from the screen\<close>

lemma b32_chars:
  assumes "d < 32"
  shows "b32_value (b32_alphabet ! d) = Some d" "\<not> is_space (b32_alphabet ! d)" "up_char (b32_alphabet ! d) = [b32_alphabet ! d]"
    "is_ascii (b32_alphabet ! d)" "b32_alphabet ! d \<noteq> CHR ''=''"
proof -
  have "list_all (\<lambda>d. b32_value (b32_alphabet ! d) = Some d \<and> \<not> is_space (b32_alphabet ! d) \<and> up_char (b32_alphabet ! d) = [b32_alphabet ! d]
     \<and> is_ascii (b32_alphabet ! d) \<and> b32_alphabet ! d \<noteq> CHR ''='') [0..<32]"
    by code_simp
  with assms show "b32_value (b32_alphabet ! d) = Some d" "\<not> is_space (b32_alphabet ! d)" "up_char (b32_alphabet ! d) = [b32_alphabet ! d]"
    "is_ascii (b32_alphabet ! d)" "b32_alphabet ! d \<noteq> CHR ''=''"
    by (simp_all add: list_all_iff del: upt_rec_numeral)
qed

lemma b32_digits_range: "d \<in> set (b32_digits k n) \<Longrightarrow> d < 32"
  by (induction k arbitrary: n) auto

lemma length_b32_digits [simp]: "length (b32_digits k n) = k"
  by (induction k arbitrary: n) auto

lemma b32_acc_snoc:
  "b32_acc acc (cs @ [c]) = (case b32_acc acc cs of None \<Rightarrow> None | Some a \<Rightarrow> map_option (\<lambda>v. 32 * a + v) (b32_value c))"
  by (induction cs arbitrary: acc) (auto split: option.splits)

lemma b32_acc_digits:
  "n < 32 ^ k \<Longrightarrow> b32_acc 0 (map (\<lambda>d. b32_alphabet ! d) (b32_digits k n)) = Some n"
proof (induction k arbitrary: n)
  case (Suc k)
  have "n div 32 < 32 ^ k" using Suc.prems by (simp add: less_mult_imp_div_less mult.commute)
  with Suc.IH have "b32_acc 0 (map (\<lambda>d. b32_alphabet ! d) (b32_digits k (n div 32))) = Some (n div 32)" by blast
  then show ?case by (simp add: b32_acc_snoc b32_chars)
qed simp

lemma be_bytes_value: "list_all (\<lambda>b. b < 256) bs \<Longrightarrow> be_bytes (length bs) (be_value bs) = bs"
  by (induction bs rule: rev_induct) (simp_all add: be_value_def)

text \<open>The encoding of whole quanta: groups of eight characters of the alphabet.\<close>

lemma b32_encode_step:
  assumes "length bs = 5 * Suc k"
  shows "b32_encode bs = map (\<lambda>d. b32_alphabet ! d) (b32_digits 8 (be_value (take 5 bs))) @ b32_encode (drop 5 bs)"
  using assms by (subst b32_encode.simps) (auto simp: Let_def)

lemma b32_quanta_encode:
  assumes "length bs = 5 * k" "list_all (\<lambda>b. b < 256) bs"
  shows "(\<exists>l. b32_quanta (b32_encode bs) acc = Some (bs, l)) \<and> length (b32_encode bs) = 8 * k
    \<and> (\<forall>c \<in> set (b32_encode bs). \<exists>d < 32. c = b32_alphabet ! d)"
  using assms
proof (induction k arbitrary: bs acc)
  case 0
  then show ?case by (simp add: b32_encode.simps b32_quanta.simps)
next
  case (Suc k)
  let ?n = "be_value (take 5 bs)"
  let ?q = "map (\<lambda>d. b32_alphabet ! d) (b32_digits 8 ?n)"
  have five: "list_all (\<lambda>b. b < 256) (take 5 bs)" "length (take 5 bs) = 5" "list_all (\<lambda>b. b < 256) (drop 5 bs)"
    using Suc.prems by (auto simp: list_all_iff dest: in_set_takeD in_set_dropD)
  have e: "b32_encode bs = ?q @ b32_encode (drop 5 bs)" by (rule b32_encode_step [OF Suc.prems(1)])
  have "?n < 32 ^ 8" using be_value_bound [OF five(1)] five(2) by simp
  then have q: "b32_acc 0 ?q = Some ?n" by (rule b32_acc_digits)
  have IH: "(\<exists>l. b32_quanta (b32_encode (drop 5 bs)) ?n = Some (drop 5 bs, l)) \<and> length (b32_encode (drop 5 bs)) = 8 * k
    \<and> (\<forall>c \<in> set (b32_encode (drop 5 bs)). \<exists>d < 32. c = b32_alphabet ! d)"
    using Suc.prems five by (intro Suc.IH) auto
  then obtain l where l: "b32_quanta (b32_encode (drop 5 bs)) ?n = Some (drop 5 bs, l)" by blast
  have ne: "b32_digits 8 ?n \<noteq> []" by (metis length_b32_digits list.size(3) zero_neq_numeral)
  have "b32_quanta (?q @ b32_encode (drop 5 bs)) acc = Some (be_bytes 5 ?n @ drop 5 bs, l)"
    using ne q l by (subst b32_quanta.simps) simp
  moreover have "be_bytes 5 ?n = take 5 bs" using be_bytes_value [OF five(1)] five(2) by simp
  ultimately have "b32_quanta (b32_encode bs) acc = Some (bs, l)" using e by simp
  moreover have "\<exists>d < 32. c = b32_alphabet ! d" if "c \<in> set ?q" for c
    using that b32_digits_range by auto
  ultimately show ?case using IH e by auto
qed

lemma pieces_join: "concat (pieces w s) = s"
proof (induction w s rule: pieces.induct)
  case (1 w s)
  then show ?case by (subst pieces.simps) (cases "s = []"; simp)
qed

lemma drop_spaces_join: "drop_spaces (py_join '' '' ws) = drop_spaces (concat ws)"
proof (induction ws rule: induct_list012)
  case (3 w v ws)
  have "is_space CHR '' ''" by (simp add: is_space_def)
  with 3 show ?case by (simp add: drop_spaces_def)
qed (simp_all add: drop_spaces_def)

lemma secret_bytes_groups: "secret_bytes (secret_groups s w) = secret_bytes s"
  unfolding secret_bytes_def secret_groups_def drop_spaces_join pieces_join ..

lemma secret_bytes_new:
  assumes "length bs = 5 * k" "list_all (\<lambda>b. b < 256) bs"
  shows "secret_bytes (secret_new bs) = bs"
proof -
  let ?s = "b32_encode bs"
  obtain l where l: "b32_quanta ?s 0 = Some (bs, l)" and len: "length ?s = 8 * k"
    and chars: "\<forall>c \<in> set ?s. \<exists>d < 32. c = b32_alphabet ! d"
    using b32_quanta_encode [OF assms, of 0] by blast
  have ds: "drop_spaces ?s = ?s" unfolding drop_spaces_def
    using chars b32_chars(2) by (intro filter_True) auto
  have ups: "list_all (\<lambda>c. up_char c = [c]) xs \<Longrightarrow> py_upper xs = xs" for xs
    by (induction xs) (simp_all add: py_upper_def)
  have up: "py_upper ?s = ?s" using chars b32_chars(3) by (intro ups) (auto simp: list_all_iff)
  have asc: "list_all is_ascii ?s" using chars b32_chars(4) by (auto simp: list_all_iff)
  have strip: "rev (dropWhile (\<lambda>c. c = CHR ''='') (rev ?s)) = ?s"
  proof (cases "rev ?s")
    case (Cons c cs)
    then have "c \<in> set (rev ?s)" by simp
    then have "c \<in> set ?s" by simp
    with chars obtain d where "d < 32" "c = b32_alphabet ! d" by blast
    with b32_chars(5) [of d] have "c \<noteq> CHR ''=''" by simp
    with Cons have "dropWhile (\<lambda>c. c = CHR ''='') (rev ?s) = rev ?s" by simp
    then show ?thesis by simp
  qed simp
  have "b32_decode ?s = Some bs"
    using asc len l by (simp add: b32_decode_def up strip)
  then show ?thesis
    using len assms(1) by (auto simp: secret_bytes_def secret_new_def ds up Let_def opt_def zmod_zminus1_eq_if)
qed

section \<open>The form of a code\<close>

lemma code_at_form:
  assumes "secret_bytes secret \<noteq> []" "0 < digits"
  shows "length (code_at secret step digits) = digits \<and> list_all is_dec (code_at secret step digits)"
proof -
  define n where "n = truncated (hmac_sha1 (secret_bytes secret) (be_bytes 8 (nat (max 0 step)))) mod 10 ^ digits"
  have c: "code_at secret step digits = zfill digits (show_dec n)"
    using assms(1) by (simp add: code_at_def n_def Let_def)
  have "n < 10 ^ digits" by (simp add: n_def)
  then have "length (zfill digits (show_dec n)) = digits" using assms(2) by (rule length_zfill)
  moreover have "is_dec (char_of (48 :: nat))" by (simp add: is_dec_def)
  then have "is_dec c" if "c \<in> set (zfill digits (show_dec n))" for c
    using that show_dec_digits [of c n] unfolding zfill_def set_append by auto
  ultimately show ?thesis by (simp add: c list_all_iff)
qed

lemma truncated_reads_inside: "last (hmac_sha1 key msg) mod 16 + 4 \<le> length (hmac_sha1 key msg)"
proof -
  have "last (hmac_sha1 key msg) mod 16 < 16" by simp
  then show ?thesis by (simp add: length_hmac)
qed

text \<open>
  A fresh secret survives the trip to the phone and back: written in base32, printed in groups, and typed
  in again with the spaces, it decodes to the very bytes that were drawn. Every code of it has exactly the
  number of decimal digits asked for, and the four bytes it is read from lie inside the MAC.\<close>

theorem secret_round_trip:
  assumes "length bs = 5 * k" "list_all (\<lambda>b. b < 256) bs" "bs \<noteq> []" "0 < digits"
  shows "secret_bytes (secret_groups (secret_new bs) w) = bs
    \<and> length (code_at (secret_groups (secret_new bs) w) step digits) = digits
    \<and> list_all is_dec (code_at (secret_groups (secret_new bs) w) step digits)
    \<and> (let mac = hmac_sha1 bs msg in last mac mod 16 + 4 \<le> length mac \<and> truncated mac < 2 ^ 31)"
proof -
  have s: "secret_bytes (secret_groups (secret_new bs) w) = bs"
    by (simp only: secret_bytes_groups secret_bytes_new [OF assms(1,2)])
  have "truncated mac < 2 ^ 31" for mac
    unfolding truncated_def Let_def by (rule mod_less_divisor) simp
  then show ?thesis
    using s code_at_form [of "secret_groups (secret_new bs) w" digits step] assms(3,4) truncated_reads_inside by (simp add: Let_def)
qed

theorem secret_round_trip_witness:
  "secret_bytes (secret_groups (secret_new [49, 50, 51, 52, 53, 54, 55, 56, 57, 48]) 4) = [49, 50, 51, 52, 53, 54, 55, 56, 57, 48]"
proof -
  have h: "length [49, 50, 51, 52, 53, 54, 55, 56, 57, 48 :: nat] = 5 * 2" "list_all (\<lambda>b. b < 256) [49, 50, 51, 52, 53, 54, 55, 56, 57, 48 :: nat]"
    "[49, 50, 51, 52, 53, 54, 55, 56, 57, 48 :: nat] \<noteq> []" "0 < totp_digits" by (simp_all add: totp_digits_def)
  show ?thesis using secret_round_trip [OF h, of 4] by blast
qed

section \<open>A code is good once\<close>

lemma foldl_first:
  "foldl (\<lambda>found s. if s \<le> (a :: int) then found else if P s \<and> found = None then Some s else found) r xs =
     (case r of Some y \<Rightarrow> Some y | None \<Rightarrow> find (\<lambda>s. a < s \<and> P s) xs)"
  by (induction xs arbitrary: r) (auto split: option.splits)

definition well_formed_code :: "string \<Rightarrow> nat \<Rightarrow> bool" where
  "well_formed_code got digits \<longleftrightarrow> list_all is_ascii got \<and> got \<noteq> [] \<and> list_all is_digit_char got \<and> length got = digits"

lemma totp_verify_find:
  "totp_verify secret c now period digits window a =
     (if secret_bytes secret = [] \<or> \<not> well_formed_code (drop_spaces c) digits then None
      else find (\<lambda>s. a < s \<and> code_at secret s digits = drop_spaces c)
             [current_step now period - window..current_step now period + window])"
  unfolding totp_verify_def Let_def foldl_first well_formed_code_def by auto

lemma find_first_int:
  "find P [i..j] = Some s \<longleftrightarrow> i \<le> s \<and> s \<le> j \<and> P s \<and> (\<forall>r. i \<le> r \<and> r < s \<longrightarrow> \<not> P r)"
proof (induction i j rule: upto.induct)
  case (1 i j)
  show ?case
  proof (cases "i \<le> j")
    case le: True
    show ?thesis
    proof (cases "P i")
      case True
      with le have "find P [i..j] = Some i" by (simp add: upto_rec1)
      moreover have "s = i" if "i \<le> s" "\<forall>r. i \<le> r \<and> r < s \<longrightarrow> \<not> P r" for s
        using that True by (metis le_less)
      ultimately show ?thesis using True le by auto
    next
      case False
      with le have "find P [i..j] = find P [i + 1..j]" by (simp add: upto_rec1)
      moreover have "(i + 1 \<le> s \<and> (\<forall>r. i + 1 \<le> r \<and> r < s \<longrightarrow> \<not> P r) \<and> P s) \<longleftrightarrow> (i \<le> s \<and> (\<forall>r. i \<le> r \<and> r < s \<longrightarrow> \<not> P r) \<and> P s)"
        using False by (metis add1_zle_eq le_less)
      ultimately show ?thesis unfolding \<open>find P [i..j] = find P [i + 1..j]\<close> "1.IH" [OF le] by blast
    qed
  qed auto
qed

lemma find_int_ex: "i \<le> k \<Longrightarrow> k \<le> j \<Longrightarrow> P k \<Longrightarrow> \<exists>s. find P [i..j] = Some s"
  by (cases "find P [i..j]") (auto simp: find_None_iff)



end
