(* ===== verification/Mfa_Store.thy ===== *)
theory Mfa_Store
  imports Totp
begin

text \<open>
  Where a second factor lives: \<^verbatim>\<open>lib/core/mfa/store.py\<close>. The two tables are lists of rows in insertion
  order; every statement is atomic and answers the number of rows it changed. The identifiers drawn, the
  clock's text and the digest of a challenge are arguments; the Fernet cipher of the \<^verbatim>\<open>cryptography\<close>
  package is a pair of functions, of which \<^verbatim>\<open>lib/security/secret_manager.py\<close> asks only that the second
  undo the first. A transaction that fails changes nothing and answers like an update of no row.
\<close>

record factor =
  fa_uid :: string
  fa_user :: string
  fa_method :: string
  fa_secret :: string
  fa_confirmed :: bool
  fa_last_step :: int
  fa_label :: string
  fa_cred :: string
  fa_pubkey :: string
  fa_alg :: int
  fa_count :: int
  fa_challenge :: string
  fa_created :: string
  fa_updated :: string

record recovery =
  rv_uid :: string
  rv_user :: string
  rv_hash :: string
  rv_used :: string
  rv_created :: string

record mfa =
  mf_factors :: "factor list"
  mf_recovery :: "recovery list"

record fernet =
  fe_encrypt :: "string \<Rightarrow> string option"
  fe_decrypt :: "string \<Rightarrow> string option"

section \<open>Secrets at rest\<close>

definition enc_prefix :: string where
  "enc_prefix = ''enc:''"

definition encrypt_field :: "fernet \<Rightarrow> string \<Rightarrow> string" where
  "encrypt_field f s =
     (if s \<noteq> [] \<and> \<not> starts_with enc_prefix s
      then (case fe_encrypt f s of Some tok \<Rightarrow> enc_prefix @ tok | None \<Rightarrow> s)
      else s)"

definition decrypt_field :: "fernet option \<Rightarrow> string \<Rightarrow> string" where
  "decrypt_field f s =
     (if starts_with enc_prefix s
      then (case f of
              None \<Rightarrow> s
            | Some c \<Rightarrow> (case fe_decrypt c (drop (length enc_prefix) s) of Some p \<Rightarrow> p | None \<Rightarrow> s))
      else s)"

definition seal :: "fernet option \<Rightarrow> string \<Rightarrow> string" where
  "seal f secret =
     (case f of
        None \<Rightarrow> []
      | Some c \<Rightarrow> (let sealed = encrypt_field c secret in if starts_with enc_prefix sealed then sealed else []))"

definition unseal :: "fernet option \<Rightarrow> string \<Rightarrow> string" where
  "unseal f stored = decrypt_field f stored"

section \<open>Reads\<close>

definition of_user :: "string \<Rightarrow> string \<Rightarrow> factor \<Rightarrow> bool" where
  "of_user who meth r = (fa_user r = who \<and> fa_method r = meth)"

definition factor_of :: "fernet option \<Rightarrow> mfa \<Rightarrow> string \<Rightarrow> string \<Rightarrow> bool \<Rightarrow> factor option" where
  "factor_of f st who meth decrypt =
     map_option (\<lambda>r. r\<lparr>fa_secret := (if decrypt then unseal f (fa_secret r) else [])\<rparr>)
       (find (of_user who meth) (mf_factors st))"

definition enrolled_user_uids :: "mfa \<Rightarrow> bool \<Rightarrow> string list" where
  "enrolled_user_uids st confirmed_only =
     remdups (filter (\<lambda>w. w \<noteq> []) (map fa_user (filter (\<lambda>r. confirmed_only \<longrightarrow> fa_confirmed r) (mf_factors st))))"

definition unused :: "string \<Rightarrow> recovery \<Rightarrow> bool" where
  "unused who r = (rv_user r = who \<and> rv_used r = [])"

definition recovery_left :: "mfa \<Rightarrow> string \<Rightarrow> nat" where
  "recovery_left st who = length (filter (unused who) (mf_recovery st))"

definition recovery_unused :: "mfa \<Rightarrow> string \<Rightarrow> (string \<times> string) list" where
  "recovery_unused st who = map (\<lambda>r. (rv_uid r, rv_hash r)) (filter (unused who) (mf_recovery st))"

text \<open>The methods of an account, in the order of their names.\<close>

fun str_le :: "string \<Rightarrow> string \<Rightarrow> bool" where
  "str_le [] _ = True"
| "str_le (_ # _) [] = False"
| "str_le (a # as) (b # bs) = (code a < code b \<or> (a = b \<and> str_le as bs))"

fun insert_str :: "string \<Rightarrow> string list \<Rightarrow> string list" where
  "insert_str x [] = [x]"
| "insert_str x (y # ys) = (if str_le x y then x # y # ys else y # insert_str x ys)"

definition methods_of :: "mfa \<Rightarrow> string \<Rightarrow> string list" where
  "methods_of st who =
     filter (\<lambda>m. m \<noteq> []) (foldr insert_str (map fa_method (filter (\<lambda>r. fa_user r = who \<and> fa_confirmed r) (mf_factors st))) [])"

definition methods_by_user :: "mfa \<Rightarrow> (string \<times> string list) list" where
  "methods_by_user st =
     map (\<lambda>who. (who, methods_of st who))
       (filter (\<lambda>who. methods_of st who \<noteq> []) (foldr insert_str (enrolled_user_uids st True) []))"

section \<open>Writes\<close>

definition update_factors :: "(factor \<Rightarrow> bool) \<Rightarrow> (factor \<Rightarrow> factor) \<Rightarrow> mfa \<Rightarrow> mfa \<times> bool" where
  "update_factors p g st =
     (st\<lparr>mf_factors := map (\<lambda>r. if p r then g r else r) (mf_factors st)\<rparr>, list_ex p (mf_factors st))"

definition new_factor :: "string \<Rightarrow> string \<Rightarrow> string \<Rightarrow> string \<Rightarrow> string \<Rightarrow> factor" where
  "new_factor uid who meth label now =
     \<lparr>fa_uid = uid, fa_user = who, fa_method = meth, fa_secret = [], fa_confirmed = False, fa_last_step = - 1,
      fa_label = label, fa_cred = [], fa_pubkey = [], fa_alg = 0, fa_count = 0, fa_challenge = [],
      fa_created = now, fa_updated = now\<rparr>"

definition replace_factor :: "string \<Rightarrow> string \<Rightarrow> factor \<Rightarrow> mfa \<Rightarrow> mfa" where
  "replace_factor who meth row st =
     st\<lparr>mf_factors := filter (\<lambda>r. \<not> of_user who meth r) (mf_factors st) @ [row]\<rparr>"

definition store_begin :: "fernet option \<Rightarrow> string \<Rightarrow> string \<Rightarrow> string \<Rightarrow> string \<Rightarrow> string \<Rightarrow> string \<Rightarrow> mfa \<Rightarrow> mfa \<times> string" where
  "store_begin f who secret meth label uid now st =
     (let sealed = seal f secret
      in if sealed = [] then (st, [])
         else (replace_factor who meth ((new_factor uid who meth label now)\<lparr>fa_secret := sealed\<rparr>) st, uid))"

definition store_confirm :: "string \<Rightarrow> int \<Rightarrow> string \<Rightarrow> string \<Rightarrow> mfa \<Rightarrow> mfa \<times> bool" where
  "store_confirm who step meth now st =
     update_factors (of_user who meth) (\<lambda>r. r\<lparr>fa_confirmed := True, fa_last_step := step, fa_updated := now\<rparr>) st"

definition note_step :: "string \<Rightarrow> int \<Rightarrow> string \<Rightarrow> string \<Rightarrow> mfa \<Rightarrow> mfa \<times> bool" where
  "note_step who step meth now st =
     update_factors (\<lambda>r. of_user who meth r \<and> fa_last_step r < step)
       (\<lambda>r. r\<lparr>fa_last_step := step, fa_updated := now\<rparr>) st"

definition store_delete :: "string \<Rightarrow> string \<Rightarrow> mfa \<Rightarrow> mfa \<times> bool" where
  "store_delete who meth st =
     (if who = [] then (st, False)
      else let gone = (\<lambda>r. fa_user r = who \<and> (meth \<noteq> [] \<longrightarrow> fa_method r = meth));
               left_rows = filter (\<lambda>r. \<not> gone r) (mf_factors st);
               st' = st\<lparr>mf_factors := left_rows\<rparr>
        in (if list_ex (\<lambda>r. fa_user r = who) left_rows then st'
            else st'\<lparr>mf_recovery := filter (\<lambda>r. rv_user r \<noteq> who) (mf_recovery st)\<rparr>,
            list_ex gone (mf_factors st)))"

text \<open>\<open>fresh\<close> pairs each hash with the identifier drawn for its row.\<close>

definition set_recovery :: "string \<Rightarrow> (string \<times> string) list \<Rightarrow> string \<Rightarrow> mfa \<Rightarrow> mfa \<times> bool" where
  "set_recovery who fresh now st =
     (st\<lparr>mf_recovery := filter (\<lambda>r. rv_user r \<noteq> who) (mf_recovery st)
          @ map (\<lambda>(uid, h). \<lparr>rv_uid = uid, rv_user = who, rv_hash = h, rv_used = [], rv_created = now\<rparr>) fresh\<rparr>, True)"

definition consume_recovery :: "string \<Rightarrow> string \<Rightarrow> mfa \<Rightarrow> mfa \<times> bool" where
  "consume_recovery uid now st =
     (let p = (\<lambda>r. rv_uid r = uid \<and> rv_used r = [])
      in (st\<lparr>mf_recovery := map (\<lambda>r. if p r then r\<lparr>rv_used := now\<rparr> else r) (mf_recovery st)\<rparr>,
          list_ex p (mf_recovery st)))"

definition webauthn_method :: string where
  "webauthn_method = ''webauthn''"

definition save_credential :: "string \<Rightarrow> string \<Rightarrow> string \<Rightarrow> int \<Rightarrow> int \<Rightarrow> string \<Rightarrow> string \<Rightarrow> string \<Rightarrow> mfa \<Rightarrow> mfa \<times> bool" where
  "save_credential who cred pubkey alg sign_count label uid now st =
     (if who = [] \<or> cred = [] \<or> pubkey = [] then (st, False)
      else (replace_factor who webauthn_method
             ((new_factor uid who webauthn_method label now)\<lparr>fa_confirmed := True, fa_cred := cred,
                fa_pubkey := pubkey, fa_alg := alg, fa_count := sign_count\<rparr>) st, True))"

definition note_sign_count :: "string \<Rightarrow> int \<Rightarrow> string \<Rightarrow> mfa \<Rightarrow> mfa \<times> bool" where
  "note_sign_count who count now st =
     update_factors (\<lambda>r. of_user who webauthn_method r \<and> fa_count r < count)
       (\<lambda>r. r\<lparr>fa_count := count, fa_updated := now\<rparr>) st"

definition set_challenge :: "(string \<Rightarrow> string) \<Rightarrow> string \<Rightarrow> string \<Rightarrow> mfa \<Rightarrow> mfa \<times> bool" where
  "set_challenge digest who challenge st =
     update_factors (of_user who webauthn_method) (\<lambda>r. r\<lparr>fa_challenge := digest challenge\<rparr>) st"

definition consume_challenge :: "(string \<Rightarrow> string) \<Rightarrow> string \<Rightarrow> string \<Rightarrow> mfa \<Rightarrow> mfa \<times> bool" where
  "consume_challenge digest who challenge st =
     (if challenge = [] then (st, False)
      else update_factors (\<lambda>r. of_user who webauthn_method r \<and> fa_challenge r = digest challenge \<and> fa_challenge r \<noteq> [])
             (\<lambda>r. r\<lparr>fa_challenge := []\<rparr>) st)"

end
