(* ===== verification/Mfa_Service.thy ===== *)
theory Mfa_Service
  imports Mfa_Store Qr
begin

text \<open>
  Enrolling and verifying a second factor: \<^verbatim>\<open>lib/core/mfa/service.py\<close>, over the store and the codes. The
  password hasher of the accounts is third-party code (\<^verbatim>\<open>werkzeug\<close>): \<open>gen salt text\<close> and
  \<open>check hash text\<close> are arguments. So are the random draws, the identifiers and the clock.
\<close>

definition recovery_count :: nat where "recovery_count = 10"

definition recovery_alphabet :: string where
  "recovery_alphabet = ''23456789ABCDEFGHJKLMNPQRSTUVWXYZ''"

definition recovery_group :: nat where "recovery_group = 5"

text \<open>\<open>draws\<close>: for each code, the positions of its characters in the alphabet.\<close>

definition recovery_one :: "nat list \<Rightarrow> string" where
  "recovery_one ks =
     (let raw = map (\<lambda>k. recovery_alphabet ! k) (take (recovery_group * 2) ks)
      in take recovery_group raw @ ''-'' @ drop recovery_group raw)"

definition recovery_new :: "nat list list \<Rightarrow> string list" where
  "recovery_new draws = map recovery_one (take recovery_count draws)"

definition normalise_code :: "string \<Rightarrow> string" where
  "normalise_code c = py_upper (filter (\<lambda>x. x \<noteq> CHR ''-'') (drop_spaces c))"

text \<open>Each hash with the identifier of the row that will hold it; \<open>salts\<close> are the hasher's draws.\<close>

definition recovery_hashes :: "(string \<Rightarrow> string \<Rightarrow> string) \<Rightarrow> (string \<times> string) list \<Rightarrow> string list \<Rightarrow> (string \<times> string) list" where
  "recovery_hashes gen salts codes = map (\<lambda>((uid, salt), c). (uid, gen salt (normalise_code c))) (zip salts codes)"

record mfa_status =
  ms_enrolled :: bool
  ms_pending :: bool
  ms_method :: string
  ms_methods :: "string list"
  ms_since :: string
  ms_recovery_left :: nat

definition totp_method :: string where "totp_method = ''totp''"

definition mfa_status_of :: "mfa \<Rightarrow> string \<Rightarrow> mfa_status" where
  "mfa_status_of st who =
     (let fac = factor_of None st who totp_method False; methods = methods_of st who
      in \<lparr>ms_enrolled = (methods \<noteq> []),
          ms_pending = (case fac of None \<Rightarrow> False | Some f \<Rightarrow> \<not> fa_confirmed f),
          ms_method = (case fac of
                         Some f \<Rightarrow> if fa_confirmed f then fa_method f else if methods = [] then [] else hd methods
                       | None \<Rightarrow> if methods = [] then [] else hd methods),
          ms_methods = methods,
          ms_since = (case fac of None \<Rightarrow> [] | Some f \<Rightarrow> fa_updated f),
          ms_recovery_left = (if methods = [] then 0 else recovery_left st who)\<rparr>)"

record enrolment =
  en_secret :: string
  en_groups :: string
  en_uri :: string
  en_svg :: string

definition enroll_begin :: "fernet option \<Rightarrow> string \<Rightarrow> string \<Rightarrow> string \<Rightarrow> nat list \<Rightarrow> string \<Rightarrow> string \<Rightarrow> mfa
    \<Rightarrow> mfa \<times> (string + enrolment)" where
  "enroll_begin f who account issuer token_bytes uid stamp st =
     (let secret = secret_new token_bytes; (st', r) = store_begin f who secret totp_method [] uid stamp st
      in if r = [] then (st', Inl ''no_key'')
         else let uri = provisioning_uri secret account issuer totp_digits (nat totp_period)
           in (st', Inr \<lparr>en_secret = secret, en_groups = secret_groups secret 4, en_uri = uri, en_svg = svg uri 4\<rparr>))"

definition enroll_confirm :: "fernet option \<Rightarrow> (string \<Rightarrow> string \<Rightarrow> string) \<Rightarrow> nat list list \<Rightarrow> (string \<times> string) list
    \<Rightarrow> string \<Rightarrow> string \<Rightarrow> rat \<Rightarrow> string \<Rightarrow> mfa \<Rightarrow> mfa \<times> (string + string list)" where
  "enroll_confirm f gen draws salts who c now stamp st =
     (case factor_of f st who totp_method True of
        None \<Rightarrow> (st, Inl ''not_started'')
      | Some fac \<Rightarrow>
          if fa_confirmed fac then (st, Inl ''already_enrolled'')
          else (case totp_verify (fa_secret fac) c now totp_period totp_digits totp_window (fa_last_step fac) of
                  None \<Rightarrow> (st, Inl ''bad_code'')
                | Some step \<Rightarrow>
                    (let (st1, ok) = store_confirm who step totp_method stamp st
                     in if \<not> ok then (st1, Inl ''write_failed'')
                        else let codes = recovery_new draws
                          in (fst (set_recovery who (recovery_hashes gen salts codes) stamp st1), Inr codes))))"

definition recovery_regenerate :: "(string \<Rightarrow> string \<Rightarrow> string) \<Rightarrow> nat list list \<Rightarrow> (string \<times> string) list
    \<Rightarrow> string \<Rightarrow> string \<Rightarrow> mfa \<Rightarrow> mfa \<times> (string + string list)" where
  "recovery_regenerate gen draws salts who stamp st =
     (case factor_of None st who totp_method False of
        None \<Rightarrow> (st, Inl ''not_enrolled'')
      | Some fac \<Rightarrow>
          if \<not> fa_confirmed fac then (st, Inl ''not_enrolled'')
          else let codes = recovery_new draws; (st', ok) = set_recovery who (recovery_hashes gen salts codes) stamp st
            in if \<not> ok then (st', Inl ''write_failed'') else (st', Inr codes))"

definition svc_verify :: "fernet option \<Rightarrow> (string \<Rightarrow> string \<Rightarrow> bool) \<Rightarrow> string \<Rightarrow> string \<Rightarrow> rat \<Rightarrow> string \<Rightarrow> mfa \<Rightarrow> mfa \<times> string" where
  "svc_verify f check who c now stamp st =
     (case factor_of f st who totp_method True of
        None \<Rightarrow> (st, [])
      | Some fac \<Rightarrow>
          if \<not> fa_confirmed fac then (st, [])
          else (case totp_verify (fa_secret fac) c now totp_period totp_digits totp_window (fa_last_step fac) of
                  Some step \<Rightarrow> (let (st', ok) = note_step who step totp_method stamp st
                                in (st', if ok then totp_method else []))
                | None \<Rightarrow>
                    (let got = normalise_code c
                     in if got = [] then (st, [])
                        else case find (\<lambda>(uid, h). check h got) (recovery_unused st who) of
                               None \<Rightarrow> (st, [])
                             | Some (uid, h) \<Rightarrow>
                                 (let (st', ok) = consume_recovery uid stamp st
                                  in (st', if ok then ''recovery'' else [])))))"

section \<open>Requests that overlap\<close>

text \<open>
  Two requests run in two threads or two processes: each reads, decides, and writes, and the statements of
  different requests interleave. A request goes through the reads of \<^verbatim>\<open>verify\<close> one by one, and ends
  with the write that decides.
\<close>

record request =
  rq_user :: string
  rq_code :: string
  rq_now :: rat
  rq_stamp :: string

datatype phase = Start | Has_step int | Look | Has_code string | Totp_ok int | Recovery_ok string | Refused

definition read_factor :: "fernet option \<Rightarrow> mfa \<Rightarrow> request \<Rightarrow> phase" where
  "read_factor f st rq =
     (case factor_of f st (rq_user rq) totp_method True of
        None \<Rightarrow> Refused
      | Some fac \<Rightarrow>
          if \<not> fa_confirmed fac then Refused
          else (case totp_verify (fa_secret fac) (rq_code rq) (rq_now rq) totp_period totp_digits totp_window (fa_last_step fac) of
                  Some step \<Rightarrow> Has_step step
                | None \<Rightarrow> if normalise_code (rq_code rq) = [] then Refused else Look))"

definition read_codes :: "(string \<Rightarrow> string \<Rightarrow> bool) \<Rightarrow> mfa \<Rightarrow> request \<Rightarrow> phase" where
  "read_codes check st rq =
     (case find (\<lambda>(uid, h). check h (normalise_code (rq_code rq))) (recovery_unused st (rq_user rq)) of
        None \<Rightarrow> Refused
      | Some (uid, h) \<Rightarrow> Has_code uid)"

type_synonym sys = "mfa \<times> (nat \<Rightarrow> phase)"

inductive request_step :: "fernet option \<Rightarrow> (string \<Rightarrow> string \<Rightarrow> bool) \<Rightarrow> (nat \<Rightarrow> request) \<Rightarrow> sys \<Rightarrow> sys \<Rightarrow> bool"
  for f check rq
where
  Read_factor: "ph i = Start \<Longrightarrow>
    request_step f check rq (st, ph) (st, ph(i := read_factor f st (rq i)))"
| Read_codes: "ph i = Look \<Longrightarrow>
    request_step f check rq (st, ph) (st, ph(i := read_codes check st (rq i)))"
| Spend_step: "ph i = Has_step s \<Longrightarrow>
    note_step (rq_user (rq i)) s totp_method (rq_stamp (rq i)) st = (st', ok) \<Longrightarrow>
    request_step f check rq (st, ph) (st', ph(i := if ok then Totp_ok s else Refused))"
| Spend_code: "ph i = Has_code uid \<Longrightarrow>
    consume_recovery uid (rq_stamp (rq i)) st = (st', ok) \<Longrightarrow>
    request_step f check rq (st, ph) (st', ph(i := if ok then Recovery_ok uid else Refused))"

inductive_cases request_stepE: "request_step f check rq (st, ph) s'"

inductive reachable :: "fernet option \<Rightarrow> (string \<Rightarrow> string \<Rightarrow> bool) \<Rightarrow> (nat \<Rightarrow> request) \<Rightarrow> mfa \<Rightarrow> sys \<Rightarrow> bool"
  for f check rq st0
where
  Init: "reachable f check rq st0 (st0, \<lambda>_. Start)"
| Step: "reachable f check rq st0 s \<Longrightarrow> request_step f check rq s s' \<Longrightarrow> reachable f check rq st0 s'"

end
