(* ===== verification/Mfa_Proofs.thy ===== *)
theory Mfa_Proofs
  imports Mfa_Service Totp_Proofs
begin

text \<open>Second factors: a code works once under any interleaving of requests, the operation is one of those runs, and what enrolling and storing guarantee.\<close>

section \<open>What a statement does to the rows\<close>

text \<open>A row as an overlapping request may find it changed: a later step, nothing else of substance.\<close>

definition later_row :: "factor \<Rightarrow> factor \<Rightarrow> bool" where
  "later_row a b \<longleftrightarrow> fa_user b = fa_user a \<and> fa_method b = fa_method a \<and> fa_secret b = fa_secret a
     \<and> fa_confirmed b = fa_confirmed a \<and> fa_last_step a \<le> fa_last_step b"

lemma later_row_refl: "later_row r r"
  by (simp add: later_row_def)

lemma later_row_trans: "later_row a b \<Longrightarrow> later_row b c \<Longrightarrow> later_row a c"
  by (auto simp: later_row_def)

lemma later_rows_trans: "list_all2 later_row xs ys \<Longrightarrow> list_all2 later_row ys zs \<Longrightarrow> list_all2 later_row xs zs"
  using list_all2_trans [of later_row later_row later_row] later_row_trans by blast

lemma later_rows_member: "list_all2 later_row xs ys \<Longrightarrow> y \<in> set ys \<Longrightarrow> \<exists>x \<in> set xs. later_row x y"
  by (auto simp: list_all2_conv_all_nth in_set_conv_nth) (metis nth_mem)

lemma later_rows_map: "(\<And>r. p r \<Longrightarrow> later_row r (g r)) \<Longrightarrow> list_all2 later_row xs (map (\<lambda>r. if p r then g r else r) xs)"
  by (induction xs) (auto simp: later_row_refl)

lemma note_step_rows:
  assumes "note_step who s meth now st = (st', ok)"
  shows "list_all2 later_row (mf_factors st) (mf_factors st') \<and> mf_recovery st' = mf_recovery st
    \<and> (\<forall>r \<in> set (mf_factors st'). of_user who meth r \<longrightarrow> s \<le> fa_last_step r)
    \<and> (ok \<longleftrightarrow> (\<exists>r \<in> set (mf_factors st). of_user who meth r \<and> fa_last_step r < s))"
proof -
  let ?p = "\<lambda>r. of_user who meth r \<and> fa_last_step r < s"
  let ?g = "\<lambda>r. r\<lparr>fa_last_step := s, fa_updated := now\<rparr>"
  have st': "mf_factors st' = map (\<lambda>r. if ?p r then ?g r else r) (mf_factors st)" "mf_recovery st' = mf_recovery st"
    "ok = list_ex ?p (mf_factors st)"
    using assms by (auto simp: note_step_def update_factors_def)
  have "list_all2 later_row (mf_factors st) (mf_factors st')"
    unfolding st' by (rule later_rows_map) (simp add: later_row_def)
  moreover have "s \<le> fa_last_step r" if r: "r \<in> set (mf_factors st')" "of_user who meth r" for r
  proof -
    from r(1) obtain a where a: "a \<in> set (mf_factors st)" "r = (if ?p a then ?g a else a)" unfolding st'(1) by auto
    with r(2) show ?thesis by (cases "?p a") (auto simp: of_user_def)
  qed
  ultimately show ?thesis using st' by (auto simp: list_ex_iff)
qed

lemma consume_rows:
  assumes "consume_recovery uid now st = (st', ok)" "now \<noteq> []"
  shows "mf_factors st' = mf_factors st
    \<and> (\<forall>r \<in> set (mf_recovery st'). rv_uid r = uid \<longrightarrow> rv_used r \<noteq> [])
    \<and> (\<forall>u. (\<forall>r \<in> set (mf_recovery st). rv_uid r = u \<longrightarrow> rv_used r \<noteq> []) \<longrightarrow> (\<forall>r \<in> set (mf_recovery st'). rv_uid r = u \<longrightarrow> rv_used r \<noteq> []))
    \<and> (ok \<longleftrightarrow> (\<exists>r \<in> set (mf_recovery st). rv_uid r = uid \<and> rv_used r = []))"
  using assms by (auto simp: consume_recovery_def Let_def list_ex_iff split: if_splits)

section \<open>Overlapping requests\<close>

text \<open>What every reachable state satisfies: an accepted step is at or below the row's last step, an
  accepted recovery code is marked used, and no two accepted requests share either.\<close>

definition spent_once :: "fernet option \<Rightarrow> (nat \<Rightarrow> request) \<Rightarrow> mfa \<Rightarrow> sys \<Rightarrow> bool" where
  "spent_once f rq st0 s \<longleftrightarrow>
     list_all2 later_row (mf_factors st0) (mf_factors (fst s))
     \<and> (\<forall>i n. snd s i = Has_step n \<or> snd s i = Totp_ok n \<longrightarrow>
          (\<exists>r \<in> set (mf_factors st0). of_user (rq_user (rq i)) totp_method r \<and> fa_confirmed r \<and> fa_last_step r < n
             \<and> code_at (unseal f (fa_secret r)) n totp_digits = drop_spaces (rq_code (rq i))))
     \<and> (\<forall>i n. snd s i = Totp_ok n \<longrightarrow>
          (\<forall>r \<in> set (mf_factors (fst s)). of_user (rq_user (rq i)) totp_method r \<longrightarrow> n \<le> fa_last_step r))
     \<and> (\<forall>i j n. i \<noteq> j \<and> rq_user (rq i) = rq_user (rq j) \<and> snd s i = Totp_ok n \<longrightarrow> snd s j \<noteq> Totp_ok n)
     \<and> (\<forall>i u. snd s i = Recovery_ok u \<longrightarrow> (\<forall>r \<in> set (mf_recovery (fst s)). rv_uid r = u \<longrightarrow> rv_used r \<noteq> []))
     \<and> (\<forall>i j u. i \<noteq> j \<and> snd s i = Recovery_ok u \<longrightarrow> snd s j \<noteq> Recovery_ok u)"

lemma read_factor_cases:
  assumes "read_factor f st r = p"
  shows "p = Refused \<or> p = Look \<or> (\<exists>n. p = Has_step n \<and> (\<exists>a \<in> set (mf_factors st). of_user (rq_user r) totp_method a \<and> fa_confirmed a
      \<and> fa_last_step a < n \<and> code_at (unseal f (fa_secret a)) n totp_digits = drop_spaces (rq_code r)))"
proof (cases "factor_of f st (rq_user r) totp_method True")
  case None
  with assms show ?thesis by (simp add: read_factor_def)
next
  case (Some fac)
  then obtain a where a: "find (of_user (rq_user r) totp_method) (mf_factors st) = Some a"
    "fac = a\<lparr>fa_secret := unseal f (fa_secret a)\<rparr>" by (auto simp: factor_of_def)
  then have m: "a \<in> set (mf_factors st)" "of_user (rq_user r) totp_method a"
    by (auto simp: find_Some_iff)
  let ?v = "totp_verify (fa_secret fac) (rq_code r) (rq_now r) totp_period totp_digits totp_window (fa_last_step fac)"
  show ?thesis
  proof (cases ?v)
    case None
    with Some assms show ?thesis by (auto simp: read_factor_def split: if_splits)
  next
    case (Some n)
    have "fa_last_step a < n \<and> code_at (unseal f (fa_secret a)) n totp_digits = drop_spaces (rq_code r)"
      using Some a(2) by (auto simp: totp_verify_find find_first_int split: if_splits)
    with m a(2) Some \<open>factor_of f st (rq_user r) totp_method True = Some fac\<close> assms show ?thesis
      by (auto simp: read_factor_def split: if_splits)
  qed
qed

lemma read_codes_cases: "read_codes check st r = Refused \<or> (\<exists>u. read_codes check st r = Has_code u)"
  by (auto simp: read_codes_def split: option.splits prod.splits)

lemma spent_once_step:
  assumes "request_step f check rq s s'" "spent_once f rq st0 s" "\<forall>i. rq_stamp (rq i) \<noteq> []"
  shows "spent_once f rq st0 s'"
proof -
  obtain st ph where s: "s = (st, ph)" by (cases s)
  from assms(2) have rows: "list_all2 later_row (mf_factors st0) (mf_factors st)"
    and why: "\<And>i n. ph i = Has_step n \<or> ph i = Totp_ok n \<Longrightarrow>
          \<exists>r \<in> set (mf_factors st0). of_user (rq_user (rq i)) totp_method r \<and> fa_confirmed r \<and> fa_last_step r < n
             \<and> code_at (unseal f (fa_secret r)) n totp_digits = drop_spaces (rq_code (rq i))"
    and low: "\<And>i n r. ph i = Totp_ok n \<Longrightarrow> r \<in> set (mf_factors st) \<Longrightarrow> of_user (rq_user (rq i)) totp_method r \<Longrightarrow> n \<le> fa_last_step r"
    and one: "\<And>i j n. i \<noteq> j \<Longrightarrow> rq_user (rq i) = rq_user (rq j) \<Longrightarrow> ph i = Totp_ok n \<Longrightarrow> ph j \<noteq> Totp_ok n"
    and used: "\<And>i u r. ph i = Recovery_ok u \<Longrightarrow> r \<in> set (mf_recovery st) \<Longrightarrow> rv_uid r = u \<Longrightarrow> rv_used r \<noteq> []"
    and oneR: "\<And>i j u. i \<noteq> j \<Longrightarrow> ph i = Recovery_ok u \<Longrightarrow> ph j \<noteq> Recovery_ok u"
    unfolding s spent_once_def by auto
  from assms(1) consider
      (Read_factor) i where "s' = (st, ph(i := read_factor f st (rq i)))" "ph i = Start"
    | (Read_codes) i where "s' = (st, ph(i := read_codes check st (rq i)))" "ph i = Look"
    | (Spend_step) i n st' ok where "s' = (st', ph(i := if ok then Totp_ok n else Refused))" "ph i = Has_step n"
        "note_step (rq_user (rq i)) n totp_method (rq_stamp (rq i)) st = (st', ok)"
    | (Spend_code) i uid st' ok where "s' = (st', ph(i := if ok then Recovery_ok uid else Refused))" "ph i = Has_code uid"
        "consume_recovery uid (rq_stamp (rq i)) st = (st', ok)"
    unfolding s by (elim request_stepE) blast+
  then show ?thesis
  proof cases
    case (Read_factor i)
    have p: "read_factor f st (rq i) = Refused \<or> read_factor f st (rq i) = Look \<or> (\<exists>n. read_factor f st (rq i) = Has_step n
      \<and> (\<exists>a \<in> set (mf_factors st0). of_user (rq_user (rq i)) totp_method a \<and> fa_confirmed a
      \<and> fa_last_step a < n \<and> code_at (unseal f (fa_secret a)) n totp_digits = drop_spaces (rq_code (rq i))))"
    proof -
      have "\<exists>a0 \<in> set (mf_factors st0). of_user (rq_user (rq i)) totp_method a0 \<and> fa_confirmed a0
          \<and> fa_last_step a0 < n \<and> code_at (unseal f (fa_secret a0)) n totp_digits = drop_spaces (rq_code (rq i))"
        if h: "a \<in> set (mf_factors st)" "of_user (rq_user (rq i)) totp_method a" "fa_confirmed a" "fa_last_step a < n"
          "code_at (unseal f (fa_secret a)) n totp_digits = drop_spaces (rq_code (rq i))" for a n
      proof -
        obtain a0 where "a0 \<in> set (mf_factors st0)" "later_row a0 a" using later_rows_member [OF rows h(1)] by blast
        with h(2-5) show ?thesis by (intro bexI [of _ a0]) (auto simp: later_row_def of_user_def)
      qed
      with read_factor_cases [of f st "rq i" "read_factor f st (rq i)"] show ?thesis by blast
    qed
    show ?thesis unfolding Read_factor(1) spent_once_def fst_conv snd_conv
      using rows why low one used oneR p by (intro conjI allI impI) (auto split: if_splits)
  next
    case (Read_codes i)
    show ?thesis unfolding Read_codes(1) spent_once_def fst_conv snd_conv
      using rows why low one used oneR read_codes_cases [of check st "rq i"]
      by (intro conjI allI impI) (auto split: if_splits)
  next
    case (Spend_step i n st' ok)
    note nr = note_step_rows [OF Spend_step(3)]
    have rows': "list_all2 later_row (mf_factors st0) (mf_factors st')" using rows nr later_rows_trans by blast
    have low': "m \<le> fa_last_step r" if h: "ph j = Totp_ok m" "r \<in> set (mf_factors st')" "of_user (rq_user (rq j)) totp_method r" for j m r
    proof -
      obtain a where "a \<in> set (mf_factors st)" "later_row a r" using later_rows_member h(2) nr by blast
      with low [OF h(1), of a] h(3) show ?thesis by (auto simp: later_row_def of_user_def)
    qed
    have new: "ph j \<noteq> Totp_ok n" if h: "ok" "rq_user (rq j) = rq_user (rq i)" for j
    proof
      assume j: "ph j = Totp_ok n"
      from h(1) nr obtain r where "r \<in> set (mf_factors st)" "of_user (rq_user (rq i)) totp_method r" "fa_last_step r < n" by blast
      with low [OF j, of r] h(2) show False by simp
    qed
    show ?thesis unfolding Spend_step(1) spent_once_def fst_conv snd_conv
    proof (intro conjI allI impI ballI)
      fix k m
      assume "(ph(i := if ok then Totp_ok n else Refused)) k = Has_step m \<or> (ph(i := if ok then Totp_ok n else Refused)) k = Totp_ok m"
      then show "\<exists>r \<in> set (mf_factors st0). of_user (rq_user (rq k)) totp_method r \<and> fa_confirmed r \<and> fa_last_step r < m
             \<and> code_at (unseal f (fa_secret r)) m totp_digits = drop_spaces (rq_code (rq k))"
        using why [of k m] why [of i n] Spend_step(2) by (auto split: if_splits)
    next
      fix k m r
      assume "(ph(i := if ok then Totp_ok n else Refused)) k = Totp_ok m" "r \<in> set (mf_factors st')"
        "of_user (rq_user (rq k)) totp_method r"
      then show "m \<le> fa_last_step r" using low' nr by (cases "k = i") (auto split: if_splits)
    next
      fix k j m
      assume "k \<noteq> j \<and> rq_user (rq k) = rq_user (rq j) \<and> (ph(i := if ok then Totp_ok n else Refused)) k = Totp_ok m"
      then show "(ph(i := if ok then Totp_ok n else Refused)) j \<noteq> Totp_ok m"
        using one new by (cases "k = i"; cases "j = i") (auto split: if_splits)
    next
      fix k u r
      assume "(ph(i := if ok then Totp_ok n else Refused)) k = Recovery_ok u" "r \<in> set (mf_recovery st')" "rv_uid r = u"
      then show "rv_used r \<noteq> []" using used nr by (cases "k = i") (auto split: if_splits)
    next
      fix k j u
      assume "k \<noteq> j \<and> (ph(i := if ok then Totp_ok n else Refused)) k = Recovery_ok u"
      then show "(ph(i := if ok then Totp_ok n else Refused)) j \<noteq> Recovery_ok u"
        using oneR by (cases "k = i"; cases "j = i") (auto split: if_splits)
    qed (rule rows')
  next
    case (Spend_code i uid st' ok)
    note cr = consume_rows [OF Spend_code(3)] assms(3)
    have rec: "(\<forall>r \<in> set (mf_recovery st'). rv_uid r = uid \<longrightarrow> rv_used r \<noteq> [])"
      "\<And>u. \<forall>r \<in> set (mf_recovery st). rv_uid r = u \<longrightarrow> rv_used r \<noteq> [] \<Longrightarrow> \<forall>r \<in> set (mf_recovery st'). rv_uid r = u \<longrightarrow> rv_used r \<noteq> []"
      "mf_factors st' = mf_factors st" "ok \<longleftrightarrow> (\<exists>r \<in> set (mf_recovery st). rv_uid r = uid \<and> rv_used r = [])"
      using cr by auto
    have new: "ph j \<noteq> Recovery_ok uid" if ok for j using that rec(4) used by blast
    show ?thesis unfolding Spend_code(1) spent_once_def fst_conv snd_conv rec(3)
    proof (intro conjI allI impI ballI)
      fix k m
      assume "(ph(i := if ok then Recovery_ok uid else Refused)) k = Has_step m \<or> (ph(i := if ok then Recovery_ok uid else Refused)) k = Totp_ok m"
      then show "\<exists>r \<in> set (mf_factors st0). of_user (rq_user (rq k)) totp_method r \<and> fa_confirmed r \<and> fa_last_step r < m
             \<and> code_at (unseal f (fa_secret r)) m totp_digits = drop_spaces (rq_code (rq k))"
        using why [of k m] by (auto split: if_splits)
    next
      fix k m r
      assume "(ph(i := if ok then Recovery_ok uid else Refused)) k = Totp_ok m" "r \<in> set (mf_factors st)"
        "of_user (rq_user (rq k)) totp_method r"
      then show "m \<le> fa_last_step r" using low by (auto split: if_splits)
    next
      fix k j m
      assume "k \<noteq> j \<and> rq_user (rq k) = rq_user (rq j) \<and> (ph(i := if ok then Recovery_ok uid else Refused)) k = Totp_ok m"
      then show "(ph(i := if ok then Recovery_ok uid else Refused)) j \<noteq> Totp_ok m"
        using one by (auto split: if_splits)
    next
      fix k u r
      assume "(ph(i := if ok then Recovery_ok uid else Refused)) k = Recovery_ok u" "r \<in> set (mf_recovery st')" "rv_uid r = u"
      then show "rv_used r \<noteq> []"
        using rec(1) rec(2) [of u] used [of k u] by (cases "k = i") (auto split: if_splits)
    next
      fix k j u
      assume "k \<noteq> j \<and> (ph(i := if ok then Recovery_ok uid else Refused)) k = Recovery_ok u"
      then show "(ph(i := if ok then Recovery_ok uid else Refused)) j \<noteq> Recovery_ok u"
        using oneR new by (cases "k = i"; cases "j = i") (auto split: if_splits)
    qed (rule rows)
  qed
qed

lemma spent_once_reachable:
  assumes "reachable f check rq st0 s" "\<forall>i. rq_stamp (rq i) \<noteq> []"
  shows "spent_once f rq st0 s"
  using assms(1)
proof induction
  case Init
  show ?case by (simp add: spent_once_def list.rel_refl later_row_refl)
next
  case (Step s s')
  from spent_once_step [OF Step(2,3) assms(2)] show ?case .
qed


text \<open>Two requests that both read the codes of an account before either wrote.\<close>

definition two_readers :: "nat \<Rightarrow> request" where
  "two_readers i = \<lparr>rq_user = ''u1'', rq_code = ''ABCDE-23456'', rq_now = of_nat i, rq_stamp = ''2024''\<rparr>"

definition one_code :: mfa where
  "one_code = \<lparr>mf_factors = [(new_factor ''f1'' ''u1'' ''totp'' [] [])\<lparr>fa_confirmed := True\<rparr>],
     mf_recovery = [\<lparr>rv_uid = ''c1'', rv_user = ''u1'', rv_hash = ''ABCDE23456'', rv_used = [], rv_created = []\<rparr>]\<rparr>"


section \<open>The requests implement the operation\<close>

definition answer_of :: "phase \<Rightarrow> string" where
  "answer_of p = (case p of Totp_ok n \<Rightarrow> totp_method | Recovery_ok u \<Rightarrow> ''recovery'' | _ \<Rightarrow> [])"

definition final_phase :: "phase \<Rightarrow> bool" where
  "final_phase p \<longleftrightarrow> (\<exists>n. p = Totp_ok n) \<or> (\<exists>u. p = Recovery_ok u) \<or> p = Refused"



section \<open>Enrolling\<close>

text \<open>What the code asks of the cipher: it encrypts every text, and decrypts what it encrypted.\<close>

definition cipher_ok :: "fernet \<Rightarrow> bool" where
  "cipher_ok c \<longleftrightarrow> (\<forall>s. \<exists>tok. fe_encrypt c s = Some tok \<and> fe_decrypt c tok = Some s)"

lemma enc_prefix_drop: "drop (length enc_prefix) (enc_prefix @ t) = t"
  by simp

lemma seal_unseal:
  assumes "cipher_ok c" "s \<noteq> []" "\<not> starts_with enc_prefix s"
  shows "seal (Some c) s \<noteq> [] \<and> starts_with enc_prefix (seal (Some c) s) \<and> unseal (Some c) (seal (Some c) s) = s"
proof -
  obtain tok where t: "fe_encrypt c s = Some tok" "fe_decrypt c tok = Some s" using assms(1) cipher_ok_def by blast
  then have "seal (Some c) s = enc_prefix @ tok" using assms by (simp add: seal_def encrypt_field_def)
  moreover have "enc_prefix @ tok \<noteq> []" by (simp add: enc_prefix_def)
  ultimately show ?thesis using t by (simp add: unseal_def decrypt_field_def)
qed

lemma secret_new_plain:
  assumes "length bs = 5 * k" "list_all (\<lambda>b. b < 256) bs" "bs \<noteq> []"
  shows "secret_new bs \<noteq> [] \<and> \<not> starts_with enc_prefix (secret_new bs)"
proof -
  have q: "length (b32_encode bs) = 8 * k" "\<forall>c \<in> set (b32_encode bs). \<exists>d < 32. c = b32_alphabet ! d"
    using b32_quanta_encode [OF assms(1,2), of 0] by auto
  have "secret_new bs \<noteq> []" using q(1) assms by (auto simp: secret_new_def)
  moreover have "CHR ''e'' \<notin> set (secret_new bs)"
  proof
    assume "CHR ''e'' \<in> set (secret_new bs)"
    then obtain d where d: "d < 32" "CHR ''e'' = b32_alphabet ! d" using q(2) by (auto simp: secret_new_def)
    have "b32_value (CHR ''e'') = None" by code_simp
    then show False using b32_chars(1) [OF d(1)] d(2) by simp
  qed
  then have "\<not> starts_with enc_prefix (secret_new bs)"
    by (auto simp: starts_with_iff enc_prefix_def)
  ultimately show ?thesis by blast
qed

lemma find_replaced:
  "of_user who meth row \<Longrightarrow> find (of_user who meth) (filter (\<lambda>r. \<not> of_user who meth r) xs @ [row]) = Some row"
  by (induction xs) auto

lemma factor_of_replaced:
  assumes "of_user who meth row"
  shows "factor_of f (replace_factor who meth row st) who meth True = Some (row\<lparr>fa_secret := unseal f (fa_secret row)\<rparr>)"
  using find_replaced [OF assms] by (simp add: factor_of_def replace_factor_def)

lemma find_map_if:
  assumes "\<And>r. p r \<Longrightarrow> p (g r)"
  shows "find p (map (\<lambda>r. if p r then g r else r) xs) = map_option g (find p xs)"
  using assms by (induction xs) auto

text \<open>C37.
  Enrolling with an authenticator app. Without a cipher nothing is stored. With one, beginning stores a
  pending factor that lets no code of any kind in, and shows a secret that is read back as the bytes drawn;
  a wrong code leaves everything as it was; a right one, naming a step, turns the factor on, hands out the
  fresh recovery codes, of which all are left, and has already spent its own step: only a later step of the
  same secret is ever let in as a one-time code.\<close>

theorem enrolment_exact:
  assumes "cipher_ok c" "length bs = 5 * k" "list_all (\<lambda>b. b < 256) bs" "bs \<noteq> []" "length salts = length (recovery_new draws)" "uid \<noteq> []"
  shows "enroll_begin None who account issuer bs uid stamp st = (st, Inl ''no_key'')
    \<and> (\<exists>st1 e. enroll_begin (Some c) who account issuer bs uid stamp st = (st1, Inr e)
        \<and> secret_bytes (en_groups e) = bs
        \<and> (\<forall>check code0 now. svc_verify (Some c) check who code0 now stamp st1 = (st1, []))
        \<and> (\<forall>code0 now. totp_verify (secret_new bs) code0 now totp_period totp_digits totp_window (- 1) = None \<longrightarrow>
             enroll_confirm (Some c) gen draws salts who code0 now stamp st1 = (st1, Inl ''bad_code''))
        \<and> (\<forall>code0 now n. totp_verify (secret_new bs) code0 now totp_period totp_digits totp_window (- 1) = Some n \<longrightarrow>
             (\<exists>st2. enroll_confirm (Some c) gen draws salts who code0 now stamp st1 = (st2, Inr (recovery_new draws))
               \<and> recovery_left st2 who = length (recovery_new draws)
               \<and> (\<forall>check code1 now1 st3. svc_verify (Some c) check who code1 now1 stamp st2 = (st3, totp_method) \<longrightarrow>
                    (\<exists>m. n < m \<and> totp_verify (secret_new bs) code1 now1 totp_period totp_digits totp_window n = Some m)))))"
proof -
  let ?s = "secret_new bs"
  have plain: "?s \<noteq> []" "\<not> starts_with enc_prefix ?s" using secret_new_plain [OF assms(2-4)] by auto
  note sl = seal_unseal [OF assms(1) plain]
  define row where "row = (new_factor uid who totp_method [] stamp)\<lparr>fa_secret := seal (Some c) ?s\<rparr>"
  define st1 where "st1 = replace_factor who totp_method row st"
  have rowu: "of_user who totp_method row" by (simp add: row_def new_factor_def of_user_def)
  have row: "fa_last_step row = - 1" "\<not> fa_confirmed row" "unseal (Some c) (fa_secret row) = ?s"
    using sl by (simp_all add: row_def new_factor_def)
  have f1: "factor_of (Some c) st1 who totp_method True = Some (row\<lparr>fa_secret := ?s\<rparr>)"
    unfolding st1_def using factor_of_replaced [OF rowu, of "Some c" st] row(3) by simp
  define e where "e = \<lparr>en_secret = ?s, en_groups = secret_groups ?s 4, en_uri = provisioning_uri ?s account issuer totp_digits (nat totp_period),
      en_svg = svg (provisioning_uri ?s account issuer totp_digits (nat totp_period)) 4\<rparr>"
  have b: "enroll_begin (Some c) who account issuer bs uid stamp st = (st1, Inr e)"
    using sl assms(6) by (simp add: enroll_begin_def store_begin_def row_def st1_def e_def Let_def)
  have groups: "secret_bytes (en_groups e) = bs"
    by (simp add: e_def secret_bytes_groups secret_bytes_new [OF assms(2,3)])
  have pending: "svc_verify (Some c) check who code0 now stamp st1 = (st1, [])" for check code0 now
    using f1 row by (simp add: svc_verify_def)
  have bad: "enroll_confirm (Some c) gen draws salts who code0 now stamp st1 = (st1, Inl ''bad_code'')"
    if "totp_verify ?s code0 now totp_period totp_digits totp_window (- 1) = None" for code0 now
    using f1 row that by (simp add: enroll_confirm_def)
  have good: "\<exists>st2. enroll_confirm (Some c) gen draws salts who code0 now stamp st1 = (st2, Inr (recovery_new draws))
      \<and> recovery_left st2 who = length (recovery_new draws)
      \<and> (\<forall>check code1 now1 st3. svc_verify (Some c) check who code1 now1 stamp st2 = (st3, totp_method) \<longrightarrow>
           (\<exists>m. n < m \<and> totp_verify ?s code1 now1 totp_period totp_digits totp_window n = Some m))"
    if n: "totp_verify ?s code0 now totp_period totp_digits totp_window (- 1) = Some n" for code0 now n
  proof -
    let ?g = "\<lambda>r. r\<lparr>fa_confirmed := True, fa_last_step := n, fa_updated := stamp\<rparr>"
    define stc where "stc = st1\<lparr>mf_factors := map (\<lambda>r. if of_user who totp_method r then ?g r else r) (mf_factors st1)\<rparr>"
    have ex: "list_ex (of_user who totp_method) (mf_factors st1)"
      using rowu by (simp add: st1_def replace_factor_def)
    then have conf: "store_confirm who n totp_method stamp st1 = (stc, True)"
      by (simp add: store_confirm_def update_factors_def stc_def)
    define st2 where "st2 = fst (set_recovery who (recovery_hashes gen salts (recovery_new draws)) stamp stc)"
    have c2: "enroll_confirm (Some c) gen draws salts who code0 now stamp st1 = (st2, Inr (recovery_new draws))"
      using f1 row n conf by (simp add: enroll_confirm_def st2_def Let_def)
    have left2: "recovery_left st2 who = length (recovery_new draws)"
    proof -
      have none: "filter (unused who) (filter (\<lambda>r. rv_user r \<noteq> who) xs) = []" for xs
        by (induction xs) (auto simp: unused_def)
      have all: "filter (unused who) (map (\<lambda>(u, h). \<lparr>rv_uid = u, rv_user = who, rv_hash = h, rv_used = [], rv_created = stamp\<rparr>) ys)
          = map (\<lambda>(u, h). \<lparr>rv_uid = u, rv_user = who, rv_hash = h, rv_used = [], rv_created = stamp\<rparr>) ys" for ys
        by (induction ys) (auto simp: unused_def)
      have "mf_recovery st2 = filter (\<lambda>r. rv_user r \<noteq> who) (mf_recovery stc)
          @ map (\<lambda>(u, h). \<lparr>rv_uid = u, rv_user = who, rv_hash = h, rv_used = [], rv_created = stamp\<rparr>)
              (recovery_hashes gen salts (recovery_new draws))"
        by (simp add: st2_def set_recovery_def)
      then have "recovery_left st2 who = length (recovery_hashes gen salts (recovery_new draws))"
        by (simp only: recovery_left_def filter_append none all append_Nil length_map)
      then show ?thesis using assms(5) by (simp add: recovery_hashes_def)
    qed
    have f2: "factor_of (Some c) st2 who totp_method True
        = Some (?g (row\<lparr>fa_secret := ?s\<rparr>))"
    proof -
      have "find (of_user who totp_method) (mf_factors st1) = Some row"
        using find_replaced [OF rowu] by (simp add: st1_def replace_factor_def)
      moreover have "of_user who totp_method (?g r) = of_user who totp_method r" for r by (simp add: of_user_def)
      ultimately have "find (of_user who totp_method) (mf_factors stc) = Some (?g row)"
        unfolding stc_def by (simp add: find_map_if)
      moreover have "mf_factors st2 = mf_factors stc" by (simp add: st2_def set_recovery_def)
      ultimately show ?thesis using row(3) by (simp add: factor_of_def)
    qed
    have later: "\<exists>m. n < m \<and> totp_verify ?s code1 now1 totp_period totp_digits totp_window n = Some m"
      if v: "svc_verify (Some c) check who code1 now1 stamp st2 = (st3, totp_method)" for check code1 now1 st3
    proof (cases "totp_verify ?s code1 now1 totp_period totp_digits totp_window n")
      case None
      with v f2 show ?thesis
        by (auto simp: svc_verify_def totp_method_def Let_def split: if_splits option.splits prod.splits)
    next
      case (Some m)
      then have "n < m" by (auto simp: totp_verify_find find_first_int split: if_splits)
      with Some show ?thesis by blast
    qed
    show ?thesis using c2 left2 later by blast
  qed
  have none: "enroll_begin None who account issuer bs uid stamp st = (st, Inl ''no_key'')"
    by (simp add: enroll_begin_def store_begin_def seal_def)
  show ?thesis using none b groups pending bad good by blast
qed

theorem enrolment_exact_witness:
  "\<exists>st1 e. enroll_begin (Some \<lparr>fe_encrypt = Some, fe_decrypt = Some\<rparr>) ''u1'' ''ana'' ''ServiceSentry'' (replicate 20 7) ''f1'' ''2024''
      \<lparr>mf_factors = [], mf_recovery = []\<rparr> = (st1, Inr e) \<and> secret_bytes (en_groups e) = replicate 20 7"
proof -
  have h: "cipher_ok \<lparr>fe_encrypt = Some, fe_decrypt = Some\<rparr>" "length (replicate 20 (7 :: nat)) = 5 * 4"
    "list_all (\<lambda>b. b < 256) (replicate 20 (7 :: nat))" "replicate 20 (7 :: nat) \<noteq> []"
    "length [(''c1'', ''salt'')] = length (recovery_new [[0, 1, 2, 3, 4, 5, 6, 7, 8, 9]])" "''f1'' \<noteq> []"
    by (simp_all add: cipher_ok_def recovery_new_def recovery_count_def list_all_iff)
  show ?thesis
    using enrolment_exact [OF h, where who = "''u1''" and account = "''ana''" and issuer = "''ServiceSentry''" and stamp = "''2024''"
        and st = "\<lparr>mf_factors = [], mf_recovery = []\<rparr>"] by blast
qed

end
