(* ===== verification/Mfa_Tables.thy ===== *)
theory Mfa_Tables
  imports Mfa_Store
begin

text \<open>
  The tables of the second factors over any run of operations: what every reachable store satisfies, and
  what only grows while codes are spent.
\<close>

section \<open>The store as a machine\<close>

datatype mfa_event =
    Ev_begin "fernet option" string string string string string string
  | Ev_confirm string int string string
  | Ev_note_step string int string string
  | Ev_delete string string
  | Ev_set_recovery string "(string \<times> string) list" string
  | Ev_consume string string
  | Ev_credential string string string int int string string string
  | Ev_count string int string
  | Ev_challenge "string \<Rightarrow> string" string string
  | Ev_answer "string \<Rightarrow> string" string string

fun mfa_step :: "mfa \<Rightarrow> mfa_event \<Rightarrow> mfa" where
  "mfa_step st (Ev_begin f who secret meth label uid now) = fst (store_begin f who secret meth label uid now st)"
| "mfa_step st (Ev_confirm who step meth now) = fst (store_confirm who step meth now st)"
| "mfa_step st (Ev_note_step who step meth now) = fst (note_step who step meth now st)"
| "mfa_step st (Ev_delete who meth) = fst (store_delete who meth st)"
| "mfa_step st (Ev_set_recovery who fresh now) = fst (set_recovery who fresh now st)"
| "mfa_step st (Ev_consume uid now) = fst (consume_recovery uid now st)"
| "mfa_step st (Ev_credential who cred key alg n label uid now) = fst (save_credential who cred key alg n label uid now st)"
| "mfa_step st (Ev_count who n now) = fst (note_sign_count who n now st)"
| "mfa_step st (Ev_challenge digest who c) = fst (set_challenge digest who c st)"
| "mfa_step st (Ev_answer digest who c) = fst (consume_challenge digest who c st)"

text \<open>One row per account and method, and no secret in the clear.\<close>

definition row_key :: "factor \<Rightarrow> string \<times> string" where
  "row_key r = (fa_user r, fa_method r)"

definition sealed_row :: "factor \<Rightarrow> bool" where
  "sealed_row r \<longleftrightarrow> fa_secret r = [] \<or> starts_with enc_prefix (fa_secret r)"

definition mfa_wf :: "mfa \<Rightarrow> bool" where
  "mfa_wf st \<longleftrightarrow> distinct (map row_key (mf_factors st)) \<and> (\<forall>r \<in> set (mf_factors st). sealed_row r)"

lemma mfa_wf_update:
  assumes "mfa_wf st" "\<And>r. row_key (g r) = row_key r" "\<And>r. fa_secret (g r) = fa_secret r"
  shows "mfa_wf (fst (update_factors p g st))"
proof -
  have d: "map (row_key \<circ> (\<lambda>r. if p r then g r else r)) xs = map row_key xs" for xs
    using assms(2) by (induction xs) auto
  have "sealed_row (g r) = sealed_row r" for r using assms(3) by (simp add: sealed_row_def)
  then show ?thesis using assms(1) by (auto simp: mfa_wf_def update_factors_def d)
qed

lemma mfa_wf_filter: "mfa_wf st \<Longrightarrow> mfa_wf (st\<lparr>mf_factors := filter p (mf_factors st)\<rparr>)"
  by (simp add: mfa_wf_def distinct_map_filter_fst)

lemma mfa_wf_recovery: "mfa_wf (st\<lparr>mf_recovery := rs\<rparr>) = mfa_wf st"
  by (simp add: mfa_wf_def)

lemma mfa_wf_replace:
  assumes "mfa_wf st" "row_key row = (who, meth)" "sealed_row row"
  shows "mfa_wf (replace_factor who meth row st)"
proof -
  have "mfa_wf (st\<lparr>mf_factors := filter (\<lambda>r. \<not> of_user who meth r) (mf_factors st)\<rparr>)"
    by (rule mfa_wf_filter [OF assms(1)])
  moreover have "row_key row \<notin> row_key ` set (filter (\<lambda>r. \<not> of_user who meth r) (mf_factors st))"
    using assms(2) by (auto simp: row_key_def of_user_def)
  ultimately show ?thesis using assms(3) by (auto simp: mfa_wf_def replace_factor_def)
qed

lemma mfa_wf_step: "mfa_wf st \<Longrightarrow> mfa_wf (mfa_step st ev)"
proof (induction st ev rule: mfa_step.induct)
  case (1 st f who secret meth label uid now)
  have "sealed_row ((new_factor uid who meth label now)\<lparr>fa_secret := seal f secret\<rparr>)"
    by (auto simp: sealed_row_def seal_def Let_def split: option.splits)
  with 1 show ?case
    by (auto simp: store_begin_def Let_def intro!: mfa_wf_replace simp: row_key_def new_factor_def)
next
  case (4 st who meth)
  then show ?case by (auto simp: store_delete_def Let_def mfa_wf_recovery intro: mfa_wf_filter)
next
  case (7 st who cred key alg n label uid now)
  then show ?case
    by (auto simp: save_credential_def intro!: mfa_wf_replace simp: row_key_def new_factor_def sealed_row_def)
next
  case (10 st digest who c)
  then show ?case by (auto simp: consume_challenge_def intro!: mfa_wf_update simp: row_key_def)
qed (auto simp: store_confirm_def note_step_def set_recovery_def consume_recovery_def note_sign_count_def set_challenge_def
    mfa_wf_recovery Let_def row_key_def intro!: mfa_wf_update)

interpretation mfa_tables: machine mfa_step mfa_wf
  by unfold_locales (rule mfa_wf_step)

section \<open>What only grows\<close>

text \<open>The operations of signing in: they spend steps, codes and challenges, and never enrol or remove.\<close>

fun spends :: "mfa_event \<Rightarrow> bool" where
  "spends (Ev_note_step who step meth now) = True"
| "spends (Ev_consume uid now) = (now \<noteq> [])"
| "spends (Ev_count who n now) = True"
| "spends (Ev_challenge digest who c) = True"
| "spends (Ev_answer digest who c) = True"
| "spends _ = False"

definition spend :: "mfa \<Rightarrow> mfa_event \<Rightarrow> mfa" where
  "spend st ev = (if spends ev then mfa_step st ev else st)"

text \<open>The last step and the counter of every account and method; \<open>-1\<close> where there is none.\<close>

datatype mark = Step_mark string string | Count_mark string string

fun high_water :: "mfa \<Rightarrow> mark \<Rightarrow> int" where
  "high_water st (Step_mark who meth) =
     (case find (of_user who meth) (mf_factors st) of None \<Rightarrow> - 1 | Some r \<Rightarrow> fa_last_step r)"
| "high_water st (Count_mark who meth) =
     (case find (of_user who meth) (mf_factors st) of None \<Rightarrow> - 1 | Some r \<Rightarrow> fa_count r)"

lemma find_update:
  assumes "\<And>r. of_user who meth (g r) = of_user who meth r"
  shows "find (of_user who meth) (map (\<lambda>r. if p r then g r else r) xs)
     = map_option (\<lambda>r. if p r then g r else r) (find (of_user who meth) xs)"
  using assms by (induction xs) auto

lemma high_water_update:
  assumes "\<And>who meth r. of_user who meth (g r) = of_user who meth r"
    and "\<And>r. p r \<Longrightarrow> fa_last_step r \<le> fa_last_step (g r) \<and> fa_count r \<le> fa_count (g r)"
  shows "high_water st \<le> high_water (fst (update_factors p g st))"
proof (rule le_funI)
  fix k
  show "high_water st k \<le> high_water (fst (update_factors p g st)) k"
    using assms by (cases k) (auto simp: update_factors_def find_update split: option.split)
qed

lemma high_water_recovery: "high_water (st\<lparr>mf_recovery := rs\<rparr>) = high_water st"
proof
  fix k show "high_water (st\<lparr>mf_recovery := rs\<rparr>) k = high_water st k" by (cases k) simp_all
qed

lemma spend_mono: "high_water st \<le> high_water (spend st ev)"
proof (cases "spends ev")
  case True
  then show ?thesis
    by (cases ev)
      (auto simp: spend_def note_step_def consume_recovery_def note_sign_count_def set_challenge_def consume_challenge_def
        high_water_recovery Let_def of_user_def intro!: high_water_update)
qed (simp add: spend_def)

interpretation spending: monotone_machine spend mfa_wf high_water
proof
  fix st ev
  assume "mfa_wf st"
  then show "mfa_wf (spend st ev)" by (simp add: spend_def mfa_wf_step)
  show "high_water st \<le> high_water (spend st ev)" by (rule spend_mono)
qed

text \<open>C34.
  Whatever is done to the tables, from an empty store: an account never has two factors of a kind, and no
  secret is ever stored in the clear. And while codes are being spent, by any number of sign-ins in any
  order, the step last used and the counter of every factor only move forward.\<close>

theorem mfa_tables_invariant:
  assumes "st = foldl mfa_step \<lparr>mf_factors = [], mf_recovery = []\<rparr> evs"
  shows "(\<forall>r \<in> set (mf_factors st). \<forall>r' \<in> set (mf_factors st). fa_user r = fa_user r' \<and> fa_method r = fa_method r' \<longrightarrow> r = r')
    \<and> (\<forall>r \<in> set (mf_factors st). fa_secret r = [] \<or> starts_with enc_prefix (fa_secret r))
    \<and> (\<forall>evs' k. high_water st k \<le> high_water (foldl spend st evs') k)"
proof -
  have "mfa_wf \<lparr>mf_factors = [], mf_recovery = []\<rparr>" by (simp add: mfa_wf_def)
  then have wf: "mfa_wf st" unfolding assms by (rule mfa_tables.run_inv)
  then have "inj_on row_key (set (mf_factors st))" by (simp add: mfa_wf_def distinct_map)
  then have "\<forall>r \<in> set (mf_factors st). \<forall>r' \<in> set (mf_factors st). fa_user r = fa_user r' \<and> fa_method r = fa_method r' \<longrightarrow> r = r'"
    by (auto simp: inj_on_def row_key_def)
  moreover have "high_water st k \<le> high_water (foldl spend st evs') k" for evs' k
    using spending.run_mono [OF wf, of evs'] by (rule le_funD)
  ultimately show ?thesis using wf by (auto simp: mfa_wf_def sealed_row_def)
qed

theorem mfa_tables_invariant_witness:
  "high_water (foldl mfa_step \<lparr>mf_factors = [], mf_recovery = []\<rparr>
      [Ev_begin (Some \<lparr>fe_encrypt = Some, fe_decrypt = Some\<rparr>) ''u1'' ''ABCD'' ''totp'' [] ''f1'' ''2024'', Ev_confirm ''u1'' 7 ''totp'' ''2024''])
     (Step_mark ''u1'' ''totp'') = 7
   \<and> high_water (foldl mfa_step \<lparr>mf_factors = [], mf_recovery = []\<rparr>
      [Ev_begin (Some \<lparr>fe_encrypt = Some, fe_decrypt = Some\<rparr>) ''u1'' ''ABCD'' ''totp'' [] ''f1'' ''2024'', Ev_confirm ''u1'' 7 ''totp'' ''2024''])
     (Step_mark ''u1'' ''totp'')
     \<le> high_water (foldl spend (foldl mfa_step \<lparr>mf_factors = [], mf_recovery = []\<rparr>
      [Ev_begin (Some \<lparr>fe_encrypt = Some, fe_decrypt = Some\<rparr>) ''u1'' ''ABCD'' ''totp'' [] ''f1'' ''2024'', Ev_confirm ''u1'' 7 ''totp'' ''2024''])
        [Ev_note_step ''u1'' 5 ''totp'' ''2025'']) (Step_mark ''u1'' ''totp'')"
proof
  show "high_water (foldl mfa_step \<lparr>mf_factors = [], mf_recovery = []\<rparr>
      [Ev_begin (Some \<lparr>fe_encrypt = Some, fe_decrypt = Some\<rparr>) ''u1'' ''ABCD'' ''totp'' [] ''f1'' ''2024'', Ev_confirm ''u1'' 7 ''totp'' ''2024''])
     (Step_mark ''u1'' ''totp'') = 7"
    by code_simp
qed (use mfa_tables_invariant [OF refl] in blast)

end
