(* ===== verification/Leader.thy ===== *)
theory Leader
  imports SS_Prelude
begin

text \<open>
  The lease that makes one replica the owner of a background service: \<^verbatim>\<open>lib/services/manager/leader.py\<close>.
  The table \<^verbatim>\<open>service_leader\<close> is a dict by service, which the unique column guarantees. An attempt is
  a \<open>SELECT\<close> followed by one write that depends on what was read, so it is modelled as the two steps and
  their composition: with SQLite's immediate transactions nothing comes in between. A failed statement
  changes nothing and answers false. NULL is \<open>None\<close>; the clock and the identifiers are arguments.
\<close>

record lease =
  ls_uid :: string
  ls_holder :: string
  ls_host :: "string option"
  ls_acquired :: "time option"
  ls_renewed :: "time option"
  ls_expires :: "time option"

type_synonym leases = "(string, lease) dict"

section \<open>An attempt\<close>

definition lease_read :: "leases \<Rightarrow> string \<Rightarrow> (string \<times> time option) option" where
  "lease_read tab key = map_option (\<lambda>l. (ls_holder l, ls_expires l)) (map_of tab key)"

text \<open>\<open>x < now\<close> in SQL: not true of NULL.\<close>

definition sql_lt :: "time option \<Rightarrow> time \<Rightarrow> bool" where
  "sql_lt x now = (case x of None \<Rightarrow> False | Some e \<Rightarrow> e < now)"

text \<open>An update of the row of a service under a condition, and whether it changed one.\<close>

definition lease_update :: "string \<Rightarrow> (lease \<Rightarrow> bool) \<Rightarrow> (lease \<Rightarrow> lease) \<Rightarrow> leases \<Rightarrow> leases \<times> bool" where
  "lease_update key p g tab =
     (case map_of tab key of
        None \<Rightarrow> (tab, False)
      | Some l \<Rightarrow> if p l then (AList.update key (g l) tab, True) else (tab, False))"

definition lease_insert :: "string \<Rightarrow> lease \<Rightarrow> leases \<Rightarrow> leases \<times> bool" where
  "lease_insert key l tab =
     (case map_of tab key of None \<Rightarrow> (AList.update key l tab, True) | Some _ \<Rightarrow> (tab, False))"

definition lease_write :: "(string \<times> time option) option \<Rightarrow> string \<Rightarrow> string \<Rightarrow> string option \<Rightarrow> time \<Rightarrow> string \<Rightarrow> time
    \<Rightarrow> leases \<Rightarrow> leases \<times> bool" where
  "lease_write seen key inst host ttl uid now tab =
     (let exp = now + max 1 ttl
      in case seen of
           None \<Rightarrow>
             lease_insert key \<lparr>ls_uid = uid, ls_holder = inst, ls_host = host, ls_acquired = Some now,
               ls_renewed = Some now, ls_expires = Some exp\<rparr> tab
         | Some (holder, expires) \<Rightarrow>
             if holder = inst then
               lease_update key (\<lambda>l. ls_holder l = inst)
                 (\<lambda>l. l\<lparr>ls_renewed := Some now, ls_expires := Some exp, ls_host := host\<rparr>) tab
             else if holder = [] \<or> expires = None \<or> sql_lt expires now then
               lease_update key (\<lambda>l. ls_holder l = holder \<or> sql_lt (ls_expires l) now)
                 (\<lambda>l. l\<lparr>ls_holder := inst, ls_host := host, ls_acquired := Some now, ls_renewed := Some now,
                        ls_expires := Some exp\<rparr>) tab
             else (tab, False))"

definition try_acquire :: "string \<Rightarrow> string \<Rightarrow> string option \<Rightarrow> time \<Rightarrow> string \<Rightarrow> time \<Rightarrow> leases \<Rightarrow> leases \<times> bool" where
  "try_acquire key inst host ttl uid now tab = lease_write (lease_read tab key) key inst host ttl uid now tab"

definition release :: "string \<Rightarrow> string \<Rightarrow> leases \<Rightarrow> leases" where
  "release key inst tab =
     fst (lease_update key (\<lambda>l. ls_holder l = inst) (\<lambda>l. l\<lparr>ls_holder := [], ls_expires := Some 0\<rparr>) tab)"

section \<open>Reads\<close>

definition live :: "lease \<Rightarrow> time \<Rightarrow> bool" where
  "live l now = (ls_holder l \<noteq> [] \<and> (case ls_expires l of None \<Rightarrow> False | Some e \<Rightarrow> \<not> e < now))"

definition current_leader :: "leases \<Rightarrow> string \<Rightarrow> time \<Rightarrow> (string \<times> string option \<times> time) option" where
  "current_leader tab key now =
     (case map_of tab key of
        None \<Rightarrow> None
      | Some l \<Rightarrow> if live l now then Some (ls_holder l, ls_host l, opt (ls_expires l) 0) else None)"

text \<open>\<^verbatim>\<open>holder and expires and expires >= now\<close>: an expiry of zero is falsy.\<close>

definition listed_live :: "lease \<Rightarrow> time \<Rightarrow> bool" where
  "listed_live l now = (ls_holder l \<noteq> [] \<and> (case ls_expires l of None \<Rightarrow> False | Some e \<Rightarrow> e \<noteq> 0 \<and> now \<le> e))"

definition list_leaders :: "leases \<Rightarrow> time \<Rightarrow> (string \<times> lease) list" where
  "list_leaders tab now = filter (\<lambda>(k, l). listed_live l now) tab"

definition lease_rows :: "leases \<Rightarrow> time \<Rightarrow> (string \<times> string \<times> string \<times> time \<times> time \<times> time \<times> bool) list" where
  "lease_rows tab now =
     map (\<lambda>(k, l). (k, ls_holder l, opt (ls_host l) [], opt (ls_expires l) 0, opt (ls_renewed l) 0,
                    opt (ls_acquired l) 0, listed_live l now)) tab"

section \<open>What an attempt answers\<close>

definition free_at :: "leases \<Rightarrow> string \<Rightarrow> time \<Rightarrow> bool" where
  "free_at tab key now \<longleftrightarrow> current_leader tab key now = None"

lemma try_acquire_live:
  assumes "map_of tab key = Some l" "live l now" "ls_holder l \<noteq> inst"
  shows "try_acquire key inst host ttl uid now tab = (tab, False)"
  using assms by (auto simp: try_acquire_def lease_read_def lease_write_def live_def sql_lt_def split: option.splits)

lemma try_acquire_row:
  assumes "try_acquire key inst host ttl uid now tab = (tab', ok)"
  shows "ok \<longleftrightarrow> (case map_of tab key of None \<Rightarrow> True | Some l \<Rightarrow> ls_holder l = inst \<or> \<not> live l now)"
    and "\<not> ok \<Longrightarrow> tab' = tab"
    and "ok \<Longrightarrow> \<exists>l. map_of tab' key = Some l \<and> ls_holder l = inst \<and> ls_expires l = Some (now + max 1 ttl)"
    and "k \<noteq> key \<Longrightarrow> map_of tab' k = map_of tab k"
proof -
  show "ok \<longleftrightarrow> (case map_of tab key of None \<Rightarrow> True | Some l \<Rightarrow> ls_holder l = inst \<or> \<not> live l now)"
    using assms by (auto simp: try_acquire_def lease_read_def lease_write_def lease_update_def lease_insert_def
        live_def sql_lt_def Let_def split: option.splits if_splits)
  show "\<not> ok \<Longrightarrow> tab' = tab"
    using assms by (auto simp: try_acquire_def lease_read_def lease_write_def lease_update_def lease_insert_def
        Let_def split: option.splits if_splits)
  show "ok \<Longrightarrow> \<exists>l. map_of tab' key = Some l \<and> ls_holder l = inst \<and> ls_expires l = Some (now + max 1 ttl)"
    using assms by (auto simp: try_acquire_def lease_read_def lease_write_def lease_update_def lease_insert_def dict_simps
        Let_def split: option.splits if_splits)
  show "k \<noteq> key \<Longrightarrow> map_of tab' k = map_of tab k"
    using assms by (auto simp: try_acquire_def lease_read_def lease_write_def lease_update_def lease_insert_def dict_simps
        Let_def split: option.splits if_splits)
qed

lemma release_row:
  "map_of (release key inst tab) k =
     (if k = key then map_option (\<lambda>l. if ls_holder l = inst then l\<lparr>ls_holder := [], ls_expires := Some 0\<rparr> else l) (map_of tab key)
      else map_of tab k)"
  by (auto simp: release_def lease_update_def dict_simps split: option.splits)

text \<open>
  What an attempt answers: an instance gets the lease exactly when nobody holds it live at that instant or
  it holds it already, and then it holds it for the whole term; otherwise nothing changes. So the
  lease is always taken over: after the term of a holder that stopped renewing, and at once after a release,
  the next attempt of any instance succeeds, and leaves every other service's lease alone.\<close>

theorem acquire_exact:
  assumes "inst \<noteq> []" "try_acquire key inst host ttl uid now tab = (tab', ok)"
  shows "(ok \<longleftrightarrow> current_leader tab key now = None \<or> (\<exists>l. map_of tab key = Some l \<and> ls_holder l = inst))
    \<and> (ok \<longrightarrow> (\<forall>t. t \<le> now + max 1 ttl \<longrightarrow> (\<exists>h. current_leader tab' key t = Some (inst, h, now + max 1 ttl)))
             \<and> (\<forall>t other. now + max 1 ttl < t \<longrightarrow> snd (try_acquire key other host ttl uid t tab')))
    \<and> (\<not> ok \<longrightarrow> tab' = tab)
    \<and> (\<forall>k t. k \<noteq> key \<longrightarrow> current_leader tab' k t = current_leader tab k t)
    \<and> (ok \<longrightarrow> (\<forall>t other. snd (try_acquire key other host ttl uid t (release key inst tab'))))"
proof (intro conjI allI impI)
  note r = try_acquire_row [OF assms(2)]
  have cl: "current_leader tab key now = None \<longleftrightarrow> (case map_of tab key of None \<Rightarrow> True | Some l \<Rightarrow> \<not> live l now)"
    by (simp add: current_leader_def split: option.splits)
  show ok: "ok \<longleftrightarrow> current_leader tab key now = None \<or> (\<exists>l. map_of tab key = Some l \<and> ls_holder l = inst)"
    using r(1) cl by (auto split: option.splits)
  show "tab' = tab" if "\<not> ok" using r(2) that .
  show "current_leader tab' k t = current_leader tab k t" if "k \<noteq> key" for k t
    using r(4) [OF that] by (simp add: current_leader_def)
  show "\<exists>h. current_leader tab' key t = Some (inst, h, now + max 1 ttl)" if "ok" "t \<le> now + max 1 ttl" for t
    using r(3) [OF that(1)] that(2) assms(1) by (auto simp: current_leader_def live_def opt_def)
  show "snd (try_acquire key other host ttl uid t tab')" if "ok" "now + max 1 ttl < t" for t other
  proof -
    obtain tab2 ok2 where a: "try_acquire key other host ttl uid t tab' = (tab2, ok2)"
      by (cases "try_acquire key other host ttl uid t tab'")
    from r(3) [OF that(1)] that(2) try_acquire_row(1) [OF a] a show ?thesis by (auto simp: live_def)
  qed
  show "snd (try_acquire key other host ttl uid t (release key inst tab'))" if "ok" for t other
  proof -
    obtain tab2 ok2 where a: "try_acquire key other host ttl uid t (release key inst tab') = (tab2, ok2)"
      by (cases "try_acquire key other host ttl uid t (release key inst tab')")
    from r(3) [OF that] obtain l where "map_of tab' key = Some l" "ls_holder l = inst" by blast
    then have "map_of (release key inst tab') key = Some (l\<lparr>ls_holder := [], ls_expires := Some 0\<rparr>)" by (simp add: release_row)
    with try_acquire_row(1) [OF a] a show ?thesis by (simp add: live_def)
  qed
qed

theorem acquire_exact_witness:
  "snd (try_acquire ''backup'' ''b'' None 30 ''u2'' 200 (fst (try_acquire ''backup'' ''a'' None 30 ''u1'' 100 [])))"
proof -
  let ?t = "fst (try_acquire ''backup'' ''a'' None 30 ''u1'' 100 [])"
  have a: "try_acquire ''backup'' ''a'' None 30 ''u1'' 100 [] = (?t, True)" by code_simp
  have c: "current_leader ?t ''backup'' 200 = None" by code_simp
  obtain tab ok where b: "try_acquire ''backup'' ''b'' None 30 ''u2'' 200 ?t = (tab, ok)"
    by (cases "try_acquire ''backup'' ''b'' None 30 ''u2'' 200 ?t")
  have "''b'' \<noteq> []" by simp
  from acquire_exact [OF this b] c b show ?thesis by simp
qed

section \<open>One leader at a time\<close>

text \<open>
  What the replicas know: the end of the term each was last promised, until it is refused or gives up.
  Attempts and releases of any instances for any services, in the order of their clock readings.
\<close>

datatype lease_event =
    Attempt string string "string option" time string time
  | Give_up string string time

fun event_time :: "lease_event \<Rightarrow> time" where
  "event_time (Attempt key inst host ttl uid now) = now"
| "event_time (Give_up key inst now) = now"

fun event_inst :: "lease_event \<Rightarrow> string" where
  "event_inst (Attempt key inst host ttl uid now) = inst"
| "event_inst (Give_up key inst now) = inst"

record cluster =
  cl_leases :: leases
  cl_promised :: "string \<times> string \<Rightarrow> time option"
  cl_clock :: time

fun cluster_step :: "cluster \<Rightarrow> lease_event \<Rightarrow> cluster" where
  "cluster_step s (Attempt key inst host ttl uid now) =
     (if now < cl_clock s \<or> inst = [] then s
      else let (tab, ok) = try_acquire key inst host ttl uid now (cl_leases s)
        in \<lparr>cl_leases = tab,
            cl_promised = (cl_promised s)((key, inst) := (if ok then Some (now + max 1 ttl) else None)),
            cl_clock = now\<rparr>)"
| "cluster_step s (Give_up key inst now) =
     (if now < cl_clock s \<or> inst = [] then s
      else \<lparr>cl_leases = release key inst (cl_leases s), cl_promised = (cl_promised s)((key, inst) := None), cl_clock = now\<rparr>)"

definition believes :: "cluster \<Rightarrow> string \<Rightarrow> string \<Rightarrow> time \<Rightarrow> bool" where
  "believes s key inst t \<longleftrightarrow> (\<exists>e. cl_promised s (key, inst) = Some e \<and> t \<le> e)"

text \<open>An instance whose term is not over is the holder on record, for that term.\<close>

definition promises_kept :: "cluster \<Rightarrow> bool" where
  "promises_kept s \<longleftrightarrow> dict_wf (cl_leases s) \<and>
     (\<forall>key inst e. cl_promised s (key, inst) = Some e \<and> cl_clock s \<le> e \<longrightarrow>
        inst \<noteq> [] \<and> (\<exists>l. map_of (cl_leases s) key = Some l \<and> ls_holder l = inst \<and> ls_expires l = Some e))"

lemma lease_update_wf: "dict_wf tab \<Longrightarrow> dict_wf (fst (lease_update key p g tab))"
  by (simp add: lease_update_def split: option.split)

lemma try_acquire_wf: "dict_wf tab \<Longrightarrow> dict_wf (fst (try_acquire key inst host ttl uid now tab))"
  by (auto simp: try_acquire_def lease_write_def lease_insert_def Let_def lease_update_wf split: option.split)

lemma promises_kept_step:
  assumes "promises_kept s"
  shows "promises_kept (cluster_step s ev) \<and> cl_clock s \<le> cl_clock (cluster_step s ev)"
proof (cases "event_time ev < cl_clock s \<or> event_inst ev = []")
  case True
  with assms show ?thesis by (cases ev) auto
next
  case False
  have wf: "dict_wf (cl_leases s)"
    and kept: "\<And>key inst e. cl_promised s (key, inst) = Some e \<Longrightarrow> cl_clock s \<le> e \<Longrightarrow>
        inst \<noteq> [] \<and> (\<exists>l. map_of (cl_leases s) key = Some l \<and> ls_holder l = inst \<and> ls_expires l = Some e)"
    using assms by (auto simp: promises_kept_def)
  show ?thesis
  proof (cases ev)
    case (Attempt key inst host ttl uid now)
    with False have now: "cl_clock s \<le> now" "inst \<noteq> []" by auto
    obtain tab ok where a: "try_acquire key inst host ttl uid now (cl_leases s) = (tab, ok)"
      by (cases "try_acquire key inst host ttl uid now (cl_leases s)")
    note r = try_acquire_row [OF a]
    have step: "cluster_step s ev = \<lparr>cl_leases = tab,
        cl_promised = (cl_promised s)((key, inst) := (if ok then Some (now + max 1 ttl) else None)), cl_clock = now\<rparr>"
      using Attempt now a by simp
    have "inst' \<noteq> [] \<and> (\<exists>l. map_of tab key' = Some l \<and> ls_holder l = inst' \<and> ls_expires l = Some e)"
      if p: "((cl_promised s)((key, inst) := (if ok then Some (now + max 1 ttl) else None))) (key', inst') = Some e" "now \<le> e"
      for key' inst' e
    proof (cases "(key', inst') = (key, inst)")
      case True
      with p r(3) now show ?thesis by (auto split: if_splits)
    next
      case other: False
      with p kept [of key' inst' e] now obtain l where l: "inst' \<noteq> []" "map_of (cl_leases s) key' = Some l"
        "ls_holder l = inst'" "ls_expires l = Some e" by auto
      show ?thesis
      proof (cases "key' = key")
        case True
        with other l have "ls_holder l \<noteq> inst" by auto
        moreover have "live l now" using l p(2) by (simp add: live_def)
        ultimately have "\<not> ok" using r(1) l(2) True by simp
        with r(2) l show ?thesis by simp
      next
        case False
        with r(4) [OF False] l show ?thesis by simp
      qed
    qed
    moreover have "dict_wf tab" using try_acquire_wf [OF wf, of key inst host ttl uid now] a by simp
    ultimately have "promises_kept (cluster_step s ev)"
      unfolding step promises_kept_def cluster.select_convs by blast
    then show ?thesis unfolding step using now by simp
  next
    case (Give_up key inst now)
    with False have now: "cl_clock s \<le> now" "inst \<noteq> []" by auto
    have step: "cluster_step s ev = \<lparr>cl_leases = release key inst (cl_leases s),
        cl_promised = (cl_promised s)((key, inst) := None), cl_clock = now\<rparr>"
      using Give_up now by simp
    have "inst' \<noteq> [] \<and> (\<exists>l. map_of (release key inst (cl_leases s)) key' = Some l \<and> ls_holder l = inst' \<and> ls_expires l = Some e)"
      if p: "((cl_promised s)((key, inst) := None)) (key', inst') = Some e" "now \<le> e" for key' inst' e
    proof -
      from p kept [of key' inst' e] now obtain l where l: "inst' \<noteq> []" "map_of (cl_leases s) key' = Some l"
        "ls_holder l = inst'" "ls_expires l = Some e" "(key', inst') \<noteq> (key, inst)" by (auto split: if_splits)
      then show ?thesis by (auto simp: release_row)
    qed
    moreover have "dict_wf (release key inst (cl_leases s))" unfolding release_def by (rule lease_update_wf [OF wf])
    ultimately have "promises_kept (cluster_step s ev)"
      unfolding step promises_kept_def cluster.select_convs by blast
    then show ?thesis unfolding step using now by simp
  qed
qed

interpretation lease_run: monotone_machine cluster_step promises_kept cl_clock
  by unfold_locales (simp_all add: promises_kept_step)

text \<open>C6.
  With attempts that run one after another, as SQLite's immediate transactions make them, there is at most
  one leader per service at any time: of all the instances that were promised a term, by any sequence of
  attempts and releases in clock order, no two have one that is not over, and the one that has is the one
  on record.\<close>

theorem one_leader:
  assumes "s = foldl cluster_step \<lparr>cl_leases = [], cl_promised = (\<lambda>_. None), cl_clock = 0\<rparr> evs" "cl_clock s \<le> t"
    and "believes s key i t" "believes s key j t"
  shows "i = j \<and> (\<exists>h e. current_leader (cl_leases s) key t = Some (i, h, e))"
proof -
  have "promises_kept \<lparr>cl_leases = [], cl_promised = (\<lambda>_. None), cl_clock = 0\<rparr>" by (simp add: promises_kept_def)
  then have "promises_kept s" unfolding assms(1) by (rule lease_run.run_inv)
  then have "\<exists>l e. inst \<noteq> [] \<and> map_of (cl_leases s) key = Some l \<and> ls_holder l = inst \<and> ls_expires l = Some e \<and> t \<le> e"
    if "believes s key inst t" for inst
    using that assms(2) by (fastforce simp: promises_kept_def believes_def)
  from this [OF assms(3)] this [OF assms(4)] show ?thesis
    by (auto simp: current_leader_def live_def)
qed

theorem one_leader_witness:
  "let s = foldl cluster_step \<lparr>cl_leases = [], cl_promised = (\<lambda>_. None), cl_clock = 0\<rparr>
         [Attempt ''backup'' ''a'' None 30 ''u1'' 100, Attempt ''backup'' ''b'' None 30 ''u2'' 110, Attempt ''backup'' ''b'' None 30 ''u3'' 140]
   in believes s ''backup'' ''b'' 150 \<and> \<not> believes s ''backup'' ''a'' 150"
proof -
  let ?s = "foldl cluster_step \<lparr>cl_leases = [], cl_promised = (\<lambda>_. None), cl_clock = 0\<rparr>
         [Attempt ''backup'' ''a'' None 30 ''u1'' 100, Attempt ''backup'' ''b'' None 30 ''u2'' 110, Attempt ''backup'' ''b'' None 30 ''u3'' 140]"
  have "cl_promised ?s (''backup'', ''b'') = Some 170" by code_simp
  then have b: "believes ?s ''backup'' ''b'' 150" by (simp add: believes_def del: foldl_Cons)
  have c: "cl_clock ?s \<le> 150" by code_simp
  have "\<not> believes ?s ''backup'' ''a'' 150"
    using one_leader [OF refl c b, of "''a''"] by auto
  with b show ?thesis unfolding Let_def by blast
qed

text \<open>
  Interleaved, the write of a challenger may come after the holder's renewal: its condition asks that the
  holder be the one it read, not that the term it read be the one on record. Both are told they lead.
\<close>

lemma renewal_is_stolen:
  "let t0 = fst (try_acquire ''monitor'' ''a'' None 30 ''u1'' 0 []);
       seen = lease_read t0 ''monitor'';
       (t1, a_leads) = try_acquire ''monitor'' ''a'' None 30 ''u2'' 40 t0;
       (t2, b_leads) = lease_write seen ''monitor'' ''b'' None 30 ''u3'' 40 t1
   in a_leads \<and> b_leads"
  by code_simp

end
