(* ===== verification/Rbac_Catalog.thy ===== *)
theory Rbac_Catalog
  imports Py_Text
begin

text \<open>
  Who may do what: the catalogue of permissions (\<^verbatim>\<open>lib/core/permissions/__init__.py\<close>), the built-in
  identities (\<^verbatim>\<open>lib/core/constants.py\<close>) and what a request holds (\<^verbatim>\<open>lib/core/permissions/mixin.py\<close>,
  \<^verbatim>\<open>lib/core/apitokens/service.py\<close>). The flags that the packages declare in their manifests are
  found by scanning the packages, so what the scan returns is an argument (\<open>catalog\<close>). A \<^verbatim>\<open>frozenset\<close> of
  permissions is a set. The JSON text in which a token stores its flags is modelled as decoded.
\<close>

section \<open>Accounts, roles and groups\<close>

text \<open>The three in-memory dicts of the panel. A role or group key is its identifier, an account key its name.\<close>

record role =
  ro_name :: string
  ro_desc :: string
  ro_perms :: "string list"
  ro_enabled :: bool
  ro_created :: string
  ro_updated :: string
  ro_by :: string

record group =
  gr_name :: string
  gr_desc :: string
  gr_roles :: "string list"
  gr_enabled :: bool
  gr_landing :: string
  gr_created :: string
  gr_updated :: string
  gr_by :: string

text \<open>A key the source may leave out is an option where its absence can be told from a value.\<close>

record user =
  us_uid :: string
  us_hash :: string
  us_role :: "string option"
  us_display :: string
  us_email :: string
  us_lang :: string
  us_landing :: string
  us_dark :: "bool option"
  us_groups :: "string list"
  us_enabled :: bool
  us_login :: bool
  us_source :: string
  us_locked :: "string option"
  us_failed :: "int option"
  us_created :: string
  us_updated :: string
  us_by :: string

record panel =
  pn_users :: "(string, user) dict"
  pn_roles :: "(string, role) dict"
  pn_groups :: "(string, group) dict"
  pn_names :: "(string, string) dict"
  pn_overrides :: "(string, string \<times> string) dict"

section \<open>Built-in identities\<close>

definition uid_prefix :: string where
  "uid_prefix = ''00000000-0000-4000-''"

definition role_keys :: "string list" where
  "role_keys = [''admin'', ''editor'', ''viewer'', ''none'']"

definition builtin_role_uids :: "(string, string) dict" where
  "builtin_role_uids =
     [(''admin'', uid_prefix @ ''8003-000000000001''), (''editor'', uid_prefix @ ''8003-000000000002''),
      (''viewer'', uid_prefix @ ''8003-000000000003''), (''none'', uid_prefix @ ''8003-000000000000'')]"

definition admin_uid :: string where "admin_uid = uid_prefix @ ''8003-000000000001''"
definition viewer_uid :: string where "viewer_uid = uid_prefix @ ''8003-000000000003''"
definition none_uid :: string where "none_uid = uid_prefix @ ''8003-000000000000''"

definition builtin_group_uids :: "string list" where
  "builtin_group_uids = [uid_prefix @ ''8002-000000000001'']"

definition reserved_names :: "string list" where
  "reserved_names = [''system'', ''anonymous'']"

definition builtin_user_uids :: "string list" where
  "builtin_user_uids = [uid_prefix @ ''8001-000000000001'', uid_prefix @ ''8001-000000000002'']"

definition is_reserved_username :: "string \<Rightarrow> bool" where
  "is_reserved_username name = List.member reserved_names (py_lower (py_strip name))"

text \<open>
  \<^verbatim>\<open>new_uid\<close>: the first of the drawn identifiers outside the reserved range. The draws are an
  argument; with none of them usable the loop would go on drawing.
\<close>

fun new_uid :: "string list \<Rightarrow> string option" where
  "new_uid [] = None"
| "new_uid (raw # draws) = (if starts_with uid_prefix raw then new_uid draws else Some raw)"

section \<open>The catalogue\<close>

text \<open>What a manifest declares: a group of the role editor, and its flags with the roles each is granted to.\<close>

type_synonym catalog = "(string \<times> (string \<times> string list) list) list"

definition core_permissions :: "string list" where
  "core_permissions = [''services_view'', ''services_control'']"

definition core_editor :: "string list" where
  "core_editor = [''services_view'', ''services_control'']"

definition core_viewer :: "string list" where
  "core_viewer = [''services_view'']"

definition discovered_grants :: "catalog \<Rightarrow> string \<Rightarrow> string list" where
  "discovered_grants cat r = concat (map (\<lambda>(g, ps). map fst (filter (\<lambda>(f, rs). List.member rs r) ps)) cat)"

definition permissions :: "catalog \<Rightarrow> string list" where
  "permissions cat = core_permissions @ concat (map (\<lambda>(g, ps). map fst ps) cat)"

definition permission_groups :: "catalog \<Rightarrow> (string \<times> string list) list" where
  "permission_groups cat = (''perm_group_services'', core_permissions) # map (\<lambda>(g, ps). (g, map fst ps)) cat"

definition builtin_permissions :: "catalog \<Rightarrow> string \<Rightarrow> string list option" where
  "builtin_permissions cat key =
     map_of [(''admin'', permissions cat),
             (''editor'', core_editor @ discovered_grants cat ''editor''),
             (''viewer'', core_viewer @ discovered_grants cat ''viewer''),
             (''none'', [])] key"

section \<open>What counts as a permission\<close>

definition id_char :: "char \<Rightarrow> bool" where
  "id_char c = (is_dec c \<or> is_upper_az c \<or> is_lower_az c \<or> List.member ''_-.'' c)"

text \<open>The \<open>$\<close> of a Python pattern also matches before a final line feed.\<close>

definition before_eol :: "string \<Rightarrow> string" where
  "before_eol s = (if s \<noteq> [] \<and> code (last s) = 10 then butlast s else s)"

text \<open>\<^verbatim>\<open>^<kind>\.[a-zA-Z0-9_\-.]+\.(<actions>)$\<close>.\<close>

definition scoped_perm :: "string \<Rightarrow> string list \<Rightarrow> string \<Rightarrow> bool" where
  "scoped_perm kind actions p =
     (let s = before_eol p; pre = kind @ ''.''
      in starts_with pre s \<and>
         list_ex (\<lambda>a. let post = ''.'' @ a; mid = drop (length pre) s
            in ends_with post mid \<and> length post < length mid
               \<and> list_all id_char (take (length mid - length post) mid)) actions)"

definition actions4 :: "string list" where
  "actions4 = [''view'', ''add'', ''edit'', ''delete'']"

definition is_module_perm :: "string \<Rightarrow> bool" where "is_module_perm p = scoped_perm ''module'' actions4 p"
definition is_server_perm :: "string \<Rightarrow> bool" where "is_server_perm p = scoped_perm ''server'' actions4 p"
definition is_cluster_perm :: "string \<Rightarrow> bool" where "is_cluster_perm p = scoped_perm ''cluster'' actions4 p"
definition is_org_perm :: "string \<Rightarrow> bool" where "is_org_perm p = scoped_perm ''org'' [''view''] p"
definition is_syslogsrc_perm :: "string \<Rightarrow> bool" where "is_syslogsrc_perm p = scoped_perm ''syslogsrc'' [''view''] p"

definition is_valid_perm :: "catalog \<Rightarrow> string \<Rightarrow> bool" where
  "is_valid_perm cat p =
     (List.member (permissions cat) p \<or> is_module_perm p \<or> is_server_perm p
      \<or> is_cluster_perm p \<or> is_org_perm p \<or> is_syslogsrc_perm p)"

definition filter_valid_permissions :: "catalog \<Rightarrow> string list \<Rightarrow> string list" where
  "filter_valid_permissions cat perms = filter (is_valid_perm cat) perms"

section \<open>Names and identifiers\<close>

text \<open>\<^verbatim>\<open>_UUID_RE\<close>: five runs of hexadecimal digits, of lengths 8, 4, 4, 4 and 12.\<close>

definition is_uid :: "string \<Rightarrow> bool" where
  "is_uid s =
     (let parts = py_split CHR ''-'' (before_eol s)
      in map length parts = [8, 4, 4, 4, 12] \<and> list_all (list_all is_hex) parts)"

definition builtin_uid_to_key :: "string \<Rightarrow> string option" where
  "builtin_uid_to_key uid = map_of (map (\<lambda>(k, u). (u, k)) builtin_role_uids) uid"

definition builtin_uid_perms :: "catalog \<Rightarrow> string \<Rightarrow> string list option" where
  "builtin_uid_perms cat uid = Option.bind (builtin_uid_to_key uid) (builtin_permissions cat)"

definition uid_to_role_name :: "panel \<Rightarrow> string \<Rightarrow> string option" where
  "uid_to_role_name p uid =
     (case builtin_uid_to_key uid of
        Some key \<Rightarrow> Some key
      | None \<Rightarrow> map_option ro_name (map_of (pn_roles p) uid))"

definition role_name_to_uid :: "panel \<Rightarrow> string \<Rightarrow> string option" where
  "role_name_to_uid p name =
     (case map_of builtin_role_uids name of
        Some uid \<Rightarrow> Some uid
      | None \<Rightarrow> map_option fst (find (\<lambda>(uid, r). ro_name r = name) (pn_roles p)))"

definition group_label_to_uid :: "panel \<Rightarrow> string \<Rightarrow> string option" where
  "group_label_to_uid p label = map_option fst (find (\<lambda>(uid, g). gr_name g = label) (pn_groups p))"

definition group_name_to_uid :: "panel \<Rightarrow> string \<Rightarrow> string option" where
  "group_name_to_uid p name =
     (if map_of (pn_groups p) name \<noteq> None then Some name else group_label_to_uid p name)"

section \<open>What a role, an account and a request hold\<close>

definition role_permissions :: "catalog \<Rightarrow> panel \<Rightarrow> string \<Rightarrow> string set" where
  "role_permissions cat p ref =
     (case builtin_uid_perms cat ref of
        Some ps \<Rightarrow> set ps
      | None \<Rightarrow>
          (case builtin_permissions cat ref of
             Some ps \<Rightarrow> set ps
           | None \<Rightarrow>
               (case map_of (pn_roles p) ref of
                  Some r \<Rightarrow> if ro_enabled r then set (filter_valid_permissions cat (ro_perms r)) else {}
                | None \<Rightarrow> {})))"

definition group_permissions :: "catalog \<Rightarrow> panel \<Rightarrow> string \<Rightarrow> string set" where
  "group_permissions cat p gref =
     (if gref = [] then {}
      else case map_of (pn_groups p) gref of
             None \<Rightarrow> {}
           | Some g \<Rightarrow> if gr_enabled g then \<Union> (set (map (role_permissions cat p) (gr_roles g))) else {})"

definition user_groups :: "panel \<Rightarrow> string \<Rightarrow> string list" where
  "user_groups p name = (case map_of (pn_users p) name of None \<Rightarrow> [] | Some u \<Rightarrow> us_groups u)"

definition effective_permissions :: "catalog \<Rightarrow> panel \<Rightarrow> string \<Rightarrow> string \<Rightarrow> string set" where
  "effective_permissions cat p name ref =
     role_permissions cat p ref \<union> \<Union> (set (map (group_permissions cat p) (user_groups p name)))"

text \<open>A token's stored flags, decoded: the owner's set whatever it is, or a list.\<close>

datatype token_flags = Tok_all | Tok_flags "string list"

record token =
  tk_flags :: token_flags
  tk_owner :: string

definition token_effective :: "token_flags \<Rightarrow> bool \<Rightarrow> string set \<Rightarrow> string set" where
  "token_effective flags unbounded owner =
     (case flags of
        Tok_all \<Rightarrow> if unbounded then {} else owner
      | Tok_flags fs \<Rightarrow> if unbounded then set fs else set fs \<inter> owner)"

text \<open>A request: the account of its session, and the API token that authenticated it, if one did.\<close>

record api_request =
  rq_user :: string
  rq_token :: "token option"

definition session_role :: "panel \<Rightarrow> string \<Rightarrow> string" where
  "session_role p name = (case map_of (pn_users p) name of None \<Rightarrow> viewer_uid | Some u \<Rightarrow> opt (us_role u) viewer_uid)"

definition account_permissions :: "catalog \<Rightarrow> panel \<Rightarrow> string \<Rightarrow> string set" where
  "account_permissions cat p name =
     (if is_reserved_username name then {} else effective_permissions cat p name (session_role p name))"

definition session_permissions :: "catalog \<Rightarrow> panel \<Rightarrow> api_request \<Rightarrow> string set" where
  "session_permissions cat p rq =
     (case rq_token rq of
        None \<Rightarrow> account_permissions cat p (rq_user rq)
      | Some t \<Rightarrow> token_effective (tk_flags t) (List.member builtin_user_uids (tk_owner t))
                    (account_permissions cat p (rq_user rq)))"

section \<open>The guards\<close>

definition is_admin_role :: "panel \<Rightarrow> string \<Rightarrow> bool" where
  "is_admin_role p ref =
     (ref \<noteq> [] \<and> (ref = admin_uid \<or> (ref = ''admin'' \<and> map_of (pn_roles p) ref = None)))"

definition carries_admin :: "panel \<Rightarrow> group \<Rightarrow> bool" where
  "carries_admin p g = list_ex (is_admin_role p) (gr_roles g)"

definition is_admin_requester :: "panel \<Rightarrow> api_request \<Rightarrow> bool" where
  "is_admin_requester p rq \<longleftrightarrow>
     (case rq_token rq of
        Some t \<Rightarrow> tk_flags t = Tok_all
      | None \<Rightarrow> True) \<and>
     (case map_of (pn_users p) (rq_user rq) of
        None \<Rightarrow> False
      | Some u \<Rightarrow> is_admin_role p (opt (us_role u) [])
          \<or> list_ex (\<lambda>gref. case map_of (pn_groups p) gref of
                None \<Rightarrow> False
              | Some g \<Rightarrow> gr_enabled g \<and> carries_admin p g) (us_groups u))"

definition perms_grantable :: "catalog \<Rightarrow> panel \<Rightarrow> api_request \<Rightarrow> string list \<Rightarrow> bool" where
  "perms_grantable cat p rq perms \<longleftrightarrow>
     is_admin_requester p rq \<or> set perms \<subseteq> session_permissions cat p rq"

definition role_grantable :: "catalog \<Rightarrow> panel \<Rightarrow> api_request \<Rightarrow> string \<Rightarrow> bool" where
  "role_grantable cat p rq ref =
     (if is_admin_requester p rq then True
      else if ref = admin_uid \<or> ref = ''admin'' then False
      else case (case builtin_uid_perms cat ref of None \<Rightarrow> builtin_permissions cat ref | Some ps \<Rightarrow> Some ps) of
             Some ps \<Rightarrow> perms_grantable cat p rq ps
           | None \<Rightarrow> perms_grantable cat p rq (filter_valid_permissions cat
               (case map_of (pn_roles p) ref of None \<Rightarrow> [] | Some r \<Rightarrow> ro_perms r)))"

definition groups_grantable :: "catalog \<Rightarrow> panel \<Rightarrow> api_request \<Rightarrow> string list \<Rightarrow> bool" where
  "groups_grantable cat p rq refs =
     (is_admin_requester p rq \<or>
      list_all (\<lambda>gref. case map_of (pn_groups p) gref of
          None \<Rightarrow> True
        | Some g \<Rightarrow> list_all (role_grantable cat p rq) (gr_roles g)) refs)"

text \<open>The decorator of a route: any of the listed permissions.\<close>

definition perm_required :: "catalog \<Rightarrow> panel \<Rightarrow> api_request \<Rightarrow> string list \<Rightarrow> bool" where
  "perm_required cat p rq perms = list_ex (\<lambda>f. f \<in> session_permissions cat p rq) perms"

definition has_scoped :: "(string, string) dict \<Rightarrow> string \<Rightarrow> catalog \<Rightarrow> panel \<Rightarrow> api_request \<Rightarrow> string \<Rightarrow> string \<Rightarrow> bool" where
  "has_scoped globals kind cat p rq rid action =
     (let perms = session_permissions cat p rq
      in (case map_of globals action of None \<Rightarrow> False | Some f \<Rightarrow> f \<in> perms)
         \<or> kind @ ''.'' @ rid @ ''.'' @ action \<in> perms)"

definition has_module_permission :: "catalog \<Rightarrow> panel \<Rightarrow> api_request \<Rightarrow> string \<Rightarrow> string \<Rightarrow> bool" where
  "has_module_permission =
     has_scoped [(''view'', ''modules_view''), (''add'', ''modules_add''), (''edit'', ''modules_edit''),
                 (''delete'', ''modules_delete'')] ''module''"

definition has_server_permission :: "catalog \<Rightarrow> panel \<Rightarrow> api_request \<Rightarrow> string \<Rightarrow> string \<Rightarrow> bool" where
  "has_server_permission cat p rq rid action =
     (let globals = [(''view'', ''devices_view''), (''add'', ''devices_add''), (''edit'', ''devices_edit''),
                     (''delete'', ''devices_delete'')]
      in if rid = [] then (case map_of globals action of None \<Rightarrow> False | Some f \<Rightarrow> f \<in> session_permissions cat p rq)
         else has_scoped globals ''server'' cat p rq rid action)"

section \<open>Keys of a resource that is gone\<close>

definition scoped_keys :: "string \<Rightarrow> string \<Rightarrow> string list" where
  "scoped_keys kind rid = map (\<lambda>a. kind @ ''.'' @ rid @ ''.'' @ a) actions4"

definition strip_scoped :: "(string, role) dict \<Rightarrow> string \<Rightarrow> string list \<Rightarrow> (string, role) dict \<times> string list" where
  "strip_scoped roles kind ids =
     (let dead = concat (map (scoped_keys kind) (filter (\<lambda>r. r \<noteq> []) ids));
          kept = (\<lambda>r. filter (\<lambda>q. \<not> List.member dead q) (ro_perms r));
          changed = (\<lambda>r. length (kept r) \<noteq> length (ro_perms r))
      in if dead = [] then (roles, [])
         else (map (\<lambda>(uid, r). (uid, if changed r then r\<lparr>ro_perms := kept r\<rparr> else r)) roles,
               map fst (filter (\<lambda>(uid, r). changed r) roles)))"

end
