(* ===== verification/Rbac_Ops.thy ===== *)
theory Rbac_Ops
  imports Rbac_Catalog "HOL-Library.List_Lexorder" "HOL-Library.Char_ord"
begin

text \<open>
  The operations on roles, groups and accounts: \<^verbatim>\<open>lib/core/roles/service.py\<close>,
  \<^verbatim>\<open>lib/core/groups/service.py\<close>, \<^verbatim>\<open>lib/core/users/service.py\<close>. They edit the panel's dicts in place
  and raise \<^verbatim>\<open>AdminOpError\<close>; an edit made before the exception stays. So an operation answers a pair: the
  error or the result, and the panel as it was left. The password hash, the time stamp, the identifier drawn
  and the configured languages and pages are arguments. What an edit changed is listed for the audit log.
\<close>

section \<open>Results\<close>

datatype op_error = Op_error string "string list" | Key_error

datatype audit_value = Av_str string | Av_list "string list" | Av_bool bool | Av_opt "bool option"

type_synonym change = "string \<times> audit_value \<times> audit_value"

type_synonym 'r op = "panel \<Rightarrow> (op_error + 'r) \<times> panel"

definition op_fail :: "string \<Rightarrow> 'r op" where
  "op_fail key p = (Inl (Op_error key []), p)"

definition track_edit :: "string \<Rightarrow> ('a \<Rightarrow> audit_value) \<Rightarrow> 'a \<Rightarrow> 'a \<Rightarrow> change list" where
  "track_edit field mk old new = (if old \<noteq> new then [(field, mk old, mk new)] else [])"

text \<open>One edit after another, the changes collected; the first exception ends it where it is.\<close>

fun op_seq :: "change list op list \<Rightarrow> change list op" where
  "op_seq [] p = (Inr [], p)"
| "op_seq (f # fs) p =
     (case f p of
        (Inl e, q) \<Rightarrow> (Inl e, q)
      | (Inr cs, q) \<Rightarrow> (case op_seq fs q of (Inl e, r) \<Rightarrow> (Inl e, r) | (Inr ds, r) \<Rightarrow> (Inr (cs @ ds), r)))"

definition put_user :: "string \<Rightarrow> user \<Rightarrow> panel \<Rightarrow> panel" where
  "put_user name u p = p\<lparr>pn_users := AList.update name u (pn_users p)\<rparr>"

definition put_group :: "string \<Rightarrow> group \<Rightarrow> panel \<Rightarrow> panel" where
  "put_group uid g p = p\<lparr>pn_groups := AList.update uid g (pn_groups p)\<rparr>"

definition put_role :: "string \<Rightarrow> role \<Rightarrow> panel \<Rightarrow> panel" where
  "put_role uid r p = p\<lparr>pn_roles := AList.update uid r (pn_roles p)\<rparr>"

definition on_user :: "string \<Rightarrow> (user \<Rightarrow> (op_error + 'r) \<times> user) \<Rightarrow> 'r op" where
  "on_user name f p =
     (case map_of (pn_users p) name of
        None \<Rightarrow> (Inl Key_error, p)
      | Some u \<Rightarrow> (case f u of (r, u') \<Rightarrow> (r, put_user name u' p)))"

definition on_group :: "string \<Rightarrow> (group \<Rightarrow> (op_error + 'r) \<times> group) \<Rightarrow> 'r op" where
  "on_group uid f p =
     (case map_of (pn_groups p) uid of
        None \<Rightarrow> (Inl Key_error, p)
      | Some g \<Rightarrow> (case f g of (r, g') \<Rightarrow> (r, put_group uid g' p)))"

section \<open>Names of roles\<close>

text \<open>Custom roles are stored without a \<^verbatim>\<open>key\<close>, so only their name is looked up.\<close>

definition resolve_role_uid :: "panel \<Rightarrow> string \<Rightarrow> string option" where
  "resolve_role_uid p r =
     (if r = [] then None
      else case map_of builtin_role_uids r of
             Some uid \<Rightarrow> Some uid
           | None \<Rightarrow>
               if List.member (map snd builtin_role_uids) r \<or> map_of (pn_roles p) r \<noteq> None then Some r
               else map_option fst (find (\<lambda>(uid, rd). ro_name rd = r) (pn_roles p)))"

definition role_title :: "string \<Rightarrow> string" where
  "role_title key =
     dget [(''admin'', ''Admin''), (''editor'', ''Editor''), (''viewer'', ''Viewer''), (''none'', ''None'')] key key"

definition role_name_taken :: "panel \<Rightarrow> string \<Rightarrow> string option \<Rightarrow> bool" where
  "role_name_taken p name exclude =
     (let lc = py_lower name
      in List.member role_keys lc
         \<or> list_ex (\<lambda>key. map_of builtin_role_uids key \<noteq> exclude
               \<and> py_lower (dget (pn_names p) key (role_title key)) = lc) role_keys
         \<or> list_ex (\<lambda>(uid, r). Some uid \<noteq> exclude \<and> py_lower (ro_name r) = lc) (pn_roles p))"

definition builtin_key_for :: "string \<Rightarrow> string option" where
  "builtin_key_for uid = map_option fst (find (\<lambda>(k, u). u = uid) builtin_role_uids)"

section \<open>Roles\<close>

definition max_label :: nat where "max_label = 128"
definition max_desc :: nat where "max_desc = 512"

definition create_role ::
  "catalog \<Rightarrow> string \<Rightarrow> string \<Rightarrow> string list \<Rightarrow> bool \<Rightarrow> string \<Rightarrow> string \<Rightarrow> string \<Rightarrow> string op" where
  "create_role cat name0 desc0 perms0 enabled uid ts actor p =
     (let name = py_strip name0; desc = py_strip desc0; perms = filter_valid_permissions cat perms0
      in if name = [] then op_fail ''role_name_required'' p
         else if max_label < length name then op_fail ''label_too_long'' p
         else if max_desc < length desc then op_fail ''description_too_long'' p
         else if role_name_taken p name None then op_fail ''role_already_exists'' p
         else (Inr uid, put_role uid \<lparr>ro_name = name, ro_desc = desc, ro_perms = perms, ro_enabled = enabled,
                 ro_created = ts, ro_updated = ts, ro_by = actor\<rparr> p))"

text \<open>What an edit of a role may carry; \<open>None\<close> is an absent key. A null list of permissions is the empty one.\<close>

record role_req =
  rr_name :: "string option"
  rr_desc :: "string option"
  rr_perms :: "string list option"
  rr_enabled :: "bool option"

definition update_builtin_role :: "string \<Rightarrow> string \<Rightarrow> role_req \<Rightarrow> (change list \<times> bool) op" where
  "update_builtin_role uid key d p0 =
     (let cur = dget (pn_names p0) key (role_title key);
          (oname0, odesc) = dget (pn_overrides p0) uid (cur, []);
          oname = (if oname0 = [] then cur else oname0);
          p = p0\<lparr>pn_overrides := AList.update uid (oname, odesc) (pn_overrides p0)\<rparr>;
          describe = (\<lambda>(cs, q, nm). case rr_desc d of
              None \<Rightarrow> (Inr (cs, rr_name d \<noteq> None), q)
            | Some x \<Rightarrow> (Inr (cs @ track_edit ''description'' Av_str odesc (py_strip x), True),
                q\<lparr>pn_overrides := AList.update uid (nm, py_strip x) (pn_overrides q)\<rparr>))
      in case rr_name d of
           None \<Rightarrow> describe ([], p, oname)
         | Some x \<Rightarrow>
             (let new = (if py_strip x = [] then role_title key else py_strip x)
              in if max_label < length new then op_fail ''label_too_long'' p
                 else if role_name_taken p new (Some uid) then op_fail ''role_already_exists'' p
                 else describe (track_edit ''name'' Av_str oname new,
                        p\<lparr>pn_overrides := AList.update uid (new, odesc) (pn_overrides p),
                          pn_names := AList.update key new (pn_names p)\<rparr>, new)))"

definition update_custom_role :: "catalog \<Rightarrow> string \<Rightarrow> role_req \<Rightarrow> string \<Rightarrow> string \<Rightarrow> change list op" where
  "update_custom_role cat uid d ts actor p =
     (case map_of (pn_roles p) uid of
        None \<Rightarrow> (Inl Key_error, p)
      | Some r \<Rightarrow>
          (let bad = (case rr_name d of
                 None \<Rightarrow> None
               | Some x \<Rightarrow> if py_strip x = [] then Some ''role_name_required''
                           else if max_label < length (py_strip x) then Some ''label_too_long''
                           else if role_name_taken p (py_strip x) (Some uid) then Some ''role_already_exists''
                           else None)
           in case bad of
                Some key \<Rightarrow> op_fail key p
              | None \<Rightarrow>
                  (let name = (case rr_name d of None \<Rightarrow> ro_name r | Some x \<Rightarrow> py_strip x);
                       desc = (case rr_desc d of None \<Rightarrow> ro_desc r | Some x \<Rightarrow> py_strip x);
                       perms = (case rr_perms d of None \<Rightarrow> ro_perms r
                                | Some ps \<Rightarrow> sort (filter_valid_permissions cat ps));
                       enabled = opt (rr_enabled d) (ro_enabled r)
                   in (Inr (track_edit ''name'' Av_str (ro_name r) name
                            @ track_edit ''description'' Av_str (ro_desc r) desc
                            @ (if rr_perms d = None then [] else track_edit ''permissions'' Av_list (sort (ro_perms r)) perms)
                            @ track_edit ''enabled'' Av_bool (ro_enabled r) enabled),
                       put_role uid (r\<lparr>ro_name := name, ro_desc := desc, ro_perms := perms, ro_enabled := enabled,
                         ro_updated := ts, ro_by := actor\<rparr>) p))))"

text \<open>The names of the groups a deleted role is taken from; a role an account holds stays.\<close>

definition delete_role :: "string \<Rightarrow> string list op" where
  "delete_role uid p =
     (if List.member (map snd builtin_role_uids) uid then op_fail ''role_builtin'' p
      else if map_of (pn_roles p) uid = None then op_fail ''role_not_found'' p
      else let holders = map fst (filter (\<lambda>(n, u). us_role u = Some uid) (pn_users p))
        in if holders \<noteq> [] then (Inl (Op_error ''role_in_use'' holders), p)
           else (Inr (map (\<lambda>(k, g). gr_name g) (filter (\<lambda>(k, g). List.member (gr_roles g) uid) (pn_groups p))),
                 p\<lparr>pn_groups := map (\<lambda>(k, g). (k, g\<lparr>gr_roles := filter (\<lambda>r. r \<noteq> uid) (gr_roles g)\<rparr>)) (pn_groups p),
                   pn_roles := AList.delete uid (pn_roles p)\<rparr>))"

section \<open>Groups\<close>

definition create_group ::
  "string \<Rightarrow> string \<Rightarrow> string list \<Rightarrow> bool \<Rightarrow> string \<Rightarrow> string list \<Rightarrow> string \<Rightarrow> string \<Rightarrow> string \<Rightarrow> string op" where
  "create_group name0 desc0 roles enabled landing0 pages uid ts actor p =
     (let name = py_strip name0; desc = py_strip desc0; landing = py_strip landing0;
          unknown = filter (\<lambda>r. resolve_role_uid p r = None) roles
      in if name = [] then op_fail ''group_name_required'' p
         else if max_label < length name then op_fail ''label_too_long'' p
         else if max_desc < length desc then op_fail ''description_too_long'' p
         else if unknown \<noteq> [] then (Inl (Op_error ''invalid_roles'' unknown), p)
         else if landing \<noteq> [] \<and> pages \<noteq> [] \<and> \<not> List.member pages landing then op_fail ''invalid_landing_page'' p
         else if list_ex (\<lambda>(k, g). py_lower (gr_name g) = py_lower name) (pn_groups p)
              then op_fail ''group_already_exists'' p
         else (Inr uid, put_group uid \<lparr>gr_name = name, gr_desc = desc,
                 gr_roles = map (\<lambda>r. opt (resolve_role_uid p r) r) roles, gr_enabled = enabled, gr_landing = landing,
                 gr_created = ts, gr_updated = ts, gr_by = actor\<rparr> p))"

record group_req =
  gq_name :: "string option"
  gq_desc :: "string option"
  gq_landing :: "string option"
  gq_roles :: "string list option option"
  gq_members :: "string list option option"
  gq_enabled :: "bool option"

definition upd_group_text :: "bool \<Rightarrow> group_req \<Rightarrow> string list \<Rightarrow> group \<Rightarrow> (op_error + change list) \<times> group" where
  "upd_group_text builtin d pages g0 =
     (let named = (if builtin then None else map_option py_strip (gq_name d))
      in if (case named of None \<Rightarrow> False | Some x \<Rightarrow> max_label < length x)
         then (Inl (Op_error ''label_too_long'' []), g0)
         else let g1 = g0\<lparr>gr_name := opt named (gr_name g0)\<rparr>;
                  c1 = track_edit ''name'' Av_str (gr_name g0) (gr_name g1);
                  described = map_option py_strip (gq_desc d)
           in if (case described of None \<Rightarrow> False | Some x \<Rightarrow> max_desc < length x)
              then (Inl (Op_error ''description_too_long'' []), g1)
              else let g2 = g1\<lparr>gr_desc := opt described (gr_desc g1)\<rparr>;
                       c2 = track_edit ''description'' Av_str (gr_desc g1) (gr_desc g2);
                       landing = map_option py_strip (gq_landing d)
                in if (case landing of None \<Rightarrow> False
                       | Some x \<Rightarrow> x \<noteq> [] \<and> pages \<noteq> [] \<and> \<not> List.member pages x)
                   then (Inl (Op_error ''invalid_landing_page'' []), g2)
                   else let g3 = g2\<lparr>gr_landing := opt landing (gr_landing g2)\<rparr>
                     in (Inr (c1 @ c2 @ track_edit ''landing_page'' Av_str (gr_landing g2) (gr_landing g3)), g3))"

definition upd_group_roles :: "panel \<Rightarrow> group_req \<Rightarrow> group \<Rightarrow> (op_error + change list) \<times> group" where
  "upd_group_roles p d g =
     (case gq_roles d of
        None \<Rightarrow> (Inr [], g)
      | Some None \<Rightarrow> (Inl (Op_error ''invalid_roles'' []), g)
      | Some (Some rs) \<Rightarrow>
          (let unknown = filter (\<lambda>r. resolve_role_uid p r = None) rs;
               resolve = (\<lambda>r. opt (resolve_role_uid p r) r);
               new = sort (map resolve rs); old = sort (map resolve (gr_roles g))
           in if unknown \<noteq> [] then (Inl (Op_error ''invalid_roles'' unknown), g)
              else (Inr (track_edit ''roles'' Av_list old new), g\<lparr>gr_roles := new\<rparr>)))"

definition members_of :: "panel \<Rightarrow> string \<Rightarrow> string list" where
  "members_of p uid = map fst (filter (\<lambda>(n, u). List.member (us_groups u) uid) (pn_users p))"

definition set_member :: "string \<Rightarrow> string list \<Rightarrow> string \<times> user \<Rightarrow> string \<times> user" where
  "set_member uid members nu =
     (case nu of (n, u) \<Rightarrow>
        let was = List.member (us_groups u) uid; shall = List.member members n
        in (n, if was \<and> \<not> shall then u\<lparr>us_groups := filter (\<lambda>g. g \<noteq> uid) (us_groups u)\<rparr>
               else if \<not> was \<and> shall then u\<lparr>us_groups := us_groups u @ [uid]\<rparr> else u))"

definition upd_group_members :: "string \<Rightarrow> group_req \<Rightarrow> change list op" where
  "upd_group_members uid d p =
     (case gq_members d of
        None \<Rightarrow> (Inr [], p)
      | Some None \<Rightarrow> op_fail ''invalid_members'' p
      | Some (Some ms) \<Rightarrow>
          (let unknown = filter (\<lambda>m. map_of (pn_users p) m = None) ms
           in if unknown \<noteq> [] then (Inl (Op_error ''invalid_members'' unknown), p)
              else (Inr (track_edit ''members'' Av_list (sort (members_of p uid)) (sort (remdups ms))),
                    p\<lparr>pn_users := map (set_member uid ms) (pn_users p)\<rparr>)))"

definition upd_group_stamp :: "group_req \<Rightarrow> string \<Rightarrow> string \<Rightarrow> group \<Rightarrow> (op_error + change list) \<times> group" where
  "upd_group_stamp d ts actor g =
     (let g' = g\<lparr>gr_enabled := opt (gq_enabled d) (gr_enabled g)\<rparr>
      in (Inr (track_edit ''enabled'' Av_bool (gr_enabled g) (gr_enabled g')), g'\<lparr>gr_updated := ts, gr_by := actor\<rparr>))"

definition update_group :: "string \<Rightarrow> group_req \<Rightarrow> bool \<Rightarrow> string list \<Rightarrow> string \<Rightarrow> string \<Rightarrow> change list op" where
  "update_group uid d builtin pages ts actor =
     op_seq [on_group uid (upd_group_text builtin d pages),
             (\<lambda>p. on_group uid (upd_group_roles p d) p),
             upd_group_members uid d,
             on_group uid (upd_group_stamp d ts actor)]"

definition delete_group :: "string \<Rightarrow> string list op" where
  "delete_group uid p =
     (if map_of (pn_groups p) uid = None then op_fail ''group_not_found'' p
      else if List.member builtin_group_uids uid then op_fail ''group_builtin'' p
      else (Inr (members_of p uid),
            p\<lparr>pn_users := map (\<lambda>(n, u). (n, u\<lparr>us_groups := filter (\<lambda>g. g \<noteq> uid) (us_groups u)\<rparr>)) (pn_users p),
              pn_groups := AList.delete uid (pn_groups p)\<rparr>))"

end
