(* ===== verification/Rbac_Users.thy ===== *)
theory Rbac_Users
  imports Rbac_Ops
begin

text \<open>
  The operations on accounts (\<^verbatim>\<open>lib/core/users/service.py\<close>): who counts as an administrator, the
  password policy, and the edits with their guards for the last administrator. The layouts a person
  arranges on screen (tables, dashboard, dialogs, side bar) are not modelled.
\<close>

section \<open>Administrators\<close>

definition user_is_admin :: "user \<Rightarrow> (string, group) dict \<Rightarrow> bool" where
  "user_is_admin u groups =
     (opt (us_role u) [] = admin_uid \<or>
      list_ex (\<lambda>gref. case map_of groups gref of
          None \<Rightarrow> False
        | Some g \<Rightarrow> gr_enabled g \<and> List.member (gr_roles g) admin_uid) (us_groups u))"

definition count_admins :: "(string, user) dict \<Rightarrow> (string, group) dict \<Rightarrow> bool \<Rightarrow> nat" where
  "count_admins users groups active =
     length (filter (\<lambda>(n, u). user_is_admin u groups \<and> (active \<longrightarrow> us_enabled u)) users)"

section \<open>Passwords\<close>

record password_policy =
  pp_min :: nat
  pp_max :: nat
  pp_upper :: bool
  pp_digit :: bool
  pp_symbol :: bool

text \<open>\<^verbatim>\<open>str.isupper\<close> and \<^verbatim>\<open>str.islower\<close> of a character; the ordinal indicators count as lower case.\<close>

definition is_upper :: "char \<Rightarrow> bool" where
  "is_upper c = (is_upper_az c \<or> (192 \<le> code c \<and> code c \<le> 222 \<and> code c \<noteq> 215))"

definition is_lower :: "char \<Rightarrow> bool" where
  "is_lower c = (is_lower_az c \<or> (223 \<le> code c \<and> code c \<noteq> 247) \<or> code c = 170 \<or> code c = 181 \<or> code c = 186)"

text \<open>The printable ASCII characters that are neither letters nor digits.\<close>

definition is_symbol :: "char \<Rightarrow> bool" where
  "is_symbol c = (33 \<le> code c \<and> code c \<le> 126 \<and> \<not> is_dec c \<and> \<not> is_upper_az c \<and> \<not> is_lower_az c)"

definition validate_password :: "string \<Rightarrow> password_policy \<Rightarrow> string option" where
  "validate_password pw pol =
     (if length pw < pp_min pol then Some ''password_too_short''
      else if pp_max pol < length pw then Some ''password_too_long''
      else if pp_upper pol \<and> \<not> (list_ex is_upper pw \<and> list_ex is_lower pw) then Some ''password_need_upper''
      else if pp_digit pol \<and> \<not> list_ex is_digit_char pw then Some ''password_need_digit''
      else if pp_symbol pol \<and> \<not> list_ex is_symbol pw then Some ''password_need_symbol''
      else None)"

section \<open>Single edits\<close>

record context_args =
  cx_policy :: password_policy
  cx_hash :: "string \<Rightarrow> string"
  cx_default :: string
  cx_langs :: "string list"
  cx_pages :: "string list"
  cx_now :: string
  cx_actor :: string

definition max_username :: nat where "max_username = 64"
definition max_display :: nat where "max_display = 128"

record new_user =
  nu_name :: string
  nu_password :: string
  nu_role :: string
  nu_display :: string
  nu_email :: string
  nu_lang :: string
  nu_landing :: string
  nu_groups :: "string list"
  nu_enabled :: bool
  nu_login :: bool

definition create_user :: "context_args \<Rightarrow> new_user \<Rightarrow> string \<Rightarrow> string op" where
  "create_user cx d uid p =
     (let name = py_strip (nu_name d);
          display = (if py_strip (nu_display d) = [] then name else py_strip (nu_display d));
          landing = py_strip (nu_landing d);
          unknown = filter (\<lambda>g. map_of (pn_groups p) g = None) (nu_groups d)
      in if name = [] then op_fail ''username_required'' p
         else if is_reserved_username name then (Inl (Op_error ''username_reserved'' [py_lower name]), p)
         else if max_username < length name then op_fail ''name_too_long'' p
         else if nu_password d = [] then op_fail ''password_required'' p
         else case validate_password (nu_password d) (cx_policy cx) of
           Some key \<Rightarrow> op_fail key p
         | None \<Rightarrow>
             if max_display < length display then op_fail ''display_name_too_long'' p
             else case resolve_role_uid p (nu_role d) of
               None \<Rightarrow> op_fail ''invalid_role'' p
             | Some role_uid \<Rightarrow>
                 if nu_lang d \<noteq> [] \<and> cx_langs cx \<noteq> [] \<and> \<not> List.member (cx_langs cx) (nu_lang d)
                 then (Inl (Op_error ''invalid_lang'' [nu_lang d]), p)
                 else if landing \<noteq> [] \<and> cx_pages cx \<noteq> [] \<and> \<not> List.member (cx_pages cx) landing
                 then op_fail ''invalid_landing_page'' p
                 else if unknown \<noteq> [] then (Inl (Op_error ''invalid_groups'' unknown), p)
                 else if map_of (pn_users p) name \<noteq> None then (Inl (Op_error ''user_already_exists'' [name]), p)
                 else (Inr name, put_user name
                   \<lparr>us_uid = uid, us_hash = cx_hash cx (nu_password d), us_role = Some role_uid, us_display = display,
                    us_email = py_strip (nu_email d), us_lang = nu_lang d, us_landing = landing, us_dark = None,
                    us_groups = nu_groups d, us_enabled = nu_enabled d, us_login = nu_login d, us_source = ''local'',
                    us_locked = None, us_failed = None, us_created = cx_now cx, us_updated = cx_now cx,
                    us_by = cx_actor cx\<rparr> p))"

definition stamped :: "context_args \<Rightarrow> user \<Rightarrow> user" where
  "stamped cx u = u\<lparr>us_updated := cx_now cx, us_by := cx_actor cx\<rparr>"

definition set_password :: "context_args \<Rightarrow> string \<Rightarrow> string \<Rightarrow> unit op" where
  "set_password cx name pw =
     on_user name (\<lambda>u.
       if us_source u \<noteq> ''local'' then (Inl (Op_error ''sso_user_no_password'' []), u)
       else case validate_password pw (cx_policy cx) of
              Some key \<Rightarrow> (Inl (Op_error key []), u)
            | None \<Rightarrow> (Inr (), stamped cx (u\<lparr>us_hash := cx_hash cx pw\<rparr>)))"

text \<open>Whether a new role takes the last administrator away, counted over every account.\<close>

definition demotes_last :: "panel \<Rightarrow> user \<Rightarrow> string \<Rightarrow> bool" where
  "demotes_last p u ref =
     (user_is_admin u (pn_groups p) \<and> \<not> user_is_admin (u\<lparr>us_role := Some ref\<rparr>) (pn_groups p)
      \<and> count_admins (pn_users p) (pn_groups p) False \<le> 1)"

definition set_role :: "context_args \<Rightarrow> string \<Rightarrow> string \<Rightarrow> string op" where
  "set_role cx name r p =
     on_user name (\<lambda>u.
       case resolve_role_uid p r of
         None \<Rightarrow> (Inl (Op_error ''invalid_role'' []), u)
       | Some ref \<Rightarrow>
           if demotes_last p u ref then (Inl (Op_error ''must_have_admin'' []), u)
           else (Inr ref, stamped cx (u\<lparr>us_role := Some ref\<rparr>))) p"

definition disables_last :: "panel \<Rightarrow> user \<Rightarrow> bool \<Rightarrow> bool" where
  "disables_last p u enabled =
     (\<not> enabled \<and> user_is_admin u (pn_groups p) \<and> count_admins (pn_users p) (pn_groups p) True \<le> 1)"

definition set_enabled :: "context_args \<Rightarrow> string \<Rightarrow> bool \<Rightarrow> bool op" where
  "set_enabled cx name enabled p =
     on_user name (\<lambda>u.
       if us_enabled u = enabled then (Inr False, u)
       else if disables_last p u enabled then (Inl (Op_error ''cannot_disable_last_admin'' []), u)
       else (Inr True, stamped cx (u\<lparr>us_enabled := enabled\<rparr>))) p"

definition unlock :: "context_args \<Rightarrow> string \<Rightarrow> bool op" where
  "unlock cx name =
     on_user name (\<lambda>u.
       let had = (us_locked u \<noteq> None \<or> us_failed u \<noteq> None); u' = u\<lparr>us_locked := None, us_failed := None\<rparr>
       in (Inr had, if had then stamped cx u' else u'))"

definition add_group :: "context_args \<Rightarrow> string \<Rightarrow> string \<Rightarrow> bool op" where
  "add_group cx name uid p =
     on_user name (\<lambda>u.
       if map_of (pn_groups p) uid = None then (Inl (Op_error ''invalid_groups'' [uid]), u)
       else if List.member (us_groups u) uid then (Inr False, u)
       else (Inr True, stamped cx (u\<lparr>us_groups := us_groups u @ [uid]\<rparr>))) p"

definition remove_group :: "context_args \<Rightarrow> string \<Rightarrow> string \<Rightarrow> bool op" where
  "remove_group cx name uid =
     on_user name (\<lambda>u.
       if \<not> List.member (us_groups u) uid then (Inr False, u)
       else (Inr True, stamped cx (u\<lparr>us_groups := filter (\<lambda>g. g \<noteq> uid) (us_groups u)\<rparr>)))"

section \<open>The edit of an account\<close>

text \<open>What an edit may carry: \<open>None\<close> is an absent key, \<open>Some None\<close> a null.\<close>

record user_req =
  uq_role :: "string option option"
  uq_display :: "string option"
  uq_password :: "string option"
  uq_email :: "string option"
  uq_lang :: "string option"
  uq_landing :: "string option"
  uq_dark :: "bool option option"
  uq_groups :: "string list option option"
  uq_login :: "bool option"
  uq_enabled :: "bool option"

definition upd_role :: "panel \<Rightarrow> user_req \<Rightarrow> user \<Rightarrow> (op_error + change list) \<times> user" where
  "upd_role p d u =
     (case uq_role d of
        None \<Rightarrow> (Inr [], u)
      | Some r \<Rightarrow>
          (case resolve_role_uid p (opt r []) of
             None \<Rightarrow> (Inl (Op_error ''invalid_role'' []), u)
           | Some ref \<Rightarrow>
               if demotes_last p u ref then (Inl (Op_error ''must_have_admin'' []), u)
               else (Inr (track_edit ''role'' Av_str (opt (us_role u) []) ref), u\<lparr>us_role := Some ref\<rparr>)))"

definition upd_profile :: "context_args \<Rightarrow> user_req \<Rightarrow> string \<Rightarrow> user \<Rightarrow> (op_error + change list) \<times> user" where
  "upd_profile cx d name u0 =
     (let sso = (us_source u0 \<noteq> ''local'');
          display = (case uq_display d of None \<Rightarrow> us_display u0
                     | Some x \<Rightarrow> if sso then us_display u0 else if py_strip x = [] then name else py_strip x);
          bad_pw = (case uq_password d of None \<Rightarrow> None
                    | Some x \<Rightarrow> if x = [] then None else if sso then Some ''sso_user_no_password''
                                else validate_password x (cx_policy cx))
      in if uq_display d \<noteq> None \<and> \<not> sso \<and> max_display < length display
         then (Inl (Op_error ''display_name_too_long'' []), u0)
         else let u1 = u0\<lparr>us_display := display\<rparr>
           in case bad_pw of
                Some key \<Rightarrow> (Inl (Op_error key []), u1)
              | None \<Rightarrow>
                  (let u2 = (case uq_password d of None \<Rightarrow> u1
                             | Some x \<Rightarrow> if x = [] then u1 else u1\<lparr>us_hash := cx_hash cx x\<rparr>);
                       email = (case uq_email d of None \<Rightarrow> us_email u0 | Some x \<Rightarrow> if sso then us_email u0 else py_strip x)
                   in (Inr (track_edit ''display_name'' Av_str (us_display u0) display
                            @ track_edit ''email'' Av_str (us_email u0) email), u2\<lparr>us_email := email\<rparr>)))"

definition upd_screen :: "context_args \<Rightarrow> user_req \<Rightarrow> user \<Rightarrow> (op_error + change list) \<times> user" where
  "upd_screen cx d u0 =
     (let lang = opt (uq_lang d) (us_lang u0);
          landing = (case uq_landing d of None \<Rightarrow> us_landing u0 | Some x \<Rightarrow> py_strip x);
          dark = opt (uq_dark d) (us_dark u0)
      in if uq_lang d \<noteq> None \<and> lang \<noteq> [] \<and> cx_langs cx \<noteq> [] \<and> \<not> List.member (cx_langs cx) lang
         then (Inl (Op_error ''invalid_lang'' [lang]), u0)
         else let u1 = u0\<lparr>us_lang := lang\<rparr>
           in if uq_landing d \<noteq> None \<and> landing \<noteq> [] \<and> cx_pages cx \<noteq> [] \<and> \<not> List.member (cx_pages cx) landing
              then (Inl (Op_error ''invalid_landing_page'' []), u1)
              else (Inr (track_edit ''lang'' Av_str (us_lang u0) lang @ track_edit ''landing_page'' Av_str (us_landing u0) landing
                         @ track_edit ''dark_mode'' Av_opt (us_dark u0) dark),
                    u1\<lparr>us_landing := landing, us_dark := dark\<rparr>))"

definition upd_groups :: "panel \<Rightarrow> user_req \<Rightarrow> user \<Rightarrow> (op_error + change list) \<times> user" where
  "upd_groups p d u =
     (case uq_groups d of
        None \<Rightarrow> (Inr [], u)
      | Some None \<Rightarrow> (Inl (Op_error ''invalid_groups'' []), u)
      | Some (Some gs) \<Rightarrow>
          (let known = (\<lambda>g. map_of (pn_groups p) g \<noteq> None); unknown = filter (\<lambda>g. \<not> known g) gs
           in if unknown \<noteq> [] then (Inl (Op_error ''invalid_groups'' unknown), u)
              else (Inr (track_edit ''groups'' Av_list (sort (filter known (us_groups u))) (sort gs)), u\<lparr>us_groups := gs\<rparr>)))"

definition upd_access :: "panel \<Rightarrow> context_args \<Rightarrow> user_req \<Rightarrow> user \<Rightarrow> (op_error + change list) \<times> user" where
  "upd_access p cx d u0 =
     (let login = opt (uq_login d) (us_login u0); u1 = u0\<lparr>us_login := login\<rparr>; enabled = opt (uq_enabled d) (us_enabled u0)
      in if us_enabled u0 \<noteq> enabled \<and> disables_last p u1 enabled
         then (Inl (Op_error ''cannot_disable_last_admin'' []), u1)
         else (Inr (track_edit ''login_enabled'' Av_bool (us_login u0) login
                    @ track_edit ''enabled'' Av_bool (us_enabled u0) enabled), stamped cx (u1\<lparr>us_enabled := enabled\<rparr>)))"

definition update_user :: "context_args \<Rightarrow> string \<Rightarrow> user_req \<Rightarrow> change list op" where
  "update_user cx name d =
     op_seq [(\<lambda>p. on_user name (upd_role p d) p),
             on_user name (upd_profile cx d name),
             on_user name (upd_screen cx d),
             (\<lambda>p. on_user name (upd_groups p d) p),
             (\<lambda>p. on_user name (upd_access p cx d) p)]"

text \<open>Whether a finished edit set a password, switched the account off, took its sign-in away.\<close>

definition password_reset :: "user_req \<Rightarrow> bool" where
  "password_reset d = (case uq_password d of None \<Rightarrow> False | Some x \<Rightarrow> x \<noteq> [])"

definition login_ended :: "user \<Rightarrow> user_req \<Rightarrow> bool" where
  "login_ended u d =
     ((us_enabled u \<and> uq_enabled d = Some False) \<or> (us_login u \<and> uq_login d = Some False))"

end
