(* ===== verification/Rbac_Routes.thy ===== *)
theory Rbac_Routes
  imports Rbac_Users
begin

text \<open>
  The requests that edit roles, groups and accounts: \<^verbatim>\<open>lib/core/roles/routes.py\<close>,
  \<^verbatim>\<open>lib/core/groups/routes.py\<close>, \<^verbatim>\<open>lib/core/users/routes.py\<close>. A handler checks the flag of its route, then
  its guards, then calls the operation. It answers a status with a key, what it does outside the
  panel (writes, ended sessions, audit entries) and the panel. The JSON types of the body are checked
  before (\<^verbatim>\<open>bad_json_field\<close>), the session is authenticated; whether the write of the roles succeeded and
  the identifier drawn are arguments.
\<close>

datatype panel_effect =
  Persist_users | Persist_groups | Persist_roles | Revoke_sessions string | Drop_tokens string | Audit string

type_synonym response = "(nat \<times> string \<times> panel_effect list) \<times> panel"

definition refuse :: "nat \<Rightarrow> string \<Rightarrow> panel \<Rightarrow> response" where
  "refuse status key p = ((status, key, []), p)"

definition err_key :: "op_error \<Rightarrow> string" where
  "err_key e = (case e of Op_error k args \<Rightarrow> k | Key_error \<Rightarrow> ''KeyError'')"

section \<open>Roles\<close>

definition route_create_role ::
  "catalog \<Rightarrow> context_args \<Rightarrow> api_request \<Rightarrow> string \<Rightarrow> string \<Rightarrow> string list \<Rightarrow> bool \<Rightarrow> string \<Rightarrow> bool \<Rightarrow> panel \<Rightarrow> response" where
  "route_create_role cat cx rq name desc perms enabled uid saved p =
     (if \<not> perm_required cat p rq [''roles_add''] then refuse 403 ''access_denied'' p
      else if \<not> perms_grantable cat p rq (filter_valid_permissions cat perms)
      then refuse 403 ''insufficient_permissions'' p
      else case create_role cat name desc (filter_valid_permissions cat perms) enabled uid (cx_now cx) (cx_actor cx) p of
             (Inl e, q) \<Rightarrow> refuse (if err_key e = ''role_already_exists'' then 409 else 400) (err_key e) q
           | (Inr u, q) \<Rightarrow>
               if \<not> saved then refuse 500 ''save_error'' (q\<lparr>pn_roles := AList.delete u (pn_roles q)\<rparr>)
               else ((201, u, [Persist_roles, Audit ''role_created'']), q))"

definition route_update_role ::
  "catalog \<Rightarrow> context_args \<Rightarrow> api_request \<Rightarrow> string \<Rightarrow> role_req \<Rightarrow> bool \<Rightarrow> panel \<Rightarrow> response" where
  "route_update_role cat cx rq uid d saved p =
     (let custom = map_of (pn_roles p) uid;
          perms = (case rr_perms d of Some ps \<Rightarrow> ps | None \<Rightarrow> (case custom of None \<Rightarrow> [] | Some r \<Rightarrow> ro_perms r))
      in if \<not> perm_required cat p rq [''roles_edit''] then refuse 403 ''access_denied'' p
         else case builtin_key_for uid of
           Some key \<Rightarrow>
             (case update_builtin_role uid key d p of
                (Inl e, q) \<Rightarrow> refuse (if err_key e = ''role_already_exists'' then 409 else 400) (err_key e) q
              | (Inr (cs, dirty), q) \<Rightarrow>
                  if dirty \<and> \<not> saved then refuse 500 ''save_error'' q
                  else ((200, [], (if dirty then [Persist_roles] else []) @ (if cs = [] then [] else [Audit ''role_updated''])), q))
         | None \<Rightarrow>
             if custom = None then refuse 404 ''role_not_found'' p
             else if (rr_perms d \<noteq> None \<or> rr_enabled d = Some True)
                     \<and> \<not> perms_grantable cat p rq (filter_valid_permissions cat perms)
             then refuse 403 ''insufficient_permissions'' p
             else case update_custom_role cat uid d (cx_now cx) (cx_actor cx) p of
                    (Inl e, q) \<Rightarrow> refuse (if err_key e = ''role_already_exists'' then 409 else 400) (err_key e) q
                  | (Inr cs, q) \<Rightarrow> ((200, [], Persist_roles # (if cs = [] then [] else [Audit ''role_updated''])), q))"

definition route_delete_role :: "catalog \<Rightarrow> api_request \<Rightarrow> string \<Rightarrow> panel \<Rightarrow> response" where
  "route_delete_role cat rq uid p =
     (if \<not> perm_required cat p rq [''roles_delete''] then refuse 403 ''access_denied'' p
      else case delete_role uid p of
             (Inl e, q) \<Rightarrow> refuse (dget [(''role_not_found'', 404), (''role_in_use'', 409)] (err_key e) 400) (err_key e) q
           | (Inr gs, q) \<Rightarrow>
               ((200, [], (if gs = [] then [] else [Persist_groups]) @ [Persist_roles, Audit ''role_deleted'']), q))"

section \<open>Groups\<close>

definition normalize_role_uid :: "panel \<Rightarrow> string \<Rightarrow> string option" where
  "normalize_role_uid p r =
     (case (if is_uid r then Some r else role_name_to_uid p r) of
        None \<Rightarrow> None
      | Some uid \<Rightarrow>
          if uid \<noteq> [] \<and> (List.member (map snd builtin_role_uids) uid \<or> map_of (pn_roles p) uid \<noteq> None)
          then Some uid else None)"

definition roles_grantable :: "catalog \<Rightarrow> panel \<Rightarrow> api_request \<Rightarrow> string list \<Rightarrow> bool" where
  "roles_grantable cat p rq rs = list_all (\<lambda>r. role_grantable cat p rq (opt (normalize_role_uid p r) r)) rs"

definition route_create_group ::
  "catalog \<Rightarrow> context_args \<Rightarrow> api_request \<Rightarrow> string \<Rightarrow> string \<Rightarrow> string list \<Rightarrow> bool \<Rightarrow> string \<Rightarrow> string \<Rightarrow> panel \<Rightarrow> response" where
  "route_create_group cat cx rq name desc roles enabled landing uid p =
     (if \<not> perm_required cat p rq [''groups_add''] then refuse 403 ''access_denied'' p
      else if \<not> is_admin_requester p rq \<and> \<not> roles_grantable cat p rq roles
      then refuse 403 ''insufficient_permissions'' p
      else case create_group name desc roles enabled landing (cx_pages cx) uid (cx_now cx) (cx_actor cx) p of
             (Inl e, q) \<Rightarrow> refuse (if err_key e = ''group_already_exists'' then 409 else 400) (err_key e) q
           | (Inr u, q) \<Rightarrow> ((201, u, [Persist_groups, Audit ''group_created'']), q))"

definition route_update_group :: "catalog \<Rightarrow> context_args \<Rightarrow> api_request \<Rightarrow> string \<Rightarrow> group_req \<Rightarrow> panel \<Rightarrow> response" where
  "route_update_group cat cx rq uid d p =
     (if \<not> perm_required cat p rq [''groups_edit''] then refuse 403 ''access_denied'' p
      else case map_of (pn_groups p) uid of
        None \<Rightarrow> refuse 404 ''group_not_found'' p
      | Some g \<Rightarrow>
          (let sent = opt (opt (gq_roles d) None) [];
               held = (if gq_roles d \<noteq> None then sent else gr_roles g)
           in if \<not> is_admin_requester p rq
                 \<and> (carries_admin p g \<or> \<not> roles_grantable cat p rq sent
                    \<or> (gq_members d \<noteq> None \<or> gq_enabled d = Some True) \<and> \<not> roles_grantable cat p rq held)
              then refuse 403 ''insufficient_permissions'' p
              else case update_group uid d (List.member builtin_group_uids uid) (cx_pages cx) (cx_now cx) (cx_actor cx) p of
                     (Inl e, q) \<Rightarrow> refuse 400 (err_key e) q
                   | (Inr cs, q) \<Rightarrow>
                       ((200, [], (if pn_users q = pn_users p then [] else [Persist_users]) @ [Persist_groups]
                          @ (if cs = [] then [] else [Audit ''group_updated''])), q)))"

definition route_delete_group :: "catalog \<Rightarrow> api_request \<Rightarrow> string \<Rightarrow> panel \<Rightarrow> response" where
  "route_delete_group cat rq uid p =
     (let admin = (case map_of (pn_groups p) uid of None \<Rightarrow> False | Some g \<Rightarrow> carries_admin p g)
      in if \<not> perm_required cat p rq [''groups_delete''] then refuse 403 ''access_denied'' p
         else if \<not> is_admin_requester p rq \<and> admin then refuse 403 ''insufficient_permissions'' p
         else if admin \<and> count_admins (pn_users p) (AList.delete uid (pn_groups p)) False < 1
         then refuse 400 ''must_have_admin'' p
         else case delete_group uid p of
                (Inl e, q) \<Rightarrow> refuse (if err_key e = ''group_not_found'' then 404 else 403) (err_key e) q
              | (Inr names, q) \<Rightarrow>
                  ((200, [], (if names = [] then [] else [Persist_users]) @ [Persist_groups, Audit ''group_deleted'']), q))"

section \<open>Accounts\<close>

definition default_role_uid :: "context_args \<Rightarrow> panel \<Rightarrow> string" where
  "default_role_uid cx p =
     (let raw = (if cx_default cx = [] then none_uid else cx_default cx);
          uid = (if is_uid raw then raw else opt (role_name_to_uid p raw) none_uid)
      in if List.member (map snd builtin_role_uids) uid \<or> map_of (pn_roles p) uid \<noteq> None then uid else none_uid)"

definition route_create_user :: "catalog \<Rightarrow> context_args \<Rightarrow> api_request \<Rightarrow> new_user \<Rightarrow> string \<Rightarrow> panel \<Rightarrow> response" where
  "route_create_user cat cx rq d0 uid p =
     (let role = (if nu_role d0 = [] then default_role_uid cx p else nu_role d0); d = d0\<lparr>nu_role := role\<rparr>
      in if \<not> perm_required cat p rq [''users_add''] then refuse 403 ''access_denied'' p
         else if \<not> role_grantable cat p rq (opt (resolve_role_uid p role) role)
         then refuse 403 ''insufficient_permissions'' p
         else if \<not> groups_grantable cat p rq (nu_groups d) then refuse 403 ''insufficient_permissions'' p
         else case create_user cx d uid p of
                (Inl e, q) \<Rightarrow> refuse (if err_key e = ''user_already_exists'' then 409 else 400) (err_key e) q
              | (Inr name, q) \<Rightarrow> ((201, uid, [Persist_users, Audit ''user_created'']), q))"

text \<open>The refusals of an edit, in order, for an account that exists.\<close>

definition edit_refused :: "catalog \<Rightarrow> api_request \<Rightarrow> string \<Rightarrow> user \<Rightarrow> user_req \<Rightarrow> panel \<Rightarrow> (nat \<times> string) option" where
  "edit_refused cat rq name u d p =
     (let admin = is_admin_requester p rq; own = (name = rq_user rq);
          ref = (case uq_role d of None \<Rightarrow> [] | Some r \<Rightarrow> opt (resolve_role_uid p (opt r [])) (opt r []))
      in if \<not> admin \<and> user_is_admin u (pn_groups p) then Some (403, ''insufficient_permissions'')
         else if uq_role d \<noteq> None \<and> \<not> role_grantable cat p rq ref then Some (403, ''insufficient_permissions'')
         else if uq_groups d \<noteq> None \<and> \<not> groups_grantable cat p rq (opt (opt (uq_groups d) None) [])
         then Some (403, ''insufficient_permissions'')
         else if password_reset d \<and> us_source u = ''local'' \<and> \<not> admin \<and> \<not> own
         then Some (403, ''insufficient_permissions'')
         else if uq_password d \<noteq> None \<and> (own \<or> rq_token rq \<noteq> None) then Some (403, ''user_password_not_here'')
         else if uq_enabled d = Some False \<and> own then Some (400, ''cannot_disable_self'')
         else if uq_login d = Some False \<and> own then Some (400, ''cannot_disable_own_login'')
         else None)"

definition route_update_user :: "catalog \<Rightarrow> context_args \<Rightarrow> api_request \<Rightarrow> string \<Rightarrow> user_req \<Rightarrow> panel \<Rightarrow> response" where
  "route_update_user cat cx rq name d p =
     (if \<not> perm_required cat p rq [''users_edit''] then refuse 403 ''access_denied'' p
      else case map_of (pn_users p) name of
        None \<Rightarrow> if is_reserved_username name then refuse 403 ''user_builtin'' p else refuse 404 ''user_not_found'' p
      | Some u \<Rightarrow>
          (case edit_refused cat rq name u d p of
             Some (status, key) \<Rightarrow> refuse status key p
           | None \<Rightarrow>
               (case update_user cx name d p of
                  (Inl e, q) \<Rightarrow> refuse 400 (err_key e) q
                | (Inr cs, q) \<Rightarrow>
                    ((200, [], [Persist_users] @ (if login_ended u d then [Revoke_sessions name] else [])
                       @ (if cs = [] then [] else [Audit ''user_updated''])
                       @ (if password_reset d then [Revoke_sessions name, Audit ''password_reset''] else [])), q))))"

definition route_delete_user :: "catalog \<Rightarrow> api_request \<Rightarrow> string \<Rightarrow> panel \<Rightarrow> response" where
  "route_delete_user cat rq name p =
     (if \<not> perm_required cat p rq [''users_delete''] then refuse 403 ''access_denied'' p
      else case map_of (pn_users p) name of
        None \<Rightarrow> if is_reserved_username name then refuse 403 ''user_builtin'' p else refuse 404 ''user_not_found'' p
      | Some u \<Rightarrow>
          if name = rq_user rq then refuse 400 ''cannot_delete_self'' p
          else if \<not> is_admin_requester p rq \<and> user_is_admin u (pn_groups p) then refuse 403 ''insufficient_permissions'' p
          else if user_is_admin u (pn_groups p) \<and> count_admins (pn_users p) (pn_groups p) False \<le> 1
          then refuse 400 ''must_have_admin'' p
          else ((200, [], Revoke_sessions name # (if us_uid u = [] then [] else [Drop_tokens (us_uid u)])
                  @ [Persist_users, Audit ''user_deleted'']),
                p\<lparr>pn_users := AList.delete name (pn_users p)\<rparr>))"

section \<open>Any request\<close>

datatype panel_request =
    Create_role string string "string list" bool string bool
  | Update_role string role_req bool
  | Delete_role string
  | Create_group string string "string list" bool string string
  | Update_group string group_req
  | Delete_group string
  | Create_user new_user string
  | Update_user string user_req
  | Delete_user string

fun handle :: "catalog \<Rightarrow> context_args \<Rightarrow> api_request \<Rightarrow> panel_request \<Rightarrow> panel \<Rightarrow> response" where
  "handle cat cx rq (Create_role name desc perms enabled uid saved) p =
     route_create_role cat cx rq name desc perms enabled uid saved p"
| "handle cat cx rq (Update_role uid d saved) p = route_update_role cat cx rq uid d saved p"
| "handle cat cx rq (Delete_role uid) p = route_delete_role cat rq uid p"
| "handle cat cx rq (Create_group name desc roles enabled landing uid) p =
     route_create_group cat cx rq name desc roles enabled landing uid p"
| "handle cat cx rq (Update_group uid d) p = route_update_group cat cx rq uid d p"
| "handle cat cx rq (Delete_group uid) p = route_delete_group cat rq uid p"
| "handle cat cx rq (Create_user d uid) p = route_create_user cat cx rq d uid p"
| "handle cat cx rq (Update_user name d) p = route_update_user cat cx rq name d p"
| "handle cat cx rq (Delete_user name) p = route_delete_user cat rq name p"

definition panel_step :: "catalog \<Rightarrow> context_args \<Rightarrow> api_request \<Rightarrow> panel \<Rightarrow> panel_request \<Rightarrow> panel" where
  "panel_step cat cx rq p r = snd (handle cat cx rq r p)"

end
