(* ===== verification/Rbac_Rights.thy ===== *)
theory Rbac_Rights
  imports Rbac_Routes
begin

text \<open>
  The rights an account has, permissions and administration together, and how far an edit of the
  panel may raise them. The guards of the routes are shown to bound what a request can give.
\<close>

section \<open>Identifiers\<close>

text \<open>What the panel's dicts keep: one entry per key, and a custom role is keyed by a drawn identifier.\<close>

definition custom_uid :: "string \<Rightarrow> bool" where
  "custom_uid uid \<longleftrightarrow> is_uid uid \<and> builtin_uid_to_key uid = None"

definition panel_ok :: "panel \<Rightarrow> bool" where
  "panel_ok p \<longleftrightarrow>
     dict_wf (pn_users p) \<and> dict_wf (pn_roles p) \<and> dict_wf (pn_groups p)
     \<and> (\<forall>uid r. map_of (pn_roles p) uid = Some r \<longrightarrow> custom_uid uid \<and> \<not> is_uid (ro_name r))"

lemmas builtin_defs = builtin_role_uids_def uid_prefix_def admin_uid_def viewer_uid_def none_uid_def builtin_uid_to_key_def

lemma builtin_key_cases:
  assumes "map_of builtin_role_uids k = Some uid"
  shows "k \<in> {''admin'', ''editor'', ''viewer'', ''none''}"
  using assms by (auto simp: builtin_defs split: if_splits)

lemma key_not_uid: "map_of builtin_role_uids k = Some uid \<Longrightarrow> \<not> is_uid k"
  by (drule builtin_key_cases) (auto simp: is_uid_def before_eol_def Let_def)

lemma builtin_permissions_key: "builtin_permissions cat k = Some ps \<Longrightarrow> \<not> is_uid k"
  by (auto simp: builtin_permissions_def is_uid_def before_eol_def Let_def split: if_splits)

lemma builtin_uid_is_uid: "uid \<in> set (map snd builtin_role_uids) \<Longrightarrow> is_uid uid"
  by (auto simp: builtin_defs is_uid_def before_eol_def Let_def is_hex_def is_dec_def)

lemma builtin_uid_inverse: "map_of builtin_role_uids k = Some uid \<Longrightarrow> builtin_uid_to_key uid = Some k"
  by (auto simp: builtin_defs split: if_splits)

lemma builtin_uid_to_key_iff: "builtin_uid_to_key uid \<noteq> None \<longleftrightarrow> uid \<in> set (map snd builtin_role_uids)"
  by (auto simp: builtin_defs)

lemma builtin_key_perms: "map_of builtin_role_uids k = Some uid \<Longrightarrow> \<exists>ps. builtin_permissions cat k = Some ps"
  by (drule builtin_key_cases) (auto simp: builtin_permissions_def)

lemma custom_uid_facts:
  assumes "custom_uid uid"
  shows "is_uid uid" "uid \<noteq> []" "builtin_uid_perms cat uid = None" "builtin_permissions cat uid = None"
    "map_of builtin_role_uids uid = None" "uid \<noteq> admin_uid" "uid \<noteq> ''admin''"
    "uid \<notin> set (map snd builtin_role_uids)"
proof -
  show u: "is_uid uid" using assms by (simp add: custom_uid_def)
  show "uid \<noteq> []" using u by (auto simp: is_uid_def before_eol_def Let_def)
  show "builtin_uid_perms cat uid = None" using assms by (simp add: custom_uid_def builtin_uid_perms_def)
  show "builtin_permissions cat uid = None" using u builtin_permissions_key [of cat uid] by (cases "builtin_permissions cat uid") auto
  show "map_of builtin_role_uids uid = None" using u key_not_uid [of uid] by (cases "map_of builtin_role_uids uid") auto
  show n: "uid \<notin> set (map snd builtin_role_uids)"
    using assms builtin_uid_to_key_iff by (metis custom_uid_def)
  have "admin_uid \<in> set (map snd builtin_role_uids)" by (simp add: builtin_defs)
  with n show "uid \<noteq> admin_uid" by blast
  show "uid \<noteq> ''admin''" using u key_not_uid [of "''admin''"] by (auto simp: builtin_role_uids_def)
qed


section \<open>Rights\<close>

text \<open>
  To follow permissions and administration together, what a role gives is a set of options: \<open>Some\<close>
  a permission, or \<open>None\<close>, being an administrator.
\<close>

definition role_rights :: "catalog \<Rightarrow> panel \<Rightarrow> string \<Rightarrow> string option set" where
  "role_rights cat p ref = Some ` role_permissions cat p ref \<union> (if is_admin_role p ref then {None} else {})"

definition group_admin :: "panel \<Rightarrow> string \<Rightarrow> bool" where
  "group_admin p gref =
     (case map_of (pn_groups p) gref of None \<Rightarrow> False | Some g \<Rightarrow> gr_enabled g \<and> carries_admin p g)"

definition group_rights :: "catalog \<Rightarrow> panel \<Rightarrow> string \<Rightarrow> string option set" where
  "group_rights cat p gref = Some ` group_permissions cat p gref \<union> (if group_admin p gref then {None} else {})"

definition rights :: "catalog \<Rightarrow> panel \<Rightarrow> string \<Rightarrow> string list \<Rightarrow> string option set" where
  "rights cat p ref gs = role_rights cat p ref \<union> (\<Union>g\<in>set gs. group_rights cat p g)"

definition account_rights :: "catalog \<Rightarrow> panel \<Rightarrow> string \<Rightarrow> string option set" where
  "account_rights cat p name =
     (case map_of (pn_users p) name of
        None \<Rightarrow> {}
      | Some u \<Rightarrow> rights cat p (opt (us_role u) viewer_uid) (us_groups u))"

lemma Some_role_rights: "Some x \<in> role_rights cat p ref \<longleftrightarrow> x \<in> role_permissions cat p ref"
  by (auto simp: role_rights_def)

lemma None_role_rights: "None \<in> role_rights cat p ref \<longleftrightarrow> is_admin_role p ref"
  by (auto simp: role_rights_def)

lemma Some_group_rights: "Some x \<in> group_rights cat p g \<longleftrightarrow> x \<in> group_permissions cat p g"
  by (auto simp: group_rights_def)

lemma None_group_rights: "None \<in> group_rights cat p g \<longleftrightarrow> group_admin p g"
  by (auto simp: group_rights_def)

lemma Some_account_rights:
  assumes "map_of (pn_users p) name = Some u" "\<not> is_reserved_username name"
  shows "Some x \<in> account_rights cat p name \<longleftrightarrow> x \<in> account_permissions cat p name"
  using assms by (auto simp: account_rights_def rights_def account_permissions_def effective_permissions_def
      session_role_def user_groups_def Some_role_rights Some_group_rights)

lemma viewer_not_admin: "\<not> is_admin_role p viewer_uid" "\<not> is_admin_role p []"
  by (simp_all add: is_admin_role_def builtin_defs)

lemma None_account_rights:
  assumes "map_of (pn_users p) name = Some u"
  shows "None \<in> account_rights cat p name \<longleftrightarrow> is_admin_requester p \<lparr>rq_user = name, rq_token = None\<rparr>"
proof -
  have "is_admin_role p (opt (us_role u) viewer_uid) = is_admin_role p (opt (us_role u) [])"
    using viewer_not_admin by (cases "us_role u") (simp_all add: opt_def)
  then show ?thesis
    using assms by (auto simp: account_rights_def rights_def is_admin_requester_def None_group_rights group_admin_def
        None_role_rights list_ex_iff)
qed

lemma group_rights_unknown: "map_of (pn_groups p) g = None \<Longrightarrow> group_rights cat p g = {}"
  by (simp add: group_rights_def group_permissions_def group_admin_def)

lemma group_rights_bound:
  assumes "map_of (pn_groups p) g = Some gd" "\<forall>r\<in>set (gr_roles gd). role_rights cat p r \<subseteq> X"
  shows "group_rights cat p g \<subseteq> X"
  using assms by (auto simp: group_rights_def group_permissions_def group_admin_def carries_admin_def list_ex_iff
      role_rights_def split: if_splits)

text \<open>A group's rights depend on its own row and on the rights of the roles it names.\<close>

lemma group_rights_mono:
  assumes "map_of (pn_groups q) g = Some gd'" "map_of (pn_groups p) g = Some gd"
    and "gr_enabled gd' \<longrightarrow> gr_enabled gd" "set (gr_roles gd') \<subseteq> set (gr_roles gd)"
    and "\<forall>r\<in>set (gr_roles gd'). role_rights cat q r \<subseteq> role_rights cat p r \<union> X"
  shows "group_rights cat q g \<subseteq> group_rights cat p g \<union> X"
proof
  fix x assume x: "x \<in> group_rights cat q g"
  then have en: "gr_enabled gd'" and ne: "x \<noteq> None \<longrightarrow> g \<noteq> []"
    using assms(1) by (auto simp: group_rights_def group_permissions_def group_admin_def split: if_splits)
  obtain r where r: "r \<in> set (gr_roles gd')" "x \<in> role_rights cat q r"
    using x assms(1) by (auto simp: group_rights_def group_permissions_def group_admin_def carries_admin_def list_ex_iff
        role_rights_def split: if_splits)
  show "x \<in> group_rights cat p g \<union> X"
  proof (cases "x \<in> X")
    case False
    with r assms have "x \<in> role_rights cat p r" "r \<in> set (gr_roles gd)" "gr_enabled gd" using en by blast+
    with ne assms(2) show ?thesis
      by (auto simp: group_rights_def group_permissions_def group_admin_def carries_admin_def list_ex_iff role_rights_def
          split: if_splits)
  qed simp
qed


section \<open>Bounded edits\<close>

text \<open>No account has rights after an edit that it did not have before it and that are not in \<open>X\<close>.\<close>

definition bounded :: "catalog \<Rightarrow> string option set \<Rightarrow> panel \<Rightarrow> panel \<Rightarrow> bool" where
  "bounded cat X p q \<longleftrightarrow> (\<forall>name. account_rights cat q name \<subseteq> account_rights cat p name \<union> X)"

named_theorems panel_fields \<open>the dicts of an edited panel\<close>

lemma put_fields [panel_fields, simp]:
  "pn_users (put_user n u p) = AList.update n u (pn_users p)" "pn_roles (put_user n u p) = pn_roles p"
  "pn_groups (put_user n u p) = pn_groups p"
  "pn_users (put_role k r p) = pn_users p" "pn_roles (put_role k r p) = AList.update k r (pn_roles p)"
  "pn_groups (put_role k r p) = pn_groups p"
  "pn_users (put_group k g p) = pn_users p" "pn_roles (put_group k g p) = pn_roles p"
  "pn_groups (put_group k g p) = AList.update k g (pn_groups p)"
  by (simp_all add: put_user_def put_role_def put_group_def)

lemma bounded_refl [simp]: "bounded cat X p p"
  by (simp add: bounded_def)

lemma role_rights_cong:
  assumes "\<And>k. map_of (pn_roles q) k = map_of (pn_roles p) k"
  shows "role_permissions cat q = role_permissions cat p" "is_admin_role q = is_admin_role p"
    "role_rights cat q = role_rights cat p"
proof -
  have m: "map_of (pn_roles q) = map_of (pn_roles p)" using assms by (rule ext)
  show "role_permissions cat q = role_permissions cat p" by (rule ext) (simp only: role_permissions_def m)
  moreover show "is_admin_role q = is_admin_role p" by (rule ext) (simp only: is_admin_role_def m)
  ultimately show "role_rights cat q = role_rights cat p" by (simp add: role_rights_def fun_eq_iff)
qed

lemma group_rights_cong:
  assumes "\<And>k. map_of (pn_roles q) k = map_of (pn_roles p) k" "map_of (pn_groups q) g = map_of (pn_groups p) g"
  shows "group_rights cat q g = group_rights cat p g"
proof -
  have "group_permissions cat q g = group_permissions cat p g"
    unfolding group_permissions_def assms(2) role_rights_cong(1) [OF assms(1)] ..
  moreover have "group_admin q g = group_admin p g"
    unfolding group_admin_def carries_admin_def assms(2) role_rights_cong(2) [OF assms(1)] ..
  ultimately show ?thesis by (simp add: group_rights_def)
qed

lemma bounded_users:
  assumes "\<And>k. map_of (pn_users q) k = map_of (pn_users p) k"
    and "\<And>r. role_rights cat q r \<subseteq> role_rights cat p r \<union> X"
    and "\<And>g. group_rights cat q g \<subseteq> group_rights cat p g \<union> X"
  shows "bounded cat X p q"
proof -
  have "account_rights cat q name \<subseteq> account_rights cat p name \<union> X" for name
  proof (cases "map_of (pn_users p) name")
    case None
    then show ?thesis using assms(1) by (simp add: account_rights_def)
  next
    case (Some u)
    then show ?thesis using assms by (fastforce simp: account_rights_def rights_def)
  qed
  then show ?thesis by (simp add: bounded_def)
qed

text \<open>Edits of accounts only: each account got its role and groups from itself or from what \<open>X\<close> allows.\<close>

lemma bounded_accounts:
  assumes roles: "\<And>k. map_of (pn_roles q) k = map_of (pn_roles p) k"
    and groups: "\<And>k. map_of (pn_groups q) k = map_of (pn_groups p) k"
    and users: "\<And>n u'. map_of (pn_users q) n = Some u' \<Longrightarrow>
      map_of (pn_users p) n = Some u' \<or>
      (role_rights cat p (opt (us_role u') viewer_uid) \<subseteq> X \<or>
         (\<exists>u. map_of (pn_users p) n = Some u \<and> us_role u = us_role u')) \<and>
      (\<forall>g\<in>set (us_groups u'). group_rights cat p g \<subseteq> X \<or>
         (\<exists>u. map_of (pn_users p) n = Some u \<and> g \<in> set (us_groups u)))"
  shows "bounded cat X p q"
proof -
  have R: "role_rights cat q r = role_rights cat p r" for r by (simp only: role_rights_cong(3) [OF roles])
  have G: "group_rights cat q g = group_rights cat p g" for g by (rule group_rights_cong) (simp_all add: roles groups)
  have "account_rights cat q n \<subseteq> account_rights cat p n \<union> X" for n
  proof (cases "map_of (pn_users q) n")
    case None
    then show ?thesis by (simp add: account_rights_def)
  next
    case (Some u')
    have q: "account_rights cat q n = rights cat p (opt (us_role u') viewer_uid) (us_groups u')"
      using Some by (simp add: account_rights_def rights_def R G)
    show ?thesis
    proof (cases "map_of (pn_users p) n = Some u'")
      case True
      then show ?thesis by (simp add: q) (simp add: account_rights_def)
    next
      case False
      with users [OF Some] have
        r: "role_rights cat p (opt (us_role u') viewer_uid) \<subseteq> account_rights cat p n \<union> X" and
        g: "\<forall>g\<in>set (us_groups u'). group_rights cat p g \<subseteq> account_rights cat p n \<union> X"
        by (fastforce simp: rights_def account_rights_def)+
      then show ?thesis unfolding q rights_def by blast
    qed
  qed
  then show ?thesis by (simp add: bounded_def)
qed

section \<open>What a guard that passed allows\<close>

abbreviation granted :: "catalog \<Rightarrow> panel \<Rightarrow> api_request \<Rightarrow> string option set" where
  "granted cat p rq \<equiv> Some ` session_permissions cat p rq"

lemma role_grantable_rights:
  assumes "\<not> is_admin_requester p rq" "role_grantable cat p rq ref"
  shows "role_rights cat p ref \<subseteq> granted cat p rq"
proof -
  have na: "ref \<noteq> admin_uid" "ref \<noteq> ''admin''" using assms by (auto simp: role_grantable_def split: if_splits)
  then have "\<not> is_admin_role p ref" by (simp add: is_admin_role_def)
  moreover have "role_permissions cat p ref \<subseteq> session_permissions cat p rq"
    using assms na by (auto simp: role_grantable_def role_permissions_def perms_grantable_def split: option.splits if_splits)
  ultimately show ?thesis by (auto simp: role_rights_def)
qed

lemma groups_grantable_rights:
  assumes "\<not> is_admin_requester p rq" "groups_grantable cat p rq gs" "g \<in> set gs"
  shows "group_rights cat p g \<subseteq> granted cat p rq"
proof (cases "map_of (pn_groups p) g")
  case None
  then show ?thesis by (simp add: group_rights_unknown)
next
  case (Some gd)
  with assms have "\<forall>r\<in>set (gr_roles gd). role_grantable cat p rq r"
    by (auto simp: groups_grantable_def list_all_iff)
  then have "\<forall>r\<in>set (gr_roles gd). role_rights cat p r \<subseteq> granted cat p rq"
    using role_grantable_rights [OF assms(1)] by blast
  with Some show ?thesis by (rule group_rights_bound)
qed

text \<open>The name a group's role is checked under is the name it is stored under, while no role is named like an identifier.\<close>

lemma find_name: "find (\<lambda>(uid, r). ro_name r = x) rs = Some (k, r) \<Longrightarrow> (k, r) \<in> set rs \<and> ro_name r = x"
  by (auto simp: find_Some_iff in_set_conv_nth)

lemma normalize_resolves:
  assumes "panel_ok p" "resolve_role_uid p r = Some ref"
  shows "opt (normalize_role_uid p r) r = ref"
proof -
  have r: "r \<noteq> []" using assms(2) by (auto simp: resolve_role_uid_def)
  show ?thesis
  proof (cases "map_of builtin_role_uids r")
    case (Some uid)
    then have "ref = uid" "\<not> is_uid r" using assms(2) r key_not_uid by (auto simp: resolve_role_uid_def)
    moreover have "uid \<in> set (map snd builtin_role_uids)" using map_of_SomeD [OF Some] by force
    moreover have "uid \<noteq> []" using builtin_uid_is_uid [OF calculation(3)] by (auto simp: is_uid_def before_eol_def Let_def)
    ultimately show ?thesis using Some by (simp add: normalize_role_uid_def role_name_to_uid_def opt_def)
  next
    case None
    show ?thesis
    proof (cases "r \<in> set (map snd builtin_role_uids) \<or> map_of (pn_roles p) r \<noteq> None")
      case True
      then have u: "is_uid r" using assms(1) builtin_uid_is_uid by (auto simp: panel_ok_def custom_uid_def)
      have "ref = r" using assms(2) None True r by (auto simp: resolve_role_uid_def split: if_splits)
      with True u r show ?thesis by (auto simp: normalize_role_uid_def opt_def)
    next
      case False
      then obtain k rd where k: "find (\<lambda>(uid, rd). ro_name rd = r) (pn_roles p) = Some (k, rd)" "ref = k"
        using assms(2) None r by (auto simp: resolve_role_uid_def split: if_splits)
      then have m: "map_of (pn_roles p) k = Some rd" "ro_name rd = r"
        using find_name [OF k(1)] assms(1) by (auto simp: panel_ok_def dict_wf_def)
      then have "\<not> is_uid r" "k \<noteq> []" using assms(1) custom_uid_facts(2) by (auto simp: panel_ok_def)
      then show ?thesis using k m None
        by (simp add: normalize_role_uid_def role_name_to_uid_def opt_def)
    qed
  qed
qed

end
