(* ===== verification/Rbac_Bounds.thy ===== *)
theory Rbac_Bounds
  imports Rbac_Rights
begin

text \<open>
  How far each request on roles and groups can raise the rights of any account: to what the requester holds,
  whether the operation ends or is left half done by an exception.
\<close>

lemma stored_roles_grantable:
  assumes ok: "panel_ok p" and na: "\<not> is_admin_requester p rq" and g: "roles_grantable cat p rq rs" and r: "r \<in> set rs"
  shows "role_rights cat p r \<subseteq> granted cat p rq"
proof -
  have gr: "role_rights cat p (opt (normalize_role_uid p r) r) \<subseteq> granted cat p rq"
    using g r role_grantable_rights [OF na] by (auto simp: roles_grantable_def list_all_iff)
  show ?thesis
  proof (cases "is_uid r \<or> normalize_role_uid p r = None")
    case True
    then have "opt (normalize_role_uid p r) r = r"
    proof
      assume "is_uid r"
      then show ?thesis by (cases "normalize_role_uid p r") (auto simp: normalize_role_uid_def opt_def split: if_splits)
    qed (simp add: opt_def)
    with gr show ?thesis by simp
  next
    case False
    then obtain u where u: "normalize_role_uid p r = Some u" "role_name_to_uid p r = Some u" "\<not> is_uid r"
      by (auto simp: normalize_role_uid_def split: option.splits if_splits)
    have custom: "map_of (pn_roles p) r = None" "builtin_uid_to_key r = None"
      using u(3) ok builtin_uid_to_key_iff [of r] builtin_uid_is_uid [of r]
      by (cases "map_of (pn_roles p) r"; auto simp: panel_ok_def custom_uid_def)+
    show ?thesis
    proof (cases "map_of builtin_role_uids r")
      case (Some uid)
      then have "u = uid" "builtin_uid_to_key u = Some r"
        using u(2) builtin_uid_inverse [OF Some] by (simp_all add: role_name_to_uid_def)
      moreover obtain ps where "builtin_permissions cat r = Some ps" using builtin_key_perms [OF Some] by blast
      ultimately have "role_permissions cat p u = role_permissions cat p r"
        using custom by (simp add: role_permissions_def builtin_uid_perms_def)
      moreover have "is_admin_role p r \<longrightarrow> is_admin_role p u"
        using Some \<open>u = uid\<close> by (auto simp: is_admin_role_def builtin_defs)
      ultimately have "role_rights cat p r \<subseteq> role_rights cat p u" by (auto simp: role_rights_def)
      with gr u(1) show ?thesis by (simp add: opt_def)
    next
      case None
      then have "builtin_permissions cat r = None" "r \<noteq> ''admin''" "r \<noteq> admin_uid"
        using custom(2) by (auto simp: builtin_permissions_def builtin_defs split: if_splits)
      with custom have "role_rights cat p r = {}"
        by (simp add: role_rights_def role_permissions_def is_admin_role_def builtin_uid_perms_def)
      then show ?thesis by simp
    qed
  qed
qed

section \<open>Edits of roles\<close>

text \<open>What the row of a custom role gives to those who hold it.\<close>

definition row_perms :: "catalog \<Rightarrow> role \<Rightarrow> string option set" where
  "row_perms cat r = (if ro_enabled r then Some ` set (filter_valid_permissions cat (ro_perms r)) else {})"

lemma role_rights_custom:
  assumes "custom_uid uid"
  shows "role_rights cat p uid = (case map_of (pn_roles p) uid of None \<Rightarrow> {} | Some r \<Rightarrow> row_perms cat r)"
  using custom_uid_facts [OF assms]
  by (cases "map_of (pn_roles p) uid") (auto simp: role_rights_def role_permissions_def is_admin_role_def row_perms_def)

lemma role_rights_other:
  assumes "map_of (pn_roles q) ref = map_of (pn_roles p) ref"
  shows "role_rights cat q ref = role_rights cat p ref"
  by (simp only: role_rights_def role_permissions_def is_admin_role_def assms)

lemma role_rights_put:
  assumes "custom_uid uid"
    and "row_perms cat r \<subseteq> (case map_of (pn_roles p) uid of None \<Rightarrow> {} | Some old \<Rightarrow> row_perms cat old) \<union> X"
  shows "role_rights cat (put_role uid r p) ref \<subseteq> role_rights cat p ref \<union> X"
proof (cases "ref = uid")
  case True
  with assms show ?thesis by (simp add: role_rights_custom dict_simps)
next
  case False
  then have "role_rights cat (put_role uid r p) ref = role_rights cat p ref"
    by (intro role_rights_other) (simp add: dict_simps)
  then show ?thesis by simp
qed

lemma role_rights_drop:
  assumes "custom_uid uid" "pn_roles q = AList.delete uid roles"
    and "\<And>k. k \<noteq> uid \<Longrightarrow> map_of roles k = map_of (pn_roles p) k"
  shows "role_rights cat q ref \<subseteq> role_rights cat p ref"
proof (cases "ref = uid")
  case True
  with assms(1,2) show ?thesis by (simp add: role_rights_custom dict_simps)
next
  case False
  then have "role_rights cat q ref = role_rights cat p ref"
    by (intro role_rights_other) (simp add: dict_simps assms)
  then show ?thesis by simp
qed

lemma bounded_roles:
  assumes "pn_users q = pn_users p" "pn_groups q = pn_groups p"
    and "\<And>ref. role_rights cat q ref \<subseteq> role_rights cat p ref \<union> X"
  shows "bounded cat X p q"
proof (rule bounded_users)
  show "map_of (pn_users q) k = map_of (pn_users p) k" for k using assms(1) by simp
  show "role_rights cat q ref \<subseteq> role_rights cat p ref \<union> X" for ref by (rule assms(3))
  show "group_rights cat q g \<subseteq> group_rights cat p g \<union> X" for g
  proof (cases "map_of (pn_groups p) g")
    case None
    then show ?thesis using assms(2) by (simp add: group_rights_unknown)
  next
    case (Some gd)
    then show ?thesis using assms by (intro group_rights_mono [of q g gd p gd]) auto
  qed
qed

lemma filter_valid_idem [simp]:
  "filter_valid_permissions cat (filter_valid_permissions cat ps) = filter_valid_permissions cat ps"
  by (simp add: filter_valid_permissions_def)

text \<open>What creating a role leaves: the panel as it was, with the new role, or with the role written and dropped.\<close>

lemma create_role_cases:
  assumes "snd (route_create_role cat cx rq name desc perms enabled uid saved p) = q"
  obtains "q = p"
  | r where "perms_grantable cat p rq (filter_valid_permissions cat perms)"
      "ro_perms r = filter_valid_permissions cat perms" "ro_name r = py_strip name"
      "q = put_role uid r p \<or> q = (put_role uid r p)\<lparr>pn_roles := AList.delete uid (AList.update uid r (pn_roles p))\<rparr>"
proof -
  let ?r = "\<lparr>ro_name = py_strip name, ro_desc = py_strip desc, ro_perms = filter_valid_permissions cat perms,
    ro_enabled = enabled, ro_created = cx_now cx, ro_updated = cx_now cx, ro_by = cx_actor cx\<rparr>"
  show thesis
  proof (cases "q = p")
    case False
    with assms have "perms_grantable cat p rq (filter_valid_permissions cat perms)"
      by (auto simp: route_create_role_def refuse_def split: if_splits)
    moreover from False assms have
      "q = put_role uid ?r p \<or> q = (put_role uid ?r p)\<lparr>pn_roles := AList.delete uid (AList.update uid ?r (pn_roles p))\<rparr>"
      by (auto simp: route_create_role_def create_role_def op_fail_def refuse_def Let_def split: if_splits)
    ultimately show thesis using that(2) [of ?r] by simp
  qed (rule that(1))
qed

lemma create_role_bounded:
  assumes "panel_ok p" "custom_uid uid" "\<not> is_uid (py_strip name)" "\<not> is_admin_requester p rq"
    and q: "snd (route_create_role cat cx rq name desc perms enabled uid saved p) = q"
  shows "bounded cat (granted cat p rq) p q \<and> panel_ok q"
  using q
proof (cases rule: create_role_cases)
  case 1
  with assms(1) show ?thesis by simp
next
  case (2 r)
  then have sub: "row_perms cat r \<subseteq> granted cat p rq"
    using assms(4) by (auto simp: perms_grantable_def row_perms_def)
  have "role_rights cat q ref \<subseteq> role_rights cat p ref \<union> granted cat p rq" for ref
    using 2(4)
  proof
    assume "q = put_role uid r p"
    with role_rights_put [OF assms(2)] sub show ?thesis by blast
  next
    assume "q = (put_role uid r p)\<lparr>pn_roles := AList.delete uid (AList.update uid r (pn_roles p))\<rparr>"
    then have "role_rights cat q ref \<subseteq> role_rights cat p ref"
      by (intro role_rights_drop [OF assms(2), where roles = "AList.update uid r (pn_roles p)"]) (auto simp: dict_simps)
    then show ?thesis by blast
  qed
  then have "bounded cat (granted cat p rq) p q"
    using 2(4) by (intro bounded_roles) auto
  moreover have "panel_ok q"
    using 2 assms(1-3) by (elim disjE) (auto simp: panel_ok_def dict_simps split: if_splits)
  ultimately show ?thesis ..
qed


text \<open>An edit of a custom role.\<close>

lemma update_role_cases:
  assumes "snd (update_custom_role cat uid d ts actor p) = q"
  obtains "q = p"
  | r r' where "map_of (pn_roles p) uid = Some r" "q = put_role uid r' p"
      "ro_name r' = (case rr_name d of None \<Rightarrow> ro_name r | Some x \<Rightarrow> py_strip x)"
      "ro_perms r' = (case rr_perms d of None \<Rightarrow> ro_perms r | Some ps \<Rightarrow> sort (filter_valid_permissions cat ps))"
      "ro_enabled r' = opt (rr_enabled d) (ro_enabled r)"
proof -
  show thesis
  proof (cases "q = p")
    case False
    then obtain r where r: "map_of (pn_roles p) uid = Some r"
      using assms by (auto simp: update_custom_role_def split: option.splits)
    let ?r = "r\<lparr>ro_name := case rr_name d of None \<Rightarrow> ro_name r | Some x \<Rightarrow> py_strip x,
      ro_desc := case rr_desc d of None \<Rightarrow> ro_desc r | Some x \<Rightarrow> py_strip x,
      ro_perms := case rr_perms d of None \<Rightarrow> ro_perms r | Some ps \<Rightarrow> sort (filter_valid_permissions cat ps),
      ro_enabled := opt (rr_enabled d) (ro_enabled r), ro_updated := ts, ro_by := actor\<rparr>"
    have "q = put_role uid ?r p"
      using False r assms unfolding update_custom_role_def op_fail_def Let_def
      by (simp split: if_splits option.splits)
    then show thesis using r that(2) [of r ?r] by simp
  qed (rule that(1))
qed

lemma update_builtin_role_fields:
  assumes "snd (update_builtin_role uid key d p) = q"
  shows "pn_users q = pn_users p \<and> pn_roles q = pn_roles p \<and> pn_groups q = pn_groups p"
  using assms by (auto simp: update_builtin_role_def op_fail_def Let_def split: option.splits if_splits prod.splits)

lemma set_filter_sort [simp]: "set (filter_valid_permissions cat (sort ps)) = set (filter_valid_permissions cat ps)"
  by (simp add: filter_valid_permissions_def)

lemma update_role_bounded:
  assumes ok: "panel_ok p" and na: "\<not> is_admin_requester p rq"
    and plain: "case rr_name d of None \<Rightarrow> True | Some x \<Rightarrow> \<not> is_uid (py_strip x)"
    and q: "snd (route_update_role cat cx rq uid d saved p) = q"
  shows "bounded cat (granted cat p rq) p q \<and> panel_ok q"
proof (cases "q = p")
  case True
  with ok show ?thesis by simp
next
  case False
  show ?thesis
  proof (cases "builtin_key_for uid")
    case (Some key)
    then have "q = snd (update_builtin_role uid key d p)"
      using False q Some by (auto simp: route_update_role_def refuse_def Let_def split: if_splits sum.splits prod.splits)
    then have f: "pn_users q = pn_users p" "pn_roles q = pn_roles p" "pn_groups q = pn_groups p"
      using update_builtin_role_fields by blast+
    then have "bounded cat (granted cat p rq) p q"
      by (intro bounded_roles) (simp_all add: role_rights_other [of q _ p])
    with ok f show ?thesis by (simp add: panel_ok_def)
  next
    case None
    let ?perms = "case rr_perms d of Some ps \<Rightarrow> ps | None \<Rightarrow> (case map_of (pn_roles p) uid of None \<Rightarrow> [] | Some r \<Rightarrow> ro_perms r)"
    have gr: "rr_perms d \<noteq> None \<or> rr_enabled d = Some True \<Longrightarrow> perms_grantable cat p rq (filter_valid_permissions cat ?perms)"
      and op: "snd (update_custom_role cat uid d (cx_now cx) (cx_actor cx) p) = q"
      using False None q by (auto simp: route_update_role_def refuse_def Let_def split: if_splits sum.splits prod.splits)
    from op show ?thesis
    proof (cases rule: update_role_cases)
      case 1
      with False show ?thesis by simp
    next
      case (2 r r')
      have cu: "custom_uid uid" using ok 2(1) by (simp add: panel_ok_def)
      have row: "row_perms cat r' \<subseteq> row_perms cat r \<union> granted cat p rq"
      proof (cases "rr_perms d \<noteq> None \<or> rr_enabled d = Some True")
        case True
        with gr na 2 have "set (filter_valid_permissions cat ?perms) \<subseteq> session_permissions cat p rq"
          by (simp add: perms_grantable_def)
        moreover have "set (filter_valid_permissions cat (ro_perms r')) \<subseteq> set (filter_valid_permissions cat ?perms)"
          using 2 by (auto split: option.splits)
        ultimately show ?thesis by (auto simp: row_perms_def)
      next
        case False
        with 2 show ?thesis by (auto simp: row_perms_def opt_def split: option.splits)
      qed
      have "role_rights cat q ref \<subseteq> role_rights cat p ref \<union> granted cat p rq" for ref
        unfolding 2(2) using row 2(1) by (intro role_rights_put [OF cu]) simp
      then have "bounded cat (granted cat p rq) p q"
        using 2(2) by (intro bounded_roles) auto
      moreover have "panel_ok q"
        using 2 ok plain cu by (auto simp: panel_ok_def dict_simps split: if_splits option.splits)
      ultimately show ?thesis ..
    qed
  qed
qed


lemma map_of_map_snd: "map_of (map (\<lambda>(k, v). (k, f v)) d) k = map_option f (map_of d k)"
  by (induction d) auto

lemma dict_wf_map_snd [simp]: "dict_wf (map (\<lambda>(k, v). (k, f v)) d) = dict_wf d"
  by (simp add: dict_wf_def comp_def case_prod_beta)

lemma delete_role_bounded:
  assumes ok: "panel_ok p" and q: "snd (delete_role uid p) = q"
  shows "bounded cat X p q \<and> panel_ok q"
proof (cases "q = p")
  case True
  with ok show ?thesis by simp
next
  case False
  let ?strip = "\<lambda>g. g\<lparr>gr_roles := filter (\<lambda>r. r \<noteq> uid) (gr_roles g)\<rparr>"
  have known: "map_of (pn_roles p) uid \<noteq> None"
    and eq: "q = p\<lparr>pn_groups := map (\<lambda>(k, g). (k, ?strip g)) (pn_groups p), pn_roles := AList.delete uid (pn_roles p)\<rparr>"
    using False q by (auto simp: delete_role_def op_fail_def Let_def split: if_splits)
  have cu: "custom_uid uid" using known ok by (auto simp: panel_ok_def)
  have roles: "role_rights cat q ref \<subseteq> role_rights cat p ref" for ref
    using eq by (intro role_rights_drop [OF cu, where roles = "pn_roles p"]) auto
  have groups: "group_rights cat q g \<subseteq> group_rights cat p g \<union> X" for g
  proof (cases "map_of (pn_groups p) g")
    case None
    with eq show ?thesis by (simp add: group_rights_unknown map_of_map_snd)
  next
    case (Some gd)
    with eq have "map_of (pn_groups q) g = Some (?strip gd)" by (simp add: map_of_map_snd)
    with Some show ?thesis using roles by (intro group_rights_mono [of q g "?strip gd" p gd]) auto
  qed
  have "bounded cat X p q"
    using eq roles groups by (intro bounded_users) auto
  moreover have "panel_ok q" using eq ok by (auto simp: panel_ok_def dict_simps split: if_splits)
  ultimately show ?thesis ..
qed

section \<open>Edits of groups\<close>

lemma bounded_one_group:
  assumes "pn_users q = pn_users p" "pn_roles q = pn_roles p"
    and "\<And>k. k \<noteq> uid \<Longrightarrow> map_of (pn_groups q) k = map_of (pn_groups p) k"
    and "group_rights cat q uid \<subseteq> group_rights cat p uid \<union> X"
  shows "bounded cat X p q"
proof (rule bounded_users)
  show "map_of (pn_users q) k = map_of (pn_users p) k" for k by (simp add: assms(1))
  show "role_rights cat q r \<subseteq> role_rights cat p r \<union> X" for r
    using role_rights_other [of q r p cat] assms(2) by simp
  show "group_rights cat q g \<subseteq> group_rights cat p g \<union> X" for g
    using assms group_rights_cong [of q p g cat] by (cases "g = uid") auto
qed

text \<open>The rights of roles that were named in a request and checked.\<close>

lemma sent_roles_grantable:
  assumes ok: "panel_ok p" and na: "\<not> is_admin_requester p rq" and g: "roles_grantable cat p rq rs"
    and r: "r \<in> set rs" and res: "resolve_role_uid p r = Some ref"
  shows "role_rights cat p ref \<subseteq> granted cat p rq"
proof -
  have "role_grantable cat p rq ref"
    using g r normalize_resolves [OF ok res] by (auto simp: roles_grantable_def list_all_iff)
  then show ?thesis by (rule role_grantable_rights [OF na])
qed

lemma create_group_bounded:
  assumes ok: "panel_ok p" and na: "\<not> is_admin_requester p rq"
    and q: "snd (route_create_group cat cx rq name desc roles enabled landing uid p) = q"
  shows "bounded cat (granted cat p rq) p q \<and> panel_ok q"
proof (cases "q = p")
  case True
  with ok show ?thesis by simp
next
  case False
  let ?resolve = "\<lambda>r. opt (resolve_role_uid p r) r"
  have gr: "roles_grantable cat p rq roles"
    using False q na by (auto simp: route_create_group_def refuse_def split: if_splits)
  obtain g where eq: "q = put_group uid g p" and rs: "gr_roles g = map ?resolve roles"
    and all: "\<forall>r\<in>set roles. resolve_role_uid p r \<noteq> None"
    using False q unfolding route_create_group_def create_group_def op_fail_def refuse_def Let_def
    by (auto simp: filter_empty_conv split: if_splits)
  have "role_rights cat p ref \<subseteq> granted cat p rq" if "ref \<in> set (gr_roles g)" for ref
  proof -
    from that rs all obtain r where "r \<in> set roles" "resolve_role_uid p r = Some ref" by (auto simp: opt_def)
    with sent_roles_grantable [OF ok na gr] show ?thesis by blast
  qed
  then have "\<forall>r\<in>set (gr_roles g). role_rights cat q r \<subseteq> granted cat p rq"
    using eq role_rights_other [of q _ p cat] by simp
  then have "group_rights cat q uid \<subseteq> granted cat p rq"
    by (intro group_rights_bound) (auto simp: eq dict_simps)
  then have "bounded cat (granted cat p rq) p q"
    by (intro bounded_one_group [of q p uid]) (auto simp: eq dict_simps)
  moreover have "panel_ok q" using ok eq by (simp add: panel_ok_def)
  ultimately show ?thesis ..
qed

lemma delete_group_bounded:
  assumes ok: "panel_ok p" and q: "snd (delete_group uid p) = q"
  shows "bounded cat X p q \<and> panel_ok q"
proof (cases "q = p")
  case True
  with ok show ?thesis by simp
next
  case False
  let ?strip = "\<lambda>u. u\<lparr>us_groups := filter (\<lambda>g. g \<noteq> uid) (us_groups u)\<rparr>"
  have eq: "q = p\<lparr>pn_users := map (\<lambda>(n, u). (n, ?strip u)) (pn_users p), pn_groups := AList.delete uid (pn_groups p)\<rparr>"
    using False q by (auto simp: delete_group_def op_fail_def split: if_splits)
  let ?m = "p\<lparr>pn_users := map (\<lambda>(n, u). (n, ?strip u)) (pn_users p)\<rparr>"
  have "account_rights cat q n \<subseteq> account_rights cat p n" for n
  proof (cases "map_of (pn_users p) n")
    case None
    with eq show ?thesis by (simp add: account_rights_def map_of_map_snd)
  next
    case (Some u)
    have "role_rights cat q r = role_rights cat p r" for r using eq by (intro role_rights_other) simp
    moreover have "group_rights cat q g = group_rights cat p g" if "g \<noteq> uid" for g
      using eq that by (intro group_rights_cong) (auto simp: dict_simps)
    ultimately show ?thesis using Some eq by (auto simp: account_rights_def rights_def map_of_map_snd)
  qed
  then have "bounded cat X p q" by (auto simp: bounded_def)
  moreover have "panel_ok q" using ok eq by (simp add: panel_ok_def)
  ultimately show ?thesis ..
qed


text \<open>
  What an edit of a group leaves, whether or not it got to its end: the same roles of the panel; the group's
  own roles as they were or as sent; the group switched on only as asked; members only after the roles.
\<close>

lemma on_group_some:
  assumes "map_of (pn_groups p) uid = Some g"
  shows "on_group uid f p = (fst (f g), put_group uid (snd (f g)) p)"
  using assms by (simp add: on_group_def split: prod.splits)

lemma upd_group_text_keeps:
  "gr_roles (snd (upd_group_text b d pages g)) = gr_roles g \<and> gr_enabled (snd (upd_group_text b d pages g)) = gr_enabled g"
  by (simp add: upd_group_text_def Let_def)

lemma upd_group_roles_result:
  assumes "upd_group_roles p d g = (res, g')"
  shows "gr_enabled g' = gr_enabled g"
    and "gr_roles g' = gr_roles g \<or> (\<exists>rs. gq_roles d = Some (Some rs) \<and> (\<forall>r\<in>set rs. resolve_role_uid p r \<noteq> None)
           \<and> gr_roles g' = sort (map (\<lambda>r. opt (resolve_role_uid p r) r) rs))"
    and "res = Inr cs \<Longrightarrow> gq_roles d = None \<and> gr_roles g' = gr_roles g \<or>
           (\<exists>rs. gq_roles d = Some (Some rs) \<and> (\<forall>r\<in>set rs. resolve_role_uid p r \<noteq> None)
           \<and> gr_roles g' = sort (map (\<lambda>r. opt (resolve_role_uid p r) r) rs))"
  using assms by (auto simp: upd_group_roles_def Let_def filter_empty_conv split: option.splits if_splits)

lemma resolve_cong: "pn_roles q = pn_roles p \<Longrightarrow> resolve_role_uid q r = resolve_role_uid p r"
  by (simp only: resolve_role_uid_def)

lemma update_group_states:
  assumes g: "map_of (pn_groups p) uid = Some g" and q: "snd (update_group uid d b pages ts actor p) = q"
  obtains g' where "pn_roles q = pn_roles p"
    "\<And>k. map_of (pn_groups q) k = (if k = uid then Some g' else map_of (pn_groups p) k)"
    "dict_wf (pn_groups p) \<Longrightarrow> dict_wf (pn_groups q)"
    "gr_roles g' = gr_roles g \<or> (\<exists>rs. gq_roles d = Some (Some rs) \<and> (\<forall>r\<in>set rs. resolve_role_uid p r \<noteq> None)
       \<and> gr_roles g' = sort (map (\<lambda>r. opt (resolve_role_uid p r) r) rs))"
    "pn_users q = pn_users p \<and> gr_enabled g' = gr_enabled g \<or>
     (gq_roles d = None \<and> gr_roles g' = gr_roles g \<or> (\<exists>rs. gq_roles d = Some (Some rs)
        \<and> (\<forall>r\<in>set rs. resolve_role_uid p r \<noteq> None) \<and> gr_roles g' = sort (map (\<lambda>r. opt (resolve_role_uid p r) r) rs)))
     \<and> (pn_users q = pn_users p \<or> (\<exists>ms. gq_members d = Some (Some ms) \<and> pn_users q = map (set_member uid ms) (pn_users p)))
     \<and> (gr_enabled g' = gr_enabled g \<or> gq_enabled d = Some (gr_enabled g'))"
proof -
  obtain r1 g1 where s1: "upd_group_text b d pages g = (r1, g1)" by fastforce
  define p1 where "p1 = put_group uid g1 p"
  have o1: "on_group uid (upd_group_text b d pages) p = (r1, p1)"
    using on_group_some [OF g, of "upd_group_text b d pages"] s1 by (simp add: p1_def)
  have k1: "gr_roles g1 = gr_roles g" "gr_enabled g1 = gr_enabled g" using upd_group_text_keeps [of b d pages g] s1 by auto
  have m1: "map_of (pn_groups p1) uid = Some g1" by (simp add: p1_def dict_simps)
  obtain r2 g2 where s2: "upd_group_roles p1 d g1 = (r2, g2)" by fastforce
  define p2 where "p2 = put_group uid g2 p1"
  have o2: "on_group uid (upd_group_roles p1 d) p1 = (r2, p2)"
    using on_group_some [OF m1, of "upd_group_roles p1 d"] s2 by (simp add: p2_def)
  have res: "resolve_role_uid p1 r = resolve_role_uid p r" for r by (rule resolve_cong) (simp add: p1_def)
  note k2 = upd_group_roles_result [OF s2, unfolded res k1]
  obtain r3 p3 where o3: "upd_group_members uid d p2 = (r3, p3)" by fastforce
  have p3: "pn_roles p3 = pn_roles p" "pn_groups p3 = pn_groups p2"
    "pn_users p3 = pn_users p \<or> (\<exists>ms. gq_members d = Some (Some ms) \<and> pn_users p3 = map (set_member uid ms) (pn_users p))"
    using o3 by (auto simp: upd_group_members_def op_fail_def p2_def p1_def Let_def split: option.splits if_splits)
  have m3: "map_of (pn_groups p3) uid = Some g2" by (simp add: p3 p2_def dict_simps)
  obtain r4 g4 where s4: "upd_group_stamp d ts actor g2 = (r4, g4)" by fastforce
  have o4: "on_group uid (upd_group_stamp d ts actor) p3 = (r4, put_group uid g4 p3)"
    using on_group_some [OF m3, of "upd_group_stamp d ts actor"] s4 by simp
  have k4: "gr_roles g4 = gr_roles g2" "gr_enabled g4 = opt (gq_enabled d) (gr_enabled g2)"
    using s4 by (auto simp: upd_group_stamp_def Let_def)
  have q': "q = (case r1 of Inl _ \<Rightarrow> p1 | Inr _ \<Rightarrow> (case r2 of Inl _ \<Rightarrow> p2 | Inr _ \<Rightarrow>
      (case r3 of Inl _ \<Rightarrow> p3 | Inr _ \<Rightarrow> put_group uid g4 p3)))"
    using q o1 o2 o3 o4 by (auto simp: update_group_def split: sum.splits prod.splits)
  show thesis
  proof (cases r1)
    case (Inl e)
    then have "q = p1" using q' by simp
    then show ?thesis using k1 by (intro that [of g1]) (auto simp: p1_def dict_simps)
  next
    case r1: (Inr c1)
    show ?thesis
    proof (cases r2)
      case (Inl e)
      then have "q = p2" using q' r1 by simp
      then show ?thesis using k2(1,2) by (intro that [of g2]) (auto simp: p1_def p2_def dict_simps)
    next
      case r2: (Inr c2)
      show ?thesis
      proof (cases r3)
        case (Inl e)
        then have "q = p3" using q' r1 r2 by simp
        then show ?thesis using k2(1) k2(3) [OF r2] p3
          by (intro that [of g2]) (auto simp: p1_def p2_def dict_simps)
      next
        case (Inr c3)
        then have "q = put_group uid g4 p3" using q' r1 r2 by simp
        then show ?thesis using k2(1) k2(3) [OF r2] p3 k4
          by (intro that [of g4]) (auto simp: p1_def p2_def dict_simps opt_def split: option.splits)
      qed
    qed
  qed
qed


lemma set_member_fields: "fst (set_member uid ms nu) = fst nu" "us_role (snd (set_member uid ms nu)) = us_role (snd nu)"
    "g \<in> set (us_groups (snd (set_member uid ms nu))) \<Longrightarrow> g \<noteq> uid \<Longrightarrow> g \<in> set (us_groups (snd nu))"
  by (auto simp: set_member_def Let_def split: prod.splits if_splits)

lemma map_of_set_member:
  "map_of (map (set_member uid ms) us) n = map_option (\<lambda>u. snd (set_member uid ms (n, u))) (map_of us n)"
  by (induction us) (auto simp: set_member_def Let_def)

lemma update_group_bounded:
  assumes ok: "panel_ok p" and na: "\<not> is_admin_requester p rq"
    and q: "snd (route_update_group cat cx rq uid d p) = q"
  shows "bounded cat (granted cat p rq) p q \<and> panel_ok q"
proof (cases "q = p")
  case True
  with ok show ?thesis by simp
next
  case False
  let ?X = "granted cat p rq"
  obtain g where g: "map_of (pn_groups p) uid = Some g"
    using False q by (auto simp: route_update_group_def refuse_def split: option.splits if_splits)
  let ?sent = "opt (opt (gq_roles d) None) []"
  have sent: "roles_grantable cat p rq ?sent"
    and held: "gq_members d \<noteq> None \<or> gq_enabled d = Some True \<Longrightarrow>
      roles_grantable cat p rq (if gq_roles d \<noteq> None then ?sent else gr_roles g)"
    and op: "snd (update_group uid d (List.member builtin_group_uids uid) (cx_pages cx) (cx_now cx) (cx_actor cx) p) = q"
    using False q g na by (auto simp: route_update_group_def refuse_def Let_def split: if_splits sum.splits prod.splits)
  from update_group_states [OF g op] obtain g' where st: "pn_roles q = pn_roles p"
    "\<And>k. map_of (pn_groups q) k = (if k = uid then Some g' else map_of (pn_groups p) k)"
    "dict_wf (pn_groups p) \<Longrightarrow> dict_wf (pn_groups q)"
    "gr_roles g' = gr_roles g \<or> (\<exists>rs. gq_roles d = Some (Some rs) \<and> (\<forall>r\<in>set rs. resolve_role_uid p r \<noteq> None)
       \<and> gr_roles g' = sort (map (\<lambda>r. opt (resolve_role_uid p r) r) rs))"
    "pn_users q = pn_users p \<and> gr_enabled g' = gr_enabled g \<or>
     (gq_roles d = None \<and> gr_roles g' = gr_roles g \<or> (\<exists>rs. gq_roles d = Some (Some rs)
        \<and> (\<forall>r\<in>set rs. resolve_role_uid p r \<noteq> None) \<and> gr_roles g' = sort (map (\<lambda>r. opt (resolve_role_uid p r) r) rs)))
     \<and> (pn_users q = pn_users p \<or> (\<exists>ms. gq_members d = Some (Some ms) \<and> pn_users q = map (set_member uid ms) (pn_users p)))
     \<and> (gr_enabled g' = gr_enabled g \<or> gq_enabled d = Some (gr_enabled g'))" by blast
  have rr: "role_rights cat q r = role_rights cat p r" for r using st(1) by (intro role_rights_other) simp
  have sent_ok: "role_rights cat p ref \<subseteq> ?X"
    if "gq_roles d = Some (Some rs)" "\<forall>r\<in>set rs. resolve_role_uid p r \<noteq> None"
      "gr_roles g' = sort (map (\<lambda>r. opt (resolve_role_uid p r) r) rs)" "ref \<in> set (gr_roles g')" for rs ref
  proof -
    from that obtain r where "r \<in> set rs" "resolve_role_uid p r = Some ref" by (auto simp: opt_def)
    moreover have "roles_grantable cat p rq rs" using sent that(1) by (simp add: opt_def)
    ultimately show ?thesis using sent_roles_grantable [OF ok na] by blast
  qed
  have at_uid: "group_rights cat q uid \<subseteq> ?X" if "\<forall>r\<in>set (gr_roles g'). role_rights cat p r \<subseteq> ?X"
    using st(2) that rr by (intro group_rights_bound [of q uid g']) auto
  have grown: "\<forall>r\<in>set (gr_roles g'). role_rights cat p r \<subseteq> ?X"
    if "gq_members d \<noteq> None \<or> gq_enabled d = Some True"
      and "gq_roles d = None \<and> gr_roles g' = gr_roles g \<or> (\<exists>rs. gq_roles d = Some (Some rs)
        \<and> (\<forall>r\<in>set rs. resolve_role_uid p r \<noteq> None) \<and> gr_roles g' = sort (map (\<lambda>r. opt (resolve_role_uid p r) r) rs))"
    using that(2) sent_ok stored_roles_grantable [OF ok na held [OF that(1)]] by (elim disjE exE conjE) auto
  have uid: "group_rights cat q uid \<subseteq> group_rights cat p uid \<union> ?X"
  proof (cases "gr_roles g' = gr_roles g")
    case same: True
    show ?thesis
    proof (cases "gr_enabled g' \<longrightarrow> gr_enabled g")
      case True
      with same show ?thesis using st(2) g rr by (intro group_rights_mono [of q uid g' p g]) auto
    next
      case False
      with st(5) have "gq_enabled d = Some True" by auto
      with st(5) False grown at_uid show ?thesis by blast
    qed
  next
    case False
    with st(4) sent_ok at_uid show ?thesis by blast
  qed
  have gr: "group_rights cat q k \<subseteq> group_rights cat p k \<union> ?X" for k
    using uid group_rights_cong [of q p k cat] st(1,2) by (cases "k = uid") auto
  have "account_rights cat q n \<subseteq> account_rights cat p n \<union> ?X" for n
  proof (cases "map_of (pn_users p) n")
    case None
    then have "map_of (pn_users q) n = None" using st(5) by (auto simp: map_of_set_member)
    then show ?thesis by (simp add: account_rights_def)
  next
    case (Some u)
    show ?thesis
    proof (cases "pn_users q = pn_users p")
      case True
      with Some gr rr show ?thesis by (fastforce simp: account_rights_def rights_def)
    next
      case False
      with st(5) obtain ms where ms: "gq_members d = Some (Some ms)" "pn_users q = map (set_member uid ms) (pn_users p)" by blast
      then have "group_rights cat q uid \<subseteq> ?X" using st(5) False by (intro at_uid grown) auto
      note gu = this
      let ?u = "snd (set_member uid ms (n, u))"
      have m: "map_of (pn_users q) n = Some ?u" using Some ms by (simp add: map_of_set_member)
      have "group_rights cat q k \<subseteq> account_rights cat p n \<union> ?X" if "k \<in> set (us_groups ?u)" for k
      proof (cases "k = uid")
        case True
        with gu show ?thesis by blast
      next
        case False
        with that have "k \<in> set (us_groups u)" using set_member_fields(3) [of k uid ms "(n, u)"] by simp
        then have "group_rights cat p k \<subseteq> account_rights cat p n" using Some by (auto simp: account_rights_def rights_def)
        with gr show ?thesis by blast
      qed
      moreover have "role_rights cat q (opt (us_role ?u) viewer_uid) \<subseteq> account_rights cat p n"
        using Some rr set_member_fields(2) [of uid ms "(n, u)"] by (simp add: account_rights_def rights_def)
      ultimately show ?thesis unfolding account_rights_def [of cat q n] m rights_def by auto
    qed
  qed
  then have "bounded cat ?X p q" by (simp add: bounded_def)
  moreover have "dict_wf (pn_users q)"
    using st(5) ok by (auto simp: panel_ok_def dict_wf_def comp_def set_member_fields(1))
  then have "panel_ok q" using st(1,3) ok by (simp add: panel_ok_def)
  ultimately show ?thesis ..
qed

end
