(* ===== verification/Rbac_Escalation.thy ===== *)
theory Rbac_Escalation
  imports Rbac_Bounds
begin

text \<open>
  No request of somebody who is not an administrator raises anybody above what that person held or what the
  requester holds, and no sequence of such requests does.
\<close>

section \<open>Edits of accounts\<close>

lemma create_user_state:
  assumes "snd (create_user cx d uid p) = q" "q \<noteq> p"
  obtains u ref where "q = put_user (py_strip (nu_name d)) u p" "resolve_role_uid p (nu_role d) = Some ref"
    "us_role u = Some ref" "us_groups u = nu_groups d"
proof -
  have v: "validate_password (nu_password d) (cx_policy cx) = None"
    using assms unfolding create_user_def op_fail_def Let_def
    by (cases "validate_password (nu_password d) (cx_policy cx)") (simp_all split: if_splits)
  obtain ref where ref: "resolve_role_uid p (nu_role d) = Some ref"
    using assms unfolding create_user_def op_fail_def Let_def v option.case
    by (cases "resolve_role_uid p (nu_role d)") (simp_all split: if_splits)
  have "\<exists>u. q = put_user (py_strip (nu_name d)) u p \<and> us_role u = Some ref \<and> us_groups u = nu_groups d"
    using assms unfolding create_user_def op_fail_def Let_def v ref option.case
    by (simp split: if_splits) (rule exI, rule conjI, erule sym, simp)+
  then show thesis using that ref by blast
qed

lemma create_user_bounded:
  assumes ok: "panel_ok p" and na: "\<not> is_admin_requester p rq"
    and q: "snd (route_create_user cat cx rq d uid p) = q"
  shows "bounded cat (granted cat p rq) p q \<and> panel_ok q"
proof (cases "q = p")
  case True
  with ok show ?thesis by simp
next
  case False
  let ?role = "if nu_role d = [] then default_role_uid cx p else nu_role d"
  have guards: "role_grantable cat p rq (opt (resolve_role_uid p ?role) ?role)" "groups_grantable cat p rq (nu_groups d)"
    and op: "snd (create_user cx (d\<lparr>nu_role := ?role\<rparr>) uid p) = q"
    using False q by (auto simp: route_create_user_def refuse_def Let_def split: if_splits sum.splits prod.splits)
  obtain u ref where u: "q = put_user (py_strip (nu_name d)) u p" "resolve_role_uid p ?role = Some ref"
    "us_role u = Some ref" "us_groups u = nu_groups d"
    using create_user_state [OF op False] by auto
  have role: "role_rights cat p ref \<subseteq> granted cat p rq"
    using guards(1) u(2) role_grantable_rights [OF na] by (simp add: opt_def)
  have "bounded cat (granted cat p rq) p q"
  proof (rule bounded_accounts)
    show "map_of (pn_roles q) k = map_of (pn_roles p) k" "map_of (pn_groups q) k = map_of (pn_groups p) k" for k
      by (simp_all add: u(1))
    fix n u'
    assume "map_of (pn_users q) n = Some u'"
    then show "map_of (pn_users p) n = Some u' \<or>
        (role_rights cat p (opt (us_role u') viewer_uid) \<subseteq> granted cat p rq \<or>
         (\<exists>u. map_of (pn_users p) n = Some u \<and> us_role u = us_role u')) \<and>
        (\<forall>g\<in>set (us_groups u'). group_rights cat p g \<subseteq> granted cat p rq \<or>
         (\<exists>u. map_of (pn_users p) n = Some u \<and> g \<in> set (us_groups u)))"
      using role u groups_grantable_rights [OF na guards(2)]
      by (auto simp: dict_simps opt_def split: if_splits)
  qed
  moreover have "panel_ok q" using ok u(1) by (simp add: panel_ok_def)
  ultimately show ?thesis ..
qed

text \<open>The states the edit of an account goes through, each leaving the role and the groups as they were or as sent.\<close>

definition user_edited :: "string \<Rightarrow> user_req \<Rightarrow> panel \<Rightarrow> panel \<Rightarrow> bool" where
  "user_edited name d p q \<longleftrightarrow>
     pn_roles q = pn_roles p \<and> pn_groups q = pn_groups p
     \<and> (dict_wf (pn_users p) \<longrightarrow> dict_wf (pn_users q))
     \<and> (\<forall>n. n \<noteq> name \<longrightarrow> map_of (pn_users q) n = map_of (pn_users p) n)
     \<and> (map_of (pn_users p) name = None \<longrightarrow> map_of (pn_users q) name = None)
     \<and> (\<forall>u. map_of (pn_users p) name = Some u \<longrightarrow> (\<exists>u'. map_of (pn_users q) name = Some u'
          \<and> (us_role u' = us_role u \<or> (\<exists>r ref. uq_role d = Some r \<and> resolve_role_uid p (opt r []) = Some ref \<and> us_role u' = Some ref))
          \<and> (us_groups u' = us_groups u \<or> uq_groups d = Some (Some (us_groups u')))))"

lemma user_edited_refl: "user_edited name d p p"
  by (simp add: user_edited_def)

lemma user_edited_trans: "user_edited name d p q \<Longrightarrow> user_edited name d q r \<Longrightarrow> user_edited name d p r"
  unfolding user_edited_def using resolve_cong [of q p]
  by (cases "map_of (pn_users p) name"; cases "map_of (pn_users q) name") (auto; metis)+

lemma user_edited_on:
  assumes "\<And>u. map_of (pn_users p) name = Some u \<Longrightarrow>
      (us_role (snd (f u)) = us_role u \<or>
         (\<exists>r ref. uq_role d = Some r \<and> resolve_role_uid p (opt r []) = Some ref \<and> us_role (snd (f u)) = Some ref))
      \<and> (us_groups (snd (f u)) = us_groups u \<or> uq_groups d = Some (Some (us_groups (snd (f u)))))"
  shows "user_edited name d p (snd (on_user name f p))"
  using assms by (auto simp: user_edited_def on_user_def dict_simps split: option.splits prod.splits)

lemma op_seq_edited:
  assumes "\<And>f p. f \<in> set fs \<Longrightarrow> user_edited name d p (snd (f p))"
  shows "user_edited name d p (snd (op_seq fs p))"
  using assms
proof (induction fs arbitrary: p)
  case Nil
  then show ?case by (simp add: user_edited_refl)
next
  case (Cons f fs)
  obtain r q where f: "f p = (r, q)" by fastforce
  have "user_edited name d p q" using Cons.prems [of f p] f by simp
  moreover have "user_edited name d q (snd (op_seq fs q))" by (rule Cons.IH) (simp add: Cons.prems)
  ultimately show ?case
    using f user_edited_trans by (cases r) (auto split: prod.splits sum.splits)
qed

lemma update_user_edited: "user_edited name d p (snd (update_user cx name d p))"
  unfolding update_user_def
proof (rule op_seq_edited)
  fix f p
  assume f: "f \<in> set [\<lambda>p. on_user name (upd_role p d) p, on_user name (upd_profile cx d name), on_user name (upd_screen cx d),
      \<lambda>p. on_user name (upd_groups p d) p, \<lambda>p. on_user name (upd_access p cx d) p]"
  have "user_edited name d p (snd (on_user name (upd_role p d) p))"
    by (rule user_edited_on) (auto simp: upd_role_def split: option.splits)
  moreover have "user_edited name d p (snd (on_user name (upd_profile cx d name) p))"
    by (rule user_edited_on) (auto simp: upd_profile_def Let_def split: option.splits)
  moreover have "user_edited name d p (snd (on_user name (upd_screen cx d) p))"
    by (rule user_edited_on) (auto simp: upd_screen_def Let_def split: option.splits)
  moreover have "user_edited name d p (snd (on_user name (upd_groups p d) p))"
    by (rule user_edited_on) (auto simp: upd_groups_def Let_def split: option.splits)
  moreover have "user_edited name d p (snd (on_user name (upd_access p cx d) p))"
    by (rule user_edited_on) (auto simp: upd_access_def stamped_def Let_def split: option.splits)
  ultimately show "user_edited name d p (snd (f p))" using f by auto
qed

lemma update_user_bounded:
  assumes ok: "panel_ok p" and na: "\<not> is_admin_requester p rq"
    and q: "snd (route_update_user cat cx rq name d p) = q"
  shows "bounded cat (granted cat p rq) p q \<and> panel_ok q"
proof (cases "q = p")
  case True
  with ok show ?thesis by simp
next
  case False
  obtain u where u: "map_of (pn_users p) name = Some u" and guard: "edit_refused cat rq name u d p = None"
    and op: "snd (update_user cx name d p) = q"
    using False q by (auto simp: route_update_user_def refuse_def split: option.splits if_splits sum.splits prod.splits)
  have ed: "user_edited name d p q" using update_user_edited [of name d p cx] op by simp
  have role: "role_rights cat p ref \<subseteq> granted cat p rq"
    if "uq_role d = Some r" "resolve_role_uid p (opt r []) = Some ref" for r ref
    using guard that role_grantable_rights [OF na] by (simp add: edit_refused_def Let_def opt_def split: if_splits)
  have group: "group_rights cat p g \<subseteq> granted cat p rq" if "uq_groups d = Some (Some gs)" "g \<in> set gs" for gs g
    using guard that groups_grantable_rights [OF na _ that(2)]
    by (simp add: edit_refused_def Let_def opt_def split: if_splits)
  have "bounded cat (granted cat p rq) p q"
  proof (rule bounded_accounts)
    show "map_of (pn_roles q) k = map_of (pn_roles p) k" "map_of (pn_groups q) k = map_of (pn_groups p) k" for k
      using ed by (simp_all add: user_edited_def)
    fix n u'
    assume u': "map_of (pn_users q) n = Some u'"
    show "map_of (pn_users p) n = Some u' \<or>
        (role_rights cat p (opt (us_role u') viewer_uid) \<subseteq> granted cat p rq \<or>
         (\<exists>u. map_of (pn_users p) n = Some u \<and> us_role u = us_role u')) \<and>
        (\<forall>g\<in>set (us_groups u'). group_rights cat p g \<subseteq> granted cat p rq \<or>
         (\<exists>u. map_of (pn_users p) n = Some u \<and> g \<in> set (us_groups u)))"
    proof (cases "n = name")
      case False
      with ed u' show ?thesis by (auto simp: user_edited_def)
    next
      case True
      with ed u u' have
        "us_role u' = us_role u \<or> (\<exists>r ref. uq_role d = Some r \<and> resolve_role_uid p (opt r []) = Some ref \<and> us_role u' = Some ref)"
        "us_groups u' = us_groups u \<or> uq_groups d = Some (Some (us_groups u'))"
        by (auto simp: user_edited_def)
      with True u role group show ?thesis by (fastforce simp: opt_def)
    qed
  qed
  moreover have "panel_ok q" using ok ed by (auto simp: panel_ok_def user_edited_def)
  ultimately show ?thesis ..
qed

lemma delete_user_bounded:
  assumes ok: "panel_ok p" and q: "snd (route_delete_user cat rq name p) = q"
  shows "bounded cat X p q \<and> panel_ok q \<and>
    (map_of (pn_users p) (rq_user rq) \<noteq> None \<longrightarrow> map_of (pn_users q) (rq_user rq) \<noteq> None)"
proof (cases "q = p")
  case True
  with ok show ?thesis by simp
next
  case False
  then have eq: "q = p\<lparr>pn_users := AList.delete name (pn_users p)\<rparr>" "name \<noteq> rq_user rq"
    using q by (auto simp: route_delete_user_def refuse_def split: option.splits if_splits)
  have "bounded cat X p q"
    by (rule bounded_accounts) (auto simp: eq(1) dict_simps split: if_splits)
  with ok eq show ?thesis by (simp add: panel_ok_def dict_simps)
qed

section \<open>Any sequence of requests\<close>

text \<open>Role names typed like identifiers are left out, and a new role gets a drawn identifier.\<close>

definition plain_request :: "panel_request \<Rightarrow> bool" where
  "plain_request r =
     (case r of
        Create_role name desc perms enabled uid saved \<Rightarrow>
          is_uid uid \<and> \<not> List.member (map snd builtin_role_uids) uid \<and> \<not> is_uid (py_strip name)
      | Update_role uid d saved \<Rightarrow> (case rr_name d of None \<Rightarrow> True | Some x \<Rightarrow> \<not> is_uid (py_strip x))
      | _ \<Rightarrow> True)"

lemma step_bounded:
  assumes "panel_ok p" "\<not> is_admin_requester p rq" "plain_request r"
  shows "bounded cat (granted cat p rq) p (panel_step cat cx rq p r) \<and> panel_ok (panel_step cat cx rq p r)"
proof (cases r)
  case (Create_role name desc perms enabled uid saved)
  then have "custom_uid uid" "\<not> is_uid (py_strip name)"
    using assms(3) builtin_uid_to_key_iff [of uid] by (auto simp: plain_request_def custom_uid_def)
  with Create_role create_role_bounded [OF assms(1) _ _ assms(2) refl] show ?thesis by (simp add: panel_step_def)
next
  case (Update_role uid d saved)
  then have "case rr_name d of None \<Rightarrow> True | Some x \<Rightarrow> \<not> is_uid (py_strip x)" using assms(3) by (simp add: plain_request_def)
  with Update_role update_role_bounded [OF assms(1,2) _ refl] show ?thesis by (simp add: panel_step_def)
next
  case (Delete_role uid)
  have "snd (route_delete_role cat rq uid p) = p \<or> snd (route_delete_role cat rq uid p) = snd (delete_role uid p)"
    by (auto simp: route_delete_role_def refuse_def split: sum.splits prod.splits)
  then show ?thesis using Delete_role assms(1) delete_role_bounded [OF assms(1) refl] by (auto simp: panel_step_def)
next
  case (Delete_group uid)
  have "snd (route_delete_group cat rq uid p) = p \<or> snd (route_delete_group cat rq uid p) = snd (delete_group uid p)"
    by (auto simp: route_delete_group_def refuse_def Let_def split: sum.splits prod.splits)
  then show ?thesis using Delete_group assms(1) delete_group_bounded [OF assms(1) refl] by (auto simp: panel_step_def)
next
  case (Create_group name desc roles enabled landing uid)
  with create_group_bounded [OF assms(1,2) refl] show ?thesis by (simp add: panel_step_def)
next
  case (Update_group uid d)
  with update_group_bounded [OF assms(1,2) refl] show ?thesis by (simp add: panel_step_def)
next
  case (Create_user d uid)
  with create_user_bounded [OF assms(1,2) refl] show ?thesis by (simp add: panel_step_def)
next
  case (Update_user name d)
  with update_user_bounded [OF assms(1,2) refl] show ?thesis by (simp add: panel_step_def)
next
  case (Delete_user name)
  with delete_user_bounded [OF assms(1) refl] show ?thesis by (simp add: panel_step_def)
qed

lemma user_edited_known: "user_edited name d p q \<Longrightarrow> map_of (pn_users p) n \<noteq> None \<Longrightarrow> map_of (pn_users q) n \<noteq> None"
  by (cases "n = name") (auto simp: user_edited_def)

text \<open>Requests on roles and new groups leave the accounts alone; none removes the account that makes it.\<close>

lemma role_step_users:
  "pn_users (snd (route_create_role cat cx rq name desc perms enabled uid saved p)) = pn_users p"
  "pn_users (snd (route_update_role cat cx rq uid d saved p)) = pn_users p"
  "pn_users (snd (route_delete_role cat rq uid p)) = pn_users p"
  "pn_users (snd (route_create_group cat cx rq name desc roles enabled landing uid p)) = pn_users p"
proof -
  show "pn_users (snd (route_create_role cat cx rq name desc perms enabled uid saved p)) = pn_users p"
    by (rule create_role_cases [OF refl, of cat cx rq name desc perms enabled uid saved p]) auto
  show "pn_users (snd (route_update_role cat cx rq uid d saved p)) = pn_users p"
  proof (cases "builtin_key_for uid")
    case (Some key)
    obtain r q where r: "update_builtin_role uid key d p = (r, q)" by fastforce
    then have "pn_users q = pn_users p" using update_builtin_role_fields [of uid key d p q] by simp
    with Some r show ?thesis
      by (cases r) (simp_all add: route_update_role_def refuse_def Let_def split: prod.splits)
  next
    case None
    obtain r q where r: "update_custom_role cat uid d (cx_now cx) (cx_actor cx) p = (r, q)" by fastforce
    then have "snd (update_custom_role cat uid d (cx_now cx) (cx_actor cx) p) = q" by simp
    then have "pn_users q = pn_users p" by (cases rule: update_role_cases) auto
    with None r show ?thesis
      by (cases r) (simp_all add: route_update_role_def refuse_def Let_def)
  qed
  show "pn_users (snd (route_delete_role cat rq uid p)) = pn_users p"
    by (auto simp: route_delete_role_def delete_role_def refuse_def op_fail_def Let_def)
  show "pn_users (snd (route_create_group cat cx rq name desc roles enabled landing uid p)) = pn_users p"
    by (auto simp: route_create_group_def create_group_def refuse_def op_fail_def Let_def)
qed

lemma update_group_known:
  assumes "map_of (pn_users p) n \<noteq> None"
  shows "map_of (pn_users (snd (route_update_group cat cx rq uid d p))) n \<noteq> None"
proof (cases "snd (route_update_group cat cx rq uid d p) = p")
  case False
  then obtain g where g: "map_of (pn_groups p) uid = Some g"
    by (auto simp: route_update_group_def refuse_def split: option.splits if_splits)
  let ?q = "snd (update_group uid d (List.member builtin_group_uids uid) (cx_pages cx) (cx_now cx) (cx_actor cx) p)"
  have "snd (route_update_group cat cx rq uid d p) = ?q"
    using False g by (auto simp: route_update_group_def refuse_def Let_def split: if_splits sum.splits prod.splits)
  moreover have "pn_users ?q = pn_users p \<or> (\<exists>ms. pn_users ?q = map (set_member uid ms) (pn_users p))"
    by (rule update_group_states [OF g refl, of d "List.member builtin_group_uids uid" "cx_pages cx" "cx_now cx" "cx_actor cx"]) auto
  ultimately show ?thesis using assms by (auto simp: map_of_set_member)
qed (simp add: assms)

lemma step_known:
  assumes known: "map_of (pn_users p) (rq_user rq) \<noteq> None"
  shows "map_of (pn_users (panel_step cat cx rq p r)) (rq_user rq) \<noteq> None"
proof (cases r)
  case (Update_group uid d)
  with known update_group_known show ?thesis by (simp add: panel_step_def)
next
  case (Delete_group uid)
  with known show ?thesis
    by (auto simp: panel_step_def route_delete_group_def delete_group_def refuse_def op_fail_def Let_def map_of_map_snd)
next
  case (Create_user d uid)
  show ?thesis
  proof (cases "panel_step cat cx rq p r = p")
    case False
    let ?d = "d\<lparr>nu_role := if nu_role d = [] then default_role_uid cx p else nu_role d\<rparr>"
    have "snd (create_user cx ?d uid p) = panel_step cat cx rq p r"
      using False Create_user
      by (auto simp: panel_step_def route_create_user_def refuse_def Let_def split: if_splits sum.splits prod.splits)
    from create_user_state [OF this False] obtain u where "panel_step cat cx rq p r = put_user (py_strip (nu_name d)) u p"
      by auto
    with known show ?thesis by (simp add: dict_simps)
  qed (simp add: known)
next
  case (Update_user name d)
  show ?thesis
  proof (cases "panel_step cat cx rq p r = p")
    case False
    then have "panel_step cat cx rq p r = snd (update_user cx name d p)"
      by (auto simp: Update_user panel_step_def route_update_user_def refuse_def
          split: option.splits if_splits sum.splits prod.splits)
    then show ?thesis using user_edited_known [OF update_user_edited known] by simp
  qed (simp add: known)
next
  case (Delete_user name)
  with known show ?thesis
    by (auto simp: panel_step_def route_delete_user_def refuse_def dict_simps split: option.splits)
qed (use known in \<open>simp_all add: panel_step_def role_step_users\<close>)

section \<open>What a request holds does not grow\<close>

lemma account_permissions_alt:
  "account_permissions cat p n =
     (if is_reserved_username n then {}
      else case map_of (pn_users p) n of
             None \<Rightarrow> role_permissions cat p viewer_uid
           | Some u \<Rightarrow> {x. Some x \<in> account_rights cat p n})"
  using Some_account_rights [of p n]
  by (auto simp: account_permissions_def effective_permissions_def session_role_def user_groups_def split: option.splits)

lemma viewer_permissions: "role_permissions cat p viewer_uid = role_permissions cat q viewer_uid"
  by (simp add: role_permissions_def builtin_uid_perms_def builtin_permissions_def builtin_defs)

lemma account_permissions_bounded:
  assumes "bounded cat (Some ` S) p q" "map_of (pn_users q) n \<noteq> None"
  shows "account_permissions cat q n \<subseteq> (if map_of (pn_users p) n = None then {} else account_permissions cat p n) \<union> S"
proof -
  have b: "account_rights cat q n \<subseteq> account_rights cat p n \<union> Some ` S" using assms(1) by (simp add: bounded_def)
  show ?thesis
  proof (cases "map_of (pn_users p) n")
    case None
    then have "account_rights cat p n = {}" by (simp add: account_rights_def)
    with b None assms(2) show ?thesis by (auto simp: account_permissions_alt)
  next
    case (Some u)
    with b assms(2) show ?thesis by (auto simp: account_permissions_alt)
  qed
qed

lemma session_permissions_shrink:
  assumes b: "bounded cat (granted cat p rq) p q"
    and known: "map_of (pn_users q) (rq_user rq) = None \<Longrightarrow> map_of (pn_users p) (rq_user rq) = None"
  shows "session_permissions cat q rq \<subseteq> session_permissions cat p rq"
proof -
  let ?A = "\<lambda>p. account_permissions cat p (rq_user rq)"
  have A: "?A q \<subseteq> ?A p \<union> session_permissions cat p rq"
  proof (cases "map_of (pn_users q) (rq_user rq)")
    case None
    with known have "map_of (pn_users p) (rq_user rq) = None" by simp
    with None viewer_permissions [of cat p q] show ?thesis by (simp add: account_permissions_alt)
  next
    case Some
    with account_permissions_bounded [OF b, of "rq_user rq"] show ?thesis by (auto split: if_splits)
  qed
  show ?thesis
  proof (cases "rq_token rq")
    case None
    with A show ?thesis by (simp add: session_permissions_def)
  next
    case (Some t)
    with A show ?thesis
      by (auto simp: session_permissions_def token_effective_def split: token_flags.splits if_splits)
  qed
qed

lemma requester_stays:
  assumes b: "bounded cat (granted cat p rq) p q" and na: "\<not> is_admin_requester p rq"
    and known: "map_of (pn_users q) n \<noteq> None"
  shows "\<not> is_admin_requester q rq"
    and "is_admin_requester q \<lparr>rq_user = n, rq_token = None\<rparr> \<Longrightarrow> is_admin_requester p \<lparr>rq_user = n, rq_token = None\<rparr>"
proof -
  have person: "is_admin_requester p \<lparr>rq_user = m, rq_token = None\<rparr>"
    if q: "is_admin_requester q \<lparr>rq_user = m, rq_token = None\<rparr>" for m
  proof -
    obtain u' where u': "map_of (pn_users q) m = Some u'" using q by (auto simp: is_admin_requester_def split: option.splits)
    then have "None \<in> account_rights cat q m" using q None_account_rights by blast
    with b have "None \<in> account_rights cat p m" by (auto simp: bounded_def)
    moreover from this obtain u where "map_of (pn_users p) m = Some u" by (auto simp: account_rights_def split: option.splits)
    ultimately show ?thesis using None_account_rights by blast
  qed
  then show "is_admin_requester q \<lparr>rq_user = n, rq_token = None\<rparr> \<Longrightarrow> is_admin_requester p \<lparr>rq_user = n, rq_token = None\<rparr>" .
  have split: "is_admin_requester r rq \<longleftrightarrow>
      (case rq_token rq of Some t \<Rightarrow> tk_flags t = Tok_all | None \<Rightarrow> True)
      \<and> is_admin_requester r \<lparr>rq_user = rq_user rq, rq_token = None\<rparr>" for r
    by (simp add: is_admin_requester_def)
  show "\<not> is_admin_requester q rq" using na person [of "rq_user rq"] split [of p] split [of q] by blast
qed

section \<open>The interface of a guarded machine\<close>

definition no_gain :: "catalog \<Rightarrow> api_request \<Rightarrow> panel \<Rightarrow> panel \<Rightarrow> bool" where
  "no_gain cat rq p q \<longleftrightarrow>
     bounded cat (granted cat p rq) p q \<and> session_permissions cat q rq \<subseteq> session_permissions cat p rq"

lemma no_gain_trans: "no_gain cat rq p q \<Longrightarrow> no_gain cat rq q r \<Longrightarrow> no_gain cat rq p r"
  unfolding no_gain_def bounded_def by (blast intro: order_trans)

interpretation requests: guided_machine "panel_step cat cx rq" "\<lambda>p. panel_ok p \<and> \<not> is_admin_requester p rq"
  plain_request "no_gain cat rq" for cat cx rq
proof unfold_locales
  fix p r
  assume inv: "panel_ok p \<and> \<not> is_admin_requester p rq" and r: "plain_request r"
  let ?q = "panel_step cat cx rq p r"
  have b: "bounded cat (granted cat p rq) p ?q" "panel_ok ?q" using step_bounded inv r by blast+
  show "panel_ok ?q \<and> \<not> is_admin_requester ?q rq"
  proof (cases "map_of (pn_users ?q) (rq_user rq)")
    case None
    with b(2) show ?thesis by (simp add: is_admin_requester_def)
  next
    case Some
    with b inv requester_stays(1) [OF b(1), of "rq_user rq"] show ?thesis by simp
  qed
  show "no_gain cat rq p ?q"
    unfolding no_gain_def using b(1) session_permissions_shrink [OF b(1)] step_known by blast
next
  show "no_gain cat rq p p" for p by (simp add: no_gain_def)
  show "no_gain cat rq p q \<Longrightarrow> no_gain cat rq q r \<Longrightarrow> no_gain cat rq p r" for p q r by (rule no_gain_trans)
qed

section \<open>The result\<close>


text \<open>
  A small installation: an administrator, and a delegate whose role lets him edit groups and roles, in a group of
  his own; and a third role with more permissions.
\<close>

definition demo_catalog :: catalog where
  "demo_catalog = [(''perm_group_admin'',
     [(''groups_edit'', [''editor'']), (''roles_edit'', []), (''users_edit'', []), (''config_edit'', [''editor''])])]"

definition demo_role :: "string \<Rightarrow> string list \<Rightarrow> role" where
  "demo_role name perms = \<lparr>ro_name = name, ro_desc = [], ro_perms = perms, ro_enabled = True, ro_created = [],
     ro_updated = [], ro_by = []\<rparr>"

definition demo_user :: "string \<Rightarrow> string \<Rightarrow> string list \<Rightarrow> user" where
  "demo_user uid ref gs = \<lparr>us_uid = uid, us_hash = [], us_role = Some ref, us_display = [], us_email = [], us_lang = [],
     us_landing = [], us_dark = None, us_groups = gs, us_enabled = True, us_login = True, us_source = ''local'',
     us_locked = None, us_failed = None, us_created = [], us_updated = [], us_by = []\<rparr>"

definition demo_group :: "string \<Rightarrow> string list \<Rightarrow> group" where
  "demo_group name rs = \<lparr>gr_name = name, gr_desc = [], gr_roles = rs, gr_enabled = True, gr_landing = [], gr_created = [],
     gr_updated = [], gr_by = []\<rparr>"

definition ops_uid :: string where "ops_uid = ''11111111-1111-4111-8111-111111111111''"
definition boss_uid :: string where "boss_uid = ''22222222-2222-4222-8222-222222222222''"
definition team_uid :: string where "team_uid = ''33333333-3333-4333-8333-333333333333''"

definition demo_panel :: panel where
  "demo_panel = \<lparr>
     pn_users = [(''root'', demo_user ''u1'' admin_uid []), (''bob'', demo_user ''u2'' ops_uid [team_uid])],
     pn_roles = [(ops_uid, demo_role ''ops'' [''groups_edit'', ''roles_edit'']), (boss_uid, demo_role ''boss'' [''config_edit''])],
     pn_groups = [(team_uid, demo_group ''team'' [])],
     pn_names = [], pn_overrides = []\<rparr>"

definition demo_context :: context_args where
  "demo_context = \<lparr>cx_policy = \<lparr>pp_min = 8, pp_max = 128, pp_upper = False, pp_digit = False, pp_symbol = False\<rparr>,
     cx_hash = id, cx_default = [], cx_langs = [], cx_pages = [], cx_now = [], cx_actor = ''bob''\<rparr>"

definition bob :: api_request where "bob = \<lparr>rq_user = ''bob'', rq_token = None\<rparr>"

definition group_roles_req :: "string list \<Rightarrow> group_req" where
  "group_roles_req rs = \<lparr>gq_name = None, gq_desc = None, gq_landing = None, gq_roles = Some (Some rs), gq_members = None,
     gq_enabled = None\<rparr>"

definition rename_req :: "string \<Rightarrow> role_req" where
  "rename_req x = \<lparr>rr_name = Some x, rr_desc = None, rr_perms = None, rr_enabled = None\<rparr>"

lemmas demo_defs = demo_catalog_def demo_role_def demo_user_def demo_group_def demo_panel_def demo_context_def bob_def
  ops_uid_def boss_uid_def team_uid_def group_roles_req_def rename_req_def

lemma demo_panel_ok: "panel_ok demo_panel"
  by (simp add: panel_ok_def demo_defs dict_wf_def custom_uid_def builtin_defs is_uid_def before_eol_def Let_def is_hex_def
      is_dec_def)


text \<open>
  The condition on names is needed: the group route looks a role up under a name that reads as an
  identifier as if it were one and finds nothing to refuse, while the service resolves it by name. Somebody who may
  edit roles and groups renames a role to such a name and assigns it to a group of his own.
\<close>

lemma uuid_name_escalates:
  "''config_edit'' \<notin> session_permissions demo_catalog demo_panel bob \<and>
   ''config_edit'' \<in> session_permissions demo_catalog
     (foldl (panel_step demo_catalog demo_context bob) demo_panel
       [Update_role boss_uid (rename_req ''44444444-4444-4444-8444-444444444444'') True,
        Update_group team_uid (group_roles_req [''44444444-4444-4444-8444-444444444444''])]) bob"
  by code_simp

end
