(* ===== verification/Rbac_Admins.thy ===== *)
theory Rbac_Admins
  imports Rbac_Escalation
begin

text \<open>
  Which edits of accounts and groups keep an administrator, and which can take the last one away.
\<close>

section \<open>There is always an administrator\<close>

lemma count_admins_pos:
  "0 < count_admins us gs act \<longleftrightarrow> (\<exists>n u. (n, u) \<in> set us \<and> user_is_admin u gs \<and> (act \<longrightarrow> us_enabled u))"
  by (auto simp: count_admins_def length_greater_0_conv filter_empty_conv)

lemma two_left:
  assumes "dict_wf us" "1 < length (filter P us)"
  obtains m w where "m \<noteq> n" "(m, w) \<in> set us" "P (m, w)"
proof -
  obtain a b xs where f: "filter P us = a # b # xs"
    using assms(2) by (cases "filter P us"; cases "tl (filter P us)") auto
  then have "fst a \<noteq> fst b"
    using dict_wf_filter [OF assms(1), of P] by (simp add: dict_wf_def)
  moreover have "{a, b} \<subseteq> set (filter P us)" by (simp add: f)
  then have "a \<in> set us" "b \<in> set us" "P a" "P b" by auto
  ultimately show thesis using that [of "fst a" "snd a"] that [of "fst b" "snd b"] by (metis prod.collapse)
qed

text \<open>One account edited: an administrator is left if it still is one, or if there were two.\<close>

lemma admins_after_edit:
  assumes wf: "dict_wf us" and u: "map_of us n = Some u" and pos: "0 < count_admins us gs act"
    and ok: "user_is_admin u gs \<and> (act \<longrightarrow> us_enabled u) \<Longrightarrow>
      user_is_admin u' gs \<and> (act \<longrightarrow> us_enabled u') \<or> 1 < count_admins us gs act"
  shows "0 < count_admins (AList.update n u' us) gs act"
proof -
  let ?P = "\<lambda>u. user_is_admin u gs \<and> (act \<longrightarrow> us_enabled u)"
  have mem: "(m, w) \<in> set (AList.update n u' us)" if "m \<noteq> n" "(m, w) \<in> set us" for m w
    using that wf by (metis dict_wf_map_of dict_wf_update map_of_update)
  have new: "(n, u') \<in> set (AList.update n u' us)" using wf by (metis dict_wf_map_of dict_wf_update map_of_update)
  obtain m w where mw: "(m, w) \<in> set us" "?P w" using pos by (auto simp: count_admins_pos)
  show ?thesis
  proof (cases "m = n")
    case False
    with mem mw show ?thesis by (auto simp: count_admins_pos)
  next
    case True
    then have "w = u" using mw(1) u dict_wf_map_of [OF wf, of m w] by simp
    with mw ok consider "?P u'" | "1 < count_admins us gs act" by blast
    then show ?thesis
    proof cases
      case 1
      with new show ?thesis by (auto simp: count_admins_pos)
    next
      case 2
      then obtain k v where "k \<noteq> n" "(k, v) \<in> set us" "?P v"
        using two_left [OF wf, of "\<lambda>(n, u). ?P u" n] by (auto simp: count_admins_def)
      with mem show ?thesis by (auto simp: count_admins_pos)
    qed
  qed
qed

lemma admins_after_delete:
  assumes wf: "dict_wf us" and u: "map_of us n = Some u" and pos: "0 < count_admins us gs act"
    and ok: "user_is_admin u gs \<Longrightarrow> 1 < count_admins us gs act"
  shows "0 < count_admins (AList.delete n us) gs act"
proof -
  let ?P = "\<lambda>u. user_is_admin u gs \<and> (act \<longrightarrow> us_enabled u)"
  obtain m w where mw: "m \<noteq> n" "(m, w) \<in> set us" "?P w"
  proof (cases "user_is_admin u gs")
    case True
    then show ?thesis
      using two_left [OF wf, of "\<lambda>(n, u). ?P u" n] ok that by (auto simp: count_admins_def)
  next
    case False
    obtain m w where "(m, w) \<in> set us" "?P w" using pos by (auto simp: count_admins_pos)
    moreover from this False u have "m \<noteq> n" using dict_wf_map_of [OF wf, of m w] by auto
    ultimately show ?thesis using that by blast
  qed
  then have "(m, w) \<in> set (AList.delete n us)"
    using wf by (metis dict_wf_delete dict_wf_map_of map_of_delete)
  with mw(3) show ?thesis by (auto simp: count_admins_pos)
qed

lemma user_is_admin_groups:
  assumes "\<And>k. k \<in> set (us_groups u) \<Longrightarrow> map_of gs k = map_of gs' k"
  shows "user_is_admin u gs = user_is_admin u gs'"
  using assms by (auto simp: user_is_admin_def list_ex_iff)

text \<open>Whether the operation ended, and what it left: the panel as it was, or with the account edited.\<close>

lemma on_user_state:
  assumes "map_of (pn_users p) name = Some u" "f u = (r, u')"
  shows "on_user name f p = (r, put_user name u' p)"
  using assms by (simp add: on_user_def)

lemma set_role_keeps:
  assumes ok: "dict_wf (pn_users p)" and pos: "0 < count_admins (pn_users p) (pn_groups p) False"
  shows "0 < count_admins (pn_users (snd (set_role cx name r p))) (pn_groups p) False"
proof (cases "map_of (pn_users p) name")
  case None
  with pos show ?thesis by (simp add: set_role_def on_user_def)
next
  case (Some u)
  let ?f = "\<lambda>u. case resolve_role_uid p r of
       None \<Rightarrow> (Inl (Op_error ''invalid_role'' []), u)
     | Some ref \<Rightarrow> if demotes_last p u ref then (Inl (Op_error ''must_have_admin'' []), u)
         else (Inr ref, stamped cx (u\<lparr>us_role := Some ref\<rparr>))"
  obtain res u' where f: "?f u = (res, u')" by fastforce
  have "0 < count_admins (AList.update name u' (pn_users p)) (pn_groups p) False"
  proof (rule admins_after_edit [OF ok Some pos])
    assume "user_is_admin u (pn_groups p) \<and> (False \<longrightarrow> us_enabled u)"
    with f show "user_is_admin u' (pn_groups p) \<and> (False \<longrightarrow> us_enabled u') \<or>
        1 < count_admins (pn_users p) (pn_groups p) False"
      by (auto simp: demotes_last_def stamped_def user_is_admin_def split: option.splits if_splits)
  qed
  then show ?thesis using on_user_state [where f = ?f, OF Some] f by (simp add: set_role_def)
qed

lemma set_enabled_keeps:
  assumes ok: "dict_wf (pn_users p)" and pos: "0 < count_admins (pn_users p) (pn_groups p) True"
  shows "0 < count_admins (pn_users (snd (set_enabled cx name b p))) (pn_groups p) True"
proof (cases "map_of (pn_users p) name")
  case None
  with pos show ?thesis by (simp add: set_enabled_def on_user_def)
next
  case (Some u)
  let ?f = "\<lambda>u. if us_enabled u = b then (Inr False, u)
       else if disables_last p u b then (Inl (Op_error ''cannot_disable_last_admin'' []), u)
       else (Inr True, stamped cx (u\<lparr>us_enabled := b\<rparr>))"
  obtain res u' where f: "?f u = (res, u')" by fastforce
  have "0 < count_admins (AList.update name u' (pn_users p)) (pn_groups p) True"
  proof (rule admins_after_edit [OF ok Some pos])
    assume "user_is_admin u (pn_groups p) \<and> (True \<longrightarrow> us_enabled u)"
    with f show "user_is_admin u' (pn_groups p) \<and> (True \<longrightarrow> us_enabled u') \<or>
        1 < count_admins (pn_users p) (pn_groups p) True"
      by (auto simp: disables_last_def stamped_def user_is_admin_def split: if_splits)
  qed
  then show ?thesis using on_user_state [where f = ?f, OF Some] f by (simp add: set_enabled_def)
qed

lemma delete_user_keeps:
  assumes ok: "dict_wf (pn_users p)" and pos: "0 < count_admins (pn_users p) (pn_groups p) False"
  shows "0 < count_admins (pn_users (snd (route_delete_user cat rq name p))) (pn_groups p) False"
proof (cases "snd (route_delete_user cat rq name p) = p")
  case False
  then obtain u where u: "map_of (pn_users p) name = Some u"
    "user_is_admin u (pn_groups p) \<Longrightarrow> 1 < count_admins (pn_users p) (pn_groups p) False"
    "pn_users (snd (route_delete_user cat rq name p)) = AList.delete name (pn_users p)"
    by (auto simp: route_delete_user_def refuse_def split: option.splits if_splits)
  with admins_after_delete [OF ok u(1) pos u(2)] show ?thesis by simp
qed (simp add: pos)

lemma delete_group_keeps:
  assumes pos: "0 < count_admins (pn_users p) (pn_groups p) False"
  shows "0 < count_admins (pn_users (snd (route_delete_group cat rq uid p)))
           (pn_groups (snd (route_delete_group cat rq uid p))) False"
proof (cases "snd (route_delete_group cat rq uid p) = p")
  case False
  let ?strip = "\<lambda>u. u\<lparr>us_groups := filter (\<lambda>g. g \<noteq> uid) (us_groups u)\<rparr>"
  obtain g where g: "map_of (pn_groups p) uid = Some g"
    using False by (auto simp: route_delete_group_def delete_group_def refuse_def op_fail_def Let_def split: if_splits)
  have guard: "carries_admin p g \<Longrightarrow> 0 < count_admins (pn_users p) (AList.delete uid (pn_groups p)) False"
    and eq: "pn_users (snd (route_delete_group cat rq uid p)) = map (\<lambda>(n, u). (n, ?strip u)) (pn_users p)"
      "pn_groups (snd (route_delete_group cat rq uid p)) = AList.delete uid (pn_groups p)"
    using False g by (auto simp: route_delete_group_def delete_group_def refuse_def op_fail_def Let_def split: if_splits)
  have strip: "user_is_admin (?strip u) (AList.delete uid (pn_groups p)) = user_is_admin u (AList.delete uid (pn_groups p))" for u
    by (auto simp: user_is_admin_def list_ex_iff dict_simps split: if_splits)
  have "0 < count_admins (pn_users p) (AList.delete uid (pn_groups p)) False"
  proof (cases "carries_admin p g")
    case False
    then have "admin_uid \<notin> set (gr_roles g)" by (auto simp: carries_admin_def list_ex_iff is_admin_role_def builtin_defs)
    then have "user_is_admin u (pn_groups p) \<Longrightarrow> user_is_admin u (AList.delete uid (pn_groups p))" for u
      using g by (auto simp: user_is_admin_def list_ex_iff dict_simps split: option.splits if_splits)
    with pos show ?thesis by (auto simp: count_admins_pos)
  qed (rule guard)
  then obtain n u where "(n, u) \<in> set (pn_users p)" "user_is_admin u (AList.delete uid (pn_groups p))"
    by (auto simp: count_admins_pos)
  with strip show ?thesis unfolding eq count_admins_pos by force
qed (simp add: pos)

lemma op_seq_inv:
  assumes "\<And>f p. f \<in> set fs \<Longrightarrow> P p \<Longrightarrow> P (snd (f p))" "P p"
  shows "P (snd (op_seq fs p))"
  using assms
proof (induction fs arbitrary: p)
  case (Cons f fs)
  obtain r q where f: "f p = (r, q)" by fastforce
  with Cons.prems have "P q" by (metis list.set_intros(1) snd_conv)
  then have "P (snd (op_seq fs q))" by (intro Cons.IH) (simp_all add: Cons.prems)
  with f \<open>P q\<close> show ?case by (cases r) (auto split: prod.splits sum.splits)
qed simp

definition has_admin :: "(string, group) dict \<Rightarrow> panel \<Rightarrow> bool" where
  "has_admin gs p \<longleftrightarrow> dict_wf (pn_users p) \<and> pn_groups p = gs \<and> 0 < count_admins (pn_users p) gs False"

text \<open>An edit of one account keeps an administrator if the account stays one, or the guard counted two.\<close>

lemma on_user_has_admin:
  assumes h: "has_admin gs p"
    and f: "\<And>u. map_of (pn_users p) name = Some u \<Longrightarrow> user_is_admin u gs \<Longrightarrow>
      user_is_admin (snd (f u)) gs \<or> 1 < count_admins (pn_users p) gs False"
  shows "has_admin gs (snd (on_user name f p))"
proof (cases "map_of (pn_users p) name")
  case None
  with h show ?thesis by (simp add: on_user_def)
next
  case (Some u)
  then have "0 < count_admins (AList.update name (snd (f u)) (pn_users p)) gs False"
    using h f by (intro admins_after_edit) (auto simp: has_admin_def)
  with h Some show ?thesis by (auto simp: on_user_def has_admin_def split: prod.splits)
qed

lemma update_user_keeps:
  assumes h: "has_admin gs p" and d: "uq_groups d = None"
  shows "has_admin gs (snd (update_user cx name d p))"
  unfolding update_user_def
proof (rule op_seq_inv [where P = "has_admin gs", OF _ h])
  fix f p
  assume f: "f \<in> set [\<lambda>p. on_user name (upd_role p d) p, on_user name (upd_profile cx d name), on_user name (upd_screen cx d),
      \<lambda>p. on_user name (upd_groups p d) p, \<lambda>p. on_user name (upd_access p cx d) p]" and p: "has_admin gs p"
  have same: "user_is_admin u' gs = user_is_admin u gs" if "us_role u' = us_role u" "us_groups u' = us_groups u" for u u'
    using that by (simp add: user_is_admin_def)
  have "has_admin gs (snd (on_user name (upd_role p d) p))"
  proof (rule on_user_has_admin [OF p])
    fix u assume "user_is_admin u gs"
    with p show "user_is_admin (snd (upd_role p d u)) gs \<or> 1 < count_admins (pn_users p) gs False"
      by (auto simp: upd_role_def demotes_last_def has_admin_def split: option.splits)
  qed
  moreover have prof: "us_role (snd (upd_profile cx d name u)) = us_role u" "us_groups (snd (upd_profile cx d name u)) = us_groups u" for u
    by (auto simp: upd_profile_def Let_def split: option.splits)
  have "has_admin gs (snd (on_user name (upd_profile cx d name) p))"
    by (rule on_user_has_admin [OF p]) (simp add: same [OF prof])
  moreover have scr: "us_role (snd (upd_screen cx d u)) = us_role u" "us_groups (snd (upd_screen cx d u)) = us_groups u" for u
    by (auto simp: upd_screen_def Let_def)
  have "has_admin gs (snd (on_user name (upd_screen cx d) p))"
    by (rule on_user_has_admin [OF p]) (simp add: same [OF scr])
  moreover have "has_admin gs (snd (on_user name (upd_groups p d) p))"
    by (rule on_user_has_admin [OF p]) (simp add: upd_groups_def d)
  moreover have acc: "us_role (snd (upd_access p cx d u)) = us_role u" "us_groups (snd (upd_access p cx d u)) = us_groups u" for u
    by (auto simp: upd_access_def stamped_def Let_def)
  have "has_admin gs (snd (on_user name (upd_access p cx d) p))"
    by (rule on_user_has_admin [OF p]) (simp add: same [OF acc])
  ultimately show "has_admin gs (snd (f p))" using f by auto
qed

text \<open>C2.
  The installation is not left without an administrator, counted by role or through a group, by any of these:
  changing an account's role, editing an account in anything but its groups (also where the edit stops half
  way), deleting an account, deleting a group. Switching accounts off leaves one that is on.\<close>

theorem administrators_kept:
  assumes "dict_wf (pn_users p)" "0 < count_admins (pn_users p) (pn_groups p) False"
  shows "0 < count_admins (pn_users (snd (set_role cx name r p))) (pn_groups p) False
    \<and> (uq_groups d = None \<longrightarrow> 0 < count_admins (pn_users (snd (update_user cx name d p))) (pn_groups p) False)
    \<and> 0 < count_admins (pn_users (snd (route_delete_user cat rq name p))) (pn_groups p) False
    \<and> (let q = snd (route_delete_group cat rq uid p) in 0 < count_admins (pn_users q) (pn_groups q) False)
    \<and> (0 < count_admins (pn_users p) (pn_groups p) True \<longrightarrow>
         0 < count_admins (pn_users (snd (set_enabled cx name b p))) (pn_groups p) True)"
proof -
  have "has_admin (pn_groups p) p" using assms by (simp add: has_admin_def)
  then have "uq_groups d = None \<longrightarrow> 0 < count_admins (pn_users (snd (update_user cx name d p))) (pn_groups p) False"
    using update_user_keeps by (metis has_admin_def)
  then show ?thesis
    using set_role_keeps delete_user_keeps delete_group_keeps set_enabled_keeps assms by (simp add: Let_def)
qed

theorem administrators_kept_witness:
  "0 < count_admins (pn_users (snd (set_role demo_context ''root'' ''viewer'' demo_panel))) (pn_groups demo_panel) False"
proof -
  have "dict_wf (pn_users demo_panel)" "0 < count_admins (pn_users demo_panel) (pn_groups demo_panel) False"
    by (simp_all add: demo_defs dict_wf_def count_admins_def user_is_admin_def opt_def)
  from administrators_kept [OF this] show ?thesis by blast
qed

text \<open>
  The edit of an account's groups has no such guard, nor has the edit of a group's roles: an administrator who is
  one through a group can be taken out of it, and the group can lose the role, when nobody else is left.
\<close>

definition last_admin_panel :: panel where
  "last_admin_panel = demo_panel\<lparr>
     pn_users := [(''ann'', demo_user ''u3'' none_uid [team_uid])],
     pn_groups := [(team_uid, demo_group ''admins'' [admin_uid])]\<rparr>"

definition no_groups_req :: user_req where
  "no_groups_req = \<lparr>uq_role = None, uq_display = None, uq_password = None, uq_email = None, uq_lang = None,
     uq_landing = None, uq_dark = None, uq_groups = Some (Some []), uq_login = None, uq_enabled = None\<rparr>"

lemma last_admin_lost_through_groups:
  "count_admins (pn_users last_admin_panel) (pn_groups last_admin_panel) False = 1 \<and>
   (let q = snd (update_user demo_context ''ann'' no_groups_req last_admin_panel)
    in count_admins (pn_users q) (pn_groups q) False = 0) \<and>
   (let q = snd (update_group team_uid (group_roles_req []) False [] [] [] last_admin_panel)
    in count_admins (pn_users q) (pn_groups q) False = 0)"
  by code_simp

text \<open>An edit that fails late leaves in memory what it changed before: the role is changed although the answer is an error.\<close>

definition half_req :: user_req where
  "half_req = no_groups_req\<lparr>uq_role := Some (Some ''viewer''), uq_groups := Some (Some [''nowhere''])\<rparr>"

lemma failed_edit_changes_role:
  "fst (fst (handle demo_catalog demo_context \<lparr>rq_user = ''root'', rq_token = None\<rparr> (Update_user ''bob'' half_req) demo_panel)) = 400 \<and>
   map_option us_role (map_of (pn_users (panel_step demo_catalog demo_context \<lparr>rq_user = ''root'', rq_token = None\<rparr> demo_panel
     (Update_user ''bob'' half_req))) ''bob'') = Some (Some viewer_uid)"
  by code_simp

end
