(* ===== verification/Rbac_Roles.thy ===== *)
theory Rbac_Roles
  imports Rbac_Admins
begin

text \<open>
  The table of roles under any requests: names are told apart, a custom role is never taken for a built-in
  one, and only permissions of the catalogue are stored.
\<close>

section \<open>Names of roles\<close>

text \<open>The name a role goes by, in lower case: a built-in one's display name, a custom one's own.\<close>

definition shown_name :: "panel \<Rightarrow> string \<Rightarrow> string option" where
  "shown_name p uid =
     (case builtin_uid_to_key uid of
        Some key \<Rightarrow> Some (py_lower (dget (pn_names p) key (role_title key)))
      | None \<Rightarrow> map_option (\<lambda>r. py_lower (ro_name r)) (map_of (pn_roles p) uid))"

definition role_row_ok :: "catalog \<Rightarrow> role \<Rightarrow> bool" where
  "role_row_ok cat r \<longleftrightarrow> ro_name r \<noteq> [] \<and> length (ro_name r) \<le> max_label
     \<and> \<not> List.member role_keys (py_lower (ro_name r)) \<and> list_all (is_valid_perm cat) (ro_perms r)"

definition role_table_ok :: "catalog \<Rightarrow> panel \<Rightarrow> bool" where
  "role_table_ok cat p \<longleftrightarrow>
     dict_wf (pn_roles p)
     \<and> (\<forall>uid uid' x. shown_name p uid = Some x \<and> shown_name p uid' = Some x \<longrightarrow> uid = uid')
     \<and> (\<forall>uid r. map_of (pn_roles p) uid = Some r \<longrightarrow> role_row_ok cat r)"

lemma builtin_key_for_uid: "builtin_key_for uid = Some key \<Longrightarrow> builtin_uid_to_key uid = Some key \<and> map_of builtin_role_uids key = Some uid"
  by (auto simp: builtin_key_for_def builtin_defs split: if_splits)

lemma builtin_key_for_none: "builtin_key_for uid = None \<Longrightarrow> builtin_uid_to_key uid = None"
  by (auto simp: builtin_key_for_def builtin_defs split: if_splits)

lemma shown_builtin_key: "builtin_uid_to_key uid = Some key \<Longrightarrow> map_of builtin_role_uids key = Some uid \<and> key \<in> set role_keys"
  by (auto simp: builtin_defs role_keys_def split: if_splits)

text \<open>A name that is free is nobody else's, and not a key.\<close>

lemma name_free:
  assumes "\<not> role_name_taken p name exclude" "shown_name p uid = Some x" "Some uid \<noteq> exclude"
  shows "x \<noteq> py_lower name"
proof (cases "builtin_uid_to_key uid")
  case (Some key)
  note k = shown_builtin_key [OF Some]
  have "\<not> (map_of builtin_role_uids key \<noteq> exclude \<and> py_lower (dget (pn_names p) key (role_title key)) = py_lower name)"
    using assms(1) k by (auto simp: role_name_taken_def Let_def list_ex_iff)
  with k assms(2,3) Some show ?thesis by (auto simp: shown_name_def)
next
  case None
  then obtain r where r: "map_of (pn_roles p) uid = Some r" "x = py_lower (ro_name r)"
    using assms(2) by (auto simp: shown_name_def)
  then have "(uid, r) \<in> set (pn_roles p)" by (auto dest: map_of_SomeD)
  with assms(1,3) r show ?thesis by (auto simp: role_name_taken_def Let_def list_ex_iff)
qed

lemma name_not_key: "\<not> role_name_taken p name exclude \<Longrightarrow> \<not> List.member role_keys (py_lower name)"
  by (simp add: role_name_taken_def Let_def)

lemma shown_put:
  "shown_name (put_role uid r p) k =
     (if k = uid \<and> builtin_uid_to_key uid = None then Some (py_lower (ro_name r)) else shown_name p k)"
  by (auto simp: shown_name_def put_role_def dict_simps split: option.splits)

text \<open>Writing a row keeps the table if its name is as before or free.\<close>

lemma put_role_table:
  assumes t: "role_table_ok cat p" and r: "role_row_ok cat r"
    and name: "(\<exists>old. map_of (pn_roles p) uid = Some old \<and> ro_name r = ro_name old)
      \<or> \<not> role_name_taken p (ro_name r) (Some uid) \<or> \<not> role_name_taken p (ro_name r) None"
  shows "role_table_ok cat (put_role uid r p)"
proof -
  have other: "x \<noteq> py_lower (ro_name r)" if "shown_name p k = Some x" "k \<noteq> uid" "builtin_uid_to_key uid = None" for k x
    using name
  proof (elim disjE exE conjE)
    fix old assume "map_of (pn_roles p) uid = Some old" "ro_name r = ro_name old"
    with that(3) have "shown_name p uid = Some (py_lower (ro_name r))" by (simp add: shown_name_def)
    with t that(1,2) show ?thesis unfolding role_table_ok_def by blast
  next
    assume "\<not> role_name_taken p (ro_name r) (Some uid)"
    from name_free [OF this that(1)] that(2) show ?thesis by simp
  next
    assume "\<not> role_name_taken p (ro_name r) None"
    from name_free [OF this that(1)] show ?thesis by simp
  qed
  have inj: "a = b" if "shown_name (put_role uid r p) a = Some x" "shown_name (put_role uid r p) b = Some x" for a b x
    using that other [of a x] other [of b x] t
    by (auto simp: shown_put role_table_ok_def split: if_splits)
  with t r show ?thesis by (auto simp: role_table_ok_def dict_simps split: if_splits)
qed

lemma shown_same: "pn_roles q = pn_roles p \<Longrightarrow> pn_names q = pn_names p \<Longrightarrow> shown_name q = shown_name p"
  by (rule ext) (simp only: shown_name_def)

lemma table_same:
  assumes "pn_roles q = pn_roles p" "pn_names q = pn_names p"
  shows "role_table_ok cat q = role_table_ok cat p"
  unfolding role_table_ok_def shown_same [OF assms] assms(1) ..

lemma drop_role_table:
  assumes "role_table_ok cat p" "pn_roles q = AList.delete uid (pn_roles p)" "pn_names q = pn_names p"
  shows "role_table_ok cat q"
proof -
  have "shown_name q k = Some x \<Longrightarrow> shown_name p k = Some x" for k x
    using assms by (auto simp: shown_name_def dict_simps split: option.splits if_splits)
  then show ?thesis using assms unfolding role_table_ok_def by (auto simp: dict_simps split: if_splits)
qed

lemma put_names [simp]: "pn_names (put_role k r p) = pn_names p" "pn_names (put_user n u p) = pn_names p"
    "pn_names (put_group k g p) = pn_names p"
  by (simp_all add: put_role_def put_user_def put_group_def)

section \<open>Each request\<close>

lemma create_role_table:
  assumes t: "role_table_ok cat p" and q: "snd (create_role cat name desc perms enabled uid ts actor p) = q"
  shows "role_table_ok cat q"
proof (cases "q = p")
  case False
  let ?r = "\<lparr>ro_name = py_strip name, ro_desc = py_strip desc, ro_perms = filter_valid_permissions cat perms,
    ro_enabled = enabled, ro_created = ts, ro_updated = ts, ro_by = actor\<rparr>"
  have "py_strip name \<noteq> []" "length (py_strip name) \<le> max_label" "\<not> role_name_taken p (py_strip name) None"
    and eq: "q = put_role uid ?r p"
    using False q by (auto simp: create_role_def op_fail_def Let_def split: if_splits)
  then have "role_row_ok cat ?r"
    using name_not_key by (auto simp: role_row_ok_def filter_valid_permissions_def list_all_iff)
  then show ?thesis unfolding eq by (rule put_role_table [OF t]) (simp add: \<open>\<not> role_name_taken p (py_strip name) None\<close>)
qed (simp add: t)

lemma update_custom_role_table:
  assumes t: "role_table_ok cat p" and q: "snd (update_custom_role cat uid d ts actor p) = q"
  shows "role_table_ok cat q"
  using q
proof (cases rule: update_role_cases)
  case (2 r r')
  have ne: "q \<noteq> p \<Longrightarrow> case rr_name d of None \<Rightarrow> True
      | Some x \<Rightarrow> py_strip x \<noteq> [] \<and> length (py_strip x) \<le> max_label \<and> \<not> role_name_taken p (py_strip x) (Some uid)"
    using q 2(1) by (auto simp: update_custom_role_def op_fail_def Let_def split: option.splits if_splits)
  have row: "role_row_ok cat r" using t 2(1) by (simp add: role_table_ok_def)
  show ?thesis
  proof (cases "q = p")
    case False
    note n = ne [OF False]
    have "role_row_ok cat r'"
      using row n 2(3,4) name_not_key
      by (auto simp: role_row_ok_def filter_valid_permissions_def list_all_iff split: option.splits)
    then show ?thesis unfolding 2(2)
      using n 2(1,3) by (intro put_role_table [OF t]) (auto split: option.splits)
  qed (simp add: t)
qed (simp add: t)

lemma update_builtin_role_table:
  assumes t: "role_table_ok cat p" and key: "builtin_key_for uid = Some key"
    and q: "snd (update_builtin_role uid key d p) = q"
  shows "role_table_ok cat q"
proof -
  note k = builtin_key_for_uid [OF key]
  have roles: "pn_roles q = pn_roles p" using update_builtin_role_fields [OF q] by simp
  obtain new where names: "pn_names q = pn_names p \<or> pn_names q = AList.update key new (pn_names p)
      \<and> \<not> role_name_taken p new (Some uid)"
  proof (cases "pn_names q = pn_names p")
    case False
    let ?p = "\<lambda>o1. p\<lparr>pn_overrides := o1\<rparr>"
    have taken: "role_name_taken (?p o1) n ex = role_name_taken p n ex" for o1 n ex by (simp add: role_name_taken_def)
    show ?thesis
    proof (rule that)
      let ?new = "case rr_name d of None \<Rightarrow> [] | Some x \<Rightarrow> if py_strip x = [] then role_title key else py_strip x"
      show "pn_names q = pn_names p \<or> pn_names q = AList.update key ?new (pn_names p) \<and> \<not> role_name_taken p ?new (Some uid)"
        using False q by (auto simp: update_builtin_role_def op_fail_def Let_def taken split: option.splits if_splits prod.splits)
    qed
  qed blast
  show ?thesis
  proof (cases "pn_names q = pn_names p")
    case True
    with roles t show ?thesis using table_same by blast
  next
    case False
    then have q': "pn_names q = AList.update key new (pn_names p)" "\<not> role_name_taken p new (Some uid)" using names by auto
    have sh: "shown_name q a = (if a = uid then Some (py_lower new) else shown_name p a)" for a
    proof (cases "builtin_uid_to_key a")
      case None
      with k show ?thesis by (auto simp: shown_name_def roles)
    next
      case (Some ka)
      have "a = uid \<longleftrightarrow> ka = key" using shown_builtin_key [OF Some] k Some by auto
      with Some k show ?thesis by (auto simp: shown_name_def roles q'(1) dict_simps)
    qed
    have "a = b" if "shown_name q a = Some x" "shown_name q b = Some x" for a b x
      using that t name_free [OF q'(2), of a x] name_free [OF q'(2), of b x]
      by (auto simp: sh role_table_ok_def split: if_splits)
    with t roles show ?thesis by (auto simp: role_table_ok_def)
  qed
qed


definition same_roles :: "panel \<Rightarrow> panel \<Rightarrow> bool" where
  "same_roles p q \<longleftrightarrow> pn_roles q = pn_roles p \<and> pn_names q = pn_names p"

lemma same_roles_table: "same_roles p q \<Longrightarrow> role_table_ok cat p \<Longrightarrow> role_table_ok cat q"
  using table_same [of q p cat] by (simp add: same_roles_def)

lemma same_roles_on: "same_roles p (snd (on_user n f p))" "same_roles p (snd (on_group g h p))"
  by (auto simp: same_roles_def on_user_def on_group_def split: option.splits prod.splits)

lemma same_roles_seq:
  assumes "\<And>f p. f \<in> set fs \<Longrightarrow> same_roles p (snd (f p))"
  shows "same_roles p (snd (op_seq fs p))"
proof (rule op_seq_inv [where P = "same_roles p"])
  show "f \<in> set fs \<Longrightarrow> same_roles p q \<Longrightarrow> same_roles p (snd (f q))" for f q
    using assms [of f q] by (simp add: same_roles_def)
qed (simp add: same_roles_def)

lemma update_user_same: "same_roles p (snd (update_user cx name d p))"
  unfolding update_user_def by (rule same_roles_seq) (auto simp: same_roles_on)

lemma update_group_same: "same_roles p (snd (update_group uid d b pages ts actor p))"
proof -
  have "same_roles p (snd (upd_group_members uid d p))" for p
    by (auto simp: same_roles_def upd_group_members_def op_fail_def Let_def split: option.splits)
  then show ?thesis unfolding update_group_def by (intro same_roles_seq) (auto simp: same_roles_on)
qed

lemma create_user_same: "same_roles p (snd (create_user cx d uid p))"
proof (cases "snd (create_user cx d uid p) = p")
  case False
  from create_user_state [OF refl this] obtain u where "snd (create_user cx d uid p) = put_user (py_strip (nu_name d)) u p"
    by blast
  then show ?thesis by (simp add: same_roles_def)
qed (simp add: same_roles_def)

lemma panel_step_same:
  assumes "\<And>n ds ps e uid sv. r \<noteq> Create_role n ds ps e uid sv" "\<And>uid d sv. r \<noteq> Update_role uid d sv" "\<And>uid. r \<noteq> Delete_role uid"
  shows "same_roles p (panel_step cat cx rq p r)"
proof (cases r)
  case (Create_group name desc roles enabled landing uid)
  then show ?thesis
    by (auto simp: panel_step_def same_roles_def route_create_group_def create_group_def refuse_def op_fail_def Let_def)
next
  case (Update_group uid d)
  obtain res q where u: "update_group uid d (List.member builtin_group_uids uid) (cx_pages cx) (cx_now cx) (cx_actor cx) p = (res, q)"
    by fastforce
  then have "same_roles p q" using update_group_same by (metis snd_conv)
  with u Update_group show ?thesis
    by (cases res) (auto simp: panel_step_def route_update_group_def refuse_def Let_def same_roles_def split: option.splits)
next
  case (Delete_group uid)
  then show ?thesis
    by (auto simp: panel_step_def same_roles_def route_delete_group_def delete_group_def refuse_def op_fail_def Let_def)
next
  case (Create_user d uid)
  let ?d = "d\<lparr>nu_role := if nu_role d = [] then default_role_uid cx p else nu_role d\<rparr>"
  obtain res q where u: "create_user cx ?d uid p = (res, q)" by fastforce
  then have "same_roles p q" using create_user_same [of p cx ?d uid] by simp
  with u Create_user show ?thesis
    by (cases res) (auto simp: panel_step_def route_create_user_def refuse_def Let_def same_roles_def)
next
  case (Update_user name d)
  obtain res q where u: "update_user cx name d p = (res, q)" by fastforce
  then have "same_roles p q" using update_user_same [of p cx name d] by simp
  with u Update_user show ?thesis
    by (cases res) (auto simp: panel_step_def route_update_user_def refuse_def same_roles_def split: option.splits)
next
  case (Delete_user name)
  then show ?thesis
    by (auto simp: panel_step_def same_roles_def route_delete_user_def refuse_def split: option.splits)
qed (use assms in blast)+

lemma panel_step_table:
  assumes t: "role_table_ok cat p"
  shows "role_table_ok cat (panel_step cat cx rq p r)"
proof (cases r)
  case (Create_role name desc perms enabled uid saved)
  let ?perms = "filter_valid_permissions cat perms"
  obtain res q where u: "create_role cat name desc ?perms enabled uid (cx_now cx) (cx_actor cx) p = (res, q)" by fastforce
  have q: "role_table_ok cat q" by (rule create_role_table [OF t, of name desc ?perms enabled uid "cx_now cx" "cx_actor cx"]) (use u in simp)
  then have d: "role_table_ok cat (q\<lparr>pn_roles := AList.delete k (pn_roles q)\<rparr>)" for k by (rule drop_role_table) simp_all
  show ?thesis using u q d t Create_role
    by (cases res) (auto simp: panel_step_def route_create_role_def refuse_def)
next
  case (Update_role uid d saved)
  show ?thesis
  proof (cases "builtin_key_for uid")
    case (Some key)
    obtain res q where u: "update_builtin_role uid key d p = (res, q)" by fastforce
    have "role_table_ok cat q" by (rule update_builtin_role_table [OF t Some, of d]) (use u in simp)
    with u t Some Update_role show ?thesis
      by (cases res) (auto simp: panel_step_def route_update_role_def refuse_def Let_def split: prod.splits)
  next
    case None
    obtain res q where u: "update_custom_role cat uid d (cx_now cx) (cx_actor cx) p = (res, q)" by fastforce
    have "role_table_ok cat q" by (rule update_custom_role_table [OF t, of uid d "cx_now cx" "cx_actor cx"]) (use u in simp)
    with u t None Update_role show ?thesis
      by (cases res) (auto simp: panel_step_def route_update_role_def refuse_def Let_def)
  qed
next
  case (Delete_role uid)
  have "role_table_ok cat (snd (delete_role uid p))"
  proof (cases "snd (delete_role uid p) = p")
    case False
    then have "pn_roles (snd (delete_role uid p)) = AList.delete uid (pn_roles p)"
      "pn_names (snd (delete_role uid p)) = pn_names p"
      by (auto simp: delete_role_def op_fail_def Let_def split: if_splits)
    with t show ?thesis by (rule drop_role_table)
  qed (simp add: t)
  with t Delete_role show ?thesis
    by (auto simp: panel_step_def route_delete_role_def refuse_def split: sum.splits prod.splits)
qed (use t panel_step_same same_roles_table in blast)+

interpretation role_table: machine "panel_step cat cx rq" "role_table_ok cat" for cat cx rq
  by unfold_locales (rule panel_step_table)

text \<open>C28.
  Whatever requests anybody sends, two roles never go by the same name (compared without case, built-in
  display names included), no custom role has the name of a built-in key, and the permissions stored in
  a custom role are all known ones; the limits of a name hold.\<close>

theorem role_table_stays:
  assumes "role_table_ok cat p" "q = foldl (panel_step cat cx rq) p rs"
  shows "(\<forall>uid uid' x. shown_name q uid = Some x \<and> shown_name q uid' = Some x \<longrightarrow> uid = uid')
    \<and> (\<forall>uid r. map_of (pn_roles q) uid = Some r \<longrightarrow>
         ro_name r \<noteq> [] \<and> length (ro_name r) \<le> max_label \<and> \<not> List.member role_keys (py_lower (ro_name r))
         \<and> (builtin_uid_to_key uid = None \<longrightarrow> role_permissions cat q uid \<subseteq> {x. is_valid_perm cat x}))"
proof -
  have q: "role_table_ok cat q" using role_table.run_inv [OF assms(1)] assms(2) by simp
  have "role_permissions cat q uid \<subseteq> {x. is_valid_perm cat x}" if "builtin_uid_to_key uid = None"
      "map_of (pn_roles q) uid = Some r" for uid r
  proof (cases "builtin_permissions cat uid")
    case None
    with that show ?thesis
      by (auto simp: role_permissions_def builtin_uid_perms_def filter_valid_permissions_def split: if_splits)
  next
    case (Some ps)
    have "f \<in> set (permissions cat)" if "f \<in> set ps" for f
      using that Some by (auto simp: builtin_permissions_def permissions_def discovered_grants_def core_permissions_def
          core_editor_def core_viewer_def split: if_splits) force+
    with Some that show ?thesis
      by (auto simp: role_permissions_def builtin_uid_perms_def is_valid_perm_def)
  qed
  with q show ?thesis by (auto simp: role_table_ok_def role_row_ok_def)
qed


lemma demo_lower:
  "py_lower ''Admin'' = ''admin''" "py_lower ''Editor'' = ''editor''" "py_lower ''Viewer'' = ''viewer''"
  "py_lower ''None'' = ''none''" "py_lower ''ops'' = ''ops''" "py_lower ''boss'' = ''boss''"
  by code_simp+

theorem role_table_stays_witness:
  "shown_name (foldl (panel_step demo_catalog demo_context bob) demo_panel [Update_role boss_uid (rename_req ''OPS'') True]) ops_uid
   \<noteq> shown_name (foldl (panel_step demo_catalog demo_context bob) demo_panel [Update_role boss_uid (rename_req ''OPS'') True]) boss_uid"
proof
  let ?q = "foldl (panel_step demo_catalog demo_context bob) demo_panel [Update_role boss_uid (rename_req ''OPS'') True]"
  have shown: "shown_name demo_panel uid =
      (if uid = admin_uid then Some ''admin'' else if uid = uid_prefix @ ''8003-000000000002'' then Some ''editor''
       else if uid = viewer_uid then Some ''viewer'' else if uid = none_uid then Some ''none''
       else if uid = ops_uid then Some ''ops'' else if uid = boss_uid then Some ''boss'' else None)" for uid
    by (simp add: shown_name_def builtin_defs demo_defs dget_def role_title_def demo_lower)
  have "role_table_ok demo_catalog demo_panel"
    unfolding role_table_ok_def
  proof (intro conjI allI impI)
    show "dict_wf (pn_roles demo_panel)" by (simp add: demo_defs dict_wf_def)
    show "a = b" if "shown_name demo_panel a = Some x \<and> shown_name demo_panel b = Some x" for a b x
      using that unfolding shown by (auto split: if_splits)
    show "role_row_ok demo_catalog r" if "map_of (pn_roles demo_panel) uid = Some r" for uid r
      using that by (auto simp: demo_defs role_row_ok_def max_label_def role_keys_def demo_lower
          is_valid_perm_def permissions_def core_permissions_def split: if_splits)
  qed
  note inv = role_table_stays [OF this refl, of demo_context bob "[Update_role boss_uid (rename_req ''OPS'') True]"]
  assume eq: "shown_name ?q ops_uid = shown_name ?q boss_uid"
  moreover have "shown_name ?q ops_uid = Some ''ops''" by code_simp
  moreover have "ops_uid \<noteq> boss_uid" by (simp add: demo_defs)
  ultimately show False using inv by metis
qed

text \<open>
  Built-in keys are refused before the role itself is excluded, so a built-in role can be renamed but not
  renamed back, and the empty name that should restore the default is refused too.
\<close>

definition builtin_rename :: "string \<Rightarrow> panel \<Rightarrow> panel_request \<times> nat" where
  "builtin_rename x p = (let r = Update_role admin_uid (rename_req x) True
     in (r, fst (fst (handle demo_catalog demo_context \<lparr>rq_user = ''root'', rq_token = None\<rparr> r p))))"

lemma builtin_name_not_restored:
  "snd (builtin_rename ''Chief'' demo_panel) = 200
   \<and> snd (builtin_rename ''Admin'' demo_panel) = 409 \<and> snd (builtin_rename [] demo_panel) = 409"
  by code_simp

end
