(* ===== verification/Secrets.thy ===== *)
theory Secrets
  imports Mfa_Store Config_Tree
begin

text \<open>
  Secrets inside documents: \<^verbatim>\<open>lib/security/secret_manager.py\<close>. A document is a JSON value; the keys whose
  values are secret are an argument (\<^verbatim>\<open>keys=\<close>). The functions that edit in place answer the edited
  document. The cipher is the one of the second factors; an encryption that fails keeps the plain text
  and one that cannot be undone keeps the token, as there. Log lines are not modelled.
\<close>

section \<open>The operations\<close>

definition encrypt_keys :: "string list" where
  "encrypt_keys = [''password'', ''ssh_password'', ''token'', ''secret'', ''db_password'', ''api_key'',
     ''bind_password'', ''client_secret'', ''sp_key'', ''graph_secret'', ''idp_cert'', ''smtp_password'',
     ''ms365_client_secret'', ''gmail_client_secret'', ''gmail_refresh_token'', ''webhook_url'',
     ''bot_app_password'', ''dcim_map_google_key'', ''github_token'']"


fun decrypt_all :: "fernet option \<Rightarrow> cval \<Rightarrow> cval"
  and decrypt_items :: "fernet option \<Rightarrow> cval list \<Rightarrow> cval list"
  and decrypt_fields :: "fernet option \<Rightarrow> (string \<times> cval) list \<Rightarrow> (string \<times> cval) list" where
  "decrypt_all f (CDict d) = CDict (decrypt_fields f d)"
| "decrypt_all f (CList xs) = CList (decrypt_items f xs)"
| "decrypt_all f (CStr s) = CStr (decrypt_field f s)"
| "decrypt_all f v = v"
| "decrypt_items f [] = []"
| "decrypt_items f (x # xs) = decrypt_all f x # decrypt_items f xs"
| "decrypt_fields f [] = []"
| "decrypt_fields f ((k, v) # d) = (k, decrypt_all f v) # decrypt_fields f d"

fun mask_sensitive :: "string list \<Rightarrow> cval \<Rightarrow> cval"
  and mask_items :: "string list \<Rightarrow> cval list \<Rightarrow> cval list"
  and mask_fields :: "string list \<Rightarrow> (string \<times> cval) list \<Rightarrow> (string \<times> cval) list" where
  "mask_sensitive keys (CDict d) = CDict (mask_fields keys d)"
| "mask_sensitive keys (CList xs) = CList (mask_items keys xs)"
| "mask_sensitive keys v = v"
| "mask_items keys [] = []"
| "mask_items keys (x # xs) = mask_sensitive keys x # mask_items keys xs"
| "mask_fields keys [] = []"
| "mask_fields keys ((k, v) # d) =
     (k, if List.member keys k \<and> truthy v then CNone else mask_sensitive keys v) # mask_fields keys d"

text \<open>The key under which a value stands goes along into lists, not into the dicts inside them.\<close>

fun encrypt_sensitive :: "fernet \<Rightarrow> string list \<Rightarrow> string option \<Rightarrow> cval \<Rightarrow> cval"
  and encrypt_items :: "fernet \<Rightarrow> string list \<Rightarrow> string option \<Rightarrow> cval list \<Rightarrow> cval list"
  and encrypt_fields :: "fernet \<Rightarrow> string list \<Rightarrow> (string \<times> cval) list \<Rightarrow> (string \<times> cval) list" where
  "encrypt_sensitive f keys cur (CDict d) = CDict (encrypt_fields f keys d)"
| "encrypt_sensitive f keys cur (CList xs) = CList (encrypt_items f keys cur xs)"
| "encrypt_sensitive f keys cur (CStr s) =
     CStr (case cur of None \<Rightarrow> s | Some k \<Rightarrow> if List.member keys k then encrypt_field f s else s)"
| "encrypt_sensitive f keys cur v = v"
| "encrypt_items f keys cur [] = []"
| "encrypt_items f keys cur (x # xs) = encrypt_sensitive f keys cur x # encrypt_items f keys cur xs"
| "encrypt_fields f keys [] = []"
| "encrypt_fields f keys ((k, v) # d) = (k, encrypt_sensitive f keys (Some k) v) # encrypt_fields f keys d"

definition dict_or_empty :: "cval \<Rightarrow> cval" where
  "dict_or_empty v = (case v of CDict d \<Rightarrow> v | _ \<Rightarrow> CDict [])"

definition list_or_empty :: "cval \<Rightarrow> cval" where
  "list_or_empty v = (case v of CList xs \<Rightarrow> v | _ \<Rightarrow> CList [])"

definition old_item :: "cval \<Rightarrow> nat \<Rightarrow> cval" where
  "old_item v i = (case v of CList xs \<Rightarrow> if i < length xs then xs ! i else CNone | _ \<Rightarrow> CNone)"

definition left_blank :: "cval \<Rightarrow> bool" where
  "left_blank v = (v = CNone \<or> v = CStr [])"

fun restore_sensitive :: "string list \<Rightarrow> cval \<Rightarrow> cval \<Rightarrow> cval"
  and restore_items :: "string list \<Rightarrow> cval list \<Rightarrow> cval \<Rightarrow> nat \<Rightarrow> cval list"
  and restore_fields :: "string list \<Rightarrow> (string \<times> cval) list \<Rightarrow> (string \<times> cval) list \<Rightarrow> (string \<times> cval) list" where
  "restore_sensitive keys (CList xs) old = CList (restore_items keys xs old 0)"
| "restore_sensitive keys (CDict d) old = (case old of CDict o' \<Rightarrow> CDict (restore_fields keys d o') | _ \<Rightarrow> CDict d)"
| "restore_sensitive keys v old = v"
| "restore_items keys [] old i = []"
| "restore_items keys (x # xs) old i =
     (case x of
        CDict d \<Rightarrow> restore_sensitive keys x (old_item old i)
      | CList ys \<Rightarrow> restore_sensitive keys x (old_item old i)
      | _ \<Rightarrow> x) # restore_items keys xs old (Suc i)"
| "restore_fields keys [] o' = []"
| "restore_fields keys ((k, v) # d) o' =
     (let old = (case map_of o' k of None \<Rightarrow> CNone | Some w \<Rightarrow> w)
      in (k, case v of
               CDict e \<Rightarrow> restore_sensitive keys v (dict_or_empty old)
             | CList ys \<Rightarrow> restore_sensitive keys v (list_or_empty old)
             | _ \<Rightarrow> if List.member keys k \<and> left_blank v \<and> truthy old then old else v))
     # restore_fields keys d o'"

section \<open>What a document must be\<close>

text \<open>Dicts have distinct keys, all the way down.\<close>

fun doc_wf :: "cval \<Rightarrow> bool" and items_wf :: "cval list \<Rightarrow> bool" and fields_wf :: "(string \<times> cval) list \<Rightarrow> bool" where
  "doc_wf (CDict d) = (dict_wf d \<and> fields_wf d)"
| "doc_wf (CList xs) = items_wf xs"
| "doc_wf v = True"
| "items_wf [] = True"
| "items_wf (x # xs) = (doc_wf x \<and> items_wf xs)"
| "fields_wf [] = True"
| "fields_wf ((k, v) # d) = (doc_wf v \<and> fields_wf d)"

text \<open>Nothing is set under a secret key.\<close>

fun masked :: "string list \<Rightarrow> cval \<Rightarrow> bool" and items_masked :: "string list \<Rightarrow> cval list \<Rightarrow> bool"
  and fields_masked :: "string list \<Rightarrow> (string \<times> cval) list \<Rightarrow> bool" where
  "masked keys (CDict d) = fields_masked keys d"
| "masked keys (CList xs) = items_masked keys xs"
| "masked keys v = True"
| "items_masked keys [] = True"
| "items_masked keys (x # xs) = (masked keys x \<and> items_masked keys xs)"
| "fields_masked keys [] = True"
| "fields_masked keys ((k, v) # d) = (\<not> (List.member keys k \<and> truthy v) \<and> masked keys v \<and> fields_masked keys d)"

text \<open>No text begins like a stored secret.\<close>

fun unsealed :: "cval \<Rightarrow> bool" and items_unsealed :: "cval list \<Rightarrow> bool" and fields_unsealed :: "(string \<times> cval) list \<Rightarrow> bool" where
  "unsealed (CDict d) = fields_unsealed d"
| "unsealed (CList xs) = items_unsealed xs"
| "unsealed (CStr s) = (\<not> starts_with enc_prefix s)"
| "unsealed v = True"
| "items_unsealed [] = True"
| "items_unsealed (x # xs) = (unsealed x \<and> items_unsealed xs)"
| "fields_unsealed [] = True"
| "fields_unsealed ((k, v) # d) = (unsealed v \<and> fields_unsealed d)"

text \<open>Every text under a secret key, or in a list there, is empty or sealed.\<close>

fun sealed_under :: "string list \<Rightarrow> string option \<Rightarrow> cval \<Rightarrow> bool"
  and items_sealed :: "string list \<Rightarrow> string option \<Rightarrow> cval list \<Rightarrow> bool"
  and fields_sealed :: "string list \<Rightarrow> (string \<times> cval) list \<Rightarrow> bool" where
  "sealed_under keys cur (CDict d) = fields_sealed keys d"
| "sealed_under keys cur (CList xs) = items_sealed keys cur xs"
| "sealed_under keys cur (CStr s) =
     (case cur of None \<Rightarrow> True | Some k \<Rightarrow> \<not> (List.member keys k \<and> s \<noteq> [] \<and> \<not> starts_with enc_prefix s))"
| "sealed_under keys cur v = True"
| "items_sealed keys cur [] = True"
| "items_sealed keys cur (x # xs) = (sealed_under keys cur x \<and> items_sealed keys cur xs)"
| "fields_sealed keys [] = True"
| "fields_sealed keys ((k, v) # d) = (sealed_under keys (Some k) v \<and> fields_sealed keys d)"

section \<open>The documents come back\<close>

lemma mask_nonempty: "mask_items keys xs = [] \<longleftrightarrow> xs = []" "mask_fields keys d = [] \<longleftrightarrow> d = []"
  by (cases xs, auto) (cases d, auto)

lemma truthy_mask: "truthy (mask_sensitive keys v) = truthy v"
  by (cases v) (auto simp: mask_nonempty)

lemma mask_hides:
  "masked keys (mask_sensitive keys v)" "items_masked keys (mask_items keys xs)" "fields_masked keys (mask_fields keys d)"
  by (induction keys v and keys xs and keys d rule: mask_sensitive_mask_items_mask_fields.induct)
    (auto simp: truthy_mask)

text \<open>Restoring from a dict that has the fields of the masked one.\<close>

lemma restore_mask_rest:
  "doc_wf v \<Longrightarrow> restore_sensitive keys (mask_sensitive keys v) v = v"
  "items_wf xs \<Longrightarrow> \<forall>j < length xs. old_item old (i + j) = xs ! j \<Longrightarrow> restore_items keys (mask_items keys xs) old i = xs"
  "fields_wf d \<Longrightarrow> \<forall>(k, v) \<in> set d. map_of o' k = Some v \<Longrightarrow> restore_fields keys (mask_fields keys d) o' = d"
proof (induction keys v and keys xs and keys d arbitrary: and old i and o' rule: mask_sensitive_mask_items_mask_fields.induct)
  case (1 keys d)
  then have "\<forall>(k, v) \<in> set d. map_of d k = Some v" by (auto simp: dict_wf_def)
  with 1 show ?case by simp
next
  case (2 keys xs)
  have "\<forall>j < length xs. old_item (CList xs) (0 + j) = xs ! j" by (simp add: old_item_def)
  with 2 show ?case by simp
next
  case (5 keys x xs)
  have x: "old_item old i = x" using 5(4) by (force dest: spec [of _ 0])
  have "old_item old (Suc i + j) = xs ! j" if "j < length xs" for j
    using 5(4) that by (auto dest!: spec [of _ "Suc j"])
  then have "restore_items keys (mask_items keys xs) old (Suc i) = xs" using 5 by simp
  moreover have "restore_sensitive keys (mask_sensitive keys x) x = x" using 5 by simp
  ultimately show ?case using x by (cases x) auto
next
  case (7 keys k v d)
  then have "map_of o' k = Some v" and r: "restore_fields keys (mask_fields keys d) o' = d" by auto
  moreover have "restore_sensitive keys (mask_sensitive keys v) v = v" if "\<not> (List.member keys k \<and> truthy v)"
    using 7 that by auto
  ultimately show ?case
    by (cases v) (auto simp: Let_def dict_or_empty_def list_or_empty_def left_blank_def)
qed auto


section \<open>Sealing\<close>

text \<open>What the code asks of the cipher: decrypting undoes encrypting.\<close>

definition cipher_ok :: "fernet \<Rightarrow> bool" where
  "cipher_ok f \<longleftrightarrow> (\<forall>s. \<exists>tok. fe_encrypt f s = Some tok \<and> fe_decrypt f tok = Some s)"

lemma encrypt_field_unsealed:
  assumes "cipher_ok f" "\<not> starts_with enc_prefix s"
  shows "decrypt_field (Some f) (encrypt_field f s) = s"
proof (cases "s = []")
  case False
  obtain tok where "fe_encrypt f s = Some tok" "fe_decrypt f tok = Some s"
    using assms(1) unfolding cipher_ok_def by blast
  with assms False show ?thesis by (simp add: encrypt_field_def decrypt_field_def)
qed (simp add: encrypt_field_def decrypt_field_def starts_with_def enc_prefix_def)

lemma encrypt_field_sealed: "cipher_ok f \<Longrightarrow> encrypt_field f s = [] \<or> starts_with enc_prefix (encrypt_field f s)"
  by (auto simp: encrypt_field_def cipher_ok_def split: option.splits) (metis option.distinct(1))

lemma decrypt_field_plain: "\<not> starts_with enc_prefix s \<Longrightarrow> decrypt_field f s = s"
  by (auto simp: decrypt_field_def split: option.splits)

lemma decrypt_encrypt:
  assumes "cipher_ok f"
  shows "unsealed v \<Longrightarrow> decrypt_all (Some f) (encrypt_sensitive f keys cur v) = v"
    "items_unsealed xs \<Longrightarrow> decrypt_items (Some f) (encrypt_items f keys cur xs) = xs"
    "fields_unsealed d \<Longrightarrow> decrypt_fields (Some f) (encrypt_fields f keys d) = d"
  using assms
  by (induction f keys cur v and f keys cur xs and f keys d rule: encrypt_sensitive_encrypt_items_encrypt_fields.induct)
    (auto simp: encrypt_field_unsealed decrypt_field_plain split: option.splits)

lemma encrypt_seals:
  assumes "cipher_ok f"
  shows "sealed_under keys cur (encrypt_sensitive f keys cur v)"
    "items_sealed keys cur (encrypt_items f keys cur xs)"
    "fields_sealed keys (encrypt_fields f keys d)"
  using assms encrypt_field_sealed
  by (induction f keys cur v and f keys cur xs and f keys d rule: encrypt_sensitive_encrypt_items_encrypt_fields.induct)
    (auto split: option.splits)


definition demo_doc :: cval where
  "demo_doc = CDict [(''host'', CStr ''db1''), (''password'', CStr ''s3cret''),
     (''hooks'', CList [CDict [(''token'', CStr ''t''), (''on'', CBool True)], CStr ''x''])]"


text \<open>
  Restoring a list goes by position: removing an entry whose secret is masked gives the next one
  its neighbour's secret, which the source warns of.
\<close>

lemma restore_goes_by_position:
  "let keys = [''token''];
       old = CList [CDict [(''token'', CStr ''a'')], CDict [(''token'', CStr ''b'')]];
       sent = CList [CDict [(''token'', CNone)]]
   in restore_sensitive keys sent old = CList [CDict [(''token'', CStr ''a'')]]"
  by code_simp

end
