(* ===== verification/Event_Match.thy ===== *)
theory Event_Match
  imports Monitor Py_Num
begin

text \<open>
  Event rules: which log lines and audit entries a rule matches and when it notifies
  (\<^verbatim>\<open>lib/services/events/manager.py\<close>), and what the editor stores of a submitted rule
  (\<^verbatim>\<open>lib/services/events/rules_logic.py\<close>). Rules, events and payloads are JSON documents. The regular
  expression library is an argument: \<open>ev_parse\<close> is its parser, \<open>ev_search\<close> its search; so is the text of a
  value that is no string, number or boolean (\<open>ev_repr\<close>). An operation that raises answers \<open>None\<close>.
\<close>

section \<open>Reading a document\<close>

type_synonym doc = "(string \<times> cval) list"

definition cget :: "doc \<Rightarrow> string \<Rightarrow> cval" where
  "cget d k = (case map_of d k of None \<Rightarrow> CNone | Some v \<Rightarrow> v)"

definition cor :: "cval \<Rightarrow> cval \<Rightarrow> cval" where
  "cor v d = (if Config_Tree.truthy v then v else d)"

definition blank_value :: "cval \<Rightarrow> bool" where
  "blank_value v = (v = CNone \<or> v = CStr [])"

text \<open>\<^verbatim>\<open>int(v)\<close>.\<close>

fun int_of :: "cval \<Rightarrow> int option" where
  "int_of (CBool b) = Some (if b then 1 else 0)"
| "int_of (CInt n) = Some n"
| "int_of (CFloat x) = Some (py_trunc x)"
| "int_of (CStr s) = int_of_str s"
| "int_of v = None"

text \<open>A parsed pattern, as the source walks it: a repetition with its upper bound (none: unbounded), an atomic
  group or possessive repetition, and any other operator with the patterns among its arguments.\<close>

datatype sre = Sre_Repeat "nat option" "sre list" | Sre_Atomic | Sre_Node "sre list list"

record event_env =
  ev_parse :: "string \<Rightarrow> sre list option"
  ev_search :: "string \<Rightarrow> string \<Rightarrow> bool option"
  ev_repr :: "cval \<Rightarrow> string"

text \<open>\<^verbatim>\<open>str(v)\<close>.\<close>

definition text_of :: "event_env \<Rightarrow> cval \<Rightarrow> string" where
  "text_of e v = (case v of
      CStr s \<Rightarrow> s
    | CNone \<Rightarrow> ''None''
    | CBool b \<Rightarrow> (if b then ''True'' else ''False'')
    | CInt n \<Rightarrow> show_int n
    | _ \<Rightarrow> ev_repr e v)"

section \<open>Patterns that are not run\<close>

fun nested_repeat :: "sre list \<Rightarrow> bool \<Rightarrow> bool"
  and nested_item :: "sre \<Rightarrow> bool \<Rightarrow> bool"
  and nested_parts :: "sre list list \<Rightarrow> bool \<Rightarrow> bool" where
  "nested_repeat [] u = False"
| "nested_repeat (x # xs) u = (nested_item x u \<or> nested_repeat xs u)"
| "nested_item Sre_Atomic u = False"
| "nested_item (Sre_Repeat hi sub) u =
     (u \<and> (case hi of None \<Rightarrow> True | Some h \<Rightarrow> 1 < h) \<or> nested_repeat sub (u \<or> hi = None))"
| "nested_item (Sre_Node parts) u = nested_parts parts u"
| "nested_parts [] u = False"
| "nested_parts (p # ps) u = (nested_repeat p u \<or> nested_parts ps u)"

definition regex_is_unsafe :: "event_env \<Rightarrow> string \<Rightarrow> bool" where
  "regex_is_unsafe e pat = (case ev_parse e pat of None \<Rightarrow> False | Some p \<Rightarrow> nested_repeat p False)"

section \<open>Matching\<close>

definition regex_max_text :: nat where
  "regex_max_text = 4096"

text \<open>Comparisons of floats; every comparison with \<open>NaN\<close> is false.\<close>

fun float_lt :: "pyfloat \<Rightarrow> pyfloat \<Rightarrow> bool" where
  "float_lt (Fin a) (Fin b) = (a < b)"
| "float_lt (Fin a) (Inf neg) = (\<not> neg)"
| "float_lt (Inf neg) (Fin b) = neg"
| "float_lt (Inf a) (Inf b) = (a \<and> \<not> b)"
| "float_lt _ _ = False"

definition float_le :: "pyfloat \<Rightarrow> pyfloat \<Rightarrow> bool" where
  "float_le a b = (float_lt a b \<or> (a = b \<and> a \<noteq> NaN))"

definition text_matches :: "event_env \<Rightarrow> string \<Rightarrow> string \<Rightarrow> string \<Rightarrow> bool" where
  "text_matches e ty needle text =
     (if ty = [] \<or> ty = ''any'' \<or> (needle = [] \<and> ty \<noteq> ''not_contains'') then True
      else if ty = ''equals'' then text = needle
      else if ty = ''contains'' then is_infix needle text
      else if ty = ''not_contains'' then \<not> is_infix needle text
      else if ty = ''starts'' then starts_with needle text
      else if ty = ''ends'' then ends_with needle text
      else if ty = ''regex'' then
        (if regex_is_unsafe e needle then False
         else (case ev_search e needle (take regex_max_text text) of None \<Rightarrow> False | Some b \<Rightarrow> b))
      else if ty = ''gt'' \<or> ty = ''gte'' \<or> ty = ''lt'' \<or> ty = ''lte'' then
        (case (float_of_str text, float_of_str needle) of
           (Some a, Some b) \<Rightarrow>
             (if ty = ''gt'' then float_lt b a else if ty = ''gte'' then float_le b a
              else if ty = ''lt'' then float_lt a b else float_le a b)
         | _ \<Rightarrow> False)
      else True)"

definition ctx_field :: "event_env \<Rightarrow> doc \<Rightarrow> string \<Rightarrow> string" where
  "ctx_field e ctx field =
     (if field = ''host'' then text_of e (cor (cor (cget ctx ''hostname'') (cget ctx ''source'')) (CStr []))
      else if field = ''app'' then text_of e (cor (cget ctx ''app'') (CStr []))
      else if field = ''severity'' then
        (let sev = cget ctx ''severity'' in if blank_value sev then [] else text_of e sev)
      else text_of e (cor (cget ctx ''message'') (CStr [])))"

text \<open>One matcher; entries of a group that are no dictionaries are passed over.\<close>

definition matcher_holds :: "event_env \<Rightarrow> doc \<Rightarrow> cval \<Rightarrow> bool" where
  "matcher_holds e ctx m = (case m of
      CDict d \<Rightarrow> text_matches e (text_of e (cor (cget d ''type'') (CStr ''any'')))
                   (text_of e (cor (cget d ''text'') (CStr [])))
                   (ctx_field e ctx (text_of e (cor (cget d ''field'') (CStr ''message''))))
    | _ \<Rightarrow> True)"

definition group_holds :: "event_env \<Rightarrow> doc \<Rightarrow> cval \<Rightarrow> bool" where
  "group_holds e ctx g = (case g of CList ms \<Rightarrow> ms \<noteq> [] \<and> list_all (matcher_holds e ctx) ms | _ \<Rightarrow> False)"

definition legacy_holds :: "event_env \<Rightarrow> doc \<Rightarrow> doc \<Rightarrow> bool" where
  "legacy_holds e rule ctx =
     text_matches e (text_of e (cor (cget rule ''match_type'') (CStr ''any'')))
       (text_of e (cor (cget rule ''match_text'') (CStr [])))
       (text_of e (cor (cget ctx ''message'') (CStr [])))"

definition conditions_match :: "event_env \<Rightarrow> doc \<Rightarrow> doc \<Rightarrow> bool" where
  "conditions_match e rule ctx = (case cget rule ''match_groups'' of
      CList (g # gs) \<Rightarrow> list_ex (group_holds e ctx) (g # gs)
    | _ \<Rightarrow> legacy_holds e rule ctx)"

text \<open>\<^verbatim>\<open>x in evs\<close> for the value of a field: a list, the keys of a dictionary, part of a text.\<close>

definition contained :: "cval \<Rightarrow> cval \<Rightarrow> bool option" where
  "contained x evs = (case evs of
      CList es \<Rightarrow> Some (List.member es x)
    | CTuple es \<Rightarrow> Some (List.member es x)
    | CDict d \<Rightarrow> Some (List.member (map (CStr \<circ> fst) d) x)
    | CStr s \<Rightarrow> (case x of CStr t \<Rightarrow> Some (is_infix t s) | _ \<Rightarrow> None)
    | _ \<Rightarrow> None)"

definition severity_excludes :: "doc \<Rightarrow> doc \<Rightarrow> bool" where
  "severity_excludes rule ctx =
     (let sev_max = cget rule ''severity_max'';
          sev = (case map_of ctx ''severity'' of None \<Rightarrow> CInt 5 | Some v \<Rightarrow> v)
      in \<not> blank_value sev_max
         \<and> (case (int_of sev, int_of sev_max) of (Some a, Some b) \<Rightarrow> b < a | _ \<Rightarrow> False))"

definition event_matches :: "event_env \<Rightarrow> string \<Rightarrow> doc \<Rightarrow> doc \<Rightarrow> bool option" where
  "event_matches e source rule ctx =
     (if source = ''audit'' then
        (let evs = cor (cget rule ''events'') (CList [])
         in if \<not> Config_Tree.truthy evs then Some True else contained (cget ctx ''event'') evs)
      else if source = ''syslog'' then
        (let host = py_strip (text_of e (cor (cget rule ''host'') (CStr [])));
             app = py_strip (text_of e (cor (cget rule ''app'') (CStr [])))
         in if severity_excludes rule ctx then Some False
            else if host \<noteq> [] \<and> CStr host \<noteq> cget ctx ''hostname'' \<and> CStr host \<noteq> cget ctx ''source'' then Some False
            else if app \<noteq> [] \<and> CStr app \<noteq> cor (cget ctx ''app'') (CStr []) then Some False
            else Some (conditions_match e rule ctx))
      else Some False)"

definition rule_watches :: "event_env \<Rightarrow> doc \<Rightarrow> string \<Rightarrow> bool" where
  "rule_watches e rule log_source =
     (let want = text_of e (cor (cget rule ''log_source'') (CStr [])) in want = ''*'' \<or> want = log_source)"

definition syslog_msgid :: string where
  "syslog_msgid = ''ss-simulated''"

definition is_simulated_line :: "event_env \<Rightarrow> doc \<Rightarrow> bool" where
  "is_simulated_line e ctx = (text_of e (cor (cget ctx ''msgid'') (CStr [])) = syslog_msgid)"

end
