(* ===== verification/Event_Store.thy ===== *)
theory Event_Store
  imports Event_Match "HOL-Library.List_Lexorder" "HOL-Library.Char_ord"
begin

text \<open>
  The tables behind the event rules: \<^verbatim>\<open>lib/services/events/store/\<close>. The rules (one row each, the matching
  settings as one JSON document), the log of notifications with its cap, and the worker's two tables of
  cooldowns and cursors. A clock reading, a new identifier and the text of the current time are arguments.
\<close>

section \<open>Rules\<close>

text \<open>\<open>rw_data\<close> is the document of the \<^verbatim>\<open>data\<close> column, none when its text is no JSON object.\<close>

record rule_row =
  rw_uid :: string
  rw_name :: string
  rw_enabled :: bool
  rw_desc :: string
  rw_data :: "doc option"
  rw_created :: string
  rw_updated :: string
  rw_updated_by :: string

definition doc_of :: "doc option \<Rightarrow> doc" where
  "doc_of d = opt d []"

definition or_text :: "string \<Rightarrow> cval \<Rightarrow> cval" where
  "or_text s v = (if s \<noteq> [] then CStr s else v)"

definition field_or :: "doc \<Rightarrow> string \<Rightarrow> cval" where
  "field_or d k = (case map_of d k of None \<Rightarrow> CStr [] | Some v \<Rightarrow> v)"

definition row_to_rule :: "rule_row \<Rightarrow> doc" where
  "row_to_rule r =
     (let d = doc_of (rw_data r);
          rule = fold (\<lambda>(k, v). AList.update k v) d [(''id'', CStr (rw_uid r))];
          enabled = (case map_of d ''enabled'' of None \<Rightarrow> CBool (rw_enabled r) | Some v \<Rightarrow> CBool (Config_Tree.truthy v))
      in fold (\<lambda>(k, v). AList.update k v)
           [(''name'', or_text (rw_name r) (field_or d ''name'')), (''enabled'', enabled),
            (''description'', or_text (rw_desc r) (field_or d ''description'')),
            (''created_at'', CStr (rw_created r)), (''updated_at'', CStr (rw_updated r)),
            (''updated_by'', CStr (rw_updated_by r))] rule)"

definition rules_list :: "rule_row list \<Rightarrow> doc list" where
  "rules_list t = map row_to_rule (sort_key (\<lambda>r. (rw_created r, rw_uid r)) t)"

definition rule_get :: "rule_row list \<Rightarrow> string \<Rightarrow> doc option" where
  "rule_get t uid = map_option row_to_rule (List.find (\<lambda>r. rw_uid r = uid) t)"

definition same_name :: "event_env \<Rightarrow> string \<Rightarrow> doc \<Rightarrow> bool" where
  "same_name e name rule = (py_lower (py_strip (text_of e (field_or rule ''name''))) = py_lower (py_strip name))"

definition name_taken :: "event_env \<Rightarrow> rule_row list \<Rightarrow> string \<Rightarrow> string option \<Rightarrow> bool" where
  "name_taken e t name exclude_id =
     list_ex (\<lambda>r. same_name e name r
        \<and> cget r ''id'' \<noteq> (case exclude_id of None \<Rightarrow> CNone | Some uid \<Rightarrow> CStr uid)) (rules_list t)"

definition managed_keys :: "string list" where
  "managed_keys = [''id'', ''name'', ''enabled'', ''description'', ''created_at'', ''updated_at'', ''updated_by'']"

definition split_rule :: "event_env \<Rightarrow> string \<Rightarrow> doc \<Rightarrow> string \<times> string \<times> bool \<times> string \<times> doc" where
  "split_rule e fresh rule =
     (text_of e (cor (cget rule ''id'') (CStr fresh)),
      py_strip (text_of e (cor (cget rule ''name'') (CStr []))),
      map_of rule ''enabled'' \<noteq> Some (CBool False),
      text_of e (cor (cget rule ''description'') (CStr [])),
      filter (\<lambda>(k, v). \<not> List.member managed_keys k) rule)"

definition rule_upsert ::
  "event_env \<Rightarrow> string \<Rightarrow> string \<Rightarrow> string \<Rightarrow> doc \<Rightarrow> rule_row list \<Rightarrow> string \<times> rule_row list" where
  "rule_upsert e fresh now actor rule t =
     (let (uid, name, enabled, desc, data) = split_rule e fresh rule
      in (uid,
          if list_ex (\<lambda>r. rw_uid r = uid) t
          then map (\<lambda>r. if rw_uid r = uid
                        then r\<lparr>rw_name := name, rw_enabled := enabled, rw_desc := desc, rw_data := Some data,
                               rw_updated := now, rw_updated_by := actor\<rparr>
                        else r) t
          else t @ [\<lparr>rw_uid = uid, rw_name = name, rw_enabled = enabled, rw_desc = desc, rw_data = Some data,
                     rw_created = now, rw_updated = now, rw_updated_by = actor\<rparr>]))"

definition rule_delete :: "string \<Rightarrow> rule_row list \<Rightarrow> bool \<times> rule_row list" where
  "rule_delete uid t =
     (if list_ex (\<lambda>r. rw_uid r = uid) t then (True, filter (\<lambda>r. rw_uid r \<noteq> uid) t) else (False, t))"

definition rule_touch :: "string \<Rightarrow> time \<Rightarrow> bool \<Rightarrow> rule_row list \<Rightarrow> rule_row list" where
  "rule_touch uid ts ok t =
     map (\<lambda>r. if rw_uid r = uid
              then r\<lparr>rw_data := Some (AList.update ''last_ok'' (CBool ok)
                       (AList.update ''last_fired'' (CFloat ts) (doc_of (rw_data r))))\<rparr>
              else r) t"

section \<open>The log of notifications\<close>

record note_row =
  nr_id :: int
  nr_ts :: time
  nr_rule_id :: string
  nr_rule_name :: string
  nr_source :: string
  nr_channels :: string
  nr_ok :: bool
  nr_message :: string

text \<open>The rows, and the last identifier handed out.\<close>

record note_log =
  nl_rows :: "note_row list"
  nl_last :: int

definition max_rows :: nat where
  "max_rows = 1000"

text \<open>\<^verbatim>\<open>ORDER BY id DESC LIMIT 1 OFFSET n\<close>, then everything up to that row goes.\<close>

definition trim_log :: "note_row list \<Rightarrow> note_row list" where
  "trim_log rows =
     (case drop max_rows (rev (sort_key nr_id rows)) of
        [] \<Rightarrow> rows
      | r # rs \<Rightarrow> if nr_id r \<noteq> 0 then filter (\<lambda>x. nr_id r < nr_id x) rows else rows)"

definition log_add ::
  "time \<Rightarrow> string \<Rightarrow> string \<Rightarrow> string \<Rightarrow> string list \<Rightarrow> bool \<Rightarrow> string \<Rightarrow> note_log \<Rightarrow> note_log" where
  "log_add now rule_id rule_name source channels ok message l =
     (let n = nl_last l + 1;
          row = \<lparr>nr_id = n, nr_ts = now, nr_rule_id = rule_id, nr_rule_name = rule_name, nr_source = source,
                 nr_channels = py_join '','' channels, nr_ok = ok, nr_message = take 1000 message\<rparr>
      in \<lparr>nl_rows = trim_log (nl_rows l @ [row]), nl_last = n\<rparr>)"

definition log_query :: "int \<Rightarrow> int \<Rightarrow> note_log \<Rightarrow> note_row list" where
  "log_query limit offset l =
     (let lim = nat (max 1 (min 2000 limit)); off = nat (max 0 offset)
      in take lim (drop off (rev (sort_key (\<lambda>r. (nr_ts r, nr_id r)) (nl_rows l)))))"

definition log_count :: "note_log \<Rightarrow> nat" where
  "log_count l = length (nl_rows l)"

definition log_delete_all :: "note_log \<Rightarrow> nat \<times> note_log" where
  "log_delete_all l = (length (nl_rows l), l\<lparr>nl_rows := []\<rparr>)"

section \<open>What the worker keeps\<close>

definition set_cooldown :: "cval \<Rightarrow> time \<Rightarrow> (cval \<times> time) list \<Rightarrow> (cval \<times> time) list" where
  "set_cooldown uid ts t = (if \<not> Config_Tree.truthy uid then t else AList.update uid ts t)"

definition cursor_of :: "(string \<times> int) list \<Rightarrow> string \<Rightarrow> int option" where
  "cursor_of t source = map_of t source"

definition set_cursor :: "string \<Rightarrow> int \<Rightarrow> (string \<times> int) list \<Rightarrow> (string \<times> int) list" where
  "set_cursor source n t = AList.update source n t"

section \<open>The tables keep what they promise\<close>

definition rules_wf :: "rule_row list \<Rightarrow> bool" where
  "rules_wf t = distinct (map rw_uid t)"

lemma upsert_uids:
  "map rw_uid (snd (rule_upsert e fresh now actor rule t)) =
     (let uid = fst (split_rule e fresh rule)
      in if List.member (map rw_uid t) uid then map rw_uid t else map rw_uid t @ [uid])"
  by (cases "split_rule e fresh rule")
    (auto simp: rule_upsert_def list_ex_iff comp_def if_distrib cong: if_cong)

lemma rules_wf_upsert: "rules_wf t \<Longrightarrow> rules_wf (snd (rule_upsert e fresh now actor rule t))"
  by (simp add: rules_wf_def upsert_uids Let_def)

lemma rules_wf_delete: "rules_wf t \<Longrightarrow> rules_wf (snd (rule_delete uid t))"
  by (simp add: rules_wf_def rule_delete_def distinct_map_filter_fst)

lemma rules_wf_touch: "rules_wf (rule_touch uid ts ok t) = rules_wf t"
  by (simp add: rules_wf_def rule_touch_def comp_def if_distrib cong: if_cong)

end
