(* ===== verification/Event_Editor.thy ===== *)
theory Event_Editor
  imports Event_Store
begin

text \<open>
  What the editor of event rules stores: \<^verbatim>\<open>lib/services/events/rules_logic.py\<close> and the requests of
  \<^verbatim>\<open>lib/services/events/routes.py\<close> that create, change and delete a rule. A payload is a JSON object. A refusal
  carries its key; an exception nobody handles is \<open>Rule_crash\<close>, and the request changes nothing.
\<close>

section \<open>Normalising a payload\<close>

datatype rule_error = Rule_refused string | Rule_crash

definition ebind :: "'e + 'a \<Rightarrow> ('a \<Rightarrow> 'e + 'b) \<Rightarrow> 'e + 'b" where
  "ebind x f = (case x of Inl err \<Rightarrow> Inl err | Inr v \<Rightarrow> f v)"

lemma ebind_Inr [simp]: "(ebind x f = Inr r) = (\<exists>v. x = Inr v \<and> f v = Inr r)"
  by (cases x) (auto simp: ebind_def)

lemma ebind_simps [simp]: "ebind (Inl err) f = Inl err" "ebind (Inr v) f = f v"
  by (simp_all add: ebind_def)

definition rule_sources :: "string list" where
  "rule_sources = [''audit'', ''syslog'']"

definition rule_channels :: "string list" where
  "rule_channels = [''telegram'', ''email'', ''webhook'', ''msteams'']"

definition new_rule_cooldown :: int where
  "new_rule_cooldown = 60"

definition match_types :: "string list" where
  "match_types = [''any'', ''equals'', ''contains'', ''not_contains'', ''starts'', ''ends'', ''regex'',
     ''gt'', ''gte'', ''lt'', ''lte'']"

definition match_fields :: "string list" where
  "match_fields = [''message'', ''host'', ''app'', ''severity'']"

text \<open>A method of text on a value that is no text raises; so does iterating over a number.\<close>

definition need_text :: "cval \<Rightarrow> rule_error + string" where
  "need_text v = (case v of CStr s \<Rightarrow> Inr s | _ \<Rightarrow> Inl Rule_crash)"

definition iter_of :: "cval \<Rightarrow> rule_error + cval list" where
  "iter_of v = (case v of
      CList xs \<Rightarrow> Inr xs
    | CTuple xs \<Rightarrow> Inr xs
    | CStr s \<Rightarrow> Inr (map (\<lambda>c. CStr [c]) s)
    | CDict d \<Rightarrow> Inr (map (CStr \<circ> fst) d)
    | _ \<Rightarrow> Inl Rule_crash)"

definition choice :: "string list \<Rightarrow> string \<Rightarrow> string \<Rightarrow> string" where
  "choice allowed d s = (let v = py_lower (py_strip s) in if List.member allowed v then v else d)"

text \<open>One matcher: nothing when it is no dictionary, \<open>Some None\<close> when it constrains nothing.\<close>

definition clean_matcher :: "cval \<Rightarrow> rule_error + doc option option" where
  "clean_matcher m = (case m of
      CDict d \<Rightarrow>
        ebind (need_text (cor (cget d ''type'') (CStr ''any''))) (\<lambda>ty.
        ebind (need_text (cor (cget d ''field'') (CStr ''message''))) (\<lambda>fld.
        ebind (need_text (cor (cget d ''text'') (CStr []))) (\<lambda>txt.
          let mt = choice match_types ''any'' ty; f = choice match_fields ''message'' fld; t = py_strip txt
          in Inr (Some (if mt = ''any'' \<or> (t = [] \<and> mt \<noteq> ''not_contains'') then None
                        else Some [(''field'', CStr f), (''type'', CStr mt), (''text'', CStr t)])))))
    | _ \<Rightarrow> Inr None)"

fun clean_group :: "cval list \<Rightarrow> rule_error + cval list \<times> bool" where
  "clean_group [] = Inr ([], False)"
| "clean_group (m # ms) =
     ebind (clean_matcher m) (\<lambda>c. ebind (clean_group ms) (\<lambda>(out, noise).
       Inr (case c of None \<Rightarrow> (out, noise) | Some None \<Rightarrow> (out, True) | Some (Some d) \<Rightarrow> (CDict d # out, noise))))"

text \<open>The groups; the first answer tells that one of them is always true.\<close>

fun clean_groups :: "cval list \<Rightarrow> rule_error + bool \<times> cval list" where
  "clean_groups [] = Inr (False, [])"
| "clean_groups (g # gs) = (case g of
      CList ms \<Rightarrow> ebind (clean_group ms) (\<lambda>(out, noise).
        if out \<noteq> [] then ebind (clean_groups gs) (\<lambda>(everything, rest). Inr (everything, CList out # rest))
        else if noise then Inr (True, [])
        else clean_groups gs)
    | _ \<Rightarrow> clean_groups gs)"

definition legacy_groups :: "doc \<Rightarrow> rule_error + cval list" where
  "legacy_groups data =
     ebind (need_text (cor (cget data ''match_type'') (CStr ''any''))) (\<lambda>ty.
     ebind (need_text (cor (cget data ''match_text'') (CStr []))) (\<lambda>txt.
       let mt = choice match_types ''any'' ty; t = py_strip txt
       in Inr (if mt \<noteq> ''any'' \<and> (t \<noteq> [] \<or> mt = ''not_contains'')
               then [CList [CDict [(''type'', CStr mt), (''text'', CStr t)]]] else [])))"

definition clean_match_groups :: "doc \<Rightarrow> rule_error + cval list" where
  "clean_match_groups data =
     ebind (case cget data ''match_groups'' of CList gs \<Rightarrow> clean_groups gs | _ \<Rightarrow> Inr (False, []))
       (\<lambda>(everything, out). if everything then Inr [] else if out \<noteq> [] then Inr out else legacy_groups data)"

definition clean_webhooks :: "event_env \<Rightarrow> cval list \<Rightarrow> cval list" where
  "clean_webhooks e ws =
     map (\<lambda>w. CStr (py_strip (text_of e w))) (filter (\<lambda>w. \<not> blank_value w \<and> py_strip (text_of e w) \<noteq> []) ws)"

definition clean_events :: "event_env \<Rightarrow> cval list \<Rightarrow> cval list" where
  "clean_events e es =
     map (\<lambda>x. CStr (py_strip (text_of e x))) (filter (\<lambda>x. py_strip (text_of e x) \<noteq> []) es)"

definition clamp :: "int \<Rightarrow> int \<Rightarrow> int \<Rightarrow> int" where
  "clamp lo hi n = max lo (min hi n)"

definition clean_cooldown :: "cval \<Rightarrow> cval" where
  "clean_cooldown v = (if blank_value v then CNone
     else (case int_of v of None \<Rightarrow> CNone | Some n \<Rightarrow> CInt (clamp 0 86400 n)))"

definition clean_severity :: "cval \<Rightarrow> cval" where
  "clean_severity v = (if blank_value v then CStr []
     else (case int_of v of None \<Rightarrow> CStr [] | Some n \<Rightarrow> CInt (clamp 0 7 n)))"

fun clean_tags :: "event_env \<Rightarrow> string list \<Rightarrow> cval list \<Rightarrow> cval list" where
  "clean_tags e seen [] = []"
| "clean_tags e seen (x # xs) =
     (let tg = take 40 (py_strip (text_of e x))
      in if tg \<noteq> [] \<and> \<not> List.member seen (py_lower tg) then CStr tg # clean_tags e (py_lower tg # seen) xs
         else clean_tags e seen xs)"

definition clean_rule :: "event_env \<Rightarrow> doc \<Rightarrow> rule_error + doc" where
  "clean_rule e data =
     ebind (need_text (cor (cget data ''source'') (CStr ''audit''))) (\<lambda>src.
     ebind (iter_of (cor (cget data ''channels'') (CList []))) (\<lambda>chans.
     ebind (iter_of (cor (cget data ''webhook_ids'') (CList []))) (\<lambda>hooks.
     ebind (iter_of (cor (cget data ''events'') (CList []))) (\<lambda>events.
     ebind (iter_of (cor (cget data ''tags'') (CList []))) (\<lambda>tags.
     ebind (need_text (cor (cget data ''name'') (CStr []))) (\<lambda>name.
     ebind (need_text (cor (cget data ''description'') (CStr []))) (\<lambda>desc.
     ebind (need_text (cor (cget data ''host'') (CStr []))) (\<lambda>host.
     ebind (need_text (cor (cget data ''app'') (CStr []))) (\<lambda>app.
     ebind (clean_match_groups data) (\<lambda>groups.
       let source = choice rule_sources ''audit'' src
       in Inr [
         (''name'', CStr (if py_strip name = [] then ''Rule'' else py_strip name)),
         (''description'', CStr (take 500 (py_strip desc))),
         (''enabled'', CBool (case map_of data ''enabled'' of None \<Rightarrow> True | Some v \<Rightarrow> Config_Tree.truthy v)),
         (''source'', CStr source),
         (''events'', CList (clean_events e events)),
         (''tags'', CList (clean_tags e [] tags)),
         (''severity_max'', clean_severity (cget data ''severity_max'')),
         (''host'', CStr (py_strip host)),
         (''app'', CStr (py_strip app)),
         (''log_source'', CStr (if source = ''syslog''
            then take 64 (py_strip (text_of e (cor (cget data ''log_source'') (CStr [])))) else [])),
         (''match_groups'', CList groups),
         (''channels'', CList (filter (\<lambda>c. List.member (map CStr rule_channels) c) chans)),
         (''webhook_ids'', CList (clean_webhooks e hooks)),
         (''cooldown'', clean_cooldown (cget data ''cooldown''))]))))))))))"

section \<open>What a rule must satisfy\<close>

text \<open>The pattern of a matcher, when it has one. The source asks any matcher for its type, so one that is
  no dictionary raises.\<close>

definition matcher_pattern :: "event_env \<Rightarrow> cval \<Rightarrow> rule_error + string option" where
  "matcher_pattern e m = (case m of
      CDict d \<Rightarrow> Inr (if cget d ''type'' = CStr ''regex'' \<and> Config_Tree.truthy (cget d ''text'')
                      then Some (text_of e (cget d ''text'')) else None)
    | _ \<Rightarrow> Inl Rule_crash)"

fun check_matchers :: "event_env \<Rightarrow> cval list \<Rightarrow> rule_error + unit" where
  "check_matchers e [] = Inr ()"
| "check_matchers e (m # ms) =
     ebind (matcher_pattern e m) (\<lambda>pat. case pat of
       None \<Rightarrow> check_matchers e ms
     | Some p \<Rightarrow>
         if ev_parse e p = None then Inl (Rule_refused ''event_invalid_regex'')
         else if regex_is_unsafe e p then Inl (Rule_refused ''event_unsafe_regex'')
         else check_matchers e ms)"

fun check_groups :: "event_env \<Rightarrow> cval list \<Rightarrow> rule_error + unit" where
  "check_groups e [] = Inr ()"
| "check_groups e (g # gs) =
     ebind (iter_of g) (\<lambda>ms. ebind (check_matchers e ms) (\<lambda>_. check_groups e gs))"

definition validate_rule :: "event_env \<Rightarrow> doc \<Rightarrow> rule_error + unit" where
  "validate_rule e rule =
     (if \<not> Config_Tree.truthy (cget rule ''channels'') then Inl (Rule_refused ''event_need_channel'')
      else if cget rule ''source'' = CStr ''audit'' \<and> \<not> Config_Tree.truthy (cget rule ''events'')
      then Inl (Rule_refused ''event_need_audit_event'')
      else ebind (iter_of (cor (cget rule ''match_groups'') (CList []))) (check_groups e))"

text \<open>The patterns that are never run, each once; \<open>out\<close> collects them.\<close>

fun unsafe_in_group :: "event_env \<Rightarrow> cval list \<Rightarrow> string list \<Rightarrow> rule_error + string list" where
  "unsafe_in_group e [] out = Inr out"
| "unsafe_in_group e (m # ms) out =
     ebind (matcher_pattern e m) (\<lambda>pat. unsafe_in_group e ms
       (case pat of None \<Rightarrow> out
        | Some p \<Rightarrow> if regex_is_unsafe e p \<and> \<not> List.member out p then out @ [p] else out))"

fun unsafe_in_groups :: "event_env \<Rightarrow> cval list \<Rightarrow> string list \<Rightarrow> rule_error + string list" where
  "unsafe_in_groups e [] out = Inr out"
| "unsafe_in_groups e (g # gs) out =
     ebind (iter_of (cor g (CList []))) (\<lambda>ms. ebind (unsafe_in_group e ms out) (unsafe_in_groups e gs))"

definition unsafe_patterns :: "event_env \<Rightarrow> doc \<Rightarrow> rule_error + string list" where
  "unsafe_patterns e rule =
     ebind (iter_of (cor (cget rule ''match_groups'') (CList []))) (\<lambda>gs. unsafe_in_groups e gs [])"

definition prepare_rule ::
  "event_env \<Rightarrow> rule_row list \<Rightarrow> doc \<Rightarrow> string option \<Rightarrow> bool \<Rightarrow> rule_error + doc" where
  "prepare_rule e t data0 exclude_id new =
     (let data = (if new \<and> map_of data0 ''cooldown'' = None
                  then data0 @ [(''cooldown'', CInt new_rule_cooldown)] else data0)
      in ebind (clean_rule e data) (\<lambda>rule.
         ebind (validate_rule e rule) (\<lambda>_.
           if name_taken e t (text_of e (cget rule ''name'')) exclude_id
           then Inl (Rule_refused ''event_name_exists'') else Inr rule)))"

section \<open>The requests\<close>

text \<open>The table and the rules the worker has cached; a request is answered with a code and the new state.\<close>

record rule_panel =
  rp_rules :: "rule_row list"
  rp_cache :: "doc list"

datatype rule_request = Create_rule doc string | Change_rule string doc | Delete_rule string

definition events_reload :: "rule_panel \<Rightarrow> rule_panel" where
  "events_reload p = p\<lparr>rp_cache := rules_list (rp_rules p)\<rparr>"

definition refusal :: "rule_error \<Rightarrow> nat" where
  "refusal err = (case err of Rule_refused k \<Rightarrow> 400 | Rule_crash \<Rightarrow> 500)"

definition save_rule ::
  "event_env \<Rightarrow> string \<Rightarrow> string \<Rightarrow> string \<Rightarrow> doc \<Rightarrow> rule_panel \<Rightarrow> rule_panel" where
  "save_rule e now actor rid rule p =
     events_reload (p\<lparr>rp_rules := snd (rule_upsert e rid now actor (AList.update ''id'' (CStr rid) rule) (rp_rules p))\<rparr>)"

fun rule_request_step ::
  "event_env \<Rightarrow> string \<Rightarrow> string \<Rightarrow> rule_panel \<Rightarrow> rule_request \<Rightarrow> nat \<times> rule_panel" where
  "rule_request_step e now actor p (Create_rule data fresh) =
     (case prepare_rule e (rp_rules p) data None True of
        Inl err \<Rightarrow> (refusal err, p)
      | Inr rule \<Rightarrow> (200, save_rule e now actor fresh rule p))"
| "rule_request_step e now actor p (Change_rule rid data) =
     (if rule_get (rp_rules p) rid = None then (404, p)
      else case prepare_rule e (rp_rules p) data (Some rid) False of
        Inl err \<Rightarrow> (refusal err, p)
      | Inr rule \<Rightarrow> (200, save_rule e now actor rid rule p))"
| "rule_request_step e now actor p (Delete_rule rid) =
     (let (ok, t) = rule_delete rid (rp_rules p)
      in if ok then (200, events_reload (p\<lparr>rp_rules := t\<rparr>)) else (404, p))"

end
