(* ===== verification/Event_Worker.thy ===== *)
theory Event_Worker
  imports Event_Editor
begin

text \<open>
  The worker that evaluates the event rules: \<^verbatim>\<open>lib/services/events/manager.py\<close>. It reads new log lines and
  audit entries by a cursor, evaluates every enabled rule on each, and notifies on a match under the cooldown of
  the rule. The tables it reads are written by others at the same time: each query of a tick sees its own
  snapshot, and any query or write may fail. The clock is a function of the number of the evaluation; the
  readings inside one evaluation are one reading. Log lines are not modelled, nor the thread around the ticks.
\<close>

section \<open>What a rule needs to notify\<close>

text \<open>A notification handed to the channels.\<close>

record notice =
  nt_rule :: cval
  nt_source :: string
  nt_item :: cval
  nt_status :: string
  nt_message :: cval
  nt_time :: cval
  nt_hooks :: cval

record event_world =
  ew_env :: event_env
  ew_channels :: "string list"
  ew_matrix :: "(string \<Rightarrow> bool) option"
  ew_send :: "notice \<Rightarrow> string \<Rightarrow> string + bool \<times> string"
  ew_label :: "string \<Rightarrow> string"
  ew_json :: "cval \<Rightarrow> string"
  ew_dash :: string
  ew_rules :: "doc list"
  ew_cooldown :: cval

text \<open>What the worker keeps in memory (\<open>es_last\<close>) and in its tables, and the notifications it sent.\<close>

record event_state =
  es_last :: "(cval \<times> time) list"
  es_saved :: "(cval \<times> time) list"
  es_log :: note_log
  es_rows :: "rule_row list"
  es_sent :: "(time \<times> notice \<times> string list) list"

section \<open>One event\<close>

definition default_cooldown :: "cval \<Rightarrow> int" where
  "default_cooldown v =
     (if blank_value v then 0 else (case int_of v of None \<Rightarrow> 0 | Some n \<Rightarrow> max 0 n))"

definition rule_cooldown :: "event_world \<Rightarrow> doc \<Rightarrow> int" where
  "rule_cooldown w r =
     (let raw = cget r ''cooldown'' in
      if blank_value raw then default_cooldown (ew_cooldown w)
      else (case int_of raw of None \<Rightarrow> default_cooldown (ew_cooldown w) | Some n \<Rightarrow> max 0 n))"

definition rule_uid :: "doc \<Rightarrow> cval" where
  "rule_uid r = cor (cor (cget r ''id'') (cget r ''name'')) (CStr [])"

definition detail_text :: "event_world \<Rightarrow> cval \<Rightarrow> string" where
  "detail_text w v = (if \<not> Config_Tree.truthy v then []
     else (case v of CStr s \<Rightarrow> s | _ \<Rightarrow> take 500 (ew_json w v)))"

definition audit_label :: "event_world \<Rightarrow> cval \<Rightarrow> string" where
  "audit_label w v = (if \<not> Config_Tree.truthy v then [] else ew_label w (text_of (ew_env w) v))"

definition notice_of :: "event_world \<Rightarrow> string \<Rightarrow> doc \<Rightarrow> doc \<Rightarrow> notice" where
  "notice_of w source r ctx =
     (let e = ew_env w; name = cor (cget r ''name'') (CStr [])
      in if source = ''syslog'' then
           (let sev = cget ctx ''severity_name'';
                status = (if Config_Tree.truthy sev then text_of e sev
                          else text_of e (field_or ctx ''severity''));
                item0 = cor (cor (cget ctx ''hostname'') (cget ctx ''source'')) name;
                from_name = cget ctx ''log_source_name'';
                item = (if Config_Tree.truthy from_name
                        then CStr (text_of e item0 @ '' ('' @ text_of e from_name @ '')'') else item0)
            in \<lparr>nt_rule = rule_uid r, nt_source = source, nt_item = item, nt_status = status,
                nt_message = field_or ctx ''message'', nt_time = field_or ctx ''received_at'',
                nt_hooks = cor (cget r ''webhook_ids'') (CList [])\<rparr>)
         else
           (let status = audit_label w (field_or ctx ''event'')
            in \<lparr>nt_rule = rule_uid r, nt_source = source, nt_item = cor name (CStr status), nt_status = status,
                nt_message = CStr (detail_text w (cget ctx ''detail'')), nt_time = field_or ctx ''ts'',
                nt_hooks = cor (cget r ''webhook_ids'') (CList [])\<rparr>))"

text \<open>The channels of the rule that are registered; a value that cannot be hashed or walked raises.\<close>

fun hashable_value :: "cval \<Rightarrow> bool" where
  "hashable_value (CList xs) = False"
| "hashable_value (CDict d) = False"
| "hashable_value (CTuple xs) = list_all hashable_value xs"
| "hashable_value v = True"

definition wanted_channels :: "event_world \<Rightarrow> doc \<Rightarrow> string list option" where
  "wanted_channels w r = (case iter_of (cor (cget r ''channels'') (CList [])) of
      Inl err \<Rightarrow> None
    | Inr cs \<Rightarrow>
        if list_all hashable_value cs
        then Some (List.map_filter (\<lambda>c. case c of
                CStr s \<Rightarrow> if List.member (ew_channels w) s then Some s else None | _ \<Rightarrow> None) cs)
        else None)"

definition record_notification ::
  "event_world \<Rightarrow> time \<Rightarrow> doc \<Rightarrow> string \<Rightarrow> string \<Rightarrow> (string \<times> bool \<times> string) list \<Rightarrow> event_state \<Rightarrow> event_state" where
  "record_notification w now r source status results st =
     (let e = ew_env w;
          ok = (results \<noteq> [] \<and> list_all (\<lambda>(c, o', m). o') results);
          parts = map (\<lambda>(c, o', m). c @ (if o' then '':ok'' else '':err('' @ m @ '')'')) results;
          msg = status @ ew_dash w @ (if parts = [] then ''no channels'' else py_join '', '' parts);
          uid = cget r ''id''
      in st\<lparr>es_log := log_add now (text_of e (field_or r ''id'')) (text_of e (field_or r ''name'')) source
                       (map fst results) ok msg (es_log st),
            es_rows := (if Config_Tree.truthy uid then rule_touch (text_of e uid) now ok (es_rows st)
                        else es_rows st)\<rparr>)"

text \<open>\<^verbatim>\<open>_dispatch_event\<close>; none when it raises.\<close>

definition dispatch_event ::
  "event_world \<Rightarrow> time \<Rightarrow> string \<Rightarrow> doc \<Rightarrow> doc \<Rightarrow> event_state \<Rightarrow> event_state option" where
  "dispatch_event w now source r ctx st = (case wanted_channels w r of
      None \<Rightarrow> None
    | Some [] \<Rightarrow> Some st
    | Some chans \<Rightarrow>
        (let n = notice_of w source r ctx;
             results = run_dispatch (ew_matrix w) (ew_channels w) (ew_send w n) ''event'' (Some chans)
         in Some (record_notification w now r source (nt_status n) results
                   (st\<lparr>es_sent := es_sent st @ [(now, n, map fst results)]\<rparr>))))"

definition cooling :: "event_world \<Rightarrow> time \<Rightarrow> doc \<Rightarrow> event_state \<Rightarrow> bool" where
  "cooling w now r st =
     (let cd = rule_cooldown w r
      in cd \<noteq> 0 \<and> now - dget (es_last st) (rule_uid r) 0 < of_int cd)"

definition note_fired :: "time \<Rightarrow> cval \<Rightarrow> event_state \<Rightarrow> event_state" where
  "note_fired now uid st =
     st\<lparr>es_last := AList.update uid now (es_last st), es_saved := set_cooldown uid now (es_saved st)\<rparr>"

definition rule_listens :: "event_world \<Rightarrow> string \<Rightarrow> string \<Rightarrow> doc \<Rightarrow> bool" where
  "rule_listens w source log_source r =
     (Config_Tree.truthy (cget r ''enabled'')
      \<and> cor (cget r ''source'') (CStr ''audit'') = CStr source
      \<and> (source \<noteq> ''syslog'' \<or> rule_watches (ew_env w) r log_source))"

text \<open>The loop over the rules; an exception ends it and keeps what was done.\<close>

fun eval_rules ::
  "event_world \<Rightarrow> time \<Rightarrow> string \<Rightarrow> doc \<Rightarrow> string \<Rightarrow> doc list \<Rightarrow> event_state \<Rightarrow> event_state" where
  "eval_rules w now source ctx log_source [] st = st"
| "eval_rules w now source ctx log_source (r # rs) st =
     (if \<not> rule_listens w source log_source r then eval_rules w now source ctx log_source rs st
      else case event_matches (ew_env w) source r ctx of
          None \<Rightarrow> st
        | Some matched \<Rightarrow>
            if \<not> matched \<or> cooling w now r st then eval_rules w now source ctx log_source rs st
            else let st1 = note_fired now (rule_uid r) st
                 in (case dispatch_event w now source r ctx st1 of
                       None \<Rightarrow> st1
                     | Some st2 \<Rightarrow> eval_rules w now source ctx log_source rs st2))"

definition eval_event ::
  "event_world \<Rightarrow> time \<Rightarrow> string \<Rightarrow> doc \<Rightarrow> string \<Rightarrow> event_state \<Rightarrow> event_state" where
  "eval_event w now source ctx log_source st =
     (if source = ''syslog'' \<and> is_simulated_line (ew_env w) ctx then st
      else eval_rules w now source ctx log_source (ew_rules w) st)"

section \<open>The ids evaluated lately\<close>

definition late_window :: int where
  "late_window = 200"

definition seen_size :: nat where
  "seen_size = 800"

record seen =
  sn_order :: "int list"
  sn_set :: "int list"

definition seen_empty :: seen where
  "seen_empty = \<lparr>sn_order = [], sn_set = []\<rparr>"

definition seen_has :: "seen \<Rightarrow> int \<Rightarrow> bool" where
  "seen_has s rid = List.member (sn_set s) rid"

definition seen_add :: "int \<Rightarrow> seen \<Rightarrow> seen" where
  "seen_add rid s =
     (if seen_has s rid then s
      else if length (sn_order s) = seen_size
      then \<lparr>sn_order = tl (sn_order s) @ [rid], sn_set = rid # filter (\<lambda>x. x \<noteq> hd (sn_order s)) (sn_set s)\<rparr>
      else \<lparr>sn_order = sn_order s @ [rid], sn_set = rid # sn_set s\<rparr>)"

section \<open>Reading a source\<close>

type_synonym ev_row = "int \<times> doc"

text \<open>What a query meets: an error, a table of somebody else that does not answer, or the rows committed.\<close>

datatype table_read = Read_error | Unreachable | Visible "ev_row list"

definition query_since :: "ev_row list \<Rightarrow> int \<Rightarrow> nat \<Rightarrow> ev_row list" where
  "query_since t last_id limit =
     take (max 1 (min 5000 limit)) (sort_key fst (filter (\<lambda>r. last_id < fst r) t))"

definition max_id :: "ev_row list \<Rightarrow> int" where
  "max_id t = (if t = [] then 0 else Max (set (map fst t)))"

definition read_rows :: "table_read \<Rightarrow> int \<Rightarrow> nat \<Rightarrow> ev_row list option" where
  "read_rows rd last_id limit = (case rd of
      Read_error \<Rightarrow> None | Unreachable \<Rightarrow> Some [] | Visible t \<Rightarrow> Some (query_since t last_id limit))"

record ev_source =
  so_key :: string
  so_kind :: string
  so_uid :: string
  so_name :: string

definition window_start :: "int \<Rightarrow> int" where
  "window_start c = max 0 (c - late_window)"

definition fresh_window :: "int \<Rightarrow> table_read \<Rightarrow> seen" where
  "fresh_window c rd = (case read_rows rd (window_start c) (nat late_window + 1) of
      None \<Rightarrow> seen_empty
    | Some rows \<Rightarrow> fold seen_add (filter (\<lambda>i. i \<le> c) (map fst rows)) seen_empty)"

text \<open>The state of a tick on one source; \<open>ds_rows\<close> are the rows it evaluated, which the code counts.\<close>

record drain_state =
  ds_events :: event_state
  ds_seen :: seen
  ds_cursor :: int
  ds_from :: int
  ds_rows :: "ev_row list"

datatype tick_end = Finished | Aborted | Unfinished

definition tag_source :: "ev_source \<Rightarrow> doc \<Rightarrow> doc" where
  "tag_source so ctx = (if so_uid so = [] then ctx
     else AList.update ''log_source_name'' (CStr (so_name so)) (AList.update ''log_source'' (CStr (so_uid so)) ctx))"

definition eval_row :: "event_world \<Rightarrow> (nat \<Rightarrow> time) \<Rightarrow> ev_source \<Rightarrow> ev_row \<Rightarrow> drain_state \<Rightarrow> drain_state" where
  "eval_row w clk so row d =
     (if seen_has (ds_seen d) (fst row) then d
      else d\<lparr>ds_seen := seen_add (fst row) (ds_seen d),
             ds_events := eval_event w (clk (length (ds_rows d))) (so_kind so) (tag_source so (snd row)) (so_uid so)
                            (ds_events d),
             ds_rows := ds_rows d @ [row]\<rparr>)"

definition page_size :: nat where
  "page_size = 500"

text \<open>The loop over the pages: each element is what the query sees and whether the cursor can be written.\<close>

fun drain ::
  "event_world \<Rightarrow> (nat \<Rightarrow> time) \<Rightarrow> ev_source \<Rightarrow> (table_read \<times> bool) list \<Rightarrow> drain_state \<Rightarrow> drain_state \<times> tick_end" where
  "drain w clk so [] d = (d, Unfinished)"
| "drain w clk so ((rd, wr) # later) d = (case read_rows rd (ds_from d) page_size of
      None \<Rightarrow> (d, Aborted)
    | Some rows \<Rightarrow>
        if rows = [] then (d, Finished)
        else
          (let d1 = fold (eval_row w clk so) rows d; top = fst (last rows)
           in if ds_cursor d < top \<and> \<not> wr then (d1, Aborted)
              else
                (let d2 = d1\<lparr>ds_cursor := max (ds_cursor d) top, ds_from := top\<rparr>
                 in if length rows < page_size then (d2, Finished) else drain w clk so later d2)))"

section \<open>A tick\<close>

record worker =
  wk_cursors :: "(string \<times> int) list"
  wk_seen :: "(string \<times> seen) list"
  wk_events :: event_state
  wk_leading :: bool

text \<open>What a tick meets on one source: the tail, whether the cursor can be set to it, the window, the pages.\<close>

record source_reads =
  sr_tail :: table_read
  sr_seed :: bool
  sr_window :: table_read
  sr_pages :: "(table_read \<times> bool) list"

definition tail_of :: "table_read \<Rightarrow> int option" where
  "tail_of rd = (case rd of Visible t \<Rightarrow> Some (max_id t) | _ \<Rightarrow> None)"

text \<open>The pages from a cursor that is known good.\<close>

definition read_source ::
  "event_world \<Rightarrow> (nat \<Rightarrow> time) \<Rightarrow> ev_source \<Rightarrow> source_reads \<Rightarrow> int \<Rightarrow> worker \<Rightarrow> worker \<times> ev_row list \<times> tick_end" where
  "read_source w clk so rd c wk =
     (let s = (case map_of (wk_seen wk) (so_key so) of Some s \<Rightarrow> s | None \<Rightarrow> fresh_window c (sr_window rd));
          (d, r) = drain w clk so (sr_pages rd)
             \<lparr>ds_events = wk_events wk, ds_seen = s, ds_cursor = c, ds_from = window_start c, ds_rows = []\<rparr>
      in (wk\<lparr>wk_cursors := (if c < ds_cursor d then set_cursor (so_key so) (ds_cursor d) (wk_cursors wk)
                            else wk_cursors wk),
             wk_seen := AList.update (so_key so) (ds_seen d) (wk_seen wk),
             wk_events := ds_events d\<rparr>, ds_rows d, r))"

definition tick_source ::
  "event_world \<Rightarrow> (nat \<Rightarrow> time) \<Rightarrow> ev_source \<Rightarrow> source_reads \<Rightarrow> worker \<Rightarrow> worker \<times> ev_row list \<times> tick_end" where
  "tick_source w clk so rd wk =
     (case (sr_tail rd, tail_of (sr_tail rd)) of
        (Read_error, _) \<Rightarrow> (wk, [], Aborted)
      | (_, None) \<Rightarrow> (wk, [], Finished)
      | (_, Some tail) \<Rightarrow>
          (case cursor_of (wk_cursors wk) (so_key so) of
             Some c \<Rightarrow>
               if tail < c then
                 (if sr_seed rd
                  then read_source w clk so rd tail
                         (wk\<lparr>wk_cursors := set_cursor (so_key so) tail (wk_cursors wk),
                             wk_seen := AList.delete (so_key so) (wk_seen wk)\<rparr>)
                  else (wk, [], Aborted))
               else read_source w clk so rd c wk
           | None \<Rightarrow>
               (if sr_seed rd
                then read_source w clk so rd tail
                       (wk\<lparr>wk_cursors := set_cursor (so_key so) tail (wk_cursors wk),
                           wk_seen := AList.delete (so_key so) (wk_seen wk)\<rparr>)
                else (wk, [], Aborted))))"

text \<open>\<^verbatim>\<open>_event_refresh_cooldowns\<close>: the later reading of each rule wins; a failed read keeps what is in memory.\<close>

definition refresh_cooldowns :: "bool \<Rightarrow> event_state \<Rightarrow> event_state" where
  "refresh_cooldowns readable st =
     (if readable
      then st\<lparr>es_last := fold (\<lambda>(uid, ts) m. if dget m uid 0 < ts then AList.update uid ts m else m)
                            (es_saved st) (es_last st)\<rparr>
      else st)"

text \<open>\<^verbatim>\<open>_events_enabled\<close> on the \<^verbatim>\<open>events\<close> section; an unreadable configuration does not stop the worker.\<close>

definition events_enabled :: "event_env \<Rightarrow> doc option \<Rightarrow> bool" where
  "events_enabled e cfg = (case cfg of
      None \<Rightarrow> True
    | Some ev \<Rightarrow>
        if cget ev ''enabled'' \<noteq> CNone then Config_Tree.truthy (cget ev ''enabled'')
        else if cget ev ''mode'' \<noteq> CNone then py_lower (text_of e (cget ev ''mode'')) \<noteq> ''off''
        else True)"

text \<open>The sources one after another; an unfinished one is still running (its list of pages was too short).\<close>

fun tick_sources ::
  "event_world \<Rightarrow> (nat \<Rightarrow> nat \<Rightarrow> time) \<Rightarrow> (ev_source \<times> source_reads) list \<Rightarrow> worker \<Rightarrow> worker \<times> ev_row list" where
  "tick_sources w clk [] wk = (wk, [])"
| "tick_sources w clk ((so, rd) # others) wk =
     (let (wk1, rows, r) = tick_source w (clk (length others)) so rd wk
      in if r = Unfinished then (wk1, rows)
         else (let (wk2, rest) = tick_sources w clk others wk1 in (wk2, rows @ rest)))"

definition worker_tick ::
  "event_world \<Rightarrow> (nat \<Rightarrow> nat \<Rightarrow> time) \<Rightarrow> bool \<Rightarrow> bool \<Rightarrow> doc option \<Rightarrow> (ev_source \<times> source_reads) list
     \<Rightarrow> worker \<Rightarrow> worker \<times> nat" where
  "worker_tick w clk allowed readable cfg sources wk =
     (if \<not> allowed then (wk\<lparr>wk_leading := False\<rparr>, 0)
      else
        (let wk1 = (if wk_leading wk then wk
                    else wk\<lparr>wk_leading := True, wk_events := refresh_cooldowns readable (wk_events wk)\<rparr>)
         in if \<not> events_enabled (ew_env w) cfg then (wk1, 0)
            else (let (wk2, rows) = tick_sources w clk sources wk1 in (wk2, length rows))))"

end
