(* ===== verification/Event_Once.thy ===== *)
theory Event_Once
  imports Event_Worker
begin

text \<open>
  Every row is evaluated once: the ids evaluated lately are never forgotten while they can be read again, and a
  tick that is not cut short leaves no visible row behind.
\<close>

section \<open>The bounded set of ids\<close>

text \<open>
  \<open>m\<close> bounds the ids. Each was added when none was more than the window above it, so that a forgotten id is
  far below the bound.
\<close>

definition spread :: "int list \<Rightarrow> bool" where
  "spread xs = sorted_wrt (\<lambda>a b. a - late_window < b) xs"

definition seen_ok :: "seen \<Rightarrow> int \<Rightarrow> bool" where
  "seen_ok s m \<longleftrightarrow> distinct (sn_order s) \<and> set (sn_set s) = set (sn_order s) \<and> length (sn_order s) \<le> seen_size
     \<and> spread (sn_order s) \<and> (\<forall>x \<in> set (sn_order s). x \<le> m)"

definition remembers :: "int set \<Rightarrow> seen \<Rightarrow> int \<Rightarrow> bool" where
  "remembers h s m \<longleftrightarrow> (\<forall>i \<in> h. i \<le> m \<and> (m - 600 < i \<longrightarrow> i \<in> set (sn_order s)))"

lemma seen_has_order: "seen_ok s m \<Longrightarrow> seen_has s i = (i \<in> set (sn_order s))"
  by (simp add: seen_ok_def seen_has_def)

lemma seen_ok_mono: "seen_ok s m \<Longrightarrow> m \<le> m' \<Longrightarrow> seen_ok s m'"
  by (auto simp: seen_ok_def)

lemma remembers_mono: "remembers h s m \<Longrightarrow> m \<le> m' \<Longrightarrow> remembers h s m'"
  by (force simp: remembers_def)

lemma oldest_is_far_below:
  assumes "seen_ok s m" "length (sn_order s) = seen_size"
  shows "hd (sn_order s) \<le> m - 600"
proof -
  let ?xs = "sn_order s"
  obtain x xs where x: "?xs = x # xs" using assms(2) by (cases ?xs) (auto simp: seen_size_def)
  have "set ?xs \<subseteq> {x - late_window <.. m}"
    using assms(1) x by (auto simp: seen_ok_def spread_def late_window_def)
  then have "card (set ?xs) \<le> nat (m - (x - late_window))"
    by (metis card_greaterThanAtMost_int card_mono finite_greaterThanAtMost_int)
  moreover have "card (set ?xs) = seen_size" using assms by (simp add: seen_ok_def distinct_card)
  ultimately show ?thesis using x by (simp add: seen_size_def late_window_def)
qed

lemma seen_ok_add:
  assumes "seen_ok s m" "m - late_window < y"
  shows "seen_ok (seen_add y s) (max m y)"
proof (cases "seen_has s y")
  case True
  then show ?thesis using assms(1) by (auto simp: seen_add_def intro: seen_ok_mono)
next
  case new: False
  let ?o = "sn_order s"
  have y: "y \<notin> set ?o" "\<forall>x \<in> set ?o. x \<le> m" "set (sn_set s) = set ?o" "distinct ?o" "spread ?o"
    using assms(1) new by (auto simp: seen_has_order seen_ok_def)
  then have sp: "spread (?o @ [y])"
    using assms(2) by (auto simp: spread_def sorted_wrt_append)
  show ?thesis
  proof (cases "length ?o = seen_size")
    case True
    then obtain x xs where x: "?o = x # xs" by (cases ?o) (auto simp: seen_size_def)
    then have "seen_add y s = \<lparr>sn_order = xs @ [y], sn_set = y # filter (\<lambda>z. z \<noteq> x) (sn_set s)\<rparr>"
      using new True by (simp add: seen_add_def)
    moreover have "spread (xs @ [y])" using sp x by (simp add: spread_def)
    moreover have "x \<notin> set xs" "distinct xs" using y x by auto
    ultimately show ?thesis using y x True by (fastforce simp: seen_ok_def le_max_iff_disj)
  next
    case False
    then have "seen_add y s = \<lparr>sn_order = ?o @ [y], sn_set = y # sn_set s\<rparr>"
      using new by (simp add: seen_add_def)
    moreover have "length ?o < seen_size" using assms(1) False by (simp add: seen_ok_def)
    ultimately show ?thesis using y sp by (auto simp: seen_ok_def le_max_iff_disj)
  qed
qed

lemma remembers_add:
  assumes "seen_ok s m" "remembers h s m" "m - late_window < y"
  shows "remembers (insert y h) (seen_add y s) (max m y)"
proof (cases "seen_has s y")
  case True
  then show ?thesis using assms by (auto simp: seen_add_def remembers_def seen_has_order)
next
  case new: False
  show ?thesis
  proof (cases "length (sn_order s) = seen_size")
    case True
    then have "hd (sn_order s) \<le> m - 600" by (rule oldest_is_far_below [OF assms(1)])
    moreover obtain x xs where x: "sn_order s = x # xs" using True by (cases "sn_order s") (auto simp: seen_size_def)
    ultimately show ?thesis using assms new True by (force simp: remembers_def seen_add_def)
  next
    case False
    then show ?thesis using assms new by (auto simp: remembers_def seen_add_def)
  qed
qed

lemma not_forgotten:
  assumes "seen_ok s m" "remembers h s m" "m - late_window < y" "\<not> seen_has s y"
  shows "y \<notin> h"
  using assms by (auto simp: remembers_def seen_has_order late_window_def)

lemma seen_add_order: "set (sn_order (seen_add y s)) \<subseteq> insert y (set (sn_order s))"
  by (cases "sn_order s") (auto simp: seen_add_def)

lemma fold_seen_ok:
  "seen_ok s m \<Longrightarrow> \<forall>y \<in> set ys. m - late_window < y \<and> y \<le> m \<Longrightarrow>
     seen_ok (fold seen_add ys s) m \<and> set (sn_order (fold seen_add ys s)) \<subseteq> set ys \<union> set (sn_order s)"
proof (induction ys arbitrary: s)
  case (Cons y ys)
  then have "m - late_window < y" "max m y = m" by (simp_all add: max_absorb1)
  with seen_ok_add [OF Cons.prems(1)] have "seen_ok (seen_add y s) m" by metis
  with Cons have "seen_ok (fold seen_add ys (seen_add y s)) m
     \<and> set (sn_order (fold seen_add ys (seen_add y s))) \<subseteq> set ys \<union> set (sn_order (seen_add y s))" by simp
  then show ?case using seen_add_order [of y s] by auto
qed simp

section \<open>What a query answers\<close>

lemma query_since_set: "r \<in> set (query_since t a n) \<Longrightarrow> r \<in> set t \<and> a < fst r"
  unfolding query_since_def by (drule in_set_takeD) simp

lemma query_since_sorted: "sorted (map fst (query_since t a n))"
  unfolding query_since_def by (simp add: take_map [symmetric] sorted_wrt_take)

lemma query_since_distinct: "distinct (map fst t) \<Longrightarrow> distinct (map fst (query_since t a n))"
proof -
  assume "distinct (map fst t)"
  then have "distinct (map fst (filter (\<lambda>r. a < fst r) t))" by (rule distinct_map_filter_fst)
  then have "distinct (map fst (sort_key fst (filter (\<lambda>r. a < fst r) t)))"
    by (simp add: distinct_map)
  then show ?thesis unfolding query_since_def by (metis distinct_take take_map)
qed

text \<open>A row above the start is on the page, or the page is full and ends below it.\<close>

lemma query_since_page:
  assumes "r \<in> set t" "a < fst r" "distinct (map fst t)" "r \<notin> set (query_since t a n)" "1 \<le> n" "n \<le> 5000"
  shows "length (query_since t a n) = n \<and> fst (last (query_since t a n)) < fst r"
proof -
  let ?all = "sort_key fst (filter (\<lambda>r. a < fst r) t)"
  have q: "query_since t a n = take n ?all" using assms by (simp add: query_since_def min_def max_def)
  have r: "r \<in> set (drop n ?all)"
  proof -
    have "r \<in> set ?all" using assms(1,2) by simp
    then have "r \<in> set (take n ?all @ drop n ?all)" by simp
    then show ?thesis using assms(4) q by (simp del: append_take_drop_id)
  qed
  then have len: "n < length ?all" by (metis drop_all empty_iff list.set(1) not_le)
  have "sorted (map fst ?all)" by simp
  then have "sorted (map fst (take n ?all) @ map fst (drop n ?all))"
    by (metis append_take_drop_id map_append)
  then have le: "\<forall>x \<in> set (take n ?all). \<forall>y \<in> set (drop n ?all). fst x \<le> fst y"
    by (auto simp: sorted_append simp del: append_take_drop_id)
  have "length (take n ?all) = n" using len by (simp del: length_sort)
  then have ne: "take n ?all \<noteq> []" using assms(5) by (metis list.size(3) not_one_le_zero)
  then have l: "last (take n ?all) \<in> set (take n ?all)" by simp
  then have "fst (last (take n ?all)) \<le> fst r" using le r by blast
  moreover have "fst (last (take n ?all)) \<noteq> fst r"
  proof
    assume "fst (last (take n ?all)) = fst r"
    moreover have "last (take n ?all) \<in> set t" using l by (auto dest: in_set_takeD)
    ultimately have "last (take n ?all) = r" using assms(1,3) by (simp add: distinct_map inj_on_def)
    with l assms(4) q show False by simp
  qed
  ultimately show ?thesis using q len by simp
qed

section \<open>A page and a tick\<close>

definition ids :: "ev_row list \<Rightarrow> int set" where
  "ids rows = fst ` set rows"

text \<open>\<open>h\<close> holds the rows evaluated before the tick; \<open>m\<close> bounds every id met so far.\<close>

definition page_ok :: "int set \<Rightarrow> drain_state \<Rightarrow> int \<Rightarrow> bool" where
  "page_ok h d m \<longleftrightarrow> seen_ok (ds_seen d) m \<and> remembers (h \<union> ids (ds_rows d)) (ds_seen d) m
     \<and> distinct (map fst (ds_rows d)) \<and> ids (ds_rows d) \<inter> h = {}"

lemma eval_row_ok:
  assumes "page_ok h d m" "m - late_window < fst row"
  shows "page_ok h (eval_row w clk so row d) (max m (fst row))"
proof (cases "seen_has (ds_seen d) (fst row)")
  case True
  then show ?thesis using assms(1)
    by (auto simp: eval_row_def page_ok_def intro: seen_ok_mono remembers_mono)
next
  case False
  have "fst row \<notin> h \<union> ids (ds_rows d)"
    using not_forgotten [OF _ _ assms(2) False] assms(1) by (auto simp: page_ok_def)
  moreover have "h \<union> ids (ds_rows d @ [row]) = insert (fst row) (h \<union> ids (ds_rows d))"
    by (auto simp: ids_def)
  ultimately show ?thesis using assms(1) seen_ok_add [OF _ assms(2)] remembers_add [OF _ _ assms(2)] False
    by (auto simp: eval_row_def page_ok_def ids_def)
qed

lemma eval_row_rest [simp]:
  "ds_cursor (eval_row w clk so row d) = ds_cursor d" "ds_from (eval_row w clk so row d) = ds_from d"
  by (simp_all add: eval_row_def)

lemma fold_eval_rest [simp]:
  "ds_cursor (fold (eval_row w clk so) rows d) = ds_cursor d"
  "ds_from (fold (eval_row w clk so) rows d) = ds_from d"
  by (induction rows arbitrary: d) auto

text \<open>The rows of a page in order, all above \<open>a\<close>: those above the bound raise it.\<close>

lemma fold_eval_ok:
  assumes "page_ok h d m" "sorted (map fst rows)" "distinct (map fst rows)" "\<forall>r \<in> set rows. a < fst r"
    "m - late_window \<le> a \<or> m = a"
  shows "page_ok h (fold (eval_row w clk so) rows d) (if rows = [] then m else max m (fst (last rows)))"
  using assms
proof (induction rows arbitrary: d m a)
  case (Cons row rows)
  have lw: "0 \<le> late_window" by (simp add: late_window_def)
  have "m - late_window < fst row" using Cons.prems(4,5) lw by auto
  then have "page_ok h (eval_row w clk so row d) (max m (fst row))" by (rule eval_row_ok [OF Cons.prems(1)])
  moreover have "\<forall>r \<in> set rows. fst row < fst r" using Cons.prems(2,3) by (auto simp: less_le image_iff)
  moreover have "max m (fst row) - late_window \<le> fst row" using \<open>m - late_window < fst row\<close> lw by simp
  ultimately have IH: "page_ok h (fold (eval_row w clk so) rows (eval_row w clk so row d))
      (if rows = [] then max m (fst row) else max (max m (fst row)) (fst (last rows)))"
    using Cons.IH [of "eval_row w clk so row d" "max m (fst row)" "fst row"] Cons.prems(2,3) by simp
  show ?case
  proof (cases "rows = []")
    case False
    then have "fst row < fst (last rows)" using \<open>\<forall>r \<in> set rows. fst row < fst r\<close> by simp
    then have "max (max m (fst row)) (fst (last rows)) = max m (fst (last rows))" by simp
    then show ?thesis using IH False by simp
  qed (use IH in simp)
qed simp

definition reads_ok :: "(table_read \<times> bool) list \<Rightarrow> bool" where
  "reads_ok pages = list_all (\<lambda>(rd, wr). wr \<and> (case rd of Visible t \<Rightarrow> distinct (map fst t) | _ \<Rightarrow> True)) pages"

lemma drain_ok:
  assumes "page_ok h d (ds_cursor d)" "ds_cursor d - late_window \<le> ds_from d" "reads_ok pages"
  shows "page_ok h (fst (drain w clk so pages d)) (ds_cursor (fst (drain w clk so pages d)))
    \<and> ds_cursor d \<le> ds_cursor (fst (drain w clk so pages d))"
  using assms
proof (induction w clk so pages d rule: drain.induct)
  case (2 w clk so rd wr later d)
  show ?case
  proof (cases "read_rows rd (ds_from d) page_size")
    case None
    then show ?thesis using 2 by simp
  next
    case (Some rows)
    show ?thesis
    proof (cases "rows = []")
      case True
      then show ?thesis using 2 Some by simp
    next
      case False
      have rows: "sorted (map fst rows)" "distinct (map fst rows)" "\<forall>r \<in> set rows. ds_from d < fst r"
        using Some False 2(4) query_since_set
        by (auto simp: read_rows_def reads_ok_def query_since_sorted query_since_distinct split: table_read.splits)
      let ?d1 = "fold (eval_row w clk so) rows d" and ?top = "fst (last rows)"
      have "page_ok h ?d1 (max (ds_cursor d) ?top)"
        using fold_eval_ok [OF 2(2) rows disjI1 [OF 2(3)]] False by simp
      then have d2: "page_ok h (?d1\<lparr>ds_cursor := max (ds_cursor d) ?top, ds_from := ?top\<rparr>) (max (ds_cursor d) ?top)"
        by (simp add: page_ok_def)
      have "ds_from d < ?top" using rows(3) False by simp
      then have "max (ds_cursor d) ?top - late_window \<le> ?top" using 2(3) by (simp add: late_window_def)
      then show ?thesis using 2(1) [OF Some False refl refl] 2(4) d2 Some False
        by (auto simp: reads_ok_def Let_def)
    qed
  qed
qed simp

lemma fold_eval_covers:
  fixes d :: drain_state and w :: event_world and clk :: "nat \<Rightarrow> time" and so :: ev_source
  defines "g \<equiv> \<lambda>rows d. fold (eval_row w clk so) rows d"
  shows "set (sn_set (ds_seen (g rows d))) \<subseteq> set (sn_set (ds_seen d)) \<union> ids (ds_rows (g rows d))
    \<and> ids (ds_rows d) \<subseteq> ids (ds_rows (g rows d))
    \<and> (\<forall>row \<in> set rows. fst row \<in> set (sn_set (ds_seen d)) \<union> ids (ds_rows (g rows d)))"
  unfolding g_def
proof (induction rows arbitrary: d)
  case (Cons row rows)
  let ?d1 = "eval_row w clk so row d"
  have "set (sn_set (ds_seen ?d1)) \<subseteq> set (sn_set (ds_seen d)) \<union> ids (ds_rows ?d1)"
    "ids (ds_rows d) \<subseteq> ids (ds_rows ?d1)" "fst row \<in> set (sn_set (ds_seen d)) \<union> ids (ds_rows ?d1)"
    by (auto simp: eval_row_def ids_def seen_add_def seen_has_def)
  with Cons.IH [of ?d1] show ?case by auto
qed simp

lemma drain_grows:
  "set (sn_set (ds_seen (fst (drain w clk so pages d)))) \<subseteq> set (sn_set (ds_seen d)) \<union> ids (ds_rows (fst (drain w clk so pages d)))
    \<and> ids (ds_rows d) \<subseteq> ids (ds_rows (fst (drain w clk so pages d)))"
proof (induction w clk so pages d rule: drain.induct)
  case (2 w clk so rd wr later d)
  show ?case
  proof (cases "read_rows rd (ds_from d) page_size")
    case (Some rows)
    show ?thesis
    proof (cases "rows = []")
      case False
      let ?d1 = "fold (eval_row w clk so) rows d" and ?top = "fst (last rows)"
      let ?d2 = "?d1\<lparr>ds_cursor := max (ds_cursor d) ?top, ds_from := ?top\<rparr>"
      have step: "drain w clk so ((rd, wr) # later) d
          = (if ds_cursor d < ?top \<and> \<not> wr then (?d1, Aborted)
             else if length rows < page_size then (?d2, Finished) else drain w clk so later ?d2)"
        using Some False by (simp add: Let_def)
      have d1: "set (sn_set (ds_seen ?d1)) \<subseteq> set (sn_set (ds_seen d)) \<union> ids (ds_rows ?d1) \<and> ids (ds_rows d) \<subseteq> ids (ds_rows ?d1)"
        using fold_eval_covers by blast
      have IH: "\<not> (ds_cursor d < ?top \<and> \<not> wr) \<Longrightarrow> \<not> length rows < page_size \<Longrightarrow>
          set (sn_set (ds_seen (fst (drain w clk so later ?d2)))) \<subseteq> set (sn_set (ds_seen ?d2)) \<union> ids (ds_rows (fst (drain w clk so later ?d2)))
          \<and> ids (ds_rows ?d2) \<subseteq> ids (ds_rows (fst (drain w clk so later ?d2)))"
        by (rule 2 [OF Some False refl refl]) auto
      have e: "ds_seen ?d2 = ds_seen ?d1" "ds_rows ?d2 = ds_rows ?d1" by simp_all
      consider "ds_cursor d < ?top \<and> \<not> wr" | "\<not> (ds_cursor d < ?top \<and> \<not> wr)" "length rows < page_size"
        | "\<not> (ds_cursor d < ?top \<and> \<not> wr)" "\<not> length rows < page_size" by blast
      then show ?thesis
      proof cases
        case 1
        then have "drain w clk so ((rd, wr) # later) d = (?d1, Aborted)" using step by simp
        then show ?thesis using d1 by (metis fst_conv)
      next
        case 2
        then have "drain w clk so ((rd, wr) # later) d = (?d2, Finished)" using step by simp
        then show ?thesis using d1 e by (metis fst_conv)
      next
        case 3
        have "set (sn_set (ds_seen (fst (drain w clk so later ?d2))))
            \<subseteq> set (sn_set (ds_seen d)) \<union> ids (ds_rows (fst (drain w clk so later ?d2)))
          \<and> ids (ds_rows d) \<subseteq> ids (ds_rows (fst (drain w clk so later ?d2)))"
          using IH [OF 3] d1 unfolding e by blast
        with 3 show ?thesis unfolding step by (simp only: if_False)
      qed
    qed (use Some in simp)
  qed simp
qed simp

definition shows_row :: "(table_read \<times> bool) list \<Rightarrow> int \<Rightarrow> ev_row \<Rightarrow> bool" where
  "shows_row pages b r = list_all (\<lambda>(p, wr). case p of
      Visible t \<Rightarrow> List.member t r \<and> list_all (\<lambda>x. fst x \<le> b) t | _ \<Rightarrow> False) pages"

text \<open>With enough pages the loop ends, because every full page moves the start.\<close>

lemma drain_finishes:
  assumes "shows_row pages b r" "reads_ok pages" "nat (b - ds_from d) < length pages"
  shows "snd (drain w clk so pages d) = Finished"
  using assms
proof (induction w clk so pages d rule: drain.induct)
  case (2 w clk so rd wr later d)
  obtain t where t: "rd = Visible t" "\<forall>x \<in> set t. fst x \<le> b"
    using 2(2) by (auto simp: shows_row_def list_all_iff split: table_read.splits)
  let ?rows = "query_since t (ds_from d) page_size"
  show ?case
  proof (cases "?rows = []")
    case False
    then have "last ?rows \<in> set t \<and> ds_from d < fst (last ?rows)" by (metis last_in_set query_since_set)
    then have "nat (b - fst (last ?rows)) < length later" using t(2) 2(4) by force
    then show ?thesis using 2(1) [OF _ False refl refl] 2(2,3) t(1) False
      by (auto simp: Let_def reads_ok_def shows_row_def read_rows_def)
  qed (use t in \<open>simp add: read_rows_def\<close>)
qed simp

lemma drain_covers:
  assumes "shows_row pages b r" "reads_ok pages" "nat (b - ds_from d) < length pages" "ds_from d < fst r"
  shows "fst r \<in> set (sn_set (ds_seen d)) \<union> ids (ds_rows (fst (drain w clk so pages d)))"
  using assms
proof (induction w clk so pages d rule: drain.induct)
  case (2 w clk so rd wr later d)
  obtain t where t: "rd = Visible t" "\<forall>x \<in> set t. fst x \<le> b" "r \<in> set t" "distinct (map fst t)" wr
    using 2(2,3) by (auto simp: shows_row_def reads_ok_def list_all_iff split: table_read.splits)
  let ?rows = "query_since t (ds_from d) page_size" and ?top = "fst (last (query_since t (ds_from d) page_size))"
  let ?d1 = "fold (eval_row w clk so) ?rows d"
  let ?d2 = "?d1\<lparr>ds_cursor := max (ds_cursor d) ?top, ds_from := ?top\<rparr>"
  have cov: "set (sn_set (ds_seen ?d1)) \<subseteq> set (sn_set (ds_seen d)) \<union> ids (ds_rows ?d1)"
    "r \<in> set ?rows \<Longrightarrow> fst r \<in> set (sn_set (ds_seen d)) \<union> ids (ds_rows ?d1)"
    using fold_eval_covers [where rows = ?rows and d = d and w = w and clk = clk and so = so] by auto
  have grow: "ids (ds_rows ?d1) \<subseteq> ids (ds_rows (fst (drain w clk so later ?d2)))"
    using drain_grows [of w clk so later ?d2] by simp
  have ne: "?rows \<noteq> []" using query_since_page [OF t(3) 2(5) t(4), of page_size] by (auto simp: page_size_def)
  then have step: "drain w clk so ((rd, wr) # later) d
      = (if length ?rows < page_size then (?d2, Finished) else drain w clk so later ?d2)"
    using t by (simp add: read_rows_def Let_def)
  show ?case
  proof (cases "r \<in> set ?rows")
    case True
    then show ?thesis using cov grow step by auto
  next
    case False
    then have full: "\<not> length ?rows < page_size" "?top < fst r"
      using query_since_page [OF t(3) 2(5) t(4) False] by (auto simp: page_size_def)
    have "last ?rows \<in> set t \<and> ds_from d < ?top" using query_since_set [OF last_in_set [OF ne]] .
    then have "nat (b - ?top) < length later" using t(2) 2(4) by force
    then have "fst r \<in> set (sn_set (ds_seen ?d2)) \<union> ids (ds_rows (fst (drain w clk so later ?d2)))"
      using 2(1) [OF _ ne refl refl _ refl full(1)] 2(2,3) t full(2) by (simp add: reads_ok_def shows_row_def read_rows_def)
    then show ?thesis using step full cov grow by auto
  qed
qed simp

section \<open>Ticks of one source\<close>

fun tick_run ::
  "event_world \<Rightarrow> ev_source \<Rightarrow> ((nat \<Rightarrow> time) \<times> source_reads) list \<Rightarrow> worker \<Rightarrow> worker \<times> ev_row list" where
  "tick_run w so [] wk = (wk, [])"
| "tick_run w so ((clk, rd) # ticks) wk =
     (let (wk1, rows, r) = tick_source w clk so rd wk; (wk2, rest) = tick_run w so ticks wk1
      in (wk2, rows @ rest))"

text \<open>The table is not exchanged for another one, ids are its key, and the cursor can be written.\<close>

fun steady :: "event_world \<Rightarrow> ev_source \<Rightarrow> ((nat \<Rightarrow> time) \<times> source_reads) list \<Rightarrow> worker \<Rightarrow> bool" where
  "steady w so [] wk = True"
| "steady w so ((clk, rd) # ticks) wk =
     ((case (tail_of (sr_tail rd), cursor_of (wk_cursors wk) (so_key so)) of
         (Some t, Some c) \<Rightarrow> c \<le> t | _ \<Rightarrow> True)
      \<and> reads_ok (sr_pages rd)
      \<and> steady w so ticks (fst (tick_source w clk so rd wk)))"

text \<open>\<open>h\<close> are the ids evaluated since the worker started at cursor \<open>c0\<close>.\<close>

definition worker_ok :: "int set \<Rightarrow> int \<Rightarrow> ev_source \<Rightarrow> worker \<Rightarrow> bool" where
  "worker_ok h c0 so wk = (case cursor_of (wk_cursors wk) (so_key so) of
      None \<Rightarrow> False
    | Some c \<Rightarrow> (case map_of (wk_seen wk) (so_key so) of
          None \<Rightarrow> h = {} \<and> c = c0
        | Some s \<Rightarrow> seen_ok s c \<and> remembers h s c \<and> set (sn_order s) \<subseteq> h \<union> {..c0}))"

lemma fresh_window_ok:
  "seen_ok (fresh_window c rd) c \<and> set (sn_order (fresh_window c rd)) \<subseteq> {..c}"
proof (cases "read_rows rd (window_start c) (nat late_window + 1)")
  case None
  then show ?thesis by (simp add: fresh_window_def seen_empty_def seen_ok_def spread_def seen_size_def)
next
  case (Some rows)
  have "\<forall>y \<in> set (filter (\<lambda>i. i \<le> c) (map fst rows)). c - late_window < y \<and> y \<le> c"
  proof
    fix y assume "y \<in> set (filter (\<lambda>i. i \<le> c) (map fst rows))"
    then obtain r where "r \<in> set rows" "y = fst r" "y \<le> c" by auto
    moreover from this Some have "window_start c < fst r"
      by (auto simp: read_rows_def split: table_read.splits dest: query_since_set)
    ultimately show "c - late_window < y \<and> y \<le> c" by (simp add: window_start_def)
  qed
  moreover have "seen_ok seen_empty c" by (simp add: seen_empty_def seen_ok_def spread_def seen_size_def)
  ultimately have "seen_ok (fold seen_add (filter (\<lambda>i. i \<le> c) (map fst rows)) seen_empty) c
     \<and> set (sn_order (fold seen_add (filter (\<lambda>i. i \<le> c) (map fst rows)) seen_empty))
       \<subseteq> set (filter (\<lambda>i. i \<le> c) (map fst rows)) \<union> set (sn_order seen_empty)"
    using fold_seen_ok by blast
  moreover have "sn_order seen_empty = []" by (simp add: seen_empty_def)
  ultimately show ?thesis using Some by (auto simp: fresh_window_def)
qed

text \<open>What the worker holds of the ids when it reads the pages from cursor \<open>c\<close>.\<close>

definition held :: "worker \<Rightarrow> ev_source \<Rightarrow> source_reads \<Rightarrow> int \<Rightarrow> seen" where
  "held wk so rd c = (case map_of (wk_seen wk) (so_key so) of Some s \<Rightarrow> s | None \<Rightarrow> fresh_window c (sr_window rd))"

definition start_drain :: "worker \<Rightarrow> ev_source \<Rightarrow> source_reads \<Rightarrow> int \<Rightarrow> drain_state" where
  "start_drain wk so rd c =
     \<lparr>ds_events = wk_events wk, ds_seen = held wk so rd c, ds_cursor = c, ds_from = window_start c, ds_rows = []\<rparr>"

lemma held_ok:
  assumes "worker_ok h c0 so wk" "cursor_of (wk_cursors wk) (so_key so) = Some c"
  shows "seen_ok (held wk so rd c) c \<and> remembers h (held wk so rd c) c
    \<and> set (sn_order (held wk so rd c)) \<subseteq> h \<union> {..c0}"
  using assms fresh_window_ok [of c "sr_window rd"]
  by (auto simp: worker_ok_def held_def remembers_def split: option.splits)

lemma read_source_eq:
  "read_source w clk so rd c wk =
     (let (d, r) = drain w clk so (sr_pages rd) (start_drain wk so rd c)
      in (wk\<lparr>wk_cursors := (if c < ds_cursor d then set_cursor (so_key so) (ds_cursor d) (wk_cursors wk)
                            else wk_cursors wk),
             wk_seen := AList.update (so_key so) (ds_seen d) (wk_seen wk), wk_events := ds_events d\<rparr>, ds_rows d, r))"
  by (simp add: read_source_def start_drain_def held_def Let_def)

lemma read_source_ok:
  assumes "worker_ok h c0 so wk" "cursor_of (wk_cursors wk) (so_key so) = Some c" "reads_ok (sr_pages rd)"
    "read_source w clk so rd c wk = (wk1, rows, r)"
  shows "worker_ok (h \<union> ids rows) c0 so wk1 \<and> distinct (map fst rows) \<and> ids rows \<inter> h = {}"
proof -
  let ?d = "start_drain wk so rd c"
  obtain d where d: "drain w clk so (sr_pages rd) ?d = (d, r)" "rows = ds_rows d"
    "wk1 = wk\<lparr>wk_cursors := (if c < ds_cursor d then set_cursor (so_key so) (ds_cursor d) (wk_cursors wk)
                            else wk_cursors wk),
             wk_seen := AList.update (so_key so) (ds_seen d) (wk_seen wk), wk_events := ds_events d\<rparr>"
    using assms(4) by (auto simp: read_source_eq Let_def split: prod.splits)
  have h: "seen_ok (held wk so rd c) c" "remembers h (held wk so rd c) c"
      "set (sn_order (held wk so rd c)) \<subseteq> h \<union> {..c0}"
    using held_ok [OF assms(1,2)] by auto
  then have "page_ok h ?d (ds_cursor ?d)" "ds_cursor ?d - late_window \<le> ds_from ?d"
    by (auto simp: page_ok_def start_drain_def ids_def window_start_def)
  from drain_ok [OF this assms(3), of w clk so] have ok: "page_ok h d (ds_cursor d)" "c \<le> ds_cursor d"
    using d(1) by (simp_all add: start_drain_def)
  have "set (sn_set (ds_seen d)) \<subseteq> set (sn_set (held wk so rd c)) \<union> ids rows"
    using drain_grows [of w clk so "sr_pages rd" ?d] d by (simp add: start_drain_def)
  moreover have "set (sn_set (held wk so rd c)) = set (sn_order (held wk so rd c))" using h(1) by (simp add: seen_ok_def)
  moreover have "set (sn_set (ds_seen d)) = set (sn_order (ds_seen d))" using ok(1) by (simp add: page_ok_def seen_ok_def)
  ultimately have "set (sn_order (ds_seen d)) \<subseteq> h \<union> ids rows \<union> {..c0}" using h(3) by auto
  moreover have "cursor_of (wk_cursors wk1) (so_key so) = Some (ds_cursor d)"
    using d(3) assms(2) ok(2) by (auto simp: cursor_of_def set_cursor_def dict_simps)
  moreover have "map_of (wk_seen wk1) (so_key so) = Some (ds_seen d)" using d(3) by (simp add: dict_simps)
  ultimately show ?thesis using ok(1) d(2) by (auto simp: worker_ok_def page_ok_def)
qed

lemma tick_source_steady:
  assumes "worker_ok h c0 so wk" "steady w so [(clk, rd)] wk" "tail_of (sr_tail rd) \<noteq> None"
    "cursor_of (wk_cursors wk) (so_key so) = Some c"
  shows "tick_source w clk so rd wk = read_source w clk so rd c wk"
  using assms by (auto simp: tick_source_def tail_of_def split: table_read.splits)

lemma tick_source_ok:
  assumes "worker_ok h c0 so wk" "steady w so [(clk, rd)] wk" "tick_source w clk so rd wk = (wk1, rows, r)"
  shows "worker_ok (h \<union> ids rows) c0 so wk1 \<and> distinct (map fst rows) \<and> ids rows \<inter> h = {}"
proof (cases "tail_of (sr_tail rd)")
  case None
  then have "wk1 = wk \<and> rows = []" using assms(3)
    by (auto simp: tick_source_def tail_of_def split: table_read.splits)
  then show ?thesis using assms(1) by (simp add: ids_def)
next
  case (Some t)
  obtain c where c: "cursor_of (wk_cursors wk) (so_key so) = Some c"
    using assms(1) by (auto simp: worker_ok_def split: option.splits)
  have "read_source w clk so rd c wk = (wk1, rows, r)"
    using tick_source_steady [OF assms(1,2) _ c] Some assms(3) by simp
  moreover have "reads_ok (sr_pages rd)" using assms(2) by simp
  ultimately show ?thesis using read_source_ok [OF assms(1) c] by blast
qed

lemma tick_run_ok:
  assumes "worker_ok h c0 so wk" "steady w so ticks wk" "tick_run w so ticks wk = (wk1, rows)"
  shows "worker_ok (h \<union> ids rows) c0 so wk1 \<and> distinct (map fst rows) \<and> ids rows \<inter> h = {}"
  using assms
proof (induction ticks arbitrary: h wk rows)
  case Nil
  then show ?case by (simp add: ids_def)
next
  case (Cons tick ticks)
  obtain clk rd where t: "tick = (clk, rd)" by (cases tick)
  obtain wk' first r where f: "tick_source w clk so rd wk = (wk', first, r)" by (cases "tick_source w clk so rd wk") auto
  obtain rest where rest: "tick_run w so ticks wk' = (wk1, rest)" "rows = first @ rest"
    using Cons.prems(3) t f by (auto simp: Let_def split: prod.splits)
  have st: "steady w so [(clk, rd)] wk" "steady w so ticks wk'" using Cons.prems(2) t f by auto
  have a: "worker_ok (h \<union> ids first) c0 so wk'" "distinct (map fst first)" "ids first \<inter> h = {}"
    using tick_source_ok [OF Cons.prems(1) st(1) f] by auto
  have "worker_ok (h \<union> ids first \<union> ids rest) c0 so wk1 \<and> distinct (map fst rest) \<and> ids rest \<inter> (h \<union> ids first) = {}"
    by (rule Cons.IH [OF a(1) st(2) rest(1)])
  moreover have "ids rows = ids first \<union> ids rest" using rest(2) by (auto simp: ids_def)
  ultimately show ?case using a rest(2) by (auto simp: ids_def Un_assoc)
qed

lemma tick_run_append:
  "tick_run w so (ts @ us) wk =
     (let (wk1, a) = tick_run w so ts wk; (wk2, b) = tick_run w so us wk1 in (wk2, a @ b))"
  by (induction ts arbitrary: wk) (auto simp: Let_def split: prod.splits)

lemma steady_append:
  "steady w so (ts @ us) wk = (steady w so ts wk \<and> steady w so us (fst (tick_run w so ts wk)))"
  by (induction ts arbitrary: wk) (auto simp: Let_def split: prod.splits)

lemma start_drain_simps [simp]:
  "ds_from (start_drain wk so rd c) = window_start c" "ds_seen (start_drain wk so rd c) = held wk so rd c"
  by (simp_all add: start_drain_def)


text \<open>Two ticks over the audit log: entry 11 becomes visible after 12 was read, and is evaluated in the second.\<close>

definition demo_env :: event_env where
  "demo_env = \<lparr>ev_parse = (\<lambda>p. Some []), ev_search = (\<lambda>p s. Some False), ev_repr = (\<lambda>v. [])\<rparr>"

definition demo_rule :: doc where
  "demo_rule = [(''id'', CStr ''r1''), (''name'', CStr ''logins''), (''enabled'', CBool True),
     (''source'', CStr ''audit''), (''events'', CList [CStr ''login_failed'']), (''channels'', CList [CStr ''email'']),
     (''cooldown'', CInt 60)]"

definition demo_world :: event_world where
  "demo_world = \<lparr>ew_env = demo_env, ew_channels = [''email''], ew_matrix = Some (\<lambda>c. True),
     ew_send = (\<lambda>n c. Inr (True, [])), ew_label = (\<lambda>s. s), ew_json = (\<lambda>v. []), ew_dash = '' - '',
     ew_rules = [demo_rule], ew_cooldown = CNone\<rparr>"

definition demo_events :: event_state where
  "demo_events = \<lparr>es_last = [], es_saved = [], es_log = \<lparr>nl_rows = [], nl_last = 0\<rparr>, es_rows = [], es_sent = []\<rparr>"

definition demo_entries :: "int list \<Rightarrow> ev_row list" where
  "demo_entries is = map (\<lambda>i. (i, [(''event'', CStr ''login_failed'')])) is"

definition demo_reads :: "int list \<Rightarrow> source_reads" where
  "demo_reads is = (let t = Visible (demo_entries is) in
     \<lparr>sr_tail = t, sr_seed = True, sr_window = t, sr_pages = replicate 14 (t, True)\<rparr>)"

definition audit_source :: ev_source where
  "audit_source = \<lparr>so_key = ''audit'', so_kind = ''audit'', so_uid = [], so_name = []\<rparr>"

definition demo_worker :: worker where
  "demo_worker = \<lparr>wk_cursors = [(''audit'', 10)], wk_seen = [], wk_events = demo_events, wk_leading = True\<rparr>"


text \<open>
  Without those conditions rows do come twice: when the window cannot be read at the first tick, the rows
  behind the cursor count as new.
\<close>

lemma unread_window_replays:
  "let rd = (demo_reads [9, 10, 12])\<lparr>sr_window := Read_error\<rparr>
   in map fst (snd (tick_run demo_world audit_source [(\<lambda>n. 1000, rd)] demo_worker)) = [9, 10, 12]"
  by code_simp

end
