(* ===== verification/Event_Fire.thy ===== *)
theory Event_Fire
  imports Event_Once
begin

text \<open>
  When a rule notifies: exactly on a match outside its cooldown, and never twice within it, whatever restarts of
  the worker and changes of the leading replica come in between.
\<close>

section \<open>One event, rule by rule\<close>

lemma dispatch_event_cases:
  assumes "dispatch_event w now source r ctx st = Some st2"
  shows "es_last st2 = es_last st \<and> es_saved st2 = es_saved st
    \<and> (es_sent st2 = es_sent st \<and> wanted_channels w r = Some []
       \<or> (\<exists>chans. wanted_channels w r = Some chans \<and> chans \<noteq> [] \<and> es_sent st2 = es_sent st @ [(now, notice_of w source r ctx,
            map fst (run_dispatch (ew_matrix w) (ew_channels w) (ew_send w (notice_of w source r ctx)) ''event'' (Some chans)))]))"
  using assms by (auto simp: dispatch_event_def record_notification_def Let_def split: option.splits list.splits)

lemma nt_rule_notice [simp]: "nt_rule (notice_of w source r ctx) = rule_uid r"
  by (simp add: notice_of_def Let_def)

lemma run_dispatch_names:
  "map fst (run_dispatch mx chans send kind (Some ws)) = (if mx = None then [] else filter (\<lambda>n. n \<in> set ws) chans)"
  by (cases mx) (simp_all add: run_dispatch_def comp_def)

text \<open>The channels a rule reaches.\<close>

definition reached :: "event_world \<Rightarrow> doc \<Rightarrow> string list" where
  "reached w r = (case wanted_channels w r of
      None \<Rightarrow> []
    | Some ws \<Rightarrow> if ew_matrix w = None then [] else filter (\<lambda>n. n \<in> set ws) (ew_channels w))"

definition fires :: "event_world \<Rightarrow> time \<Rightarrow> string \<Rightarrow> doc \<Rightarrow> string \<Rightarrow> event_state \<Rightarrow> doc \<Rightarrow> bool" where
  "fires w now source ctx log_source st r \<longleftrightarrow>
     rule_listens w source log_source r \<and> event_matches (ew_env w) source r ctx = Some True
     \<and> \<not> cooling w now r st \<and> wanted_channels w r \<noteq> Some []"

text \<open>A rule that neither its conditions nor its channels make raise.\<close>

definition sound_rule :: "event_world \<Rightarrow> string \<Rightarrow> doc \<Rightarrow> doc \<Rightarrow> bool" where
  "sound_rule w source ctx r \<longleftrightarrow> event_matches (ew_env w) source r ctx \<noteq> None \<and> wanted_channels w r \<noteq> None"

lemma cooling_other:
  assumes "rule_uid r \<noteq> u" "es_last st2 = AList.update u now (es_last st)"
  shows "cooling w now r st2 = cooling w now r st"
  using assms by (simp add: cooling_def dict_simps)

lemma fires_cong:
  "es_last st2 = es_last st \<Longrightarrow> fires w now source ctx ls st2 r = fires w now source ctx ls st r"
  by (simp add: fires_def cooling_def)

lemma eval_rules_sent:
  assumes "distinct (map rule_uid rs)" "list_all (sound_rule w source ctx) rs"
  shows "es_sent (eval_rules w now source ctx ls rs st) =
    es_sent st @ map (\<lambda>r. (now, notice_of w source r ctx, reached w r)) (filter (fires w now source ctx ls st) rs)"
  using assms
proof (induction rs arbitrary: st)
  case (Cons r rs)
  obtain b where b: "event_matches (ew_env w) source r ctx = Some b" and ch: "wanted_channels w r \<noteq> None"
    using Cons.prems(2) by (auto simp: sound_rule_def)
  let ?go = "rule_listens w source ls r \<and> b \<and> \<not> cooling w now r st"
  show ?case
  proof (cases ?go)
    case False
    then have "eval_rules w now source ctx ls (r # rs) st = eval_rules w now source ctx ls rs st" using b by auto
    moreover have "\<not> fires w now source ctx ls st r" using False b by (auto simp: fires_def)
    ultimately show ?thesis using Cons by simp
  next
    case True
    let ?st1 = "note_fired now (rule_uid r) st"
    have "dispatch_event w now source r ctx ?st1 \<noteq> None"
      using ch by (auto simp: dispatch_event_def Let_def split: option.splits list.splits)
    then obtain st2 where st2: "dispatch_event w now source r ctx ?st1 = Some st2" by blast
    then have ev: "eval_rules w now source ctx ls (r # rs) st = eval_rules w now source ctx ls rs st2"
      using True b by (simp add: Let_def)
    have last2: "es_last st2 = AList.update (rule_uid r) now (es_last st)"
      using dispatch_event_cases [OF st2] by (simp add: note_fired_def)
    have "filter (fires w now source ctx ls st2) rs = filter (fires w now source ctx ls st) rs"
    proof (rule filter_cong [OF refl])
      fix r' assume "r' \<in> set rs"
      moreover have "rule_uid r \<notin> rule_uid ` set rs" using Cons.prems(1) by simp
      ultimately have "rule_uid r' \<noteq> rule_uid r" by (metis image_eqI)
      then show "fires w now source ctx ls st2 r' = fires w now source ctx ls st r'"
        by (simp add: fires_def cooling_other [OF _ last2])
    qed
    moreover have "es_sent st2 = es_sent st @
        (if fires w now source ctx ls st r then [(now, notice_of w source r ctx, reached w r)] else [])"
      using dispatch_event_cases [OF st2] True b
      by (auto simp: fires_def reached_def run_dispatch_names note_fired_def)
    ultimately show ?thesis using ev Cons by simp
  qed
qed simp

section \<open>The life of a worker\<close>

text \<open>
  What happens to the cooldowns: an event is evaluated, the worker is started anew and reads the saved
  ones, or it takes the lead and merges them. Each comes some time after the one before.
\<close>

datatype fire_op = Fo_event string doc string | Fo_restart | Fo_lead bool

definition attach_state :: "event_state \<Rightarrow> event_state" where
  "attach_state st = st\<lparr>es_last := es_saved st\<rparr>"

fun fire_op_step :: "event_world \<Rightarrow> time \<Rightarrow> fire_op \<Rightarrow> event_state \<Rightarrow> event_state" where
  "fire_op_step w now (Fo_event source ctx log_source) st = eval_event w now source ctx log_source st"
| "fire_op_step w now Fo_restart st = attach_state st"
| "fire_op_step w now (Fo_lead readable) st = refresh_cooldowns readable st"

fun fire_step :: "event_world \<Rightarrow> time \<times> event_state \<Rightarrow> time \<times> fire_op \<Rightarrow> time \<times> event_state" where
  "fire_step w (t, st) (dt, op) = (t + dt, fire_op_step w (t + dt) op st)"

definition rules_apart :: "event_world \<Rightarrow> bool" where
  "rules_apart w \<longleftrightarrow> distinct (map rule_uid (ew_rules w)) \<and> list_all (\<lambda>r. Config_Tree.truthy (rule_uid r)) (ew_rules w)"

text \<open>Two notifications of a rule are its cooldown apart.\<close>

definition spaced :: "event_world \<Rightarrow> (time \<times> notice \<times> string list) list \<Rightarrow> bool" where
  "spaced w sent = sorted_wrt (\<lambda>(t1, n1, c1) (t2, n2, c2).
     list_all (\<lambda>r. rule_uid r = nt_rule n1 \<and> rule_uid r = nt_rule n2 \<longrightarrow> of_int (rule_cooldown w r) \<le> t2 - t1) (ew_rules w)) sent"

definition fire_ok :: "event_world \<Rightarrow> time \<times> event_state \<Rightarrow> bool" where
  "fire_ok w = (\<lambda>(t, st). spaced w (es_sent st) \<and> (\<forall>(ts, n, cs) \<in> set (es_sent st).
     ts \<le> t \<and> ts \<le> dget (es_last st) (nt_rule n) 0 \<and> ts \<le> dget (es_saved st) (nt_rule n) 0))"

definition sent_grows :: "time \<times> event_state \<Rightarrow> time \<times> event_state \<Rightarrow> bool" where
  "sent_grows a b = (\<exists>rest. es_sent (snd b) = es_sent (snd a) @ rest)"

lemma rule_cooldown_nonneg: "0 \<le> rule_cooldown w r"
  by (auto simp: rule_cooldown_def default_cooldown_def Let_def split: option.splits)

lemma fire_ok_fired:
  assumes "fire_ok w (now, st)" "rules_apart w" "r \<in> set (ew_rules w)" "\<not> cooling w now r st"
    and "es_last st2 = AList.update (rule_uid r) now (es_last st)"
    and "es_saved st2 = AList.update (rule_uid r) now (es_saved st)"
    and "es_sent st2 = es_sent st \<or> es_sent st2 = es_sent st @ [(now, n, cs)]" "nt_rule n = rule_uid r"
  shows "fire_ok w (now, st2)"
proof -
  have old: "ts \<le> now" "ts \<le> dget (es_last st) (nt_rule m) 0" if "(ts, m, c) \<in> set (es_sent st)" for ts m c
    using assms(1) that by (auto simp: fire_ok_def)
  have "spaced w (es_sent st2)"
  proof (cases "es_sent st2 = es_sent st")
    case False
    then have snt: "es_sent st2 = es_sent st @ [(now, n, cs)]" using assms(7) by blast
    have "of_int (rule_cooldown w r') \<le> now - ts"
      if "(ts, m, c) \<in> set (es_sent st)" "r' \<in> set (ew_rules w)" "rule_uid r' = nt_rule m" "rule_uid r' = rule_uid r"
      for ts m c r'
    proof -
      have "r' = r" using that(2,4) assms(2,3) by (auto simp: rules_apart_def distinct_map inj_on_def)
      with that old [OF that(1)] assms(4) show ?thesis by (auto simp: cooling_def Let_def)
    qed
    then show ?thesis using assms(1,8) snt
      by (auto simp: fire_ok_def spaced_def sorted_wrt_append list_all_iff)
  qed (use assms(1) in \<open>simp add: fire_ok_def\<close>)
  then show ?thesis using assms(1,5,6,7,8)
    by (auto simp: fire_ok_def dict_simps)
qed

lemma eval_rules_ok:
  assumes "fire_ok w (now, st)" "rules_apart w" "set rs \<subseteq> set (ew_rules w)"
  shows "fire_ok w (now, eval_rules w now source ctx ls rs st)
    \<and> sent_grows (now, st) (now, eval_rules w now source ctx ls rs st)"
  using assms
proof (induction rs arbitrary: st)
  case Nil
  then show ?case by (simp add: sent_grows_def)
next
  case (Cons r rs)
  show ?case
  proof (cases "rule_listens w source ls r \<and> event_matches (ew_env w) source r ctx = Some True \<and> \<not> cooling w now r st")
    case False
    then have "eval_rules w now source ctx ls (r # rs) st = st
        \<or> eval_rules w now source ctx ls (r # rs) st = eval_rules w now source ctx ls rs st"
      by (auto split: option.splits)
    then show ?thesis using Cons by (auto simp: sent_grows_def)
  next
    case True
    let ?st1 = "note_fired now (rule_uid r) st"
    have t: "Config_Tree.truthy (rule_uid r)" and mem: "r \<in> set (ew_rules w)"
      using Cons.prems(2,3) by (auto simp: rules_apart_def list_all_iff)
    have st1: "es_last ?st1 = AList.update (rule_uid r) now (es_last st)"
      "es_saved ?st1 = AList.update (rule_uid r) now (es_saved st)" "es_sent ?st1 = es_sent st"
      using t by (simp_all add: note_fired_def set_cooldown_def)
    show ?thesis
    proof (cases "dispatch_event w now source r ctx ?st1")
      case None
      then have "eval_rules w now source ctx ls (r # rs) st = ?st1" using True by (simp add: Let_def)
      moreover have "fire_ok w (now, ?st1)"
        by (rule fire_ok_fired [OF Cons.prems(1,2) mem _ st1(1,2) disjI1 [OF st1(3)] nt_rule_notice]) (use True in blast)
      ultimately show ?thesis using st1(3) by (simp add: sent_grows_def)
    next
      case (Some st2)
      note d = dispatch_event_cases [OF Some]
      have ev: "eval_rules w now source ctx ls (r # rs) st = eval_rules w now source ctx ls rs st2"
        using True Some by (simp add: Let_def)
      have "fire_ok w (now, st2)"
        using fire_ok_fired [OF Cons.prems(1,2) mem, of st2 "notice_of w source r ctx"] True d st1 by auto
      then have "fire_ok w (now, eval_rules w now source ctx ls rs st2)"
        "sent_grows (now, st2) (now, eval_rules w now source ctx ls rs st2)"
        using Cons by auto
      moreover have "sent_grows (now, st) (now, st2)" using d st1(3) by (auto simp: sent_grows_def)
      ultimately show ?thesis unfolding ev by (auto simp: sent_grows_def)
    qed
  qed
qed

lemma refresh_fold:
  "dget m u 0 \<le> dget (fold (\<lambda>(uid, ts :: time) m. if dget m uid 0 < ts then AList.update uid ts m else m) saved m) u 0"
proof (induction saved arbitrary: m)
  case (Cons p saved)
  obtain uid ts where p: "p = (uid, ts)" by (cases p)
  let ?m = "if dget m uid 0 < ts then AList.update uid ts m else m"
  have "dget m u 0 \<le> dget ?m u 0" by (auto simp: dict_simps)
  also have "\<dots> \<le> dget (fold (\<lambda>(uid, ts) m. if dget m uid 0 < ts then AList.update uid ts m else m) saved ?m) u 0"
    by (rule Cons.IH)
  finally show ?case using p by simp
qed simp

lemma fire_ok_later: "fire_ok w (t, st) \<Longrightarrow> 0 \<le> dt \<Longrightarrow> fire_ok w (t + dt, st)"
  by (force simp: fire_ok_def)

lemma fire_step_ok:
  assumes "fire_ok w s \<and> rules_apart w" "(\<lambda>(dt, op). 0 \<le> dt) e"
  shows "(fire_ok w (fire_step w s e) \<and> rules_apart w) \<and> sent_grows s (fire_step w s e)"
proof -
  obtain t st dt op where s: "s = (t, st)" "e = (dt, op)" by (cases s, cases e)
  have later: "fire_ok w (t + dt, st)" using assms s by (simp add: fire_ok_later)
  show ?thesis
  proof (cases op)
    case (Fo_event source ctx ls)
    have "fire_ok w (t + dt, eval_event w (t + dt) source ctx ls st)
        \<and> sent_grows (t + dt, st) (t + dt, eval_event w (t + dt) source ctx ls st)"
      using eval_rules_ok [OF later, of "ew_rules w"] assms(1) later
      by (auto simp: eval_event_def sent_grows_def)
    then show ?thesis using s Fo_event assms(1) by (simp add: sent_grows_def)
  next
    case Fo_restart
    have "fire_ok w (t + dt, attach_state st)" using later by (auto simp: fire_ok_def attach_state_def)
    then show ?thesis using s Fo_restart assms(1) by (simp add: sent_grows_def attach_state_def)
  next
    case (Fo_lead readable)
    have "fire_ok w (t + dt, refresh_cooldowns readable st)"
      using later refresh_fold order_trans by (fastforce simp: fire_ok_def refresh_cooldowns_def)
    then show ?thesis using s Fo_lead assms(1) by (simp add: sent_grows_def refresh_cooldowns_def)
  qed
qed

interpretation firing: guided_machine "fire_step w" "\<lambda>s. fire_ok w s \<and> rules_apart w" "\<lambda>(dt, op). 0 \<le> dt" sent_grows for w
  by unfold_locales
    (use fire_step_ok in \<open>blast, blast, auto simp: sent_grows_def\<close>)



end
