(* ===== verification/Event_Clean.thy ===== *)
theory Event_Clean
  imports Event_Editor
begin

text \<open>
  What the editor stores means what was submitted, and the table of rules keeps its promises under any requests.
\<close>

section \<open>Cleaning keeps the conditions\<close>

text \<open>The form the editor sends: known words in lower case, texts without white space around.\<close>

definition plain_choice :: "string list \<Rightarrow> cval \<Rightarrow> bool" where
  "plain_choice allowed v = (case v of CStr s \<Rightarrow> s = [] \<or> List.member allowed s | _ \<Rightarrow> \<not> Config_Tree.truthy v)"

definition plain_text :: "cval \<Rightarrow> bool" where
  "plain_text v = (case v of CStr s \<Rightarrow> py_strip s = s | _ \<Rightarrow> \<not> Config_Tree.truthy v)"

definition plain_matcher :: "cval \<Rightarrow> bool" where
  "plain_matcher m = (case m of
      CDict d \<Rightarrow> plain_choice match_types (cget d ''type'') \<and> plain_choice match_fields (cget d ''field'')
                 \<and> plain_text (cget d ''text'')
    | _ \<Rightarrow> False)"

definition plain_group :: "cval \<Rightarrow> bool" where
  "plain_group g = (case g of CList ms \<Rightarrow> ms \<noteq> [] \<and> list_all plain_matcher ms | _ \<Rightarrow> False)"

definition plain_legacy :: "doc \<Rightarrow> bool" where
  "plain_legacy data = (plain_choice match_types (cget data ''match_type'') \<and> plain_text (cget data ''match_text''))"

definition plain_conditions :: "doc \<Rightarrow> bool" where
  "plain_conditions data = (case cget data ''match_groups'' of
      CList (g # gs) \<Rightarrow> list_all plain_group (g # gs) | _ \<Rightarrow> plain_legacy data)"

lemma known_words: "list_all (\<lambda>s. py_lower (py_strip s) = s) (match_types @ match_fields)"
  by code_simp

lemma choice_listed:
  "List.member match_types s \<Longrightarrow> choice match_types d s = s"
  "List.member match_fields s \<Longrightarrow> choice match_fields d s = s"
  using known_words by (auto simp: choice_def Let_def list_all_iff)

lemma plain_choice_text:
  assumes "plain_choice allowed v" "List.member allowed d" "need_text (cor v (CStr d)) = Inr s"
  shows "List.member allowed s \<and> text_of e (cor v (CStr d)) = s"
  using assms by (cases v) (auto simp: plain_choice_def cor_def need_text_def text_of_def split: if_splits)

lemma plain_text_text:
  assumes "plain_text v" "need_text (cor v (CStr [])) = Inr s"
  shows "py_strip s = s \<and> text_of e (cor v (CStr [])) = s"
  using assms by (cases v) (auto simp: plain_text_def cor_def need_text_def text_of_def py_strip_def split: if_splits)

lemma default_words: "List.member match_types ''any''" "List.member match_fields ''message''"
  by (simp_all add: match_types_def match_fields_def)

lemma text_matches_all: "ty = ''any'' \<or> (needle = [] \<and> ty \<noteq> ''not_contains'') \<Longrightarrow> text_matches e ty needle text"
  by (auto simp: text_matches_def)

lemma match_types_nonempty: "List.member match_types ty \<Longrightarrow> ty \<noteq> []"
  by (auto simp: match_types_def)

lemma match_fields_nonempty: "List.member match_fields f \<Longrightarrow> f \<noteq> []"
  by (auto simp: match_fields_def)

lemma clean_matcher_keeps:
  assumes "plain_matcher m" "clean_matcher m = Inr c"
  shows "case c of None \<Rightarrow> False | Some None \<Rightarrow> matcher_holds e ctx m
    | Some (Some d) \<Rightarrow> matcher_holds e ctx (CDict d) = matcher_holds e ctx m"
proof -
  obtain d where m: "m = CDict d" "plain_choice match_types (cget d ''type'')"
      "plain_choice match_fields (cget d ''field'')" "plain_text (cget d ''text'')"
    using assms(1) by (cases m) (auto simp: plain_matcher_def)
  obtain ty fld tx where t: "need_text (cor (cget d ''type'') (CStr ''any'')) = Inr ty"
      "need_text (cor (cget d ''field'') (CStr ''message'')) = Inr fld"
      "need_text (cor (cget d ''text'') (CStr [])) = Inr tx"
    and c: "c = Some (if choice match_types ''any'' ty = ''any'' \<or> (py_strip tx = [] \<and> choice match_types ''any'' ty \<noteq> ''not_contains'') then None
                else Some [(''field'', CStr (choice match_fields ''message'' fld)),
                           (''type'', CStr (choice match_types ''any'' ty)), (''text'', CStr (py_strip tx))])"
    using assms(2) m(1) by (auto simp: clean_matcher_def Let_def)
  have ty: "List.member match_types ty" "text_of e (cor (cget d ''type'') (CStr ''any'')) = ty"
    using plain_choice_text [OF m(2) default_words(1) t(1)] by auto
  have fld: "List.member match_fields fld" "text_of e (cor (cget d ''field'') (CStr ''message'')) = fld"
    using plain_choice_text [OF m(3) default_words(2) t(2)] by auto
  have tx: "py_strip tx = tx" "text_of e (cor (cget d ''text'') (CStr [])) = tx"
    using plain_text_text [OF m(4) t(3)] by auto
  have holds: "matcher_holds e ctx m = text_matches e ty tx (ctx_field e ctx fld)"
    using m(1) ty fld tx by (simp add: matcher_holds_def)
  have c': "c = Some (if ty = ''any'' \<or> (tx = [] \<and> ty \<noteq> ''not_contains'') then None
                else Some [(''field'', CStr fld), (''type'', CStr ty), (''text'', CStr tx)])"
    using c choice_listed(1) [OF ty(1), of "''any''"] choice_listed(2) [OF fld(1), of "''message''"] tx(1) by simp
  have again: "matcher_holds e ctx (CDict [(''field'', CStr fld), (''type'', CStr ty), (''text'', CStr tx)])
      = text_matches e ty tx (ctx_field e ctx fld)"
    using match_types_nonempty [OF ty(1)] match_fields_nonempty [OF fld(1)]
    by (simp add: matcher_holds_def cget_def cor_def text_of_def)
  show ?thesis unfolding c' using holds again text_matches_all by auto
qed

lemma clean_group_keeps:
  assumes "list_all plain_matcher ms" "clean_group ms = Inr (out, noise)"
  shows "list_all (matcher_holds e ctx) out = list_all (matcher_holds e ctx) ms \<and> (out = [] \<longrightarrow> ms = [] \<or> noise)"
  using assms
proof (induction ms arbitrary: out noise)
  case (Cons m ms)
  obtain c out' noise' where c: "clean_matcher m = Inr c" "clean_group ms = Inr (out', noise')"
    "(out, noise) = (case c of None \<Rightarrow> (out', noise') | Some None \<Rightarrow> (out', True) | Some (Some d) \<Rightarrow> (CDict d # out', noise'))"
    using Cons.prems(2) by auto
  have IH: "list_all (matcher_holds e ctx) out' = list_all (matcher_holds e ctx) ms \<and> (out' = [] \<longrightarrow> ms = [] \<or> noise')"
    by (rule Cons.IH [OF _ c(2)]) (use Cons.prems(1) in simp)
  show ?case using clean_matcher_keeps [OF _ c(1), of e ctx] Cons.prems(1) c(3) IH
    by (auto split: option.splits)
qed simp

lemma clean_groups_keep:
  assumes "list_all plain_group gs" "clean_groups gs = Inr (everything, out)"
  shows "if everything then list_ex (group_holds e ctx) gs
    else list_ex (group_holds e ctx) out = list_ex (group_holds e ctx) gs \<and> (out = [] \<longrightarrow> gs = [])"
  using assms
proof (induction gs arbitrary: out everything)
  case (Cons g gs)
  obtain ms where g: "g = CList ms" "ms \<noteq> []" "list_all plain_matcher ms"
    using Cons.prems(1) by (cases g) (auto simp: plain_group_def)
  obtain o1 noise where cg: "clean_group ms = Inr (o1, noise)" using Cons.prems(2) g(1) by auto
  note k = clean_group_keeps [OF g(3) cg, of e ctx]
  have gh: "group_holds e ctx g = list_all (matcher_holds e ctx) ms" using g by (simp add: group_holds_def)
  show ?case
  proof (cases "o1 = []")
    case True
    then have "noise" "list_all (matcher_holds e ctx) ms" using k g(2) by auto
    moreover have "everything" using Cons.prems(2) g(1) cg True \<open>noise\<close> by simp
    ultimately show ?thesis using gh by simp
  next
    case False
    then obtain rest where r: "clean_groups gs = Inr (everything, rest)" "out = CList o1 # rest"
      using Cons.prems(2) g(1) cg by auto
    have "group_holds e ctx (CList o1) = group_holds e ctx g" using False k gh by (simp add: group_holds_def)
    then show ?thesis using Cons.IH [OF _ r(1)] Cons.prems(1) r(2) by (auto split: if_splits)
  qed
qed simp

lemma legacy_keeps:
  assumes "plain_legacy data" "legacy_groups data = Inr gs"
  shows "legacy_holds e data ctx = (gs = [] \<or> list_ex (group_holds e ctx) gs)"
proof -
  obtain ty tx where t: "need_text (cor (cget data ''match_type'') (CStr ''any'')) = Inr ty"
      "need_text (cor (cget data ''match_text'') (CStr [])) = Inr tx"
    and gs: "gs = (if choice match_types ''any'' ty \<noteq> ''any'' \<and> (py_strip tx \<noteq> [] \<or> choice match_types ''any'' ty = ''not_contains'')
               then [CList [CDict [(''type'', CStr (choice match_types ''any'' ty)), (''text'', CStr (py_strip tx))]]] else [])"
    using assms(2) by (auto simp: legacy_groups_def Let_def)
  have ty: "List.member match_types ty" "text_of e (cor (cget data ''match_type'') (CStr ''any'')) = ty"
    using plain_choice_text [OF _ default_words(1) t(1)] assms(1) by (auto simp: plain_legacy_def)
  have tx: "py_strip tx = tx" "text_of e (cor (cget data ''match_text'') (CStr [])) = tx"
    using plain_text_text [OF _ t(2)] assms(1) by (auto simp: plain_legacy_def)
  have ch: "choice match_types ''any'' ty = ty" using choice_listed(1) [OF ty(1)] by simp
  have holds: "legacy_holds e data ctx = text_matches e ty tx (ctx_field e ctx ''message'')"
    using ty(2) tx(2) by (simp add: legacy_holds_def ctx_field_def)
  have "group_holds e ctx (CList [CDict [(''type'', CStr ty), (''text'', CStr tx)]])
      = text_matches e ty tx (ctx_field e ctx ''message'')"
    using match_types_nonempty [OF ty(1)] by (simp add: group_holds_def matcher_holds_def cget_def cor_def text_of_def)
  then show ?thesis using gs ch tx(1) holds text_matches_all by auto
qed

lemma clean_rule_fields:
  assumes "clean_rule e data = Inr rule"
  obtains src chans hooks events tags name desc host app groups where
    "iter_of (cor (cget data ''channels'') (CList [])) = Inr chans"
    "clean_match_groups data = Inr groups"
    "rule = [
         (''name'', CStr (if py_strip name = [] then ''Rule'' else py_strip name)),
         (''description'', CStr (take 500 (py_strip desc))),
         (''enabled'', CBool (case map_of data ''enabled'' of None \<Rightarrow> True | Some v \<Rightarrow> Config_Tree.truthy v)),
         (''source'', CStr (choice rule_sources ''audit'' src)),
         (''events'', CList (clean_events e events)),
         (''tags'', CList (clean_tags e [] tags)),
         (''severity_max'', clean_severity (cget data ''severity_max'')),
         (''host'', CStr (py_strip host)),
         (''app'', CStr (py_strip app)),
         (''log_source'', CStr (if choice rule_sources ''audit'' src = ''syslog''
            then take 64 (py_strip (text_of e (cor (cget data ''log_source'') (CStr [])))) else [])),
         (''match_groups'', CList groups),
         (''channels'', CList (filter (\<lambda>c. List.member (map CStr rule_channels) c) chans)),
         (''webhook_ids'', CList (clean_webhooks e hooks)),
         (''cooldown'', clean_cooldown (cget data ''cooldown''))]"
  using assms unfolding clean_rule_def Let_def ebind_Inr by blast


definition demo_payload :: doc where
  "demo_payload = [(''name'', CStr ''root logins''), (''source'', CStr ''syslog''), (''channels'', CList [CStr ''email'']),
     (''match_groups'', CList [CList [CDict [(''type'', CStr ''any'')], CDict [(''type'', CStr ''contains''), (''text'', CStr ''root'')]],
        CList [CDict [(''field'', CStr ''severity''), (''type'', CStr ''lte''), (''text'', CStr ''2'')]]])]"

definition plain_env :: event_env where
  "plain_env = \<lparr>ev_parse = (\<lambda>p. Some []), ev_search = (\<lambda>p s. Some False), ev_repr = (\<lambda>v. [])\<rparr>"


end
