(* ===== verification/Event_Table.thy ===== *)
theory Event_Table
  imports Event_Clean
begin

text \<open>The table of event rules under any requests: names are told apart, and only valid rules are stored.\<close>

section \<open>A valid rule\<close>

definition matcher_ok :: "event_env \<Rightarrow> cval \<Rightarrow> bool" where
  "matcher_ok e m = (case matcher_pattern e m of
      Inl err \<Rightarrow> False
    | Inr None \<Rightarrow> True
    | Inr (Some p) \<Rightarrow> ev_parse e p \<noteq> None \<and> \<not> regex_is_unsafe e p)"

definition group_ok :: "event_env \<Rightarrow> cval \<Rightarrow> bool" where
  "group_ok e g = (case g of CList ms \<Rightarrow> ms \<noteq> [] \<and> list_all (matcher_ok e) ms | _ \<Rightarrow> False)"

definition cooldown_ok :: "cval \<Rightarrow> bool" where
  "cooldown_ok v = (case v of CNone \<Rightarrow> True | CInt n \<Rightarrow> 0 \<le> n \<and> n \<le> 86400 | _ \<Rightarrow> False)"

definition severity_ok :: "cval \<Rightarrow> bool" where
  "severity_ok v = (case v of CStr s \<Rightarrow> s = [] | CInt n \<Rightarrow> 0 \<le> n \<and> n \<le> 7 | _ \<Rightarrow> False)"

definition source_ok :: "cval \<Rightarrow> cval \<Rightarrow> bool" where
  "source_ok v events =
     (v = CStr ''syslog'' \<or> (v = CStr ''audit'' \<and> (case events of CList es \<Rightarrow> es \<noteq> [] | _ \<Rightarrow> False)))"

definition channels_ok :: "cval \<Rightarrow> bool" where
  "channels_ok v = (case v of CList cs \<Rightarrow> cs \<noteq> [] \<and> set cs \<subseteq> CStr ` set rule_channels | _ \<Rightarrow> False)"

definition groups_ok :: "event_env \<Rightarrow> cval \<Rightarrow> bool" where
  "groups_ok e v = (case v of CList gs \<Rightarrow> list_all (group_ok e) gs | _ \<Rightarrow> False)"

definition settings_ok :: "event_env \<Rightarrow> doc \<Rightarrow> bool" where
  "settings_ok e d \<longleftrightarrow> channels_ok (cget d ''channels'') \<and> source_ok (cget d ''source'') (cget d ''events'')
     \<and> cooldown_ok (cget d ''cooldown'') \<and> severity_ok (cget d ''severity_max'') \<and> groups_ok e (cget d ''match_groups'')"

section \<open>Cleaning and validation give one\<close>

lemma clean_groups_shape:
  "clean_groups gs = Inr (everything, out) \<Longrightarrow> \<forall>g \<in> set out. \<exists>ms. g = CList ms \<and> ms \<noteq> []"
proof (induction gs arbitrary: out everything)
  case (Cons g gs)
  then show ?case by (cases g) (auto split: if_splits)
qed simp

lemma clean_match_groups_shape:
  assumes "clean_match_groups data = Inr gs"
  shows "\<forall>g \<in> set gs. \<exists>ms. g = CList ms \<and> ms \<noteq> []"
proof -
  obtain everything out where o1: "(case cget data ''match_groups'' of CList gs \<Rightarrow> clean_groups gs | _ \<Rightarrow> Inr (False, [])) = Inr (everything, out)"
    "(if everything then Inr [] else if out \<noteq> [] then Inr out else legacy_groups data) = Inr gs"
    using assms by (auto simp: clean_match_groups_def)
  have "\<forall>g \<in> set out. \<exists>ms. g = CList ms \<and> ms \<noteq> []"
    using o1(1) clean_groups_shape by (auto split: cval.splits)
  then show ?thesis using o1(2) by (auto simp: legacy_groups_def Let_def split: if_splits)
qed

lemma check_matchers_ok: "check_matchers e ms = Inr () \<Longrightarrow> list_all (matcher_ok e) ms"
proof (induction ms)
  case (Cons m ms)
  then obtain pat where "matcher_pattern e m = Inr pat" by auto
  with Cons show ?case by (cases pat) (auto simp: matcher_ok_def split: if_splits)
qed simp

lemma check_groups_ok:
  "check_groups e gs = Inr () \<Longrightarrow> \<forall>g \<in> set gs. \<exists>ms. g = CList ms \<and> ms \<noteq> [] \<Longrightarrow> list_all (group_ok e) gs"
  by (induction gs) (auto simp: group_ok_def iter_of_def dest: check_matchers_ok)

lemma prepared_settings_ok:
  assumes "clean_rule e data = Inr rule" "validate_rule e rule = Inr ()"
  shows "settings_ok e rule"
  using assms(1)
proof (rule clean_rule_fields)
  fix src chans hooks events tags name desc host app groups
  assume g: "clean_match_groups data = Inr groups"
    and rule: "rule = [
         (''name'', CStr (if py_strip name = [] then ''Rule'' else py_strip name)),
         (''description'', CStr (take 500 (py_strip desc))),
         (''enabled'', CBool (case map_of data ''enabled'' of None \<Rightarrow> True | Some v \<Rightarrow> Config_Tree.truthy v)),
         (''source'', CStr (choice rule_sources ''audit'' src)),
         (''events'', CList (clean_events e events)),
         (''tags'', CList (clean_tags e [] tags)),
         (''severity_max'', clean_severity (cget data ''severity_max'')),
         (''host'', CStr (py_strip host)),
         (''app'', CStr (py_strip app)),
         (''log_source'', CStr (if choice rule_sources ''audit'' src = ''syslog''
            then take 64 (py_strip (text_of e (cor (cget data ''log_source'') (CStr [])))) else [])),
         (''match_groups'', CList groups),
         (''channels'', CList (filter (\<lambda>c. List.member (map CStr rule_channels) c) chans)),
         (''webhook_ids'', CList (clean_webhooks e hooks)),
         (''cooldown'', clean_cooldown (cget data ''cooldown''))]"
  have ch: "\<exists>cs. cget rule ''channels'' = CList cs \<and> set cs \<subseteq> CStr ` set rule_channels"
    unfolding rule by (auto simp: cget_def)
  have f: "cget rule ''source'' = CStr (choice rule_sources ''audit'' src)" "cget rule ''events'' = CList (clean_events e events)"
    "cget rule ''severity_max'' = clean_severity (cget data ''severity_max'')"
    "cget rule ''match_groups'' = CList groups" "cget rule ''cooldown'' = clean_cooldown (cget data ''cooldown'')"
    unfolding rule by (simp_all add: cget_def)
  have v: "cget rule ''channels'' \<noteq> CList []" "cget rule ''source'' = CStr ''audit'' \<longrightarrow> clean_events e events \<noteq> []"
    and cg: "groups = [] \<or> check_groups e groups = Inr ()"
    using assms(2) f by (auto simp: validate_rule_def cor_def iter_of_def split: if_splits)
  have "channels_ok (cget rule ''channels'')" using v(1) ch by (auto simp: channels_ok_def)
  moreover have "source_ok (cget rule ''source'') (cget rule ''events'')"
    using v(2) f(1,2) by (auto simp: source_ok_def choice_def rule_sources_def Let_def split: if_splits)
  moreover have "cooldown_ok (cget rule ''cooldown'')"
    using f(5) by (auto simp: clean_cooldown_def cooldown_ok_def clamp_def split: option.splits)
  moreover have "severity_ok (cget rule ''severity_max'')"
    using f(3) by (auto simp: clean_severity_def severity_ok_def clamp_def split: option.splits)
  moreover have "groups_ok e (cget rule ''match_groups'')"
    using cg f(4) check_groups_ok clean_match_groups_shape [OF g] by (auto simp: groups_ok_def)
  ultimately show ?thesis by (simp add: settings_ok_def)
qed

text \<open>A valid rule has no pattern that is refused, so it can fire.\<close>

lemma unsafe_in_group_none: "list_all (matcher_ok e) ms \<Longrightarrow> unsafe_in_group e ms out = Inr out"
  by (induction ms) (auto simp: matcher_ok_def split: sum.splits option.splits)

lemma unsafe_in_groups_none: "list_all (group_ok e) gs \<Longrightarrow> unsafe_in_groups e gs out = Inr out"
proof (induction gs)
  case (Cons g gs)
  then show ?case by (cases g) (auto simp: group_ok_def cor_def iter_of_def unsafe_in_group_none)
qed simp

lemma settings_ok_patterns: "settings_ok e d \<Longrightarrow> unsafe_patterns e d = Inr []"
  by (cases "cget d ''match_groups''")
    (auto simp: settings_ok_def groups_ok_def unsafe_patterns_def cor_def iter_of_def unsafe_in_groups_none)

section \<open>A stored rule as the worker reads it\<close>

definition row_ok :: "event_env \<Rightarrow> rule_row \<Rightarrow> bool" where
  "row_ok e r = (case rw_data r of
      None \<Rightarrow> False
    | Some d \<Rightarrow> dict_wf d \<and> list_all (\<lambda>k. map_of d k = None) managed_keys \<and> settings_ok e d
        \<and> rw_name r \<noteq> [] \<and> py_strip (rw_name r) = rw_name r)"

lemma map_of_fold_update:
  "dict_wf d \<Longrightarrow> map_of (fold (\<lambda>(k, v). AList.update k v) d acc) k =
     (case map_of d k of None \<Rightarrow> map_of acc k | Some v \<Rightarrow> Some v)"
proof (induction d arbitrary: acc)
  case (Cons p d)
  obtain j v where p: "p = (j, v)" by (cases p)
  have "map_of d j = None" using Cons.prems p by (simp add: dict_wf_def map_of_eq_None_iff)
  moreover have "dict_wf d" using Cons.prems by (simp add: dict_wf_def)
  ultimately show ?case using Cons.IH [of "AList.update j v acc"] p by (auto simp: dict_simps split: option.splits)
qed simp

lemma row_to_rule_get:
  assumes "dict_wf d" "rw_data r = Some d" "\<not> List.member managed_keys k"
  shows "map_of (row_to_rule r) k = map_of d k"
  using assms map_of_fold_update [OF assms(1), of "[(''id'', CStr (rw_uid r))]" k]
  by (auto simp: row_to_rule_def Let_def doc_of_def opt_def managed_keys_def dict_simps split: option.splits)

lemma row_to_rule_id_name:
  assumes "row_ok e r"
  shows "cget (row_to_rule r) ''id'' = CStr (rw_uid r)" "field_or (row_to_rule r) ''name'' = CStr (rw_name r)"
proof -
  obtain d where d: "rw_data r = Some d" "dict_wf d" "map_of d ''id'' = None" "rw_name r \<noteq> []"
    using assms by (auto simp: row_ok_def managed_keys_def split: option.splits)
  show "cget (row_to_rule r) ''id'' = CStr (rw_uid r)" "field_or (row_to_rule r) ''name'' = CStr (rw_name r)"
    using d map_of_fold_update [OF d(2), of "[(''id'', CStr (rw_uid r))]" "''id''"]
    by (auto simp: row_to_rule_def Let_def doc_of_def opt_def cget_def field_or_def or_text_def dict_simps)
qed

lemma settings_ok_cong:
  "(\<And>k. \<not> List.member managed_keys k \<Longrightarrow> map_of d k = map_of d' k) \<Longrightarrow> settings_ok e d = settings_ok e d'"
  by (simp add: settings_ok_def cget_def managed_keys_def)

lemma row_ok_settings:
  assumes "row_ok e r"
  shows "settings_ok e (row_to_rule r)"
proof -
  obtain d where d: "rw_data r = Some d" "dict_wf d" "settings_ok e d"
    using assms by (auto simp: row_ok_def split: option.splits)
  have "settings_ok e (row_to_rule r) = settings_ok e d"
    by (rule settings_ok_cong) (rule row_to_rule_get [OF d(2,1)])
  with d show ?thesis by simp
qed

section \<open>The table\<close>

definition names_apart :: "rule_row list \<Rightarrow> bool" where
  "names_apart t =
     list_all (\<lambda>r. list_all (\<lambda>s. py_lower (rw_name r) = py_lower (rw_name s) \<longrightarrow> rw_uid r = rw_uid s) t) t"

lemma names_apart_iff:
  "names_apart t \<longleftrightarrow>
     (\<forall>r \<in> set t. \<forall>s \<in> set t. py_lower (rw_name r) = py_lower (rw_name s) \<longrightarrow> rw_uid r = rw_uid s)"
  by (simp add: names_apart_def list_all_iff)

definition table_ok :: "event_env \<Rightarrow> rule_row list \<Rightarrow> bool" where
  "table_ok e t \<longleftrightarrow> rules_wf t \<and> list_all (row_ok e) t \<and> names_apart t"

lemma py_strip_strip [simp]: "py_strip (py_strip s) = py_strip s"
proof -
  let ?d = "dropWhile is_space"
  have a: "?d (rev (?d xs)) = rev (?d xs) \<or> True" for xs :: string by simp
  have tl: "?d xs = xs" if "xs = [] \<or> \<not> is_space (hd xs)" for xs :: string using that by (cases xs) auto
  have hd: "?d xs = [] \<or> \<not> is_space (hd (?d xs))" for xs :: string using hd_dropWhile [of is_space xs] by blast
  let ?t = "?d (rev (?d s))"
  have "rev ?t = [] \<or> \<not> is_space (hd (rev ?t))"
  proof (cases "?t = []")
    case False
    have "last ?t = last (rev (?d s))" using False by (metis append_is_Nil_conv last_appendR takeWhile_dropWhile_id)
    also have "\<dots> = hd (?d s)" using False by (metis dropWhile.simps(1) last_rev rev_is_Nil_conv)
    finally show ?thesis using False hd [of s] by (metis dropWhile.simps(1) hd_rev rev.simps(1))
  qed simp
  then have "?d (rev ?t) = rev ?t" by (rule tl)
  moreover have "?d ?t = ?t" by (rule tl) (rule hd)
  ultimately show ?thesis by (simp add: py_strip_def)
qed

lemma table_row_ok: "table_ok e t \<Longrightarrow> r \<in> set t \<Longrightarrow> row_ok e r"
  by (simp add: table_ok_def list_all_iff)

lemma row_ok_name: "row_ok e r \<Longrightarrow> rw_name r \<noteq> [] \<and> py_strip (rw_name r) = rw_name r"
  by (simp add: row_ok_def split: option.splits)

lemma same_name_iff:
  assumes "row_ok e r"
  shows "same_name e name (row_to_rule r) = (py_lower (rw_name r) = py_lower (py_strip name))"
  using row_to_rule_id_name(2) [OF assms] row_ok_name [OF assms] by (simp add: same_name_def text_of_def)

lemma name_taken_iff:
  assumes "table_ok e t"
  shows "name_taken e t name ex =
    (\<exists>r \<in> set t. py_lower (rw_name r) = py_lower (py_strip name) \<and> ex \<noteq> Some (rw_uid r))"
proof -
  have "(same_name e name (row_to_rule r) \<and> cget (row_to_rule r) ''id'' \<noteq> (case ex of None \<Rightarrow> CNone | Some uid \<Rightarrow> CStr uid))
      = (py_lower (rw_name r) = py_lower (py_strip name) \<and> ex \<noteq> Some (rw_uid r))" if "r \<in> set t" for r
    using same_name_iff row_to_rule_id_name(1) table_row_ok [OF assms that] by (cases ex) auto
  then show ?thesis by (simp add: name_taken_def list_ex_iff rules_list_def)
qed

lemma upsert_rows:
  assumes "split_rule e rid rule = (uid, name, enabled, desc, d)" "r \<in> set (snd (rule_upsert e rid now actor rule t))"
  shows "(r \<in> set t \<and> rw_uid r \<noteq> uid) \<or> (rw_uid r = uid \<and> rw_name r = name \<and> rw_data r = Some d)"
  using assms by (auto simp: rule_upsert_def list_ex_iff split: if_split_asm)

lemma table_ok_upsert:
  assumes "table_ok e t" "split_rule e rid rule = (uid, name, enabled, desc, d)"
    and "dict_wf d" "list_all (\<lambda>k. map_of d k = None) managed_keys" "settings_ok e d"
    and "name \<noteq> []" "py_strip name = name"
    and "\<forall>r \<in> set t. rw_uid r \<noteq> uid \<longrightarrow> py_lower (rw_name r) \<noteq> py_lower name"
  shows "table_ok e (snd (rule_upsert e rid now actor rule t))"
proof -
  let ?t = "snd (rule_upsert e rid now actor rule t)"
  note rows = upsert_rows [OF assms(2), of _ now actor t]
  have "row_ok e r" if "r \<in> set ?t" for r
  proof (cases "r \<in> set t \<and> rw_uid r \<noteq> uid")
    case False
    then have "rw_name r = name" "rw_data r = Some d" using rows [OF that] by auto
    then show ?thesis using assms(3-7) by (simp add: row_ok_def)
  qed (use assms(1) table_row_ok in blast)
  moreover have "names_apart ?t"
    unfolding names_apart_iff
  proof (intro ballI impI)
    fix r s assume rs: "r \<in> set ?t" "s \<in> set ?t" "py_lower (rw_name r) = py_lower (rw_name s)"
    have "names_apart t" using assms(1) by (simp add: table_ok_def)
    then show "rw_uid r = rw_uid s"
      using rows [OF rs(1)] rows [OF rs(2)] rs(3) assms(8) unfolding names_apart_iff by metis
  qed
  moreover have "rules_wf ?t" using assms(1) rules_wf_upsert by (simp add: table_ok_def)
  ultimately show ?thesis by (simp add: table_ok_def list_all_iff)
qed

lemma names_apart_subset: "names_apart t \<Longrightarrow> set t' \<subseteq> set t \<Longrightarrow> names_apart t'"
  unfolding names_apart_iff by blast

lemma table_ok_delete: "table_ok e t \<Longrightarrow> table_ok e (snd (rule_delete uid t))"
  using rules_wf_delete [of t uid] names_apart_subset [of t "snd (rule_delete uid t)"]
  by (auto simp: table_ok_def list_all_iff rule_delete_def)

lemma touched_row_ok:
  assumes "row_ok e r"
  shows "row_ok e (r\<lparr>rw_data := Some (AList.update ''last_ok'' v (AList.update ''last_fired'' x (doc_of (rw_data r))))\<rparr>)"
proof -
  obtain d where d: "rw_data r = Some d" "dict_wf d" "list_all (\<lambda>k. map_of d k = None) managed_keys" "settings_ok e d"
      "rw_name r \<noteq> []" "py_strip (rw_name r) = rw_name r"
    using assms by (auto simp: row_ok_def split: option.splits)
  let ?d = "AList.update ''last_ok'' v (AList.update ''last_fired'' x d)"
  have "settings_ok e ?d = settings_ok e d" by (simp add: settings_ok_def cget_def dict_simps)
  moreover have "list_all (\<lambda>k. map_of ?d k = None) managed_keys" using d(3) by (simp add: managed_keys_def dict_simps)
  ultimately show ?thesis using d by (simp add: row_ok_def doc_of_def opt_def)
qed

lemma touch_rows:
  assumes "r \<in> set (rule_touch uid ts ok t)"
  obtains s where "s \<in> set t" "rw_uid r = rw_uid s" "rw_name r = rw_name s"
    "r = s \<or> r = s\<lparr>rw_data := Some (AList.update ''last_ok'' (CBool ok)
       (AList.update ''last_fired'' (CFloat ts) (doc_of (rw_data s))))\<rparr>"
  using assms by (auto simp: rule_touch_def)

lemma table_ok_touch:
  assumes "table_ok e t"
  shows "table_ok e (rule_touch uid ts ok t)"
proof -
  have "row_ok e r" if "r \<in> set (rule_touch uid ts ok t)" for r
    using that by (rule touch_rows) (use table_row_ok [OF assms] touched_row_ok in metis)
  moreover have "names_apart (rule_touch uid ts ok t)"
    unfolding names_apart_iff
  proof (intro ballI impI)
    fix r s assume "r \<in> set (rule_touch uid ts ok t)" "s \<in> set (rule_touch uid ts ok t)"
      "py_lower (rw_name r) = py_lower (rw_name s)"
    moreover have "names_apart t" using assms by (simp add: table_ok_def)
    ultimately show "rw_uid r = rw_uid s" unfolding names_apart_iff by (metis touch_rows)
  qed
  moreover have "rules_wf (rule_touch uid ts ok t)" using assms by (simp add: table_ok_def rules_wf_touch)
  ultimately show ?thesis by (simp add: table_ok_def list_all_iff)
qed

section \<open>Any requests\<close>

datatype panel_op = Po_request string string rule_request | Po_touch string time bool

fun panel_op_step :: "event_env \<Rightarrow> rule_panel \<Rightarrow> panel_op \<Rightarrow> rule_panel" where
  "panel_op_step e p (Po_request now actor rq) = snd (rule_request_step e now actor p rq)"
| "panel_op_step e p (Po_touch uid ts ok) = p\<lparr>rp_rules := rule_touch uid ts ok (rp_rules p)\<rparr>"

definition panel_rules_ok :: "event_env \<Rightarrow> rule_panel \<Rightarrow> bool" where
  "panel_rules_ok e p \<longleftrightarrow> table_ok e (rp_rules p) \<and> list_all (settings_ok e) (rp_cache p)"

lemma reloaded_ok:
  assumes "table_ok e (rp_rules p)"
  shows "panel_rules_ok e (events_reload p)"
  using assms row_ok_settings table_row_ok
  by (auto simp: panel_rules_ok_def events_reload_def rules_list_def list_all_iff)

lemma prepare_rule_Inr:
  assumes "prepare_rule e t data ex new = Inr rule"
  shows "\<exists>data'. clean_rule e data' = Inr rule" "settings_ok e rule" "\<not> name_taken e t (text_of e (cget rule ''name'')) ex"
  using assms prepared_settings_ok by (auto simp: prepare_rule_def Let_def split: if_splits)

lemma prepared_split:
  assumes "clean_rule e data = Inr rule" "settings_ok e rule"
  obtains name enabled desc d where
    "split_rule e rid (AList.update ''id'' (CStr rid) rule) = (rid, name, enabled, desc, d)"
    "dict_wf d" "list_all (\<lambda>k. map_of d k = None) managed_keys" "settings_ok e d"
    "name \<noteq> []" "py_strip name = name" "text_of e (cget rule ''name'') = name"
proof -
  let ?r = "AList.update ''id'' (CStr rid) rule"
  let ?d = "filter (\<lambda>(k, v). \<not> List.member managed_keys k) ?r"
  obtain nm where nm: "cget rule ''name'' = CStr nm" "nm \<noteq> []" "py_strip nm = nm" and wf: "dict_wf rule"
    using assms(1)
  proof (rule clean_rule_fields)
    fix src chans hooks events tags name desc host app groups
    assume rule: "rule = [
         (''name'', CStr (if py_strip name = [] then ''Rule'' else py_strip name)),
         (''description'', CStr (take 500 (py_strip desc))),
         (''enabled'', CBool (case map_of data ''enabled'' of None \<Rightarrow> True | Some v \<Rightarrow> Config_Tree.truthy v)),
         (''source'', CStr (choice rule_sources ''audit'' src)),
         (''events'', CList (clean_events e events)),
         (''tags'', CList (clean_tags e [] tags)),
         (''severity_max'', clean_severity (cget data ''severity_max'')),
         (''host'', CStr (py_strip host)),
         (''app'', CStr (py_strip app)),
         (''log_source'', CStr (if choice rule_sources ''audit'' src = ''syslog''
            then take 64 (py_strip (text_of e (cor (cget data ''log_source'') (CStr [])))) else [])),
         (''match_groups'', CList groups),
         (''channels'', CList (filter (\<lambda>c. List.member (map CStr rule_channels) c) chans)),
         (''webhook_ids'', CList (clean_webhooks e hooks)),
         (''cooldown'', clean_cooldown (cget data ''cooldown''))]"
    have "py_strip ''Rule'' = ''Rule''" by code_simp
    then have n: "py_strip (if py_strip name = [] then ''Rule'' else py_strip name) = (if py_strip name = [] then ''Rule'' else py_strip name)"
      "(if py_strip name = [] then ''Rule'' else py_strip name) \<noteq> []"
      by simp_all
    have w: "dict_wf rule" "cget rule ''name'' = CStr (if py_strip name = [] then ''Rule'' else py_strip name)"
      unfolding rule by (simp_all add: dict_wf_def cget_def)
    show thesis by (rule that [OF w(2) n(2,1) w(1)])
  qed
  have wfr: "dict_wf ?r" using wf by simp
  have look: "map_of ?d k = (if List.member managed_keys k then None else map_of rule k)" for k
  proof -
    have f: "map_of ?d k = (case map_of ?r k of None \<Rightarrow> None | Some v \<Rightarrow> if \<not> List.member managed_keys k then Some v else None)"
      by (simp only: map_of_filter [OF wfr] prod.case)
    show ?thesis
    proof (cases "List.member managed_keys k")
      case False
      then have "k \<noteq> ''id''" by (auto simp: managed_keys_def)
      then have "map_of ?r k = map_of rule k" by (simp add: dict_simps)
      with f False show ?thesis by (simp split: option.splits)
    qed (use f in \<open>simp split: option.splits\<close>)
  qed
  have "settings_ok e ?d = settings_ok e rule" by (rule settings_ok_cong) (subst look, simp)
  moreover have "list_all (\<lambda>k. map_of ?d k = None) managed_keys" unfolding look by (simp add: list_all_iff)
  moreover have "split_rule e rid ?r = (rid, nm, map_of ?r ''enabled'' \<noteq> Some (CBool False),
      text_of e (cor (cget ?r ''description'') (CStr [])), ?d)"
    using nm by (simp add: split_rule_def cget_def dict_simps cor_def text_of_def)
  moreover have "text_of e (cget rule ''name'') = nm" using nm by (simp add: text_of_def)
  ultimately show thesis using that [of nm _ _ ?d] nm assms(2) wfr by simp
qed

lemma save_rule_ok:
  assumes "panel_rules_ok e p" "prepare_rule e (rp_rules p) data ex new = Inr rule" "ex = None \<or> ex = Some rid"
  shows "panel_rules_ok e (save_rule e now actor rid rule p)"
proof -
  obtain data' where c: "clean_rule e data' = Inr rule" using prepare_rule_Inr(1) [OF assms(2)] by blast
  note ok = prepare_rule_Inr(2,3) [OF assms(2)]
  obtain name enabled desc d where s: "split_rule e rid (AList.update ''id'' (CStr rid) rule) = (rid, name, enabled, desc, d)"
      and d: "dict_wf d" "list_all (\<lambda>k. map_of d k = None) managed_keys" "settings_ok e d"
        "name \<noteq> []" "py_strip name = name" "text_of e (cget rule ''name'') = name"
    by (rule prepared_split [OF c ok(1)])
  have t: "table_ok e (rp_rules p)" using assms(1) by (simp add: panel_rules_ok_def)
  have "\<forall>r \<in> set (rp_rules p). rw_uid r \<noteq> rid \<longrightarrow> py_lower (rw_name r) \<noteq> py_lower name"
    using ok(2) assms(3) d(5,6) unfolding name_taken_iff [OF t] by auto
  then have "table_ok e (snd (rule_upsert e rid now actor (AList.update ''id'' (CStr rid) rule) (rp_rules p)))"
    by (rule table_ok_upsert [OF t s d(1-5)])
  then show ?thesis by (simp add: save_rule_def reloaded_ok)
qed

lemma panel_op_step_ok: "panel_rules_ok e p \<Longrightarrow> panel_rules_ok e (panel_op_step e p op)"
proof (cases op)
  case (Po_request now actor rq)
  assume p: "panel_rules_ok e p"
  show ?thesis
  proof (cases rq)
    case (Delete_rule rid)
    then show ?thesis using p Po_request table_ok_delete [of e "rp_rules p" rid] reloaded_ok
      by (auto simp: panel_rules_ok_def Let_def split: prod.splits)
  qed (use p Po_request save_rule_ok in \<open>auto split: sum.splits\<close>)
next
  case (Po_touch uid ts ok)
  assume "panel_rules_ok e p"
  then show ?thesis using Po_touch table_ok_touch by (simp add: panel_rules_ok_def)
qed

interpretation event_rules: machine "panel_op_step e" "panel_rules_ok e" for e
  by unfold_locales (rule panel_op_step_ok)

lemma refused_request_changes_nothing:
  "fst (rule_request_step e now actor p rq) \<noteq> 200 \<Longrightarrow> snd (rule_request_step e now actor p rq) = p"
  by (cases rq) (auto simp: Let_def split: sum.splits prod.splits if_splits)

text \<open>C35.
  After any requests, and any notifications that mark rules as fired, the names of the rules differ by more than
  their case and every rule stored is valid: channels that exist, a source that exists, an audit rule with an
  event, a cooldown and a severity in range, conditions whose patterns compile and are safe. So no rule that the
  worker reads is refused evaluation for its patterns. A request that is refused changes nothing.\<close>

theorem rule_table_stays:
  assumes "panel_rules_ok e p0"
  shows "table_ok e (rp_rules (foldl (panel_op_step e) p0 ops))
    \<and> list_all (\<lambda>r. settings_ok e r \<and> unsafe_patterns e r = Inr []) (rp_cache (foldl (panel_op_step e) p0 ops))
    \<and> (fst (rule_request_step e now actor (foldl (panel_op_step e) p0 ops) rq) = 200
       \<or> snd (rule_request_step e now actor (foldl (panel_op_step e) p0 ops) rq) = foldl (panel_op_step e) p0 ops)"
proof (intro conjI)
  let ?p = "foldl (panel_op_step e) p0 ops"
  have ok: "panel_rules_ok e ?p" by (rule event_rules.run_inv [OF assms])
  then show "table_ok e (rp_rules ?p)"
    "list_all (\<lambda>r. settings_ok e r \<and> unsafe_patterns e r = Inr []) (rp_cache ?p)"
    using settings_ok_patterns by (auto simp: panel_rules_ok_def list_all_iff)
  show "fst (rule_request_step e now actor ?p rq) = 200 \<or> snd (rule_request_step e now actor ?p rq) = ?p"
    using refused_request_changes_nothing by blast
qed

text \<open>Two rules, a name taken in another case, an unsafe pattern, and a rule that has fired.\<close>

definition nested_env :: event_env where
  "nested_env = \<lparr>ev_parse = (\<lambda>p. if p = ''(a+)+'' then Some [Sre_Repeat None [Sre_Node [[Sre_Repeat None [Sre_Node []]]]]] else Some []),
     ev_search = (\<lambda>p s. Some False), ev_repr = (\<lambda>v. [])\<rparr>"

definition syslog_rule :: "string \<Rightarrow> string \<Rightarrow> string \<Rightarrow> doc" where
  "syslog_rule name ty pat = [(''name'', CStr name), (''source'', CStr ''syslog''), (''channels'', CList [CStr ''email'']),
     (''match_groups'', CList [CList [CDict [(''type'', CStr ty), (''text'', CStr pat)]]])]"

definition demo_ops :: "panel_op list" where
  "demo_ops = [Po_request ''t1'' ''ann'' (Create_rule (syslog_rule ''Disk'' ''contains'' ''full'') ''u1''),
     Po_request ''t2'' ''ann'' (Create_rule (syslog_rule ''disk '' ''contains'' ''full'') ''u2''),
     Po_request ''t3'' ''ann'' (Create_rule (syslog_rule ''Net'' ''regex'' ''(a+)+'') ''u3''),
     Po_touch ''u1'' 5 True,
     Po_request ''t4'' ''ann'' (Create_rule (syslog_rule ''Net'' ''regex'' ''down'') ''u4'')]"

theorem rule_table_stays_witness:
  "let p = foldl (panel_op_step nested_env) \<lparr>rp_rules = [], rp_cache = []\<rparr> demo_ops
   in table_ok nested_env (rp_rules p) \<and> map rw_uid (rp_rules p) = [''u1'', ''u4'']
      \<and> map fst (map (rule_request_step nested_env ''t5'' ''ann'' p)
           [Create_rule (syslog_rule ''NET'' ''contains'' ''x'') ''u5'', Create_rule (syslog_rule ''x'' ''regex'' ''(a+)+'') ''u5'',
            Change_rule ''u9'' [], Delete_rule ''u4'']) = [400, 400, 404, 200]"
proof -
  have "panel_rules_ok nested_env \<lparr>rp_rules = [], rp_cache = []\<rparr>"
    by (simp add: panel_rules_ok_def table_ok_def rules_wf_def names_apart_def)
  from rule_table_stays [OF this, of demo_ops]
  have "table_ok nested_env (rp_rules (foldl (panel_op_step nested_env) \<lparr>rp_rules = [], rp_cache = []\<rparr> demo_ops))" by blast
  moreover have "let p = foldl (panel_op_step nested_env) \<lparr>rp_rules = [], rp_cache = []\<rparr> demo_ops
     in map rw_uid (rp_rules p) = [''u1'', ''u4'']
      \<and> map fst (map (rule_request_step nested_env ''t5'' ''ann'' p)
           [Create_rule (syslog_rule ''NET'' ''contains'' ''x'') ''u5'', Create_rule (syslog_rule ''x'' ''regex'' ''(a+)+'') ''u5'',
            Change_rule ''u9'' [], Delete_rule ''u4'']) = [400, 400, 404, 200]" by code_simp
  ultimately show ?thesis unfolding Let_def by blast
qed

text \<open>Changing a rule loses when it last fired: the document is replaced, and the editor does not send it.\<close>

lemma change_forgets_last_fired:
  "let p = foldl (panel_op_step nested_env) \<lparr>rp_rules = [], rp_cache = []\<rparr> demo_ops;
       q = snd (rule_request_step nested_env ''t6'' ''ann'' p (Change_rule ''u1'' (syslog_rule ''Disk'' ''contains'' ''full'')))
   in map_option (\<lambda>r. cget r ''last_fired'') (rule_get (rp_rules p) ''u1'') = Some (CFloat 5)
      \<and> map_option (\<lambda>r. cget r ''last_fired'') (rule_get (rp_rules q) ''u1'') = Some CNone"
  by code_simp

text \<open>The listing of a rule with a matcher that is no dictionary raises, although the source looks out for one.\<close>

lemma odd_matcher_raises:
  "unsafe_patterns e [(''match_groups'', CList [CList [CStr ''x'']])] = Inl Rule_crash"
  by (simp add: unsafe_patterns_def cget_def cor_def iter_of_def matcher_pattern_def)

end
