(* ===== verification/Sha256.thy ===== *)
theory Sha256
  imports Sha1
begin

text \<open>
  SHA-256 (FIPS 180-4) on byte strings: what \<^verbatim>\<open>hashlib.sha256\<close> of the standard library computes. The
  ceremonies of the security keys compare and sign such digests. Padding and words are those of \<open>Sha1\<close>.
\<close>

unbundle bit_operations_syntax

definition sha256_k :: "w32 list" where
  "sha256_k =
    [0x428A2F98, 0x71374491, 0xB5C0FBCF, 0xE9B5DBA5, 0x3956C25B, 0x59F111F1, 0x923F82A4, 0xAB1C5ED5,
     0xD807AA98, 0x12835B01, 0x243185BE, 0x550C7DC3, 0x72BE5D74, 0x80DEB1FE, 0x9BDC06A7, 0xC19BF174,
     0xE49B69C1, 0xEFBE4786, 0x0FC19DC6, 0x240CA1CC, 0x2DE92C6F, 0x4A7484AA, 0x5CB0A9DC, 0x76F988DA,
     0x983E5152, 0xA831C66D, 0xB00327C8, 0xBF597FC7, 0xC6E00BF3, 0xD5A79147, 0x06CA6351, 0x14292967,
     0x27B70A85, 0x2E1B2138, 0x4D2C6DFC, 0x53380D13, 0x650A7354, 0x766A0ABB, 0x81C2C92E, 0x92722C85,
     0xA2BFE8A1, 0xA81A664B, 0xC24B8B70, 0xC76C51A3, 0xD192E819, 0xD6990624, 0xF40E3585, 0x106AA070,
     0x19A4C116, 0x1E376C08, 0x2748774C, 0x34B0BCB5, 0x391C0CB3, 0x4ED8AA4A, 0x5B9CCA4F, 0x682E6FF3,
     0x748F82EE, 0x78A5636F, 0x84C87814, 0x8CC70208, 0x90BEFFFA, 0xA4506CEB, 0xBEF9A3F7, 0xC67178F2]"

definition sha256_init :: "w32 list" where
  "sha256_init = [0x6A09E667, 0xBB67AE85, 0x3C6EF372, 0xA54FF53A, 0x510E527F, 0x9B05688C, 0x1F83D9AB, 0x5BE0CD19]"

text \<open>The message schedule, newest word first.\<close>

definition small_sigma0 :: "w32 \<Rightarrow> w32" where
  "small_sigma0 x = word_rotr 7 x XOR word_rotr 18 x XOR drop_bit 3 x"

definition small_sigma1 :: "w32 \<Rightarrow> w32" where
  "small_sigma1 x = word_rotr 17 x XOR word_rotr 19 x XOR drop_bit 10 x"

fun schedule256 :: "nat \<Rightarrow> w32 list \<Rightarrow> w32 list" where
  "schedule256 0 ws = rev ws"
| "schedule256 (Suc n) ws =
     schedule256 n ((small_sigma1 (ws ! 1) + ws ! 6 + small_sigma0 (ws ! 14) + ws ! 15) # ws)"

text \<open>The eight words of the state as a list \<open>[a, b, c, d, e, f, g, h]\<close>.\<close>

fun round256 :: "w32 \<Rightarrow> w32 \<Rightarrow> w32 list \<Rightarrow> w32 list" where
  "round256 k w [a, b, c, d, e, f, g, h] =
     (let t1 = h + (word_rotr 6 e XOR word_rotr 11 e XOR word_rotr 25 e)
               + ((e AND f) XOR (NOT e AND g)) + k + w;
          t2 = (word_rotr 2 a XOR word_rotr 13 a XOR word_rotr 22 a)
               + ((a AND b) XOR (a AND c) XOR (b AND c))
      in [t1 + t2, a, b, c, d + t1, e, f, g])"
| "round256 k w st = st"

definition compress256 :: "w32 list \<Rightarrow> w32 list \<Rightarrow> w32 list" where
  "compress256 h ws =
     map2 (+) h (fold (\<lambda>(k, w) st. round256 k w st) (zip sha256_k (schedule256 48 (rev ws))) h)"

function sha256_blocks :: "w32 list \<Rightarrow> w32 list \<Rightarrow> w32 list" where
  "sha256_blocks ws h = (if length ws < 16 then h else sha256_blocks (drop 16 ws) (compress256 h (take 16 ws)))"
  by pat_completeness auto
termination
  by (relation "measure (length \<circ> fst)") auto

declare sha256_blocks.simps [simp del]

definition sha256 :: "nat list \<Rightarrow> nat list" where
  "sha256 msg = concat (map (\<lambda>w. be_bytes 4 (unat w)) (sha256_blocks (to_words (sha1_pad msg)) sha256_init))"

lemma length_round256: "length st = 8 \<Longrightarrow> length (round256 k w st) = 8"
  by (induction k w st rule: round256.induct) (auto simp: Let_def)

lemma length_compress256: "length h = 8 \<Longrightarrow> length (compress256 h ws) = 8"
proof -
  assume h: "length h = 8"
  have "length (fold (\<lambda>(k, w) st. round256 k w st) kws st) = 8" if "length st = 8" for kws st
    using that by (induction kws arbitrary: st) (auto simp: length_round256)
  with h show ?thesis by (simp add: compress256_def)
qed

lemma length_sha256_blocks: "length h = 8 \<Longrightarrow> length (sha256_blocks ws h) = 8"
  by (induction ws h rule: sha256_blocks.induct) (subst sha256_blocks.simps, auto simp: length_compress256)

lemma length_sha256: "length (sha256 msg) = 32"
proof -
  have four: "length (concat (map (\<lambda>w. be_bytes 4 (unat w)) ws)) = 4 * length ws" for ws :: "w32 list"
    by (induction ws) auto
  show ?thesis by (simp add: sha256_def four length_sha256_blocks sha256_init_def)
qed

lemma sha256_bytes: "list_all (\<lambda>b. b < 256) (sha256 msg)"
proof -
  have "b < 256" if "b \<in> set (be_bytes 4 n)" for b n
    using that be_bytes_range [of 4 n] by (auto simp: list_all_iff)
  then show ?thesis by (auto simp: sha256_def list_all_iff)
qed

end
