(* ===== verification/Json_Loads.thy ===== *)
theory Json_Loads
  imports Py_Text
begin

text \<open>
  \<^verbatim>\<open>json.loads\<close> of the standard library on a text, which is a list of code points: what the client data of a
  security key is read with. A number with a fraction or an exponent is its exact value, so one too large for a
  float is not the infinity Python makes of it. How deep values may nest before the interpreter gives up is an
  argument. \<open>None\<close> is any exception.
\<close>

definition cps :: "string \<Rightarrow> nat list" where
  "cps s = map code s"

lemma cps_simps [simp]: "cps [] = []" "cps (c # s) = code c # cps s" "cps (s @ t) = cps s @ cps t"
  by (simp_all add: cps_def)

lemma length_cps [simp]: "length (cps s) = length s"
  by (simp add: cps_def)

lemma cps_inj [simp]: "cps s = cps t \<longleftrightarrow> s = t"
  by (simp add: cps_def inj_map_eq_map inj_def)

datatype jdoc =
    JD_null
  | JD_bool bool
  | JD_int int
  | JD_float rat
  | JD_special "nat list"
  | JD_text "nat list"
  | JD_list "jdoc list"
  | JD_dict "(nat list \<times> jdoc) list"

definition js_space :: "nat \<Rightarrow> bool" where
  "js_space c = (c = 32 \<or> c = 9 \<or> c = 10 \<or> c = 13)"

definition js_skip :: "nat list \<Rightarrow> nat list" where
  "js_skip s = dropWhile js_space s"

definition cp_digit :: "nat \<Rightarrow> bool" where
  "cp_digit c = (48 \<le> c \<and> c \<le> 57)"

section \<open>Strings\<close>

definition cp_hex :: "nat \<Rightarrow> nat option" where
  "cp_hex c =
     (if cp_digit c then Some (c - 48)
      else if 65 \<le> c \<and> c \<le> 70 then Some (c - 55)
      else if 97 \<le> c \<and> c \<le> 102 then Some (c - 87)
      else None)"

fun js_hex4 :: "nat list \<Rightarrow> (nat \<times> nat list) option" where
  "js_hex4 (a # b # c # d # r) =
     (case (cp_hex a, cp_hex b, cp_hex c, cp_hex d) of
        (Some w, Some x, Some y, Some z) \<Rightarrow> Some (((w * 16 + x) * 16 + y) * 16 + z, r)
      | _ \<Rightarrow> None)"
| "js_hex4 _ = None"

text \<open>A high surrogate takes the low one that follows it, if one does.\<close>

definition js_pair :: "nat \<Rightarrow> nat list \<Rightarrow> nat \<times> nat list" where
  "js_pair u r =
     (if 55296 \<le> u \<and> u \<le> 56319 \<and> take 2 r = [92, 117]
      then (case js_hex4 (drop 2 r) of
              Some (v, r') \<Rightarrow> if 56320 \<le> v \<and> v \<le> 57343
                then (65536 + (u - 55296) * 1024 + (v - 56320), r') else (u, r)
            | None \<Rightarrow> (u, r))
      else (u, r))"

definition js_escape :: "nat \<Rightarrow> nat option" where
  "js_escape e =
     (if e = 34 \<or> e = 92 \<or> e = 47 then Some e
      else if e = 98 then Some 8
      else if e = 102 then Some 12
      else if e = 110 then Some 10
      else if e = 114 then Some 13
      else if e = 116 then Some 9
      else None)"

lemma js_hex4_shorter: "js_hex4 s = Some (u, r) \<Longrightarrow> length r < length s"
  by (induction s rule: js_hex4.induct) (auto split: option.splits)

lemma js_pair_shorter: "js_pair u r = (c, r') \<Longrightarrow> length r' \<le> length r"
  by (auto simp: js_pair_def split: if_splits option.splits dest!: js_hex4_shorter)

text \<open>The text after an opening quote: its code points and what follows the closing quote.\<close>

definition js_unit :: "nat \<Rightarrow> nat list \<Rightarrow> (nat \<times> nat list) option" where
  "js_unit c r =
     (if c = 92 then
        (case r of
           [] \<Rightarrow> None
         | e # r' \<Rightarrow>
             if e = 117 then map_option (\<lambda>(u, r2). js_pair u r2) (js_hex4 r')
             else map_option (\<lambda>x. (x, r')) (js_escape e))
      else if c < 32 then None
      else Some (c, r))"

lemma js_unit_shorter: "js_unit c r = Some (x, r') \<Longrightarrow> length r' \<le> length r"
  by (auto simp: js_unit_def split: if_splits list.splits dest!: js_hex4_shorter js_pair_shorter)

function js_string :: "nat list \<Rightarrow> (nat list \<times> nat list) option" where
  "js_string s =
     (case s of
        [] \<Rightarrow> None
      | c # r \<Rightarrow>
          if c = 34 then Some ([], r)
          else (case js_unit c r of
                  None \<Rightarrow> None
                | Some (x, r') \<Rightarrow> map_option (\<lambda>(t, r2). (x # t, r2)) (js_string r')))"
  by pat_completeness auto
termination
  by (relation "measure length") (auto dest: js_unit_shorter)

declare js_string.simps [simp del]

section \<open>Numbers and constants\<close>

definition cp_value :: "nat list \<Rightarrow> nat" where
  "cp_value ds = foldl (\<lambda>a c. 10 * a + (c - 48)) 0 ds"

definition js_frac :: "nat list \<Rightarrow> nat list \<times> nat list" where
  "js_frac r =
     (case r of
        p # d # _ \<Rightarrow> if p = 46 \<and> cp_digit d then (takeWhile cp_digit (tl r), dropWhile cp_digit (tl r)) else ([], r)
      | _ \<Rightarrow> ([], r))"

text \<open>The exponent, as its sign and digits; no digits, no exponent.\<close>

definition js_exp :: "nat list \<Rightarrow> (bool \<times> nat list) option \<times> nat list" where
  "js_exp r =
     (if r \<noteq> [] \<and> (hd r = 101 \<or> hd r = 69) then
        (let s = tl r;
             signed = (s \<noteq> [] \<and> (hd s = 43 \<or> hd s = 45));
             neg = (signed \<and> hd s = 45);
             ds = takeWhile cp_digit (if signed then tl s else s);
             rest = dropWhile cp_digit (if signed then tl s else s)
         in if ds = [] then (None, r) else (Some (neg, ds), rest))
      else (None, r))"

definition js_int_part :: "nat list \<Rightarrow> (nat list \<times> nat list) option" where
  "js_int_part s =
     (case s of
        [] \<Rightarrow> None
      | c # r \<Rightarrow>
          if 49 \<le> c \<and> c \<le> 57 then Some (takeWhile cp_digit s, dropWhile cp_digit s)
          else if c = 48 then Some ([c], r)
          else None)"

text \<open>A run of more than 4300 digits is no integer for the interpreter.\<close>

definition js_number :: "nat list \<Rightarrow> (jdoc \<times> nat list) option" where
  "js_number s =
     (let neg = (s \<noteq> [] \<and> hd s = 45); r = (if neg then tl s else s)
      in case js_int_part r of
           None \<Rightarrow> None
         | Some (ip, r1) \<Rightarrow>
             (let (fp, r2) = js_frac r1; (ex, r3) = js_exp r2
              in if fp = [] \<and> ex = None
                 then (if 4300 < length ip then None
                       else Some (JD_int (if neg then - int (cp_value ip) else int (cp_value ip)), r3))
                 else (let m = of_nat (cp_value (ip @ fp)) / 10 ^ length fp :: rat;
                           v = (case ex of
                                  None \<Rightarrow> m
                                | Some (eneg, ds) \<Rightarrow> if eneg then m / 10 ^ cp_value ds else m * 10 ^ cp_value ds)
                       in Some (JD_float (if neg then - v else v), r3))))"

definition js_starts :: "nat list \<Rightarrow> nat list \<Rightarrow> bool" where
  "js_starts p s = (take (length p) s = p)"

definition js_const :: "nat list \<Rightarrow> (jdoc \<times> nat list) option" where
  "js_const s =
     (if js_starts (cps ''null'') s then Some (JD_null, drop 4 s)
      else if js_starts (cps ''true'') s then Some (JD_bool True, drop 4 s)
      else if js_starts (cps ''false'') s then Some (JD_bool False, drop 5 s)
      else if js_starts (cps ''NaN'') s then Some (JD_special (cps ''nan''), drop 3 s)
      else if js_starts (cps ''Infinity'') s then Some (JD_special (cps ''inf''), drop 8 s)
      else if js_starts (cps ''-Infinity'') s then Some (JD_special (cps ''-inf''), drop 9 s)
      else js_number s)"

section \<open>Values\<close>

text \<open>What follows an expected character.\<close>

definition js_expect :: "nat \<Rightarrow> nat list \<Rightarrow> nat list option" where
  "js_expect c s = (case s of [] \<Rightarrow> None | x # r \<Rightarrow> if x = c then Some r else None)"

definition js_key :: "nat list \<Rightarrow> (nat list \<times> nat list) option" where
  "js_key s =
     (case js_expect 34 s of
        None \<Rightarrow> None
      | Some r \<Rightarrow>
          (case js_string r of
             None \<Rightarrow> None
           | Some (k, r1) \<Rightarrow> map_option (\<lambda>r2. (k, js_skip r2)) (js_expect 58 (js_skip r1))))"

text \<open>
  The third argument of the two loops bounds their rounds; a round reads at least one character, so the length
  of the text is enough (\<open>js_rounds_enough\<close>).
\<close>

function (sequential)
  js_value :: "nat \<Rightarrow> nat list \<Rightarrow> (jdoc \<times> nat list) option"
  and js_elems :: "nat \<Rightarrow> nat \<Rightarrow> nat list \<Rightarrow> (jdoc list \<times> nat list) option"
  and js_members :: "nat \<Rightarrow> nat \<Rightarrow> (nat list \<times> jdoc) list \<Rightarrow> nat list \<Rightarrow> ((nat list \<times> jdoc) list \<times> nat list) option"
where
  "js_value d s =
     (case s of
        [] \<Rightarrow> None
      | c # r \<Rightarrow>
          if c = 34 then map_option (\<lambda>(t, r'). (JD_text t, r')) (js_string r)
          else if c = 123 then
            (if d = 0 then None
             else case js_expect 125 (js_skip r) of
                    Some r' \<Rightarrow> Some (JD_dict [], r')
                  | None \<Rightarrow> map_option (\<lambda>(kvs, r'). (JD_dict kvs, r')) (js_members (d - 1) (length r) [] (js_skip r)))
          else if c = 91 then
            (if d = 0 then None
             else case js_expect 93 (js_skip r) of
                    Some r' \<Rightarrow> Some (JD_list [], r')
                  | None \<Rightarrow> map_option (\<lambda>(xs, r'). (JD_list xs, r')) (js_elems (d - 1) (length r) (js_skip r)))
          else js_const s)"
| "js_elems d 0 s = None"
| "js_elems d (Suc n) s =
     (case js_value d s of
        None \<Rightarrow> None
      | Some (v, r) \<Rightarrow>
          (case js_expect 93 (js_skip r) of
             Some r' \<Rightarrow> Some ([v], r')
           | None \<Rightarrow>
               (case js_expect 44 (js_skip r) of
                  None \<Rightarrow> None
                | Some r' \<Rightarrow> map_option (\<lambda>(vs, r2). (v # vs, r2)) (js_elems d n (js_skip r')))))"
| "js_members d 0 acc s = None"
| "js_members d (Suc n) acc s =
     (case js_key s of
        None \<Rightarrow> None
      | Some (k, r0) \<Rightarrow>
          (case js_value d r0 of
             None \<Rightarrow> None
           | Some (v, r) \<Rightarrow>
               (case js_expect 125 (js_skip r) of
                  Some r' \<Rightarrow> Some (AList.update k v acc, r')
                | None \<Rightarrow>
                    (case js_expect 44 (js_skip r) of
                       None \<Rightarrow> None
                     | Some r' \<Rightarrow> js_members d n (AList.update k v acc) (js_skip r')))))"
  by pat_completeness auto
termination
  by (relation "inv_image (less_than <*lex*> less_than)
      (\<lambda>x. case x of Inl (d, s) \<Rightarrow> (d, 0)
         | Inr (Inl (d, n, s)) \<Rightarrow> (d, Suc n)
         | Inr (Inr (d, n, acc, s)) \<Rightarrow> (d, Suc n))") auto

declare js_value.simps [simp del]

text \<open>What a parser reads is gone, so the bound on the rounds of its loops is never met.\<close>

lemma js_skip_le: "length (js_skip s) \<le> length s"
  by (simp add: js_skip_def length_dropWhile_le)

lemma js_expect_shorter: "js_expect c s = Some r \<Longrightarrow> length r < length s"
  by (auto simp: js_expect_def split: list.splits if_splits)

lemma js_string_shorter: "js_string s = Some (t, r) \<Longrightarrow> length r < length s"
proof (induction s arbitrary: t r rule: js_string.induct)
  case (1 s)
  show ?case
  proof (cases s)
    case (Cons c s')
    then show ?thesis
      using 1 by (subst (asm) (2) js_string.simps) (fastforce split: if_splits option.splits dest: js_unit_shorter)
  qed (use 1 in \<open>simp add: js_string.simps\<close>)
qed

lemma js_key_shorter: "js_key s = Some (k, r) \<Longrightarrow> length r < length s"
  by (auto simp: js_key_def split: option.splits dest!: js_expect_shorter js_string_shorter)
    (meson js_skip_le le_less_trans less_trans)

lemma js_int_part_shorter: "js_int_part s = Some (ds, r) \<Longrightarrow> length r < length s"
  by (auto simp: js_int_part_def cp_digit_def split: list.splits if_splits intro: le_imp_less_Suc length_dropWhile_le)

lemma js_frac_le: "js_frac s = (fp, r) \<Longrightarrow> length r \<le> length s"
  using length_dropWhile_le [of cp_digit "tl s"] by (auto simp: js_frac_def split: list.splits if_splits)

lemma js_exp_le: "js_exp s = (e, r) \<Longrightarrow> length r \<le> length s"
  using length_dropWhile_le [of cp_digit "tl s"] length_dropWhile_le [of cp_digit "tl (tl s)"]
  by (auto simp: js_exp_def Let_def split: if_splits)

lemma js_number_shorter: "js_number s = Some (v, r) \<Longrightarrow> length r < length s"
  by (cases s) (fastforce simp: js_number_def Let_def split: option.splits prod.splits if_splits
      dest!: js_int_part_shorter js_frac_le js_exp_le)+

lemma js_starts_length: "js_starts p s \<Longrightarrow> length p \<le> length s"
  by (metis js_starts_def length_take min.absorb_iff2 min.commute)

lemma js_const_shorter: "js_const s = Some (v, r) \<Longrightarrow> length r < length s"
  by (fastforce simp: js_const_def split: if_splits dest: js_number_shorter js_starts_length)

lemma js_loops_shorter:
  "js_value d s = Some (v, r) \<Longrightarrow> length r < length s"
  "js_elems d n s = Some (vs, r) \<Longrightarrow> length r < length s"
  "js_members d n acc s = Some (kvs, r) \<Longrightarrow> length r < length s"
proof (induction d s and d n s and d n acc s arbitrary: v r and vs r and kvs r rule: js_value_js_elems_js_members.induct)
  case (1 d s)
  show ?case
  proof (cases s)
    case (Cons c s')
    show ?thesis
      using 1(3) 1(1,2) [OF Cons] js_skip_le [of s'] unfolding js_value.simps Cons
      by (fastforce split: if_splits option.splits dest: js_string_shorter js_expect_shorter js_const_shorter)
  qed (use 1 in \<open>simp add: js_value.simps\<close>)
next
  case (3 d n s)
  then show ?case
    by (auto split: option.splits dest!: js_expect_shorter) (meson js_skip_le le_less_trans less_trans)+
next
  case (5 d n acc s)
  then show ?case
    by (auto split: option.splits dest!: js_expect_shorter js_key_shorter) (meson js_skip_le le_less_trans less_trans)+
qed auto

lemma js_rounds_enough:
  "length s \<le> n \<Longrightarrow> js_elems d n s = js_elems d (length s) s"
  "length s \<le> n \<Longrightarrow> js_members d n acc s = js_members d (length s) acc s"
proof -
  have e: "js_elems d n s = js_elems d m s" if "length s \<le> n" "length s \<le> m" for n m s
    using that
  proof (induction n arbitrary: m s)
    case 0
    then show ?case by (cases m) (auto simp: js_value.simps)
  next
    case (Suc n)
    then show ?case
    proof (cases m)
      case 0
      with Suc show ?thesis by (simp add: js_value.simps)
    next
      case (Suc m')
      have "js_elems d n (js_skip r') = js_elems d m' (js_skip r')"
        if "js_value d s = Some (v, r)" "js_expect 44 (js_skip r) = Some r'" for v r r'
        using Suc.IH [of "js_skip r'" m'] Suc.prems Suc that js_loops_shorter(1) [of d s v r]
          js_expect_shorter [of 44 "js_skip r" r'] js_skip_le [of r] js_skip_le [of r'] by simp
      with Suc show ?thesis by (auto split: option.splits)
    qed
  qed
  then show "length s \<le> n \<Longrightarrow> js_elems d n s = js_elems d (length s) s" by blast
  have m: "js_members d n acc s = js_members d m acc s" if "length s \<le> n" "length s \<le> m" for n m acc s
    using that
  proof (induction n arbitrary: m acc s)
    case 0
    then show ?case by (cases m) (auto simp: js_key_def js_expect_def)
  next
    case (Suc n)
    then show ?case
    proof (cases m)
      case 0
      with Suc show ?thesis by (simp add: js_key_def js_expect_def)
    next
      case (Suc m')
      have "js_members d n acc' (js_skip r') = js_members d m' acc' (js_skip r')"
        if "js_key s = Some (k, r0)" "js_value d r0 = Some (v, r)" "js_expect 44 (js_skip r) = Some r'" for k r0 v r r' acc'
        using Suc.IH [of "js_skip r'" m' acc'] Suc.prems Suc that js_loops_shorter(1) [of d r0 v r] js_key_shorter [of s k r0]
          js_expect_shorter [of 44 "js_skip r" r'] js_skip_le [of r] js_skip_le [of r'] by simp
      with Suc show ?thesis by (auto split: option.splits)
    qed
  qed
  then show "length s \<le> n \<Longrightarrow> js_members d n acc s = js_members d (length s) acc s" by blast
qed

text \<open>\<^verbatim>\<open>json.loads(text)\<close>: a byte order mark is refused, white space around the value is not.\<close>

definition js_loads :: "nat \<Rightarrow> nat list \<Rightarrow> jdoc option" where
  "js_loads depth s =
     (if s \<noteq> [] \<and> hd s = 65279 then None
      else case js_value depth (js_skip s) of
             None \<Rightarrow> None
           | Some (v, r) \<Rightarrow> if js_skip r = [] then Some v else None)"

end
