(* ===== verification/Webauthn.thy ===== *)
theory Webauthn
  imports Mfa_Service Cbor_Proofs Sha256 Json_Loads
begin

text \<open>
  Security keys: the ceremonies of \<^verbatim>\<open>lib/core/mfa/webauthn.py\<close>, the keys of \<^verbatim>\<open>lib/core/mfa/cose.py\<close> and the
  operations of \<^verbatim>\<open>lib/core/mfa/service.py\<close> on them. The \<^verbatim>\<open>cryptography\<close> package is a pair of
  functions: whether it builds a key from its numbers, and whether a signature covers data under it. The text
  Python prints for a float, a list or a dict, the depth at which it stops reading nested JSON and its
  reading of digits outside Latin-1 are arguments too. An exception that is no \<^verbatim>\<open>CeremonyError\<close> is
  an outcome of its own: it leaves the function.
\<close>

unbundle bit_operations_syntax

section \<open>base64url\<close>

definition b64_alphabet :: string where
  "b64_alphabet = ''ABCDEFGHIJKLMNOPQRSTUVWXYZabcdefghijklmnopqrstuvwxyz0123456789-_''"

fun b64_groups :: "nat list \<Rightarrow> string" where
  "b64_groups (a # b # c # r) =
     [b64_alphabet ! (a div 4), b64_alphabet ! (a mod 4 * 16 + b div 16),
      b64_alphabet ! (b mod 16 * 4 + c div 64), b64_alphabet ! (c mod 64)] @ b64_groups r"
| "b64_groups [a, b] =
     [b64_alphabet ! (a div 4), b64_alphabet ! (a mod 4 * 16 + b div 16), b64_alphabet ! (b mod 16 * 4), CHR ''='']"
| "b64_groups [a] = [b64_alphabet ! (a div 4), b64_alphabet ! (a mod 4 * 16), CHR ''='', CHR ''='']"
| "b64_groups [] = []"

definition rstrip_char :: "char \<Rightarrow> string \<Rightarrow> string" where
  "rstrip_char x s = rev (dropWhile (\<lambda>c. c = x) (rev s))"

definition b64u_encode :: "nat list \<Rightarrow> string" where
  "b64u_encode raw = rstrip_char (CHR ''='') (b64_groups raw)"

definition b64_value :: "char \<Rightarrow> nat option" where
  "b64_value c =
     (let n = code c in
      if 65 \<le> n \<and> n \<le> 90 then Some (n - 65)
      else if 97 \<le> n \<and> n \<le> 122 then Some (n - 71)
      else if 48 \<le> n \<and> n \<le> 57 then Some (n + 4)
      else if c = CHR ''+'' \<or> c = CHR ''-'' then Some 62
      else if c = CHR ''/'' \<or> c = CHR ''_'' then Some 63
      else None)"

text \<open>
  The lenient reading of \<^verbatim>\<open>base64.urlsafe_b64decode\<close>: characters outside both alphabets are skipped, padding that
  completes a group ends the text. \<open>q\<close> is the place in the group, \<open>lo\<close> the bits held, \<open>pads\<close> the padding seen.
\<close>

fun b64_scan :: "nat \<Rightarrow> nat \<Rightarrow> nat \<Rightarrow> string \<Rightarrow> nat list option" where
  "b64_scan q lo pads [] = (if q = 0 then Some [] else None)"
| "b64_scan q lo pads (c # r) =
     (if c = CHR ''='' then
        (if 2 \<le> q \<and> 4 \<le> q + (pads + 1) then Some []
         else b64_scan q lo (if 2 \<le> q then pads + 1 else pads) r)
      else case b64_value c of
             None \<Rightarrow> b64_scan q lo pads r
           | Some v \<Rightarrow>
               if q = 0 then b64_scan 1 v 0 r
               else if q = 1 then map_option (Cons (lo * 4 + v div 16)) (b64_scan 2 (v mod 16) 0 r)
               else if q = 2 then map_option (Cons (lo * 16 + v div 4)) (b64_scan 3 (v mod 4) 0 r)
               else map_option (Cons (lo * 64 + v)) (b64_scan 0 0 0 r))"

definition b64u_decode :: "string \<Rightarrow> nat list" where
  "b64u_decode s =
     (if list_all is_ascii s
      then (case b64_scan 0 0 0 (s @ replicate ((4 - length s mod 4) mod 4) (CHR ''='')) of
              None \<Rightarrow> [] | Some bs \<Rightarrow> bs)
      else [])"

definition challenge_bytes :: nat where "challenge_bytes = 32"

definition new_challenge :: "nat list \<Rightarrow> string" where
  "new_challenge drawn = b64u_encode (take challenge_bytes drawn)"

section \<open>Where a credential belongs\<close>

text \<open>The text around the first occurrence of a separator.\<close>

fun cut_at :: "string \<Rightarrow> string \<Rightarrow> (string \<times> string) option" where
  "cut_at sep [] = (if sep = [] then Some ([], []) else None)"
| "cut_at sep (c # s) =
     (if starts_with sep (c # s) then Some ([], drop (length sep) (c # s))
      else map_option (\<lambda>(a, b). (c # a, b)) (cut_at sep s))"

definition before_char :: "char \<Rightarrow> string \<Rightarrow> string" where
  "before_char x s = takeWhile (\<lambda>c. c \<noteq> x) s"

definition rp_id_from :: "string \<Rightarrow> string" where
  "rp_id_from public_url =
     (let text = py_strip public_url
      in if text = [] then []
         else let text1 = (case cut_at ''://'' text of Some (_, b) \<Rightarrow> b | None \<Rightarrow> text);
                  text2 = before_char (CHR ''?'') (before_char (CHR ''/'') text1)
           in if starts_with ''['' text2 then []
              else let device = rstrip_char (CHR ''.'') (py_lower (py_strip (before_char (CHR '':'') text2)));
                       bare = filter (\<lambda>c. c \<noteq> CHR ''.'') device
                in if device = [] \<or> (bare \<noteq> [] \<and> list_all is_digit_char bare) then [] else device)"

definition origin_from :: "string \<Rightarrow> string" where
  "origin_from public_url =
     (let text = rstrip_char (CHR ''/'') (py_strip public_url)
      in if text = [] then []
         else case cut_at ''://'' (if cut_at ''://'' text = None then ''https://'' @ text else text) of
                Some (scheme, rest) \<Rightarrow> py_lower scheme @ ''://'' @ before_char (CHR ''/'') rest
              | None \<Rightarrow> [])"

section \<open>Keys\<close>

datatype key_numbers = P256 nat nat | Ed25519 "nat list" | Rsa nat nat

record wa_env =
  wa_depth :: nat
  wa_repr :: "jdoc \<Rightarrow> nat list"
  wa_wide_int :: "nat list \<Rightarrow> int option"
  wa_usable :: "key_numbers \<Rightarrow> bool"
  wa_signed :: "key_numbers \<Rightarrow> nat list \<Rightarrow> nat list \<Rightarrow> bool"

datatype cose_error =
    Not_a_cose_key | Unsupported_algorithm | Algorithm_mismatch | Needs_p256 | Malformed_p256
  | Needs_ed25519 | Malformed_ed25519 | Needs_rsa | Malformed_rsa | Rsa_too_small | Library_refuses

definition es256 :: int where "es256 = - 7"
definition eddsa :: int where "eddsa = - 8"
definition rs256 :: int where "rs256 = - 257"

definition cose_supported :: "int list" where
  "cose_supported = [es256, rs256, eddsa]"

text \<open>A lookup in a decoded map, whose keys Python compares by value.\<close>

definition cb_get :: "(cbor_value \<times> cbor_value) list \<Rightarrow> cbor_value \<Rightarrow> cbor_value option" where
  "cb_get kvs k = map_of (map (\<lambda>(l, v). (key_value l, v)) kvs) (key_value k)"

definition cb_is :: "cbor_value option \<Rightarrow> int \<Rightarrow> bool" where
  "cb_is v n = (case v of None \<Rightarrow> False | Some x \<Rightarrow> key_value x = Cb_int n)"

text \<open>\<^verbatim>\<open>int(x or 0)\<close>; digits beyond 4300 and anything that is no number answer \<open>None\<close>.\<close>

definition int_of_chars :: "string \<Rightarrow> int option" where
  "int_of_chars s = (if 4300 < length (filter is_dec s) then None else int_of_str s)"

fun cb_int_or_0 :: "wa_env \<Rightarrow> cbor_value \<Rightarrow> int option" where
  "cb_int_or_0 e (Cb_int n) = Some n"
| "cb_int_or_0 e (Cb_bool b) = Some (if b then 1 else 0)"
| "cb_int_or_0 e Cb_null = Some 0"
| "cb_int_or_0 e (Cb_text t) =
     (if t = [] then Some 0
      else if list_ex (\<lambda>c. 256 \<le> c) t then wa_wide_int e t
      else int_of_chars (map char_of t))"
| "cb_int_or_0 e (Cb_bytes bs) =
     (if bs = [] then Some 0
      else if list_ex (\<lambda>b. (28 \<le> b \<and> b \<le> 31) \<or> 128 \<le> b) bs then None
      else int_of_chars (map char_of bs))"
| "cb_int_or_0 e (Cb_array xs) = (if xs = [] then Some 0 else None)"
| "cb_int_or_0 e (Cb_map kvs) = (if kvs = [] then Some 0 else None)"

definition algorithm_of :: "wa_env \<Rightarrow> (cbor_value \<times> cbor_value) list \<Rightarrow> int" where
  "algorithm_of e kvs =
     (case cb_get kvs (Cb_int 3) of
        None \<Rightarrow> 0
      | Some v \<Rightarrow> (case cb_int_or_0 e v of None \<Rightarrow> 0 | Some n \<Rightarrow> n))"

definition build_key :: "wa_env \<Rightarrow> key_numbers \<Rightarrow> cose_error + key_numbers" where
  "build_key e k = (if wa_usable e k then Inr k else Inl Library_refuses)"

definition p256_key :: "wa_env \<Rightarrow> (cbor_value \<times> cbor_value) list \<Rightarrow> cose_error + key_numbers" where
  "p256_key e kvs =
     (if \<not> cb_is (cb_get kvs (Cb_int 1)) 2 \<or> \<not> cb_is (cb_get kvs (Cb_int (- 1))) 1 then Inl Needs_p256
      else case (cb_get kvs (Cb_int (- 2)), cb_get kvs (Cb_int (- 3))) of
             (Some (Cb_bytes x), Some (Cb_bytes y)) \<Rightarrow>
               if length x = 32 \<and> length y = 32 then build_key e (P256 (be_value x) (be_value y)) else Inl Malformed_p256
           | _ \<Rightarrow> Inl Malformed_p256)"

definition ed25519_key :: "wa_env \<Rightarrow> (cbor_value \<times> cbor_value) list \<Rightarrow> cose_error + key_numbers" where
  "ed25519_key e kvs =
     (if \<not> cb_is (cb_get kvs (Cb_int 1)) 1 \<or> \<not> cb_is (cb_get kvs (Cb_int (- 1))) 6 then Inl Needs_ed25519
      else case cb_get kvs (Cb_int (- 2)) of
             Some (Cb_bytes x) \<Rightarrow> if length x = 32 then build_key e (Ed25519 x) else Inl Malformed_ed25519
           | _ \<Rightarrow> Inl Malformed_ed25519)"

definition rsa_key :: "wa_env \<Rightarrow> (cbor_value \<times> cbor_value) list \<Rightarrow> cose_error + key_numbers" where
  "rsa_key e kvs =
     (if \<not> cb_is (cb_get kvs (Cb_int 1)) 3 then Inl Needs_rsa
      else case (cb_get kvs (Cb_int (- 1)), cb_get kvs (Cb_int (- 2))) of
             (Some (Cb_bytes n), Some (Cb_bytes x)) \<Rightarrow>
               if n = [] \<or> x = [] then Inl Malformed_rsa
               else if be_value n < 2 ^ 2047 then Inl Rsa_too_small
               else build_key e (Rsa (be_value x) (be_value n))
           | _ \<Rightarrow> Inl Malformed_rsa)"

definition public_key :: "wa_env \<Rightarrow> cbor_value \<Rightarrow> int \<Rightarrow> cose_error + key_numbers" where
  "public_key e key alg =
     (case key of
        Cb_map kvs \<Rightarrow>
          (if alg \<notin> set cose_supported then Inl Unsupported_algorithm
           else let declared = algorithm_of e kvs
             in if declared \<noteq> 0 \<and> declared \<noteq> alg then Inl Algorithm_mismatch
                else if alg = es256 then p256_key e kvs
                else if alg = eddsa then ed25519_key e kvs
                else rsa_key e kvs)
      | _ \<Rightarrow> Inl Not_a_cose_key)"

definition cose_verify :: "wa_env \<Rightarrow> cbor_value \<Rightarrow> int \<Rightarrow> nat list \<Rightarrow> nat list \<Rightarrow> bool" where
  "cose_verify e key alg signature data =
     (case public_key e key alg of Inl _ \<Rightarrow> False | Inr k \<Rightarrow> wa_signed e k signature data)"

section \<open>Authenticator data\<close>

datatype ceremony_error =
    Data_too_short | Credential_truncated | Credential_length | Key_unreadable | Key_not_cose
  | Client_not_json | Client_not_object | Wrong_type | Wrong_challenge | Wrong_origin
  | Attestation_unreadable | No_authenticator_data | Wrong_site | Nobody_present | Not_verified
  | No_credential | Key_algorithm | Signature_fails | Counter_backwards

datatype wa_error = Ceremony ceremony_error | Raises_cose cose_error | Raises_encoding

record auth_data =
  ad_rp_hash :: "nat list"
  ad_flags :: nat
  ad_count :: nat
  ad_cred :: "nat list"
  ad_key :: "cbor_value option"
  ad_raw :: "nat list"
  ad_aaguid :: "nat list"

definition flag_up :: nat where "flag_up = 1"
definition flag_uv :: nat where "flag_uv = 4"
definition flag_at :: nat where "flag_at = 64"

definition has_flag :: "nat \<Rightarrow> nat \<Rightarrow> bool" where
  "has_flag flags f = (flags AND f \<noteq> 0)"

definition parse_auth_data :: "nat list \<Rightarrow> ceremony_error + auth_data" where
  "parse_auth_data data =
     (if length data < 37 then Inl Data_too_short
      else let out = \<lparr>ad_rp_hash = take 32 data, ad_flags = data ! 32, ad_count = be_value (take 4 (drop 33 data)),
                      ad_cred = [], ad_key = None, ad_raw = [], ad_aaguid = []\<rparr>
        in if \<not> has_flag (ad_flags out) flag_at then Inr out
           else if length data < 55 then Inl Credential_truncated
           else let cred_len = be_value (take 2 (drop 53 data)); key_at = 55 + cred_len
             in if 1023 < cred_len \<or> length data < 55 + cred_len then Inl Credential_length
                else (case decode_from data key_at of
                        Inl _ \<Rightarrow> Inl Key_unreadable
                      | Inr (key, consumed) \<Rightarrow>
                          (case key of
                             Cb_map kvs \<Rightarrow>
                               Inr (out\<lparr>ad_aaguid := take 16 (drop 37 data), ad_cred := take cred_len (drop 55 data),
                                        ad_key := Some key, ad_raw := take consumed (drop key_at data)\<rparr>)
                           | _ \<Rightarrow> Inl Key_not_cose)))"

section \<open>Client data\<close>

text \<open>\<^verbatim>\<open>str(x or '')\<close> of a JSON value.\<close>

fun js_text :: "wa_env \<Rightarrow> jdoc \<Rightarrow> nat list" where
  "js_text e JD_null = []"
| "js_text e (JD_bool b) = (if b then cps ''True'' else [])"
| "js_text e (JD_int n) = (if n = 0 then [] else cps (show_int n))"
| "js_text e (JD_float x) = (if x = 0 then [] else wa_repr e (JD_float x))"
| "js_text e (JD_special t) = t"
| "js_text e (JD_text t) = t"
| "js_text e (JD_list xs) = (if xs = [] then [] else wa_repr e (JD_list xs))"
| "js_text e (JD_dict kvs) = (if kvs = [] then [] else wa_repr e (JD_dict kvs))"

definition js_get :: "wa_env \<Rightarrow> (nat list \<times> jdoc) list \<Rightarrow> string \<Rightarrow> nat list" where
  "js_get e kvs k = (case map_of kvs (cps k) of None \<Rightarrow> [] | Some v \<Rightarrow> js_text e v)"

text \<open>\<^verbatim>\<open>str.encode('utf-8')\<close>, which raises on a lone surrogate.\<close>

definition encode_text :: "nat list \<Rightarrow> nat list option" where
  "encode_text t = (if list_all valid_cp t then Some (utf8_encode t) else None)"

definition client_data :: "wa_env \<Rightarrow> nat list \<Rightarrow> string \<Rightarrow> string \<Rightarrow> string \<Rightarrow> wa_error + (nat list \<times> jdoc) list" where
  "client_data e raw want challenge origin =
     (case Option.bind (utf8_decode raw) (js_loads (wa_depth e)) of
        None \<Rightarrow> Inl (Ceremony Client_not_json)
      | Some (JD_dict kvs) \<Rightarrow>
          (if js_get e kvs ''type'' \<noteq> cps want then Inl (Ceremony Wrong_type)
           else if challenge = [] then Inl (Ceremony Wrong_challenge)
           else (case encode_text (js_get e kvs ''challenge'') of
                   None \<Rightarrow> Inl Raises_encoding
                 | Some got \<Rightarrow>
                     if got \<noteq> utf8_encode (cps challenge) then Inl (Ceremony Wrong_challenge)
                     else if origin = [] \<or> js_get e kvs ''origin'' \<noteq> cps origin then Inl (Ceremony Wrong_origin)
                     else Inr kvs))
      | Some _ \<Rightarrow> Inl (Ceremony Client_not_object))"

section \<open>The ceremonies\<close>

record credential =
  cr_id :: "nat list"
  cr_key :: cbor_value
  cr_raw :: "nat list"
  cr_alg :: int
  cr_count :: nat
  cr_aaguid :: "nat list"
  cr_uv :: bool

text \<open>The three checks both ceremonies make of the authenticator data.\<close>

definition check_auth_data :: "string \<Rightarrow> bool \<Rightarrow> auth_data \<Rightarrow> ceremony_error option" where
  "check_auth_data rp_id require_uv a =
     (if ad_rp_hash a \<noteq> sha256 (utf8_encode (cps rp_id)) then Some Wrong_site
      else if \<not> has_flag (ad_flags a) flag_up then Some Nobody_present
      else if require_uv \<and> \<not> has_flag (ad_flags a) flag_uv then Some Not_verified
      else None)"

definition attested_credential :: "wa_env \<Rightarrow> auth_data \<Rightarrow> wa_error + credential" where
  "attested_credential e a =
     (case ad_key a of
        Some (Cb_map kvs) \<Rightarrow>
          (if ad_cred a = [] then Inl (Ceremony No_credential)
           else let alg = algorithm_of e kvs
             in if alg \<notin> set cose_supported then Inl (Ceremony Key_algorithm)
                else (case public_key e (Cb_map kvs) alg of
                        Inl err \<Rightarrow> Inl (Raises_cose err)
                      | Inr _ \<Rightarrow>
                          Inr \<lparr>cr_id = ad_cred a, cr_key = Cb_map kvs, cr_raw = ad_raw a, cr_alg = alg,
                               cr_count = ad_count a, cr_aaguid = ad_aaguid a,
                               cr_uv = has_flag (ad_flags a) flag_uv\<rparr>))
      | _ \<Rightarrow> Inl (Ceremony No_credential))"

definition verify_registration :: "wa_env \<Rightarrow> nat list \<Rightarrow> nat list \<Rightarrow> string \<Rightarrow> string \<Rightarrow> string \<Rightarrow> bool
    \<Rightarrow> wa_error + credential" where
  "verify_registration e attestation_object client_data_json challenge rp_id origin require_uv =
     (case client_data e client_data_json ''webauthn.create'' challenge origin of
        Inl err \<Rightarrow> Inl err
      | Inr _ \<Rightarrow>
          (case decode attestation_object of
             Inl _ \<Rightarrow> Inl (Ceremony Attestation_unreadable)
           | Inr att \<Rightarrow>
               (case (case att of Cb_map kvs \<Rightarrow> cb_get kvs (Cb_text (cps ''authData'')) | _ \<Rightarrow> None) of
                  Some (Cb_bytes blob) \<Rightarrow>
                    (case parse_auth_data blob of
                       Inl err \<Rightarrow> Inl (Ceremony err)
                     | Inr a \<Rightarrow>
                         (case check_auth_data rp_id require_uv a of
                            Some err \<Rightarrow> Inl (Ceremony err)
                          | None \<Rightarrow> attested_credential e a))
                | _ \<Rightarrow> Inl (Ceremony No_authenticator_data))))"

definition signed_message :: "nat list \<Rightarrow> nat list \<Rightarrow> nat list" where
  "signed_message auth client = auth @ sha256 client"

definition verify_assertion :: "wa_env \<Rightarrow> nat list \<Rightarrow> nat list \<Rightarrow> nat list \<Rightarrow> string \<Rightarrow> string \<Rightarrow> string
    \<Rightarrow> cbor_value \<Rightarrow> int \<Rightarrow> int \<Rightarrow> bool \<Rightarrow> wa_error + nat \<times> bool" where
  "verify_assertion e auth client_data_json signature challenge rp_id origin key alg last_count require_uv =
     (case client_data e client_data_json ''webauthn.get'' challenge origin of
        Inl err \<Rightarrow> Inl err
      | Inr _ \<Rightarrow>
          (case parse_auth_data auth of
             Inl err \<Rightarrow> Inl (Ceremony err)
           | Inr a \<Rightarrow>
               (case check_auth_data rp_id require_uv a of
                  Some err \<Rightarrow> Inl (Ceremony err)
                | None \<Rightarrow>
                    if \<not> cose_verify e key alg signature (signed_message auth client_data_json)
                    then Inl (Ceremony Signature_fails)
                    else if ad_count a \<noteq> 0 \<and> last_count \<noteq> 0 \<and> int (ad_count a) \<le> last_count
                    then Inl (Ceremony Counter_backwards)
                    else Inr (ad_count a, has_flag (ad_flags a) flag_uv))))"

section \<open>Security keys of an account\<close>

datatype 'a wa_answer =
    Granted 'a
  | Denied string "ceremony_error option"
  | Uncaught wa_error

fun wa_denied :: "wa_error \<Rightarrow> 'a wa_answer" where
  "wa_denied (Ceremony err) = Denied ''ceremony'' (Some err)"
| "wa_denied err = Uncaught err"

definition webauthn_register :: "wa_env \<Rightarrow> string \<Rightarrow> nat list \<Rightarrow> nat list \<Rightarrow> string \<Rightarrow> string \<Rightarrow> string \<Rightarrow> string \<Rightarrow> bool
    \<Rightarrow> string \<Rightarrow> string \<Rightarrow> mfa \<Rightarrow> mfa \<times> string wa_answer" where
  "webauthn_register e who attestation_object client_data_json challenge rp_id origin label require_uv uid stamp st =
     (if who = [] then (st, Denied ''unknown_user'' None)
      else case verify_registration e attestation_object client_data_json challenge rp_id origin require_uv of
             Inl err \<Rightarrow> (st, wa_denied err)
           | Inr c \<Rightarrow>
               (let (st', saved) = save_credential who (b64u_encode (cr_id c)) (b64u_encode (cr_raw c)) (cr_alg c)
                                     (int (cr_count c)) label uid stamp st
                in if \<not> saved then (st', Denied ''write_failed'' None)
                   else (st', Granted (b64u_encode (cr_id c)))))"

definition usable_factor :: "mfa \<Rightarrow> string \<Rightarrow> factor option" where
  "usable_factor st who =
     (case factor_of None st who webauthn_method False of
        None \<Rightarrow> None
      | Some fac \<Rightarrow> if \<not> fa_confirmed fac \<or> fa_cred fac = [] then None else Some fac)"

definition webauthn_credential :: "mfa \<Rightarrow> string \<Rightarrow> (string \<times> int \<times> int) option" where
  "webauthn_credential st who = map_option (\<lambda>fac. (fa_cred fac, fa_alg fac, fa_count fac)) (usable_factor st who)"

definition webauthn_verify :: "wa_env \<Rightarrow> string \<Rightarrow> nat list \<Rightarrow> nat list \<Rightarrow> nat list \<Rightarrow> string \<Rightarrow> string \<Rightarrow> string
    \<Rightarrow> string \<Rightarrow> bool \<Rightarrow> string \<Rightarrow> mfa \<Rightarrow> mfa \<times> bool wa_answer" where
  "webauthn_verify e who auth client_data_json signature credential_id challenge rp_id origin require_uv stamp st =
     (case usable_factor st who of
        None \<Rightarrow> (st, Denied ''not_enrolled'' None)
      | Some fac \<Rightarrow>
          if credential_id \<noteq> fa_cred fac then (st, Denied ''wrong_credential'' None)
          else (case decode (b64u_decode (fa_pubkey fac)) of
                  Inr (Cb_map kvs) \<Rightarrow>
                    (case verify_assertion e auth client_data_json signature challenge rp_id origin (Cb_map kvs)
                            (fa_alg fac) (fa_count fac) require_uv of
                       Inl err \<Rightarrow> (st, wa_denied err)
                     | Inr (count, uv) \<Rightarrow>
                         (if count \<noteq> 0 then fst (note_sign_count who (int count) stamp st) else st, Granted uv))
                | _ \<Rightarrow> (st, Denied ''stored_key_unreadable'' None)))"

end
