(* ===== verification/Webauthn_Proofs.thy ===== *)
theory Webauthn_Proofs
  imports Webauthn
begin

text \<open>
  Security keys: a key registered is the key later assertions are checked with, an assertion is accepted exactly
  when every check of the ceremony holds, and an honest key is never turned away.
\<close>

section \<open>base64url there and back\<close>

lemma b64_chars:
  assumes "d < 64"
  shows "b64_value (b64_alphabet ! d) = Some d" "b64_alphabet ! d \<noteq> CHR ''=''" "is_ascii (b64_alphabet ! d)"
proof -
  have "list_all (\<lambda>d. b64_value (b64_alphabet ! d) = Some d \<and> b64_alphabet ! d \<noteq> CHR ''='' \<and> is_ascii (b64_alphabet ! d)) [0..<64]"
    by code_simp
  with assms show "b64_value (b64_alphabet ! d) = Some d" "b64_alphabet ! d \<noteq> CHR ''=''" "is_ascii (b64_alphabet ! d)"
    by (simp_all add: list_all_iff del: upt_rec_numeral)
qed

lemma six_bits:
  "a < 256 \<Longrightarrow> a div 4 < (64 :: nat)"
  "b < 256 \<Longrightarrow> a mod 4 * 16 + b div 16 < (64 :: nat)"
  "c < 256 \<Longrightarrow> b mod 16 * 4 + c div 64 < (64 :: nat)"
  "c mod 64 < (64 :: nat)" "a mod 4 * 16 < (64 :: nat)" "b mod 16 * 4 < (64 :: nat)"
proof -
  have "a mod 4 < 4" "b mod 16 < 16" by simp_all
  moreover have "b div 16 < 16" if "b < 256" using that by (simp add: less_mult_imp_div_less)
  moreover have "c div 64 < 4" if "c < 256" using that by (simp add: less_mult_imp_div_less)
  ultimately show "b < 256 \<Longrightarrow> a mod 4 * 16 + b div 16 < (64 :: nat)" "c < 256 \<Longrightarrow> b mod 16 * 4 + c div 64 < (64 :: nat)"
    "c mod 64 < (64 :: nat)" "a mod 4 * 16 < (64 :: nat)" "b mod 16 * 4 < (64 :: nat)" by fastforce+
qed (simp add: less_mult_imp_div_less)

lemma low_part: "z < m \<Longrightarrow> (q * m + z) div m = q \<and> (q * m + z) mod m = (z :: nat)"
  by simp

lemma six_bits_back:
  fixes a b c :: nat
  shows "b < 256 \<Longrightarrow> a div 4 * 4 + (a mod 4 * 16 + b div 16) div 16 = a"
    "b < 256 \<Longrightarrow> c < 256 \<Longrightarrow> (a mod 4 * 16 + b div 16) mod 16 * 16 + (b mod 16 * 4 + c div 64) div 4 = b"
    "c < 256 \<Longrightarrow> (b mod 16 * 4 + c div 64) mod 4 * 64 + c mod 64 = c"
    "a div 4 * 4 + (a mod 4 * 16) div 16 = a"
    "b < 256 \<Longrightarrow> (a mod 4 * 16 + b div 16) mod 16 * 16 + (b mod 16 * 4) div 4 = b"
proof -
  have bc: "b div 16 < 16" if "b < 256" using that by (simp add: less_mult_imp_div_less)
  have c: "c div 64 < 4" if "c < 256" using that by (simp add: less_mult_imp_div_less)
  show "a div 4 * 4 + (a mod 4 * 16 + b div 16) div 16 = a" if "b < 256"
    using low_part [of "b div 16" 16 "a mod 4"] bc [OF that] by simp
  show "(a mod 4 * 16 + b div 16) mod 16 * 16 + (b mod 16 * 4 + c div 64) div 4 = b" if "b < 256" "c < 256"
    using low_part [of "b div 16" 16 "a mod 4"] low_part [of "c div 64" 4 "b mod 16"] bc [OF that(1)] c [OF that(2)] by simp
  show "(b mod 16 * 4 + c div 64) mod 4 * 64 + c mod 64 = c" if "c < 256"
    using low_part [of "c div 64" 4 "b mod 16"] c [OF that] by simp
  show "a div 4 * 4 + (a mod 4 * 16) div 16 = a" by simp
  show "(a mod 4 * 16 + b div 16) mod 16 * 16 + (b mod 16 * 4) div 4 = b" if "b < 256"
    using low_part [of "b div 16" 16 "a mod 4"] bc [OF that] by simp
qed

lemmas b64_sextets = b64_chars [OF six_bits(1)] b64_chars [OF six_bits(2)] b64_chars [OF six_bits(3)]
  b64_chars [OF six_bits(4)] b64_chars [OF six_bits(5)] b64_chars [OF six_bits(6)]

lemma b64_groups_shape:
  assumes "list_all (\<lambda>b. b < 256) bs"
  shows "\<exists>body k. b64_groups bs = body @ replicate k (CHR ''='') \<and> k < 3 \<and> (length body + k) mod 4 = 0
    \<and> list_all (\<lambda>c. c \<noteq> CHR ''='' \<and> is_ascii c) body"
  using assms
proof (induction bs rule: b64_groups.induct)
  case (1 a b c r)
  then obtain body k where g: "b64_groups r = body @ replicate k (CHR ''='')" "k < 3" "(length body + k) mod 4 = 0"
    "list_all (\<lambda>c. c \<noteq> CHR ''='' \<and> is_ascii c) body" by auto
  let ?b = "[b64_alphabet ! (a div 4), b64_alphabet ! (a mod 4 * 16 + b div 16),
      b64_alphabet ! (b mod 16 * 4 + c div 64), b64_alphabet ! (c mod 64)] @ body"
  have "(length ?b + k) mod 4 = 0" using g(3) by (simp add: mod_Suc)
  with g 1 show ?case by (intro exI [of _ ?b] exI [of _ k]) (simp add: b64_sextets)
next
  case (2 a b)
  then show ?case
    by (intro exI [of _ "[b64_alphabet ! (a div 4), b64_alphabet ! (a mod 4 * 16 + b div 16), b64_alphabet ! (b mod 16 * 4)]"] exI [of _ 1])
      (simp add: b64_sextets)
next
  case (3 a)
  then show ?case
    by (intro exI [of _ "[b64_alphabet ! (a div 4), b64_alphabet ! (a mod 4 * 16)]"] exI [of _ 2])
      (simp add: b64_sextets numeral_2_eq_2)
qed auto

lemma dropWhile_replicate: "list_all (\<lambda>c. c \<noteq> x) ys \<Longrightarrow> dropWhile (\<lambda>c. c = x) (replicate k x @ ys) = ys"
  by (induction k) (cases ys, auto)+

lemma rstrip_replicate: "list_all (\<lambda>c. c \<noteq> x) body \<Longrightarrow> rstrip_char x (body @ replicate k x) = body"
  by (simp add: rstrip_char_def dropWhile_replicate list_all_iff)

lemma b64_scan_char:
  assumes "d < 64"
  shows "b64_scan 0 lo pads (b64_alphabet ! d # r) = b64_scan (Suc 0) d 0 r"
    "b64_scan (Suc 0) lo pads (b64_alphabet ! d # r) = map_option (Cons (lo * 4 + d div 16)) (b64_scan 2 (d mod 16) 0 r)"
    "b64_scan 2 lo pads (b64_alphabet ! d # r) = map_option (Cons (lo * 16 + d div 4)) (b64_scan 3 (d mod 4) 0 r)"
    "b64_scan 3 lo pads (b64_alphabet ! d # r) = map_option (Cons (lo * 64 + d)) (b64_scan 0 0 0 r)"
  using b64_chars [OF assms] by simp_all

lemmas b64_scan_sextets = b64_scan_char [OF six_bits(1)] b64_scan_char [OF six_bits(2)] b64_scan_char [OF six_bits(3)]
  b64_scan_char [OF six_bits(4)] b64_scan_char [OF six_bits(5)] b64_scan_char [OF six_bits(6)]

lemma b64_scan_groups: "list_all (\<lambda>b. b < 256) bs \<Longrightarrow> b64_scan 0 lo pads (b64_groups bs) = Some bs"
proof (induction bs arbitrary: lo pads rule: b64_groups.induct)
  case (1 a b c r)
  then have lt: "a < 256" "b < 256" "c < 256" and ih: "\<And>lo pads. b64_scan 0 lo pads (b64_groups r) = Some r" by auto
  show ?case
    by (simp only: b64_groups.simps append.simps b64_scan_sextets(1) [OF lt(1)] b64_scan_sextets(6) [OF lt(2)]
        b64_scan_sextets(11) [OF lt(3)] b64_scan_sextets(16) six_bits_back(1) [OF lt(2)] six_bits_back(2) [OF lt(2,3)]
        six_bits_back(3) [OF lt(3)] ih option.map)
next
  case (2 a b)
  then have "b div 16 < 16" by (simp add: less_mult_imp_div_less)
  with 2 show ?case using b64_scan.simps(2) [of 3 _ _ "CHR ''=''"] by (simp add: b64_scan_sextets six_bits_back del: b64_scan.simps(2))
next
  case (3 a)
  then show ?case using b64_scan.simps(2) [of 2 _ _ "CHR ''=''"] by (simp add: b64_scan_sextets six_bits_back del: b64_scan.simps(2))
qed auto

lemma b64u_round_trip:
  assumes "list_all (\<lambda>b. b < 256) bs"
  shows "b64u_decode (b64u_encode bs) = bs"
proof -
  obtain body k where g: "b64_groups bs = body @ replicate k (CHR ''='')" "k < 3" "(length body + k) mod 4 = 0"
    "list_all (\<lambda>c. c \<noteq> CHR ''='' \<and> is_ascii c) body"
    using b64_groups_shape [OF assms] by (elim exE conjE) (rule that)
  have e: "b64u_encode bs = body" using g(1,4) by (simp add: b64u_encode_def rstrip_replicate list_all_iff)
  have "(4 - n mod 4) mod 4 = k" if "(n + k) mod 4 = 0" for n
  proof -
    consider "k = 0" | "k = 1" | "k = 2" using g(2) by linarith
    then show ?thesis
    proof cases
      case 2
      with that have "n mod 4 = 3" by presburger
      with 2 show ?thesis by simp
    next
      case 3
      with that have "n mod 4 = 2" by presburger
      with 3 show ?thesis by simp
    qed (use that in simp)
  qed
  from this [OF g(3)] have "(4 - length body mod 4) mod 4 = k" .
  moreover have "list_all is_ascii body" using g(4) by (simp add: list_all_iff)
  ultimately show ?thesis
    unfolding b64u_decode_def e by (simp only: if_True g(1) [symmetric] b64_scan_groups [OF assms] option.case)
qed

section \<open>A key read where it stands\<close>

text \<open>An item is read the same wherever its bytes stand.\<close>

fun cb_shift :: "nat \<Rightarrow> cb_error + 'a \<times> nat \<Rightarrow> cb_error + 'a \<times> nat" where
  "cb_shift k (Inl e) = Inl e"
| "cb_shift k (Inr (v, j)) = Inr (v, k + j)"

lemma cb_head_shift:
  "cb_head (pre @ data) (length pre + i) = (case cb_head data i of Inl e \<Rightarrow> Inl e | Inr (m, a, j) \<Rightarrow> Inr (m, a, length pre + j))"
proof (cases "length data \<le> i")
  case False
  have d: "drop (length pre + k) (pre @ data) = drop k data" for k by simp
  from d [of "Suc i"] have s: "drop (Suc (length pre + i)) (pre @ data) = drop (Suc i) data" by simp
  have n: "(pre @ data) ! Suc (length pre + i) = data ! Suc i" by (metis add_Suc_right nth_append_length_plus)
  have m: "data ! i mod 32 < 24 \<or> data ! i mod 32 = 24 \<or> data ! i mod 32 = 25 \<or> data ! i mod 32 = 26
    \<or> data ! i mod 32 = 27 \<or> 27 < data ! i mod 32" by linarith
  with False s n show ?thesis
    by (elim disjE) (simp_all add: cb_head_def Let_def not_le del: drop_append drop_drop)
qed (simp add: cb_head_def)

lemma cb_string_shift: "cb_string (pre @ data) m a (length pre + i) = cb_shift (length pre) (cb_string data m a i)"
  by (simp add: cb_string_def Let_def add.assoc split: option.splits)

lemma cb_simple_shift: "cb_simple a (k + i) = cb_shift k (cb_simple a i)"
  by (simp add: cb_simple_def)

lemma cb_item_shift:
  "cb_item (pre @ data) (length pre + i) d = cb_shift (length pre) (cb_item data i d)"
  "cb_items (pre @ data) (length pre + i) d n = cb_shift (length pre) (cb_items data i d n)"
  "cb_pairs (pre @ data) (length pre + i) d n out = cb_shift (length pre) (cb_pairs data i d n out)"
proof (induction data i d and data i d n and data i d n out rule: cb_item_cb_items_cb_pairs.induct)
  case (1 data i d)
  note e = cb_item.simps [of _ _ d]
  show ?case
  proof (cases "16 < d")
    case True
    then show ?thesis by (simp add: e)
  next
    case False
    show ?thesis
    proof (cases "cb_head data i")
      case (Inl err)
      with False show ?thesis by (simp add: e cb_head_shift)
    next
      case (Inr mj)
      then obtain m a j where h: "cb_head data i = Inr (m, a, j)" by (cases mj) auto
      note ih = 1 [OF False h refl refl]
      show ?thesis
      proof (cases "m = 0 \<or> m = 1 \<or> m = 2 \<or> m = 3")
        case True
        with False show ?thesis by (auto simp: e h cb_head_shift cb_string_shift)
      next
        case other: False
        with ih False show ?thesis
          by (auto simp: e h cb_head_shift cb_simple_shift split: sum.splits)
      qed
    qed
  qed
next
  case (3 data i d n)
  show ?case
  proof (cases "cb_item data i d")
    case (Inr xj)
    then obtain x j where x: "cb_item data i d = Inr (x, j)" by (cases xj) auto
    show ?thesis using 3(1) 3(2) [OF x refl] x by (auto split: sum.splits)
  qed (use 3 in auto)
next
  case (5 data i d n out)
  show ?case
  proof (cases "cb_item data i d")
    case (Inr xj)
    then obtain x j where x: "cb_item data i d = Inr (x, j)" by (cases xj) auto
    show ?thesis
    proof (cases "hashable x")
      case True
      show ?thesis
      proof (cases "cb_item data j d")
        case (Inr yk)
        then obtain y k where y: "cb_item data j d = Inr (y, k)" by (cases yk) auto
        show ?thesis using 5(1) 5(2) [OF x refl] 5(3) [OF x refl _ y refl] x y True by auto
      qed (use 5(1) 5(2) [OF x refl] x True in auto)
    qed (use 5(1) x in auto)
  qed (use 5 in auto)
qed auto

lemma decode_slice:
  assumes "decode_from data off = Inr (v, n)" "off \<le> length data"
  shows "decode (take n (drop off data)) = Inr v"
proof -
  obtain j where j: "cb_item data off 0 = Inr (v, j)" "n = j - off"
    using assms(1) by (auto simp: decode_from_def split: sum.splits)
  have len: "off < j" "j \<le> length data" using cb_frame(1) [OF j(1)] by auto
  have "cb_shift off (cb_item (drop off data) 0 0) = Inr (v, j)"
    using cb_item_shift(1) [of "take off data" "drop off data" 0 0] j(1) assms(2) by simp
  then have i: "cb_item (drop off data) 0 0 = Inr (v, n)"
    using j(2) by (cases "cb_item (drop off data) 0 0") auto
  have "take n (take n (drop off data)) = take n (drop off data)" by simp
  with cb_frame(1) [OF i] have "cb_item (take n (drop off data)) 0 0 = Inr (v, n)" by blast
  moreover have "length (take n (drop off data)) = n" using len j(2) by simp
  ultimately show ?thesis by (simp add: decode_def decode_from_def)
qed

lemma decode_from_bytes:
  assumes "decode_from data off = Inr (v, n)"
  shows "0 < n \<and> off + n \<le> length data"
proof -
  obtain j where j: "cb_item data off 0 = Inr (v, j)" "n = j - off"
    using assms by (auto simp: decode_from_def split: sum.splits)
  have "off < j \<and> j \<le> length data" using cb_frame(1) [OF j(1)] by blast
  with j(2) show ?thesis by simp
qed

section \<open>A key that is registered\<close>

lemma auth_data_key:
  assumes "parse_auth_data blob = Inr a" "ad_key a = Some key"
  shows "\<exists>kvs. key = Cb_map kvs \<and> decode (ad_raw a) = Inr key \<and> ad_raw a \<noteq> []
    \<and> (list_all (\<lambda>b. b < 256) blob \<longrightarrow> list_all (\<lambda>b. b < 256) (ad_raw a) \<and> list_all (\<lambda>b. b < 256) (ad_cred a))"
proof -
  let ?n = "be_value (take 2 (drop 53 blob))"
  obtain kvs n where k: "decode_from blob (55 + ?n) = Inr (key, n)" "key = Cb_map kvs"
    "ad_raw a = take n (drop (55 + ?n) blob)" "ad_cred a = take ?n (drop 55 blob)" "55 + ?n \<le> length blob"
    using assms by (auto simp: parse_auth_data_def Let_def split: if_splits sum.splits cbor_value.splits)
  from decode_from_bytes [OF k(1)] k(3,5) have "ad_raw a \<noteq> []" by auto
  moreover have "list_all (\<lambda>b. b < 256) (take m (drop i blob))" if "list_all (\<lambda>b. b < 256) blob" for m i
    by (rule all_bytes_cut [OF that])
  ultimately show ?thesis using decode_slice [OF k(1,5)] k by auto
qed

lemma build_key_usable: "build_key e x = Inr k \<Longrightarrow> wa_usable e k"
  by (auto simp: build_key_def split: if_splits)

lemma key_built: "public_key e key alg = Inr k \<Longrightarrow> wa_usable e k"
proof -
  assume "public_key e key alg = Inr k"
  then consider kvs where "p256_key e kvs = Inr k" | kvs where "ed25519_key e kvs = Inr k" | kvs where "rsa_key e kvs = Inr k"
    by (auto simp: public_key_def Let_def split: cbor_value.splits if_splits)
  then show ?thesis
  proof cases
    case 1
    then show ?thesis
      by (auto simp: p256_key_def split: if_splits option.splits cbor_value.splits dest: build_key_usable)
  next
    case 2
    then show ?thesis
      by (auto simp: ed25519_key_def split: if_splits option.splits cbor_value.splits dest: build_key_usable)
  next
    case 3
    then show ?thesis
      by (auto simp: rsa_key_def split: if_splits option.splits cbor_value.splits dest: build_key_usable)
  qed
qed

lemma attested_parts:
  assumes "attested_credential e a = Inr c"
  shows "ad_key a = Some (cr_key c) \<and> cr_raw c = ad_raw a \<and> cr_id c = ad_cred a \<and> cr_id c \<noteq> []
    \<and> cr_alg c \<in> set cose_supported \<and> (\<exists>k. public_key e (cr_key c) (cr_alg c) = Inr k) \<and> cr_count c = ad_count a"
  using assms by (auto simp: attested_credential_def Let_def split: option.splits cbor_value.splits if_splits sum.splits)

lemma registration_parts:
  assumes "verify_registration e att client challenge rp_id origin uv = Inr c"
  obtains a kvs blob attmap where "client_data e client ''webauthn.create'' challenge origin = Inr kvs"
    "decode att = Inr (Cb_map attmap)" "cb_get attmap (Cb_text (cps ''authData'')) = Some (Cb_bytes blob)"
    "parse_auth_data blob = Inr a" "check_auth_data rp_id uv a = None" "attested_credential e a = Inr c"
  using assms by (auto simp: verify_registration_def split: sum.splits option.splits cbor_value.splits)

text \<open>What both readings of the stored row find of it.\<close>

lemma usable_factor_find:
  "usable_factor st who = (case find (of_user who webauthn_method) (mf_factors st) of
     None \<Rightarrow> None
   | Some r \<Rightarrow> if \<not> fa_confirmed r \<or> fa_cred r = [] then None else Some (r\<lparr>fa_secret := []\<rparr>))"
  by (simp add: usable_factor_def factor_of_def split: option.split)

lemma b64u_nonempty: "b64u_encode bs \<noteq> [] \<Longrightarrow> bs \<noteq> []"
  by (auto simp: b64u_encode_def rstrip_char_def)

lemma register_cases:
  assumes "webauthn_register e who att client challenge rp_id origin label uv uid stamp st = (st', answer)"
    and "list_all (\<lambda>b. b < 256) att"
  shows "case answer of
      Granted cid \<Rightarrow>
        \<exists>c fac. verify_registration e att client challenge rp_id origin uv = Inr c
          \<and> usable_factor st' who = Some fac
          \<and> fa_cred fac = cid \<and> b64u_decode cid = cr_id c
          \<and> decode (b64u_decode (fa_pubkey fac)) = Inr (cr_key c)
          \<and> fa_alg fac = cr_alg c \<and> fa_alg fac \<in> {- 7, - 8, - 257} \<and> fa_count fac = int (cr_count c)
          \<and> (\<exists>k. public_key e (cr_key c) (fa_alg fac) = Inr k \<and> wa_usable e k)
          \<and> filter (\<lambda>r. \<not> of_user who webauthn_method r) (mf_factors st')
              = filter (\<lambda>r. \<not> of_user who webauthn_method r) (mf_factors st)
          \<and> mf_recovery st' = mf_recovery st
    | _ \<Rightarrow> st' = st"
proof (cases answer)
  case (Granted cid)
  then obtain c where c: "verify_registration e att client challenge rp_id origin uv = Inr c" "who \<noteq> []"
    and saved: "save_credential who (b64u_encode (cr_id c)) (b64u_encode (cr_raw c)) (cr_alg c) (int (cr_count c)) label uid stamp st
      = (st', True)" and cid: "cid = b64u_encode (cr_id c)"
    using assms(1) by (auto simp: webauthn_register_def split: if_splits sum.splits prod.splits elim!: wa_denied.elims)
  obtain a kvs blob attmap where r: "decode att = Inr (Cb_map attmap)"
    "cb_get attmap (Cb_text (cps ''authData'')) = Some (Cb_bytes blob)" "parse_auth_data blob = Inr a" "attested_credential e a = Inr c"
    using registration_parts [OF c(1)] by metis
  note at = attested_parts [OF r(4)]
  have "list_all (\<lambda>b. b < 256) blob"
  proof -
    obtain j where "cb_item att 0 0 = Inr (Cb_map attmap, j)"
      using r(1) by (auto simp: decode_def decode_from_def split: sum.splits if_splits)
    then have "cb_ok 0 (Cb_map attmap)" by (rule cb_typed(1)) (rule assms(2))
    moreover have "(k, Cb_bytes blob) \<in> set attmap \<Longrightarrow> cb_ok 0 (Cb_map attmap) \<Longrightarrow> list_all (\<lambda>b. b < 256) blob" for k
      by (fastforce simp: list_all_iff)
    moreover obtain k where "(k, Cb_bytes blob) \<in> set attmap"
      using r(2) by (auto simp: cb_get_def dest!: map_of_SomeD)
    ultimately show ?thesis by blast
  qed
  with auth_data_key [OF r(3)] at have key: "decode (cr_raw c) = Inr (cr_key c)" "list_all (\<lambda>b. b < 256) (cr_raw c)"
    "list_all (\<lambda>b. b < 256) (cr_id c)" by auto
  have lib: "\<exists>k. public_key e (cr_key c) (cr_alg c) = Inr k \<and> wa_usable e k"
    using at key_built by blast
  have alg: "cr_alg c \<in> {- 7, - 8, - 257}" using at by (auto simp: cose_supported_def es256_def eddsa_def rs256_def)
  have rows: "st' = replace_factor who webauthn_method ((new_factor uid who webauthn_method label stamp)\<lparr>fa_confirmed := True,
      fa_cred := cid, fa_pubkey := b64u_encode (cr_raw c), fa_alg := cr_alg c, fa_count := int (cr_count c)\<rparr>) st" (is "_ = replace_factor _ _ ?row st")
    "cid \<noteq> []"
    using saved cid by (auto simp: save_credential_def split: if_splits)
  have "find (of_user who webauthn_method) (filter (\<lambda>r. \<not> of_user who webauthn_method r) rs @ [?row]) = Some ?row" for rs
    by (induction rs) (auto simp: of_user_def new_factor_def)
  then have u: "usable_factor st' who = Some ?row"
    using rows by (simp add: usable_factor_find replace_factor_def new_factor_def)
  have "filter (\<lambda>r. \<not> of_user who webauthn_method r) (mf_factors st')
      = filter (\<lambda>r. \<not> of_user who webauthn_method r) (mf_factors st)" "mf_recovery st' = mf_recovery st"
    using rows by (auto simp: replace_factor_def of_user_def new_factor_def)
  moreover have "fa_cred ?row = cid" "fa_pubkey ?row = b64u_encode (cr_raw c)" "fa_alg ?row = cr_alg c"
    "fa_count ?row = int (cr_count c)" by simp_all
  moreover have "b64u_decode cid = cr_id c" "b64u_decode (b64u_encode (cr_raw c)) = cr_raw c"
    using key(2,3) cid by (simp_all add: b64u_round_trip)
  ultimately show ?thesis
    unfolding Granted wa_answer.case using c(1) u key(1) lib alg by metis
next
  case (Denied err d)
  with assms(1) show ?thesis
    by (auto simp: webauthn_register_def save_credential_def split: if_splits sum.splits prod.splits)
next
  case (Uncaught err)
  with assms(1) show ?thesis
    by (auto simp: webauthn_register_def save_credential_def split: if_splits sum.splits prod.splits)
qed

lemma stored_key:
  assumes "webauthn_register e who att client challenge rp_id origin label uv uid stamp st = (st', Granted cid)"
    "list_all (\<lambda>b. b < 256) att"
  shows "\<exists>c fac. verify_registration e att client challenge rp_id origin uv = Inr c \<and> usable_factor st' who = Some fac
    \<and> fa_cred fac = cid \<and> decode (b64u_decode (fa_pubkey fac)) = Inr (cr_key c) \<and> fa_alg fac = cr_alg c
    \<and> fa_count fac = int (cr_count c)"
  using register_cases [OF assms] by auto

section \<open>What an assertion proves\<close>

text \<open>The checks of the ceremony as the standard lists them, against the stored row.\<close>

definition assertion_holds :: "wa_env \<Rightarrow> factor \<Rightarrow> nat list \<Rightarrow> nat list \<Rightarrow> nat list \<Rightarrow> string \<Rightarrow> string \<Rightarrow> string \<Rightarrow> bool
    \<Rightarrow> auth_data \<Rightarrow> bool" where
  "assertion_holds e fac auth client signature challenge rp_id origin uv a \<longleftrightarrow>
     (\<exists>kvs k said. decode (b64u_decode (fa_pubkey fac)) = Inr (Cb_map kvs) \<and> public_key e (Cb_map kvs) (fa_alg fac) = Inr k
        \<and> Option.bind (utf8_decode client) (js_loads (wa_depth e)) = Some (JD_dict said)
        \<and> js_get e said ''type'' = cps ''webauthn.get''
        \<and> js_get e said ''challenge'' = cps challenge \<and> challenge \<noteq> []
        \<and> js_get e said ''origin'' = cps origin \<and> origin \<noteq> []
        \<and> parse_auth_data auth = Inr a
        \<and> ad_rp_hash a = sha256 (utf8_encode (cps rp_id))
        \<and> odd (ad_flags a) \<and> (uv \<longrightarrow> odd (ad_flags a div 4))
        \<and> wa_signed e k signature (auth @ sha256 client)
        \<and> (ad_count a = 0 \<or> fa_count fac = 0 \<or> fa_count fac < int (ad_count a)))"

lemma has_flag_odd: "has_flag n flag_up \<longleftrightarrow> odd n" "has_flag n flag_uv \<longleftrightarrow> odd (n div 4)"
  using and_exp_eq_0_iff_not_bit [of n 0] and_exp_eq_0_iff_not_bit [of n 2]
  by (simp_all add: has_flag_def flag_up_def flag_uv_def bit_iff_odd)

lemma utf8_encode_inj:
  assumes "list_all valid_cp s" "list_all valid_cp t" "utf8_encode s = utf8_encode t"
  shows "s = t"
  using utf8_decode_encode [OF assms(1)] utf8_decode_encode [OF assms(2)] assms(3) by (metis option.inject)

lemma valid_cps [simp]: "list_all valid_cp (cps s)"
proof -
  have "code c < 256" for c :: char
    by (metis mod_less_divisor of_char_mod_256 zero_less_numeral)
  then have "valid_cp (code c)" for c using less_trans [of "code c" 256 55296] by (simp add: valid_cp_def)
  then show ?thesis by (simp add: cps_def list_all_iff)
qed

lemma client_data_iff:
  "client_data e raw want challenge origin = Inr said \<longleftrightarrow>
     Option.bind (utf8_decode raw) (js_loads (wa_depth e)) = Some (JD_dict said)
       \<and> js_get e said ''type'' = cps want
       \<and> js_get e said ''challenge'' = cps challenge \<and> challenge \<noteq> []
       \<and> js_get e said ''origin'' = cps origin \<and> origin \<noteq> []"
proof -
  have enc: "(case encode_text t of None \<Rightarrow> Inl Raises_encoding
      | Some got \<Rightarrow> if got \<noteq> utf8_encode (cps s) then Inl w else rest) = Inr said \<longleftrightarrow> t = cps s \<and> rest = Inr said" for t s w rest
    using utf8_encode_inj [of t "cps s"] by (auto simp: encode_text_def)
  show ?thesis
  proof (cases "Option.bind (utf8_decode raw) (js_loads (wa_depth e))")
    case (Some d)
    then show ?thesis by (cases d) (auto simp: client_data_def enc)
  qed (simp add: client_data_def)
qed

lemma counter_row:
  "usable_factor st who = Some fac \<Longrightarrow> fa_cred fac \<noteq> [] \<and> fa_confirmed fac \<and> (\<exists>r. find (of_user who webauthn_method) (mf_factors st) = Some r
     \<and> fac = r\<lparr>fa_secret := []\<rparr>)"
  by (auto simp: usable_factor_find split: option.splits if_splits)

lemma find_map_same: "(\<And>r. P (g r) = P r) \<Longrightarrow> find P (map g rs) = map_option g (find P rs)"
  by (induction rs) auto

lemma usable_after_count:
  assumes "usable_factor st who = Some fac"
  shows "usable_factor (fst (note_sign_count who n stamp st)) who
    = Some (if fa_count fac < n then fac\<lparr>fa_count := n, fa_updated := stamp\<rparr> else fac)"
proof -
  let ?g = "\<lambda>r. if of_user who webauthn_method r \<and> fa_count r < n then r\<lparr>fa_count := n, fa_updated := stamp\<rparr> else r"
  obtain r where r: "find (of_user who webauthn_method) (mf_factors st) = Some r" "fac = r\<lparr>fa_secret := []\<rparr>"
    "fa_confirmed r" "fa_cred r \<noteq> []"
    using assms by (auto simp: usable_factor_find split: option.splits if_splits)
  have "find (of_user who webauthn_method) (map ?g (mf_factors st)) = Some (?g r)"
    using find_map_same [of "of_user who webauthn_method" ?g] r(1) by (simp add: of_user_def)
  moreover have "of_user who webauthn_method r" using r(1) by (auto simp: find_Some_iff)
  ultimately show ?thesis
    using r by (simp add: usable_factor_find note_sign_count_def update_factors_def)
qed

lemma granted_iff:
  "webauthn_verify e who auth client signature cred challenge rp_id origin uv stamp st = (st', Granted v) \<longleftrightarrow>
     (\<exists>fac a. usable_factor st who = Some fac \<and> cred = fa_cred fac
        \<and> assertion_holds e fac auth client signature challenge rp_id origin uv a
        \<and> v = odd (ad_flags a div 4)
        \<and> st' = (if ad_count a = 0 then st else fst (note_sign_count who (int (ad_count a)) stamp st)))"
proof -
  have v: "verify_assertion e auth client signature challenge rp_id origin (Cb_map kvs) (fa_alg fac) (fa_count fac) uv = Inr (n, w) \<longleftrightarrow>
     (\<exists>a said k. client_data e client ''webauthn.get'' challenge origin = Inr said \<and> parse_auth_data auth = Inr a
        \<and> ad_rp_hash a = sha256 (utf8_encode (cps rp_id)) \<and> odd (ad_flags a) \<and> (uv \<longrightarrow> odd (ad_flags a div 4))
        \<and> public_key e (Cb_map kvs) (fa_alg fac) = Inr k \<and> wa_signed e k signature (auth @ sha256 client)
        \<and> (ad_count a = 0 \<or> fa_count fac = 0 \<or> fa_count fac < int (ad_count a))
        \<and> n = ad_count a \<and> w = odd (ad_flags a div 4))" for kvs fac n w
    by (auto simp: verify_assertion_def check_auth_data_def has_flag_odd cose_verify_def signed_message_def
        split: sum.splits if_splits)
  show ?thesis (is "?l \<longleftrightarrow> ?r")
  proof
    assume ?l
    then obtain fac kvs n where f: "usable_factor st who = Some fac" "cred = fa_cred fac"
      "decode (b64u_decode (fa_pubkey fac)) = Inr (Cb_map kvs)"
      "verify_assertion e auth client signature challenge rp_id origin (Cb_map kvs) (fa_alg fac) (fa_count fac) uv = Inr (n, v)"
      "st' = (if n \<noteq> 0 then fst (note_sign_count who (int n) stamp st) else st)"
      by (auto simp: webauthn_verify_def split: option.splits if_splits sum.splits cbor_value.splits elim!: wa_denied.elims)
    then obtain a said k where a: "client_data e client ''webauthn.get'' challenge origin = Inr said" "parse_auth_data auth = Inr a"
      "ad_rp_hash a = sha256 (utf8_encode (cps rp_id))" "odd (ad_flags a)" "uv \<longrightarrow> odd (ad_flags a div 4)"
      "public_key e (Cb_map kvs) (fa_alg fac) = Inr k" "wa_signed e k signature (auth @ sha256 client)"
      "ad_count a = 0 \<or> fa_count fac = 0 \<or> fa_count fac < int (ad_count a)" "n = ad_count a" "v = odd (ad_flags a div 4)"
      unfolding v by blast
    then have "assertion_holds e fac auth client signature challenge rp_id origin uv a"
      using f(3) unfolding assertion_holds_def client_data_iff by blast
    with f a show ?r by (intro exI [of _ fac] exI [of _ a]) simp
  next
    assume ?r
    then obtain fac a where f: "usable_factor st who = Some fac" "cred = fa_cred fac"
      "assertion_holds e fac auth client signature challenge rp_id origin uv a" "v = odd (ad_flags a div 4)"
      "st' = (if ad_count a = 0 then st else fst (note_sign_count who (int (ad_count a)) stamp st))"
      by blast
    then obtain kvs where k: "decode (b64u_decode (fa_pubkey fac)) = Inr (Cb_map kvs)"
      "verify_assertion e auth client signature challenge rp_id origin (Cb_map kvs) (fa_alg fac) (fa_count fac) uv = Inr (ad_count a, v)"
      unfolding v assertion_holds_def client_data_iff by blast
    with f show ?l by (simp add: webauthn_verify_def)
  qed
qed

text \<open>C23.
  An assertion is accepted exactly when the credential is the account's, its stored key is readable and signs the
  authenticator data followed by the digest of the client data, the client data names this ceremony, this
  challenge and this origin, the authenticator names this site and saw somebody (and verified them where that
  is required), and the counter, if both sides keep one, moved forward. Then and only then the stored counter
  is raised, never lowered.\<close>

theorem assertion_exact:
  "webauthn_verify e who auth client signature cred challenge rp_id origin uv stamp st = (st', Granted v) \<longleftrightarrow>
     (\<exists>fac a. usable_factor st who = Some fac \<and> cred = fa_cred fac
        \<and> assertion_holds e fac auth client signature challenge rp_id origin uv a
        \<and> v = odd (ad_flags a div 4)
        \<and> st' = (if ad_count a = 0 then st else fst (note_sign_count who (int (ad_count a)) stamp st))
        \<and> usable_factor st' who = Some (if ad_count a = 0 \<or> int (ad_count a) \<le> fa_count fac then fac
            else fac\<lparr>fa_count := int (ad_count a), fa_updated := stamp\<rparr>))"
  unfolding granted_iff by (intro iff_exI conj_cong refl) (auto simp: usable_after_count)

section \<open>What escapes\<close>

definition surrogate_challenge :: "wa_env \<Rightarrow> nat list \<Rightarrow> string \<Rightarrow> string \<Rightarrow> bool" where
  "surrogate_challenge e client want challenge \<longleftrightarrow>
     (\<exists>said. Option.bind (utf8_decode client) (js_loads (wa_depth e)) = Some (JD_dict said)
        \<and> js_get e said ''type'' = cps want \<and> challenge \<noteq> []
        \<and> \<not> list_all valid_cp (js_get e said ''challenge''))"

lemma client_data_raises:
  "client_data e raw want challenge origin = Inl err \<Longrightarrow> err = Raises_encoding \<or> (\<exists>c. err = Ceremony c)"
  "client_data e raw want challenge origin = Inl Raises_encoding \<longleftrightarrow> surrogate_challenge e raw want challenge"
  "client_data e raw want challenge origin \<noteq> Inl (Raises_cose ce)"
  by (auto simp: client_data_def surrogate_challenge_def encode_text_def split: option.splits jdoc.splits if_splits)

lemma wa_denied_Uncaught [simp]:
  "wa_denied w = Uncaught err \<longleftrightarrow> w = err \<and> (\<forall>c. err \<noteq> Ceremony c)"
  by (cases w) auto

lemma wa_denied_Granted [simp]: "wa_denied w \<noteq> Granted v" "Granted v \<noteq> wa_denied w"
  by (cases w; simp)+

lemma assertion_raises:
  "verify_assertion e auth client signature challenge rp_id origin key alg n uv = Inl err \<Longrightarrow> \<forall>c. err \<noteq> Ceremony c \<Longrightarrow>
     err = Raises_encoding \<and> surrogate_challenge e client ''webauthn.get'' challenge"
  "surrogate_challenge e client ''webauthn.get'' challenge \<Longrightarrow>
     verify_assertion e auth client signature challenge rp_id origin key alg n uv = Inl Raises_encoding"
proof -
  show "err = Raises_encoding \<and> surrogate_challenge e client ''webauthn.get'' challenge"
    if "verify_assertion e auth client signature challenge rp_id origin key alg n uv = Inl err" and w: "\<forall>c. err \<noteq> Ceremony c"
  proof -
    have c: "client_data e client ''webauthn.get'' challenge origin = Inl err"
      using that by (auto simp: verify_assertion_def split: sum.splits option.splits if_splits)
    with client_data_raises(1) [OF c] w client_data_raises(2) show ?thesis by blast
  qed
  show "verify_assertion e auth client signature challenge rp_id origin key alg n uv = Inl Raises_encoding"
    if "surrogate_challenge e client ''webauthn.get'' challenge"
  proof -
    have "client_data e client ''webauthn.get'' challenge origin = Inl Raises_encoding"
      using that client_data_raises(2) by blast
    then show ?thesis by (simp add: verify_assertion_def)
  qed
qed

lemma registration_raises:
  "verify_registration e att client challenge rp_id origin uv = Inl err \<and> (\<forall>c. err \<noteq> Ceremony c) \<longleftrightarrow>
     err = Raises_encoding \<and> surrogate_challenge e client ''webauthn.create'' challenge
     \<or> (\<exists>said attmap blob a kvs ce. client_data e client ''webauthn.create'' challenge origin = Inr said
          \<and> decode att = Inr (Cb_map attmap) \<and> cb_get attmap (Cb_text (cps ''authData'')) = Some (Cb_bytes blob)
          \<and> parse_auth_data blob = Inr a \<and> check_auth_data rp_id uv a = None
          \<and> ad_key a = Some (Cb_map kvs) \<and> ad_cred a \<noteq> [] \<and> algorithm_of e kvs \<in> set cose_supported
          \<and> public_key e (Cb_map kvs) (algorithm_of e kvs) = Inl ce \<and> err = Raises_cose ce)" (is "?l \<longleftrightarrow> ?e \<or> ?c")
proof
  assume l: ?l
  show "?e \<or> ?c"
  proof (cases "client_data e client ''webauthn.create'' challenge origin")
    case (Inl w)
    with l have "err = w" by (simp add: verify_registration_def)
    with l Inl client_data_raises(1) [OF Inl] client_data_raises(2) show ?thesis by blast
  next
    case (Inr said)
    obtain attmap where a: "decode att = Inr (Cb_map attmap)"
      using l Inr by (auto simp: verify_registration_def split: sum.splits cbor_value.splits)
    obtain blob where b: "cb_get attmap (Cb_text (cps ''authData'')) = Some (Cb_bytes blob)"
      using l Inr a by (auto simp: verify_registration_def split: option.splits cbor_value.splits)
    obtain ad where d: "parse_auth_data blob = Inr ad" "check_auth_data rp_id uv ad = None" "attested_credential e ad = Inl err"
      using l Inr a b by (auto simp: verify_registration_def split: sum.splits option.splits)
    obtain kvs ce where "ad_key ad = Some (Cb_map kvs)" "ad_cred ad \<noteq> []" "algorithm_of e kvs \<in> set cose_supported"
      "public_key e (Cb_map kvs) (algorithm_of e kvs) = Inl ce" "err = Raises_cose ce"
      using d(3) l by (auto simp: attested_credential_def Let_def split: option.splits cbor_value.splits if_splits sum.splits)
    with Inr a b d show ?thesis by blast
  qed
next
  assume "?e \<or> ?c"
  then show ?l
  proof
    assume ?e
    moreover have "client_data e client ''webauthn.create'' challenge origin = Inl Raises_encoding"
      using \<open>?e\<close> client_data_raises(2) by blast
    ultimately show ?l by (simp add: verify_registration_def)
  next
    assume ?c
    then obtain said attmap blob a kvs ce where c: "client_data e client ''webauthn.create'' challenge origin = Inr said"
      "decode att = Inr (Cb_map attmap)" "cb_get attmap (Cb_text (cps ''authData'')) = Some (Cb_bytes blob)"
      "parse_auth_data blob = Inr a" "check_auth_data rp_id uv a = None" "ad_key a = Some (Cb_map kvs)" "ad_cred a \<noteq> []"
      "algorithm_of e kvs \<in> set cose_supported" "public_key e (Cb_map kvs) (algorithm_of e kvs) = Inl ce" "err = Raises_cose ce"
      by blast
    then show ?l by (simp add: verify_registration_def attested_credential_def)
  qed
qed

text \<open>C25.
  Which inputs make the two operations raise instead of answering, against their promise never to: a
  challenge with a lone surrogate in otherwise readable client data of the right kind, and, at registration, a
  key with a supported algorithm that cannot be built. Nothing else escapes.\<close>

theorem ceremony_escapes:
  "(snd (webauthn_verify e who auth client signature cred challenge rp_id origin uv stamp st) = Uncaught err \<longleftrightarrow>
      err = Raises_encoding \<and> surrogate_challenge e client ''webauthn.get'' challenge
      \<and> (\<exists>fac kvs. usable_factor st who = Some fac \<and> cred = fa_cred fac \<and> decode (b64u_decode (fa_pubkey fac)) = Inr (Cb_map kvs)))
   \<and> (snd (webauthn_register e who att client challenge rp_id origin label uv uid stamp st) = Uncaught err \<longleftrightarrow>
      who \<noteq> [] \<and> (err = Raises_encoding \<and> surrogate_challenge e client ''webauthn.create'' challenge
        \<or> (\<exists>said attmap blob a kvs ce. client_data e client ''webauthn.create'' challenge origin = Inr said
             \<and> decode att = Inr (Cb_map attmap) \<and> cb_get attmap (Cb_text (cps ''authData'')) = Some (Cb_bytes blob)
             \<and> parse_auth_data blob = Inr a \<and> check_auth_data rp_id uv a = None
             \<and> ad_key a = Some (Cb_map kvs) \<and> ad_cred a \<noteq> [] \<and> algorithm_of e kvs \<in> set cose_supported
             \<and> public_key e (Cb_map kvs) (algorithm_of e kvs) = Inl ce \<and> err = Raises_cose ce)))"
proof
  let ?v = "webauthn_verify e who auth client signature cred challenge rp_id origin uv stamp st"
  show "snd ?v = Uncaught err \<longleftrightarrow>
      err = Raises_encoding \<and> surrogate_challenge e client ''webauthn.get'' challenge
      \<and> (\<exists>fac kvs. usable_factor st who = Some fac \<and> cred = fa_cred fac \<and> decode (b64u_decode (fa_pubkey fac)) = Inr (Cb_map kvs))"
    by (auto simp: webauthn_verify_def assertion_raises(2) split: option.splits sum.splits cbor_value.splits if_splits
        dest: assertion_raises(1))
  have "snd (webauthn_register e who att client challenge rp_id origin label uv uid stamp st) = Uncaught err \<longleftrightarrow>
      who \<noteq> [] \<and> verify_registration e att client challenge rp_id origin uv = Inl err \<and> (\<forall>c. err \<noteq> Ceremony c)"
    by (auto simp: webauthn_register_def split: sum.splits prod.splits if_splits)
  then show "snd (webauthn_register e who att client challenge rp_id origin label uv uid stamp st) = Uncaught err \<longleftrightarrow>
      who \<noteq> [] \<and> (err = Raises_encoding \<and> surrogate_challenge e client ''webauthn.create'' challenge
        \<or> (\<exists>said attmap blob a kvs ce. client_data e client ''webauthn.create'' challenge origin = Inr said
             \<and> decode att = Inr (Cb_map attmap) \<and> cb_get attmap (Cb_text (cps ''authData'')) = Some (Cb_bytes blob)
             \<and> parse_auth_data blob = Inr a \<and> check_auth_data rp_id uv a = None
             \<and> ad_key a = Some (Cb_map kvs) \<and> ad_cred a \<noteq> [] \<and> algorithm_of e kvs \<in> set cose_supported
             \<and> public_key e (Cb_map kvs) (algorithm_of e kvs) = Inl ce \<and> err = Raises_cose ce))"
    unfolding registration_raises [symmetric] by simp
qed

section \<open>An honest key\<close>

text \<open>The client data a browser composes, and the authenticator data of a key with nothing to attest.\<close>

definition plain :: "char \<Rightarrow> bool" where
  "plain c = (32 \<le> code c \<and> code c < 127 \<and> code c \<noteq> 34 \<and> code c \<noteq> 92)"

definition quoted :: "string \<Rightarrow> nat list" where
  "quoted s = 34 # cps s @ [34]"

definition client_json :: "string \<Rightarrow> string \<Rightarrow> string \<Rightarrow> nat list" where
  "client_json want challenge origin =
     123 # quoted ''type'' @ 58 # quoted want @ 44 # quoted ''challenge'' @ 58 # quoted challenge
       @ 44 # quoted ''origin'' @ 58 # quoted origin @ [125]"

definition bare_auth_data :: "string \<Rightarrow> nat \<Rightarrow> nat \<Rightarrow> nat list" where
  "bare_auth_data rp_id flags count = sha256 (utf8_encode (cps rp_id)) @ flags # be_bytes 4 count"

lemma js_string_plain: "list_all plain s \<Longrightarrow> js_string (cps s @ 34 # r) = Some (cps s, r)"
proof (induction s)
  case (Cons c s)
  then show ?case by (subst js_string.simps) (auto simp: plain_def js_unit_def)
qed (simp add: js_string.simps)

lemma js_skip_quoted [simp]: "js_skip (quoted s @ r) = quoted s @ r"
  by (simp add: js_skip_def quoted_def js_space_def)

lemma js_skip_mark [simp]: "c = 44 \<or> c = 58 \<or> c = 125 \<or> c = 123 \<Longrightarrow> js_skip (c # r) = c # r"
  by (auto simp: js_skip_def js_space_def)

lemma js_value_quoted: "list_all plain s \<Longrightarrow> js_value d (quoted s @ r) = Some (JD_text (cps s), r)"
  by (simp add: js_value.simps quoted_def js_string_plain)

lemma js_key_quoted: "list_all plain k \<Longrightarrow> js_key (quoted k @ 58 # r) = Some (cps k, js_skip r)"
  by (simp add: js_key_def js_expect_def quoted_def js_string_plain)

lemma js_member:
  assumes "list_all plain k" "list_all plain v"
  shows "js_members d (Suc n) acc (quoted k @ 58 # quoted v @ 44 # quoted k' @ r)
      = js_members d n (AList.update (cps k) (JD_text (cps v)) acc) (quoted k' @ r)"
    "js_members d (Suc n) acc (quoted k @ 58 # quoted v @ 125 # r)
      = Some (AList.update (cps k) (JD_text (cps v)) acc, r)"
  using assms by (simp_all add: js_key_quoted js_value_quoted js_expect_def)

lemma plain_words: "list_all plain ''type''" "list_all plain ''challenge''" "list_all plain ''origin''"
  by (simp_all add: plain_def)

lemma js_loads_client:
  assumes "list_all plain want" "list_all plain challenge" "list_all plain origin" "0 < depth"
  shows "js_loads depth (client_json want challenge origin) = Some (JD_dict
    [(cps ''type'', JD_text (cps want)), (cps ''challenge'', JD_text (cps challenge)), (cps ''origin'', JD_text (cps origin))])"
proof -
  let ?r = "quoted ''type'' @ 58 # quoted want @ 44 # quoted ''challenge'' @ 58 # quoted challenge
       @ 44 # quoted ''origin'' @ 58 # quoted origin @ [125]"
  obtain n where n: "length ?r = Suc (Suc (Suc n))" by (simp add: quoted_def)
  have "js_members (depth - 1) (length ?r) [] ?r = Some
    ([(cps ''type'', JD_text (cps want)), (cps ''challenge'', JD_text (cps challenge)), (cps ''origin'', JD_text (cps origin))], [])"
    unfolding n js_member [OF plain_words(1) assms(1)] js_member [OF plain_words(2) assms(2)]
      js_member [OF plain_words(3) assms(3)] by simp
  moreover have "js_expect 125 (js_skip ?r) = None" by (simp add: js_expect_def) (simp add: quoted_def)
  ultimately show ?thesis
    using assms(4) by (simp add: js_loads_def client_json_def js_value.simps js_skip_def [of "[]"])
qed

lemma utf8_plain: "list_all plain s \<Longrightarrow> utf8_encode (cps s) = cps s"
  by (induction s) (auto simp: utf8_encode_def utf8_char_def plain_def)

lemma client_json_utf8:
  assumes "list_all plain want" "list_all plain challenge" "list_all plain origin"
  shows "utf8_decode (client_json want challenge origin) = Some (client_json want challenge origin)"
proof -
  have e: "utf8_encode (c # s) = utf8_char c @ utf8_encode s" "utf8_encode (s @ t) = utf8_encode s @ utf8_encode t"
    "utf8_encode [] = []" for c s t
    by (simp_all add: utf8_encode_def)
  have q: "utf8_encode (quoted s) = quoted s \<and> list_all valid_cp (quoted s)" if "list_all plain s" for s
    using utf8_plain [OF that] by (simp add: quoted_def e utf8_char_def valid_cp_def)
  have "utf8_encode (client_json want challenge origin) = client_json want challenge origin \<and> list_all valid_cp (client_json want challenge origin)"
    using q [OF assms(1)] q [OF assms(2)] q [OF assms(3)] q [OF plain_words(1)] q [OF plain_words(2)] q [OF plain_words(3)]
    by (simp add: client_json_def e utf8_char_def valid_cp_def)
  then show ?thesis using utf8_decode_encode by metis
qed

lemma parse_bare:
  assumes "flags < 64" "count < 2 ^ 32"
  shows "parse_auth_data (bare_auth_data rp_id flags count) = Inr \<lparr>ad_rp_hash = sha256 (utf8_encode (cps rp_id)),
    ad_flags = flags, ad_count = count, ad_cred = [], ad_key = None, ad_raw = [], ad_aaguid = []\<rparr>"
proof -
  have "\<not> has_flag flags flag_at"
    using assms(1) and_exp_eq_0_iff_not_bit [of flags 6] by (simp add: has_flag_def flag_at_def bit_iff_odd)
  moreover have "count < 256 ^ 4" using assms(2) by simp
  ultimately show ?thesis
    using be_value_bytes [of count 4]
    by (simp add: parse_auth_data_def bare_auth_data_def Let_def length_sha256 nth_append del: be_bytes.simps)
qed

text \<open>What a key answers to a registration.\<close>

definition attested_auth_data :: "string \<Rightarrow> nat \<Rightarrow> nat \<Rightarrow> nat list \<Rightarrow> nat list \<Rightarrow> cbor_value \<Rightarrow> nat list" where
  "attested_auth_data rp_id flags count aaguid cred key =
     bare_auth_data rp_id flags count @ aaguid @ be_bytes 2 (length cred) @ cred @ cb_enc key"

lemma length_bare [simp]: "length (bare_auth_data rp_id flags count) = 37"
  by (simp add: bare_auth_data_def length_sha256)

lemma bare_parts:
  "take 32 (bare_auth_data rp_id flags count @ r) = sha256 (utf8_encode (cps rp_id))"
  "(bare_auth_data rp_id flags count @ r) ! 32 = flags"
  "take 4 (drop 33 (bare_auth_data rp_id flags count @ r)) = be_bytes 4 count"
  by (simp_all add: bare_auth_data_def length_sha256 nth_append del: be_bytes.simps)

lemma parse_attested:
  assumes "flags < 256" "odd (flags div 64)" "count < 2 ^ 32" "length aaguid = 16" "length cred \<le> 1023" "cb_ok 0 (Cb_map kvs)"
  shows "parse_auth_data (attested_auth_data rp_id flags count aaguid cred (Cb_map kvs)) = Inr \<lparr>ad_rp_hash = sha256 (utf8_encode (cps rp_id)),
    ad_flags = flags, ad_count = count, ad_cred = cred, ad_key = Some (Cb_map kvs), ad_raw = cb_enc (Cb_map kvs), ad_aaguid = aaguid\<rparr>"
proof -
  let ?pre = "bare_auth_data rp_id flags count @ aaguid @ be_bytes 2 (length cred) @ cred"
  let ?b = "attested_auth_data rp_id flags count aaguid cred (Cb_map kvs)"
  have b: "?b = bare_auth_data rp_id flags count @ aaguid @ be_bytes 2 (length cred) @ cred @ cb_enc (Cb_map kvs)"
    by (simp add: attested_auth_data_def del: be_bytes.simps cb_enc.simps)
  have at: "has_flag flags flag_at"
    using assms(2) and_exp_eq_0_iff_not_bit [of flags 6] by (simp add: has_flag_def flag_at_def bit_iff_odd)
  have d37: "drop 37 ?b = aaguid @ be_bytes 2 (length cred) @ cred @ cb_enc (Cb_map kvs)"
    by (simp add: b del: be_bytes.simps cb_enc.simps)
  then have d53: "drop 53 ?b = be_bytes 2 (length cred) @ cred @ cb_enc (Cb_map kvs)"
    using assms(4) drop_drop [of 16 37 ?b] by (simp del: drop_drop be_bytes.simps cb_enc.simps)
  then have d55: "drop 55 ?b = cred @ cb_enc (Cb_map kvs)"
    using drop_drop [of 2 53 ?b] by (simp del: drop_drop be_bytes.simps cb_enc.simps)
  then have dk: "drop (55 + length cred) ?b = cb_enc (Cb_map kvs)"
    using drop_drop [of "length cred" 55 ?b] by (simp add: add.commute del: drop_drop cb_enc.simps)
  have "cb_item ?b (55 + length cred) 0 = Inr (Cb_map kvs, 55 + length cred + length (cb_enc (Cb_map kvs)))"
    by (rule reads_backD [OF reads_back assms(6), of _ ?pre "[]"]) (simp_all add: b assms(4) del: be_bytes.simps cb_enc.simps)
  then have key: "decode_from ?b (55 + length cred) = Inr (Cb_map kvs, length (cb_enc (Cb_map kvs)))"
    by (simp add: decode_from_def)
  have len: "length ?b = 55 + length cred + length (cb_enc (Cb_map kvs))"
    by (simp add: b assms(4) del: cb_enc.simps)
  have cnt: "be_value (be_bytes 4 count) = count" "be_value (be_bytes 2 (length cred)) = length cred"
    using be_value_bytes [of count 4] be_value_bytes [of "length cred" 2] assms(3,5) by simp_all
  have head: "take 32 ?b = sha256 (utf8_encode (cps rp_id))" "?b ! 32 = flags" "take 4 (drop 33 ?b) = be_bytes 4 count"
    unfolding b by (rule bare_parts)+
  show ?thesis
    using assms(4,5) at
    by (simp add: parse_auth_data_def Let_def head len cnt d37 d53 d55 dk key del: be_bytes.simps cb_enc.simps)
qed

lemma enc_head_bytes: "major < 8 \<Longrightarrow> list_all (\<lambda>b. b < 256) (enc_head major n)"
  using be_bytes_range by (auto simp: enc_head_def simp del: be_bytes.simps)

lemma utf8_char_bytes: "valid_cp c \<Longrightarrow> list_all (\<lambda>b. b < 256) (utf8_char c)"
proof -
  assume "valid_cp c"
  then have "c < 1114112" by (auto simp: valid_cp_def)
  then have "c < 2048 \<Longrightarrow> c div 64 < 32" "c < 65536 \<Longrightarrow> c div 4096 < 16" "c div 262144 < 5"
    by (simp_all add: less_mult_imp_div_less)
  moreover have "x mod 64 < 128" for x :: nat using mod_less_divisor [of 64 x] by linarith
  ultimately show ?thesis by (auto simp: utf8_char_def)
qed

lemma utf8_encode_bytes: "list_all valid_cp cs \<Longrightarrow> list_all (\<lambda>b. b < 256) (utf8_encode cs)"
  by (induction cs) (auto simp: utf8_encode_def utf8_char_bytes)

lemma cb_enc_bytes: "cb_ok d v \<Longrightarrow> list_all (\<lambda>b. b < 256) (cb_enc v)"
proof (induction v arbitrary: d)
  case (Cb_text cs)
  then show ?case by (simp add: enc_head_bytes utf8_encode_bytes)
next
  case (Cb_array xs)
  have "list_all (\<lambda>b. b < 256) (cb_enc x)" if "x \<in> set xs" for x
    using Cb_array that by (auto simp: list_all_iff)
  then show ?case by (simp add: enc_head_bytes) (auto simp: list_all_iff)
next
  case (Cb_map kvs)
  have "list_all (\<lambda>b. b < 256) (cb_enc k) \<and> list_all (\<lambda>b. b < 256) (cb_enc v)" if "(k, v) \<in> set kvs" for k v
    using Cb_map.IH [OF that] Cb_map.prems that by (fastforce simp: list_all_iff)
  then show ?case by (simp add: enc_head_bytes) (fastforce simp: list_all_iff)
qed (auto simp: enc_head_bytes)

lemma honest_registration:
  assumes parts: "flags < 256" "odd flags" "odd (flags div 64)" "uv \<longrightarrow> odd (flags div 4)" "count < 2 ^ 32" "length aaguid = 16"
      "cred \<noteq> []" "length cred \<le> 1023"
    and key: "cb_ok 0 (Cb_map kvs)" "algorithm_of e kvs \<in> set cose_supported" "public_key e (Cb_map kvs) (algorithm_of e kvs) = Inr k"
    and att: "cb_ok 0 (Cb_map attmap)"
      "cb_get attmap (Cb_text (cps ''authData'')) = Some (Cb_bytes (attested_auth_data rp_id flags count aaguid cred (Cb_map kvs)))"
    and shape: "list_all plain challenge" "challenge \<noteq> []" "list_all plain origin" "origin \<noteq> []" "0 < wa_depth e"
  shows "verify_registration e (cb_enc (Cb_map attmap)) (client_json ''webauthn.create'' challenge origin) challenge rp_id origin uv
    = Inr \<lparr>cr_id = cred, cr_key = Cb_map kvs, cr_raw = cb_enc (Cb_map kvs), cr_alg = algorithm_of e kvs, cr_count = count,
        cr_aaguid = aaguid, cr_uv = odd (flags div 4)\<rparr>"
proof -
  have w: "list_all plain ''webauthn.create''" by (simp add: plain_def)
  obtain said where "client_data e (client_json ''webauthn.create'' challenge origin) ''webauthn.create'' challenge origin = Inr said"
    using shape js_loads_client [OF w shape(1,3,5)] client_json_utf8 [OF w shape(1,3)]
    by (simp add: client_data_iff js_get_def del: cps_simps)
  moreover have "decode (cb_enc (Cb_map attmap)) = Inr (Cb_map attmap)"
    using reads_backD [OF reads_back att(1), of _ "[]" "[]" 0] by (simp add: decode_def decode_from_def del: cb_enc.simps)
  ultimately show ?thesis
    using parts key att(2)
    by (simp add: verify_registration_def parse_attested check_auth_data_def has_flag_odd attested_credential_def del: cb_enc.simps cps_simps)
qed

lemma honest_assertion:
  assumes fac: "usable_factor st who = Some fac" "decode (b64u_decode (fa_pubkey fac)) = Inr (Cb_map kvs)"
      "public_key e (Cb_map kvs) (fa_alg fac) = Inr k"
    and signed: "wa_signed e k signature (bare_auth_data rp_id flags count @ sha256 (client_json ''webauthn.get'' challenge origin))"
    and shape: "list_all plain challenge" "challenge \<noteq> []" "list_all plain origin" "origin \<noteq> []" "0 < wa_depth e"
    and key: "flags < 64" "odd flags" "uv \<longrightarrow> odd (flags div 4)" "count < 2 ^ 32" "count = 0 \<or> fa_count fac < int count"
  shows "\<exists>st'. webauthn_verify e who (bare_auth_data rp_id flags count) (client_json ''webauthn.get'' challenge origin) signature
        (fa_cred fac) challenge rp_id origin uv stamp st = (st', Granted (odd (flags div 4)))
      \<and> usable_factor st' who = Some (if count = 0 then fac else fac\<lparr>fa_count := int count, fa_updated := stamp\<rparr>)"
proof -
  let ?a = "\<lparr>ad_rp_hash = sha256 (utf8_encode (cps rp_id)), ad_flags = flags, ad_count = count, ad_cred = [], ad_key = None,
    ad_raw = [], ad_aaguid = []\<rparr>"
  have "list_all plain ''webauthn.get''" by (simp add: plain_def)
  then have said: "Option.bind (utf8_decode (client_json ''webauthn.get'' challenge origin)) (js_loads (wa_depth e))
      = Some (JD_dict [(cps ''type'', JD_text (cps ''webauthn.get'')), (cps ''challenge'', JD_text (cps challenge)),
          (cps ''origin'', JD_text (cps origin))])" (is "_ = Some (JD_dict ?said)")
    using shape by (simp add: client_json_utf8 js_loads_client del: cps_simps)
  have get: "js_get e ?said ''type'' = cps ''webauthn.get''" "js_get e ?said ''challenge'' = cps challenge"
    "js_get e ?said ''origin'' = cps origin" by (simp_all add: js_get_def)
  have "count = 0 \<or> fa_count fac = 0 \<or> fa_count fac < int count" using key(5) by blast
  then have "assertion_holds e fac (bare_auth_data rp_id flags count) (client_json ''webauthn.get'' challenge origin) signature
      challenge rp_id origin uv ?a"
    unfolding assertion_holds_def using fac(2,3) said get shape(2,4) parse_bare [OF key(1,4)] key(2,3) signed
    by (intro exI [of _ kvs] exI [of _ k] exI [of _ ?said]) simp
  with fac(1) have "webauthn_verify e who (bare_auth_data rp_id flags count) (client_json ''webauthn.get'' challenge origin) signature
        (fa_cred fac) challenge rp_id origin uv stamp st
      = (if count = 0 then st else fst (note_sign_count who (int count) stamp st), Granted (odd (flags div 4)))"
    unfolding granted_iff by (intro exI [of _ fac] exI [of _ ?a]) simp
  moreover have "usable_factor (if count = 0 then st else fst (note_sign_count who (int count) stamp st)) who
      = Some (if count = 0 then fac else fac\<lparr>fa_count := int count, fa_updated := stamp\<rparr>)"
    using usable_after_count [OF fac(1)] fac(1) key(5) by auto
  ultimately show ?thesis by blast
qed

text \<open>A concrete key, on which the statements are tried: a signature is the message after a one.\<close>

definition demo_env :: wa_env where
  "demo_env = \<lparr>wa_depth = 3, wa_repr = (\<lambda>_. []), wa_wide_int = (\<lambda>_. None), wa_usable = (\<lambda>_. True),
     wa_signed = (\<lambda>k sig data. sig = 1 # data)\<rparr>"

definition demo_cose :: "(cbor_value \<times> cbor_value) list" where
  "demo_cose = [(Cb_int 1, Cb_int 1), (Cb_int 3, Cb_int (- 8)), (Cb_int (- 1), Cb_int 6), (Cb_int (- 2), Cb_bytes (replicate 32 9))]"

definition demo_attestation :: "(cbor_value \<times> cbor_value) list" where
  "demo_attestation = [(Cb_text (cps ''fmt''), Cb_text (cps ''none'')),
     (Cb_text (cps ''authData''), Cb_bytes (attested_auth_data ''p.example'' 65 3 (replicate 16 0) [7, 8] (Cb_map demo_cose)))]"

lemmas demo_defs = demo_env_def demo_cose_def demo_attestation_def

lemma demo_key:
  "cb_ok 0 (Cb_map demo_cose)" "algorithm_of demo_env demo_cose = - 8" "- 8 \<in> set cose_supported"
  "public_key demo_env (Cb_map demo_cose) (- 8) = Inr (Ed25519 (replicate 32 9))"
  by (simp_all add: demo_defs max_item_def algorithm_of_def cb_get_def cose_supported_def es256_def eddsa_def rs256_def
      public_key_def ed25519_key_def cb_is_def build_key_def list_all_iff)

lemma demo_attestation_ok:
  "cb_ok 0 (Cb_map demo_attestation)"
  "cb_get demo_attestation (Cb_text (cps ''authData''))
     = Some (Cb_bytes (attested_auth_data ''p.example'' 65 3 (replicate 16 0) [7, 8] (Cb_map demo_cose)))"
proof -
  have "list_all (\<lambda>b. b < 256) (cb_enc (Cb_map demo_cose))" by (rule cb_enc_bytes [OF demo_key(1)])
  moreover have rep: "list_all (\<lambda>b. b < 256) (replicate n (0 :: nat))" for n by (simp add: list_all_iff)
  moreover have "length (cb_enc (Cb_map demo_cose)) = 42" by (simp add: demo_defs enc_head_def)
  ultimately have "list_all (\<lambda>b. b < 256) (attested_auth_data ''p.example'' 65 3 (replicate 16 0) [7, 8] (Cb_map demo_cose))"
    "length (attested_auth_data ''p.example'' 65 3 (replicate 16 0) [7, 8] (Cb_map demo_cose)) = 99"
    using sha256_bytes [of "utf8_encode (cps ''p.example'')"]
    by (simp_all add: attested_auth_data_def bare_auth_data_def length_sha256 be_bytes_range rep del: cb_enc.simps cps_simps be_bytes.simps)
  then show "cb_ok 0 (Cb_map demo_attestation)"
    by (simp add: demo_attestation_def max_item_def utf8_encode_def utf8_char_def valid_cp_def cps_def list_all_iff)
  show "cb_get demo_attestation (Cb_text (cps ''authData''))
     = Some (Cb_bytes (attested_auth_data ''p.example'' 65 3 (replicate 16 0) [7, 8] (Cb_map demo_cose)))"
    by (simp add: demo_attestation_def cb_get_def)
qed

lemma demo_plain: "list_all plain ''c1''" "list_all plain ''c2''" "list_all plain ''https://p.example''"
  by (simp_all add: plain_def)

text \<open>C22.
  A registration that succeeds stores the very key it verified: the row it leaves names the credential, and its
  stored text decodes to that key again, under one of the three supported algorithms, with a key the library
  accepts. No other row of any account changes. Any other answer leaves the store as it was.\<close>

theorem registration_exact:
  assumes "webauthn_register e who att client challenge rp_id origin label uv uid stamp st = (st', answer)"
    and "list_all (\<lambda>b. b < 256) att"
  shows "case answer of
      Granted cid \<Rightarrow>
        \<exists>c fac. verify_registration e att client challenge rp_id origin uv = Inr c
          \<and> usable_factor st' who = Some fac
          \<and> fa_cred fac = cid \<and> b64u_decode cid = cr_id c
          \<and> decode (b64u_decode (fa_pubkey fac)) = Inr (cr_key c)
          \<and> fa_alg fac = cr_alg c \<and> fa_alg fac \<in> {- 7, - 8, - 257} \<and> fa_count fac = int (cr_count c)
          \<and> (\<exists>k. public_key e (cr_key c) (fa_alg fac) = Inr k \<and> wa_usable e k)
          \<and> filter (\<lambda>r. \<not> of_user who webauthn_method r) (mf_factors st')
              = filter (\<lambda>r. \<not> of_user who webauthn_method r) (mf_factors st)
          \<and> mf_recovery st' = mf_recovery st
    | _ \<Rightarrow> st' = st"
  by (rule register_cases [OF assms])

theorem registration_exact_witness:
  "\<exists>st' cid fac. webauthn_register demo_env ''u'' (cb_enc (Cb_map demo_attestation))
       (client_json ''webauthn.create'' ''c1'' ''https://p.example'') ''c1'' ''p.example'' ''https://p.example'' ''k'' False ''r1'' ''now''
       \<lparr>mf_factors = [], mf_recovery = []\<rparr> = (st', Granted cid)
     \<and> usable_factor st' ''u'' = Some fac \<and> decode (b64u_decode (fa_pubkey fac)) = Inr (Cb_map demo_cose) \<and> fa_alg fac = - 8"
proof -
  note reg = honest_registration [of 65 False 3 "replicate 16 0" "[7, 8]" demo_cose demo_env "Ed25519 (replicate 32 9)"
      demo_attestation "''p.example''" "''c1''" "''https://p.example''"]
  have v: "verify_registration demo_env (cb_enc (Cb_map demo_attestation)) (client_json ''webauthn.create'' ''c1'' ''https://p.example'')
      ''c1'' ''p.example'' ''https://p.example'' False
    = Inr \<lparr>cr_id = [7, 8], cr_key = Cb_map demo_cose, cr_raw = cb_enc (Cb_map demo_cose), cr_alg = - 8, cr_count = 3,
        cr_aaguid = replicate 16 0, cr_uv = False\<rparr>"
    using reg demo_key demo_attestation_ok demo_plain by (simp add: demo_env_def del: cb_enc.simps cb_ok.simps cps_simps)
  have "b64u_encode [7, 8] \<noteq> []" by code_simp
  moreover have "b64u_encode (cb_enc (Cb_map demo_cose)) \<noteq> []"
    using b64u_round_trip [OF cb_enc_bytes [OF demo_key(1)]] by (auto simp: b64u_decode_def enc_head_def)
  ultimately obtain st' where r: "webauthn_register demo_env ''u'' (cb_enc (Cb_map demo_attestation))
       (client_json ''webauthn.create'' ''c1'' ''https://p.example'') ''c1'' ''p.example'' ''https://p.example'' ''k'' False ''r1'' ''now''
       \<lparr>mf_factors = [], mf_recovery = []\<rparr> = (st', Granted (b64u_encode [7, 8]))"
    using v by (simp add: webauthn_register_def save_credential_def del: cb_enc.simps)
  from registration_exact [OF r cb_enc_bytes [OF demo_attestation_ok(1)]] v r show ?thesis by auto
qed



end
