(* ===== verification/Sessions.thy ===== *)
theory Sessions
  imports Rbac_Catalog
begin

text \<open>
  Who is signed in: the table of sessions (\<^verbatim>\<open>lib/core/sessions/store.py\<close>), the registry each replica keeps of
  it (\<^verbatim>\<open>lib/core/sessions/mixin.py\<close>) and what the screen shows (\<^verbatim>\<open>lib/core/sessions/service.py\<close>). A registry
  entry carries two marks of its own beside the columns: when the table last confirmed it, and when the last use
  was last written. A time stored as text is modelled as the time, an empty one as \<open>None\<close>. A statement
  that fails changes nothing; whether the reads and writes of an operation succeed is an argument. The key
  file of the cookies is I/O.
\<close>

section \<open>The table\<close>

record session_row =
  se_uid :: string
  se_user :: string
  se_created :: "time option"
  se_seen :: "time option"
  se_ip :: string
  se_agent :: string
  se_remember :: bool

record access_row =
  ac_session :: string
  ac_ts :: string
  ac_ip :: string
  ac_method :: string
  ac_path :: string
  ac_status :: int

record session_table =
  st_rows :: "(string, session_row) dict"
  st_access :: "access_row list"
  st_since_trim :: nat

definition store_get :: "bool \<Rightarrow> string \<Rightarrow> session_table \<Rightarrow> session_row option option" where
  "store_get answers token tb =
     (if token = [] then Some None else if answers then Some (map_of (st_rows tb) token) else None)"

text \<open>Dropping the activity of the sessions with these public ids.\<close>

definition drop_access :: "string list \<Rightarrow> session_table \<Rightarrow> session_table" where
  "drop_access uids tb = tb\<lparr>st_access := filter (\<lambda>a. \<not> List.member uids (ac_session a)) (st_access tb)\<rparr>"

definition prune_access :: "string list \<Rightarrow> session_table \<Rightarrow> session_table" where
  "prune_access uids tb =
     (let keep = filter (\<lambda>u. u \<noteq> []) uids
      in tb\<lparr>st_access := filter (\<lambda>a. List.member keep (ac_session a)) (st_access tb)\<rparr>)"

definition store_upsert :: "string \<Rightarrow> session_row \<Rightarrow> session_table \<Rightarrow> session_table" where
  "store_upsert token s tb = tb\<lparr>st_rows := AList.delete token (st_rows tb) @ [(token, s)]\<rparr>"

definition save_all :: "(string \<times> session_row) list \<Rightarrow> session_table \<Rightarrow> session_table" where
  "save_all ss tb =
     (let written = foldl (\<lambda>rows (t, s). AList.update t s rows) (st_rows tb) ss
      in prune_access (map (se_uid \<circ> snd) ss)
           (tb\<lparr>st_rows := filter (\<lambda>(t, s). List.member (map fst ss) t) written\<rparr>))"

definition delete_where :: "(string \<times> session_row \<Rightarrow> bool) \<Rightarrow> session_table \<Rightarrow> nat \<times> session_table" where
  "delete_where p tb =
     (let gone = filter p (st_rows tb)
      in (length gone, drop_access (map (se_uid \<circ> snd) gone) (tb\<lparr>st_rows := filter (\<lambda>r. \<not> p r) (st_rows tb)\<rparr>)))"

definition delete_tokens :: "string list \<Rightarrow> session_table \<Rightarrow> nat \<times> session_table" where
  "delete_tokens ts tb =
     (let ts' = filter (\<lambda>t. t \<noteq> []) ts in if ts' = [] then (0, tb) else delete_where (\<lambda>(t, s). List.member ts' t) tb)"

definition store_delete_token :: "string \<Rightarrow> session_table \<Rightarrow> nat \<times> session_table" where
  "store_delete_token token tb = delete_where (\<lambda>(t, s). t = token) tb"

definition delete_by_uid :: "string \<Rightarrow> session_table \<Rightarrow> bool \<times> session_table" where
  "delete_by_uid uid tb =
     (if uid = [] then (False, tb)
      else let (n, tb') = delete_where (\<lambda>(t, s). se_uid s = uid) tb in (0 < n, drop_access [uid] tb'))"

definition delete_by_user_uid :: "string \<Rightarrow> string \<Rightarrow> session_table \<Rightarrow> nat \<times> session_table" where
  "delete_by_user_uid who keep tb = delete_where (\<lambda>(t, s). se_user s = who \<and> t \<noteq> keep) tb"

definition store_touch :: "string \<Rightarrow> time option \<Rightarrow> session_table \<Rightarrow> session_table" where
  "store_touch uid seen tb =
     (if uid = [] then tb
      else tb\<lparr>st_rows := map (\<lambda>(t, s). (t, if se_uid s = uid then s\<lparr>se_seen := seen\<rparr> else s)) (st_rows tb)\<rparr>)"

section \<open>What a session did\<close>

text \<open>Texts compare code point by code point; the newest rows first, equal stamps in table order.\<close>

fun text_le :: "string \<Rightarrow> string \<Rightarrow> bool" where
  "text_le [] _ = True"
| "text_le (_ # _) [] = False"
| "text_le (a # as) (b # bs) = (code a < code b \<or> (a = b \<and> text_le as bs))"

fun insert_newest :: "access_row \<Rightarrow> access_row list \<Rightarrow> access_row list" where
  "insert_newest a [] = [a]"
| "insert_newest a (b # bs) = (if text_le (ac_ts b) (ac_ts a) then a # b # bs else b # insert_newest a bs)"

definition newest_access :: "access_row list \<Rightarrow> access_row list" where
  "newest_access rows = foldr insert_newest rows []"

definition access_for :: "string \<Rightarrow> nat \<Rightarrow> session_table \<Rightarrow> access_row list" where
  "access_for uid limit tb = take limit (newest_access (filter (\<lambda>a. ac_session a = uid) (st_access tb)))"

definition access_all :: "nat \<Rightarrow> session_table \<Rightarrow> access_row list" where
  "access_all limit tb = take limit (newest_access (st_access tb))"

definition trim_access :: "string \<Rightarrow> nat \<Rightarrow> session_table \<Rightarrow> session_table" where
  "trim_access uid keep tb =
     (case drop keep (newest_access (filter (\<lambda>a. ac_session a = uid) (st_access tb))) of
        [] \<Rightarrow> tb
      | a # _ \<Rightarrow> tb\<lparr>st_access := filter (\<lambda>b. \<not> (ac_session b = uid \<and> text_le (ac_ts b) (ac_ts a))) (st_access tb)\<rparr>)"

definition log_access :: "access_row \<Rightarrow> int \<Rightarrow> session_table \<Rightarrow> session_table" where
  "log_access a keep tb =
     (if ac_session a = [] then tb
      else let row = a\<lparr>ac_method := take 8 (ac_method a), ac_path := take 255 (ac_path a)\<rparr>;
               tb1 = tb\<lparr>st_access := st_access tb @ [row], st_since_trim := st_since_trim tb + 1\<rparr>
        in if 0 < keep \<and> max 10 (keep div 4) \<le> int (st_since_trim tb1)
           then trim_access (ac_session a) (nat keep) (tb1\<lparr>st_since_trim := 0\<rparr>)
           else tb1)"

section \<open>The registry of a replica\<close>

record live_session = session_row +
  li_checked :: time
  li_flushed :: "time option"

type_synonym registry = "(string, live_session) dict"

definition row_of :: "live_session \<Rightarrow> session_row" where
  "row_of e = \<lparr>se_uid = se_uid e, se_user = se_user e, se_created = se_created e, se_seen = se_seen e, se_ip = se_ip e,
     se_agent = se_agent e, se_remember = se_remember e\<rparr>"

definition live_of :: "session_row \<Rightarrow> live_session" where
  "live_of s = session_row.extend s \<lparr>li_checked = 0, li_flushed = None\<rparr>"

text \<open>The settings a check reads.\<close>

record session_policy =
  sp_ttl :: rat
  sp_idle_minutes :: int
  sp_remember_days :: int

definition create_session :: "string \<Rightarrow> string \<Rightarrow> string \<Rightarrow> string \<Rightarrow> string \<Rightarrow> bool \<Rightarrow> time \<Rightarrow> bool \<Rightarrow> registry \<Rightarrow> session_table
    \<Rightarrow> registry \<times> session_table" where
  "create_session token uid who ip agent remember now writes reg tb =
     (let s = \<lparr>se_uid = uid, se_user = who, se_created = Some now, se_seen = Some now, se_ip = ip, se_agent = agent,
              se_remember = remember\<rparr>
      in (AList.update token (live_of s) reg, if writes then store_upsert token s tb else tb))"

text \<open>Is the token a live session, as the table says: asked again when the last answer is older than the limit.\<close>

definition session_in_db :: "session_policy \<Rightarrow> bool \<Rightarrow> time \<Rightarrow> string \<Rightarrow> registry \<Rightarrow> session_table \<Rightarrow> bool \<times> registry" where
  "session_in_db pol answers tick token reg tb =
     (let entry = map_of reg token
      in if (case entry of None \<Rightarrow> False | Some e \<Rightarrow> sp_ttl pol \<noteq> 0 \<and> tick - li_checked e < sp_ttl pol) then (True, reg)
         else case store_get answers token tb of
                None \<Rightarrow> (entry \<noteq> None, reg)
              | Some None \<Rightarrow> (False, AList.delete token reg)
              | Some (Some row) \<Rightarrow>
                  (let e = (case entry of None \<Rightarrow> live_of row | Some e \<Rightarrow> e)
                   in (True, AList.update token (e\<lparr>li_checked := tick\<rparr>) reg)))"

definition uid_to_username :: "panel \<Rightarrow> string \<Rightarrow> (string \<times> user) option" where
  "uid_to_username p uid = find (\<lambda>(n, u). us_uid u = uid) (pn_users p)"

text \<open>The account a session belongs to: by its identifier, and by name only for one that has none.\<close>

definition session_account :: "panel \<Rightarrow> string \<Rightarrow> string \<Rightarrow> user option" where
  "session_account p owner name =
     (case uid_to_username p owner of
        Some (n, u) \<Rightarrow> Some u
      | None \<Rightarrow>
          (case map_of (pn_users p) name of
             None \<Rightarrow> None
           | Some u \<Rightarrow> if us_uid u \<noteq> [] \<or> (owner \<noteq> [] \<and> owner \<noteq> name) then None else Some u))"

definition older :: "time \<Rightarrow> time option \<Rightarrow> rat \<Rightarrow> bool" where
  "older now t limit = (case t of None \<Rightarrow> False | Some x \<Rightarrow> limit < now - x)"

definition session_expired :: "session_policy \<Rightarrow> time \<Rightarrow> live_session \<Rightarrow> bool" where
  "session_expired pol now e =
     (let idle = of_int (sp_idle_minutes pol * 60)
      in idle \<noteq> 0 \<and> \<not> se_remember e \<and> older now (se_seen e) idle
         \<or> older now (se_created e) (of_int (sp_remember_days pol * 86400)))"

definition touch_seconds :: rat where "touch_seconds = 60"

definition touch_session :: "time \<Rightarrow> bool \<Rightarrow> live_session \<Rightarrow> session_table \<Rightarrow> live_session \<times> session_table" where
  "touch_session now writes e tb =
     (if (case li_flushed e of None \<Rightarrow> False | Some l \<Rightarrow> now - l < touch_seconds) then (e, tb)
      else (e\<lparr>li_flushed := Some now\<rparr>, if writes then store_touch (se_uid e) (se_seen e) tb else tb))"

datatype session_event = Session_expired string | Session_ip_changed string

text \<open>
  One request that presents the token of a cookie: whether it is let through, the registry, the table and the
  entries of the audit. \<open>tick\<close> is the reading of the monotonic clock.
\<close>

definition check_session :: "session_policy \<Rightarrow> panel \<Rightarrow> bool \<Rightarrow> bool \<Rightarrow> time \<Rightarrow> time \<Rightarrow> string \<Rightarrow> string \<Rightarrow> string \<Rightarrow> registry
    \<Rightarrow> session_table \<Rightarrow> bool \<times> registry \<times> session_table \<times> session_event list" where
  "check_session pol p answers writes now tick token name ip reg tb =
     (case (if token = [] then (False, reg) else session_in_db pol answers tick token reg tb) of
        (False, reg1) \<Rightarrow> (False, reg1, tb, [])
      | (True, reg1) \<Rightarrow>
          (case map_of reg1 token of
             None \<Rightarrow> (False, reg1, tb, [])
           | Some e \<Rightarrow>
               let drop_it = (AList.delete token reg1, if writes then snd (store_delete_token token tb) else tb)
               in case session_account p (se_user e) name of
                    None \<Rightarrow> (False, fst drop_it, snd drop_it, [])
                  | Some u \<Rightarrow>
                      if \<not> us_enabled u then (False, fst drop_it, snd drop_it, [])
                      else if session_expired pol now e then (False, fst drop_it, snd drop_it, [Session_expired (se_uid e)])
                      else let moved = (se_ip e \<noteq> [] \<and> se_ip e \<noteq> ip);
                               e1 = (if moved then e\<lparr>se_ip := ip\<rparr> else e)\<lparr>se_seen := Some now\<rparr>;
                               (e2, tb1) = touch_session now writes e1 tb
                           in (True, AList.update token e2 reg1, tb1, if moved then [Session_ip_changed (se_uid e)] else [])))"

section \<open>Ending sessions\<close>

definition revoke_session :: "string \<Rightarrow> bool \<Rightarrow> registry \<Rightarrow> session_table \<Rightarrow> bool \<times> registry \<times> session_table" where
  "revoke_session token writes reg tb =
     (if map_of reg token \<noteq> None
      then (True, AList.delete token reg, if writes then snd (store_delete_token token tb) else tb)
      else (False, reg, tb))"

definition find_token_by_uid :: "(string, live_session) dict \<Rightarrow> string \<Rightarrow> string option" where
  "find_token_by_uid reg uid = map_option fst (find (\<lambda>(t, e). se_uid e = uid) reg)"

definition revoke_session_by_uid :: "string \<Rightarrow> bool \<Rightarrow> registry \<Rightarrow> session_table \<Rightarrow> bool \<times> registry \<times> session_table" where
  "revoke_session_by_uid uid writes reg tb =
     (if uid = [] then (False, reg, tb)
      else let found = find_token_by_uid reg uid;
               reg' = (case found of None \<Rightarrow> reg | Some t \<Rightarrow> AList.delete t reg);
               (deleted, tb') = (if writes then delete_by_uid uid tb else (False, tb))
           in (found \<noteq> None \<or> deleted, reg', tb'))"

definition revoke_user_sessions :: "panel \<Rightarrow> string \<Rightarrow> string option \<Rightarrow> bool \<Rightarrow> registry \<Rightarrow> session_table
    \<Rightarrow> nat \<times> registry \<times> session_table" where
  "revoke_user_sessions p name except_token writes reg tb =
     (let who = (case map_of (pn_users p) name of None \<Rightarrow> [] | Some u \<Rightarrow> us_uid u)
      in if who = [] then (0, reg, tb)
         else let mine = (\<lambda>(t, e). se_user e = who \<and> Some t \<noteq> except_token);
                  (n, tb') = (if writes then delete_by_user_uid who (opt except_token []) tb else (0, tb))
              in (max (length (filter mine reg)) n, filter (\<lambda>r. \<not> mine r) reg, tb'))"

definition revoke_all_sessions :: "bool \<Rightarrow> registry \<Rightarrow> session_table \<Rightarrow> nat \<times> registry \<times> session_table" where
  "revoke_all_sessions writes reg tb = (length reg, [], if writes then save_all [] tb else tb)"

text \<open>The start of a replica: what the table holds, less what outlived the longest session.\<close>

definition load_sessions :: "session_policy \<Rightarrow> time \<Rightarrow> bool \<Rightarrow> session_table \<Rightarrow> registry \<times> session_table" where
  "load_sessions pol now writes tb =
     (let cutoff = now - of_int (sp_remember_days pol * 86400);
          stale = map fst (filter (\<lambda>(t, s). case se_seen s of None \<Rightarrow> True | Some x \<Rightarrow> x < cutoff) (st_rows tb));
          reg = map (\<lambda>(t, s). (t, live_of s)) (filter (\<lambda>(t, s). \<not> List.member stale t) (st_rows tb))
      in (reg, if stale \<noteq> [] \<and> writes then snd (delete_tokens stale tb) else tb))"

section \<open>What the screen shows\<close>

record session_view =
  sv_name :: string
  sv_row :: session_row
  sv_current :: bool

definition sessions_view :: "(string, live_session) dict \<Rightarrow> panel \<Rightarrow> string option \<Rightarrow> (string, session_view) dict" where
  "sessions_view reg p current =
     foldl (\<lambda>out (token, e). AList.update (if se_uid e = [] then take 16 token else se_uid e)
         \<lparr>sv_name = (case map_of (rev (map (\<lambda>(n, u). (us_uid u, n)) (pn_users p))) (se_user e) of None \<Rightarrow> se_user e | Some n \<Rightarrow> n),
          sv_row = row_of e, sv_current = (Some token = current)\<rparr> out) [] reg"

definition owner_username :: "panel \<Rightarrow> string \<Rightarrow> string" where
  "owner_username p uid = (case find (\<lambda>(n, u). us_uid u = uid) (pn_users p) of None \<Rightarrow> [] | Some (n, u) \<Rightarrow> n)"

section \<open>Replicas over one table\<close>

record cluster =
  cs_reg :: "nat \<Rightarrow> registry"
  cs_table :: session_table

datatype session_op =
    So_create nat string string string string string bool time bool
  | So_check nat session_policy panel bool bool time time string string string
  | So_revoke nat string bool
  | So_revoke_uid nat string bool
  | So_revoke_user nat panel string "string option" bool
  | So_revoke_all nat bool
  | So_boot nat session_policy time bool
  | So_log access_row int

definition on_replica :: "nat \<Rightarrow> cluster \<Rightarrow> 'a \<times> registry \<times> session_table \<Rightarrow> cluster" where
  "on_replica i c r = (case r of (_, reg, tb) \<Rightarrow> c\<lparr>cs_reg := (cs_reg c)(i := reg), cs_table := tb\<rparr>)"

text \<open>Whether a request is let through, and the cluster afterwards; other operations let nothing through.\<close>

fun session_op_step :: "cluster \<Rightarrow> session_op \<Rightarrow> bool \<times> cluster" where
  "session_op_step c (So_create i token uid who ip agent remember now writes) =
     (False, on_replica i c ((), create_session token uid who ip agent remember now writes (cs_reg c i) (cs_table c)))"
| "session_op_step c (So_check i pol p answers writes now tick token name ip) =
     (case check_session pol p answers writes now tick token name ip (cs_reg c i) (cs_table c) of
        (ok, reg, tb, _) \<Rightarrow> (ok, on_replica i c ((), reg, tb)))"
| "session_op_step c (So_revoke i token writes) = (False, on_replica i c (revoke_session token writes (cs_reg c i) (cs_table c)))"
| "session_op_step c (So_revoke_uid i uid writes) = (False, on_replica i c (revoke_session_by_uid uid writes (cs_reg c i) (cs_table c)))"
| "session_op_step c (So_revoke_user i p name keep writes) =
     (False, on_replica i c (revoke_user_sessions p name keep writes (cs_reg c i) (cs_table c)))"
| "session_op_step c (So_revoke_all i writes) = (False, on_replica i c (revoke_all_sessions writes (cs_reg c i) (cs_table c)))"
| "session_op_step c (So_boot i pol now writes) = (False, on_replica i c ((), load_sessions pol now writes (cs_table c)))"
| "session_op_step c (So_log a keep) = (False, c\<lparr>cs_table := log_access a keep (cs_table c)\<rparr>)"

fun creates_token :: "string \<Rightarrow> session_op \<Rightarrow> bool" where
  "creates_token t (So_create i token uid who ip agent remember now writes) = (token = t)"
| "creates_token t _ = False"

end
