(* ===== verification/Sessions_Proofs.thy ===== *)
theory Sessions_Proofs
  imports Sessions
begin

text \<open>
  What the sessions promise over any number of replicas: who is let through, and that an ended session is over
  everywhere.
\<close>

text \<open>Two replicas with nothing in their table, and one account.\<close>

definition demo_account :: user where
  "demo_account = \<lparr>us_uid = ''u1'', us_hash = [], us_role = None, us_display = [], us_email = [], us_lang = [], us_landing = [],
     us_dark = None, us_groups = [], us_enabled = True, us_login = True, us_source = ''local'', us_locked = None, us_failed = None,
     us_created = [], us_updated = [], us_by = []\<rparr>"

definition demo_people :: panel where
  "demo_people = \<lparr>pn_users = [(''ann'', demo_account)], pn_roles = [], pn_groups = [], pn_names = [], pn_overrides = []\<rparr>"

definition demo_pol :: session_policy where
  "demo_pol = \<lparr>sp_ttl = 5, sp_idle_minutes = 1, sp_remember_days = 30\<rparr>"

definition empty_table :: session_table where
  "empty_table = \<lparr>st_rows = [], st_access = [], st_since_trim = 0\<rparr>"

definition two_replicas :: cluster where
  "two_replicas = \<lparr>cs_reg = (\<lambda>_. []), cs_table = empty_table\<rparr>"

lemmas demo_session_defs = demo_account_def demo_people_def demo_pol_def empty_table_def two_replicas_def

section \<open>A session that was ended\<close>

text \<open>Nothing in the table, and no confirmation in any registry later than \<open>until\<close>.\<close>

definition ended :: "string \<Rightarrow> time \<Rightarrow> cluster \<Rightarrow> bool" where
  "ended token until c \<longleftrightarrow> token \<notin> fst ` set (st_rows (cs_table c))
     \<and> (\<forall>i. \<forall>(t, e) \<in> set (cs_reg c i). t = token \<longrightarrow> li_checked e \<le> until)"

definition no_row :: "string \<Rightarrow> session_table \<Rightarrow> bool" where
  "no_row token tb \<longleftrightarrow> token \<notin> fst ` set (st_rows tb)"

definition calm :: "string \<Rightarrow> time \<Rightarrow> registry \<Rightarrow> bool" where
  "calm token until reg \<longleftrightarrow> (\<forall>(t, e) \<in> set reg. t = token \<longrightarrow> li_checked e \<le> until)"

lemma ended_parts: "ended token until c \<longleftrightarrow> no_row token (cs_table c) \<and> (\<forall>i. calm token until (cs_reg c i))"
  by (simp add: ended_def no_row_def calm_def)

lemma no_row_ops [simp]:
  "no_row token (drop_access us tb) = no_row token tb"
  "no_row token (prune_access us tb) = no_row token tb"
  "no_row token (tb\<lparr>st_access := b\<rparr>) = no_row token tb"
  "no_row token (tb\<lparr>st_since_trim := n\<rparr>) = no_row token tb"
  "no_row token (store_touch uid seen tb) = no_row token tb"
  "no_row token (log_access a keep tb) = no_row token tb"
  "t \<noteq> token \<Longrightarrow> no_row token (store_upsert t s tb) = no_row token tb"
  by (auto simp: no_row_def drop_access_def prune_access_def store_touch_def log_access_def trim_access_def Let_def
      store_upsert_def AList.delete_eq image_iff split: list.splits)

lemma no_row_delete:
  "no_row token tb \<Longrightarrow> no_row token (snd (delete_where p tb))"
  "no_row token tb \<Longrightarrow> no_row token (snd (delete_tokens ts tb))"
  "no_row token tb \<Longrightarrow> no_row token (snd (store_delete_token t tb))"
  "no_row token tb \<Longrightarrow> no_row token (snd (delete_by_uid u tb))"
  "no_row token tb \<Longrightarrow> no_row token (snd (delete_by_user_uid w k tb))"
  "no_row token (save_all [] tb)"
  by (auto simp: no_row_def delete_where_def delete_tokens_def store_delete_token_def delete_by_uid_def delete_by_user_uid_def
      save_all_def Let_def drop_access_def prune_access_def split: prod.splits)

lemma calm_ops:
  "calm token until reg \<Longrightarrow> calm token until (AList.delete t reg)"
  "calm token until reg \<Longrightarrow> calm token until (filter P reg)"
  "calm token until reg \<Longrightarrow> t \<noteq> token \<or> li_checked e \<le> until \<Longrightarrow> calm token until (AList.update t e reg)"
proof -
  assume c: "calm token until reg"
  show "calm token until (AList.delete t reg)" "calm token until (filter P reg)"
    using c by (auto simp: calm_def AList.delete_eq)
  assume t: "t \<noteq> token \<or> li_checked e \<le> until"
  have "set (AList.update t e reg) \<subseteq> insert (t, e) (set reg)"
    by (induction reg) auto
  with c t show "calm token until (AList.update t e reg)"
    by (fastforce simp: calm_def)
qed

lemma in_db_calm:
  assumes "session_in_db pol answers tick t reg tb = (ok, reg')" "no_row token tb" "calm token until reg"
  shows "calm token until reg'"
proof (cases "t = token")
  case True
  have no: "map_of (st_rows tb) token = None"
    using assms(2) by (auto simp: no_row_def map_of_eq_None_iff)
  with True assms(1) have "reg' = reg \<or> reg' = AList.delete t reg"
    by (auto simp: session_in_db_def store_get_def Let_def split: if_splits option.splits)
  with assms(3) show ?thesis by (auto intro: calm_ops)
next
  case False
  from assms(1) have "reg' = reg \<or> reg' = AList.delete t reg \<or> (\<exists>e. reg' = AList.update t e reg)"
    by (auto simp: session_in_db_def Let_def split: if_splits option.splits)
  with False assms(3) show ?thesis by (auto intro: calm_ops)
qed

lemma check_ended:
  assumes "check_session pol p answers writes now tick t name ip reg tb = (ok, reg', tb', evs)" "no_row token tb" "calm token until reg"
  shows "no_row token tb' \<and> calm token until reg'"
proof -
  obtain ok1 reg1 where d: "(if t = [] then (False, reg) else session_in_db pol answers tick t reg tb) = (ok1, reg1)"
    by fastforce
  then have c: "calm token until reg1"
    using assms(2,3) in_db_calm by (auto split: if_splits)
  show ?thesis
  proof (cases ok1)
    case False
    with assms d c show ?thesis by (simp add: check_session_def)
  next
    case True
    show ?thesis
    proof (cases "map_of reg1 t")
      case None
      with assms d c True show ?thesis by (simp add: check_session_def)
    next
      case (Some e)
      then have e: "t \<noteq> token \<or> li_checked e \<le> until"
        using c by (auto simp: calm_def dest!: map_of_SomeD)
      let ?e1 = "(if se_ip e \<noteq> [] \<and> se_ip e \<noteq> ip then e\<lparr>se_ip := ip\<rparr> else e)\<lparr>se_seen := Some now\<rparr>"
      obtain e2 tb2 where t: "touch_session now writes ?e1 tb = (e2, tb2)" by fastforce
      then have e2: "li_checked e2 = li_checked e" "no_row token tb2"
        using assms(2) by (auto simp: touch_session_def split: if_splits)
      from Some assms(1) d True t consider
          "reg' = AList.delete t reg1" "tb' = (if writes then snd (store_delete_token t tb) else tb)"
        | "reg' = AList.update t e2 reg1" "tb' = tb2"
        by (simp add: check_session_def Let_def split: option.splits if_splits)
      then show ?thesis
      proof cases
        case 1
        with assms(2) c show ?thesis by (auto intro: calm_ops no_row_delete)
      next
        case 2
        with e2 c e show ?thesis by (auto intro!: calm_ops(3))
      qed
    qed
  qed
qed

lemma ended_step:
  assumes "ended token until c" "\<not> creates_token token op"
  shows "ended token until (snd (session_op_step c op))"
proof -
  have n: "no_row token (cs_table c)" and k: "\<And>i. calm token until (cs_reg c i)"
    using assms(1) by (auto simp: ended_parts)
  have on: "ended token until (on_replica i c r)" if "no_row token (snd (snd r))" "calm token until (fst (snd r))" for i and r :: "'z \<times> registry \<times> session_table"
    using that k by (cases r) (auto simp: on_replica_def ended_parts)
  show ?thesis
  proof (cases op)
    case (So_create i t uid who ip agent remember now writes)
    with assms(2) n k show ?thesis
      by (auto intro!: on calm_ops simp: create_session_def Let_def)
  next
    case (So_check i pol p answers writes now tick t name ip)
    obtain ok reg tb evs where r: "check_session pol p answers writes now tick t name ip (cs_reg c i) (cs_table c) = (ok, reg, tb, evs)"
      by (metis prod_cases4)
    from check_ended [OF r n k] show ?thesis by (simp add: So_check r on)
  next
    case (So_revoke i t writes)
    with n k show ?thesis by (auto intro!: on calm_ops no_row_delete simp: revoke_session_def)
  next
    case (So_revoke_uid i uid writes)
    obtain b tb where "(if writes then delete_by_uid uid (cs_table c) else (False, cs_table c)) = (b, tb)" by fastforce
    then have "no_row token tb" using n no_row_delete(4) [OF n, of uid] by (auto split: if_splits)
    with \<open>(if writes then _ else _) = (b, tb)\<close> So_revoke_uid n k show ?thesis
      by (auto intro!: on calm_ops simp: revoke_session_by_uid_def Let_def split: option.splits)
  next
    case (So_revoke_user i p name keep writes)
    obtain m tb where t: "(if writes then delete_by_user_uid (case map_of (pn_users p) name of None \<Rightarrow> [] | Some u \<Rightarrow> us_uid u) (opt keep []) (cs_table c)
      else (0, cs_table c)) = (m, tb)" by fastforce
    then have "no_row token tb" using n no_row_delete(5) [OF n] by (metis fst_conv prod.collapse snd_conv)
    with t So_revoke_user n k show ?thesis
      by (auto intro!: on calm_ops simp: revoke_user_sessions_def Let_def)
  next
    case (So_revoke_all i writes)
    with n k show ?thesis by (auto intro!: on simp: revoke_all_sessions_def calm_def no_row_delete(6))
  next
    case (So_boot i pol now writes)
    have "calm token until (fst (load_sessions pol now writes (cs_table c)))"
      using n by (auto simp: load_sessions_def Let_def calm_def no_row_def image_iff)
    with So_boot n show ?thesis
      by (auto intro!: on no_row_delete simp: load_sessions_def Let_def)
  next
    case (So_log a keep)
    with n k show ?thesis by (simp add: ended_parts)
  qed
qed

interpretation over: guided_machine "\<lambda>c op. snd (session_op_step c op)" "ended token until" "\<lambda>op. \<not> creates_token token op" "\<lambda>_ _. True"
  for token until
  by unfold_locales (auto intro: ended_step)

lemma ended_refused:
  assumes "ended token until c" "sp_ttl pol \<le> tick - until"
  shows "\<not> fst (session_op_step c (So_check i pol p True writes now tick token name ip))"
proof -
  have no: "map_of (st_rows (cs_table c)) token = None"
    using assms(1) by (auto simp: ended_parts no_row_def map_of_eq_None_iff)
  have "sp_ttl pol \<le> tick - li_checked e" if "map_of (cs_reg c i) token = Some e" for e
    using assms that by (fastforce simp: ended_def dest!: map_of_SomeD)
  then have "\<not> fst (session_in_db pol True tick token (cs_reg c i) (cs_table c))"
    using no by (auto simp: session_in_db_def Let_def store_get_def not_less split: option.splits)
  then show ?thesis
    by (auto simp: check_session_def split: prod.splits bool.splits)
qed

text \<open>The operations that end the session of a token, with the statement succeeding.\<close>

fun ends_session :: "cluster \<Rightarrow> string \<Rightarrow> session_op \<Rightarrow> bool" where
  "ends_session c token (So_revoke i t writes) = (writes \<and> t = token \<and> map_of (cs_reg c i) t \<noteq> None)"
| "ends_session c token (So_revoke_uid i uid writes) =
     (writes \<and> uid \<noteq> [] \<and> (\<exists>s. map_of (st_rows (cs_table c)) token = Some s \<and> se_uid s = uid))"
| "ends_session c token (So_revoke_user i p name keep writes) =
     (writes \<and> keep \<noteq> Some token \<and> (\<exists>u s. map_of (pn_users p) name = Some u \<and> us_uid u \<noteq> []
        \<and> map_of (st_rows (cs_table c)) token = Some s \<and> se_user s = us_uid u))"
| "ends_session c token (So_revoke_all i writes) = writes"
| "ends_session c token _ = False"

lemma delete_where_row:
  assumes "dict_wf (st_rows tb)" "map_of (st_rows tb) token = Some s" "P (token, s)"
  shows "no_row token (snd (delete_where P tb))"
proof -
  have "s' = s" if "(token, s') \<in> set (st_rows tb)" for s'
    using assms(1,2) that by (simp add: dict_wf_def)
  with assms(3) show ?thesis by (auto simp: no_row_def delete_where_def Let_def drop_access_def)
qed

lemma calm_revoked:
  "(\<And>t e. (t, e) \<in> set reg \<Longrightarrow> li_checked e \<le> until) \<Longrightarrow> calm token until reg"
  by (auto simp: calm_def)

lemma ending_ends:
  assumes "ends_session c token op" "dict_wf (st_rows (cs_table c))" "token \<noteq> []"
    and "\<And>i t e. (t, e) \<in> set (cs_reg c i) \<Longrightarrow> li_checked e \<le> until"
  shows "ended token until (snd (session_op_step c op))"
proof -
  have k: "calm token until (cs_reg c i)" for i using assms(4) by (rule calm_revoked)
  have on: "ended token until (on_replica i c r)" if "no_row token (snd (snd r))" "calm token until (fst (snd r))" for i and r :: "'z \<times> registry \<times> session_table"
    using that k by (cases r) (auto simp: on_replica_def ended_parts)
  show ?thesis
  proof (cases op)
    case (So_revoke i t writes)
    have "no_row token (snd (store_delete_token token (cs_table c)))"
      by (auto simp: no_row_def store_delete_token_def delete_where_def Let_def drop_access_def)
    with So_revoke assms(1) k show ?thesis by (auto intro!: on calm_ops simp: revoke_session_def)
  next
    case (So_revoke_uid i uid writes)
    with assms(1) obtain s where s: "writes" "uid \<noteq> []" "map_of (st_rows (cs_table c)) token = Some s" "se_uid s = uid" by auto
    have "no_row token (snd (delete_by_uid uid (cs_table c)))"
      using delete_where_row [OF assms(2) s(3), of "\<lambda>(t, s). se_uid s = uid"] s(2,4)
      by (auto simp: delete_by_uid_def Let_def split: prod.splits)
    with s k So_revoke_uid show ?thesis
      by (auto intro!: on calm_ops simp: revoke_session_by_uid_def Let_def split: option.splits prod.splits)
  next
    case (So_revoke_user i p name keep writes)
    with assms(1) obtain u s where u: "writes" "keep \<noteq> Some token" "map_of (pn_users p) name = Some u" "us_uid u \<noteq> []"
      "map_of (st_rows (cs_table c)) token = Some s" "se_user s = us_uid u" by auto
    have "opt keep [] \<noteq> token" using u(2) assms(3) by (cases keep) (auto simp: opt_def)
    with delete_where_row [OF assms(2) u(5)] u(6)
    have "no_row token (snd (delete_by_user_uid (us_uid u) (opt keep []) (cs_table c)))" by (auto simp: delete_by_user_uid_def)
    with u k So_revoke_user show ?thesis
      by (auto intro!: on calm_ops simp: revoke_user_sessions_def Let_def split: prod.splits)
  next
    case (So_revoke_all i writes)
    with assms(1) k show ?thesis by (auto intro!: on simp: revoke_all_sessions_def calm_def no_row_delete(6))
  qed (use assms(1) in auto)
qed

text \<open>C17.
  A session that is ended on one replica - by itself, by an administrator, with all of its account's or with
  everybody's - is refused by every replica whose table answers, once the time for which a replica may
  trust its memory has passed since the latest confirmation before the end, whatever is done in between short
  of giving out the same token again.\<close>

theorem revoked_everywhere:
  assumes "ends_session c token op" "dict_wf (st_rows (cs_table c))" "token \<noteq> []"
    and "\<And>i t e. (t, e) \<in> set (cs_reg c i) \<Longrightarrow> li_checked e \<le> until"
    and "list_all (\<lambda>op. \<not> creates_token token op) ops"
    and "sp_ttl pol \<le> tick - until"
  shows "\<not> fst (session_op_step (foldl (\<lambda>c op. snd (session_op_step c op)) (snd (session_op_step c op)) ops)
      (So_check i pol p True writes now tick token name ip))"
  by (intro ended_refused [OF conjunct1 [OF over.run_guided [OF ending_ends [OF assms(1-4)] assms(5)]] assms(6)])

definition revoking_cluster :: cluster where
  "revoking_cluster = (let s = \<lparr>se_uid = ''s1'', se_user = ''u1'', se_created = Some 0, se_seen = Some 0, se_ip = ''ip'',
       se_agent = [], se_remember = False\<rparr>
     in \<lparr>cs_reg = (\<lambda>i. if i = 1 then [(''tk'', (live_of s)\<lparr>li_checked := 50\<rparr>)] else []), cs_table = store_upsert ''tk'' s empty_table\<rparr>)"

theorem revoked_everywhere_witness:
  "fst (session_op_step revoking_cluster (So_check 1 demo_pol demo_people True True 53 53 ''tk'' ''ann'' ''ip''))
   \<and> \<not> fst (session_op_step (snd (session_op_step (snd (session_op_step revoking_cluster (So_revoke_user 0 demo_people ''ann'' None True)))
        (So_log \<lparr>ac_session = ''s1'', ac_ts = ''t'', ac_ip = [], ac_method = ''GET'', ac_path = ''/'', ac_status = 403\<rparr> 200)))
      (So_check 1 demo_pol demo_people True True 55 55 ''tk'' ''ann'' ''ip''))"
proof -
  have a: "ends_session revoking_cluster ''tk'' (So_revoke_user 0 demo_people ''ann'' None True)"
    "dict_wf (st_rows (cs_table revoking_cluster))"
    by (simp_all add: revoking_cluster_def demo_session_defs Let_def store_upsert_def dict_wf_def)
  have b: "li_checked e \<le> 50" if "(t, e) \<in> set (cs_reg revoking_cluster i)" for i t e
    using that by (simp add: revoking_cluster_def Let_def split: if_splits)
  have c: "fst (session_op_step revoking_cluster (So_check 1 demo_pol demo_people True True 53 53 ''tk'' ''ann'' ''ip''))"
    by code_simp
  have t: "sp_ttl demo_pol \<le> 55 - 50" by (simp add: demo_pol_def)
  from revoked_everywhere [where ops = "[So_log \<lparr>ac_session = ''s1'', ac_ts = ''t'', ac_ip = [], ac_method = ''GET'', ac_path = ''/'',
      ac_status = 403\<rparr> 200]", OF a _ b _ t] c
  show ?thesis by simp
qed

section \<open>A session that is let through\<close>

text \<open>What makes a token known to a replica at a moment.\<close>

definition token_known :: "session_policy \<Rightarrow> bool \<Rightarrow> time \<Rightarrow> string \<Rightarrow> registry \<Rightarrow> session_table \<Rightarrow> bool" where
  "token_known pol answers tick token reg tb \<longleftrightarrow>
     (case map_of reg token of
        Some e \<Rightarrow> \<not> answers \<or> token \<in> fst ` set (st_rows tb) \<or> sp_ttl pol \<noteq> 0 \<and> tick - li_checked e < sp_ttl pol
      | None \<Rightarrow> answers \<and> token \<in> fst ` set (st_rows tb))"

text \<open>The entry a check judges: the one in memory, or else the one of the table.\<close>

definition judged :: "string \<Rightarrow> registry \<Rightarrow> session_table \<Rightarrow> live_session option" where
  "judged token reg tb = (case map_of reg token of Some e \<Rightarrow> Some e | None \<Rightarrow> map_option live_of (map_of (st_rows tb) token))"

lemma in_db_known:
  assumes "token \<noteq> []"
  shows "fst (session_in_db pol answers tick token reg tb) \<longleftrightarrow> token_known pol answers tick token reg tb"
    "token_known pol answers tick token reg tb \<Longrightarrow>
       \<exists>e. judged token reg tb = Some e \<and> (\<exists>k. map_of (snd (session_in_db pol answers tick token reg tb)) token = Some (e\<lparr>li_checked := k\<rparr>))"
proof -
  have m: "token \<in> fst ` set (st_rows tb) \<longleftrightarrow> map_of (st_rows tb) token \<noteq> None"
    by (simp add: map_of_eq_None_iff)
  show "fst (session_in_db pol answers tick token reg tb) \<longleftrightarrow> token_known pol answers tick token reg tb"
    using assms unfolding token_known_def m
    by (auto simp: session_in_db_def Let_def store_get_def split: option.splits)
  have same: "e = e\<lparr>li_checked := li_checked e\<rparr>" for e :: live_session by simp
  show "\<exists>e. judged token reg tb = Some e \<and> (\<exists>k. map_of (snd (session_in_db pol answers tick token reg tb)) token = Some (e\<lparr>li_checked := k\<rparr>))"
    if "token_known pol answers tick token reg tb"
    using assms that unfolding token_known_def m
    by (auto simp: session_in_db_def judged_def Let_def store_get_def update_conv' split: option.splits) (metis same)+
qed



text \<open>A session in use on the second replica is ended by the first, which only knows its own requests.\<close>

lemma idle_elsewhere:
  "map fst (snd (foldl (\<lambda>(c, out) op. let (ok, c') = session_op_step c op in (c', out @ [(ok, op)])) (two_replicas, [])
     [So_create 0 ''tk'' ''s1'' ''u1'' ''ip'' [] False 0 True,
      So_check 1 demo_pol demo_people True True 50 50 ''tk'' ''ann'' ''ip'',
      So_check 1 demo_pol demo_people True True 100 100 ''tk'' ''ann'' ''ip'',
      So_check 0 demo_pol demo_people True True 101 101 ''tk'' ''ann'' ''ip'',
      So_check 1 demo_pol demo_people True True 110 110 ''tk'' ''ann'' ''ip'']))
   = [False, True, True, False, False]"
  by code_simp

end
