(* ===== verification/Sign_In.thy ===== *)
theory Sign_In
  imports Sessions_Proofs Webauthn_Proofs Rate_Limit Rbac_Users
begin

text \<open>
  Signing in: the local password with its lockout and the single place where a session is born
  (\<^verbatim>\<open>lib/web_admin/mixins/auth.py\<close>), who owes a second factor (\<^verbatim>\<open>lib/core/mfa/policy.py\<close>), the sign-in that
  waits for one (\<^verbatim>\<open>lib/core/mfa/mixin.py\<close>) and the routes of \<^verbatim>\<open>lib/web_admin/routes/auth.py\<close>. A cookie is
  what the framework signs: a browser can present any cookie it was ever given, and nothing else. What the
  directory answers for LDAP, the hasher, the printing and reading of a time, the random draws and the clock are
  arguments. The log lines, notifications, language, landing page and the stamp of the last sign-in are not modelled.
\<close>

section \<open>The state and the settings\<close>

record pending =
  pd_user :: string
  pd_source :: string
  pd_remember :: bool
  pd_expires :: time
  pd_challenge :: string

record reg_note =
  rn_challenge :: string
  rn_proved :: bool
  rn_expires :: time

record cookie =
  ck_logged :: bool
  ck_user :: string
  ck_token :: string
  ck_sid :: string
  ck_pending :: "pending option"
  ck_reg :: "reg_note option"

definition no_cookie :: cookie where
  "no_cookie = \<lparr>ck_logged = False, ck_user = [], ck_token = [], ck_sid = [], ck_pending = None, ck_reg = None\<rparr>"

record door =
  do_panel :: panel
  do_mfa :: mfa
  do_login_rl :: limiter
  do_mfa_rl :: limiter
  do_reg :: registry
  do_table :: session_table

record door_env =
  de_required :: string
  de_trusted :: "string list"
  de_hold :: jval
  de_lock_max :: int
  de_lock_secs :: int
  de_login_max :: int
  de_login_window :: int
  de_public_url :: string
  de_rp_override :: string
  de_proxy_count :: int
  de_fernet :: "fernet option"
  de_check :: "string \<Rightarrow> string \<Rightarrow> bool"
  de_gen :: "string \<Rightarrow> string \<Rightarrow> string"
  de_decoy :: string
  de_iso :: "time \<Rightarrow> string"
  de_time_of :: "string \<Rightarrow> time"
  de_hex :: "string \<Rightarrow> string"
  de_wa :: wa_env

datatype sign_event = Audit string | Offense string

section \<open>Who owes a second factor\<close>

definition account :: "door \<Rightarrow> string \<Rightarrow> user option" where
  "account d name = map_of (pn_users (do_panel d)) name"

definition mfa_uid :: "door \<Rightarrow> string \<Rightarrow> string" where
  "mfa_uid d name = (case account d name of None \<Rightarrow> [] | Some u \<Rightarrow> us_uid u)"

definition mfa_enrolled :: "door \<Rightarrow> string \<Rightarrow> bool" where
  "mfa_enrolled d name = (mfa_uid d name \<noteq> [] \<and> ms_enrolled (mfa_status_of (do_mfa d) (mfa_uid d name)))"

definition mfa_policy :: "door_env \<Rightarrow> string" where
  "mfa_policy e =
     (let want = (if de_required e = [] then ''off'' else de_required e)
      in if \<not> List.member [''off'', ''admins'', ''all''] want then ''off''
         else if want \<noteq> ''off'' \<and> de_fernet e = None then ''off''
         else want)"

definition mfa_policy_applies :: "door_env \<Rightarrow> door \<Rightarrow> string \<Rightarrow> bool" where
  "mfa_policy_applies e d name =
     (let policy = mfa_policy e
      in if policy = ''all'' then True
         else if policy \<noteq> ''admins'' then False
         else case account d name of None \<Rightarrow> False | Some u \<Rightarrow> user_is_admin u (pn_groups (do_panel d)))"

definition mfa_provider_trusted :: "door_env \<Rightarrow> string \<Rightarrow> bool" where
  "mfa_provider_trusted e source = (List.member [''ldap'', ''oidc'', ''saml2''] source \<and> List.member (de_trusted e) source)"

definition mfa_must_enrol :: "door_env \<Rightarrow> door \<Rightarrow> string \<Rightarrow> string \<Rightarrow> bool" where
  "mfa_must_enrol e d name source =
     (if mfa_provider_trusted e source then False else mfa_policy_applies e d name \<and> \<not> mfa_enrolled d name)"

definition mfa_required :: "door_env \<Rightarrow> door \<Rightarrow> string \<Rightarrow> string \<Rightarrow> bool" where
  "mfa_required e d name source =
     (if mfa_provider_trusted e source then False else mfa_enrolled d name \<or> mfa_must_enrol e d name source)"

definition mfa_step_endpoint :: "door_env \<Rightarrow> door \<Rightarrow> string \<Rightarrow> string \<Rightarrow> string" where
  "mfa_step_endpoint e d name source = (if mfa_must_enrol e d name source then ''login_mfa_enrol'' else ''login_mfa'')"

record wa_scope =
  sc_ok :: bool
  sc_rp :: string
  sc_origin :: string
  sc_reason :: string
  sc_warning :: bool

definition webauthn_scope :: "door_env \<Rightarrow> wa_scope" where
  "webauthn_scope e =
     (let override = py_lower (py_strip (de_rp_override e));
          rp = (if override \<noteq> [] then override else rp_id_from (de_public_url e));
          origin = origin_from (de_public_url e);
          device = before_char (CHR '':'') (case cut_at ''://'' origin of None \<Rightarrow> [] | Some (_, r) \<Rightarrow> r)
      in if rp = [] then \<lparr>sc_ok = False, sc_rp = [], sc_origin = [], sc_reason = ''no_public_url'', sc_warning = False\<rparr>
         else if \<not> starts_with ''https://'' origin
         then \<lparr>sc_ok = False, sc_rp = rp, sc_origin = origin, sc_reason = ''not_https'', sc_warning = False\<rparr>
         else if device \<noteq> rp \<and> \<not> ends_with (CHR ''.'' # rp) device
         then \<lparr>sc_ok = False, sc_rp = rp, sc_origin = origin, sc_reason = ''rp_id_mismatch'', sc_warning = False\<rparr>
         else \<lparr>sc_ok = True, sc_rp = rp, sc_origin = origin, sc_reason = [], sc_warning = \<not> 0 < de_proxy_count e\<rparr>)"

section \<open>The sign-in that waits\<close>

definition hold_seconds :: int where "hold_seconds = 300"

definition mfa_hold_secs :: "door_env \<Rightarrow> int" where
  "mfa_hold_secs e = (case py_int (de_hold e) of None \<Rightarrow> hold_seconds | Some n \<Rightarrow> max 30 (min 3600 n))"

definition mfa_hold :: "door_env \<Rightarrow> string \<Rightarrow> string \<Rightarrow> bool \<Rightarrow> time \<Rightarrow> cookie \<Rightarrow> cookie" where
  "mfa_hold e name source remember now ck =
     ck\<lparr>ck_pending := Some \<lparr>pd_user = name, pd_source = (if source = [] then ''local'' else source), pd_remember = remember,
         pd_expires = now + of_int (mfa_hold_secs e), pd_challenge = []\<rparr>\<rparr>"

definition mfa_clear :: "cookie \<Rightarrow> cookie" where
  "mfa_clear ck = ck\<lparr>ck_pending := None\<rparr>"

definition mfa_pending :: "time \<Rightarrow> cookie \<Rightarrow> pending option \<times> cookie" where
  "mfa_pending now ck =
     (case ck_pending ck of
        None \<Rightarrow> (None, ck)
      | Some h \<Rightarrow> if pd_user h = [] then (None, ck)
          else if pd_expires h < now then (None, mfa_clear ck)
          else (Some h, ck))"

definition mfa_verify_pending :: "door_env \<Rightarrow> pending \<Rightarrow> string \<Rightarrow> time \<Rightarrow> door \<Rightarrow> mfa \<times> string" where
  "mfa_verify_pending e h c now d =
     (let uid = mfa_uid d (pd_user h)
      in if uid = [] then (do_mfa d, [])
         else svc_verify (de_fernet e) (de_check e) uid c now (de_iso e now) (do_mfa d))"

definition mfa_reset :: "string \<Rightarrow> door \<Rightarrow> bool \<times> door" where
  "mfa_reset name d =
     (let uid = mfa_uid d name
      in if uid = [] then (False, d)
         else (case store_delete uid [] (do_mfa d) of (st, gone) \<Rightarrow> (gone, d\<lparr>do_mfa := st\<rparr>)))"

section \<open>The password\<close>

definition set_account :: "string \<Rightarrow> user \<Rightarrow> door \<Rightarrow> door" where
  "set_account name u d = d\<lparr>do_panel := (do_panel d)\<lparr>pn_users := AList.update name u (pn_users (do_panel d))\<rparr>\<rparr>"

text \<open>The hash a password is checked against on an account that has none.\<close>

definition decoy_hash :: "door_env \<Rightarrow> door \<Rightarrow> string" where
  "decoy_hash e d =
     (case find (\<lambda>(n, u). us_hash u \<noteq> []) (pn_users (do_panel d)) of Some (n, u) \<Rightarrow> us_hash u | None \<Rightarrow> de_decoy e)"

definition own_or_decoy :: "door_env \<Rightarrow> door \<Rightarrow> user \<Rightarrow> string" where
  "own_or_decoy e d u = (if us_hash u = [] then decoy_hash e d else us_hash u)"

definition locked_out :: "door_env \<Rightarrow> user \<Rightarrow> time \<Rightarrow> bool" where
  "locked_out e u now = (case us_locked u of None \<Rightarrow> False | Some t \<Rightarrow> t \<noteq> [] \<and> now < de_time_of e t)"

definition lock_gone :: "user \<Rightarrow> user" where
  "lock_gone u = (case us_locked u of None \<Rightarrow> u | Some t \<Rightarrow> if t = [] then u else u\<lparr>us_locked := None, us_failed := None\<rparr>)"

definition authenticate :: "door_env \<Rightarrow> string \<Rightarrow> string \<Rightarrow> time \<Rightarrow> door \<Rightarrow> (string + user) \<times> door" where
  "authenticate e name password now d =
     (case account d name of
        None \<Rightarrow> (Inl ''user_not_found'', d)
      | Some u0 \<Rightarrow>
          if \<not> us_enabled u0 then (Inl ''account_disabled'', d)
          else if \<not> us_login u0 then (Inl ''login_disabled'', d)
          else if locked_out e u0 now then (Inl ''account_locked'', d)
          else let u = lock_gone u0; d1 = set_account name u d
            in if \<not> de_check e (own_or_decoy e d1 u) password
               then (if 0 < de_lock_max e
                     then let attempts = opt (us_failed u) 0 + 1; u1 = u\<lparr>us_failed := Some attempts\<rparr>
                       in if de_lock_max e \<le> attempts
                          then (Inl ''account_locked'',
                                set_account name (u1\<lparr>us_locked := Some (de_iso e (now + of_int (de_lock_secs e)))\<rparr>) d1)
                          else (Inl ''invalid_credentials'', set_account name u1 d1)
                     else (Inl ''invalid_credentials'', d1))
               else let u1 = (if us_failed u \<noteq> None then u\<lparr>us_failed := None\<rparr> else u\<lparr>us_locked := None\<rparr>)
                 in (Inr u1, set_account name u1 d1))"

text \<open>
  What the directory answers, if it is on and reachable: the attributes matched, or the reason it did not. Of a
  match, the account it belongs to (none when ambiguous) and that account after the synchronisation.
\<close>

datatype ldap_answer = Ldap_off | Ldap_refused string | Ldap_matched "(string \<times> (panel \<Rightarrow> panel \<times> user option)) option"

datatype login_result = Accepted user string string | Rejected string string

definition local_login :: "door_env \<Rightarrow> string \<Rightarrow> string \<Rightarrow> time \<Rightarrow> door \<Rightarrow> login_result \<times> door" where
  "local_login e name password now d =
     (case authenticate e name password now d of
        (Inr u, d') \<Rightarrow> (Accepted u (if us_source u = [] then ''local'' else us_source u) name, d')
      | (Inl reason, d') \<Rightarrow> (Rejected name reason, d'))"

definition resolve_login :: "door_env \<Rightarrow> ldap_answer \<Rightarrow> bool \<Rightarrow> string \<Rightarrow> string \<Rightarrow> time \<Rightarrow> door \<Rightarrow> login_result \<times> door" where
  "resolve_login e ldap fallback name password now d =
     (if is_reserved_username name then (Rejected name ''username_reserved'', d)
      else let existing = account d name
        in if ldap = Ldap_off \<or> (case existing of None \<Rightarrow> False | Some u \<Rightarrow> us_source u = ''local'')
           then local_login e name password now d
           else case ldap of
             Ldap_matched None \<Rightarrow> (Rejected name ''ldap_account_ambiguous'', d)
           | Ldap_matched (Some (canonical, sync)) \<Rightarrow>
               (case sync (do_panel d) of
                  (p', None) \<Rightarrow> (Rejected canonical ''ldap_account_conflict'', d\<lparr>do_panel := p'\<rparr>)
                | (p', Some u) \<Rightarrow>
                    if \<not> us_enabled u then (Rejected canonical ''account_disabled'', d\<lparr>do_panel := p'\<rparr>)
                    else if \<not> us_login u then (Rejected canonical ''login_disabled'', d\<lparr>do_panel := p'\<rparr>)
                    else (Accepted u ''ldap'' canonical, d\<lparr>do_panel := p'\<rparr>))
           | Ldap_refused reason \<Rightarrow>
               (if existing = None
                then (if reason = ''ldap_invalid_credentials'' \<or> reason = ''ldap_user_not_found'' \<or> \<not> fallback
                      then (Rejected name reason, d)
                      else local_login e name password now d)
                else (Rejected name reason, d))
           | Ldap_off \<Rightarrow> local_login e name password now d)"

section \<open>Where a session is born\<close>

text \<open>The draws of a request: a token and an identifier for a session, and the bytes of a challenge or a secret.\<close>

record draws =
  dw_token :: string
  dw_uid :: string
  dw_bytes :: "nat list"
  dw_codes :: "nat list list"
  dw_salts :: "(string \<times> string) list"
  dw_writes :: bool

definition rl_tag :: "string \<Rightarrow> string" where
  "rl_tag name = py_lower (py_strip name)"

definition establish_session :: "door_env \<Rightarrow> draws \<Rightarrow> string \<Rightarrow> string \<Rightarrow> string \<Rightarrow> bool \<Rightarrow> string \<Rightarrow> bool \<Rightarrow> time \<Rightarrow> cookie \<Rightarrow> door
    \<Rightarrow> bool \<times> cookie \<times> door" where
  "establish_session e w ip agent name remember source second_factor_done now ck d =
     (if \<not> second_factor_done \<and> mfa_required e d name source then (False, mfa_hold e name source remember now ck, d)
      else let owner = (case account d name of None \<Rightarrow> name | Some u \<Rightarrow> us_uid u);
               (reg, tb) = create_session (dw_token w) (dw_uid w) owner ip agent remember now (dw_writes w) (do_reg d) (do_table d)
        in (True, ck\<lparr>ck_token := dw_token w, ck_sid := dw_uid w, ck_logged := True, ck_user := name, ck_pending := None\<rparr>,
            d\<lparr>do_login_rl := rl_forget (do_login_rl d) (if ip = [] then ''?'' else ip) (rl_tag name),
              do_reg := reg, do_table := tb\<rparr>))"

section \<open>The routes\<close>

datatype reply = Redirect string | Page string | Json nat string

record http =
  ht_ip :: string
  ht_agent :: string
  ht_post :: bool
  ht_now :: time

type_synonym outcome = "reply \<times> cookie \<times> door \<times> sign_event list"

definition address :: "http \<Rightarrow> string" where
  "address h = (if ht_ip h = [] then ''?'' else ht_ip h)"

definition login_hit :: "door_env \<Rightarrow> http \<Rightarrow> string \<Rightarrow> door \<Rightarrow> bool \<times> door" where
  "login_hit e h name d =
     (case rl_hit (do_login_rl d) (address h) (de_login_max e) (of_int (de_login_window e)) (rl_tag name) (ht_now h) of
        ((ok, _), l) \<Rightarrow> (ok, d\<lparr>do_login_rl := l\<rparr>))"

definition mfa_key :: "door \<Rightarrow> string \<Rightarrow> string" where
  "mfa_key d name = (if mfa_uid d name = [] then rl_tag name else mfa_uid d name)"

definition mfa_account_ok :: "door_env \<Rightarrow> http \<Rightarrow> string \<Rightarrow> door \<Rightarrow> bool \<times> door" where
  "mfa_account_ok e h name d =
     (case rl_hit (do_mfa_rl d) (mfa_key d name) (de_lock_max e) (of_int (de_lock_secs e)) [] (ht_now h) of
        ((ok, _), l) \<Rightarrow> (ok, d\<lparr>do_mfa_rl := l\<rparr>))"

definition mfa_account_done :: "string \<Rightarrow> door \<Rightarrow> door" where
  "mfa_account_done name d = d\<lparr>do_mfa_rl := rl_reset (do_mfa_rl d) (mfa_key d name)\<rparr>"

definition throttled :: "sign_event list" where
  "throttled = [Audit ''login_throttled'', Offense ''login_throttled'']"

definition login_failed :: "sign_event list" where
  "login_failed = [Audit ''login_failed'', Offense ''login_failed'']"

definition mfa_failed :: "sign_event list" where
  "mfa_failed = [Audit ''mfa_failed'', Offense ''login_failed'']"

definition can_sign_in :: "user option \<Rightarrow> bool" where
  "can_sign_in u = (case u of None \<Rightarrow> False | Some x \<Rightarrow> us_enabled x \<and> us_login x)"

definition route_login :: "door_env \<Rightarrow> draws \<Rightarrow> ldap_answer \<Rightarrow> bool \<Rightarrow> http \<Rightarrow> string \<Rightarrow> string \<Rightarrow> bool \<Rightarrow> cookie \<Rightarrow> door \<Rightarrow> outcome" where
  "route_login e w ldap fallback h typed password remember ck d =
     (if ck_logged ck then (Redirect ''dashboard'', ck, d, [])
      else if \<not> ht_post h then (Page ''login.html'', ck, d, [])
      else let name = py_strip typed; (ok, d1) = login_hit e h name d
        in if \<not> ok then (Redirect ''login'', ck, d1, throttled)
           else case resolve_login e ldap fallback name password (ht_now h) d1 of
             (Rejected who reason, d2) \<Rightarrow> (Redirect ''login'', ck, d2, login_failed)
           | (Accepted u source who, d2) \<Rightarrow>
               (case establish_session e w (ht_ip h) (ht_agent h) who remember source False (ht_now h) ck d2 of
                  (True, ck', d3) \<Rightarrow> (Redirect ''landing'', ck', d3, [Audit ''login_ok''])
                | (False, ck', d3) \<Rightarrow> (Redirect (if mfa_must_enrol e d3 who source then ''login_mfa_enrol'' else ''login_mfa''), ck', d3, [])))"

text \<open>
  A callback of an identity provider: the account it vouches for after the synchronisation, or none. The
  exchange with the provider is not modelled; the three providers end the same way.
\<close>

definition route_sso :: "door_env \<Rightarrow> draws \<Rightarrow> http \<Rightarrow> string \<Rightarrow> string \<Rightarrow> (panel \<Rightarrow> panel \<times> user option) \<Rightarrow> cookie \<Rightarrow> door \<Rightarrow> outcome" where
  "route_sso e w h source name sync ck d =
     (case sync (do_panel d) of
        (p', None) \<Rightarrow> (Redirect ''login'', ck, d\<lparr>do_panel := p'\<rparr>, [Audit ''login_failed''])
      | (p', Some u) \<Rightarrow>
          if \<not> us_enabled u \<or> \<not> us_login u then (Redirect ''login'', ck, d\<lparr>do_panel := p'\<rparr>, [Audit ''login_failed''])
          else (case establish_session e w (ht_ip h) (ht_agent h) name False source False (ht_now h) ck (d\<lparr>do_panel := p'\<rparr>) of
                  (True, ck', d') \<Rightarrow> (Redirect ''landing'', ck', d', [Audit ''login_ok''])
                | (False, ck', d') \<Rightarrow> (Redirect (mfa_step_endpoint e d' name source), ck', d', [])))"

text \<open>What the last steps of a sign-in with a second factor share: the session, from the note of the first half.\<close>

definition finish_sign_in :: "door_env \<Rightarrow> draws \<Rightarrow> http \<Rightarrow> pending \<Rightarrow> cookie \<Rightarrow> door \<Rightarrow> cookie \<times> door" where
  "finish_sign_in e w h held ck d =
     (case establish_session e w (ht_ip h) (ht_agent h) (pd_user held) (pd_remember held) (pd_source held) True (ht_now h) (mfa_clear ck) d of
        (_, ck', d') \<Rightarrow> (ck', d'))"

definition route_login_mfa :: "door_env \<Rightarrow> draws \<Rightarrow> http \<Rightarrow> string \<Rightarrow> cookie \<Rightarrow> door \<Rightarrow> outcome" where
  "route_login_mfa e w h c ck0 d =
     (case mfa_pending (ht_now h) ck0 of
        (held, ck) \<Rightarrow>
          if ck_logged ck then (Redirect ''dashboard'', ck, d, [])
          else case held of
            None \<Rightarrow> (Redirect ''login'', ck, d, [])
          | Some p \<Rightarrow>
              let name = pd_user p
              in if \<not> mfa_enrolled d name \<and> mfa_step_endpoint e d name (pd_source p) = ''login_mfa_enrol''
                 then (Redirect ''login_mfa_enrol'', ck, d, [])
                 else if \<not> ht_post h then (Page ''login_mfa.html'', ck, d, [])
                 else let (ok, d1) = login_hit e h name d
                   in if \<not> ok then (Redirect ''login_mfa'', ck, d1, throttled)
                      else let (ok2, d2) = mfa_account_ok e h name d1
                        in if \<not> ok2 then (Redirect ''login'', mfa_clear ck, d2, throttled)
                           else let (st, kind) = mfa_verify_pending e p c (ht_now h) d2; d3 = d2\<lparr>do_mfa := st\<rparr>
                             in if kind = [] then (Redirect ''login_mfa'', ck, d3, mfa_failed)
                                else if \<not> can_sign_in (account d3 name)
                                then (Redirect ''login'', mfa_clear ck, d3, login_failed)
                                else let (ck', d') = finish_sign_in e w h p ck (mfa_account_done name d3)
                                  in (Redirect ''landing'', ck', d',
                                      (if kind = ''recovery'' then [Audit ''mfa_recovery_used''] else []) @ [Audit ''login_ok'']))"

text \<open>The digest of a challenge as it is stored; \<open>de_hex\<close> prints it.\<close>

definition route_webauthn_begin :: "door_env \<Rightarrow> draws \<Rightarrow> http \<Rightarrow> cookie \<Rightarrow> door \<Rightarrow> outcome" where
  "route_webauthn_begin e w h ck0 d =
     (case mfa_pending (ht_now h) ck0 of
        (None, ck) \<Rightarrow> (Json 403 ''no_pending'', ck, d, [])
      | (Some p, ck) \<Rightarrow>
          if ck_logged ck then (Json 403 ''no_pending'', ck, d, [])
          else let scope = webauthn_scope e; uid = mfa_uid d (pd_user p)
            in if \<not> sc_ok scope \<or> webauthn_credential (do_mfa d) uid = None
               then (Json 400 (if sc_reason scope = [] then ''not_enrolled'' else sc_reason scope), ck, d, [])
               else let challenge = new_challenge (dw_bytes w); (st, ok) = set_challenge (de_hex e) uid challenge (do_mfa d)
                 in if \<not> ok then (Json 400 ''not_enrolled'', ck, d\<lparr>do_mfa := st\<rparr>, [])
                    else (Json 200 challenge, ck\<lparr>ck_pending := Some (p\<lparr>pd_challenge := challenge\<rparr>)\<rparr>, d\<lparr>do_mfa := st\<rparr>, []))"

record assertion_body =
  ab_auth :: string
  ab_client :: string
  ab_signature :: string
  ab_credential :: string

text \<open>The answer to a challenge: the challenge is spent before the signature is looked at. An exception leaves
  what was done until then.\<close>

definition answer_challenge :: "door_env \<Rightarrow> pending \<Rightarrow> assertion_body \<Rightarrow> time \<Rightarrow> door \<Rightarrow> mfa \<times> bool wa_answer" where
  "answer_challenge e p b now d =
     (let uid = mfa_uid d (pd_user p); scope = webauthn_scope e;
          (st, spent) = consume_challenge (de_hex e) uid (pd_challenge p) (do_mfa d)
      in if \<not> spent then (st, Denied ''challenge_spent'' None)
         else webauthn_verify (de_wa e) uid (b64u_decode (ab_auth b)) (b64u_decode (ab_client b)) (b64u_decode (ab_signature b))
                (ab_credential b) (pd_challenge p) (sc_rp scope) (sc_origin scope) False (de_iso e now) st)"

definition route_webauthn_verify :: "door_env \<Rightarrow> draws \<Rightarrow> http \<Rightarrow> assertion_body \<Rightarrow> cookie \<Rightarrow> door \<Rightarrow> outcome" where
  "route_webauthn_verify e w h b ck0 d =
     (case mfa_pending (ht_now h) ck0 of
        (None, ck) \<Rightarrow> (Json 403 ''no_pending'', ck, d, [])
      | (Some p, ck) \<Rightarrow>
          if ck_logged ck then (Json 403 ''no_pending'', ck, d, [])
          else let name = pd_user p; (ok, d1) = login_hit e h name d
            in if \<not> ok then (Json 429 ''throttled'', ck, d1, throttled)
               else let (ok2, d2) = mfa_account_ok e h name d1
                 in if \<not> ok2 then (Json 429 ''throttled'', mfa_clear ck, d2, throttled)
                    else case answer_challenge e p b (ht_now h) d2 of
                      (st, Uncaught err) \<Rightarrow> (Json 500 [], ck, d2\<lparr>do_mfa := st\<rparr>, [])
                    | (st, Denied err detail) \<Rightarrow> (Json 403 ''bad_assertion'', ck, d2\<lparr>do_mfa := st\<rparr>, mfa_failed)
                    | (st, Granted uv) \<Rightarrow>
                        (let d3 = d2\<lparr>do_mfa := st\<rparr>
                         in if \<not> can_sign_in (account d3 name) then (Json 403 ''invalid'', mfa_clear ck, d3, login_failed)
                            else let (ck', d') = finish_sign_in e w h p ck (mfa_account_done name d3)
                              in (Json 200 ''landing'', ck', d', [Audit ''login_ok''])))"

definition route_mfa_enrol :: "door_env \<Rightarrow> draws \<Rightarrow> http \<Rightarrow> string \<Rightarrow> cookie \<Rightarrow> door \<Rightarrow> outcome" where
  "route_mfa_enrol e w h c ck0 d =
     (case mfa_pending (ht_now h) ck0 of
        (held, ck) \<Rightarrow>
          if ck_logged ck then (Redirect ''dashboard'', ck, d, [])
          else case held of
            None \<Rightarrow> (Redirect ''login'', ck, d, [])
          | Some p \<Rightarrow>
              let name = pd_user p; uid = mfa_uid d name
              in if mfa_enrolled d name then (Redirect ''login_mfa'', ck, d, [])
                 else if \<not> can_sign_in (account d name) then (Redirect ''login'', mfa_clear ck, d, [])
                 else if ht_post h
                 then let (ok, d1) = login_hit e h name d
                   in if \<not> ok then (Redirect ''login_mfa_enrol'', ck, d1, throttled)
                      else (case enroll_confirm (de_fernet e) (de_gen e) (dw_codes w) (dw_salts w) uid c (ht_now h)
                                   (de_iso e (ht_now h)) (do_mfa d1) of
                              (st, Inl err) \<Rightarrow> (Redirect ''login_mfa_enrol'', ck, d1\<lparr>do_mfa := st\<rparr>, mfa_failed)
                            | (st, Inr codes) \<Rightarrow>
                                (let (ck', d') = finish_sign_in e w h p ck (d1\<lparr>do_mfa := st\<rparr>)
                                 in (Page ''login_mfa_enrol.html'', ck', d', [Audit ''mfa_enrolled'', Audit ''login_ok''])))
                 else (case enroll_begin (de_fernet e) uid name [] (dw_bytes w) (dw_uid w) (de_iso e (ht_now h)) (do_mfa d) of
                         (st, Inl err) \<Rightarrow> (Redirect ''login'', mfa_clear ck, d\<lparr>do_mfa := st\<rparr>, [])
                       | (st, Inr en) \<Rightarrow> (Page ''login_mfa_enrol.html'', ck, d\<lparr>do_mfa := st\<rparr>, [])))"

definition route_logout :: "bool \<Rightarrow> cookie \<Rightarrow> door \<Rightarrow> outcome" where
  "route_logout writes ck d =
     (let (reg, tb) = (if ck_token ck = [] then (do_reg d, do_table d)
                       else snd (revoke_session (ck_token ck) writes (do_reg d) (do_table d)))
      in (Redirect ''login'', no_cookie, d\<lparr>do_reg := reg, do_table := tb\<rparr>, [Audit ''logout'']))"

end
