(* ===== verification/Sign_In_Proofs.thy ===== *)
theory Sign_In_Proofs
  imports Sign_In Mfa_Proofs
begin

text \<open>
  Who gets a session, over everything a browser may send: a request presents no cookie or any cookie the panel
  ever issued, an old one included, and accounts, second factors, limits and settings may be anything at each
  request.
\<close>

datatype asked =
    Rq_login ldap_answer bool string string bool
  | Rq_sso string string "panel \<Rightarrow> panel \<times> user option"
  | Rq_mfa string
  | Rq_key_begin
  | Rq_key_verify assertion_body
  | Rq_enrol string
  | Rq_logout

record exchange =
  ex_env :: door_env
  ex_draws :: draws
  ex_http :: http
  ex_request :: asked
  ex_door :: door
  ex_cookie :: cookie

definition answer_of :: "exchange \<Rightarrow> outcome" where
  "answer_of x =
     (case ex_request x of
        Rq_login ldap fallback name password remember \<Rightarrow>
          route_login (ex_env x) (ex_draws x) ldap fallback (ex_http x) name password remember (ex_cookie x) (ex_door x)
      | Rq_sso source name sync \<Rightarrow> route_sso (ex_env x) (ex_draws x) (ex_http x) source name sync (ex_cookie x) (ex_door x)
      | Rq_mfa c \<Rightarrow> route_login_mfa (ex_env x) (ex_draws x) (ex_http x) c (ex_cookie x) (ex_door x)
      | Rq_key_begin \<Rightarrow> route_webauthn_begin (ex_env x) (ex_draws x) (ex_http x) (ex_cookie x) (ex_door x)
      | Rq_key_verify b \<Rightarrow> route_webauthn_verify (ex_env x) (ex_draws x) (ex_http x) b (ex_cookie x) (ex_door x)
      | Rq_enrol c \<Rightarrow> route_mfa_enrol (ex_env x) (ex_draws x) (ex_http x) c (ex_cookie x) (ex_door x)
      | Rq_logout \<Rightarrow> route_logout (dw_writes (ex_draws x)) (ex_cookie x) (ex_door x))"

definition issued :: "exchange \<Rightarrow> cookie" where
  "issued x = fst (snd (answer_of x))"

definition door_after :: "exchange \<Rightarrow> door" where
  "door_after x = fst (snd (snd (answer_of x)))"

definition ex_at :: "exchange \<Rightarrow> time" where
  "ex_at x = ht_now (ex_http x)"

text \<open>A session is born: a cookie that is signed in where the presented one was not, or a token the registry did
  not hold.\<close>

definition session_born :: "exchange \<Rightarrow> bool" where
  "session_born x = (ck_logged (issued x) \<and> \<not> ck_logged (ex_cookie x)
     \<or> \<not> fst ` set (do_reg (door_after x)) \<subseteq> fst ` set (do_reg (ex_door x)))"

text \<open>The first half passed in this request: the password was accepted, or a provider vouched.\<close>

definition first_step :: "exchange \<Rightarrow> string \<Rightarrow> string \<Rightarrow> bool" where
  "first_step x name source =
     (case ex_request x of
        Rq_login ldap fallback typed password remember \<Rightarrow>
          (let who = py_strip typed; d = snd (login_hit (ex_env x) (ex_http x) who (ex_door x))
           in \<exists>u. fst (resolve_login (ex_env x) ldap fallback who password (ex_at x) d) = Accepted u source name)
      | Rq_sso src who sync \<Rightarrow>
          source = (if src = [] then ''local'' else src) \<and> who = name \<and> (\<exists>u. snd (sync (do_panel (ex_door x))) = Some u \<and> us_enabled u \<and> us_login u)
      | _ \<Rightarrow> False)"

text \<open>The second factor of the account was proved in this request, or one was set up on an account without one.\<close>

definition second_step :: "exchange \<Rightarrow> pending \<Rightarrow> bool" where
  "second_step x p =
     (let e = ex_env x; d = ex_door x; uid = mfa_uid d (pd_user p)
      in case ex_request x of
           Rq_mfa c \<Rightarrow> snd (mfa_verify_pending e p c (ex_at x) d) \<noteq> []
         | Rq_key_verify b \<Rightarrow> (\<exists>st uv. answer_challenge e p b (ex_at x) d = (st, Granted uv))
         | Rq_enrol c \<Rightarrow> \<not> mfa_enrolled d (pd_user p) \<and>
             (\<exists>st codes. enroll_confirm (de_fernet e) (de_gen e) (dw_codes (ex_draws x)) (dw_salts (ex_draws x)) uid c (ex_at x)
                (de_iso e (ex_at x)) (do_mfa d) = (st, Inr codes))
         | _ \<Rightarrow> False)"

text \<open>What can happen: the newest exchange first.\<close>

inductive browsing :: "exchange list \<Rightarrow> bool" where
  nothing: "browsing []"
| ask: "browsing (x # xs)" if "browsing xs" and "ex_cookie x = no_cookie \<or> (\<exists>y\<in>set xs. ex_cookie x = issued y)"


section \<open>What one request can do\<close>

lemma login_hit_keeps:
  assumes "login_hit e h name d = (ok, d')"
  shows "do_panel d' = do_panel d" and "do_mfa d' = do_mfa d" and "do_reg d' = do_reg d"
  using assms by (auto simp: login_hit_def split: prod.splits)

lemma account_ok_keeps:
  assumes "mfa_account_ok e h name d = (ok, d')"
  shows "do_panel d' = do_panel d" and "do_mfa d' = do_mfa d" and "do_reg d' = do_reg d"
  using assms by (auto simp: mfa_account_ok_def split: prod.splits)

lemma account_of_panel: "do_panel d' = do_panel d \<Longrightarrow> account d' = account d"
  by (rule ext) (simp add: account_def)

lemma uid_of_panel: "do_panel d' = do_panel d \<Longrightarrow> mfa_uid d' = mfa_uid d"
  by (rule ext) (simp add: mfa_uid_def account_def)

lemma enrolled_of_parts:
  assumes "do_panel d' = do_panel d" and "do_mfa d' = do_mfa d"
  shows "mfa_enrolled d' = mfa_enrolled d"
  by (rule ext) (simp only: mfa_enrolled_def uid_of_panel [OF assms(1)] assms(2))

lemma required_of_parts:
  assumes "do_panel d' = do_panel d" and "do_mfa d' = do_mfa d"
  shows "mfa_required e d' = mfa_required e d"
  by (intro ext) (simp only: mfa_required_def mfa_must_enrol_def mfa_policy_applies_def enrolled_of_parts [OF assms]
      account_of_panel [OF assms(1)] assms)

lemma verify_of_parts:
  assumes "do_panel d' = do_panel d" and "do_mfa d' = do_mfa d"
  shows "mfa_verify_pending e p c now d' = mfa_verify_pending e p c now d"
  by (simp only: mfa_verify_pending_def uid_of_panel [OF assms(1)] assms(2))

lemma answer_of_parts:
  assumes "do_panel d' = do_panel d" and "do_mfa d' = do_mfa d"
  shows "answer_challenge e p b now d' = answer_challenge e p b now d"
  by (simp only: answer_challenge_def uid_of_panel [OF assms(1)] assms(2))

lemma authenticate_keeps:
  assumes "authenticate e name password now d = (r, d')"
  shows "do_mfa d' = do_mfa d" and "do_reg d' = do_reg d"
proof -
  have "do_mfa (snd (authenticate e name password now d)) = do_mfa d \<and> do_reg (snd (authenticate e name password now d)) = do_reg d"
    by (cases "account d name") (simp_all add: authenticate_def set_account_def Let_def)
  thus "do_mfa d' = do_mfa d" and "do_reg d' = do_reg d" by (simp_all add: assms)
qed

lemma local_login_keeps:
  assumes "local_login e name password now d = (r, d')"
  shows "do_mfa d' = do_mfa d" and "do_reg d' = do_reg d"
  using assms authenticate_keeps
  by (fastforce simp: local_login_def split: prod.splits sum.splits)+

lemma resolve_keeps:
  assumes "resolve_login e ldap fallback name password now d = (r, d')"
  shows "do_mfa d' = do_mfa d" and "do_reg d' = do_reg d"
  using assms
  by (auto simp: resolve_login_def Let_def split: if_splits ldap_answer.splits option.splits prod.splits
      dest: local_login_keeps)

lemma resolve_source:
  assumes "resolve_login e ldap fallback name password now d = (Accepted u source who, d')"
  shows "source \<noteq> []"
  using assms
  by (auto simp: resolve_login_def local_login_def Let_def split: if_splits ldap_answer.splits option.splits prod.splits
      sum.splits)

lemma establish_cases:
  assumes "establish_session e w ip agent name remember source second now ck d = (ok, ck', d')"
  obtains (session) "ok" and "second \<or> \<not> mfa_required e d name source" and "ck_user ck' = name" and "ck_logged ck'"
      and "ck_pending ck' = None" and "do_panel d' = do_panel d" and "do_mfa d' = do_mfa d"
    | (parked) "\<not> ok" and "\<not> second" and "ck' = mfa_hold e name source remember now ck" and "d' = d"
  using assms
  by (auto simp: establish_session_def Let_def split: if_splits prod.splits)

text \<open>The four ends of a request.\<close>

definition quiet :: "exchange \<Rightarrow> bool" where
  "quiet x \<longleftrightarrow> (ck_logged (issued x) \<longrightarrow> ck_logged (ex_cookie x)) \<and>
     fst ` set (do_reg (door_after x)) \<subseteq> fst ` set (do_reg (ex_door x)) \<and>
     (\<forall>p. ck_pending (issued x) = Some p \<longrightarrow>
        (\<exists>q. ck_pending (ex_cookie x) = Some q \<and> pd_user p = pd_user q \<and> pd_source p = pd_source q \<and> pd_expires p = pd_expires q))"

definition parks :: "exchange \<Rightarrow> bool" where
  "parks x \<longleftrightarrow> (ck_logged (issued x) \<longrightarrow> ck_logged (ex_cookie x)) \<and> do_reg (door_after x) = do_reg (ex_door x) \<and>
     (\<exists>p. ck_pending (issued x) = Some p \<and> first_step x (pd_user p) (pd_source p) \<and>
        pd_expires p = ex_at x + of_int (mfa_hold_secs (ex_env x)))"

definition opens_at_once :: "exchange \<Rightarrow> bool" where
  "opens_at_once x \<longleftrightarrow> ck_logged (issued x) \<and> ck_pending (issued x) = None \<and>
     (\<exists>source. first_step x (ck_user (issued x)) source \<and>
        \<not> mfa_required (ex_env x) (door_after x) (ck_user (issued x)) source)"

definition opens_by_second :: "exchange \<Rightarrow> bool" where
  "opens_by_second x \<longleftrightarrow> ck_logged (issued x) \<and> ck_pending (issued x) = None \<and>
     (\<exists>p. ck_pending (ex_cookie x) = Some p \<and> pd_user p = ck_user (issued x) \<and> pd_user p \<noteq> [] \<and> ex_at x \<le> pd_expires p \<and>
        second_step x p \<and> can_sign_in (account (ex_door x) (pd_user p)))"

lemmas exchange_defs = answer_of_def issued_def door_after_def ex_at_def

lemma hold_fields:
  "ck_pending (mfa_hold e name source remember now ck) = Some \<lparr>pd_user = name,
     pd_source = (if source = [] then ''local'' else source), pd_remember = remember,
     pd_expires = now + of_int (mfa_hold_secs e), pd_challenge = []\<rparr>"
  "ck_logged (mfa_hold e name source remember now ck) = ck_logged ck"
  by (simp_all add: mfa_hold_def)

lemma quiet_same:
  assumes "issued x = ex_cookie x" and "do_reg (door_after x) = do_reg (ex_door x)"
  shows "quiet x"
  using assms by (simp add: quiet_def)

lemma login_ends:
  assumes rq: "ex_request x = Rq_login ldap fallback typed password remember"
  shows "quiet x \<or> parks x \<or> opens_at_once x"
proof (cases "ck_logged (ex_cookie x) \<or> \<not> ht_post (ex_http x)")
  case True
  then have "quiet x" by (intro quiet_same) (auto simp: exchange_defs rq route_login_def)
  thus ?thesis ..
next
  case False
  let ?name = "py_strip typed" and ?e = "ex_env x" and ?h = "ex_http x"
  obtain ok d1 where hit: "login_hit ?e ?h ?name (ex_door x) = (ok, d1)" by fastforce
  obtain r d2 where res: "resolve_login ?e ldap fallback ?name password (ht_now ?h) d1 = (r, d2)" by fastforce
  note kept = login_hit_keeps [OF hit] resolve_keeps [OF res]
  show ?thesis
  proof (cases "\<exists>u source who. ok \<and> r = Accepted u source who")
    case False
    with \<open>\<not> (ck_logged (ex_cookie x) \<or> \<not> ht_post (ex_http x))\<close> hit res kept have "quiet x"
      by (intro quiet_same) (cases r; auto simp: exchange_defs rq route_login_def)+
    thus ?thesis ..
  next
    case True
    then obtain u source who where ok: "ok" and r: "r = Accepted u source who" by blast
    obtain b ck' d' where est: "establish_session ?e (ex_draws x) (ht_ip ?h) (ht_agent ?h) who remember source False
        (ht_now ?h) (ex_cookie x) d2 = (b, ck', d')" by (metis prod_cases3)
    have fst: "first_step x who source"
      using hit res r by (auto simp: first_step_def rq Let_def ex_at_def)
    have iss: "issued x = ck'" and aft: "door_after x = d'"
      using False ok hit res r est by (cases b; simp add: exchange_defs rq route_login_def)+
    have "source \<noteq> []" using resolve_source res r by blast
    from est show ?thesis
    proof (cases rule: establish_cases)
      case session
      show ?thesis using fst session(2-5) by (auto simp: opens_at_once_def iss aft required_of_parts [OF session(6,7)])
    next
      case parked
      then show ?thesis using fst \<open>source \<noteq> []\<close> kept by (auto simp: parks_def iss aft hold_fields ex_at_def)
    qed
  qed
qed

lemma sso_ends:
  assumes rq: "ex_request x = Rq_sso src name sync"
  shows "quiet x \<or> parks x \<or> opens_at_once x"
proof -
  let ?e = "ex_env x" and ?h = "ex_http x"
  obtain p' r where s: "sync (do_panel (ex_door x)) = (p', r)" by fastforce
  show ?thesis
  proof (cases "\<exists>u. r = Some u \<and> us_enabled u \<and> us_login u")
    case False
    then have "quiet x"
      using s by (intro quiet_same) (auto simp: exchange_defs rq route_sso_def split: option.splits)
    thus ?thesis ..
  next
    case True
    then obtain u where r: "r = Some u" "us_enabled u" "us_login u" by blast
    obtain b ck' d' where est: "establish_session ?e (ex_draws x) (ht_ip ?h) (ht_agent ?h) name False src False
        (ht_now ?h) (ex_cookie x) (ex_door x\<lparr>do_panel := p'\<rparr>) = (b, ck', d')" by (metis prod_cases3)
    have fst: "first_step x name (if src = [] then ''local'' else src)" using s r by (simp add: first_step_def rq)
    have iss: "issued x = ck'" and aft: "door_after x = d'"
      using s r est by (cases b; simp add: exchange_defs rq route_sso_def)+
    from est show ?thesis
    proof (cases rule: establish_cases)
      case session
      have "mfa_required ?e (ex_door x\<lparr>do_panel := p'\<rparr>) name (if src = [] then ''local'' else src)
          = mfa_required ?e (ex_door x\<lparr>do_panel := p'\<rparr>) name src"
        by (auto simp: mfa_required_def mfa_must_enrol_def mfa_provider_trusted_def)
      with session(2-5) fst show ?thesis by (auto simp: opens_at_once_def iss aft required_of_parts [OF session(6,7)])
    next
      case parked
      then show ?thesis using fst by (auto simp: parks_def iss aft hold_fields ex_at_def)
    qed
  qed
qed

lemma quietI:
  assumes "ck_logged (issued x) = ck_logged (ex_cookie x)" and "do_reg (door_after x) = do_reg (ex_door x)"
    and "ck_pending (issued x) = None \<or> ck_pending (issued x) = ck_pending (ex_cookie x)"
  shows "quiet x"
  using assms by (auto simp: quiet_def)

lemma clear_fields [simp]:
  "ck_pending (mfa_clear ck) = None" "ck_logged (mfa_clear ck) = ck_logged ck"
  by (simp_all add: mfa_clear_def)

lemma done_fields [simp]:
  "do_reg (mfa_account_done name d) = do_reg d" "do_panel (mfa_account_done name d) = do_panel d"
  by (simp_all add: mfa_account_done_def)

lemma pending_cases:
  assumes "mfa_pending now ck = (held, ck')"
  obtains (none) "held = None" and "ck' = ck \<or> ck' = mfa_clear ck"
    | (some) p where "held = Some p" and "ck' = ck" and "ck_pending ck = Some p" and "pd_user p \<noteq> []" and "now \<le> pd_expires p"
proof (cases "ck_pending ck")
  case None
  then show ?thesis using assms none by (simp add: mfa_pending_def)
next
  case (Some q)
  show ?thesis
  proof (cases "pd_user q = [] \<or> pd_expires q < now")
    case True
    then show ?thesis using assms none Some by (auto simp: mfa_pending_def split: if_splits)
  next
    case False
    then show ?thesis using assms Some by (intro some [of q]) (auto simp: mfa_pending_def)
  qed
qed

lemma finish_fields:
  assumes "finish_sign_in e w h p ck d = (ck', d')"
  shows "ck_logged ck'" and "ck_user ck' = pd_user p" and "ck_pending ck' = None"
  using assms by (auto simp: finish_sign_in_def establish_session_def Let_def split: prod.splits)

lemma can_sign_in_panel: "do_panel d' = do_panel d \<Longrightarrow> can_sign_in (account d' name) = can_sign_in (account d name)"
  by (simp add: account_def)

lemma code_ends:
  assumes rq: "ex_request x = Rq_mfa c"
  shows "quiet x \<or> opens_by_second x"
proof -
  let ?e = "ex_env x" and ?h = "ex_http x" and ?d = "ex_door x"
  obtain held ck where pen: "mfa_pending (ht_now ?h) (ex_cookie x) = (held, ck)" by fastforce
  from pen show ?thesis
  proof (cases rule: pending_cases)
    case none
    then have "quiet x" using pen by (intro quietI) (auto simp: exchange_defs rq route_login_mfa_def)
    thus ?thesis ..
  next
    case (some p)
    obtain ok d1 where hit: "login_hit ?e ?h (pd_user p) ?d = (ok, d1)" by fastforce
    obtain ok2 d2 where acc: "mfa_account_ok ?e ?h (pd_user p) d1 = (ok2, d2)" by fastforce
    obtain st kind where ver: "mfa_verify_pending ?e p c (ht_now ?h) d2 = (st, kind)" by fastforce
    obtain ck' d' where fin: "finish_sign_in ?e (ex_draws x) ?h p ck (mfa_account_done (pd_user p) (d2\<lparr>do_mfa := st\<rparr>)) = (ck', d')"
      by fastforce
    note kept = login_hit_keeps [OF hit] account_ok_keeps [OF acc]
    have parts: "do_panel d2 = do_panel ?d" "do_mfa d2 = do_mfa ?d" using kept by simp_all
    have can: "can_sign_in (account (d2\<lparr>do_mfa := st\<rparr>) (pd_user p)) = can_sign_in (account ?d (pd_user p))"
      by (rule can_sign_in_panel) (simp add: parts)
    show ?thesis
    proof (cases "\<not> ck_logged ck \<and> (mfa_enrolled ?d (pd_user p) \<or> mfa_step_endpoint ?e ?d (pd_user p) (pd_source p) \<noteq> ''login_mfa_enrol'')
        \<and> ht_post ?h \<and> ok \<and> ok2 \<and> kind \<noteq> [] \<and> can_sign_in (account ?d (pd_user p))")
      case True
      then have "issued x = ck'"
        using pen some(1) hit acc ver fin can by (simp add: exchange_defs rq route_login_mfa_def Let_def) blast
      moreover have "second_step x p"
        using ver True by (simp add: second_step_def rq Let_def ex_at_def verify_of_parts [OF parts])
      ultimately show ?thesis
        using finish_fields [OF fin] some True by (auto simp: opens_by_second_def ex_at_def)
    next
      case False
      then have "quiet x"
        using pen some(1,2) hit acc ver can kept by (intro quietI) (auto simp: exchange_defs rq route_login_mfa_def Let_def)
      thus ?thesis ..
    qed
  qed
qed

lemma key_begin_ends:
  assumes rq: "ex_request x = Rq_key_begin"
  shows "quiet x"
proof -
  let ?e = "ex_env x" and ?h = "ex_http x" and ?d = "ex_door x"
  obtain held ck where pen: "mfa_pending (ht_now ?h) (ex_cookie x) = (held, ck)" by fastforce
  from pen show ?thesis
  proof (cases rule: pending_cases)
    case none
    then show ?thesis using pen by (intro quietI) (auto simp: exchange_defs rq route_webauthn_begin_def)
  next
    case (some p)
    then show ?thesis using pen
      by (auto simp: quiet_def exchange_defs rq route_webauthn_begin_def Let_def split: prod.splits)
  qed
qed

lemma key_verify_ends:
  assumes rq: "ex_request x = Rq_key_verify b"
  shows "quiet x \<or> opens_by_second x"
proof -
  let ?e = "ex_env x" and ?h = "ex_http x" and ?d = "ex_door x"
  obtain held ck where pen: "mfa_pending (ht_now ?h) (ex_cookie x) = (held, ck)" by fastforce
  from pen show ?thesis
  proof (cases rule: pending_cases)
    case none
    then have "quiet x" using pen by (intro quietI) (auto simp: exchange_defs rq route_webauthn_verify_def)
    thus ?thesis ..
  next
    case (some p)
    obtain ok d1 where hit: "login_hit ?e ?h (pd_user p) ?d = (ok, d1)" by fastforce
    obtain ok2 d2 where acc: "mfa_account_ok ?e ?h (pd_user p) d1 = (ok2, d2)" by fastforce
    obtain st out where ver: "answer_challenge ?e p b (ht_now ?h) d2 = (st, out)" by fastforce
    obtain ck' d' where fin: "finish_sign_in ?e (ex_draws x) ?h p ck (mfa_account_done (pd_user p) (d2\<lparr>do_mfa := st\<rparr>)) = (ck', d')"
      by fastforce
    note kept = login_hit_keeps [OF hit] account_ok_keeps [OF acc]
    have parts: "do_panel d2 = do_panel ?d" "do_mfa d2 = do_mfa ?d" using kept by simp_all
    have can: "can_sign_in (account (d2\<lparr>do_mfa := st\<rparr>) (pd_user p)) = can_sign_in (account ?d (pd_user p))"
      by (rule can_sign_in_panel) (simp add: parts)
    show ?thesis
    proof (cases "\<not> ck_logged ck \<and> ok \<and> ok2 \<and> (\<exists>uv. out = Granted uv) \<and> can_sign_in (account ?d (pd_user p))")
      case True
      then obtain uv where out: "out = Granted uv" by blast
      have "issued x = ck'"
        using pen some(1) hit acc ver fin can True out by (simp add: exchange_defs rq route_webauthn_verify_def Let_def)
      moreover have "second_step x p"
        using ver out by (simp add: second_step_def rq Let_def ex_at_def answer_of_parts [OF parts])
      ultimately show ?thesis
        using finish_fields [OF fin] some True by (auto simp: opens_by_second_def ex_at_def)
    next
      case False
      then have "quiet x"
        using pen some(1,2) hit acc ver can kept
        by (intro quietI; cases out) (auto simp: exchange_defs rq route_webauthn_verify_def Let_def)
      thus ?thesis ..
    qed
  qed
qed

lemma enrol_ends:
  assumes rq: "ex_request x = Rq_enrol c"
  shows "quiet x \<or> opens_by_second x"
proof -
  let ?e = "ex_env x" and ?h = "ex_http x" and ?d = "ex_door x" and ?w = "ex_draws x"
  obtain held ck where pen: "mfa_pending (ht_now ?h) (ex_cookie x) = (held, ck)" by fastforce
  from pen show ?thesis
  proof (cases rule: pending_cases)
    case none
    then have "quiet x" using pen by (intro quietI) (auto simp: exchange_defs rq route_mfa_enrol_def)
    thus ?thesis ..
  next
    case (some p)
    let ?uid = "mfa_uid ?d (pd_user p)"
    obtain ok d1 where hit: "login_hit ?e ?h (pd_user p) ?d = (ok, d1)" by fastforce
    note kept = login_hit_keeps [OF hit]
    obtain st out where con: "enroll_confirm (de_fernet ?e) (de_gen ?e) (dw_codes ?w) (dw_salts ?w) ?uid c (ht_now ?h)
        (de_iso ?e (ht_now ?h)) (do_mfa d1) = (st, out)" by fastforce
    obtain st2 out2 where beg: "enroll_begin (de_fernet ?e) ?uid (pd_user p) [] (dw_bytes ?w) (dw_uid ?w)
        (de_iso ?e (ht_now ?h)) (do_mfa ?d) = (st2, out2)" by fastforce
    obtain ck' d' where fin: "finish_sign_in ?e ?w ?h p ck (d1\<lparr>do_mfa := st\<rparr>) = (ck', d')" by fastforce
    show ?thesis
    proof (cases "\<not> ck_logged ck \<and> \<not> mfa_enrolled ?d (pd_user p) \<and> can_sign_in (account ?d (pd_user p)) \<and> ht_post ?h \<and> ok
        \<and> (\<exists>codes. out = Inr codes)")
      case True
      then obtain codes where out: "out = Inr codes" by blast
      have "issued x = ck'"
        using pen some(1) hit con fin True out by (simp add: exchange_defs rq route_mfa_enrol_def Let_def)
      moreover have "second_step x p"
        using con out True kept by (simp add: second_step_def rq Let_def ex_at_def)
      ultimately show ?thesis
        using finish_fields [OF fin] some True by (auto simp: opens_by_second_def ex_at_def)
    next
      case False
      then have "quiet x"
        using pen some(1,2) hit con beg kept
        by (intro quietI; cases out; cases out2) (auto simp: exchange_defs rq route_mfa_enrol_def Let_def)
      thus ?thesis ..
    qed
  qed
qed

lemma logout_ends:
  assumes rq: "ex_request x = Rq_logout"
  shows "quiet x"
proof -
  have "fst ` set (fst (snd (revoke_session t wr reg tb))) \<subseteq> fst ` set reg" for t wr reg tb
    by (auto simp: revoke_session_def AList.delete_eq)
  from this [of "ck_token (ex_cookie x)" "dw_writes (ex_draws x)" "do_reg (ex_door x)" "do_table (ex_door x)"] show ?thesis
    by (auto simp: quiet_def exchange_defs rq route_logout_def no_cookie_def image_subset_iff split: prod.splits if_splits)
qed

lemma exchange_ends: "quiet x \<or> parks x \<or> opens_at_once x \<or> opens_by_second x"
  by (cases "ex_request x")
    (use login_ends sso_ends code_ends key_begin_ends key_verify_ends enrol_ends logout_ends in blast)+

section \<open>Both halves\<close>

text \<open>Every note of a first half that some cookie still carries was written by a request that passed it.\<close>

definition vouched :: "exchange list \<Rightarrow> cookie \<Rightarrow> bool" where
  "vouched xs ck = (\<forall>p. ck_pending ck = Some p \<longrightarrow>
     (\<exists>y\<in>set xs. first_step y (pd_user p) (pd_source p) \<and> pd_expires p = ex_at y + of_int (mfa_hold_secs (ex_env y))))"

lemma vouched_grows: "vouched xs ck \<Longrightarrow> vouched (x # xs) ck"
  by (auto simp: vouched_def)

lemma vouched_issued:
  assumes "vouched xs (ex_cookie x)"
  shows "vouched (x # xs) (issued x)"
  using exchange_ends [of x]
proof (elim disjE)
  assume "quiet x"
  then show ?thesis using assms by (fastforce simp: quiet_def vouched_def)
qed (auto simp: parks_def opens_at_once_def opens_by_second_def vouched_def)

lemma browsing_vouched: "browsing xs \<Longrightarrow> \<forall>y\<in>set xs. vouched xs (issued y)"
proof (induction rule: browsing.induct)
  case (ask xs x)
  then have "vouched xs (ex_cookie x)" by (auto simp: vouched_def no_cookie_def)
  with ask.IH show ?case by (auto simp: vouched_issued vouched_grows)
qed simp

inductive_cases ask_cases: "browsing (x # xs)"

text \<open>C16.
  Whatever is sent, with whatever cookie the panel ever issued, and whatever happens to accounts and settings in
  between: a session is born only for an account whose first half passed in that very request and which owes no second
  factor, or for one that may sign in, whose second factor was proved in that request and whose first half passed in an
  earlier one, no longer ago than the hold and never more than an hour.\<close>

theorem session_needs_both:
  assumes run: "browsing (x # xs)" and born: "session_born x"
  shows "ck_logged (issued x)
    \<and> ((\<exists>source. first_step x (ck_user (issued x)) source
           \<and> \<not> mfa_required (ex_env x) (door_after x) (ck_user (issued x)) source)
      \<or> (\<exists>y\<in>set xs. \<exists>p. first_step y (pd_user p) (pd_source p) \<and> second_step x p \<and> pd_user p = ck_user (issued x)
           \<and> can_sign_in (account (ex_door x) (pd_user p)) \<and> ex_at x \<le> ex_at y + of_int (mfa_hold_secs (ex_env y))
           \<and> mfa_hold_secs (ex_env y) \<le> 3600))"
proof -
  from run have "browsing xs" and shown: "ex_cookie x = no_cookie \<or> (\<exists>y\<in>set xs. ex_cookie x = issued y)"
    by (auto elim: ask_cases)
  then have v: "vouched xs (ex_cookie x)" using browsing_vouched by (auto simp: vouched_def no_cookie_def)
  have hold: "mfa_hold_secs e \<le> 3600" for e by (auto simp: mfa_hold_secs_def hold_seconds_def split: option.splits)
  have "\<not> quiet x" and "\<not> parks x" using born by (auto simp: session_born_def quiet_def parks_def)
  then consider "opens_at_once x" | "opens_by_second x" using exchange_ends by blast
  then show ?thesis
  proof cases
    case 1
    then show ?thesis by (auto simp: opens_at_once_def)
  next
    case 2
    then obtain p where p: "ck_logged (issued x)" "ck_pending (ex_cookie x) = Some p" "pd_user p = ck_user (issued x)"
        "ex_at x \<le> pd_expires p" "second_step x p" "can_sign_in (account (ex_door x) (pd_user p))"
      by (auto simp: opens_by_second_def)
    with v obtain y where y: "y \<in> set xs" "first_step y (pd_user p) (pd_source p)"
        "pd_expires p = ex_at y + of_int (mfa_hold_secs (ex_env y))"
      by (auto simp: vouched_def)
    show ?thesis using p y(2) hold [of "ex_env y"] unfolding y(3) by (intro conjI disjI2 bexI [OF _ y(1)] exI [of _ p])
  qed
qed

text \<open>A provider vouches for an account that has a second factor, and a recovery code finishes.\<close>

definition ann_env :: door_env where
  "ann_env = \<lparr>de_required = ''off'', de_trusted = [], de_hold = JInt 300, de_lock_max = 0, de_lock_secs = 0, de_login_max = 0,
     de_login_window = 0, de_public_url = [], de_rp_override = [], de_proxy_count = 0, de_fernet = None, de_check = (=),
     de_gen = (\<lambda>p s. p), de_decoy = [], de_iso = (\<lambda>_. ''2024''), de_time_of = (\<lambda>_. 0), de_hex = (\<lambda>s. s), de_wa = demo_env\<rparr>"

definition ann_door :: door where
  "ann_door = \<lparr>do_panel = demo_people, do_mfa = one_code, do_login_rl = rl_init, do_mfa_rl = rl_init, do_reg = [],
     do_table = empty_table\<rparr>"

definition ann_asks :: "time \<Rightarrow> string \<Rightarrow> asked \<Rightarrow> cookie \<Rightarrow> exchange" where
  "ann_asks now token r ck =
     \<lparr>ex_env = ann_env,
      ex_draws = \<lparr>dw_token = token, dw_uid = token, dw_bytes = [], dw_codes = [], dw_salts = [], dw_writes = True\<rparr>,
      ex_http = \<lparr>ht_ip = ''ip'', ht_agent = [], ht_post = True, ht_now = now\<rparr>, ex_request = r, ex_door = ann_door, ex_cookie = ck\<rparr>"

definition ann_first :: exchange where
  "ann_first = ann_asks 0 ''t1'' (Rq_sso ''oidc'' ''ann'' (\<lambda>p. (p, map_of (pn_users p) ''ann''))) no_cookie"

definition ann_second :: exchange where
  "ann_second = ann_asks 100 ''t2'' (Rq_mfa ''ABCDE-23456'') (issued ann_first)"

lemma ann_parked:
  "issued ann_first = no_cookie\<lparr>ck_pending := Some \<lparr>pd_user = ''ann'', pd_source = ''oidc'', pd_remember = False,
     pd_expires = 300, pd_challenge = []\<rparr>\<rparr>"
  by (simp add: ann_first_def ann_asks_def exchange_defs route_sso_def ann_door_def demo_people_def demo_account_def
      establish_session_def mfa_required_def mfa_provider_trusted_def ann_env_def mfa_enrolled_def mfa_uid_def account_def
      mfa_status_of_def Let_def methods_of_def one_code_def new_factor_def mfa_hold_def mfa_hold_secs_def hold_seconds_def)

text \<open>The code \<open>ABCDE-23456\<close> of that account, at any time.\<close>

lemma one_code_proves: "snd (svc_verify None (=) ''u1'' ''ABCDE-23456'' now ''2024'' one_code) = ''recovery''"
proof -
  have "secret_bytes [] = []" by (simp add: secret_bytes_def py_upper_def drop_spaces_def)
  then have t: "totp_verify [] c now 30 6 1 (- 1) = None" for c now by (simp add: totp_verify_find)
  have n: "normalise_code ''ABCDE-23456'' = ''ABCDE23456''" by code_simp
  show ?thesis
    by (simp add: svc_verify_def factor_of_def one_code_def new_factor_def of_user_def totp_method_def unseal_def
        decrypt_field_def enc_prefix_def starts_with_def totp_period_def totp_digits_def totp_window_def t n
        recovery_unused_def unused_def consume_recovery_def Let_def)
qed

lemma ann_fields:
  "do_mfa ann_door = one_code" "de_fernet ann_env = None" "de_check ann_env = (=)" "de_iso ann_env now = ''2024''"
  "ex_env ann_second = ann_env" "ex_door ann_second = ann_door" "ex_cookie ann_second = issued ann_first"
  "ex_request ann_second = Rq_mfa ''ABCDE-23456''" "ht_now (ex_http ann_second) = 100" "ht_post (ex_http ann_second)"
  by (simp_all add: ann_door_def ann_env_def ann_second_def ann_asks_def)

lemma ann_uid: "mfa_uid ann_door ''ann'' = ''u1''"
  by (simp add: mfa_uid_def account_def ann_door_def demo_people_def demo_account_def)

lemma ann_has_factor: "mfa_enrolled ann_door ''ann''"
  by (simp add: mfa_enrolled_def ann_uid mfa_status_of_def Let_def methods_of_def ann_fields one_code_def new_factor_def totp_method_def)

lemma ann_proves: "snd (mfa_verify_pending ann_env \<lparr>pd_user = ''ann'', pd_source = s, pd_remember = r, pd_expires = x,
    pd_challenge = c\<rparr> ''ABCDE-23456'' now ann_door) = ''recovery''"
  using one_code_proves [of now] by (simp add: mfa_verify_pending_def ann_uid ann_fields)

lemma ann_done: "ck_logged (issued ann_second) \<and> ck_user (issued ann_second) = ''ann''"
proof -
  let ?p = "\<lparr>pd_user = ''ann'', pd_source = ''oidc'', pd_remember = False, pd_expires = 300, pd_challenge = []\<rparr>"
  obtain st where v: "mfa_verify_pending ann_env ?p ''ABCDE-23456'' 100 ann_door = (st, ''recovery'')"
    using ann_proves [of "''oidc''" False 300 "[]" 100] by (metis prod.collapse)
  have "account (ann_door\<lparr>do_mfa := st\<rparr>) ''ann'' = Some demo_account"
    by (simp add: account_def ann_door_def demo_people_def)
  then have can: "can_sign_in (account (ann_door\<lparr>do_mfa := st\<rparr>) ''ann'')" by (simp add: can_sign_in_def demo_account_def)
  have h: "login_hit ann_env h n ann_door = (True, ann_door)" "mfa_account_ok ann_env h n ann_door = (True, ann_door)" for h n
    by (simp_all add: login_hit_def mfa_account_ok_def rl_hit_def ann_env_def ann_door_def)
  obtain ck' d' where f: "finish_sign_in ann_env (ex_draws ann_second) (ex_http ann_second) ?p (issued ann_first)
      (mfa_account_done ''ann'' (ann_door\<lparr>do_mfa := st\<rparr>)) = (ck', d')" by fastforce
  have pend: "mfa_pending 100 (issued ann_first) = (Some ?p, issued ann_first)" by (simp add: mfa_pending_def ann_parked)
  have no_login: "\<not> ck_logged (issued ann_first)" by (simp add: ann_parked no_cookie_def)
  have "issued ann_second = ck'"
    using v can h f pend ann_has_factor
    by (simp add: issued_def [of ann_second] answer_of_def [of ann_second] ann_fields route_login_mfa_def Let_def no_login)
  with finish_fields [OF f] show ?thesis by simp
qed

theorem session_needs_both_witness:
  "session_born ann_second \<and> ck_user (issued ann_second) = ''ann'' \<and> mfa_required ann_env ann_door ''ann'' ''oidc''
   \<and> (\<exists>p. first_step ann_first (pd_user p) (pd_source p) \<and> second_step ann_second p \<and> pd_user p = ''ann''
        \<and> ex_at ann_second \<le> ex_at ann_first + of_int (mfa_hold_secs ann_env))"
proof -
  have run: "browsing (ann_second # [ann_first])"
    by (auto intro!: browsing.intros simp: ann_second_def ann_first_def ann_asks_def)
  have born: "session_born ann_second"
    using ann_done by (simp add: session_born_def ann_second_def ann_asks_def ann_parked no_cookie_def)
  have "\<not> first_step ann_second n s" for n s by (simp add: first_step_def ann_second_def ann_asks_def)
  moreover have "ex_env ann_first = ann_env" by (simp add: ann_first_def ann_asks_def)
  moreover have "mfa_required ann_env ann_door ''ann'' ''oidc''"
    using ann_has_factor by (simp add: mfa_required_def mfa_provider_trusted_def ann_env_def)
  ultimately show ?thesis using session_needs_both [OF run born] born ann_done by auto
qed

end
