(* ===== verification/Sign_In_Limits.thy ===== *)
theory Sign_In_Limits
  imports Sign_In_Proofs
begin

text \<open>
  How often one may try: the lockout of a local password, and the account's own limit on second factors.
\<close>

section \<open>The lockout of a local password\<close>

text \<open>A run of tries at one account: what each was told, and the panel after the last.\<close>

fun tries :: "door_env \<Rightarrow> string \<Rightarrow> (string \<times> time) list \<Rightarrow> door \<Rightarrow> (string + user) list \<times> door" where
  "tries e name [] d = ([], d)"
| "tries e name ((pw, t) # more_tries) d =
     (let (r, d1) = authenticate e name pw t d; (rs, d2) = tries e name more_tries d1 in (r # rs, d2))"

definition wrong_answer :: "int \<Rightarrow> int \<Rightarrow> string + user" where
  "wrong_answer m n = Inl (if m \<le> n then ''account_locked'' else ''invalid_credentials'')"

lemma account_set [simp]: "account (set_account name u d) n = (if n = name then Some u else account d n)"
  by (simp add: account_def set_account_def update_conv)

lemma set_account_twice [simp]: "set_account name u (set_account name v d) = set_account name u d"
  by (simp add: set_account_def)

text \<open>Failed tries leave every stored hash alone.\<close>

definition stored_hashes :: "door \<Rightarrow> (string \<times> string) list" where
  "stored_hashes d = map (\<lambda>(n, u). (n, us_hash u)) (pn_users (do_panel d))"

lemma update_same_hash:
  assumes "map_of us name = Some u0" and "us_hash u = us_hash u0"
  shows "map (\<lambda>(n, u). (n, us_hash u)) (AList.update name u us) = map (\<lambda>(n, u). (n, us_hash u)) us"
  using assms by (induction us) (auto split: if_splits)

lemma set_account_hashes:
  assumes "account d name = Some u0" and "us_hash u = us_hash u0"
  shows "stored_hashes (set_account name u d) = stored_hashes d"
  using update_same_hash [of "pn_users (do_panel d)" name u0 u] assms
  by (simp add: stored_hashes_def set_account_def account_def)

lemma decoy_of_hashes: "decoy_hash e d = (case find (\<lambda>(n, h). h \<noteq> []) (stored_hashes d) of Some (n, h) \<Rightarrow> h | None \<Rightarrow> de_decoy e)"
proof -
  have "find (\<lambda>(n, h). h \<noteq> []) (map (\<lambda>(n, u). (n, us_hash u)) us)
      = map_option (\<lambda>(n, u). (n, us_hash u)) (find (\<lambda>(n, u). us_hash u \<noteq> []) us)" for us :: "(string, user) dict"
    by (induction us) auto
  thus ?thesis by (simp add: decoy_hash_def stored_hashes_def split: option.splits)
qed

text \<open>An account that may sign in, with \<open>n\<close> failures behind it and no lock.\<close>

definition open_account :: "door \<Rightarrow> string \<Rightarrow> int \<Rightarrow> string \<Rightarrow> bool" where
  "open_account d name n h = (\<exists>u. account d name = Some u \<and> us_enabled u \<and> us_login u \<and> (us_locked u = None \<or> us_locked u = Some [])
     \<and> opt (us_failed u) 0 = n \<and> us_hash u = h)"

definition locked_until :: "door_env \<Rightarrow> door \<Rightarrow> string \<Rightarrow> time \<Rightarrow> bool" where
  "locked_until e d name t = (\<exists>u s. account d name = Some u \<and> us_enabled u \<and> us_login u \<and> us_locked u = Some s \<and> s \<noteq> []
     \<and> de_time_of e s = t)"

text \<open>The hash a password of that account is checked against.\<close>

definition checked_hash :: "door_env \<Rightarrow> door \<Rightarrow> string \<Rightarrow> string" where
  "checked_hash e d h = (if h = [] then decoy_hash e d else h)"

lemma one_wrong_try:
  assumes "open_account d name n h" and "0 < de_lock_max e" and "\<not> de_check e (checked_hash e d h) pw"
    and iso: "de_lock_max e \<le> n + 1 \<Longrightarrow> de_time_of e (de_iso e (t + of_int (de_lock_secs e))) = t + of_int (de_lock_secs e)
      \<and> de_iso e (t + of_int (de_lock_secs e)) \<noteq> []"
  obtains d' where "authenticate e name pw t d = (wrong_answer (de_lock_max e) (n + 1), d')"
    and "stored_hashes d' = stored_hashes d"
    and "n + 1 < de_lock_max e \<Longrightarrow> open_account d' name (n + 1) h"
    and "de_lock_max e \<le> n + 1 \<Longrightarrow> locked_until e d' name (t + of_int (de_lock_secs e))"
proof -
  from assms(1) obtain u where u: "account d name = Some u" "us_enabled u" "us_login u"
      "us_locked u = None \<or> us_locked u = Some []" "opt (us_failed u) 0 = n" "us_hash u = h"
    by (auto simp: open_account_def)
  have nl: "\<not> locked_out e u t" "lock_gone u = u" using u(4) by (auto simp: locked_out_def lock_gone_def)
  have dc: "own_or_decoy e (set_account name u d) u = checked_hash e d h"
    using set_account_hashes [OF u(1), of u] by (simp add: own_or_decoy_def checked_hash_def u(6) decoy_of_hashes)
  let ?u1 = "u\<lparr>us_failed := Some (n + 1)\<rparr>"
  let ?u2 = "if de_lock_max e \<le> n + 1 then ?u1\<lparr>us_locked := Some (de_iso e (t + of_int (de_lock_secs e)))\<rparr> else ?u1"
  show ?thesis
  proof (rule that [of "set_account name ?u2 d"])
    show "authenticate e name pw t d = (wrong_answer (de_lock_max e) (n + 1), set_account name ?u2 d)"
      using u(1-3,5) nl dc assms(2,3) by (simp add: authenticate_def Let_def wrong_answer_def)
    show "stored_hashes (set_account name ?u2 d) = stored_hashes d" by (rule set_account_hashes [OF u(1)]) simp
    show "open_account (set_account name ?u2 d) name (n + 1) h" if "n + 1 < de_lock_max e"
      using that u by (auto simp: open_account_def opt_def)
    show "locked_until e (set_account name ?u2 d) name (t + of_int (de_lock_secs e))" if "de_lock_max e \<le> n + 1"
      using that u iso by (auto simp: locked_until_def)
  qed
qed

lemma right_try:
  assumes "open_account d name n h" and "de_check e (checked_hash e d h) pw"
  shows "\<exists>u d'. authenticate e name pw t d = (Inr u, d') \<and> open_account d' name 0 h \<and> us_failed u = None"
proof -
  from assms(1) obtain u where u: "account d name = Some u" "us_enabled u" "us_login u"
      "us_locked u = None \<or> us_locked u = Some []" "opt (us_failed u) 0 = n" "us_hash u = h"
    by (auto simp: open_account_def)
  have nl: "\<not> locked_out e u t" "lock_gone u = u" using u(4) by (auto simp: locked_out_def lock_gone_def)
  have dc: "own_or_decoy e (set_account name u d) u = checked_hash e d h"
    using set_account_hashes [OF u(1), of u] by (simp add: own_or_decoy_def checked_hash_def u(6) decoy_of_hashes)
  show ?thesis using u nl dc assms(2) by (auto simp: authenticate_def Let_def open_account_def opt_def split: option.splits)
qed

lemma try_while_locked:
  assumes "locked_until e d name t" and "now < t"
  shows "authenticate e name pw now d = (Inl ''account_locked'', d)"
  using assms by (auto simp: locked_until_def authenticate_def locked_out_def)

lemma try_after_lock:
  assumes "locked_until e d name t" and "t \<le> now" and "account d name = Some u" and "us_hash u = h"
    and "de_check e (checked_hash e d h) pw"
  shows "\<exists>u' d'. authenticate e name pw now d = (Inr u', d') \<and> open_account d' name 0 h"
proof -
  from assms obtain s where u: "us_enabled u" "us_login u" "us_locked u = Some s" "s \<noteq> []" "de_time_of e s = t"
    by (auto simp: locked_until_def)
  have dc: "own_or_decoy e (set_account name (lock_gone u) d) (lock_gone u) = checked_hash e d h"
    using set_account_hashes [OF assms(3), of "lock_gone u"] u(3,4) assms(4)
    by (simp add: own_or_decoy_def checked_hash_def decoy_of_hashes lock_gone_def)
  show ?thesis using u dc assms(2-5)
    by (auto simp: authenticate_def Let_def locked_out_def lock_gone_def open_account_def opt_def)
qed

text \<open>
  A note on accounts with no password of their own: a password is checked against another hash, so the one
  that opens that hash opens the account.
\<close>

lemma passwordless_opened:
  assumes "open_account d name n []" and "de_check e (decoy_hash e d) pw"
  shows "\<exists>u d'. authenticate e name pw t d = (Inr u, d')"
  using right_try [OF assms(1), of e pw t] assms(2) by (auto simp: checked_hash_def)

lemma wrong_run:
  assumes "open_account d name n h" and "h \<noteq> []" and "0 < de_lock_max e"
    and "list_all (\<lambda>(pw, t). \<not> de_check e h pw) guesses" and "n + int (length guesses) \<le> de_lock_max e"
    and "let over = snd (last guesses) + of_int (de_lock_secs e) in de_time_of e (de_iso e over) = over \<and> de_iso e over \<noteq> []"
  shows "\<exists>d'. tries e name guesses d = (map (\<lambda>i. wrong_answer (de_lock_max e) (n + int i)) [1..<Suc (length guesses)], d')
    \<and> (n + int (length guesses) < de_lock_max e \<longrightarrow> open_account d' name (n + int (length guesses)) h)
    \<and> (guesses \<noteq> [] \<and> n + int (length guesses) = de_lock_max e \<longrightarrow>
         locked_until e d' name (snd (last guesses) + of_int (de_lock_secs e)) \<and> (\<exists>u. account d' name = Some u \<and> us_hash u = h))"
  using assms(1,4,5,6)
proof (induction guesses arbitrary: d n)
  case Nil
  then show ?case by simp
next
  case (Cons g rest)
  obtain pw t where g: "g = (pw, t)" by fastforce
  have wrong: "\<not> de_check e (checked_hash e d h) pw" using Cons.prems(2) g assms(2) by (simp add: checked_hash_def)
  have iso: "de_time_of e (de_iso e (t + of_int (de_lock_secs e))) = t + of_int (de_lock_secs e)
      \<and> de_iso e (t + of_int (de_lock_secs e)) \<noteq> []" if "de_lock_max e \<le> n + 1"
  proof -
    have "rest = []" using that Cons.prems(3) by (cases rest) auto
    with Cons.prems(4) g show ?thesis by (simp add: Let_def)
  qed
  from one_wrong_try [OF Cons.prems(1) assms(3) wrong iso] obtain d1 where
    d1: "authenticate e name pw t d = (wrong_answer (de_lock_max e) (n + 1), d1)" "stored_hashes d1 = stored_hashes d"
      "n + 1 < de_lock_max e \<Longrightarrow> open_account d1 name (n + 1) h"
      "de_lock_max e \<le> n + 1 \<Longrightarrow> locked_until e d1 name (t + of_int (de_lock_secs e))"
    by metis
  show ?case
  proof (cases "rest = []")
    case True
    have "\<exists>u. account d1 name = Some u \<and> us_hash u = h"
    proof -
      have m: "map_of (stored_hashes x) name = map_option us_hash (account x name)" for x
        by (simp add: stored_hashes_def account_def map_of_map)
      from Cons.prems(1) have "map_option us_hash (account d name) = Some h" by (auto simp: open_account_def)
      then show ?thesis using m [of d] m [of d1] d1(2) by (cases "account d1 name") auto
    qed
    then show ?thesis using True g d1 Cons.prems(3) by (simp add: Let_def)
  next
    case False
    then have "n + 1 < de_lock_max e" using Cons.prems(3) by (cases rest) auto
    note IH = Cons.IH [OF d1(3) [OF this]]
    have "list_all (\<lambda>(pw, t). \<not> de_check e h pw) rest" "n + 1 + int (length rest) \<le> de_lock_max e"
        "let over = snd (last rest) + of_int (de_lock_secs e) in de_time_of e (de_iso e over) = over \<and> de_iso e over \<noteq> []"
      using Cons.prems False by simp_all
    from IH [OF this] obtain d' where
      d': "tries e name rest d1 = (map (\<lambda>i. wrong_answer (de_lock_max e) (n + 1 + int i)) [1..<Suc (length rest)], d')"
        "n + 1 + int (length rest) < de_lock_max e \<Longrightarrow> open_account d' name (n + 1 + int (length rest)) h"
        "n + 1 + int (length rest) = de_lock_max e \<Longrightarrow>
           locked_until e d' name (snd (last rest) + of_int (de_lock_secs e)) \<and> (\<exists>u. account d' name = Some u \<and> us_hash u = h)"
      using False by auto
    have "map (\<lambda>i. wrong_answer (de_lock_max e) (n + int i)) [1..<Suc (length (g # rest))]
        = wrong_answer (de_lock_max e) (n + 1) # map (\<lambda>i. wrong_answer (de_lock_max e) (n + 1 + int i)) [1..<Suc (length rest)]"
      by (rule nth_equalityI) (auto simp: nth_Cons' algebra_simps simp del: upt_Suc)
    then show ?thesis using g d1(1) d' False by (auto simp: Let_def algebra_simps)
  qed
qed

text \<open>C21.
  An account with a password of its own, and no failure behind it, is told of each wrong password that it is wrong
  and, from the configured number on, that the account is locked. One try less, and the right password still opens
  it and clears the count. At that number nothing opens it, the right password included, until the configured time
  has passed since the last of them; from then on the right password does.\<close>

theorem lockout_exact:
  assumes "open_account d name 0 h" and "h \<noteq> []" and "0 < de_lock_max e"
    and "list_all (\<lambda>(pw, t). \<not> de_check e h pw) guesses" and "int (length guesses) \<le> de_lock_max e"
    and "let over = snd (last guesses) + of_int (de_lock_secs e) in de_time_of e (de_iso e over) = over \<and> de_iso e over \<noteq> []"
  shows "\<exists>d'. tries e name guesses d =
       (map (\<lambda>i. Inl (if de_lock_max e \<le> int i then ''account_locked'' else ''invalid_credentials'')) [1..<Suc (length guesses)], d')
    \<and> (int (length guesses) < de_lock_max e \<longrightarrow>
         (\<forall>pw t. de_check e h pw \<longrightarrow> (\<exists>u d''. authenticate e name pw t d' = (Inr u, d'') \<and> us_failed u = None)))
    \<and> (int (length guesses) = de_lock_max e \<longrightarrow>
         (let over = snd (last guesses) + of_int (de_lock_secs e)
          in (\<forall>pw now. now < over \<longrightarrow> authenticate e name pw now d' = (Inl ''account_locked'', d'))
           \<and> (\<forall>pw now. over \<le> now \<and> de_check e h pw \<longrightarrow> (\<exists>u d''. authenticate e name pw now d' = (Inr u, d'')))))"
proof -
  from wrong_run [OF assms(1-4) _ assms(6)] assms(5) obtain d' where
    run: "tries e name guesses d = (map (\<lambda>i. wrong_answer (de_lock_max e) (0 + int i)) [1..<Suc (length guesses)], d')"
    and before: "int (length guesses) < de_lock_max e \<Longrightarrow> open_account d' name (int (length guesses)) h"
    and full: "guesses \<noteq> [] \<Longrightarrow> int (length guesses) = de_lock_max e \<Longrightarrow>
         locked_until e d' name (snd (last guesses) + of_int (de_lock_secs e)) \<and> (\<exists>u. account d' name = Some u \<and> us_hash u = h)"
    by auto
  have check: "de_check e (checked_hash e x h) pw = de_check e h pw" for x pw using assms(2) by (simp add: checked_hash_def)
  have "guesses \<noteq> []" if "int (length guesses) = de_lock_max e" using that assms(3) by auto
  note locked = full [OF this]
  have "\<exists>u d''. authenticate e name pw t d' = (Inr u, d'') \<and> us_failed u = None"
    if "int (length guesses) < de_lock_max e" "de_check e h pw" for pw t
    using right_try [OF before] that check by blast
  moreover have "authenticate e name pw now d' = (Inl ''account_locked'', d')"
    if "int (length guesses) = de_lock_max e" "now < snd (last guesses) + of_int (de_lock_secs e)" for pw now
    using try_while_locked locked that by blast
  moreover have "\<exists>u d''. authenticate e name pw now d' = (Inr u, d'')"
    if "int (length guesses) = de_lock_max e" "snd (last guesses) + of_int (de_lock_secs e) \<le> now" "de_check e h pw" for pw now
    using try_after_lock locked that check by blast
  ultimately show ?thesis using run by (simp add: wrong_answer_def Let_def)
qed

definition bob_env :: door_env where
  "bob_env = ann_env\<lparr>de_lock_max := 2, de_lock_secs := 60, de_time_of := (\<lambda>_. 62)\<rparr>"

definition bob_door :: door where
  "bob_door = ann_door\<lparr>do_panel := demo_people\<lparr>pn_users := [(''bob'', demo_account\<lparr>us_hash := ''pw''\<rparr>)]\<rparr>\<rparr>"

theorem lockout_exact_witness:
  "\<exists>d'. tries bob_env ''bob'' [(''a'', 1), (''b'', 2)] bob_door = ([Inl ''invalid_credentials'', Inl ''account_locked''], d')
    \<and> authenticate bob_env ''bob'' ''pw'' 61 d' = (Inl ''account_locked'', d')
    \<and> (\<exists>u d''. authenticate bob_env ''bob'' ''pw'' 62 d' = (Inr u, d''))"
proof -
  have h: "open_account bob_door ''bob'' 0 ''pw''" "''pw'' \<noteq> []" "0 < de_lock_max bob_env"
    "list_all (\<lambda>(pw, t). \<not> de_check bob_env ''pw'' pw) [(''a'', 1), (''b'', 2)]"
    "int (length [(''a'', 1 :: time), (''b'', 2)]) \<le> de_lock_max bob_env"
    "let over = snd (last [(''a'', 1 :: time), (''b'', 2)]) + of_int (de_lock_secs bob_env)
     in de_time_of bob_env (de_iso bob_env over) = over \<and> de_iso bob_env over \<noteq> []"
    by (simp_all add: open_account_def bob_door_def account_def demo_account_def opt_def bob_env_def ann_env_def)
  have m: "de_lock_max bob_env = 2" "de_lock_secs bob_env = 60" "de_check bob_env = (=)" by (simp_all add: bob_env_def ann_env_def)
  from lockout_exact [OF h] show ?thesis by (auto simp: m numeral_2_eq_2)
qed

section \<open>Guesses at a second factor\<close>

text \<open>The account a request answers for, by the note its cookie carries.\<close>

definition answers_for :: "exchange \<Rightarrow> string \<Rightarrow> bool" where
  "answers_for x u = (case fst (mfa_pending (ex_at x) (ex_cookie x)) of
     None \<Rightarrow> False | Some p \<Rightarrow> mfa_key (ex_door x) (pd_user p) = u)"

text \<open>A code or an assertion that was looked at and did not do, an exception included.\<close>

definition wrong_factor :: "exchange \<Rightarrow> string \<Rightarrow> bool" where
  "wrong_factor x u = (answers_for x u \<and>
     (case ex_request x of
        Rq_mfa c \<Rightarrow> snd (snd (snd (answer_of x))) = mfa_failed
      | Rq_key_verify b \<Rightarrow> snd (snd (snd (answer_of x))) = mfa_failed \<or> fst (answer_of x) = Json 500 []
      | _ \<Rightarrow> False))"

definition right_factor :: "exchange \<Rightarrow> string \<Rightarrow> bool" where
  "right_factor x u = (answers_for x u \<and> \<not> ck_logged (ex_cookie x) \<and> ck_logged (issued x)
     \<and> (\<exists>c b. ex_request x = Rq_mfa c \<or> ex_request x = Rq_key_verify b))"

definition limit_hit :: "exchange \<Rightarrow> string \<Rightarrow> (bool \<times> int) \<times> limiter" where
  "limit_hit x k = rl_hit (do_mfa_rl (ex_door x)) k (de_lock_max (ex_env x)) (of_int (de_lock_secs (ex_env x))) [] (ex_at x)"

text \<open>What one request does to the limiter of the accounts.\<close>

definition limit_step :: "exchange \<Rightarrow> bool" where
  "limit_step x \<longleftrightarrow>
     do_mfa_rl (door_after x) = do_mfa_rl (ex_door x) \<and> (\<forall>u. \<not> wrong_factor x u)
   \<or> (\<exists>k. do_mfa_rl (door_after x) = snd (limit_hit x k) \<and> (\<forall>u. wrong_factor x u \<longrightarrow> u = k \<and> fst (fst (limit_hit x k))))
   \<or> (\<exists>k. do_mfa_rl (door_after x) = rl_reset (snd (limit_hit x k)) k \<and> right_factor x k \<and> (\<forall>u. \<not> wrong_factor x u))"

lemma login_hit_limit: "login_hit e h name d = (ok, d') \<Longrightarrow> do_mfa_rl d' = do_mfa_rl d"
  by (auto simp: login_hit_def split: prod.splits)

lemma authenticate_limit: "do_mfa_rl (snd (authenticate e name password now d)) = do_mfa_rl d"
  by (cases "account d name") (simp_all add: authenticate_def set_account_def Let_def)

lemma local_login_limit: "do_mfa_rl (snd (local_login e name password now d)) = do_mfa_rl d"
  using authenticate_limit [of e name password now d]
  by (auto simp: local_login_def split: prod.splits sum.splits)

lemma resolve_limit: "do_mfa_rl (snd (resolve_login e ldap fallback name password now d)) = do_mfa_rl d"
  by (simp add: resolve_login_def Let_def local_login_limit split: ldap_answer.splits option.splits prod.splits)

lemma establish_limit:
  "establish_session e w ip agent name remember source second now ck d = (ok, ck', d') \<Longrightarrow> do_mfa_rl d' = do_mfa_rl d"
  by (auto simp: establish_session_def Let_def split: if_splits prod.splits)

lemma account_ok_limit:
  assumes "mfa_account_ok e h name d = (ok, d')"
  shows "ok = fst (fst (rl_hit (do_mfa_rl d) (mfa_key d name) (de_lock_max e) (of_int (de_lock_secs e)) [] (ht_now h)))"
    and "do_mfa_rl d' = snd (rl_hit (do_mfa_rl d) (mfa_key d name) (de_lock_max e) (of_int (de_lock_secs e)) [] (ht_now h))"
  using assms by (auto simp: mfa_account_ok_def split: prod.splits)

lemma finish_limit: "finish_sign_in e w h p ck d = (ck', d') \<Longrightarrow> do_mfa_rl d' = do_mfa_rl d"
  by (auto simp: finish_sign_in_def dest: establish_limit split: prod.splits)

lemma key_of_panel: "do_panel d' = do_panel d \<Longrightarrow> mfa_key d' name = mfa_key d name"
  by (simp add: mfa_key_def mfa_uid_def account_def)

lemma route_login_limit: "do_mfa_rl (fst (snd (snd (route_login e w ldap fallback h typed password remember ck d)))) = do_mfa_rl d"
proof -
  have r: "do_mfa_rl d2 = do_mfa_rl d1" if "resolve_login e ldap fallback n password now d1 = (res, d2)" for n now d1 d2 res
    using resolve_limit [of e ldap fallback n password now d1] that by simp
  show ?thesis
    by (auto simp: route_login_def Let_def dest!: login_hit_limit r establish_limit split: prod.splits login_result.splits bool.splits)
qed

lemma route_sso_limit: "do_mfa_rl (fst (snd (snd (route_sso e w h source name sync ck d)))) = do_mfa_rl d"
  by (auto simp: route_sso_def dest!: establish_limit split: prod.splits option.splits bool.splits)

lemma route_enrol_limit: "do_mfa_rl (fst (snd (snd (route_mfa_enrol e w h c ck d)))) = do_mfa_rl d"
  by (auto simp: route_mfa_enrol_def Let_def dest!: login_hit_limit finish_limit split: prod.splits option.splits sum.splits)

lemma limit_quiet:
  assumes "do_mfa_rl (door_after x) = do_mfa_rl (ex_door x)" and "\<And>u. \<not> wrong_factor x u"
  shows "limit_step x"
  using assms by (simp add: limit_step_def)

lemmas event_lists = mfa_failed_def throttled_def login_failed_def

lemma code_limit:
  assumes rq: "ex_request x = Rq_mfa c"
  shows "limit_step x"
proof -
  let ?e = "ex_env x" and ?h = "ex_http x" and ?d = "ex_door x"
  obtain held ck where pen: "mfa_pending (ht_now ?h) (ex_cookie x) = (held, ck)" by fastforce
  from pen show ?thesis
  proof (cases rule: pending_cases)
    case none
    then show ?thesis using pen
      by (intro limit_quiet) (auto simp: exchange_defs rq route_login_mfa_def wrong_factor_def answers_for_def)
  next
    case (some p)
    let ?k = "mfa_key ?d (pd_user p)"
    obtain ok d1 where hit: "login_hit ?e ?h (pd_user p) ?d = (ok, d1)" by fastforce
    obtain ok2 d2 where acc: "mfa_account_ok ?e ?h (pd_user p) d1 = (ok2, d2)" by fastforce
    obtain st kind where ver: "mfa_verify_pending ?e p c (ht_now ?h) d2 = (st, kind)" by fastforce
    obtain ck' d' where fin: "finish_sign_in ?e (ex_draws x) ?h p ck (mfa_account_done (pd_user p) (d2\<lparr>do_mfa := st\<rparr>)) = (ck', d')"
      by fastforce
    note kept = login_hit_keeps [OF hit] account_ok_keeps [OF acc]
    have for_key: "answers_for x u \<longleftrightarrow> u = ?k" for u using pen some(1) by (auto simp: answers_for_def ex_at_def)
    have key1: "mfa_key d1 (pd_user p) = ?k" and key2: "mfa_key (d2\<lparr>do_mfa := st\<rparr>) (pd_user p) = ?k"
      by (simp_all add: mfa_key_def mfa_uid_def account_def kept)
    have lim: "ok2 = fst (fst (limit_hit x ?k))" "do_mfa_rl d2 = snd (limit_hit x ?k)"
      using account_ok_limit [OF acc] by (simp_all only: key1 login_hit_limit [OF hit] limit_hit_def ex_at_def)
    have out: "do_mfa_rl d' = rl_reset (snd (limit_hit x ?k)) ?k"
      using finish_limit [OF fin] key2 lim(2) by (simp add: mfa_account_done_def)
    consider (early) "ck_logged ck \<or> \<not> mfa_enrolled ?d (pd_user p) \<and> mfa_step_endpoint ?e ?d (pd_user p) (pd_source p) = ''login_mfa_enrol''
          \<or> \<not> ht_post ?h \<or> \<not> ok"
      | (tried) "\<not> (ck_logged ck \<or> \<not> mfa_enrolled ?d (pd_user p) \<and> mfa_step_endpoint ?e ?d (pd_user p) (pd_source p) = ''login_mfa_enrol''
          \<or> \<not> ht_post ?h \<or> \<not> ok)" "\<not> (ok2 \<and> kind \<noteq> [] \<and> can_sign_in (account (d2\<lparr>do_mfa := st\<rparr>) (pd_user p)))"
      | (passed) "\<not> (ck_logged ck \<or> \<not> mfa_enrolled ?d (pd_user p) \<and> mfa_step_endpoint ?e ?d (pd_user p) (pd_source p) = ''login_mfa_enrol''
          \<or> \<not> ht_post ?h \<or> \<not> ok)" "ok2" "kind \<noteq> []" "can_sign_in (account (d2\<lparr>do_mfa := st\<rparr>) (pd_user p))"
      by blast
    then show ?thesis
    proof cases
      case early
      then show ?thesis using pen some(1) hit login_hit_limit [OF hit]
        by (intro limit_quiet) (auto simp: exchange_defs rq route_login_mfa_def wrong_factor_def Let_def event_lists)
    next
      case tried
      then have "do_mfa_rl (door_after x) = snd (limit_hit x ?k)" "wrong_factor x u \<longrightarrow> u = ?k \<and> ok2" for u
        using pen some(1) hit acc ver lim
        by (auto simp: exchange_defs rq route_login_mfa_def wrong_factor_def for_key Let_def event_lists)
      then show ?thesis using lim(1) unfolding limit_step_def by blast
    next
      case passed
      then have "do_mfa_rl (door_after x) = rl_reset (snd (limit_hit x ?k)) ?k" "\<not> wrong_factor x u" "issued x = ck'" for u
        using pen some(1) hit acc ver fin out
        by (auto simp: exchange_defs rq route_login_mfa_def wrong_factor_def Let_def event_lists)
      moreover from this(3) have "right_factor x ?k"
        using passed some finish_fields [OF fin] for_key by (auto simp: right_factor_def rq)
      ultimately show ?thesis unfolding limit_step_def by blast
    qed
  qed
qed

lemma key_limit:
  assumes rq: "ex_request x = Rq_key_verify b"
  shows "limit_step x"
proof -
  let ?e = "ex_env x" and ?h = "ex_http x" and ?d = "ex_door x"
  obtain held ck where pen: "mfa_pending (ht_now ?h) (ex_cookie x) = (held, ck)" by fastforce
  from pen show ?thesis
  proof (cases rule: pending_cases)
    case none
    then show ?thesis using pen
      by (intro limit_quiet) (auto simp: exchange_defs rq route_webauthn_verify_def wrong_factor_def answers_for_def)
  next
    case (some p)
    let ?k = "mfa_key ?d (pd_user p)"
    obtain ok d1 where hit: "login_hit ?e ?h (pd_user p) ?d = (ok, d1)" by fastforce
    obtain ok2 d2 where acc: "mfa_account_ok ?e ?h (pd_user p) d1 = (ok2, d2)" by fastforce
    obtain st out where ver: "answer_challenge ?e p b (ht_now ?h) d2 = (st, out)" by fastforce
    obtain ck' d' where fin: "finish_sign_in ?e (ex_draws x) ?h p ck (mfa_account_done (pd_user p) (d2\<lparr>do_mfa := st\<rparr>)) = (ck', d')"
      by fastforce
    note kept = login_hit_keeps [OF hit] account_ok_keeps [OF acc]
    have for_key: "answers_for x u \<longleftrightarrow> u = ?k" for u using pen some(1) by (auto simp: answers_for_def ex_at_def)
    have key1: "mfa_key d1 (pd_user p) = ?k" and key2: "mfa_key (d2\<lparr>do_mfa := st\<rparr>) (pd_user p) = ?k"
      by (simp_all add: mfa_key_def mfa_uid_def account_def kept)
    have lim: "ok2 = fst (fst (limit_hit x ?k))" "do_mfa_rl d2 = snd (limit_hit x ?k)"
      using account_ok_limit [OF acc] by (simp_all only: key1 login_hit_limit [OF hit] limit_hit_def ex_at_def)
    have rst: "do_mfa_rl d' = rl_reset (snd (limit_hit x ?k)) ?k"
      using finish_limit [OF fin] key2 lim(2) by (simp add: mfa_account_done_def)
    consider (early) "ck_logged ck \<or> \<not> ok"
      | (tried) "\<not> ck_logged ck" "ok" "\<not> (ok2 \<and> (\<exists>uv. out = Granted uv) \<and> can_sign_in (account (d2\<lparr>do_mfa := st\<rparr>) (pd_user p)))"
      | (passed) uv where "\<not> ck_logged ck" "ok" "ok2" "out = Granted uv" "can_sign_in (account (d2\<lparr>do_mfa := st\<rparr>) (pd_user p))"
      by blast
    then show ?thesis
    proof cases
      case early
      then show ?thesis using pen some(1) hit login_hit_limit [OF hit]
        by (intro limit_quiet) (auto simp: exchange_defs rq route_webauthn_verify_def wrong_factor_def Let_def event_lists)
    next
      case tried
      then have "do_mfa_rl (door_after x) = snd (limit_hit x ?k)" "wrong_factor x u \<longrightarrow> u = ?k \<and> ok2" for u
        using pen some(1) hit acc ver lim
        by (cases out; auto simp: exchange_defs rq route_webauthn_verify_def wrong_factor_def for_key Let_def event_lists)+
      then show ?thesis using lim(1) unfolding limit_step_def by blast
    next
      case passed
      then have "do_mfa_rl (door_after x) = rl_reset (snd (limit_hit x ?k)) ?k" "\<not> wrong_factor x u" "issued x = ck'" for u
        using pen some(1) hit acc ver fin rst
        by (auto simp: exchange_defs rq route_webauthn_verify_def wrong_factor_def Let_def event_lists)
      moreover from this(3) have "right_factor x ?k"
        using passed some finish_fields [OF fin] for_key by (auto simp: right_factor_def rq)
      ultimately show ?thesis unfolding limit_step_def by blast
    qed
  qed
qed

lemma limit_steps: "limit_step x"
proof (cases "ex_request x")
  case (Rq_login ldap fallback name password remember)
  then show ?thesis using route_login_limit
    by (intro limit_quiet) (simp_all add: door_after_def answer_of_def wrong_factor_def)
next
  case (Rq_sso source name sync)
  then show ?thesis using route_sso_limit
    by (intro limit_quiet) (simp_all add: door_after_def answer_of_def wrong_factor_def)
next
  case (Rq_enrol c)
  then show ?thesis using route_enrol_limit
    by (intro limit_quiet) (simp_all add: door_after_def answer_of_def wrong_factor_def)
next
  case Rq_key_begin
  then show ?thesis
    by (intro limit_quiet)
      (auto simp: door_after_def answer_of_def wrong_factor_def route_webauthn_begin_def Let_def split: prod.splits option.splits)
next
  case Rq_logout
  then show ?thesis
    by (intro limit_quiet) (auto simp: door_after_def answer_of_def wrong_factor_def route_logout_def split: prod.splits)
qed (auto intro: code_limit key_limit)

text \<open>A history of requests over one limiter, oldest first: the clock never goes back.\<close>

fun follows :: "int \<Rightarrow> int \<Rightarrow> limiter \<Rightarrow> time \<Rightarrow> exchange list \<Rightarrow> bool" where
  "follows m w l t [] = True"
| "follows m w l t (x # xs) = (do_mfa_rl (ex_door x) = l \<and> t \<le> ex_at x \<and> de_lock_max (ex_env x) = m
     \<and> de_lock_secs (ex_env x) = w \<and> follows m w (do_mfa_rl (door_after x)) (ex_at x) xs)"

definition in_span :: "time \<Rightarrow> int \<Rightarrow> exchange \<Rightarrow> bool" where
  "in_span t0 w x = (t0 < ex_at x \<and> ex_at x \<le> t0 + of_int w)"

definition wrong_within :: "time \<Rightarrow> int \<Rightarrow> string \<Rightarrow> exchange list \<Rightarrow> int" where
  "wrong_within t0 w u xs = int (length (filter (\<lambda>x. in_span t0 w x \<and> wrong_factor x u) xs))"

definition hits_after :: "time \<Rightarrow> limiter \<Rightarrow> string \<Rightarrow> int" where
  "hits_after t0 l u = int (length (filter (\<lambda>h. t0 < fst h) (rl_bucket l u)))"

lemma follows_later: "follows m w l t xs \<Longrightarrow> x \<in> set xs \<Longrightarrow> t \<le> ex_at x"
  by (induction m w l t xs rule: follows.induct) auto

lemma hits_before: "rl_ok t l \<Longrightarrow> t \<le> t0 \<Longrightarrow> hits_after t0 l u = 0"
  by (fastforce simp: hits_after_def filter_empty_conv dest: rl_okD_pair)

lemma rl_bucket_reset:
  assumes "dict_wf (rl_buckets l)"
  shows "rl_bucket (rl_reset l k) u = (if u = k then [] else rl_bucket l u)"
  using assms by (simp add: rl_reset_def rl_bucket_def dict_simps)

lemma rl_ok_reset: "rl_ok t l \<Longrightarrow> rl_ok t (rl_reset l k)"
  by (auto simp: rl_ok_def rl_bucket_reset) (simp add: rl_reset_def)

text \<open>A hit counts once at its own key, and drops nothing of the span at any key.\<close>

lemma hits_grow:
  assumes "rl_ok t l" and "0 < m" and "now \<le> t0 + w" and "t0 < now"
  shows "hits_after t0 (snd (rl_hit l k m w [] now)) u = hits_after t0 l u + (if u = k then 1 else 0)"
proof (cases "u = k")
  case True
  have "filter (\<lambda>h. t0 < fst h) (filter (\<lambda>h. now - w < fst h) (rl_bucket l k)) = filter (\<lambda>h. t0 < fst h) (rl_bucket l k)"
    using assms(3) by (intro filter_recent_twice) simp
  then show ?thesis using True assms(4)
    by (simp add: hits_after_def rl_hit_bucket [OF assms(1,2)] del: filter_filter)
next
  case False
  then show ?thesis using rl_gc_recent [OF assms(1), of now w t0 u] assms(3)
    by (simp add: hits_after_def rl_hit_bucket [OF assms(1,2)])
qed

lemma length_filter_weaken: "(\<And>x. P x \<Longrightarrow> Q x) \<Longrightarrow> length (filter P xs) \<le> length (filter Q xs)"
  by (induction xs) (auto simp: le_SucI)

lemma hit_room:
  assumes "rl_ok t l" and "0 < m" and "now \<le> t0 + w" and "fst (fst (rl_hit l k m w [] now))"
  shows "hits_after t0 l k < m"
proof -
  have "length (filter (\<lambda>h. t0 < fst h) (rl_bucket l k)) \<le> length (filter (\<lambda>h. now - w < fst h) (rl_bucket l k))"
    using assms(3) by (intro length_filter_weaken) auto
  then show ?thesis using assms(4) rl_hit_allowed [OF assms(1,2)] by (simp add: hits_after_def)
qed

lemma limit_step_ok:
  assumes "rl_ok t (do_mfa_rl (ex_door x))" and "t \<le> ex_at x" and "0 < de_lock_max (ex_env x)"
  shows "rl_ok (ex_at x) (do_mfa_rl (door_after x))"
proof -
  have hit: "rl_ok (ex_at x) (snd (limit_hit x k))" for k unfolding limit_hit_def by (rule rl_ok_hit [OF assms(1,2)])
  have same: "rl_ok (ex_at x) (do_mfa_rl (ex_door x))" by (rule rl_ok_mono [OF assms(1,2)])
  show ?thesis using limit_steps [of x] by (auto simp: limit_step_def hit same rl_ok_reset)
qed

text \<open>One request inside the span: the hits it leaves cover a wrong answer, which found room.\<close>

lemma span_step:
  assumes ok: "rl_ok t (do_mfa_rl (ex_door x))" and m: "0 < de_lock_max (ex_env x)"
    and sp: "in_span t0 (de_lock_secs (ex_env x)) x" and keep: "\<not> right_factor x u"
  shows "hits_after t0 (do_mfa_rl (ex_door x)) u + (if wrong_factor x u then 1 else 0) \<le> hits_after t0 (do_mfa_rl (door_after x)) u"
    and "wrong_factor x u \<Longrightarrow> hits_after t0 (do_mfa_rl (ex_door x)) u < de_lock_max (ex_env x)"
proof -
  have late: "t0 < ex_at x" and early: "ex_at x \<le> t0 + of_int (de_lock_secs (ex_env x))" using sp by (simp_all add: in_span_def)
  have grow: "hits_after t0 (snd (limit_hit x k)) u = hits_after t0 (do_mfa_rl (ex_door x)) u + (if u = k then 1 else 0)" for k
    unfolding limit_hit_def by (rule hits_grow [OF ok m early late])
  have wf: "dict_wf (rl_buckets (snd (limit_hit x k)))" for k
    using rl_ok_wf [OF rl_ok_hit [OF rl_ok_mono [OF ok, of "max t (ex_at x)"]]]
      rl_gc_wf [OF ok] m by (simp add: limit_hit_def rl_hit_def Let_def)
  have reset: "hits_after t0 (rl_reset (snd (limit_hit x k)) k) u = hits_after t0 (snd (limit_hit x k)) u" if "u \<noteq> k" for k
    using that by (simp add: hits_after_def rl_bucket_reset [OF wf])
  show "hits_after t0 (do_mfa_rl (ex_door x)) u + (if wrong_factor x u then 1 else 0) \<le> hits_after t0 (do_mfa_rl (door_after x)) u"
    using limit_steps [of x] unfolding limit_step_def
  proof (elim disjE exE conjE)
    fix k assume "do_mfa_rl (door_after x) = snd (limit_hit x k)" "\<forall>u. wrong_factor x u \<longrightarrow> u = k \<and> fst (fst (limit_hit x k))"
    then show ?thesis using grow [of k] by (cases "wrong_factor x u") simp_all
  next
    fix k assume a: "do_mfa_rl (door_after x) = rl_reset (snd (limit_hit x k)) k" "right_factor x k" "\<forall>u. \<not> wrong_factor x u"
    then have "u \<noteq> k" using keep by auto
    then have "hits_after t0 (do_mfa_rl (door_after x)) u = hits_after t0 (do_mfa_rl (ex_door x)) u"
      unfolding a(1) reset [OF \<open>u \<noteq> k\<close>] grow by simp
    then show ?thesis using a(3) by simp
  next
    assume same: "do_mfa_rl (door_after x) = do_mfa_rl (ex_door x)" and none: "\<forall>u. \<not> wrong_factor x u"
    from none have "(if wrong_factor x u then 1 else 0) = (0 :: int)" by simp
    then show ?thesis unfolding same by linarith
  qed
  show "hits_after t0 (do_mfa_rl (ex_door x)) u < de_lock_max (ex_env x)" if w: "wrong_factor x u"
  proof -
    have "fst (fst (limit_hit x u))" using limit_steps [of x] unfolding limit_step_def
    proof (elim disjE exE conjE)
      fix k assume "\<forall>u. wrong_factor x u \<longrightarrow> u = k \<and> fst (fst (limit_hit x k))"
      then show ?thesis using w by (metis (full_types))
    qed (use w in blast)+
    then show ?thesis using hit_room [OF ok m early, of u] by (simp add: limit_hit_def)
  qed
qed

lemma bound_run:
  assumes "rl_ok t l" and "0 < m" and "follows m w l t xs" and "\<forall>x\<in>set xs. in_span t0 w x \<longrightarrow> \<not> right_factor x u"
  shows "wrong_within t0 w u xs \<noteq> 0 \<longrightarrow> hits_after t0 l u + wrong_within t0 w u xs \<le> m"
  using assms(1,3,4)
proof (induction xs arbitrary: t l)
  case Nil
  then show ?case by (simp add: wrong_within_def)
next
  case (Cons x xs)
  from Cons.prems have x: "do_mfa_rl (ex_door x) = l" "t \<le> ex_at x" "de_lock_max (ex_env x) = m" "de_lock_secs (ex_env x) = w"
    and rest: "follows m w (do_mfa_rl (door_after x)) (ex_at x) xs" by simp_all
  have ok': "rl_ok (ex_at x) (do_mfa_rl (door_after x))"
    using limit_step_ok [of t x] Cons.prems(1) assms(2) x by simp
  have IH: "wrong_within t0 w u xs \<noteq> 0 \<longrightarrow> hits_after t0 (do_mfa_rl (door_after x)) u + wrong_within t0 w u xs \<le> m"
    using Cons.IH [OF ok' rest] Cons.prems(3) by simp
  consider (before) "ex_at x \<le> t0" | (span) "in_span t0 w x" | (after) "t0 + of_int w < ex_at x" "t0 < ex_at x"
    by (cases "ex_at x \<le> t0"; cases "ex_at x \<le> t0 + of_int w") (auto simp: in_span_def)
  then show ?case
  proof cases
    case before
    then have "hits_after t0 (do_mfa_rl (door_after x)) u = 0" "hits_after t0 l u = 0"
      using hits_before [OF ok'] hits_before [OF Cons.prems(1)] x(2) by auto
    then show ?thesis using IH before by (simp add: wrong_within_def in_span_def)
  next
    case span
    have step: "hits_after t0 l u + (if wrong_factor x u then 1 else 0) \<le> hits_after t0 (do_mfa_rl (door_after x)) u"
      "wrong_factor x u \<Longrightarrow> hits_after t0 l u < m"
      using span_step [of t x t0 u] Cons.prems(1,3) assms(2) x span by simp_all
    have "wrong_within t0 w u (x # xs) = wrong_within t0 w u xs + (if wrong_factor x u then 1 else 0)"
      using span by (simp add: wrong_within_def)
    moreover have "0 \<le> wrong_within t0 w u xs" by (simp add: wrong_within_def)
    ultimately show ?thesis using IH step by (cases "wrong_within t0 w u xs = 0") (auto split: if_splits)
  next
    case after
    then have "\<forall>y\<in>set (x # xs). \<not> in_span t0 w y" using follows_later [OF rest] by (fastforce simp: in_span_def)
    then have "wrong_within t0 w u (x # xs) = 0" by (simp add: wrong_within_def filter_empty_conv)
    then show ?thesis by simp
  qed
qed

text \<open>C19.
  Over any history of requests that share one limiter, whatever addresses they come from and whatever else happens to
  accounts and second factors in between: inside any span of the configured time in which no sign-in with the second
  factor of an account succeeded, at most the configured number of wrong codes and assertions for it are looked at.\<close>

theorem guesses_bounded:
  assumes "0 < m" and "follows m w rl_init 0 xs" and "\<forall>x\<in>set xs. in_span t0 w x \<longrightarrow> \<not> right_factor x u"
  shows "int (length (filter (\<lambda>x. in_span t0 w x \<and> wrong_factor x u) xs)) \<le> m"
  using bound_run [OF rl_ok_init assms] assms(1)
  by (cases "wrong_within t0 w u xs = 0") (auto simp: wrong_within_def hits_after_def)

definition zoe_guesses :: exchange where
  "zoe_guesses = (ann_asks 10 ''t'' (Rq_mfa ''x'')
     (no_cookie\<lparr>ck_pending := Some \<lparr>pd_user = ''zoe'', pd_source = ''oidc'', pd_remember = False, pd_expires = 300, pd_challenge = []\<rparr>\<rparr>))
     \<lparr>ex_env := ann_env\<lparr>de_lock_max := 1, de_lock_secs := 60\<rparr>\<rparr>"

theorem guesses_bounded_witness:
  "wrong_factor zoe_guesses ''zoe'' \<and> int (length (filter (\<lambda>x. in_span 0 60 x \<and> wrong_factor x ''zoe'') [zoe_guesses])) \<le> 1"
proof -
  let ?p = "\<lparr>pd_user = ''zoe'', pd_source = ''oidc'', pd_remember = False, pd_expires = 300, pd_challenge = []\<rparr>"
  have k: "mfa_uid ann_door ''zoe'' = []" by (simp add: mfa_uid_def account_def ann_door_def demo_people_def)
  have l: "rl_tag ''zoe'' = ''zoe''" by code_simp
  have pend: "mfa_pending 10 (ex_cookie zoe_guesses) = (Some ?p, ex_cookie zoe_guesses)"
    by (simp add: mfa_pending_def zoe_guesses_def ann_asks_def)
  have f: "ex_env zoe_guesses = ann_env\<lparr>de_lock_max := 1, de_lock_secs := 60\<rparr>" "ex_door zoe_guesses = ann_door"
    "ht_now (ex_http zoe_guesses) = 10" "ht_post (ex_http zoe_guesses)" "ex_request zoe_guesses = Rq_mfa ''x''"
    "ck_logged (ex_cookie zoe_guesses) = False"
    by (simp_all add: zoe_guesses_def ann_asks_def no_cookie_def)
  have h: "login_hit (ex_env zoe_guesses) h n ann_door = (True, ann_door)" for h n
    by (simp add: f login_hit_def rl_hit_def ann_env_def ann_door_def)
  obtain d2 where a: "mfa_account_ok (ex_env zoe_guesses) (ex_http zoe_guesses) ''zoe'' ann_door = (True, d2)"
    by (simp add: f mfa_account_ok_def mfa_key_def k l rl_hit_def rl_gc_def rl_init_def dget_def ann_door_def Let_def)
  have v: "mfa_verify_pending (ex_env zoe_guesses) ?p ''x'' 10 d2 = (do_mfa d2, [])"
    using uid_of_panel [OF account_ok_keeps(1) [OF a]] k by (simp add: mfa_verify_pending_def)
  have e: "mfa_step_endpoint (ex_env zoe_guesses) ann_door ''zoe'' ''oidc'' = ''login_mfa''"
    by (simp add: f mfa_step_endpoint_def mfa_must_enrol_def mfa_provider_trusted_def mfa_policy_applies_def mfa_policy_def ann_env_def)
  have r: "answer_of zoe_guesses = (Redirect ''login_mfa'', ex_cookie zoe_guesses, d2\<lparr>do_mfa := do_mfa d2\<rparr>, mfa_failed)"
    using pend h a v e by (simp add: answer_of_def route_login_mfa_def f Let_def)
  have w: "wrong_factor zoe_guesses ''zoe''"
    using pend by (simp add: wrong_factor_def answers_for_def ex_at_def f mfa_key_def k l r)
  have fol: "follows 1 60 rl_init 0 [zoe_guesses]" by (simp add: f ex_at_def ann_door_def)
  have "\<forall>x\<in>set [zoe_guesses]. in_span 0 60 x \<longrightarrow> \<not> right_factor x ''zoe''"
    by (simp add: right_factor_def issued_def r f)
  from guesses_bounded [OF _ fol this] w show ?thesis by simp
qed

end
