(* ===== verification/Challenge_Once.thy ===== *)
theory Challenge_Once
  imports Mfa_Tables
begin

text \<open>
  The challenge a security key answers (\<^verbatim>\<open>set_challenge\<close> and \<^verbatim>\<open>consume_challenge\<close> of \<^verbatim>\<open>lib/core/mfa/store.py\<close>): over any
  sequence of statements, of any number of requests, it is spent no more often than it was set.
\<close>

text \<open>How often the challenge was set for the account in a run of statements, and how often an answer to it spent it.\<close>

fun times_set :: "string \<Rightarrow> string \<Rightarrow> mfa \<Rightarrow> mfa_event list \<Rightarrow> nat" where
  "times_set who c st [] = 0"
| "times_set who c st (ev # evs) =
     (case ev of Ev_challenge digest w c' \<Rightarrow> if w = who \<and> c' = c then 1 else 0 | _ \<Rightarrow> 0) + times_set who c (mfa_step st ev) evs"

fun times_spent :: "string \<Rightarrow> string \<Rightarrow> mfa \<Rightarrow> mfa_event list \<Rightarrow> nat" where
  "times_spent who c st [] = 0"
| "times_spent who c st (ev # evs) =
     (case ev of Ev_answer digest w c' \<Rightarrow> if w = who \<and> c' = c \<and> snd (consume_challenge digest w c' st) then 1 else 0 | _ \<Rightarrow> 0)
      + times_spent who c (mfa_step st ev) evs"

definition uses_digest :: "(string \<Rightarrow> string) \<Rightarrow> mfa_event \<Rightarrow> bool" where
  "uses_digest dg ev = (case ev of Ev_challenge d w c \<Rightarrow> d = dg | Ev_answer d w c \<Rightarrow> d = dg | _ \<Rightarrow> True)"

definition stands :: "(string \<Rightarrow> string) \<Rightarrow> string \<Rightarrow> string \<Rightarrow> mfa \<Rightarrow> bool" where
  "stands dg who c st = (\<exists>r\<in>set (mf_factors st). of_user who webauthn_method r \<and> fa_challenge r = dg c)"

lemma stands_update:
  assumes "\<And>r. of_user who webauthn_method (g r) = of_user who webauthn_method r"
    and "\<And>r. p r \<Longrightarrow> fa_challenge (g r) = dg c \<Longrightarrow> of_user who webauthn_method r \<Longrightarrow> fa_challenge r = dg c"
  shows "stands dg who c (fst (update_factors p g st)) \<Longrightarrow> stands dg who c st"
  using assms by (fastforce simp: stands_def update_factors_def split: if_splits)

lemma stands_replace:
  assumes "fa_challenge row \<noteq> dg c"
  shows "stands dg who c (replace_factor w meth row st) \<Longrightarrow> stands dg who c st"
  using assms by (auto simp: stands_def replace_factor_def)

text \<open>Only setting a challenge makes it stand.\<close>

lemma stands_only_set:
  assumes ne: "dg c \<noteq> []" and apart: "\<And>w c'. ev = Ev_challenge dg w c' \<Longrightarrow> dg c' = dg c \<Longrightarrow> c' = c"
    and "uses_digest dg ev" and "stands dg who c (mfa_step st ev)"
  shows "stands dg who c st \<or> (\<exists>w c'. ev = Ev_challenge dg w c' \<and> w = who \<and> c' = c)"
proof (cases ev)
  case (Ev_begin f w secret meth label uid now)
  then show ?thesis using ne [symmetric] assms(4)
    by (auto simp: store_begin_def Let_def new_factor_def dest!: stands_replace [rotated] split: if_splits)
next
  case (Ev_credential w cred key alg n label uid now)
  then show ?thesis using ne [symmetric] assms(4)
    by (auto simp: save_credential_def new_factor_def dest!: stands_replace [rotated] split: if_splits)
next
  case (Ev_challenge digest w c')
  show ?thesis
  proof (cases "w = who \<and> c' = c")
    case False
    have d: "digest = dg" using assms(3) Ev_challenge by (simp add: uses_digest_def)
    have "stands dg who c st"
    proof (rule stands_update)
      show "stands dg who c (fst (update_factors (of_user w webauthn_method) (\<lambda>r. r\<lparr>fa_challenge := dg c'\<rparr>) st))"
        using assms(4) Ev_challenge d by (simp add: set_challenge_def)
      show "fa_challenge r = dg c" if "of_user w webauthn_method r" "fa_challenge (r\<lparr>fa_challenge := dg c'\<rparr>) = dg c"
        "of_user who webauthn_method r" for r
        using that False apart [of w c'] Ev_challenge d by (auto simp: of_user_def)
    qed (simp add: of_user_def)
    then show ?thesis ..
  qed (use Ev_challenge assms(3) in \<open>auto simp: uses_digest_def\<close>)
next
  case (Ev_answer digest w c')
  then show ?thesis using ne [symmetric] assms(4)
    by (auto simp: consume_challenge_def of_user_def dest!: stands_update [rotated 2] split: if_splits)
next
  case (Ev_delete w meth)
  then show ?thesis using assms(4) by (auto simp: store_delete_def Let_def stands_def split: if_splits)
qed (use assms(4) in \<open>auto simp: store_confirm_def note_step_def set_recovery_def consume_recovery_def note_sign_count_def
      Let_def of_user_def stands_def update_factors_def split: if_splits\<close>)

definition no_collision :: "(string \<Rightarrow> string) \<Rightarrow> string \<Rightarrow> mfa_event list \<Rightarrow> bool" where
  "no_collision dg c evs = list_all (\<lambda>ev. case ev of Ev_challenge d w c' \<Rightarrow> dg c' = dg c \<longrightarrow> c' = c | _ \<Rightarrow> True) evs"

lemma spent_stood: "snd (consume_challenge dg who c st) \<Longrightarrow> stands dg who c st"
  by (auto simp: consume_challenge_def update_factors_def stands_def list_ex_iff split: if_splits)

lemma spent_gone:
  assumes "dg c \<noteq> []" and "c \<noteq> []"
  shows "\<not> stands dg who c (fst (consume_challenge dg who c st))"
proof -
  let ?p = "\<lambda>r. of_user who webauthn_method r \<and> fa_challenge r = dg c \<and> fa_challenge r \<noteq> []"
  have "\<not> (of_user who webauthn_method r' \<and> fa_challenge r' = dg c)" if "r' = (if ?p r then r\<lparr>fa_challenge := []\<rparr> else r)" for r r'
    using that assms(1) by (cases "?p r") auto
  then show ?thesis using assms(2) by (auto simp: consume_challenge_def update_factors_def stands_def)
qed

lemma spent_set:
  assumes "dg c \<noteq> []" and "list_all (uses_digest dg) evs"
    and "no_collision dg c evs"
  shows "times_spent who c st evs \<le> times_set who c st evs + (if stands dg who c st then 1 else 0)"
  using assms(2,3)
proof (induction evs arbitrary: st)
  case (Cons ev evs)
  have IH: "times_spent who c (mfa_step st ev) evs \<le> times_set who c (mfa_step st ev) evs + (if stands dg who c (mfa_step st ev) then 1 else 0)"
    using Cons by (simp add: no_collision_def)
  have only: "stands dg who c (mfa_step st ev) \<Longrightarrow> stands dg who c st \<or> ev = Ev_challenge dg who c"
  proof (drule stands_only_set [of dg c ev who st, rotated 3])
    show "c' = c" if "ev = Ev_challenge dg w c'" "dg c' = dg c" for w c'
      using that Cons.prems(2) by (simp add: no_collision_def)
    show "uses_digest dg ev" using Cons.prems(1) by simp
  qed (use assms(1) in auto)
  show ?case
  proof (cases "\<exists>digest. ev = Ev_answer digest who c \<and> snd (consume_challenge digest who c st)")
    case True
    then have ev: "ev = Ev_answer dg who c" "snd (consume_challenge dg who c st)"
      using Cons.prems(1) by (auto simp: uses_digest_def)
    then have "c \<noteq> []" by (auto simp: consume_challenge_def)
    then show ?thesis using IH ev spent_stood [OF ev(2)] spent_gone [of dg c who st] assms(1) by simp
  next
    case False
    then show ?thesis using IH only by (cases ev) (auto split: if_splits)
  qed
qed simp

text \<open>C20.
  Whatever sequence of statements of whatever requests runs against the tables, a challenge that did not stand at the
  start is spent by no more answers than it was set, as long as no other challenge of the run has its digest: set
  once, it lets in one answer however many copies of the cookie are sent.\<close>

theorem challenge_once:
  assumes "dg c \<noteq> []" and "list_all (uses_digest dg) evs" and "\<not> stands dg who c st"
    and "no_collision dg c evs"
  shows "times_spent who c st evs \<le> times_set who c st evs"
  using spent_set [OF assms(1,2,4), of who st] assms(3) by simp

definition keyed :: mfa where
  "keyed = fst (save_credential ''u1'' ''id'' ''key'' (- 7) 0 [] ''f1'' ''2024'' \<lparr>mf_factors = [], mf_recovery = []\<rparr>)"

definition two_copies :: "mfa_event list" where
  "two_copies = [Ev_challenge (\<lambda>c. CHR ''#'' # c) ''u1'' ''abc'', Ev_answer (\<lambda>c. CHR ''#'' # c) ''u1'' ''abc'', Ev_answer (\<lambda>c. CHR ''#'' # c) ''u1'' ''abc'']"

theorem challenge_once_witness:
  "times_set ''u1'' ''abc'' keyed two_copies = 1 \<and> times_spent ''u1'' ''abc'' keyed two_copies = 1
   \<and> times_spent ''u1'' ''abc'' keyed two_copies \<le> times_set ''u1'' ''abc'' keyed two_copies"
proof -
  have n: "no_collision (\<lambda>c. CHR ''#'' # c) ''abc'' two_copies" by (simp add: no_collision_def two_copies_def)
  have h: "(\<lambda>c. CHR ''#'' # c) ''abc'' \<noteq> []" "list_all (uses_digest (\<lambda>c. CHR ''#'' # c)) two_copies"
    "\<not> stands (\<lambda>c. CHR ''#'' # c) ''u1'' ''abc'' keyed"
    by (simp_all add: uses_digest_def two_copies_def stands_def keyed_def save_credential_def replace_factor_def new_factor_def)
  have "times_set ''u1'' ''abc'' keyed two_copies = 1" "times_spent ''u1'' ''abc'' keyed two_copies = 1"
    by (simp_all add: two_copies_def keyed_def save_credential_def replace_factor_def new_factor_def set_challenge_def
        consume_challenge_def update_factors_def of_user_def webauthn_method_def)
  then show ?thesis using challenge_once [OF h n] by simp
qed

end
