(* ===== verification/Dcim_Store.thy ===== *)
theory Dcim_Store
  imports Py_Num "HOL-Library.List_Lexorder" "HOL-Library.Char_ord"
begin

text \<open>
  The physical inventory: the rows of \<^verbatim>\<open>lib/core/dcim/store/\<close>, the five operations every table has
  (\<^verbatim>\<open>lib/db/rows.py\<close>), which units of a rack are taken and whether something fits (\<^verbatim>\<open>DcimStore.occupancy\<close>,
  \<^verbatim>\<open>fits\<close>), and whose a thing is (\<^verbatim>\<open>chain_of\<close>, \<^verbatim>\<open>lib/core/orgs/owners.py\<close>).

  A row is a record with the columns the operations read; columns that are only shown are left out. A table is the
  list of its rows in the order they were written, which is the order a query without one answers them in. A text
  column holds a text, a column with a number an integer: what a request may put there is checked by
  \<open>Dcim_Rack\<close>. The identifier of a new row is a random draw and an argument.
\<close>

section \<open>Rows\<close>

record dc_site =
  si_uid :: string
  si_name :: string

record dc_room =
  ro_uid :: string
  ro_site :: string
  ro_name :: string

record dc_rack =
  rk_uid :: string
  rk_room :: string
  rk_name :: string
  rk_height :: int
  rk_depth :: int
  rk_front :: int
  rk_mount :: int
  rk_rear :: int
  rk_access :: string
  rk_row :: string

record dc_item =
  it_uid :: string
  it_rack :: string
  it_start :: int
  it_height :: int
  it_face :: string
  it_device :: string
  it_type :: string
  it_label :: string
  it_role :: string
  it_build :: string
  it_slots :: int
  it_slot :: int
  it_span :: int
  it_split :: string
  it_parent :: string
  it_placement :: string
  it_demo :: string
  it_room :: string
  it_source :: string
  it_side :: string
  it_side_slot :: int

record dc_pdu =
  pu_uid :: string
  pu_rack :: string
  pu_name :: string
  pu_feed :: string
  pu_outlets :: int
  pu_capacity :: int
  pu_source :: string
  pu_item :: string

record dc_feed =
  fd_uid :: string
  fd_item :: string
  fd_pdu :: string
  fd_outlet :: int
  fd_watts :: int

record dc_cable =
  cb_uid :: string
  cb_a :: string
  cb_a_port :: string
  cb_b :: string
  cb_b_port :: string

record dc_link =
  ln_uid :: string
  ln_a_site :: string
  ln_b_site :: string
  ln_a :: string
  ln_b :: string

record dc_source =
  so_uid :: string
  so_site :: string
  so_name :: string
  so_kind :: string
  so_upstream :: string
  so_bypass :: int
  so_item :: string

record dc_part =
  pa_uid :: string
  pa_item :: string

text \<open>The scopes of the containment chain, and what was said of each: \<^verbatim>\<open>{(scope, uid): org_uid}\<close>.\<close>

datatype scope = Site | Room | Rack | Item

type_synonym said = "(scope \<times> string, string) dict"

record dcim =
  d_sites :: "dc_site list"
  d_rooms :: "dc_room list"
  d_racks :: "dc_rack list"
  d_items :: "dc_item list"
  d_pdus :: "dc_pdu list"
  d_feeds :: "dc_feed list"
  d_cables :: "dc_cable list"
  d_links :: "dc_link list"
  d_sources :: "dc_source list"
  d_parts :: "dc_part list"
  d_said :: said

section \<open>What every table does\<close>

text \<open>\<^verbatim>\<open>Rows.get\<close>: \<^verbatim>\<open>SELECT \<dots> WHERE uid = ?\<close>, the first row.\<close>

definition row_get :: "('r \<Rightarrow> string) \<Rightarrow> 'r list \<Rightarrow> string \<Rightarrow> 'r option" where
  "row_get key rows u = find (\<lambda>r. key r = u) rows"

text \<open>\<^verbatim>\<open>Rows.create\<close>, \<^verbatim>\<open>Rows.update\<close> of the row's columns by \<open>f\<close>, and \<^verbatim>\<open>Rows.delete\<close>.\<close>

definition row_create :: "'r \<Rightarrow> 'r list \<Rightarrow> 'r list" where
  "row_create r rows = rows @ [r]"

definition row_update :: "('r \<Rightarrow> string) \<Rightarrow> string \<Rightarrow> ('r \<Rightarrow> 'r) \<Rightarrow> 'r list \<Rightarrow> 'r list" where
  "row_update key u f rows = map (\<lambda>r. if key r = u then f r else r) rows"

definition row_delete :: "('r \<Rightarrow> string) \<Rightarrow> string \<Rightarrow> 'r list \<Rightarrow> 'r list" where
  "row_delete key u rows = filter (\<lambda>r. key r \<noteq> u) rows"

section \<open>Queries\<close>

definition rooms_of :: "dcim \<Rightarrow> string \<Rightarrow> dc_room list" where
  "rooms_of d u = filter (\<lambda>r. ro_site r = u) (d_rooms d)"

definition racks_of :: "dcim \<Rightarrow> string \<Rightarrow> dc_rack list" where
  "racks_of d u = filter (\<lambda>r. rk_room r = u) (d_racks d)"

definition items_of :: "dcim \<Rightarrow> string \<Rightarrow> dc_item list" where
  "items_of d u = filter (\<lambda>i. it_rack i = u) (d_items d)"

definition items_in_room :: "dcim \<Rightarrow> string \<Rightarrow> dc_item list" where
  "items_in_room d u = filter (\<lambda>i. it_placement i = ''room'' \<and> it_room i = u) (d_items d)"

definition children_of :: "dcim \<Rightarrow> string \<Rightarrow> dc_item list" where
  "children_of d u = filter (\<lambda>i. it_parent i = u) (d_items d)"

text \<open>\<^verbatim>\<open>pdus_of\<close>: the strips of a rack, branch A before branch B, by name within one.\<close>

definition pdus_of :: "dcim \<Rightarrow> string \<Rightarrow> dc_pdu list" where
  "pdus_of d u = sort_key (\<lambda>p. (if pu_feed p = '''' then ''z'' else pu_feed p, pu_name p))
     (filter (\<lambda>p. pu_rack p = u) (d_pdus d))"

definition feeds_of :: "dcim \<Rightarrow> string list \<Rightarrow> dc_feed list" where
  "feeds_of d us = (let us = filter (\<lambda>u. u \<noteq> '''') us in filter (\<lambda>f. fd_pdu f \<in> set us) (d_feeds d))"

definition cables_of :: "dcim \<Rightarrow> string list \<Rightarrow> dc_cable list" where
  "cables_of d us = (let us = filter (\<lambda>u. u \<noteq> '''') us in filter (\<lambda>c. cb_a c \<in> set us \<or> cb_b c \<in> set us) (d_cables d))"

definition parts_of :: "dcim \<Rightarrow> string list \<Rightarrow> dc_part list" where
  "parts_of d us = (let us = filter (\<lambda>u. u \<noteq> '''') us in filter (\<lambda>p. pa_item p \<in> set us) (d_parts d))"

section \<open>Which units are taken\<close>

text \<open>\<^verbatim>\<open>x or d\<close> for a number and for a text.\<close>

definition num_or :: "int \<Rightarrow> int \<Rightarrow> int" where
  "num_or n d = (if n = 0 then d else n)"

definition txt_or :: "string \<Rightarrow> string \<Rightarrow> string" where
  "txt_or s d = (if s = '''' then d else s)"

text \<open>\<^verbatim>\<open>_slot_of\<close>: which piece of its unit a row takes, \<^verbatim>\<open>(from, to, of how many)\<close>; one out of range takes the whole unit.\<close>

type_synonym slot = "int \<times> int \<times> int"

definition slot_of :: "int \<Rightarrow> int \<Rightarrow> int \<Rightarrow> slot" where
  "slot_of slots slot wide =
     (let n = max 1 (num_or slots 1); k = num_or slot 1; w = max 1 (num_or wide 1)
      in if k < 1 \<or> k > n \<or> k - 1 + w > n then (0, 1, 1) else (k - 1, k - 1 + w, n))"

definition item_slot :: "dc_item \<Rightarrow> slot" where
  "item_slot i = slot_of (it_slots i) (it_slot i) (it_span i)"

text \<open>\<^verbatim>\<open>_overlap\<close>: two pieces of one unit, compared by cross multiplication.\<close>

definition overlap :: "slot \<Rightarrow> slot \<Rightarrow> bool" where
  "overlap a b = (case (a, b) of ((a0, a1, an), (b0, b1, bn)) \<Rightarrow> a0 * bn < b1 * an \<and> b0 * an < a1 * bn)"

definition faces_of :: "string \<Rightarrow> string list" where
  "faces_of f = (if txt_or f ''full'' = ''full'' then [''front'', ''rear''] else [f])"

definition units_of :: "int \<Rightarrow> int \<Rightarrow> int list" where
  "units_of start height = [start .. start + max 1 height - 1]"

text \<open>What is bolted to the posts: not mounted on something else, and placed by units.\<close>

definition on_rails :: "dc_item \<Rightarrow> bool" where
  "on_rails i \<longleftrightarrow> it_parent i = '''' \<and> txt_or (it_placement i) ''u'' = ''u''"

text \<open>\<^verbatim>\<open>DcimStore.occupancy\<close>: who is drawn at each face and unit, and every piece taken there.\<close>

record occ =
  oc_height :: int
  oc_taken :: "(string \<times> int, string) dict"
  oc_slots :: "(string \<times> int, (slot \<times> string) list) dict"

definition occ_put :: "dc_item \<Rightarrow> string \<times> int \<Rightarrow> occ \<Rightarrow> occ" where
  "occ_put i fu oc =
     (if fst fu \<notin> {''front'', ''rear''} then oc
      else oc\<lparr>oc_slots := AList.update fu (dget (oc_slots oc) fu [] @ [(item_slot i, it_uid i)]) (oc_slots oc),
             oc_taken := (if map_of (oc_taken oc) fu = None \<or> item_slot i = (0, 1, 1)
                          then AList.update fu (it_uid i) (oc_taken oc) else oc_taken oc)\<rparr>)"

definition places_of :: "dc_item \<Rightarrow> (string \<times> int) list" where
  "places_of i = concat (map (\<lambda>u. map (\<lambda>f. (f, u)) (faces_of (it_face i))) (units_of (num_or (it_start i) 1) (num_or (it_height i) 1)))"

definition occ_item :: "dc_item \<Rightarrow> occ \<Rightarrow> occ" where
  "occ_item i oc = (if on_rails i then fold (occ_put i) (places_of i) oc else oc)"

definition occupancy :: "dcim \<Rightarrow> string \<Rightarrow> occ" where
  "occupancy d u =
     fold occ_item (items_of d u)
       \<lparr>oc_height = (case row_get rk_uid (d_racks d) u of None \<Rightarrow> 0 | Some r \<Rightarrow> rk_height r), oc_taken = [], oc_slots = []\<rparr>"

definition FACES :: "string list" where
  "FACES = [''full'', ''front'', ''rear'']"

definition fits :: "dcim \<Rightarrow> string \<Rightarrow> int \<Rightarrow> int \<Rightarrow> string \<Rightarrow> string \<Rightarrow> slot \<Rightarrow> bool" where
  "fits d rack start height face ignore slot =
     (case row_get rk_uid (d_racks d) rack of
        None \<Rightarrow> False
      | Some r \<Rightarrow>
          let height = max 1 (num_or height 1); face = txt_or face ''full''; oc = occupancy d rack
          in 1 \<le> start \<and> start + height - 1 \<le> rk_height r \<and> face \<in> set FACES
             \<and> list_all (\<lambda>u. list_all (\<lambda>f. list_all (\<lambda>(s, w). w = ignore \<or> \<not> overlap slot s) (dget (oc_slots oc) (f, u) []))
                 (faces_of face)) (units_of start height))"

section \<open>Whose a thing is\<close>

text \<open>
  \<^verbatim>\<open>chain_of\<close>: from a thing up to its site, innermost first. The source guards its loop with the pairs it has
  seen; a step always goes to a wider scope, so no pair comes twice.
\<close>

fun scope_rank :: "scope \<Rightarrow> nat" where
  "scope_rank Item = 3"
| "scope_rank Rack = 2"
| "scope_rank Room = 1"
| "scope_rank Site = 0"

function chain_of :: "dcim \<Rightarrow> scope \<Rightarrow> string \<Rightarrow> (scope \<times> string) list" where
  "chain_of d s u =
     (if u = '''' then []
      else (s, u) #
        (case s of
           Item \<Rightarrow> (case row_get it_uid (d_items d) u of
                      None \<Rightarrow> []
                    | Some i \<Rightarrow> if it_rack i = '''' \<and> it_room i \<noteq> '''' then chain_of d Room (it_room i)
                                else chain_of d Rack (it_rack i))
         | Rack \<Rightarrow> (case row_get rk_uid (d_racks d) u of None \<Rightarrow> [] | Some r \<Rightarrow> chain_of d Room (rk_room r))
         | Room \<Rightarrow> (case row_get ro_uid (d_rooms d) u of None \<Rightarrow> [] | Some r \<Rightarrow> chain_of d Site (ro_site r))
         | Site \<Rightarrow> []))"
  by pat_completeness auto
termination by (relation "measure (\<lambda>(d, s, u). scope_rank s)") auto

declare chain_of.simps [simp del]

fun owner_of_chain :: "(scope \<times> string) list \<Rightarrow> said \<Rightarrow> string" where
  "owner_of_chain [] said = ''''"
| "owner_of_chain (k # ks) said =
     (case map_of said k of Some org \<Rightarrow> if org \<noteq> '''' then org else owner_of_chain ks said | None \<Rightarrow> owner_of_chain ks said)"

definition owner_of :: "dcim \<Rightarrow> scope \<Rightarrow> string \<Rightarrow> string" where
  "owner_of d s u = owner_of_chain (chain_of d s u) (d_said d)"

text \<open>\<^verbatim>\<open>visible_orgs\<close> and \<^verbatim>\<open>may_see\<close>: \<^verbatim>\<open>None\<close> is every company. What nobody claims is visible.\<close>

definition visible_orgs :: "string list \<Rightarrow> string list option" where
  "visible_orgs perms =
     (if ''orgs_all_view'' \<in> set perms then None
      else Some (filter (\<lambda>u. u \<noteq> '''')
        (map (\<lambda>p. take (length p - length ''org.'' - length ''.view'') (drop (length ''org.'') p))
          (filter (\<lambda>p. take 4 p = ''org.'' \<and> drop (length p - 5) p = ''.view'' \<and> 5 \<le> length p) perms))))"

definition may_see :: "string \<Rightarrow> string list option \<Rightarrow> bool" where
  "may_see org allowed = (case allowed of None \<Rightarrow> True | Some os \<Rightarrow> org = '''' \<or> org \<in> set os)"

definition may_write :: "dcim \<Rightarrow> string list option \<Rightarrow> scope \<Rightarrow> string \<Rightarrow> bool" where
  "may_write d allowed s u = may_see (owner_of d s u) allowed"

definition forget_scope :: "scope \<Rightarrow> string \<Rightarrow> dcim \<Rightarrow> dcim" where
  "forget_scope s u d = d\<lparr>d_said := AList.delete (s, u) (d_said d)\<rparr>"

section \<open>Lemmas\<close>

lemma row_get_Some: "row_get key rows u = Some r \<Longrightarrow> r \<in> set rows \<and> key r = u"
  unfolding row_get_def by (auto simp: find_Some_iff)

lemma row_get_None: "row_get key rows u = None \<longleftrightarrow> u \<notin> key ` set rows"
  unfolding row_get_def by (auto simp: find_None_iff)

lemma row_get_in:
  assumes "distinct (map key rows)" "r \<in> set rows"
  shows "row_get key rows (key r) = Some r"
proof -
  have "row_get key rows (key r) \<noteq> None" using assms(2) by (auto simp: row_get_None)
  then obtain r' where "row_get key rows (key r) = Some r'" by auto
  then have "r' \<in> set rows" "key r' = key r" "row_get key rows (key r) = Some r'" by (auto dest: row_get_Some)
  then show ?thesis using assms by (simp add: distinct_map inj_on_def)
qed

lemma set_row_create [simp]: "set (row_create r rows) = insert r (set rows)"
  by (simp add: row_create_def)

lemma set_row_update: "set (row_update key u f rows) = (\<lambda>r. if key r = u then f r else r) ` set rows"
  by (simp add: row_update_def)

lemma set_row_delete [simp]: "set (row_delete key u rows) = {r \<in> set rows. key r \<noteq> u}"
  by (auto simp: row_delete_def)

lemma keys_row_update: "(\<And>r. key (f r) = key r) \<Longrightarrow> map key (row_update key u f rows) = map key rows"
  by (simp add: row_update_def)

lemma keys_update_other: "(\<And>r. key' (f r) = key' r) \<Longrightarrow> map key' (row_update key u f rows) = map key' rows"
  by (simp add: row_update_def)

lemma distinct_row_delete: "distinct (map key rows) \<Longrightarrow> distinct (map key (row_delete key u rows))"
  unfolding row_delete_def by (rule distinct_map_filter_fst)

lemma overlap_commute: "overlap a b = overlap b a"
  by (cases a; cases b) (auto simp: overlap_def)

lemma set_units_of: "set (units_of s h) = {u. s \<le> u \<and> u < s + max 1 h}"
  by (auto simp: units_of_def)

text \<open>The pieces \<open>occupancy\<close> records, told by the items themselves.\<close>

definition taken_by :: "dc_item \<Rightarrow> string \<times> int \<Rightarrow> bool" where
  "taken_by i fu \<longleftrightarrow> on_rails i \<and> fu \<in> set (places_of i) \<and> fst fu \<in> {''front'', ''rear''}"

lemma dget_occ_put:
  "dget (oc_slots (occ_put i fu oc)) fv [] =
     dget (oc_slots oc) fv [] @ (if fu = fv \<and> fst fu \<in> {''front'', ''rear''} then [(item_slot i, it_uid i)] else [])"
  by (auto simp: occ_put_def dict_simps)

lemma set_dget_occ_puts:
  "set (dget (oc_slots (fold (occ_put i) ps oc)) fv []) =
     set (dget (oc_slots oc) fv []) \<union> (if fv \<in> set ps \<and> fst fv \<in> {''front'', ''rear''} then {(item_slot i, it_uid i)} else {})"
  by (induction ps arbitrary: oc) (auto simp: dget_occ_put)

lemma set_dget_occ_items:
  "set (dget (oc_slots (fold occ_item is oc)) fv []) =
     set (dget (oc_slots oc) fv []) \<union> {(item_slot i, it_uid i) | i. i \<in> set is \<and> taken_by i fv}"
proof (induction "is" arbitrary: oc)
  case (Cons i "is")
  have "set (dget (oc_slots (occ_item i oc)) fv []) =
      set (dget (oc_slots oc) fv []) \<union> (if taken_by i fv then {(item_slot i, it_uid i)} else {})"
    by (auto simp: occ_item_def taken_by_def set_dget_occ_puts)
  then show ?case using Cons by auto
qed simp

lemma occupancy_slots:
  "set (dget (oc_slots (occupancy d u)) fv []) = {(item_slot i, it_uid i) | i. i \<in> set (d_items d) \<and> it_rack i = u \<and> taken_by i fv}"
  unfolding occupancy_def set_dget_occ_items by (auto simp: items_of_def dget_def)

lemma taken_occ_put:
  "dom (map_of (oc_taken (occ_put i fu oc))) =
     dom (map_of (oc_taken oc)) \<union> (if fst fu \<in> {''front'', ''rear''} then {fu} else {})"
  by (auto simp: occ_put_def dict_simps dom_def)

lemma taken_occ_puts:
  "dom (map_of (oc_taken (fold (occ_put i) ps oc))) =
     dom (map_of (oc_taken oc)) \<union> {fu \<in> set ps. fst fu \<in> {''front'', ''rear''}}"
  by (induction ps arbitrary: oc) (auto simp: taken_occ_put)

lemma taken_occ_items:
  "dom (map_of (oc_taken (fold occ_item is oc))) = dom (map_of (oc_taken oc)) \<union> {fu. \<exists>i \<in> set is. taken_by i fu}"
proof (induction "is" arbitrary: oc)
  case (Cons i "is")
  have "dom (map_of (oc_taken (occ_item i oc))) = dom (map_of (oc_taken oc)) \<union> {fu. taken_by i fu}"
    by (auto simp: occ_item_def taken_by_def taken_occ_puts)
  then show ?case using Cons by auto
qed simp

lemma occupancy_taken:
  "dom (map_of (oc_taken (occupancy d u))) = {fu. \<exists>i \<in> set (d_items d). it_rack i = u \<and> taken_by i fu}"
  unfolding occupancy_def taken_occ_items by (auto simp: items_of_def)

lemma occ_height_occupancy [simp]:
  "oc_height (occupancy d u) = (case row_get rk_uid (d_racks d) u of None \<Rightarrow> 0 | Some r \<Rightarrow> rk_height r)"
proof -
  have "oc_height (fold (occ_put i) ps oc) = oc_height oc" for i ps oc
    by (induction ps arbitrary: oc) (auto simp: occ_put_def)
  then have "oc_height (fold occ_item is oc) = oc_height oc" for "is" oc
    by (induction "is" arbitrary: oc) (auto simp: occ_item_def)
  then show ?thesis by (simp add: occupancy_def)
qed

text \<open>\<open>fits\<close>, told by the items.\<close>

lemma fits_iff:
  "fits d rack start height face ignore slot \<longleftrightarrow>
     (\<exists>r. row_get rk_uid (d_racks d) rack = Some r \<and> 1 \<le> start \<and> start + max 1 (num_or height 1) - 1 \<le> rk_height r)
     \<and> txt_or face ''full'' \<in> set FACES
     \<and> (\<forall>u \<in> set (units_of start (num_or height 1)). \<forall>f \<in> set (faces_of face). \<forall>i \<in> set (d_items d).
          it_rack i = rack \<longrightarrow> taken_by i (f, u) \<longrightarrow> it_uid i = ignore \<or> \<not> overlap slot (item_slot i))"
proof -
  have f: "faces_of (txt_or face ''full'') = faces_of face" by (auto simp: faces_of_def txt_or_def)
  have u: "units_of start (max 1 (num_or height 1)) = units_of start (num_or height 1)" by (simp add: units_of_def)
  have s: "list_all (\<lambda>(s, w). w = ignore \<or> \<not> overlap slot s) (dget (oc_slots (occupancy d rack)) fv []) \<longleftrightarrow>
      (\<forall>i \<in> set (d_items d). it_rack i = rack \<longrightarrow> taken_by i fv \<longrightarrow> it_uid i = ignore \<or> \<not> overlap slot (item_slot i))" for fv
    unfolding list_all_iff occupancy_slots by blast
  show ?thesis
    unfolding fits_def Let_def f u s list_all_iff [of _ "faces_of face"] list_all_iff [of _ "units_of start (num_or height 1)"]
    by (cases "row_get rk_uid (d_racks d) rack") auto
qed

end
