(* ===== verification/Dcim_Rack.thy ===== *)
theory Dcim_Rack
  imports Dcim_Store
begin

text \<open>
  What is in a rack: the requests of \<^verbatim>\<open>lib/core/dcim/routes/racks.py\<close> that place, move and remove items, and those
  of \<^verbatim>\<open>routes/places.py\<close> that create, edit and delete a rack.

  A request names some columns of a row: a column it does not name is \<open>None\<close>. Its texts are texts; its numbers are
  whatever JSON holds (\<open>jval\<close>) until \<open>numbers_bad\<close> has made them integers. Columns no operation reads (serial
  numbers, dates, the geometry of a room) are left out, and so are the inventory number, whose check is an argument
  that may refuse the request, the audit and the history of the rack.
\<close>

section \<open>Requests\<close>

record 'n item_req =
  rq_rack :: "string option"
  rq_start :: "'n option"
  rq_height :: "'n option"
  rq_face :: "string option"
  rq_device :: "string option"
  rq_type :: "string option"
  rq_label :: "string option"
  rq_role :: "string option"
  rq_build :: "string option"
  rq_slots :: "'n option"
  rq_slot :: "'n option"
  rq_span :: "'n option"
  rq_split :: "string option"
  rq_parent :: "string option"
  rq_placement :: "string option"
  rq_room :: "string option"
  rq_side :: "string option"
  rq_side_slot :: "'n option"
  rq_disconnect :: bool

text \<open>What an answer says: done, or refused with a status and the key of the message.\<close>

datatype dc_answer = Dc_Done | Dc_Refused nat string

definition ITEM_ROLES :: "string list" where
  "ITEM_ROLES = [''server'', ''switch'', ''router'', ''firewall'', ''storage'', ''patch_panel'', ''fiber_panel'', ''ups'', ''pdu'',
     ''shelf'', ''kvm'', ''console'', ''blank'', ''other'', ''pc'', ''phone'', ''printer'', ''ap'', ''camera'', ''display'', ''outlet'', ''power_outlet'']"

definition PLACEMENTS :: "string list" where
  "PLACEMENTS = [''u'', ''side'', ''near'', ''room'']"

definition SIDE_POSITIONS :: "string list" where
  "SIDE_POSITIONS = ['''', ''rear-left'', ''rear-right'']"

definition NUM_MAX :: int where
  "NUM_MAX = 10 ^ 9"

text \<open>\<^verbatim>\<open>numbers_bad\<close> for one column of integers: empty is the column's default; a finite number in range, cut to an integer.\<close>

definition num_col :: "int \<Rightarrow> int \<Rightarrow> int \<Rightarrow> jval \<Rightarrow> int option" where
  "num_col dflt lo hi v =
     (case py_float (if v = JNull \<or> (case v of JStr s \<Rightarrow> py_strip s = '''' | _ \<Rightarrow> False) then JInt dflt else v) of
        Some (Fin f) \<Rightarrow> if of_int lo \<le> f \<and> f \<le> of_int hi then Some (py_trunc f) else None
      | _ \<Rightarrow> None)"

definition numbers_bad :: "jval item_req \<Rightarrow> string + int item_req" where
  "numbers_bad q =
     (let any = (\<lambda>d. num_col d (- NUM_MAX) NUM_MAX);
          start = map_option (any 1) (rq_start q); height = map_option (any 1) (rq_height q);
          slots = map_option (any 1) (rq_slots q); slot = map_option (any 1) (rq_slot q);
          wide = map_option (any 1) (rq_span q); side = map_option (num_col 0 0 1) (rq_side_slot q)
      in case find (\<lambda>(c, v). v = Some None) [(''u_start'', start), (''u_height'', height), (''u_slots'', slots),
                (''u_slot'', slot), (''u_slot_span'', wide), (''side_slot'', side)] of
           Some (c, _) \<Rightarrow> Inl c
         | None \<Rightarrow> Inr \<lparr>rq_rack = rq_rack q, rq_start = Option.bind start id, rq_height = Option.bind height id,
             rq_face = rq_face q, rq_device = rq_device q, rq_type = rq_type q, rq_label = rq_label q, rq_role = rq_role q,
             rq_build = rq_build q, rq_slots = Option.bind slots id, rq_slot = Option.bind slot id,
             rq_span = Option.bind wide id, rq_split = rq_split q, rq_parent = rq_parent q,
             rq_placement = rq_placement q, rq_room = rq_room q, rq_side = rq_side q,
             rq_side_slot = Option.bind side id, rq_disconnect = rq_disconnect q\<rparr>)"

text \<open>\<^verbatim>\<open>data.get(k) or d\<close>.\<close>

definition said_num :: "int option \<Rightarrow> int \<Rightarrow> int" where
  "said_num x d = (case x of None \<Rightarrow> d | Some n \<Rightarrow> num_or n d)"

definition said_txt :: "string option \<Rightarrow> string \<Rightarrow> string" where
  "said_txt x d = (case x of None \<Rightarrow> d | Some s \<Rightarrow> txt_or s d)"

text \<open>\<^verbatim>\<open>_item_bad\<close>: the numbers, the role and the channel of a strip, before anything is placed.\<close>

definition item_bad :: "jval item_req \<Rightarrow> string + int item_req" where
  "item_bad q =
     (case numbers_bad q of
        Inl c \<Rightarrow> Inl ''dcim_bad_number''
      | Inr p \<Rightarrow>
          if said_txt (rq_role p) '''' \<noteq> '''' \<and> said_txt (rq_role p) '''' \<notin> set ITEM_ROLES then Inl ''dcim_role_unknown''
          else if rq_side p \<noteq> None \<and> said_txt (rq_side p) '''' \<notin> set SIDE_POSITIONS then Inl ''dcim_side_pos_unknown''
          else Inr p)"

section \<open>What a template and the catalogue fill in\<close>

record build =
  bl_uid :: string
  bl_role :: string
  bl_face :: string
  bl_type :: string
  bl_tenths :: int
  bl_slots :: int
  bl_span :: int
  bl_split :: string

text \<open>The catalogue, as far as placing an item asks it: the height of a model in tenths of a unit.\<close>

type_synonym catalogue = "(string, int) dict"

definition unsaid :: "jval option \<Rightarrow> bool" where
  "unsaid x = (case x of None \<Rightarrow> True | Some v \<Rightarrow> \<not> truthy v)"

definition whole_units :: "int \<Rightarrow> int" where
  "whole_units tenths = max 1 (- ((- tenths) div 10))"

definition from_build :: "catalogue \<Rightarrow> build \<Rightarrow> jval item_req \<Rightarrow> jval item_req" where
  "from_build cat b q =
     (let keep = (\<lambda>x v. if py_strip (said_txt x '''') = '''' \<and> v \<noteq> '''' then Some v else x);
          tenths = num_or (bl_tenths b) (dget cat (bl_type b) 0)
      in q\<lparr>rq_role := keep (rq_role q) (bl_role b), rq_face := keep (rq_face q) (bl_face b),
           rq_type := keep (rq_type q) (bl_type b),
           rq_height := (if unsaid (rq_height q) \<and> tenths \<noteq> 0 then Some (JInt (whole_units tenths)) else rq_height q),
           rq_slots := (if unsaid (rq_slots q) \<and> bl_slots b \<noteq> 1 then Some (JInt (bl_slots b)) else rq_slots q),
           rq_span := (if unsaid (rq_span q) \<and> bl_span b \<noteq> 1 then Some (JInt (bl_span b)) else rq_span q),
           rq_split := (if said_txt (rq_split q) '''' = '''' \<and> bl_split b \<notin> {'''', ''width''} then Some (bl_split b) else rq_split q),
           rq_build := Some (bl_uid b)\<rparr>)"

definition from_type_item :: "catalogue \<Rightarrow> jval item_req \<Rightarrow> jval item_req" where
  "from_type_item cat q =
     (let u = py_strip (said_txt (rq_type q) '''')
      in if u = '''' then q
         else (case map_of cat u of
                 None \<Rightarrow> q\<lparr>rq_type := None\<rparr>
               | Some t \<Rightarrow> if unsaid (rq_height q) \<and> t \<noteq> 0 then q\<lparr>rq_height := Some (JInt (whole_units t))\<rparr> else q))"

section \<open>Placing\<close>

text \<open>\<^verbatim>\<open>_slot_ok\<close>, \<^verbatim>\<open>_span\<close> and \<^verbatim>\<open>_mount_busy\<close>.\<close>

definition slot_bad :: "int item_req \<Rightarrow> bool" where
  "slot_bad q =
     (let n = max 1 (said_num (rq_slots q) 1); k = said_num (rq_slot q) 1; w = max 1 (said_num (rq_span q) 1)
      in k < 1 \<or> k > n \<or> k - 1 + w > n \<or> said_txt (rq_split q) ''width'' \<notin> {''width'', ''height''})"

definition piece :: "int \<Rightarrow> int \<Rightarrow> int \<Rightarrow> rat \<times> rat" where
  "piece slots slot wide =
     (let n = max 1 slots; k = min n (max 1 slot); w = max 1 (min (n - k + 1) wide)
      in (of_int (k - 1) / of_int n, of_int (k - 1 + w) / of_int n))"

definition pieces_meet :: "rat \<times> rat \<Rightarrow> rat \<times> rat \<Rightarrow> bool" where
  "pieces_meet p q \<longleftrightarrow> fst p < snd q \<and> fst q < snd p"

definition item_piece :: "dc_item \<Rightarrow> rat \<times> rat" where
  "item_piece i = piece (num_or (it_slots i) 1) (num_or (it_slot i) 1) (num_or (it_span i) 1)"

definition mount_busy :: "dcim \<Rightarrow> string \<Rightarrow> int item_req \<Rightarrow> string \<Rightarrow> bool" where
  "mount_busy d tray q ignore =
     (1 < said_num (rq_slots q) 1 \<and>
      list_ex (\<lambda>i. it_uid i \<noteq> ignore \<and> 1 < num_or (it_slots i) 1 \<and>
                pieces_meet (piece (said_num (rq_slots q) 1) (said_num (rq_slot q) 1) (said_num (rq_span q) 1)) (item_piece i))
        (children_of d tray))"

text \<open>
  \<^verbatim>\<open>_place\<close>: where the request puts an item, with the request as the call leaves it. What is mounted on another
  inherits its place; what has no units has none written.
\<close>

definition place :: "dcim \<Rightarrow> int item_req \<Rightarrow> string \<Rightarrow> string + (string \<times> int item_req)" where
  "place d q ignore =
     (let tray = said_txt (rq_parent q) ''''
      in if tray \<noteq> '''' then
           (case row_get it_uid (d_items d) tray of
              None \<Rightarrow> Inl ''dcim_not_found''
            | Some p \<Rightarrow>
                if it_parent p \<noteq> '''' then Inl ''dcim_mount_nested''
                else if it_uid p = ignore then Inl ''dcim_mount_self''
                else if it_rack p = '''' \<or> it_placement p = ''room'' then Inl ''dcim_mount_not_rack''
                else let q = q\<lparr>rq_rack := Some (it_rack p), rq_start := Some (it_start p), rq_height := Some (it_height p),
                               rq_face := Some (it_face p), rq_placement := Some (it_placement p)\<rparr>
                     in if slot_bad q then Inl ''dcim_bad_slot''
                        else if mount_busy d tray q ignore then Inl ''dcim_no_room''
                        else Inr (it_rack p, q))
         else
           (let rack = said_txt (rq_rack q) ''''; placed = said_txt (rq_placement q) ''u''; face = said_txt (rq_face q) ''full''
            in if row_get rk_uid (d_racks d) rack = None then Inl ''dcim_not_found''
               else if placed \<notin> set PLACEMENTS then Inl ''dcim_placement_unknown''
               else if face \<notin> set FACES then Inl ''dcim_bad_face''
               else if said_txt (rq_role q) '''' \<noteq> '''' \<and> said_txt (rq_role q) '''' \<notin> set ITEM_ROLES then Inl ''dcim_role_unknown''
               else
                 (let q = (if placed \<noteq> ''side'' then q\<lparr>rq_side := Some '''', rq_side_slot := Some 0\<rparr> else q)
                  in if placed \<noteq> ''u'' then Inr (rack, q\<lparr>rq_start := Some 0, rq_height := Some 0\<rparr>)
                     else if slot_bad q then Inl ''dcim_bad_slot''
                     else if \<not> fits d rack (said_num (rq_start q) 0) (said_num (rq_height q) 1) face ignore
                               (slot_of (said_num (rq_slots q) 1) (said_num (rq_slot q) 1) (said_num (rq_span q) 1))
                     then Inl ''dcim_no_room''
                     else Inr (rack, q))))"

section \<open>The requests about an item\<close>

text \<open>Who asks: the permissions of the session. What the request finds outside: the template it names, the catalogue and
  whether its inventory number may be given.\<close>

record asking =
  as_perms :: "string list"
  as_build :: "build option"
  as_cat :: catalogue
  as_asset :: "string option"

definition seen_orgs :: "asking \<Rightarrow> string list option" where
  "seen_orgs a = visible_orgs (as_perms a)"

definition room_item_said :: "'n item_req \<Rightarrow> bool" where
  "room_item_said q \<longleftrightarrow> said_txt (rq_placement q) '''' = ''room'' \<or> rq_room q \<noteq> None"

text \<open>The row a request creates: a column it leaves unsaid takes its default.\<close>

definition new_item :: "string \<Rightarrow> int item_req \<Rightarrow> dc_item" where
  "new_item u q =
     \<lparr>it_uid = u, it_rack = opt (rq_rack q) '''', it_start = opt (rq_start q) 1, it_height = opt (rq_height q) 1,
      it_face = opt (rq_face q) ''full'', it_device = opt (rq_device q) '''', it_type = opt (rq_type q) '''',
      it_label = opt (rq_label q) '''', it_role = opt (rq_role q) '''', it_build = opt (rq_build q) '''',
      it_slots = opt (rq_slots q) 1, it_slot = opt (rq_slot q) 1, it_span = opt (rq_span q) 1,
      it_split = opt (rq_split q) ''width'', it_parent = opt (rq_parent q) '''', it_placement = opt (rq_placement q) ''u'',
      it_demo = '''', it_room = opt (rq_room q) '''', it_source = '''', it_side = opt (rq_side q) '''',
      it_side_slot = opt (rq_side_slot q) 0\<rparr>"

definition item_create :: "asking \<Rightarrow> string \<Rightarrow> string list \<Rightarrow> jval item_req \<Rightarrow> dcim \<Rightarrow> dcim \<times> dc_answer" where
  "item_create a uid stamp q d =
     (if ''dcim_edit'' \<notin> set (as_perms a) then (d, Dc_Refused 403 ''access_denied'')
      else if room_item_said q then (d, Dc_Refused 400 ''dcim_use_room_items'')
      else
        let q = (case as_build a of Some b \<Rightarrow> from_build (as_cat a) b q
                 | None \<Rightarrow> if said_txt (rq_build q) '''' \<noteq> '''' then q\<lparr>rq_build := None\<rparr> else q)
        in case item_bad (from_type_item (as_cat a) q) of
          Inl e \<Rightarrow> (d, Dc_Refused 400 e)
        | Inr p \<Rightarrow>
            (case place d p '''' of
               Inl e \<Rightarrow> (d, Dc_Refused (if e = ''dcim_not_found'' then 404 else 400) e)
             | Inr (rack, p) \<Rightarrow>
                 if \<not> may_write d (seen_orgs a) Rack rack then (d, Dc_Refused 403 ''access_denied'')
                 else if said_txt (rq_parent p) '''' \<noteq> '''' \<and> \<not> may_write d (seen_orgs a) Item (said_txt (rq_parent p) '''')
                 then (d, Dc_Refused 403 ''access_denied'')
                 else case as_asset a of Some e \<Rightarrow> (d, Dc_Refused 400 e)
                 | None \<Rightarrow> (d\<lparr>d_items := row_create (new_item uid p) (d_items d),
                              d_parts := d_parts d @ map (\<lambda>u. \<lparr>pa_uid = u, pa_item = uid\<rparr>) stamp\<rparr>, Dc_Done)))"

text \<open>A row as a request that names every column, and a request laid over it: \<^verbatim>\<open>dict(item, **data)\<close>.\<close>

definition over :: "'a option \<Rightarrow> 'a \<Rightarrow> 'a option" where
  "over x v = Some (opt x v)"

definition merged :: "dc_item \<Rightarrow> int item_req \<Rightarrow> int item_req" where
  "merged i q =
     q\<lparr>rq_rack := over (rq_rack q) (it_rack i), rq_start := over (rq_start q) (it_start i), rq_height := over (rq_height q) (it_height i),
      rq_face := over (rq_face q) (it_face i), rq_role := over (rq_role q) (it_role i), rq_slots := over (rq_slots q) (it_slots i),
      rq_slot := over (rq_slot q) (it_slot i), rq_span := over (rq_span q) (it_span i), rq_split := over (rq_split q) (it_split i),
      rq_parent := over (rq_parent q) (it_parent i), rq_placement := over (rq_placement q) (it_placement i),
      rq_side := over (rq_side q) (it_side i), rq_side_slot := over (rq_side_slot q) (it_side_slot i)\<rparr>"

definition moving :: "'n item_req \<Rightarrow> bool" where
  "moving q \<longleftrightarrow> rq_rack q \<noteq> None \<or> rq_start q \<noteq> None \<or> rq_height q \<noteq> None \<or> rq_face q \<noteq> None \<or> rq_slots q \<noteq> None
     \<or> rq_slot q \<noteq> None \<or> rq_span q \<noteq> None \<or> rq_split q \<noteq> None \<or> rq_parent q \<noteq> None \<or> rq_placement q \<noteq> None
     \<or> rq_side q \<noteq> None \<or> rq_side_slot q \<noteq> None"

definition apply_req :: "int item_req \<Rightarrow> dc_item \<Rightarrow> dc_item" where
  "apply_req q i =
     i\<lparr>it_rack := opt (rq_rack q) (it_rack i), it_start := opt (rq_start q) (it_start i), it_height := opt (rq_height q) (it_height i),
      it_face := opt (rq_face q) (it_face i), it_device := opt (rq_device q) (it_device i), it_type := opt (rq_type q) (it_type i),
      it_label := opt (rq_label q) (it_label i), it_role := opt (rq_role q) (it_role i), it_slots := opt (rq_slots q) (it_slots i),
      it_slot := opt (rq_slot q) (it_slot i), it_span := opt (rq_span q) (it_span i), it_split := opt (rq_split q) (it_split i),
      it_parent := opt (rq_parent q) (it_parent i), it_placement := opt (rq_placement q) (it_placement i),
      it_side := opt (rq_side q) (it_side i), it_side_slot := opt (rq_side_slot q) (it_side_slot i)\<rparr>"

text \<open>What is mounted on a moved item goes with it.\<close>

definition take_place :: "dc_item \<Rightarrow> dc_item \<Rightarrow> dc_item" where
  "take_place t i = i\<lparr>it_rack := it_rack t, it_start := it_start t, it_height := it_height t, it_face := it_face t,
     it_placement := it_placement t\<rparr>"

definition carry_children :: "string \<Rightarrow> dcim \<Rightarrow> dcim" where
  "carry_children uid d =
     (case row_get it_uid (d_items d) uid of
        None \<Rightarrow> d
      | Some t \<Rightarrow> d\<lparr>d_items := fold (\<lambda>h rows. row_update it_uid (it_uid h) (take_place t) rows) (children_of d uid) (d_items d)\<rparr>)"

text \<open>\<^verbatim>\<open>_follow_to_rack\<close>: the leads left behind, the strip and the source the item is, and its cables when asked.\<close>

definition site_of_rack :: "dcim \<Rightarrow> string \<Rightarrow> string" where
  "site_of_rack d rack =
     (case row_get rk_uid (d_racks d) rack of None \<Rightarrow> '''' | Some r \<Rightarrow>
        (case row_get ro_uid (d_rooms d) (rk_room r) of None \<Rightarrow> '''' | Some v \<Rightarrow> ro_site v))"

definition unplug_far :: "string list \<Rightarrow> string \<Rightarrow> dcim \<Rightarrow> dcim" where
  "unplug_far us rack d =
     (let here = set (map pu_uid (pdus_of d rack))
      in d\<lparr>d_feeds := filter (\<lambda>f. \<not> (fd_item f \<in> set us \<and> fd_pdu f \<notin> here)) (d_feeds d)\<rparr>)"

definition move_strip :: "string \<Rightarrow> dc_pdu \<Rightarrow> dcim \<Rightarrow> dcim" where
  "move_strip rack p d =
     (let far = (case row_get so_uid (d_sources d) (pu_source p) of None \<Rightarrow> False
                 | Some s \<Rightarrow> so_site s \<noteq> '''' \<and> so_site s \<noteq> site_of_rack d rack);
          d = d\<lparr>d_pdus := row_update pu_uid (pu_uid p)
                 (\<lambda>p. (if far then p\<lparr>pu_rack := rack, pu_source := ''''\<rparr> else p\<lparr>pu_rack := rack\<rparr>)) (d_pdus d)\<rparr>
      in d\<lparr>d_feeds := filter (\<lambda>f. \<not> (fd_pdu f = pu_uid p \<and>
             (case row_get it_uid (d_items d) (fd_item f) of None \<Rightarrow> '''' | Some i \<Rightarrow> it_rack i) \<noteq> rack)) (d_feeds d)\<rparr>)"

definition leave_sources :: "string \<Rightarrow> string \<Rightarrow> dcim \<Rightarrow> dcim" where
  "leave_sources uid rack d =
     (let site = site_of_rack d rack
      in d\<lparr>d_sources := map (\<lambda>s. if so_item s = uid \<and> so_site s \<noteq> '''' \<and> so_site s \<noteq> site then s\<lparr>so_item := ''''\<rparr> else s)
             (d_sources d)\<rparr>)"

definition follow_to_rack :: "string \<Rightarrow> string \<Rightarrow> bool \<Rightarrow> dcim \<Rightarrow> dcim" where
  "follow_to_rack uid rack disconnect d =
     (let us = uid # map it_uid (children_of d uid);
          d = unplug_far us rack d;
          d = fold (move_strip rack) (filter (\<lambda>p. pu_item p = uid) (d_pdus d)) d;
          d = leave_sources uid rack d
      in if disconnect then d\<lparr>d_cables := filter (\<lambda>c. c \<notin> set (cables_of d us)) (d_cables d)\<rparr> else d)"

definition item_update :: "asking \<Rightarrow> string \<Rightarrow> jval item_req \<Rightarrow> dcim \<Rightarrow> dcim \<times> dc_answer" where
  "item_update a uid q d =
     (if ''dcim_edit'' \<notin> set (as_perms a) then (d, Dc_Refused 403 ''access_denied'')
      else case row_get it_uid (d_items d) uid of
        None \<Rightarrow> (d, Dc_Refused 404 ''dcim_not_found'')
      | Some i \<Rightarrow>
          if \<not> may_write d (seen_orgs a) Item uid then (d, Dc_Refused 403 ''access_denied'')
          else if it_placement i = ''room'' \<or> room_item_said q then (d, Dc_Refused 400 ''dcim_use_room_items'')
          else case item_bad (q\<lparr>rq_build := None\<rparr>) of
            Inl e \<Rightarrow> (d, Dc_Refused 400 e)
          | Inr p \<Rightarrow>
              (case (if \<not> moving p then Inr p
                     else if said_txt (rq_parent p) '''' \<noteq> '''' \<and> children_of d uid \<noteq> [] then Inl (400, ''dcim_mount_nested'')
                     else case place d (merged i p) uid of
                       Inl e \<Rightarrow> Inl (400, e)
                     | Inr (rack, m) \<Rightarrow>
                         if rack \<noteq> it_rack i \<and> \<not> may_write d (seen_orgs a) Rack rack then Inl (403, ''access_denied'')
                         else if said_txt (rq_parent m) '''' \<noteq> '''' \<and> said_txt (rq_parent m) '''' \<noteq> it_parent i
                                 \<and> \<not> may_write d (seen_orgs a) Item (said_txt (rq_parent m) '''') then Inl (403, ''access_denied'')
                         else Inr (p\<lparr>rq_rack := rq_rack m, rq_start := rq_start m, rq_height := rq_height m, rq_face := rq_face m,
                                     rq_side := rq_side m, rq_side_slot := rq_side_slot m\<rparr>)) of
                 Inl (st, e) \<Rightarrow> (d, Dc_Refused st e)
               | Inr p' \<Rightarrow>
                   (case as_asset a of Some e \<Rightarrow> (d, Dc_Refused 400 e)
                    | None \<Rightarrow>
                        let d' = d\<lparr>d_items := row_update it_uid uid (apply_req p') (d_items d)\<rparr>;
                            d' = (if moving p then carry_children uid d' else d');
                            now = (case row_get it_uid (d_items d') uid of None \<Rightarrow> '''' | Some j \<Rightarrow> it_rack j)
                        in ((if now \<noteq> '''' \<and> now \<noteq> it_rack i then follow_to_rack uid now (rq_disconnect p) d' else d'), Dc_Done))))"

definition item_delete :: "asking \<Rightarrow> string \<Rightarrow> dcim \<Rightarrow> dcim \<times> dc_answer" where
  "item_delete a uid d =
     (if ''dcim_edit'' \<notin> set (as_perms a) then (d, Dc_Refused 403 ''access_denied'')
      else if row_get it_uid (d_items d) uid = None then (d, Dc_Refused 404 ''dcim_not_found'')
      else if \<not> may_write d (seen_orgs a) Item uid then (d, Dc_Refused 403 ''access_denied'')
      else if children_of d uid \<noteq> [] then (d, Dc_Refused 400 ''dcim_mount_in_use'')
      else (forget_scope Item uid
             (d\<lparr>d_feeds := filter (\<lambda>f. fd_item f \<noteq> uid) (d_feeds d),
               d_cables := filter (\<lambda>c. c \<notin> set (cables_of d [uid])) (d_cables d),
               d_parts := filter (\<lambda>p. pa_item p \<noteq> uid) (d_parts d),
               d_sources := map (\<lambda>s. if so_item s = uid then s\<lparr>so_item := ''''\<rparr> else s) (d_sources d),
               d_pdus := map (\<lambda>p. if pu_item p = uid then p\<lparr>pu_item := ''''\<rparr> else p) (d_pdus d),
               d_links := map (\<lambda>l. (if ln_b l = uid then (\<lambda>l. l\<lparr>ln_b := ''''\<rparr>) else id) (if ln_a l = uid then l\<lparr>ln_a := ''''\<rparr> else l)) (d_links d),
               d_items := row_delete it_uid uid (d_items d)\<rparr>), Dc_Done))"

section \<open>The requests about a rack\<close>

record rack_req =
  rr_room :: "string option"
  rr_name :: "string option"
  rr_height :: "jval option"
  rr_depth :: "jval option"
  rr_front :: "jval option"
  rr_mount :: "jval option"
  rr_rear :: "jval option"
  rr_access :: "string option"
  rr_row :: "string option"

record rack_nums =
  rn_height :: "int option"
  rn_depth :: "int option"
  rn_front :: "int option"
  rn_mount :: "int option"
  rn_rear :: "int option"

definition RACK_U_MAX :: int where
  "RACK_U_MAX = 100"

definition rack_numbers :: "rack_req \<Rightarrow> string + rack_nums" where
  "rack_numbers q =
     (let h = map_option (num_col 42 1 RACK_U_MAX) (rr_height q); dp = map_option (num_col 1000 0 NUM_MAX) (rr_depth q);
          fr = map_option (num_col 0 0 NUM_MAX) (rr_front q); mo = map_option (num_col 0 0 NUM_MAX) (rr_mount q);
          re = map_option (num_col 0 0 NUM_MAX) (rr_rear q)
      in case find (\<lambda>(c, v). v = Some None) [(''u_height'', h), (''depth_mm'', dp), (''rail_front_mm'', fr),
                (''rail_depth_mm'', mo), (''rail_rear_mm'', re)] of
           Some (c, _) \<Rightarrow> Inl c
         | None \<Rightarrow> Inr \<lparr>rn_height = Option.bind h id, rn_depth = Option.bind dp id, rn_front = Option.bind fr id,
                         rn_mount = Option.bind mo id, rn_rear = Option.bind re id\<rparr>)"

text \<open>The row a request creates, and what an edit makes of one: a rack that changes room leaves its row.\<close>

definition new_rack :: "string \<Rightarrow> string \<Rightarrow> rack_req \<Rightarrow> rack_nums \<Rightarrow> dc_rack" where
  "new_rack uid room q n =
     \<lparr>rk_uid = uid, rk_room = room, rk_name = opt (rr_name q) '''', rk_height = opt (rn_height n) 42,
      rk_depth = opt (rn_depth n) 1000, rk_front = opt (rn_front n) 0, rk_mount = opt (rn_mount n) 0,
      rk_rear = opt (rn_rear n) 0, rk_access = opt (rr_access q) ''front,rear,left,right'',
      rk_row = opt (rr_row q) ''''\<rparr>"

definition rack_edit :: "rack_req \<Rightarrow> rack_nums \<Rightarrow> string \<Rightarrow> bool \<Rightarrow> dc_rack \<Rightarrow> dc_rack" where
  "rack_edit q n room elsewhere r =
     r\<lparr>rk_room := room, rk_name := opt (rr_name q) (rk_name r), rk_height := opt (rn_height n) (rk_height r),
       rk_depth := opt (rn_depth n) (rk_depth r), rk_front := opt (rn_front n) (rk_front r),
       rk_mount := opt (rn_mount n) (rk_mount r), rk_rear := opt (rn_rear n) (rk_rear r),
       rk_access := opt (rr_access q) (rk_access r),
       rk_row := opt (rr_row q) (if elsewhere then '''' else rk_row r)\<rparr>"

text \<open>Whether a row of racks is of this room is the answer of a query on a table that is not modelled: \<open>row_ok\<close>.\<close>

definition rack_create :: "asking \<Rightarrow> (string \<Rightarrow> string \<Rightarrow> bool) \<Rightarrow> string \<Rightarrow> rack_req \<Rightarrow> dcim \<Rightarrow> dcim \<times> dc_answer" where
  "rack_create a row_ok uid q d =
     (if ''dcim_edit'' \<notin> set (as_perms a) then (d, Dc_Refused 403 ''access_denied'')
      else if py_strip (said_txt (rr_room q) '''') = '''' then (d, Dc_Refused 400 ''dcim_name_required'')
      else let room = said_txt (rr_room q) ''''
        in if row_get ro_uid (d_rooms d) room = None then (d, Dc_Refused 404 ''dcim_not_found'')
           else if \<not> may_write d (seen_orgs a) Room room then (d, Dc_Refused 403 ''access_denied'')
           else case rack_numbers q of
             Inl c \<Rightarrow> (d, Dc_Refused 400 ''dcim_bad_number'')
           | Inr n \<Rightarrow>
               if said_txt (rr_row q) '''' \<noteq> '''' \<and> \<not> row_ok (said_txt (rr_row q) '''') room then (d, Dc_Refused 400 ''dcim_row_other_room'')
               else (case as_asset a of Some e \<Rightarrow> (d, Dc_Refused 400 e)
                 | None \<Rightarrow> (d\<lparr>d_racks := row_create (new_rack uid room q n) (d_racks d)\<rparr>, Dc_Done)))"

text \<open>\<^verbatim>\<open>_top_used\<close>: the highest unit something occupies, by either face.\<close>

definition top_used :: "dcim \<Rightarrow> string \<Rightarrow> int" where
  "top_used d rack = (let us = map (snd \<circ> fst) (oc_taken (occupancy d rack)) in if us = [] then 0 else Max (set us))"

definition rack_update :: "asking \<Rightarrow> (string \<Rightarrow> string \<Rightarrow> bool) \<Rightarrow> string \<Rightarrow> rack_req \<Rightarrow> dcim \<Rightarrow> dcim \<times> dc_answer" where
  "rack_update a row_ok uid q d =
     (if ''dcim_edit'' \<notin> set (as_perms a) then (d, Dc_Refused 403 ''access_denied'')
      else case row_get rk_uid (d_racks d) uid of
        None \<Rightarrow> (d, Dc_Refused 404 ''dcim_not_found'')
      | Some r \<Rightarrow>
          let room = opt (rr_room q) (rk_room r); elsewhere = rr_room q \<noteq> None \<and> room \<noteq> rk_room r
          in if \<not> may_write d (seen_orgs a) Rack uid then (d, Dc_Refused 403 ''access_denied'')
             else if elsewhere \<and> row_get ro_uid (d_rooms d) room = None then (d, Dc_Refused 404 ''dcim_not_found'')
             else if elsewhere \<and> \<not> may_write d (seen_orgs a) Room room then (d, Dc_Refused 403 ''access_denied'')
             else case rack_numbers q of
               Inl c \<Rightarrow> (d, Dc_Refused 400 ''dcim_bad_number'')
             | Inr n \<Rightarrow>
                 if said_txt (rr_row q) '''' \<noteq> '''' \<and> \<not> row_ok (said_txt (rr_row q) '''') room then (d, Dc_Refused 400 ''dcim_row_other_room'')
                 else if rn_height n \<noteq> None \<and> opt (rn_height n) 0 < top_used d uid then (d, Dc_Refused 409 ''dcim_rack_shrink_occupied'')
                 else (case as_asset a of Some e \<Rightarrow> (d, Dc_Refused 400 e)
                   | None \<Rightarrow>
                       if elsewhere \<and> (case row_get ro_uid (d_rooms d) room of None \<Rightarrow> '''' | Some n \<Rightarrow> ro_site n)
                             \<noteq> (case row_get ro_uid (d_rooms d) (rk_room r) of None \<Rightarrow> '''' | Some v \<Rightarrow> ro_site v)
                       then (d, Dc_Refused 400 ''dcim_rack_other_site'')
                       else (d\<lparr>d_racks := row_update rk_uid uid (rack_edit q n room elsewhere) (d_racks d)\<rparr>, Dc_Done)))"

text \<open>\<^verbatim>\<open>empty_rack\<close>: everything in a rack goes, bottom-up.\<close>

definition empty_rack :: "string \<Rightarrow> dcim \<Rightarrow> dcim" where
  "empty_rack rack d =
     (let us = map it_uid (items_of d rack); ps = map pu_uid (pdus_of d rack);
          d = d\<lparr>d_feeds := filter (\<lambda>f. \<not> (fd_pdu f \<in> set (filter (\<lambda>p. p \<noteq> '''') ps) \<or> fd_item f \<in> set us)) (d_feeds d),
                d_cables := filter (\<lambda>c. c \<notin> set (cables_of d us)) (d_cables d),
                d_parts := filter (\<lambda>p. p \<notin> set (parts_of d us)) (d_parts d),
                d_sources := map (\<lambda>s. if so_item s \<in> set us then s\<lparr>so_item := ''''\<rparr> else s) (d_sources d),
                d_pdus := filter (\<lambda>p. pu_uid p \<notin> set ps)
                  (map (\<lambda>p. if pu_uid p \<notin> set ps \<and> pu_item p \<in> set us then p\<lparr>pu_item := ''''\<rparr> else p) (d_pdus d))\<rparr>
      in fold (\<lambda>u d. forget_scope Item u (d\<lparr>d_items := row_delete it_uid u (d_items d)\<rparr>)) us d)"

definition rack_contents :: "dcim \<Rightarrow> string \<Rightarrow> nat" where
  "rack_contents d rack = length (items_of d rack) + length (pdus_of d rack)"

definition emptied :: "string \<Rightarrow> dcim \<Rightarrow> dcim" where
  "emptied uid d = (if rack_contents d uid \<noteq> 0 then empty_rack uid d else d)"

definition rack_delete :: "asking \<Rightarrow> bool \<Rightarrow> string \<Rightarrow> dcim \<Rightarrow> dcim \<times> dc_answer" where
  "rack_delete a with_contents uid d =
     (if ''dcim_edit'' \<notin> set (as_perms a) then (d, Dc_Refused 403 ''access_denied'')
      else if row_get rk_uid (d_racks d) uid = None then (d, Dc_Refused 404 ''dcim_not_found'')
      else if \<not> may_write d (seen_orgs a) Rack uid then (d, Dc_Refused 403 ''access_denied'')
      else if rack_contents d uid \<noteq> 0 \<and> \<not> with_contents then (d, Dc_Refused 409 ''dcim_container_not_empty'')
      else if rack_contents d uid \<noteq> 0 \<and> list_ex (\<lambda>i. \<not> may_write d (seen_orgs a) Item (it_uid i)) (items_of d uid)
      then (d, Dc_Refused 403 ''dcim_rack_foreign_items'')
      else let d = emptied uid d
           in (forget_scope Rack uid (d\<lparr>d_racks := row_delete rk_uid uid (d_racks d)\<rparr>), Dc_Done))"

end
