(* ===== verification/Dcim_Rack_Proofs.thy ===== *)
theory Dcim_Rack_Proofs
  imports Dcim_Rack
begin

text \<open>
  What the requests about items and racks keep, whoever makes them: everything bolted to the posts lies inside its
  rack, no two things share a face, a unit and a piece of it, and what is mounted hangs from something that is in the
  same place and is not mounted itself.
\<close>

section \<open>A rack that can exist\<close>

definition same_place :: "dc_item \<Rightarrow> dc_item \<Rightarrow> bool" where
  "same_place p i \<longleftrightarrow> it_rack p = it_rack i \<and> it_start p = it_start i \<and> it_height p = it_height i \<and> it_face p = it_face i"

definition housed :: "dc_rack list \<Rightarrow> dc_item \<Rightarrow> bool" where
  "housed R i \<longleftrightarrow> (it_rack i \<in> rk_uid ` set R \<and> it_placement i \<noteq> ''room'')
     \<or> (it_rack i = '''' \<and> it_placement i = ''room'' \<and> it_parent i = '''')"

definition inside :: "dc_rack list \<Rightarrow> dc_item \<Rightarrow> bool" where
  "inside R i \<longleftrightarrow> (on_rails i \<longrightarrow> txt_or (it_face i) ''full'' \<in> set FACES \<and>
     (\<forall>r \<in> set R. rk_uid r = it_rack i \<longrightarrow> 1 \<le> it_start i \<and> it_start i + max 1 (num_or (it_height i) 1) - 1 \<le> rk_height r))"

definition apart :: "dc_item \<Rightarrow> dc_item \<Rightarrow> bool" where
  "apart i j \<longleftrightarrow> (it_rack i = it_rack j \<longrightarrow> (\<exists>fu. taken_by i fu \<and> taken_by j fu) \<longrightarrow> \<not> overlap (item_slot i) (item_slot j))"

definition side_by_side :: "dc_item \<Rightarrow> dc_item \<Rightarrow> bool" where
  "side_by_side i j \<longleftrightarrow> (it_parent i = it_parent j \<longrightarrow> it_parent i \<noteq> '''' \<longrightarrow> 1 < num_or (it_slots i) 1 \<longrightarrow> 1 < num_or (it_slots j) 1
     \<longrightarrow> \<not> pieces_meet (item_piece i) (item_piece j))"

definition hangs :: "dc_item list \<Rightarrow> dc_item \<Rightarrow> bool" where
  "hangs I i \<longleftrightarrow> (it_parent i \<noteq> '''' \<longrightarrow> (\<exists>p \<in> set I. it_uid p = it_parent i \<and> it_parent p = '''' \<and> same_place p i))"

definition racks_ok :: "dc_rack list \<Rightarrow> dc_item list \<Rightarrow> bool" where
  "racks_ok R I \<longleftrightarrow> distinct (map rk_uid R) \<and> '''' \<notin> rk_uid ` set R \<and> distinct (map it_uid I) \<and> '''' \<notin> it_uid ` set I
     \<and> (\<forall>i \<in> set I. housed R i \<and> inside R i \<and> hangs I i)
     \<and> (\<forall>i \<in> set I. \<forall>j \<in> set I. it_uid i \<noteq> it_uid j \<longrightarrow> apart i j \<and> side_by_side i j)"

lemma racks_okI:
  assumes "distinct (map rk_uid R)" "'''' \<notin> rk_uid ` set R" "distinct (map it_uid I)" "'''' \<notin> it_uid ` set I"
    and "\<And>i. i \<in> set I \<Longrightarrow> housed R i" "\<And>i. i \<in> set I \<Longrightarrow> inside R i" "\<And>i. i \<in> set I \<Longrightarrow> hangs I i"
    and "\<And>i j. i \<in> set I \<Longrightarrow> j \<in> set I \<Longrightarrow> it_uid i \<noteq> it_uid j \<Longrightarrow> apart i j"
    and "\<And>i j. i \<in> set I \<Longrightarrow> j \<in> set I \<Longrightarrow> it_uid i \<noteq> it_uid j \<Longrightarrow> side_by_side i j"
  shows "racks_ok R I"
  using assms unfolding racks_ok_def by blast

lemma racks_okD:
  assumes "racks_ok R I"
  shows "distinct (map rk_uid R)" "'''' \<notin> rk_uid ` set R" "distinct (map it_uid I)" "'''' \<notin> it_uid ` set I"
    and "i \<in> set I \<Longrightarrow> housed R i" "i \<in> set I \<Longrightarrow> inside R i" "i \<in> set I \<Longrightarrow> hangs I i"
    and "i \<in> set I \<Longrightarrow> j \<in> set I \<Longrightarrow> it_uid i \<noteq> it_uid j \<Longrightarrow> apart i j"
    and "i \<in> set I \<Longrightarrow> j \<in> set I \<Longrightarrow> it_uid i \<noteq> it_uid j \<Longrightarrow> side_by_side i j"
  using assms unfolding racks_ok_def by blast+

lemma apart_sym: "apart i j \<Longrightarrow> apart j i"
  unfolding apart_def by (auto simp: overlap_commute)

lemma side_by_side_sym: "side_by_side i j \<Longrightarrow> side_by_side j i"
  unfolding side_by_side_def pieces_meet_def by auto

lemma mounted_apart: "it_parent i \<noteq> '''' \<Longrightarrow> apart i j" "it_parent i \<noteq> '''' \<Longrightarrow> apart j i"
  by (auto simp: apart_def taken_by_def on_rails_def)

lemma mounted_inside: "it_parent i \<noteq> '''' \<Longrightarrow> inside R i"
  by (simp add: inside_def on_rails_def)

text \<open>Two rows alike in what places them.\<close>

definition alike :: "dc_item \<Rightarrow> dc_item \<Rightarrow> bool" where
  "alike i j \<longleftrightarrow> it_uid i = it_uid j \<and> same_place i j \<and> it_parent i = it_parent j \<and> it_placement i = it_placement j
     \<and> it_slots i = it_slots j \<and> it_slot i = it_slot j \<and> it_span i = it_span j"

lemma alike_views:
  assumes "alike i j"
  shows "it_uid i = it_uid j" "it_rack i = it_rack j" "it_parent i = it_parent j" "on_rails i = on_rails j" "taken_by i = taken_by j"
    "item_slot i = item_slot j" "item_piece i = item_piece j" "housed R i = housed R j" "inside R i = inside R j"
  using assms unfolding alike_def same_place_def
  by (auto simp: on_rails_def taken_by_def places_of_def item_slot_def item_piece_def housed_def inside_def fun_eq_iff)

lemma alike_pairs:
  assumes "alike i i'" "alike j j'"
  shows "apart i j = apart i' j'" "side_by_side i j = side_by_side i' j'"
  using alike_views [OF assms(1)] alike_views [OF assms(2)] assms unfolding apart_def side_by_side_def alike_def by auto

lemma racks_ok_alike:
  assumes ok: "racks_ok R I" and h: "\<And>i. i \<in> set I \<Longrightarrow> alike (h i) i"
  shows "racks_ok R (map h I)"
proof -
  have uid: "it_uid (h i) = it_uid i" if "i \<in> set I" for i using h [OF that] by (simp add: alike_def)
  have keys: "map it_uid (map h I) = map it_uid I" using uid by simp
  have set: "it_uid ` set (map h I) = it_uid ` set I" by (metis keys set_map)
  show ?thesis
  proof (rule racks_okI)
    fix i assume "i \<in> set (map h I)"
    then obtain i0 where i: "i0 \<in> set I" "i = h i0" by auto
    show "housed R i" "inside R i" using alike_views [OF h [OF i(1)]] racks_okD [OF ok] i by auto
    show "hangs (map h I) i"
      unfolding hangs_def
    proof
      assume "it_parent i \<noteq> ''''"
      then obtain p where p: "p \<in> set I" "it_uid p = it_parent i0" "it_parent p = ''''" "same_place p i0"
        using racks_okD(7) [OF ok i(1)] h [OF i(1)] i(2) by (auto simp: hangs_def alike_def)
      then show "\<exists>p \<in> set (map h I). it_uid p = it_parent i \<and> it_parent p = '''' \<and> same_place p i"
        using h [OF p(1)] h [OF i(1)] i by (intro bexI [of _ "h p"]) (auto simp: alike_def same_place_def)
    qed
  next
    fix i j assume "i \<in> set (map h I)" "j \<in> set (map h I)" "it_uid i \<noteq> it_uid j"
    then obtain i0 j0 where "i0 \<in> set I" "i = h i0" "j0 \<in> set I" "j = h j0" "it_uid i0 \<noteq> it_uid j0"
      using uid by auto
    then show "apart i j" "side_by_side i j"
      using alike_pairs [OF h [of i0] h [of j0]] racks_okD(8,9) [OF ok, of i0 j0] by auto
  qed (use racks_okD(1-4) [OF ok] in \<open>simp_all only: keys set not_False_eq_True\<close>)
qed

lemma take_place_views:
  "it_uid (take_place t i) = it_uid i" "it_parent (take_place t i) = it_parent i" "it_rack (take_place t i) = it_rack t"
  "it_placement (take_place t i) = it_placement t" "item_piece (take_place t i) = item_piece i" "it_slots (take_place t i) = it_slots i"
  "same_place t (take_place t i)" "take_place t (take_place t i) = take_place t i"
  by (auto simp: take_place_def item_piece_def same_place_def)

text \<open>One row replaced, and what is mounted on it carried along.\<close>

lemma racks_ok_move:
  assumes ok: "racks_ok R I" and i: "i \<in> set I" and u: "it_uid i = u" "it_uid i' = u"
    and good: "housed R i'" "inside R i'" "it_placement i' \<noteq> ''room''"
    and others: "\<And>j. j \<in> set I \<Longrightarrow> it_uid j \<noteq> u \<Longrightarrow> apart i' j \<and> side_by_side i' j"
    and up: "it_parent i' \<noteq> '''' \<Longrightarrow> \<exists>p \<in> set I. it_uid p \<noteq> u \<and> it_uid p = it_parent i' \<and> it_parent p = '''' \<and> same_place p i'"
    and down: "\<And>c. c \<in> set I \<Longrightarrow> it_parent c = u \<Longrightarrow> it_parent i' = ''''"
  shows "racks_ok R (map (\<lambda>j. if it_uid j = u then i' else if it_parent j = u then take_place i' j else j) I)"
proof -
  define h where "h j = (if it_uid j = u then i' else if it_parent j = u then take_place i' j else j)" for j
  have une: "u \<noteq> ''''" using racks_okD(4) [OF ok] i u(1) by (metis imageI)
  have uid: "it_uid (h j) = it_uid j" for j by (auto simp: h_def u take_place_views)
  have keys: "map it_uid (map h I) = map it_uid I" by (simp add: uid)
  have setk: "it_uid ` set (map h I) = it_uid ` set I" by (auto simp: uid image_image)
  have self: "h j = i'" if "it_uid j = u" for j using that by (simp add: h_def)
  have mounted: "it_parent (h j) = u \<and> it_parent (h j) \<noteq> ''''" if "it_uid j \<noteq> u" "it_parent j = u" for j
    using that une by (simp add: h_def take_place_views)
  have other: "h j = j" if "it_uid j \<noteq> u" "it_parent j \<noteq> u" for j using that by (simp add: h_def)
  have top: "h p = p" if "it_uid p \<noteq> u" "it_parent p = ''''" for p using that une other by simp
  have sbs: "side_by_side (h j) k = side_by_side j k" if "it_uid j \<noteq> u" for j k
    using that by (auto simp: h_def side_by_side_def take_place_views)
  have hang: "hangs (map h I) j"
    if H: "it_parent j \<noteq> '''' \<Longrightarrow> \<exists>p \<in> set I. it_uid p \<noteq> u \<and> it_uid p = it_parent j \<and> it_parent p = '''' \<and> same_place p j" for j
    unfolding hangs_def
  proof
    assume "it_parent j \<noteq> ''''"
    then obtain p where "p \<in> set I" "it_uid p \<noteq> u" "it_uid p = it_parent j" "it_parent p = ''''" "same_place p j"
      using H by blast
    then show "\<exists>p \<in> set (map h I). it_uid p = it_parent j \<and> it_parent p = '''' \<and> same_place p j"
      using top by (metis imageI set_map)
  qed
  have "racks_ok R (map h I)"
  proof (rule racks_okI)
    fix j assume "j \<in> set (map h I)"
    then obtain j0 where j: "j0 \<in> set I" "j = h j0" by auto
    consider (s) "it_uid j0 = u" | (c) "it_uid j0 \<noteq> u" "it_parent j0 = u" | (r) "it_uid j0 \<noteq> u" "it_parent j0 \<noteq> u" by auto
    note cases = this
    show "housed R j"
      using cases
    proof cases
      case c
      then have "j = take_place i' j0" using j by (simp add: h_def)
      then show ?thesis using good by (auto simp: housed_def take_place_views)
    qed (use good j racks_okD(5) [OF ok] self other in auto)
    show "inside R j"
      using cases
    proof cases
      case c
      then show ?thesis using mounted [of j0] mounted_inside j by auto
    qed (use good j racks_okD(6) [OF ok] self other in auto)
    show "hangs (map h I) j"
      using cases
    proof cases
      case s
      then show ?thesis using hang [OF up] self j by auto
    next
      case c
      then have jt: "j = take_place i' j0" using j by (simp add: h_def)
      have "it_parent i' = ''''" using down [OF j(1)] c by simp
      moreover have "i' \<in> set (map h I)" using self [OF u(1)] i by force
      ultimately show ?thesis using c jt u by (auto simp only: hangs_def take_place_views intro!: bexI [of _ i'])
    next
      case r
      have "hangs (map h I) j0" using racks_okD(7) [OF ok j(1)] r by (intro hang) (metis hangs_def)
      then show ?thesis using r j other by simp
    qed
  next
    fix j k assume "j \<in> set (map h I)" "k \<in> set (map h I)" and ne: "it_uid j \<noteq> it_uid k"
    then obtain j0 k0 where jk: "j0 \<in> set I" "j = h j0" "k0 \<in> set I" "k = h k0" by auto
    have ne0: "it_uid j0 \<noteq> it_uid k0" using ne jk by (simp add: uid)
    show "apart j k"
    proof (cases "(it_uid j0 \<noteq> u \<and> it_parent j0 = u) \<or> (it_uid k0 \<noteq> u \<and> it_parent k0 = u)")
      case True
      then show ?thesis using mounted [of j0] mounted [of k0] mounted_apart jk by auto
    next
      case False
      then show ?thesis
        using jk ne0 others [of k0] others [of j0, THEN conjunct1, THEN apart_sym] racks_okD(8) [OF ok jk(1,3)] self other by metis
    qed
    have "side_by_side (h j0) (h k0)"
    proof (cases "it_uid j0 = u")
      case True
      then have "side_by_side (h k0) i'" using ne0 others [OF jk(3)] sbs [of k0 i'] side_by_side_sym by auto
      then show ?thesis using True self side_by_side_sym by auto
    next
      case j: False
      show ?thesis
      proof (cases "it_uid k0 = u")
        case True
        then show ?thesis using j others [OF jk(1)] sbs [OF j] self side_by_side_sym by auto
      next
        case False
        then show ?thesis using sbs [OF j] sbs [OF False] racks_okD(9) [OF ok jk(1,3) ne0] side_by_side_sym by metis
      qed
    qed
    then show "side_by_side j k" using jk by simp
  qed (use racks_okD(1-4) [OF ok] in \<open>simp_all only: keys setk not_False_eq_True\<close>)
  then show ?thesis by (simp add: h_def [abs_def])
qed

text \<open>A new row, and rows that go.\<close>

lemma racks_ok_new:
  assumes ok: "racks_ok R I" and new: "it_uid n \<notin> it_uid ` set I" "it_uid n \<noteq> ''''"
    and good: "housed R n" "inside R n"
    and others: "\<And>j. j \<in> set I \<Longrightarrow> apart n j \<and> side_by_side n j"
    and up: "it_parent n \<noteq> '''' \<Longrightarrow> \<exists>p \<in> set I. it_uid p = it_parent n \<and> it_parent p = '''' \<and> same_place p n"
  shows "racks_ok R (row_create n I)"
proof (rule racks_okI)
  fix j assume j: "j \<in> set (row_create n I)"
  show "housed R j" "inside R j" using j good racks_okD(5,6) [OF ok] by auto
  show "hangs (row_create n I) j" using j up racks_okD(7) [OF ok, of j] unfolding hangs_def by auto
next
  fix j k assume jk: "j \<in> set (row_create n I)" "k \<in> set (row_create n I)" "it_uid j \<noteq> it_uid k"
  show "apart j k" using jk others apart_sym racks_okD(8) [OF ok, of j k] by auto
  show "side_by_side j k" using jk others side_by_side_sym racks_okD(9) [OF ok, of j k] by auto
qed (use racks_okD(1-4) [OF ok] new in \<open>auto simp: row_create_def\<close>)

lemma racks_ok_drop:
  assumes ok: "racks_ok R I" and R: "distinct (map rk_uid R')" "'''' \<notin> rk_uid ` set R'"
    and I: "distinct (map it_uid I')" "set I' \<subseteq> set I"
    and kept: "\<And>i. i \<in> set I' \<Longrightarrow> it_rack i \<in> rk_uid ` set R \<Longrightarrow> it_rack i \<in> rk_uid ` set R'"
    and tall: "\<And>i. i \<in> set I' \<Longrightarrow> inside R' i"
    and stay: "\<And>i p. i \<in> set I' \<Longrightarrow> p \<in> set I \<Longrightarrow> it_uid p = it_parent i \<Longrightarrow> same_place p i \<Longrightarrow> p \<in> set I'"
  shows "racks_ok R' I'"
proof (rule racks_okI)
  fix i assume i: "i \<in> set I'"
  then have iI: "i \<in> set I" using I by auto
  show "housed R' i" using racks_okD(5) [OF ok iI] kept [OF i] by (auto simp: housed_def)
  show "inside R' i" by (rule tall [OF i])
  show "hangs I' i" using racks_okD(7) [OF ok iI] stay [OF i] unfolding hangs_def by blast
next
  fix i j assume "i \<in> set I'" "j \<in> set I'" "it_uid i \<noteq> it_uid j"
  then show "apart i j" "side_by_side i j" using I(2) racks_okD(8,9) [OF ok, of i j] by auto
qed (use R I racks_okD(4) [OF ok] in auto)

section \<open>What placing promises\<close>

lemma num_or_num_or [simp]: "num_or (num_or n d) d = num_or n d"
  by (simp add: num_or_def)

lemma txt_or_txt_or [simp]: "txt_or (txt_or s d) d = txt_or s d"
  by (simp add: txt_or_def)

lemma said_opt: "said_num x d = num_or (opt x d) d" "said_txt y e = txt_or (opt y e) e"
  by (auto simp: said_num_def said_txt_def opt_def num_or_def txt_or_def split: option.splits)

lemma txt_or_empty [simp]: "txt_or s '''' = s"
  by (simp add: txt_or_def)

lemma slot_of_num_or: "slot_of (num_or a 1) (num_or b 1) (num_or c 1) = slot_of a b c"
  by (simp add: slot_of_def)

text \<open>A request that tells where a row is, with what it leaves unsaid at its default.\<close>

definition tells :: "int item_req \<Rightarrow> dc_item \<Rightarrow> bool" where
  "tells m n \<longleftrightarrow> it_rack n = opt (rq_rack m) '''' \<and> it_start n = opt (rq_start m) 1 \<and> it_height n = opt (rq_height m) 1
     \<and> it_face n = opt (rq_face m) ''full'' \<and> it_slots n = opt (rq_slots m) 1 \<and> it_slot n = opt (rq_slot m) 1
     \<and> it_span n = opt (rq_span m) 1 \<and> it_parent n = opt (rq_parent m) ''''
     \<and> (it_parent n = '''' \<longrightarrow> it_placement n = opt (rq_placement m) ''u'')"

lemma place_hung:
  assumes "place d q ig = Inr (rack, m)" "said_txt (rq_parent q) '''' \<noteq> ''''"
  obtains p where "row_get it_uid (d_items d) (said_txt (rq_parent q) '''') = Some p" "it_parent p = ''''" "it_uid p \<noteq> ig"
    "it_rack p \<noteq> ''''" "it_placement p \<noteq> ''room''" "rack = it_rack p"
    "m = q\<lparr>rq_rack := Some (it_rack p), rq_start := Some (it_start p), rq_height := Some (it_height p),
            rq_face := Some (it_face p), rq_placement := Some (it_placement p)\<rparr>"
    "\<not> mount_busy d (said_txt (rq_parent q) '''') m ig"
  using assms unfolding place_def Let_def by (auto split: option.splits if_splits)

lemma place_free:
  assumes "place d q ig = Inr (rack, m)" "said_txt (rq_parent q) '''' = ''''"
  shows "row_get rk_uid (d_racks d) rack \<noteq> None" "rack = said_txt (rq_rack q) ''''" "said_txt (rq_face q) ''full'' \<in> set FACES"
    "rq_rack m = rq_rack q" "rq_face m = rq_face q" "rq_slots m = rq_slots q" "rq_slot m = rq_slot q" "rq_span m = rq_span q"
    "rq_parent m = rq_parent q" "rq_placement m = rq_placement q"
    "said_txt (rq_placement q) ''u'' = ''u'' \<Longrightarrow> rq_start m = rq_start q \<and> rq_height m = rq_height q
       \<and> fits d rack (said_num (rq_start q) 0) (said_num (rq_height q) 1) (said_txt (rq_face q) ''full'') ig
           (slot_of (said_num (rq_slots q) 1) (said_num (rq_slot q) 1) (said_num (rq_span q) 1))"
  using assms unfolding place_def Let_def by (auto split: option.splits if_splits)

lemma fits_good:
  assumes "fits d (it_rack n) s (num_or (it_height n) 1) (txt_or (it_face n) ''full'') ig (item_slot n)" "s = it_start n"
    and D: "distinct (map rk_uid (d_racks d))" and n: "on_rails n"
  shows "inside (d_racks d) n" "j \<in> set (d_items d) \<Longrightarrow> it_uid j \<noteq> ig \<Longrightarrow> apart n j"
proof -
  have f: "faces_of (txt_or (it_face n) ''full'') = faces_of (it_face n)" by (simp add: faces_of_def txt_or_def)
  have fit: "1 \<le> it_start n" "\<exists>r. row_get rk_uid (d_racks d) (it_rack n) = Some r \<and> it_start n + max 1 (num_or (it_height n) 1) - 1 \<le> rk_height r"
    "txt_or (it_face n) ''full'' \<in> set FACES"
    and free: "\<And>u f i. u \<in> set (units_of (it_start n) (num_or (it_height n) 1)) \<Longrightarrow> f \<in> set (faces_of (it_face n)) \<Longrightarrow> i \<in> set (d_items d)
        \<Longrightarrow> it_rack i = it_rack n \<Longrightarrow> taken_by i (f, u) \<Longrightarrow> it_uid i = ig \<or> \<not> overlap (item_slot n) (item_slot i)"
    using assms(1,2) unfolding fits_iff by (auto simp: f)
  show "inside (d_racks d) n"
    using fit row_get_in [OF D] unfolding inside_def by fastforce
  have st: "num_or (it_start n) 1 = it_start n" using fit(1) by (simp add: num_or_def)
  assume j: "j \<in> set (d_items d)" "it_uid j \<noteq> ig"
  show "apart n j"
    unfolding apart_def
  proof (intro impI, elim exE conjE)
    fix fu assume same: "it_rack n = it_rack j" and t: "taken_by n fu" "taken_by j fu"
    obtain f u where fu: "fu = (f, u)" by (cases fu)
    have "u \<in> set (units_of (it_start n) (num_or (it_height n) 1))" "f \<in> set (faces_of (it_face n))"
      using t(1) by (auto simp: taken_by_def places_of_def st fu)
    then show "\<not> overlap (item_slot n) (item_slot j)" using free j same t(2) fu by auto
  qed
qed

lemma placed_good:
  assumes ok: "racks_ok (d_racks d) (d_items d)" and p: "place d q ig = Inr (rack, m)" and t: "tells m n" and pl: "it_placement n \<noteq> ''room''"
    and par: "rq_parent m = rq_parent q"
  shows "housed (d_racks d) n" "inside (d_racks d) n" "it_rack n = rack"
    "j \<in> set (d_items d) \<Longrightarrow> it_uid j \<noteq> ig \<Longrightarrow> apart n j \<and> side_by_side n j"
    "it_parent n \<noteq> '''' \<Longrightarrow> \<exists>p \<in> set (d_items d). it_uid p \<noteq> ig \<and> it_uid p = it_parent n \<and> it_parent p = '''' \<and> same_place p n"
proof -
  note D = racks_okD [OF ok]
  have pn: "it_parent n = said_txt (rq_parent q) ''''" using t by (simp add: tells_def par said_opt)
  have "housed (d_racks d) n \<and> inside (d_racks d) n \<and> it_rack n = rack
      \<and> (\<forall>j \<in> set (d_items d). it_uid j \<noteq> ig \<longrightarrow> apart n j \<and> side_by_side n j)
      \<and> (it_parent n \<noteq> '''' \<longrightarrow> (\<exists>p \<in> set (d_items d). it_uid p \<noteq> ig \<and> it_uid p = it_parent n \<and> it_parent p = '''' \<and> same_place p n))"
  proof (cases "it_parent n = ''''")
    case False
    obtain p where p: "row_get it_uid (d_items d) (it_parent n) = Some p" "it_parent p = ''''" "it_uid p \<noteq> ig"
      "it_rack p \<noteq> ''''" "it_placement p \<noteq> ''room''" "rack = it_rack p"
      and m: "m = q\<lparr>rq_rack := Some (it_rack p), rq_start := Some (it_start p), rq_height := Some (it_height p),
            rq_face := Some (it_face p), rq_placement := Some (it_placement p)\<rparr>"
      and busy: "\<not> mount_busy d (it_parent n) m ig"
      using place_hung [OF p] False unfolding pn by metis
    have pin: "p \<in> set (d_items d)" "it_uid p = it_parent n" using row_get_Some [OF p(1)] by auto
    have same: "same_place p n" using t by (simp add: tells_def m same_place_def opt_def)
    have "side_by_side n j" if j: "j \<in> set (d_items d)" "it_uid j \<noteq> ig" for j
      using busy j t unfolding side_by_side_def mount_busy_def list_ex_iff children_of_def
      by (auto simp: tells_def said_opt item_piece_def)
    moreover have "housed (d_racks d) n" using D(5) [OF pin(1)] p(4) same pl by (auto simp: housed_def same_place_def)
    ultimately show ?thesis
      using False pin p same mounted_inside mounted_apart(1) by (intro conjI bexI [of _ p] impI ballI) (auto simp: same_place_def)
  next
    case True
    then have free: "said_txt (rq_parent q) '''' = ''''" using pn by simp
    note F = place_free [OF p free]
    have rack: "it_rack n = rack" using t F(2,4) by (simp add: tells_def said_opt)
    then have house: "housed (d_racks d) n" using F(1) pl by (auto simp: housed_def row_get_None)
    have side: "side_by_side n j" for j using True by (simp add: side_by_side_def)
    show ?thesis
    proof (cases "on_rails n")
      case False
      then show ?thesis using True rack house side by (auto simp: inside_def apart_def taken_by_def)
    next
      case rails: True
      then have "said_txt (rq_placement q) ''u'' = ''u''"
        using t True F(10) by (auto simp: tells_def on_rails_def said_opt)
      then have st: "rq_start m = rq_start q" "rq_height m = rq_height q"
        and fit: "fits d rack (said_num (rq_start q) 0) (said_num (rq_height q) 1) (said_txt (rq_face q) ''full'') ig
           (slot_of (said_num (rq_slots q) 1) (said_num (rq_slot q) 1) (said_num (rq_span q) 1))" using F(11) by auto
      have "1 \<le> said_num (rq_start q) 0" using fit unfolding fits_iff by blast
      then have s: "said_num (rq_start q) 0 = it_start n"
        using t st by (auto simp: tells_def said_num_def opt_def num_or_def split: option.splits)
      have h: "said_num (rq_height q) 1 = num_or (it_height n) 1" "said_txt (rq_face q) ''full'' = txt_or (it_face n) ''full''"
        using t st F by (simp_all add: tells_def said_opt)
      have sl: "slot_of (said_num (rq_slots q) 1) (said_num (rq_slot q) 1) (said_num (rq_span q) 1) = item_slot n"
        using t F by (simp add: tells_def said_opt slot_of_num_or item_slot_def)
      have "fits d (it_rack n) (it_start n) (num_or (it_height n) 1) (txt_or (it_face n) ''full'') ig (item_slot n)"
        using fit unfolding s h sl rack by simp
      from fits_good [OF this refl D(1) rails] show ?thesis using True rack house side by auto
    qed
  qed
  then show "housed (d_racks d) n" "inside (d_racks d) n" "it_rack n = rack"
    "j \<in> set (d_items d) \<Longrightarrow> it_uid j \<noteq> ig \<Longrightarrow> apart n j \<and> side_by_side n j"
    "it_parent n \<noteq> '''' \<Longrightarrow> \<exists>p \<in> set (d_items d). it_uid p \<noteq> ig \<and> it_uid p = it_parent n \<and> it_parent p = '''' \<and> same_place p n"
    by blast+
qed

lemma place_parent:
  assumes "place d q ig = Inr (rack, m)"
  shows "rq_parent m = rq_parent q" "rq_slots m = rq_slots q" "rq_slot m = rq_slot q" "rq_span m = rq_span q"
    "said_txt (rq_parent q) '''' = '''' \<Longrightarrow> rq_placement m = rq_placement q"
    "said_txt (rq_placement q) '''' \<noteq> ''room'' \<Longrightarrow> said_txt (rq_placement m) '''' \<noteq> ''room''"
proof -
  have "rq_parent m = rq_parent q \<and> rq_slots m = rq_slots q \<and> rq_slot m = rq_slot q \<and> rq_span m = rq_span q
      \<and> (said_txt (rq_parent q) '''' = '''' \<longrightarrow> rq_placement m = rq_placement q)
      \<and> (said_txt (rq_placement q) '''' \<noteq> ''room'' \<longrightarrow> said_txt (rq_placement m) '''' \<noteq> ''room'')"
  proof (cases "said_txt (rq_parent q) '''' = ''''")
    case True
    then show ?thesis using place_free(6-10) [OF assms True] by (simp only: HOL.simp_thms)
  next
    case False
    have "said_txt (Some s) '''' = s" for s by (simp add: said_txt_def)
    with False show ?thesis by - (rule place_hung [OF assms False], simp)
  qed
  then show "rq_parent m = rq_parent q" "rq_slots m = rq_slots q" "rq_slot m = rq_slot q" "rq_span m = rq_span q"
    "said_txt (rq_parent q) '''' = '''' \<Longrightarrow> rq_placement m = rq_placement q"
    "said_txt (rq_placement q) '''' \<noteq> ''room'' \<Longrightarrow> said_txt (rq_placement m) '''' \<noteq> ''room''"
    by blast+
qed

section \<open>The requests keep it\<close>

lemma item_bad_views:
  assumes "item_bad q = Inr p"
  shows "rq_parent p = rq_parent q" "rq_placement p = rq_placement q" "rq_room p = rq_room q"
  using assms unfolding item_bad_def numbers_bad_def Let_def by (auto split: sum.splits option.splits if_splits)

lemma from_build_views: "rq_placement (from_build cat b q) = rq_placement q" "rq_room (from_build cat b q) = rq_room q"
  by (simp_all add: from_build_def Let_def)

lemma from_type_views: "rq_placement (from_type_item cat q) = rq_placement q" "rq_room (from_type_item cat q) = rq_room q"
  by (simp_all add: from_type_item_def Let_def split: option.split)

lemma said_room: "said_txt x '''' \<noteq> ''room'' \<Longrightarrow> e \<noteq> ''room'' \<Longrightarrow> opt x e \<noteq> ''room''"
  by (auto simp: said_txt_def opt_def split: option.splits)

lemma new_item_uid [simp]: "it_uid (new_item u p) = u"
  by (simp add: new_item_def)

lemma tells_new_item: "tells p (new_item u p)"
  by (simp add: tells_def new_item_def)

lemma item_create_cases:
  obtains (refused) "fst (item_create a uid stamp q d) = d"
  | (written) rack p m where "place d p '''' = Inr (rack, m)" "said_txt (rq_placement p) '''' \<noteq> ''room''"
      "fst (item_create a uid stamp q d) = d\<lparr>d_items := row_create (new_item uid m) (d_items d),
         d_parts := d_parts d @ map (\<lambda>u. \<lparr>pa_uid = u, pa_item = uid\<rparr>) stamp\<rparr>"
proof -
  define q1 where "q1 = (case as_build a of Some b \<Rightarrow> from_build (as_cat a) b q
                 | None \<Rightarrow> if said_txt (rq_build q) '''' \<noteq> '''' then q\<lparr>rq_build := None\<rparr> else q)"
  have pl: "rq_placement q1 = rq_placement q" by (auto simp: q1_def from_build_views split: option.split)
  have E: "item_create a uid stamp q d =
     (if ''dcim_edit'' \<notin> set (as_perms a) then (d, Dc_Refused 403 ''access_denied'')
      else if room_item_said q then (d, Dc_Refused 400 ''dcim_use_room_items'')
      else case item_bad (from_type_item (as_cat a) q1) of
          Inl e \<Rightarrow> (d, Dc_Refused 400 e)
        | Inr p \<Rightarrow>
            (case place d p '''' of
               Inl e \<Rightarrow> (d, Dc_Refused (if e = ''dcim_not_found'' then 404 else 400) e)
             | Inr (rack, p) \<Rightarrow>
                 if \<not> may_write d (seen_orgs a) Rack rack then (d, Dc_Refused 403 ''access_denied'')
                 else if said_txt (rq_parent p) '''' \<noteq> '''' \<and> \<not> may_write d (seen_orgs a) Item (said_txt (rq_parent p) '''')
                 then (d, Dc_Refused 403 ''access_denied'')
                 else case as_asset a of Some e \<Rightarrow> (d, Dc_Refused 400 e)
                 | None \<Rightarrow> (d\<lparr>d_items := row_create (new_item uid p) (d_items d),
                              d_parts := d_parts d @ map (\<lambda>u. \<lparr>pa_uid = u, pa_item = uid\<rparr>) stamp\<rparr>, Dc_Done)))"
    by (simp only: item_create_def q1_def Let_def)
  show thesis
  proof (cases "fst (item_create a uid stamp q d) = d")
    case True
    then show ?thesis by (rule refused)
  next
    case False
    then obtain p rack m where p: "\<not> room_item_said q" "item_bad (from_type_item (as_cat a) q1) = Inr p" "place d p '''' = Inr (rack, m)"
      "fst (item_create a uid stamp q d) = d\<lparr>d_items := row_create (new_item uid m) (d_items d),
         d_parts := d_parts d @ map (\<lambda>u. \<lparr>pa_uid = u, pa_item = uid\<rparr>) stamp\<rparr>"
      unfolding E by (auto split: if_splits sum.splits option.splits prod.splits)
    have "rq_placement p = rq_placement q" using item_bad_views [OF p(2)] pl by (simp add: from_type_views)
    then show ?thesis using written [OF p(3)] p(1,4) by (simp add: room_item_said_def)
  qed
qed

lemma item_create_racks_ok:
  assumes ok: "racks_ok (d_racks d) (d_items d)" and u: "uid \<notin> it_uid ` set (d_items d)" "uid \<noteq> ''''"
    and r: "d' = fst (item_create a uid stamp q d)"
  shows "racks_ok (d_racks d') (d_items d')"
proof (cases a uid stamp q d rule: item_create_cases)
  case refused
  then show ?thesis using ok r by simp
next
  case (written rack p m)
  have pl: "it_placement (new_item uid m) \<noteq> ''room''"
    using place_parent(6) [OF written(1,2)] by (simp add: new_item_def said_room)
  note G = placed_good [OF ok written(1) tells_new_item pl place_parent(1) [OF written(1)]]
  have "racks_ok (d_racks d) (row_create (new_item uid m) (d_items d))"
  proof (rule racks_ok_new [OF ok])
    fix j assume j: "j \<in> set (d_items d)"
    then have "it_uid j \<noteq> ''''" using racks_okD(4) [OF ok] by (metis imageI)
    then show "apart (new_item uid m) j \<and> side_by_side (new_item uid m) j" using G(4) j by blast
  next
    assume "it_parent (new_item uid m) \<noteq> ''''"
    then show "\<exists>p \<in> set (d_items d). it_uid p = it_parent (new_item uid m) \<and> it_parent p = '''' \<and> same_place p (new_item uid m)"
      using G(5) by blast
  qed (use G(1,2) u in simp_all)
  then show ?thesis by (simp add: r written(3))
qed

text \<open>Editing: the row, what hangs from it, and what follows to another rack.\<close>

lemma fold_row_update:
  assumes "\<And>r. key (f r) = key r" "\<And>r. f (f r) = f r"
  shows "fold (\<lambda>h rows. row_update key (key h) f rows) cs rows = map (\<lambda>r. if key r \<in> key ` set cs then f r else r) rows"
  unfolding row_update_def
proof (induction cs arbitrary: rows)
  case (Cons c cs)
  show ?case by (simp add: Cons comp_def assms cong: if_cong)
qed simp

lemma follow_items [simp]: "d_items (follow_to_rack u r b d) = d_items d" "d_racks (follow_to_rack u r b d) = d_racks d"
proof -
  have "d_items (fold (move_strip r) ps d) = d_items d \<and> d_racks (fold (move_strip r) ps d) = d_racks d" for ps d
    by (induction ps arbitrary: d) (auto simp: move_strip_def Let_def)
  then show "d_items (follow_to_rack u r b d) = d_items d" "d_racks (follow_to_rack u r b d) = d_racks d"
    by (simp_all add: follow_to_rack_def Let_def unplug_far_def leave_sources_def)
qed

lemma carry_children_items:
  assumes D: "distinct (map it_uid (d_items d))" and t: "row_get it_uid (d_items d) u = Some t" and ne: "it_parent t \<noteq> u"
  shows "d_items (carry_children u d) = map (\<lambda>j. if it_parent j = u then take_place t j else j) (d_items d)"
    "d_racks (carry_children u d) = d_racks d"
proof -
  have "(it_uid j \<in> it_uid ` set (children_of d u)) = (it_parent j = u)" if "j \<in> set (d_items d)" for j
    using D that by (auto simp: children_of_def distinct_map inj_on_def)
  then show "d_items (carry_children u d) = map (\<lambda>j. if it_parent j = u then take_place t j else j) (d_items d)"
    by (simp add: carry_children_def t fold_row_update take_place_views)
  show "d_racks (carry_children u d) = d_racks d" by (simp add: carry_children_def t)
qed

lemma place_says_all:
  assumes "place d (merged i p) ig = Inr (rack, m)"
  shows "rq_rack m \<noteq> None" "rq_start m \<noteq> None" "rq_height m \<noteq> None" "rq_face m \<noteq> None"
  using assms unfolding place_def Let_def merged_def over_def by (auto split: option.splits if_splits)

definition edited :: "int item_req \<Rightarrow> int item_req \<Rightarrow> dc_item \<Rightarrow> dc_item" where
  "edited p m = apply_req (p\<lparr>rq_rack := rq_rack m, rq_start := rq_start m, rq_height := rq_height m, rq_face := rq_face m,
                   rq_side := rq_side m, rq_side_slot := rq_side_slot m\<rparr>)"

lemma edited_uid [simp]: "it_uid (edited p m i) = it_uid i" "it_uid (apply_req p i) = it_uid i"
  by (simp_all add: edited_def apply_req_def)

lemma tells_edited:
  assumes "place d (merged i p) ig = Inr (rack, m)"
  shows "tells m (edited p m i)"
proof -
  have pa: "rq_parent (merged i p) = Some (opt (rq_parent p) (it_parent i))"
    "rq_placement (merged i p) = Some (opt (rq_placement p) (it_placement i))"
    "rq_slots (merged i p) = Some (opt (rq_slots p) (it_slots i))" "rq_slot (merged i p) = Some (opt (rq_slot p) (it_slot i))"
    "rq_span (merged i p) = Some (opt (rq_span p) (it_span i))"
    by (simp_all add: merged_def over_def)
  show ?thesis
    using place_parent(1-4) [OF assms] place_parent(5) [OF assms] place_says_all [OF assms]
    by (auto simp: tells_def edited_def apply_req_def pa said_opt) (auto simp: opt_def)
qed

text \<open>The rows an edit leaves, and what follows when the item is in another rack than before.\<close>

definition settled :: "string \<Rightarrow> dcim \<Rightarrow> dcim \<Rightarrow> bool" where
  "settled uid d e \<longleftrightarrow> e = d \<or> (\<exists>j b. row_get it_uid (d_items d) uid = Some j \<and> it_rack j \<noteq> '''' \<and> e = follow_to_rack uid (it_rack j) b d)"

lemma settled_items: "settled uid d e \<Longrightarrow> d_items e = d_items d \<and> d_racks e = d_racks d"
  by (auto simp: settled_def)

lemma item_update_cases:
  obtains (refused) "fst (item_update a uid q d) = d"
  | (plain) i p where "row_get it_uid (d_items d) uid = Some i" "\<not> moving p"
      "settled uid (d\<lparr>d_items := row_update it_uid uid (apply_req p) (d_items d)\<rparr>) (fst (item_update a uid q d))"
  | (moved) i p rack m where "row_get it_uid (d_items d) uid = Some i" "place d (merged i p) uid = Inr (rack, m)"
      "said_txt (rq_parent p) '''' \<noteq> '''' \<Longrightarrow> children_of d uid = []"
      "it_placement i \<noteq> ''room''" "said_txt (rq_placement p) '''' \<noteq> ''room''"
      "settled uid (carry_children uid (d\<lparr>d_items := row_update it_uid uid (edited p m) (d_items d)\<rparr>)) (fst (item_update a uid q d))"
proof (cases "fst (item_update a uid q d) = d")
  case True
  then show ?thesis by (rule refused)
next
  case False
  define choice where "choice i p =
     (if \<not> moving p then Inr p
                     else if said_txt (rq_parent p) '''' \<noteq> '''' \<and> children_of d uid \<noteq> [] then Inl (400::nat, ''dcim_mount_nested'')
                     else case place d (merged i p) uid of
                       Inl e \<Rightarrow> Inl (400, e)
                     | Inr (rack, m) \<Rightarrow>
                         if rack \<noteq> it_rack i \<and> \<not> may_write d (seen_orgs a) Rack rack then Inl (403, ''access_denied'')
                         else if said_txt (rq_parent m) '''' \<noteq> '''' \<and> said_txt (rq_parent m) '''' \<noteq> it_parent i
                                 \<and> \<not> may_write d (seen_orgs a) Item (said_txt (rq_parent m) '''') then Inl (403, ''access_denied'')
                         else Inr (p\<lparr>rq_rack := rq_rack m, rq_start := rq_start m, rq_height := rq_height m, rq_face := rq_face m,
                                     rq_side := rq_side m, rq_side_slot := rq_side_slot m\<rparr>))" for i :: dc_item and p :: "int item_req"
  define after where "after p p' i =
     (let d' = d\<lparr>d_items := row_update it_uid uid (apply_req p') (d_items d)\<rparr>;
          d' = (if moving p then carry_children uid d' else d');
          now = (case row_get it_uid (d_items d') uid of None \<Rightarrow> '''' | Some j \<Rightarrow> it_rack j)
      in (if now \<noteq> '''' \<and> now \<noteq> it_rack i then follow_to_rack uid now (rq_disconnect p) d' else d'))" for p p' :: "int item_req" and i :: dc_item
  have E: "item_update a uid q d =
     (if ''dcim_edit'' \<notin> set (as_perms a) then (d, Dc_Refused 403 ''access_denied'')
      else case row_get it_uid (d_items d) uid of
        None \<Rightarrow> (d, Dc_Refused 404 ''dcim_not_found'')
      | Some i \<Rightarrow>
          if \<not> may_write d (seen_orgs a) Item uid then (d, Dc_Refused 403 ''access_denied'')
          else if it_placement i = ''room'' \<or> room_item_said q then (d, Dc_Refused 400 ''dcim_use_room_items'')
          else case item_bad (q\<lparr>rq_build := None\<rparr>) of
            Inl e \<Rightarrow> (d, Dc_Refused 400 e)
          | Inr p \<Rightarrow> (case choice i p of Inl (st, e) \<Rightarrow> (d, Dc_Refused st e)
               | Inr p' \<Rightarrow> (case as_asset a of Some e \<Rightarrow> (d, Dc_Refused 400 e) | None \<Rightarrow> (after p p' i, Dc_Done))))"
    by (simp only: item_update_def choice_def after_def Let_def)
  from False obtain i p p' where i: "row_get it_uid (d_items d) uid = Some i" "it_placement i \<noteq> ''room''" "\<not> room_item_said q"
    and p: "item_bad (q\<lparr>rq_build := None\<rparr>) = Inr p" and c: "choice i p = Inr p'" and r: "fst (item_update a uid q d) = after p p' i"
    unfolding E by (auto split: if_splits option.splits sum.splits prod.splits)
  have pl: "said_txt (rq_placement p) '''' \<noteq> ''room''"
    using i(3) item_bad_views(2) [OF p] by (simp add: room_item_said_def)
  have D: "settled uid (if moving p then carry_children uid (d\<lparr>d_items := row_update it_uid uid (apply_req p') (d_items d)\<rparr>)
        else d\<lparr>d_items := row_update it_uid uid (apply_req p') (d_items d)\<rparr>) (after p p' i)"
    unfolding after_def Let_def settled_def by (auto split: option.splits)
  show ?thesis
  proof (cases "moving p")
    case False
    then show ?thesis using c plain [OF i(1) False] r D by (simp add: choice_def)
  next
    case True
    then obtain rack m where m: "place d (merged i p) uid = Inr (rack, m)" "said_txt (rq_parent p) '''' \<noteq> '''' \<Longrightarrow> children_of d uid = []"
      "apply_req p' = edited p m"
      using c by (auto simp: choice_def edited_def split: if_splits sum.splits prod.splits)
    show ?thesis using moved [OF i(1) m(1,2) i(2) pl] r D True by (simp add: m(3))
  qed
qed

lemma not_moving_alike: "\<not> moving p \<Longrightarrow> alike (apply_req p i) i"
  by (simp add: moving_def alike_def same_place_def apply_req_def opt_def)

lemma item_update_racks_ok:
  assumes ok: "racks_ok (d_racks d) (d_items d)" and r: "d' = fst (item_update a uid q d)"
  shows "racks_ok (d_racks d') (d_items d')"
proof (cases a uid q d rule: item_update_cases)
  case refused
  then show ?thesis using ok r by simp
next
  case (plain i p)
  have "racks_ok (d_racks d) (map (\<lambda>j. if it_uid j = uid then apply_req p j else j) (d_items d))"
    using ok by (rule racks_ok_alike) (use not_moving_alike [OF plain(2)] in \<open>auto simp: alike_def same_place_def\<close>)
  then show ?thesis using settled_items [OF plain(3)] by (simp add: r row_update_def)
next
  case (moved i p rack m)
  note D = racks_okD [OF ok]
  define n where "n = edited p m i"
  have iI: "i \<in> set (d_items d)" "it_uid i = uid" using row_get_Some [OF moved(1)] by auto
  have nu: "it_uid n = uid" by (simp add: n_def iI)
  have t: "tells m n" unfolding n_def by (rule tells_edited [OF moved(2)])
  have pl: "it_placement n \<noteq> ''room''" using moved(4,5) by (simp add: n_def edited_def apply_req_def said_room)
  note G = placed_good [OF ok moved(2) t pl place_parent(1) [OF moved(2)]]
  have np: "it_parent n = opt (rq_parent p) (it_parent i)" by (simp add: n_def edited_def apply_req_def)
  have une: "uid \<noteq> ''''" using D(4) iI by (metis imageI)
  have self: "it_parent n \<noteq> uid" using G(5) une by auto
  have down: "it_parent n = ''''" if c: "c \<in> set (d_items d)" "it_parent c = uid" for c
  proof -
    have "children_of d uid \<noteq> []" using c by (auto simp: children_of_def filter_empty_conv)
    then have said: "said_txt (rq_parent p) '''' = ''''" using moved(3) by auto
    obtain t where "t \<in> set (d_items d)" "it_uid t = uid" "it_parent t = ''''" using D(7) [OF c(1)] c(2) une by (auto simp: hangs_def)
    then have "it_parent i = ''''" using D(3) iI by (auto simp: distinct_map inj_on_def)
    then show ?thesis using said np by (auto simp: said_opt opt_def split: option.splits)
  qed
  have edit: "row_update it_uid uid (edited p m) (d_items d) = map (\<lambda>j. if it_uid j = uid then n else j) (d_items d)"
    using D(3) iI unfolding row_update_def n_def by (intro map_cong) (auto simp: distinct_map inj_on_def)
  let ?d = "d\<lparr>d_items := row_update it_uid uid (edited p m) (d_items d)\<rparr>"
  have dist: "distinct (map it_uid (d_items ?d))" using D(3) by (simp add: keys_row_update)
  have get: "row_get it_uid (d_items ?d) uid = Some n"
    using row_get_in [OF dist, of n] iI nu by (simp add: edit)
  have "d_items (carry_children uid ?d) = map (\<lambda>j. if it_uid j = uid then n else if it_parent j = uid then take_place n j else j) (d_items d)"
    unfolding carry_children_items(1) [OF dist get self] using self nu by (simp add: edit)
  moreover have "racks_ok (d_racks d) (map (\<lambda>j. if it_uid j = uid then n else if it_parent j = uid then take_place n j else j) (d_items d))"
    by (rule racks_ok_move [OF ok iI nu G(1,2) pl]) (use G(4,5) down in blast)+
  ultimately show ?thesis
    using carry_children_items(2) [OF dist get self] settled_items [OF moved(6)] by (simp add: r)
qed

lemma item_delete_cases:
  obtains (refused) "fst (item_delete a uid d) = d"
  | (gone) "children_of d uid = []" "row_get it_uid (d_items d) uid \<noteq> None"
     "fst (item_delete a uid d) = forget_scope Item uid
             (d\<lparr>d_feeds := filter (\<lambda>f. fd_item f \<noteq> uid) (d_feeds d),
               d_cables := filter (\<lambda>c. c \<notin> set (cables_of d [uid])) (d_cables d),
               d_parts := filter (\<lambda>p. pa_item p \<noteq> uid) (d_parts d),
               d_sources := map (\<lambda>s. if so_item s = uid then s\<lparr>so_item := ''''\<rparr> else s) (d_sources d),
               d_pdus := map (\<lambda>p. if pu_item p = uid then p\<lparr>pu_item := ''''\<rparr> else p) (d_pdus d),
               d_links := map (\<lambda>l. (if ln_b l = uid then (\<lambda>l. l\<lparr>ln_b := ''''\<rparr>) else id) (if ln_a l = uid then l\<lparr>ln_a := ''''\<rparr> else l)) (d_links d),
               d_items := row_delete it_uid uid (d_items d)\<rparr>)"
proof (cases "fst (item_delete a uid d) = d")
  case False
  then show ?thesis
    by (intro gone) (simp_all add: item_delete_def split: if_splits)
qed (rule refused)

lemma item_delete_racks_ok:
  assumes ok: "racks_ok (d_racks d) (d_items d)" and r: "d' = fst (item_delete a uid d)"
  shows "racks_ok (d_racks d') (d_items d')"
proof (cases a uid d rule: item_delete_cases)
  case refused
  then show ?thesis using ok r by simp
next
  case gone
  note D = racks_okD [OF ok]
  have "racks_ok (d_racks d) (row_delete it_uid uid (d_items d))"
    by (rule racks_ok_drop [OF ok D(1,2)])
      (use D gone(1) in \<open>auto simp: distinct_row_delete children_of_def filter_empty_conv\<close>)
  then show ?thesis by (simp add: r gone(3) forget_scope_def)
qed

section \<open>The requests about a rack keep it\<close>

lemma num_col_range:
  assumes "num_col dflt lo hi v = Some n"
  shows "lo \<le> n \<and> n \<le> hi"
proof -
  obtain f where f: "of_int lo \<le> f" "f \<le> of_int hi" "n = py_trunc f"
    using assms by (auto simp: num_col_def split: option.splits pyfloat.splits if_splits)
  then show ?thesis by (auto simp: py_trunc_def le_floor_iff floor_le_iff le_ceiling_iff ceiling_le_iff split: if_splits)
qed

lemma racks_ok_racks:
  assumes ok: "racks_ok R I" and R: "distinct (map rk_uid R')" "'''' \<notin> rk_uid ` set R'" "rk_uid ` set R \<subseteq> rk_uid ` set R'"
    and tall: "\<And>i. i \<in> set I \<Longrightarrow> inside R' i"
  shows "racks_ok R' I"
  using racks_okD(3) [OF ok] R(3) tall by (intro racks_ok_drop [OF ok R(1,2)]) auto

lemma if_refused: "fst (if c then (d, x) else t) \<noteq> d \<longleftrightarrow> \<not> c \<and> fst t \<noteq> d"
  by simp

lemma case_refused: "fst (case z of None \<Rightarrow> t | Some e \<Rightarrow> (d, f e)) \<noteq> d \<longleftrightarrow> z = None \<and> fst t \<noteq> d"
  by (simp split: option.split)

lemma rack_create_cases:
  obtains (refused) "fst (rack_create a row_ok uid q d) = d"
  | (written) r where "rk_uid r = uid" "row_get ro_uid (d_rooms d) (rk_room r) \<noteq> None"
      "fst (rack_create a row_ok uid q d) = d\<lparr>d_racks := row_create r (d_racks d)\<rparr>"
proof (cases "fst (rack_create a row_ok uid q d) = d")
  case False
  then obtain n where n: "row_get ro_uid (d_rooms d) (said_txt (rr_room q) '''') \<noteq> None"
    "fst (rack_create a row_ok uid q d) = d\<lparr>d_racks := row_create (new_rack uid (said_txt (rr_room q) '''') q n) (d_racks d)\<rparr>"
    unfolding rack_create_def Let_def by (simp split: if_splits sum.splits option.splits)
  show ?thesis by (rule written [OF _ _ n(2)]) (use n(1) in \<open>simp_all add: new_rack_def\<close>)
qed (rule refused)

lemma rack_create_racks_ok:
  assumes ok: "racks_ok (d_racks d) (d_items d)" and u: "uid \<notin> rk_uid ` set (d_racks d)" "uid \<noteq> ''''"
    and r: "d' = fst (rack_create a row_ok uid q d)"
  shows "racks_ok (d_racks d') (d_items d')"
proof (cases a row_ok uid q d rule: rack_create_cases)
  case refused
  then show ?thesis using ok r by simp
next
  case (written k)
  note D = racks_okD [OF ok]
  have "racks_ok (row_create k (d_racks d)) (d_items d)"
  proof (rule racks_ok_racks [OF ok])
    fix i assume i: "i \<in> set (d_items d)"
    have "it_rack i \<noteq> uid" using D(5) [OF i] u by (auto simp: housed_def)
    then show "inside (row_create k (d_racks d)) i" using D(6) [OF i] written(1) by (auto simp: inside_def)
  qed (use D u written(1) in \<open>auto simp: row_create_def\<close>)
  then show ?thesis by (simp add: r written(3))
qed

lemma top_used_bound:
  assumes "i \<in> set (d_items d)" "it_rack i = u" "taken_by i (f, n)"
  shows "n \<le> top_used d u"
proof -
  have "(f, n) \<in> dom (map_of (oc_taken (occupancy d u)))" using assms unfolding occupancy_taken by auto
  then obtain w where "((f, n), w) \<in> set (oc_taken (occupancy d u))" by (auto simp: dom_map_of_conv_image_fst)
  then have "n \<in> set (map (snd \<circ> fst) (oc_taken (occupancy d u)))" by force
  then show ?thesis by (auto simp: top_used_def Let_def intro!: Max_ge)
qed

lemma set_places_of:
  "(f, n) \<in> set (places_of i) \<longleftrightarrow> f \<in> set (faces_of (it_face i)) \<and> n \<in> set (units_of (num_or (it_start i) 1) (num_or (it_height i) 1))"
  by (auto simp: places_of_def)

lemma taken_at_top:
  assumes r: "on_rails i" "1 \<le> it_start i" "txt_or (it_face i) ''full'' \<in> set FACES"
  shows "\<exists>f. taken_by i (f, it_start i + max 1 (num_or (it_height i) 1) - 1)"
proof -
  have "\<exists>f \<in> set (faces_of (it_face i)). f \<in> {''front'', ''rear''}"
    using r(3) by (auto simp: faces_of_def FACES_def txt_or_def split: if_splits)
  moreover have "num_or (it_start i) 1 = it_start i" using r(2) by (simp add: num_or_def)
  ultimately show ?thesis using r(1) by (auto simp: taken_by_def set_places_of set_units_of)
qed

lemma rack_edit_uid [simp]: "rk_uid (rack_edit q n room e r) = rk_uid r"
  by (simp add: rack_edit_def)

lemma rack_update_cases:
  obtains (refused) "fst (rack_update a row_ok uid q d) = d"
  | (written) n room e where "row_get ro_uid (d_rooms d) room \<noteq> None \<or> (\<exists>r \<in> set (d_racks d). rk_uid r = uid \<and> rk_room r = room)"
      "rn_height n \<noteq> None \<Longrightarrow> top_used d uid \<le> opt (rn_height n) 0"
      "fst (rack_update a row_ok uid q d) = d\<lparr>d_racks := row_update rk_uid uid (rack_edit q n room e) (d_racks d)\<rparr>"
proof (cases "fst (rack_update a row_ok uid q d) = d")
  case False
  then obtain r where r0: "row_get rk_uid (d_racks d) uid = Some r"
    by (auto simp: rack_update_def split: if_splits option.splits)
  from False obtain n where n: "rack_numbers q = Inr n"
    by (auto simp: rack_update_def r0 Let_def split: if_splits sum.splits)
  define room where "room = opt (rr_room q) (rk_room r)"
  define e where "e = (rr_room q \<noteq> None \<and> room \<noteq> rk_room r)"
  have E: "rack_update a row_ok uid q d =
     (if ''dcim_edit'' \<notin> set (as_perms a) then (d, Dc_Refused 403 ''access_denied'')
      else if \<not> may_write d (seen_orgs a) Rack uid then (d, Dc_Refused 403 ''access_denied'')
             else if e \<and> row_get ro_uid (d_rooms d) room = None then (d, Dc_Refused 404 ''dcim_not_found'')
             else if e \<and> \<not> may_write d (seen_orgs a) Room room then (d, Dc_Refused 403 ''access_denied'')
             else if said_txt (rr_row q) '''' \<noteq> '''' \<and> \<not> row_ok (said_txt (rr_row q) '''') room then (d, Dc_Refused 400 ''dcim_row_other_room'')
                 else if rn_height n \<noteq> None \<and> opt (rn_height n) 0 < top_used d uid then (d, Dc_Refused 409 ''dcim_rack_shrink_occupied'')
                 else (case as_asset a of Some e \<Rightarrow> (d, Dc_Refused 400 e)
                   | None \<Rightarrow>
                       if e \<and> (case row_get ro_uid (d_rooms d) room of None \<Rightarrow> '''' | Some n \<Rightarrow> ro_site n)
                             \<noteq> (case row_get ro_uid (d_rooms d) (rk_room r) of None \<Rightarrow> '''' | Some v \<Rightarrow> ro_site v)
                       then (d, Dc_Refused 400 ''dcim_rack_other_site'')
                       else (d\<lparr>d_racks := row_update rk_uid uid (rack_edit q n room e) (d_racks d)\<rparr>, Dc_Done)))"
    by (simp only: rack_update_def r0 n Let_def room_def e_def option.case sum.case)
  note R = False [unfolded E if_refused case_refused]
  have c: "\<not> (e \<and> row_get ro_uid (d_rooms d) room = None)" "\<not> (rn_height n \<noteq> None \<and> opt (rn_height n) 0 < top_used d uid)"
    using R by blast+
  have "fst (rack_update a row_ok uid q d) = d\<lparr>d_racks := row_update rk_uid uid (rack_edit q n room e) (d_racks d)\<rparr>"
    unfolding E using R by (simp only: if_False option.case fst_conv simp_thms)
  note c = c this
  have "row_get ro_uid (d_rooms d) room \<noteq> None \<or> room = rk_room r"
    using c(1) by (auto simp: e_def room_def opt_def split: option.splits)
  then show ?thesis using c(2) row_get_Some [OF r0] by (intro written [OF _ _ c(3)]) auto
qed (rule refused)

lemma rack_update_racks_ok:
  assumes ok: "racks_ok (d_racks d) (d_items d)" and r: "d' = fst (rack_update a row_ok uid q d)"
  shows "racks_ok (d_racks d') (d_items d')"
proof (cases a row_ok uid q d rule: rack_update_cases)
  case refused
  then show ?thesis using ok r by simp
next
  case (written n room e)
  note D = racks_okD [OF ok]
  let ?R = "row_update rk_uid uid (rack_edit q n room e) (d_racks d)"
  have keys: "map rk_uid ?R = map rk_uid (d_racks d)" by (simp add: keys_row_update)
  then have ks: "rk_uid ` set ?R = rk_uid ` set (d_racks d)" by (metis set_map)
  have "racks_ok ?R (d_items d)"
  proof (rule racks_ok_racks [OF ok])
    fix i assume i: "i \<in> set (d_items d)"
    have "it_start i + max 1 (num_or (it_height i) 1) - 1 \<le> rk_height (rack_edit q n room e k)"
      if rails: "on_rails i" and k: "k \<in> set (d_racks d)" "rk_uid k = it_rack i" "rk_uid k = uid" for k
    proof -
      have I: "1 \<le> it_start i" "it_start i + max 1 (num_or (it_height i) 1) - 1 \<le> rk_height k" "txt_or (it_face i) ''full'' \<in> set FACES"
        using D(6) [OF i] rails k by (auto simp: inside_def)
      obtain f where "taken_by i (f, it_start i + max 1 (num_or (it_height i) 1) - 1)" using taken_at_top [OF rails I(1,3)] by auto
      then have "it_start i + max 1 (num_or (it_height i) 1) - 1 \<le> top_used d uid" using top_used_bound i k by simp
      then show ?thesis using written(2) I(2) by (auto simp: rack_edit_def opt_def split: option.splits)
    qed
    then show "inside ?R i" using D(6) [OF i] unfolding inside_def set_row_update by auto
  qed (use D(1,2) keys ks in simp_all)
  then show ?thesis by (simp add: r written(3))
qed

lemma empty_rack_items:
  assumes D: "distinct (map it_uid (d_items d))"
  shows "d_items (empty_rack u d) = filter (\<lambda>i. it_rack i \<noteq> u) (d_items d)" "d_racks (empty_rack u d) = d_racks d"
proof -
  have F: "d_items (fold (\<lambda>w d. forget_scope Item w (d\<lparr>d_items := row_delete it_uid w (d_items d)\<rparr>)) us e) = filter (\<lambda>i. it_uid i \<notin> set us) (d_items e)
     \<and> d_racks (fold (\<lambda>w d. forget_scope Item w (d\<lparr>d_items := row_delete it_uid w (d_items d)\<rparr>)) us e) = d_racks e" for us e
    by (induction us arbitrary: e) (auto simp: forget_scope_def row_delete_def intro: filter_cong)
  have "(it_uid i \<in> it_uid ` set (items_of d u)) = (it_rack i = u)" if "i \<in> set (d_items d)" for i
    using D that by (auto simp: items_of_def distinct_map inj_on_def)
  then show "d_items (empty_rack u d) = filter (\<lambda>i. it_rack i \<noteq> u) (d_items d)" "d_racks (empty_rack u d) = d_racks d"
    by (auto simp: empty_rack_def Let_def F intro!: filter_cong)
qed

lemma rack_delete_cases:
  obtains (refused) "fst (rack_delete a b uid d) = d"
  | (gone) "row_get rk_uid (d_racks d) uid \<noteq> None" "rack_contents d uid = 0 \<or> b"
     "fst (rack_delete a b uid d) = forget_scope Rack uid ((emptied uid d)\<lparr>d_racks := row_delete rk_uid uid (d_racks (emptied uid d))\<rparr>)"
proof (cases "fst (rack_delete a b uid d) = d")
  case False
  then show ?thesis by (intro gone) (auto simp: rack_delete_def Let_def split: if_splits)
qed (rule refused)

lemma emptied_items:
  assumes "distinct (map it_uid (d_items d))"
  shows "d_items (emptied uid d) = filter (\<lambda>i. it_rack i \<noteq> uid) (d_items d)"
    "d_racks (emptied uid d) = d_racks d"
  using empty_rack_items [OF assms, of uid] by (auto simp: emptied_def rack_contents_def items_of_def filter_empty_conv intro!: filter_True [symmetric])

lemma rack_delete_racks_ok:
  assumes ok: "racks_ok (d_racks d) (d_items d)" and r: "d' = fst (rack_delete a b uid d)"
  shows "racks_ok (d_racks d') (d_items d')"
proof (cases a b uid d rule: rack_delete_cases)
  case refused
  then show ?thesis using ok r by simp
next
  case gone
  note D = racks_okD [OF ok]
  have "racks_ok (row_delete rk_uid uid (d_racks d)) (filter (\<lambda>i. it_rack i \<noteq> uid) (d_items d))"
    by (rule racks_ok_drop [OF ok])
      (use D in \<open>auto simp: distinct_row_delete distinct_map_filter_fst inside_def same_place_def\<close>)
  then show ?thesis
    by (simp add: r gone(3) forget_scope_def emptied_items [OF D(3)])
qed

end
