(* ===== verification/Dcim_Power.thy ===== *)
theory Dcim_Power
  imports Dcim_Rack
begin

text \<open>
  How the racks are fed and wired: the strips, the leads plugged into them and the data cables
  (\<^verbatim>\<open>_power_crud\<close> of \<^verbatim>\<open>lib/core/dcim/routes/power.py\<close>), the power sources above them with their chain
  (\<^verbatim>\<open>/api/v1/dcim/sources\<close>, \<^verbatim>\<open>chain_up\<close> and \<^verbatim>\<open>power_path\<close> of \<^verbatim>\<open>service.py\<close>).

  Requests are as in \<open>Dcim_Rack\<close>. Colours, labels, lengths and inventory numbers are left out, and so is the piece of
  the plan a source may be.
\<close>

section \<open>Who may write what\<close>

datatype writable = Not_There | Denied | Allowed

text \<open>\<^verbatim>\<open>_rack_writable\<close>, \<^verbatim>\<open>_cable_end_bad\<close> and \<^verbatim>\<open>_cable_writable\<close>.\<close>

definition rack_writable :: "dcim \<Rightarrow> string list option \<Rightarrow> string \<Rightarrow> writable" where
  "rack_writable d allowed u =
     (if row_get rk_uid (d_racks d) u = None then Not_There
      else if may_write d allowed Rack u then Allowed else Denied)"

definition end_bad :: "dcim \<Rightarrow> string list option \<Rightarrow> string \<Rightarrow> (nat \<times> string) option" where
  "end_bad d allowed u =
     (case row_get it_uid (d_items d) u of
        None \<Rightarrow> Some (404, ''dcim_not_found'')
      | Some i \<Rightarrow>
          if it_rack i = '''' \<and> it_room i \<noteq> '''' then
            (if row_get ro_uid (d_rooms d) (it_room i) = None then Some (404, ''dcim_not_found'')
             else if \<not> may_write d allowed Item u then Some (403, ''access_denied'') else None)
          else if row_get rk_uid (d_racks d) (it_rack i) = None then Some (404, ''dcim_not_found'')
          else if \<not> may_write d allowed Item u then Some (403, ''access_denied'')
          else None)"

definition cable_writable :: "dcim \<Rightarrow> string list option \<Rightarrow> string \<Rightarrow> string \<Rightarrow> writable" where
  "cable_writable d allowed a b =
     (let ends = List.map_filter (row_get it_uid (d_items d)) [a, b]
      in case ends of
           [] \<Rightarrow> Not_There
         | e # _ \<Rightarrow>
             if list_ex (\<lambda>i. \<not> may_write d allowed Item (it_uid i)) ends then Denied
             else (case find (\<lambda>i. it_rack i \<noteq> '''') ends of
                     Some i \<Rightarrow> if row_get rk_uid (d_racks d) (it_rack i) = None then Not_There else Allowed
                   | None \<Rightarrow> if it_room e = '''' then Not_There else Allowed))"

section \<open>Strips, leads and cables\<close>

record pdu_req =
  pq_rack :: "string option"
  pq_name :: "string option"
  pq_feed :: "string option"
  pq_outlets :: "jval option"
  pq_capacity :: "jval option"
  pq_source :: "string option"
  pq_item :: "string option"

record feed_req =
  fq_item :: "string option"
  fq_pdu :: "string option"
  fq_outlet :: "jval option"
  fq_watts :: "jval option"

record cable_req =
  cq_a :: "string option"
  cq_a_port :: "string option"
  cq_b :: "string option"
  cq_b_port :: "string option"

text \<open>The rows the requests create, and what an edit makes of one.\<close>

definition new_pdu :: "string \<Rightarrow> pdu_req \<Rightarrow> int option \<Rightarrow> int option \<Rightarrow> dc_pdu" where
  "new_pdu uid q outlets capacity =
     \<lparr>pu_uid = uid, pu_rack = opt (pq_rack q) '''', pu_name = opt (pq_name q) '''', pu_feed = opt (pq_feed q) ''a'',
      pu_outlets = opt outlets 0, pu_capacity = opt capacity 0, pu_source = opt (pq_source q) '''', pu_item = opt (pq_item q) ''''\<rparr>"

definition pdu_edit :: "pdu_req \<Rightarrow> int option \<Rightarrow> int option \<Rightarrow> dc_pdu \<Rightarrow> dc_pdu" where
  "pdu_edit q outlets capacity p =
     p\<lparr>pu_name := opt (pq_name q) (pu_name p), pu_feed := opt (pq_feed q) (pu_feed p),
       pu_outlets := opt outlets (pu_outlets p), pu_capacity := opt capacity (pu_capacity p),
       pu_source := opt (pq_source q) (pu_source p)\<rparr>"

definition new_feed :: "string \<Rightarrow> feed_req \<Rightarrow> int option \<Rightarrow> int option \<Rightarrow> dc_feed" where
  "new_feed uid q outlet watts = \<lparr>fd_uid = uid, fd_item = opt (fq_item q) '''', fd_pdu = opt (fq_pdu q) '''',
     fd_outlet = opt outlet 0, fd_watts = opt watts 0\<rparr>"

definition feed_edit :: "int option \<Rightarrow> int option \<Rightarrow> dc_feed \<Rightarrow> dc_feed" where
  "feed_edit outlet watts f = f\<lparr>fd_outlet := opt outlet (fd_outlet f), fd_watts := opt watts (fd_watts f)\<rparr>"

definition cable_edit :: "cable_req \<Rightarrow> dc_cable \<Rightarrow> dc_cable" where
  "cable_edit q c = c\<lparr>cb_a := opt (cq_a q) (cb_a c), cb_a_port := opt (cq_a_port q) (cb_a_port c),
     cb_b := opt (cq_b q) (cb_b c), cb_b_port := opt (cq_b_port q) (cb_b_port c)\<rparr>"

definition new_cable :: "string \<Rightarrow> cable_req \<Rightarrow> dc_cable" where
  "new_cable uid q = cable_edit q \<lparr>cb_uid = uid, cb_a = '''', cb_a_port = '''', cb_b = '''', cb_b_port = ''''\<rparr>"

definition FEEDS :: "string list" where
  "FEEDS = [''a'', ''b'', ''none'']"

text \<open>Every number of these tables is a count: none is negative. \<open>None\<close> is a bad one.\<close>

definition counts :: "jval option list \<Rightarrow> int option list option" where
  "counts vs = (let ns = map (map_option (num_col 0 0 NUM_MAX)) vs
                in if Some None \<in> set ns then None else Some (map (\<lambda>n. Option.bind n id) ns))"

text \<open>\<^verbatim>\<open>_outlet_bad\<close>: an outlet the strip does not have, or one with a lead in it already; 0 is ``not sure which''.\<close>

definition outlet_bad :: "dcim \<Rightarrow> string \<Rightarrow> int \<Rightarrow> string \<Rightarrow> bool" where
  "outlet_bad d pdu n mine =
     (0 < n \<and>
      (let outlets = (case row_get pu_uid (d_pdus d) pdu of None \<Rightarrow> 0 | Some p \<Rightarrow> pu_outlets p)
       in (outlets \<noteq> 0 \<and> outlets < n) \<or> list_ex (\<lambda>f. fd_outlet f = n \<and> fd_uid f \<noteq> mine) (feeds_of d [pdu])))"

text \<open>\<^verbatim>\<open>_outlets_short\<close>: fewer outlets than are in use.\<close>

definition outlets_short :: "dcim \<Rightarrow> string \<Rightarrow> int \<Rightarrow> bool" where
  "outlets_short d pdu n =
     (0 < n \<and> (let fs = feeds_of d [pdu] in n < max (fold (\<lambda>f. max (fd_outlet f)) fs 0) (int (length fs))))"

text \<open>\<^verbatim>\<open>_source_for_rack_bad\<close>: a strip hangs from a source of its rack's site, or of none.\<close>

definition source_for_rack_bad :: "dcim \<Rightarrow> string \<Rightarrow> string \<Rightarrow> bool" where
  "source_for_rack_bad d rack src =
     (src \<noteq> '''' \<and>
      (case row_get so_uid (d_sources d) src of
         None \<Rightarrow> True
       | Some s \<Rightarrow> so_site s \<noteq> '''' \<and> so_site s \<noteq> site_of_rack d rack))"

definition pdu_create :: "asking \<Rightarrow> string \<Rightarrow> pdu_req \<Rightarrow> dcim \<Rightarrow> dcim \<times> dc_answer" where
  "pdu_create a uid q d =
     (let rack = opt (pq_rack q) ''''; src = opt (pq_source q) ''''
      in if ''dcim_edit'' \<notin> set (as_perms a) then (d, Dc_Refused 403 ''access_denied'')
         else case rack_writable d (seen_orgs a) rack of
           Not_There \<Rightarrow> (d, Dc_Refused 404 ''dcim_not_found'')
         | Denied \<Rightarrow> (d, Dc_Refused 403 ''access_denied'')
         | Allowed \<Rightarrow>
             (case counts [pq_outlets q, pq_capacity q] of
                Some [outlets, capacity] \<Rightarrow>
                  if said_txt (pq_feed q) ''a'' \<notin> set FEEDS then (d, Dc_Refused 400 ''dcim_feed_unknown'')
                  else if source_for_rack_bad d rack src then (d, Dc_Refused 400 ''dcim_not_found'')
                  else (d\<lparr>d_pdus := row_create (new_pdu uid q outlets capacity) (d_pdus d)\<rparr>, Dc_Done)
              | _ \<Rightarrow> (d, Dc_Refused 400 ''dcim_bad_number'')))"

definition pdu_update :: "asking \<Rightarrow> string \<Rightarrow> pdu_req \<Rightarrow> dcim \<Rightarrow> dcim \<times> dc_answer" where
  "pdu_update a uid q d =
     (if ''dcim_edit'' \<notin> set (as_perms a) then (d, Dc_Refused 403 ''access_denied'')
      else case row_get pu_uid (d_pdus d) uid of
        None \<Rightarrow> (d, Dc_Refused 404 ''dcim_not_found'')
      | Some p \<Rightarrow>
          if rack_writable d (seen_orgs a) (pu_rack p) \<noteq> Allowed then (d, Dc_Refused 403 ''access_denied'')
          else (case counts [pq_outlets q, pq_capacity q] of
             Some [outlets, capacity] \<Rightarrow>
               if pq_feed q \<noteq> None \<and> opt (pq_feed q) '''' \<notin> set FEEDS then (d, Dc_Refused 400 ''dcim_feed_unknown'')
               else if outlets \<noteq> None \<and> outlets_short d uid (opt outlets 0) then (d, Dc_Refused 400 ''dcim_pdu_outlets_in_use'')
               else if pq_source q \<noteq> None \<and> source_for_rack_bad d (pu_rack p) (opt (pq_source q) '''') then (d, Dc_Refused 400 ''dcim_not_found'')
               else (d\<lparr>d_pdus := row_update pu_uid uid (pdu_edit q outlets capacity) (d_pdus d)\<rparr>, Dc_Done)
           | _ \<Rightarrow> (d, Dc_Refused 400 ''dcim_bad_number'')))"

definition pdu_delete :: "asking \<Rightarrow> string \<Rightarrow> dcim \<Rightarrow> dcim \<times> dc_answer" where
  "pdu_delete a uid d =
     (if ''dcim_edit'' \<notin> set (as_perms a) then (d, Dc_Refused 403 ''access_denied'')
      else case row_get pu_uid (d_pdus d) uid of
        None \<Rightarrow> (d, Dc_Refused 404 ''dcim_not_found'')
      | Some p \<Rightarrow>
          if rack_writable d (seen_orgs a) (pu_rack p) \<noteq> Allowed then (d, Dc_Refused 403 ''access_denied'')
          else (d\<lparr>d_feeds := filter (\<lambda>f. f \<notin> set (feeds_of d [uid])) (d_feeds d), d_pdus := row_delete pu_uid uid (d_pdus d)\<rparr>, Dc_Done))"

definition rack_of_pdu :: "dcim \<Rightarrow> string \<Rightarrow> string" where
  "rack_of_pdu d u = (case row_get pu_uid (d_pdus d) u of None \<Rightarrow> '''' | Some p \<Rightarrow> pu_rack p)"

definition feed_create :: "asking \<Rightarrow> string \<Rightarrow> feed_req \<Rightarrow> dcim \<Rightarrow> dcim \<times> dc_answer" where
  "feed_create a uid q d =
     (let pdu = opt (fq_pdu q) ''''; item = opt (fq_item q) ''''
      in if ''dcim_edit'' \<notin> set (as_perms a) then (d, Dc_Refused 403 ''access_denied'')
         else case rack_writable d (seen_orgs a) (rack_of_pdu d pdu) of
           Not_There \<Rightarrow> (d, Dc_Refused 404 ''dcim_not_found'')
         | Denied \<Rightarrow> (d, Dc_Refused 403 ''access_denied'')
         | Allowed \<Rightarrow>
             (case counts [fq_outlet q, fq_watts q] of
                Some [outlet, watts] \<Rightarrow>
                  (case end_bad d (seen_orgs a) item of
                     Some (st, e) \<Rightarrow> (d, Dc_Refused st e)
                   | None \<Rightarrow>
                       if outlet_bad d pdu (opt outlet 0) '''' then (d, Dc_Refused 400 ''dcim_outlet_taken'')
                       else (d\<lparr>d_feeds := row_create (new_feed uid q outlet watts) (d_feeds d)\<rparr>, Dc_Done))
              | _ \<Rightarrow> (d, Dc_Refused 400 ''dcim_bad_number'')))"

text \<open>\<^verbatim>\<open>_feed_item_denied\<close>: somebody else's server is not unplugged; one that is gone denies nothing.\<close>

definition feed_item_denied :: "dcim \<Rightarrow> string list option \<Rightarrow> dc_feed \<Rightarrow> bool" where
  "feed_item_denied d allowed f =
     (row_get it_uid (d_items d) (fd_item f) \<noteq> None \<and> \<not> may_write d allowed Item (fd_item f))"

definition feed_update :: "asking \<Rightarrow> string \<Rightarrow> feed_req \<Rightarrow> dcim \<Rightarrow> dcim \<times> dc_answer" where
  "feed_update a uid q d =
     (if ''dcim_edit'' \<notin> set (as_perms a) then (d, Dc_Refused 403 ''access_denied'')
      else case row_get fd_uid (d_feeds d) uid of
        None \<Rightarrow> (d, Dc_Refused 404 ''dcim_not_found'')
      | Some f \<Rightarrow>
          if rack_writable d (seen_orgs a) (rack_of_pdu d (fd_pdu f)) \<noteq> Allowed \<or> feed_item_denied d (seen_orgs a) f
          then (d, Dc_Refused 403 ''access_denied'')
          else (case counts [fq_outlet q, fq_watts q] of
             Some [outlet, watts] \<Rightarrow>
               if outlet \<noteq> None \<and> outlet_bad d (fd_pdu f) (opt outlet 0) uid then (d, Dc_Refused 400 ''dcim_outlet_taken'')
               else (d\<lparr>d_feeds := row_update fd_uid uid (feed_edit outlet watts) (d_feeds d)\<rparr>, Dc_Done)
           | _ \<Rightarrow> (d, Dc_Refused 400 ''dcim_bad_number'')))"

definition feed_delete :: "asking \<Rightarrow> string \<Rightarrow> dcim \<Rightarrow> dcim \<times> dc_answer" where
  "feed_delete a uid d =
     (if ''dcim_edit'' \<notin> set (as_perms a) then (d, Dc_Refused 403 ''access_denied'')
      else case row_get fd_uid (d_feeds d) uid of
        None \<Rightarrow> (d, Dc_Refused 404 ''dcim_not_found'')
      | Some f \<Rightarrow>
          if rack_writable d (seen_orgs a) (rack_of_pdu d (fd_pdu f)) \<noteq> Allowed \<or> feed_item_denied d (seen_orgs a) f
          then (d, Dc_Refused 403 ''access_denied'')
          else (d\<lparr>d_feeds := row_delete fd_uid uid (d_feeds d)\<rparr>, Dc_Done))"

text \<open>\<^verbatim>\<open>_loop_bad\<close>: a cable from an item to itself is a bridge between two of its ports.\<close>

definition loop_bad :: "string \<Rightarrow> string \<Rightarrow> string \<Rightarrow> string \<Rightarrow> bool" where
  "loop_bad a b pa pb =
     (a \<noteq> '''' \<and> a = b \<and> (py_strip pa = '''' \<or> py_strip pb = '''' \<or> py_strip pa = py_strip pb))"

definition cable_create :: "asking \<Rightarrow> string \<Rightarrow> cable_req \<Rightarrow> dcim \<Rightarrow> dcim \<times> dc_answer" where
  "cable_create a uid q d =
     (let x = opt (cq_a q) ''''; y = opt (cq_b q) ''''; px = opt (cq_a_port q) ''''; py = opt (cq_b_port q) ''''
      in if ''dcim_cable_edit'' \<notin> set (as_perms a) then (d, Dc_Refused 403 ''access_denied'')
         else case cable_writable d (seen_orgs a) x y of
           Not_There \<Rightarrow> (d, Dc_Refused 404 ''dcim_not_found'')
         | Denied \<Rightarrow> (d, Dc_Refused 403 ''access_denied'')
         | Allowed \<Rightarrow>
             (case List.map_filter (end_bad d (seen_orgs a)) [x, y] of
                (st, e) # _ \<Rightarrow> (d, Dc_Refused st e)
              | [] \<Rightarrow>
                  if loop_bad x y px py then (d, Dc_Refused 400 ''dcim_cable_same_item'')
                  else (d\<lparr>d_cables := row_create (new_cable uid q) (d_cables d)\<rparr>, Dc_Done)))"

text \<open>The ends an edit moves: only they are checked again.\<close>

definition moved_ends :: "cable_req \<Rightarrow> dc_cable \<Rightarrow> string list" where
  "moved_ends q c =
     (let x = opt (cq_a q) (cb_a c); y = opt (cq_b q) (cb_b c)
      in (if x \<noteq> cb_a c then [x] else []) @ (if y \<noteq> cb_b c then [y] else []))"

definition cable_update :: "asking \<Rightarrow> string \<Rightarrow> cable_req \<Rightarrow> dcim \<Rightarrow> dcim \<times> dc_answer" where
  "cable_update a uid q d =
     (if ''dcim_cable_edit'' \<notin> set (as_perms a) then (d, Dc_Refused 403 ''access_denied'')
      else case row_get cb_uid (d_cables d) uid of
        None \<Rightarrow> (d, Dc_Refused 404 ''dcim_not_found'')
      | Some c \<Rightarrow>
          if cable_writable d (seen_orgs a) (cb_a c) (cb_b c) \<noteq> Allowed then (d, Dc_Refused 403 ''access_denied'')
          else let x = opt (cq_a q) (cb_a c); y = opt (cq_b q) (cb_b c); px = opt (cq_a_port q) (cb_a_port c); py = opt (cq_b_port q) (cb_b_port c);
                   said = (cq_a q \<noteq> None \<or> cq_b q \<noteq> None \<or> cq_a_port q \<noteq> None \<or> cq_b_port q \<noteq> None)
               in (case List.map_filter (end_bad d (seen_orgs a)) (moved_ends q c) of
                     (st, e) # _ \<Rightarrow> (d, Dc_Refused st e)
                   | [] \<Rightarrow>
                       if said \<and> loop_bad x y px py then (d, Dc_Refused 400 ''dcim_cable_same_item'')
                       else (d\<lparr>d_cables := row_update cb_uid uid (cable_edit q) (d_cables d)\<rparr>, Dc_Done)))"

definition cable_delete :: "asking \<Rightarrow> string \<Rightarrow> dcim \<Rightarrow> dcim \<times> dc_answer" where
  "cable_delete a uid d =
     (if ''dcim_cable_edit'' \<notin> set (as_perms a) then (d, Dc_Refused 403 ''access_denied'')
      else case row_get cb_uid (d_cables d) uid of
        None \<Rightarrow> (d, Dc_Refused 404 ''dcim_not_found'')
      | Some c \<Rightarrow>
          if cable_writable d (seen_orgs a) (cb_a c) (cb_b c) \<noteq> Allowed then (d, Dc_Refused 403 ''access_denied'')
          else (d\<lparr>d_cables := row_delete cb_uid uid (d_cables d)\<rparr>, Dc_Done))"

section \<open>The chain above a strip\<close>

text \<open>
  \<^verbatim>\<open>chain_up\<close>: from a source up to the mains. The list is one site's; \<open>far\<close> are the rows \<^verbatim>\<open>fetch\<close> can bring when the
  chain leaves it. A node where the site changes is marked, and hidden when that site may not be seen. A loop ends
  the chain.
\<close>

datatype hop = Hop dc_source bool | Hidden_Hop

function chain_up :: "dc_source list \<Rightarrow> bool \<Rightarrow> (string \<Rightarrow> bool) \<Rightarrow> string \<Rightarrow> string \<Rightarrow> string list \<Rightarrow> hop list" where
  "chain_up ss honour sees site u seen =
     (if u = '''' \<or> u \<in> set seen then []
      else case row_get so_uid ss u of
        None \<Rightarrow> []
      | Some s \<Rightarrow>
          let crosses = (site \<noteq> '''' \<and> so_site s \<noteq> '''' \<and> so_site s \<noteq> site)
          in if crosses \<and> \<not> sees (so_site s) then [Hidden_Hop]
             else (if honour \<and> so_bypass s \<noteq> 0 then [] else [Hop s crosses])
                  @ chain_up ss honour sees (txt_or (so_site s) site) (so_upstream s) (u # seen))"
  by pat_completeness auto
termination
proof (relation "measure (\<lambda>(ss, honour, sees, site, u, seen). card (so_uid ` set ss - set seen))")
  fix ss honour sees site u seen s crosses
  assume n: "\<not> (u = [] \<or> u \<in> set seen)" and s: "row_get so_uid ss u = Some (s :: dc_source)"
  have "so_uid ` set ss - set (u # seen) \<subset> so_uid ` set ss - set seen" using n row_get_Some [OF s] by auto
  then show "((ss, honour :: bool, sees :: string \<Rightarrow> bool, txt_or (so_site s) site, so_upstream s, u # seen), ss, honour, sees, site, u, seen)
      \<in> measure (\<lambda>(ss, honour, sees, site, u, seen). card (so_uid ` set ss - set seen))"
    by (simp add: psubset_card_mono)
qed simp

declare chain_up.simps [simp del]

definition chain :: "dc_source list \<Rightarrow> dc_source list \<Rightarrow> bool \<Rightarrow> (string \<Rightarrow> bool) \<Rightarrow> string \<Rightarrow> hop list" where
  "chain ss far honour sees u = chain_up (ss @ far) honour sees '''' u []"

fun hop_source :: "hop \<Rightarrow> dc_source option" where
  "hop_source (Hop s c) = Some s"
| "hop_source Hidden_Hop = None"

section \<open>Power sources\<close>

record source_req =
  sq_site :: "string option"
  sq_name :: "string option"
  sq_kind :: "string option"
  sq_upstream :: "string option"
  sq_bypass :: "jval option"
  sq_item :: "string option"

definition new_source :: "string \<Rightarrow> source_req \<Rightarrow> int option \<Rightarrow> dc_source" where
  "new_source uid q bypass =
     \<lparr>so_uid = uid, so_site = opt (sq_site q) '''', so_name = opt (sq_name q) '''', so_kind = opt (sq_kind q) ''panel'',
      so_upstream = opt (sq_upstream q) '''', so_bypass = opt bypass 0, so_item = opt (sq_item q) ''''\<rparr>"

definition source_edit :: "source_req \<Rightarrow> int option \<Rightarrow> dc_source \<Rightarrow> dc_source" where
  "source_edit q bypass s =
     s\<lparr>so_name := opt (sq_name q) (so_name s), so_kind := opt (sq_kind q) (so_kind s),
       so_upstream := opt (sq_upstream q) (so_upstream s), so_bypass := opt bypass (so_bypass s),
       so_item := opt (sq_item q) (so_item s)\<rparr>"

definition SOURCE_KINDS :: "string list" where
  "SOURCE_KINDS = [''mains'', ''panel'', ''ups'', ''generator'']"

definition upstream_bad :: "dcim \<Rightarrow> string \<Rightarrow> string \<Rightarrow> string option" where
  "upstream_bad d uid new =
     (if new = '''' then None
      else if new = uid then Some ''dcim_upstream_self''
      else if row_get so_uid (d_sources d) new = None then Some ''dcim_not_found''
      else if list_ex (\<lambda>h. map_option so_uid (hop_source h) = Some uid) (chain (d_sources d) [] False (\<lambda>_. True) new)
      then Some ''dcim_upstream_loop''
      else None)"

definition upstream_denied :: "dcim \<Rightarrow> string list option \<Rightarrow> string \<Rightarrow> string \<Rightarrow> bool" where
  "upstream_denied d allowed own new =
     (case row_get so_uid (d_sources d) new of
        None \<Rightarrow> False
      | Some s \<Rightarrow> so_site s \<noteq> '''' \<and>
          (\<not> may_see (owner_of d Site (so_site s)) allowed \<or> (so_site s \<noteq> own \<and> \<not> may_write d allowed Site (so_site s))))"

definition source_item_bad :: "dcim \<Rightarrow> string \<Rightarrow> string \<Rightarrow> string \<Rightarrow> bool" where
  "source_item_bad d uid item site =
     (item \<noteq> '''' \<and>
      (case row_get it_uid (d_items d) item of
         None \<Rightarrow> True
       | Some i \<Rightarrow> (site \<noteq> '''' \<and> site_of_rack d (it_rack i) \<noteq> site)
                  \<or> list_ex (\<lambda>s. so_item s = item \<and> so_uid s \<noteq> uid) (d_sources d)))"

definition bypass_num :: "jval option \<Rightarrow> int option option" where
  "bypass_num v = (case map_option (num_col 0 0 1) v of Some None \<Rightarrow> None | n \<Rightarrow> Some (Option.bind n id))"

definition source_create :: "asking \<Rightarrow> string \<Rightarrow> source_req \<Rightarrow> dcim \<Rightarrow> dcim \<times> dc_answer" where
  "source_create a uid q d =
     (let site = opt (sq_site q) ''''; up = opt (sq_upstream q) ''''; item = opt (sq_item q) ''''
      in if ''dcim_edit'' \<notin> set (as_perms a) then (d, Dc_Refused 403 ''access_denied'')
         else if said_txt (sq_kind q) ''panel'' \<notin> set SOURCE_KINDS then (d, Dc_Refused 400 ''dcim_source_kind_unknown'')
         else case bypass_num (sq_bypass q) of
           None \<Rightarrow> (d, Dc_Refused 400 ''dcim_bad_number'')
         | Some bypass \<Rightarrow>
             if site \<noteq> '''' \<and> row_get si_uid (d_sites d) site = None then (d, Dc_Refused 404 ''dcim_not_found'')
             else if site \<noteq> '''' \<and> \<not> may_write d (seen_orgs a) Site site then (d, Dc_Refused 403 ''access_denied'')
             else (case upstream_bad d '''' up of Some e \<Rightarrow> (d, Dc_Refused 400 e)
               | None \<Rightarrow>
                   if upstream_denied d (seen_orgs a) site up then (d, Dc_Refused 403 ''access_denied'')
                   else if source_item_bad d '''' item site then (d, Dc_Refused 400 ''dcim_not_found'')
                   else (d\<lparr>d_sources := row_create (new_source uid q bypass) (d_sources d)\<rparr>, Dc_Done)))"

definition source_writable :: "dcim \<Rightarrow> string list option \<Rightarrow> string \<Rightarrow> writable" where
  "source_writable d allowed uid =
     (case row_get so_uid (d_sources d) uid of
        None \<Rightarrow> Not_There
      | Some s \<Rightarrow> if so_site s = '''' \<or> may_write d allowed Site (so_site s) then Allowed else Denied)"

definition source_update :: "asking \<Rightarrow> string \<Rightarrow> source_req \<Rightarrow> dcim \<Rightarrow> dcim \<times> dc_answer" where
  "source_update a uid q d =
     (if ''dcim_edit'' \<notin> set (as_perms a) then (d, Dc_Refused 403 ''access_denied'')
      else case source_writable d (seen_orgs a) uid of
        Not_There \<Rightarrow> (d, Dc_Refused 404 ''dcim_not_found'')
      | Denied \<Rightarrow> (d, Dc_Refused 403 ''access_denied'')
      | Allowed \<Rightarrow>
          let site = (case row_get so_uid (d_sources d) uid of None \<Rightarrow> '''' | Some s \<Rightarrow> so_site s)
          in if sq_kind q \<noteq> None \<and> opt (sq_kind q) '''' \<notin> set SOURCE_KINDS then (d, Dc_Refused 400 ''dcim_source_kind_unknown'')
             else case bypass_num (sq_bypass q) of
               None \<Rightarrow> (d, Dc_Refused 400 ''dcim_bad_number'')
             | Some bypass \<Rightarrow>
                 (case (case sq_upstream q of None \<Rightarrow> None | Some up \<Rightarrow> upstream_bad d uid up) of
                    Some e \<Rightarrow> (d, Dc_Refused 400 e)
                  | None \<Rightarrow>
                      if sq_upstream q \<noteq> None \<and> upstream_denied d (seen_orgs a) site (opt (sq_upstream q) '''')
                      then (d, Dc_Refused 403 ''access_denied'')
                      else if sq_item q \<noteq> None \<and> source_item_bad d uid (opt (sq_item q) '''') site
                      then (d, Dc_Refused 400 ''dcim_not_found'')
                      else (d\<lparr>d_sources := row_update so_uid uid (source_edit q bypass) (d_sources d)\<rparr>, Dc_Done)))"

definition source_delete :: "asking \<Rightarrow> string \<Rightarrow> dcim \<Rightarrow> dcim \<times> dc_answer" where
  "source_delete a uid d =
     (if ''dcim_edit'' \<notin> set (as_perms a) then (d, Dc_Refused 403 ''access_denied'')
      else case source_writable d (seen_orgs a) uid of
        Not_There \<Rightarrow> (d, Dc_Refused 404 ''dcim_not_found'')
      | Denied \<Rightarrow> (d, Dc_Refused 403 ''access_denied'')
      | Allowed \<Rightarrow>
          (d\<lparr>d_sources := row_delete so_uid uid (map (\<lambda>s. if so_upstream s = uid then s\<lparr>so_upstream := ''''\<rparr> else s) (d_sources d)),
            d_pdus := map (\<lambda>p. if pu_source p = uid then p\<lparr>pu_source := ''''\<rparr> else p) (d_pdus d),
            d_items := map (\<lambda>i. if it_source i = uid then i\<lparr>it_source := ''''\<rparr> else i) (d_items d)\<rparr>, Dc_Done))"

text \<open>
  \<^verbatim>\<open>clone\<close>: a source and what hangs from it. Who may: whoever may write every site of the copy, looked up breadth-first
  to at most 200 rows. Then the rows one by one, the parent before what hangs from it; the recursion is kept as the
  list of rows still to copy, each with the parent of its copy. The k-th copy takes the k-th drawn identifier; one
  that is taken is an error of the engine, which ends the request with the rows written so far.
\<close>

definition CLONE_MAX :: nat where
  "CLONE_MAX = 200"

definition hanging :: "dc_source list \<Rightarrow> string \<Rightarrow> dc_source list" where
  "hanging ss u = filter (\<lambda>s. so_upstream s = u) ss"

function clone_sites :: "dc_source list \<Rightarrow> dc_source list \<Rightarrow> string list \<Rightarrow> string list" where
  "clone_sites ss todo looked =
     (case rev todo of
        [] \<Rightarrow> []
      | s # rest \<Rightarrow>
          if CLONE_MAX \<le> length looked then []
          else if so_uid s \<in> set looked then clone_sites ss (rev rest) looked
          else so_site s # clone_sites ss (rev rest @ hanging ss (so_uid s)) (so_uid s # looked))"
  by pat_completeness auto
termination
  by (relation "measures [\<lambda>(ss, todo, looked). CLONE_MAX - length looked, \<lambda>(ss, todo, looked). length todo]")
    (auto simp: rev_eq_Cons_iff)

declare clone_sites.simps [simp del]

function clone_rows :: "dc_source list \<Rightarrow> (nat \<Rightarrow> string) \<Rightarrow> string \<Rightarrow> string \<Rightarrow> (dc_source \<times> string) list \<Rightarrow> string list \<Rightarrow> nat \<Rightarrow> dc_source list
    \<Rightarrow> dc_source list" where
  "clone_rows ss draw suffix first todo seen n rows =
     (case todo of
        [] \<Rightarrow> rows
      | (s, parent) # rest \<Rightarrow>
          if so_uid s \<in> set seen \<or> CLONE_MAX \<le> n then clone_rows ss draw suffix first rest seen n rows
          else if draw n = '''' \<or> draw n \<in> so_uid ` set rows then rows
          else let copy = \<lparr>so_uid = draw n, so_site = so_site s,
                           so_name = (if so_uid s = first then py_strip (so_name s @ '' '' @ suffix) else so_name s),
                           so_kind = so_kind s, so_upstream = parent, so_bypass = 0, so_item = ''''\<rparr>
               in clone_rows ss draw suffix first (map (\<lambda>h. (h, draw n)) (hanging ss (so_uid s)) @ rest) (so_uid s # seen) (Suc n) (rows @ [copy]))"
  by pat_completeness auto
termination
  by (relation "measures [\<lambda>(ss, draw, suffix, first, todo, seen, n, rows). CLONE_MAX - n, \<lambda>(ss, draw, suffix, first, todo, seen, n, rows). length todo]")
    auto

declare clone_rows.simps [simp del]

definition source_clone :: "asking \<Rightarrow> (nat \<Rightarrow> string) \<Rightarrow> string \<Rightarrow> string \<Rightarrow> dcim \<Rightarrow> dcim \<times> dc_answer" where
  "source_clone a draw suffix uid d =
     (if ''dcim_edit'' \<notin> set (as_perms a) then (d, Dc_Refused 403 ''access_denied'')
      else case source_writable d (seen_orgs a) uid of
        Not_There \<Rightarrow> (d, Dc_Refused 404 ''dcim_not_found'')
      | Denied \<Rightarrow> (d, Dc_Refused 403 ''access_denied'')
      | Allowed \<Rightarrow>
          (case row_get so_uid (d_sources d) uid of
             None \<Rightarrow> (d, Dc_Refused 404 ''dcim_not_found'')
           | Some s \<Rightarrow>
               if list_ex (\<lambda>w. w \<noteq> '''' \<and> \<not> may_write d (seen_orgs a) Site w) (clone_sites (d_sources d) [s] [])
               then (d, Dc_Refused 403 ''access_denied'')
               else (d\<lparr>d_sources := clone_rows (d_sources d) draw suffix uid [(s, so_upstream s)] [] 0 (d_sources d)\<rparr>, Dc_Done)))"

section \<open>What a strip hangs from\<close>

text \<open>\<^verbatim>\<open>power_path\<close>: each strip's path now and with every bypass lifted, and the two warnings.\<close>

record strip_path =
  sp_known :: bool
  sp_now :: "hop list"
  sp_clean :: "string list"
  sp_ups :: "string list"

definition is_ups :: "hop \<Rightarrow> bool" where
  "is_ups h \<longleftrightarrow> (case hop_source h of Some s \<Rightarrow> so_kind s = ''ups'' | None \<Rightarrow> False)"

definition ups_of :: "hop list \<Rightarrow> string list" where
  "ups_of hs = map so_uid (List.map_filter hop_source (filter is_ups hs))"

datatype path_warning = On_Bypass string "string list" | Same_Ups string "string list"

definition strip_path :: "dc_source list \<Rightarrow> dc_source list \<Rightarrow> (string \<Rightarrow> bool) \<Rightarrow> dc_pdu \<Rightarrow> strip_path" where
  "strip_path ss far sees p =
     (if pu_source p = '''' then \<lparr>sp_known = False, sp_now = [], sp_clean = [], sp_ups = []\<rparr>
      else let now = chain ss far True sees (pu_source p); clean = chain ss far False sees (pu_source p)
           in \<lparr>sp_known = True, sp_now = now, sp_clean = map so_uid (List.map_filter hop_source clean), sp_ups = ups_of now\<rparr>)"

definition bypass_warnings :: "dc_source list \<Rightarrow> dc_source list \<Rightarrow> (string \<Rightarrow> bool) \<Rightarrow> dc_pdu list \<Rightarrow> path_warning list" where
  "bypass_warnings ss far sees ps =
     List.map_filter (\<lambda>p. let clean = chain ss far False sees (pu_source p)
        in if pu_source p \<noteq> '''' \<and> ups_of (chain ss far True sees (pu_source p)) = [] \<and> list_ex is_ups clean
           then Some (On_Bypass (pu_uid p) (ups_of clean)) else None) ps"

definition same_ups_warnings :: "dc_source list \<Rightarrow> dc_source list \<Rightarrow> (string \<Rightarrow> bool) \<Rightarrow> dc_pdu list \<Rightarrow> path_warning list" where
  "same_ups_warnings ss far sees ps =
     List.map_filter (\<lambda>rack.
        let mine = filter (\<lambda>p. pu_rack p = rack) ps;
            branches = set (map (\<lambda>p. txt_or (pu_feed p) ''none'') mine) - {''none''};
            ups = map (\<lambda>p. sp_ups (strip_path ss far sees p)) mine;
            common = (if list_all (\<lambda>us. us \<noteq> []) ups then filter (\<lambda>u. list_all (\<lambda>us. u \<in> set us) ups) (remdups (concat ups)) else [])
        in if card branches < 2 \<or> common = [] then None else Some (Same_Ups rack (sort common))) (remdups (map pu_rack ps))"

end
