(* ===== verification/Dcim_Inventory.thy ===== *)
theory Dcim_Inventory
  imports Dcim_Rack_Proofs Dcim_Power
begin

text \<open>
  The requests about the inventory as one machine, and what every one of them keeps: racks that can exist
  (\<open>Dcim_Rack_Proofs\<close>), nothing that points at a row that is gone, one lead per outlet, and power sources that never
  hang from themselves.
\<close>

section \<open>The machine\<close>

datatype dc_event =
    Place asking string "string list" "jval item_req"
  | Edit_Item asking string "jval item_req"
  | Remove_Item asking string
  | New_Rack asking "string \<Rightarrow> string \<Rightarrow> bool" string rack_req
  | Edit_Rack asking "string \<Rightarrow> string \<Rightarrow> bool" string rack_req
  | Drop_Rack asking bool string
  | New_Strip asking string pdu_req
  | Edit_Strip asking string pdu_req
  | Drop_Strip asking string
  | Plug asking string feed_req
  | Replug asking string feed_req
  | Unplug asking string
  | Wire asking string cable_req
  | Rewire asking string cable_req
  | Unwire asking string
  | New_Source asking string source_req
  | Edit_Source asking string source_req
  | Clone_Source asking "nat \<Rightarrow> string" string string
  | Drop_Source asking string

text \<open>A new row whose identifier is taken is refused by the primary key, and the request changes nothing.\<close>

definition fresh :: "string \<Rightarrow> string list \<Rightarrow> bool" where
  "fresh u us \<longleftrightarrow> u \<noteq> '''' \<and> u \<notin> set us"

fun dc_step :: "dcim \<Rightarrow> dc_event \<Rightarrow> dcim" where
  "dc_step d (Place a u stamp q) = (if fresh u (map it_uid (d_items d)) then fst (item_create a u stamp q d) else d)"
| "dc_step d (Edit_Item a u q) = fst (item_update a u q d)"
| "dc_step d (Remove_Item a u) = fst (item_delete a u d)"
| "dc_step d (New_Rack a ok u q) = (if fresh u (map rk_uid (d_racks d)) then fst (rack_create a ok u q d) else d)"
| "dc_step d (Edit_Rack a ok u q) = fst (rack_update a ok u q d)"
| "dc_step d (Drop_Rack a b u) = fst (rack_delete a b u d)"
| "dc_step d (New_Strip a u q) = (if fresh u (map pu_uid (d_pdus d)) then fst (pdu_create a u q d) else d)"
| "dc_step d (Edit_Strip a u q) = fst (pdu_update a u q d)"
| "dc_step d (Drop_Strip a u) = fst (pdu_delete a u d)"
| "dc_step d (Plug a u q) = (if fresh u (map fd_uid (d_feeds d)) then fst (feed_create a u q d) else d)"
| "dc_step d (Replug a u q) = fst (feed_update a u q d)"
| "dc_step d (Unplug a u) = fst (feed_delete a u d)"
| "dc_step d (Wire a u q) = (if fresh u (map cb_uid (d_cables d)) then fst (cable_create a u q d) else d)"
| "dc_step d (Rewire a u q) = fst (cable_update a u q d)"
| "dc_step d (Unwire a u) = fst (cable_delete a u d)"
| "dc_step d (New_Source a u q) = (if fresh u (map so_uid (d_sources d)) then fst (source_create a u q d) else d)"
| "dc_step d (Edit_Source a u q) = fst (source_update a u q d)"
| "dc_step d (Clone_Source a draw suffix u) = fst (source_clone a draw suffix u d)"
| "dc_step d (Drop_Source a u) = fst (source_delete a u d)"

definition keys_ok :: "dcim \<Rightarrow> bool" where
  "keys_ok d \<longleftrightarrow> distinct (map pu_uid (d_pdus d)) \<and> distinct (map fd_uid (d_feeds d)) \<and> distinct (map so_uid (d_sources d))
     \<and> '''' \<notin> pu_uid ` set (d_pdus d) \<and> '''' \<notin> fd_uid ` set (d_feeds d) \<and> '''' \<notin> so_uid ` set (d_sources d)"

text \<open>Every row another row names is there.\<close>

definition feed_ref :: "string set \<Rightarrow> string set \<Rightarrow> dc_feed \<Rightarrow> bool" where
  "feed_ref I P f \<longleftrightarrow> fd_item f \<in> I \<and> fd_pdu f \<in> P"

definition pdu_ref :: "string set \<Rightarrow> string set \<Rightarrow> dc_pdu \<Rightarrow> bool" where
  "pdu_ref R S p \<longleftrightarrow> pu_rack p \<in> R \<and> (pu_source p = '''' \<or> pu_source p \<in> S)"

definition cable_ref :: "string set \<Rightarrow> dc_cable \<Rightarrow> bool" where
  "cable_ref I c \<longleftrightarrow> cb_a c \<in> I \<and> cb_b c \<in> I"

definition part_ref :: "string set \<Rightarrow> dc_part \<Rightarrow> bool" where
  "part_ref I p \<longleftrightarrow> pa_item p \<in> I"

definition source_ref :: "string set \<Rightarrow> string set \<Rightarrow> dc_source \<Rightarrow> bool" where
  "source_ref I S s \<longleftrightarrow> (so_item s = '''' \<or> so_item s \<in> I) \<and> (so_upstream s = '''' \<or> so_upstream s \<in> S)"

abbreviation "ikeys d \<equiv> it_uid ` set (d_items d)"
abbreviation "rkeys d \<equiv> rk_uid ` set (d_racks d)"
abbreviation "pkeys d \<equiv> pu_uid ` set (d_pdus d)"
abbreviation "skeys d \<equiv> so_uid ` set (d_sources d)"

definition refs_ok :: "dcim \<Rightarrow> bool" where
  "refs_ok d \<longleftrightarrow> (\<forall>f \<in> set (d_feeds d). feed_ref (ikeys d) (pkeys d) f) \<and> (\<forall>p \<in> set (d_pdus d). pdu_ref (rkeys d) (skeys d) p)
     \<and> (\<forall>c \<in> set (d_cables d). cable_ref (ikeys d) c) \<and> (\<forall>p \<in> set (d_parts d). part_ref (ikeys d) p)
     \<and> (\<forall>s \<in> set (d_sources d). source_ref (ikeys d) (skeys d) s)"

lemma ref_mono:
  "feed_ref I P f \<Longrightarrow> I \<subseteq> J \<Longrightarrow> P \<subseteq> P' \<Longrightarrow> feed_ref J P' f"
  "pdu_ref R S p \<Longrightarrow> R \<subseteq> R' \<Longrightarrow> S \<subseteq> S' \<Longrightarrow> pdu_ref R' S' p"
  "cable_ref I c \<Longrightarrow> I \<subseteq> J \<Longrightarrow> cable_ref J c" "part_ref I pa \<Longrightarrow> I \<subseteq> J \<Longrightarrow> part_ref J pa"
  "source_ref I S s \<Longrightarrow> I \<subseteq> J \<Longrightarrow> S \<subseteq> S' \<Longrightarrow> source_ref J S' s"
  unfolding feed_ref_def pdu_ref_def cable_ref_def part_ref_def source_ref_def by blast+

lemma refs_okI:
  assumes "\<And>f. f \<in> set (d_feeds d) \<Longrightarrow> feed_ref (ikeys d) (pkeys d) f" "\<And>p. p \<in> set (d_pdus d) \<Longrightarrow> pdu_ref (rkeys d) (skeys d) p"
    "\<And>c. c \<in> set (d_cables d) \<Longrightarrow> cable_ref (ikeys d) c" "\<And>p. p \<in> set (d_parts d) \<Longrightarrow> part_ref (ikeys d) p"
    "\<And>s. s \<in> set (d_sources d) \<Longrightarrow> source_ref (ikeys d) (skeys d) s"
  shows "refs_ok d"
  using assms unfolding refs_ok_def by blast

lemma refs_okD:
  assumes "refs_ok d"
  shows "f \<in> set (d_feeds d) \<Longrightarrow> feed_ref (ikeys d) (pkeys d) f" "p \<in> set (d_pdus d) \<Longrightarrow> pdu_ref (rkeys d) (skeys d) p"
    "c \<in> set (d_cables d) \<Longrightarrow> cable_ref (ikeys d) c" "pa \<in> set (d_parts d) \<Longrightarrow> part_ref (ikeys d) pa"
    "s \<in> set (d_sources d) \<Longrightarrow> source_ref (ikeys d) (skeys d) s"
  using assms unfolding refs_ok_def by blast+

lemma refs_grow:
  assumes ok: "refs_ok d" and keys: "ikeys d \<subseteq> ikeys e" "pkeys d \<subseteq> pkeys e" "rkeys d \<subseteq> rkeys e" "skeys d \<subseteq> skeys e"
    and new: "\<And>f. f \<in> set (d_feeds e) \<Longrightarrow> f \<in> set (d_feeds d) \<or> feed_ref (ikeys e) (pkeys e) f"
      "\<And>p. p \<in> set (d_pdus e) \<Longrightarrow> p \<in> set (d_pdus d) \<or> pdu_ref (rkeys e) (skeys e) p"
      "\<And>c. c \<in> set (d_cables e) \<Longrightarrow> c \<in> set (d_cables d) \<or> cable_ref (ikeys e) c"
      "\<And>pa. pa \<in> set (d_parts e) \<Longrightarrow> pa \<in> set (d_parts d) \<or> part_ref (ikeys e) pa"
      "\<And>s. s \<in> set (d_sources e) \<Longrightarrow> s \<in> set (d_sources d) \<or> source_ref (ikeys e) (skeys e) s"
  shows "refs_ok e"
proof (rule refs_okI)
  fix f assume "f \<in> set (d_feeds e)"
  then show "feed_ref (ikeys e) (pkeys e) f" using new(1) ref_mono(1) [OF refs_okD(1) [OF ok] keys(1,2)] by blast
next
  fix p assume "p \<in> set (d_pdus e)"
  then show "pdu_ref (rkeys e) (skeys e) p" using new(2) ref_mono(2) [OF refs_okD(2) [OF ok] keys(3,4)] by blast
next
  fix c assume "c \<in> set (d_cables e)"
  then show "cable_ref (ikeys e) c" using new(3) ref_mono(3) [OF refs_okD(3) [OF ok] keys(1)] by blast
next
  fix pa assume "pa \<in> set (d_parts e)"
  then show "part_ref (ikeys e) pa" using new(4) ref_mono(4) [OF refs_okD(4) [OF ok] keys(1)] by blast
next
  fix s assume "s \<in> set (d_sources e)"
  then show "source_ref (ikeys e) (skeys e) s" using new(5) ref_mono(5) [OF refs_okD(5) [OF ok] keys(1,4)] by blast
qed

text \<open>A numbered outlet has one lead, and it is an outlet the strip has when it says how many.\<close>

definition leads_ok :: "dcim \<Rightarrow> bool" where
  "leads_ok d \<longleftrightarrow>
     (\<forall>f \<in> set (d_feeds d). \<forall>g \<in> set (d_feeds d). fd_pdu f = fd_pdu g \<longrightarrow> fd_outlet f = fd_outlet g \<longrightarrow> 0 < fd_outlet f \<longrightarrow> fd_uid f = fd_uid g)
     \<and> (\<forall>f \<in> set (d_feeds d). \<forall>p \<in> set (d_pdus d). pu_uid p = fd_pdu f \<longrightarrow> 0 < pu_outlets p \<longrightarrow> fd_outlet f \<le> pu_outlets p)
     \<and> (\<forall>p \<in> set (d_pdus d). 0 \<le> pu_outlets p)"

lemma leads_okI:
  assumes "\<And>f g. f \<in> set (d_feeds d) \<Longrightarrow> g \<in> set (d_feeds d) \<Longrightarrow> fd_pdu f = fd_pdu g \<Longrightarrow> fd_outlet f = fd_outlet g \<Longrightarrow> 0 < fd_outlet f
       \<Longrightarrow> fd_uid f = fd_uid g"
    "\<And>f p. f \<in> set (d_feeds d) \<Longrightarrow> p \<in> set (d_pdus d) \<Longrightarrow> pu_uid p = fd_pdu f \<Longrightarrow> 0 < pu_outlets p \<Longrightarrow> fd_outlet f \<le> pu_outlets p"
    "\<And>p. p \<in> set (d_pdus d) \<Longrightarrow> 0 \<le> pu_outlets p"
  shows "leads_ok d"
  using assms unfolding leads_ok_def by blast

lemma leads_okD:
  assumes "leads_ok d"
  shows "f \<in> set (d_feeds d) \<Longrightarrow> g \<in> set (d_feeds d) \<Longrightarrow> fd_pdu f = fd_pdu g \<Longrightarrow> fd_outlet f = fd_outlet g \<Longrightarrow> 0 < fd_outlet f
       \<Longrightarrow> fd_uid f = fd_uid g"
    "f \<in> set (d_feeds d) \<Longrightarrow> p \<in> set (d_pdus d) \<Longrightarrow> pu_uid p = fd_pdu f \<Longrightarrow> 0 < pu_outlets p \<Longrightarrow> fd_outlet f \<le> pu_outlets p"
    "p \<in> set (d_pdus d) \<Longrightarrow> 0 \<le> pu_outlets p"
  using assms unfolding leads_ok_def by blast+

definition hangs_from :: "dc_source list \<Rightarrow> (string \<times> string) set" where
  "hangs_from ss = {(so_uid s, so_upstream s) | s. s \<in> set ss \<and> so_upstream s \<noteq> ''''}"

definition inventory_ok :: "dcim \<Rightarrow> bool" where
  "inventory_ok d \<longleftrightarrow> racks_ok (d_racks d) (d_items d) \<and> keys_ok d \<and> refs_ok d \<and> leads_ok d \<and> acyclic (hangs_from (d_sources d))"

lemma inventory_okD:
  assumes "inventory_ok d"
  shows "racks_ok (d_racks d) (d_items d)" "keys_ok d" "refs_ok d" "leads_ok d" "acyclic (hangs_from (d_sources d))"
  using assms by (simp_all add: inventory_ok_def)

section \<open>Changes that only take away\<close>

text \<open>What a request may do to the rows around items and racks: fewer leads, cables and parts; strips moved or loosened;
  sources that say less. Under it the other invariants stay.\<close>

definition fewer :: "dcim \<Rightarrow> dcim \<Rightarrow> bool" where
  "fewer d e \<longleftrightarrow> set (d_feeds e) \<subseteq> set (d_feeds d) \<and> distinct (map fd_uid (d_feeds e)) \<and> distinct (map pu_uid (d_pdus e))
     \<and> (\<forall>p \<in> set (d_pdus e). \<exists>p0 \<in> set (d_pdus d). pu_uid p = pu_uid p0 \<and> pu_outlets p = pu_outlets p0)
     \<and> distinct (map so_uid (d_sources e))
     \<and> (\<forall>s \<in> set (d_sources e). \<exists>s0 \<in> set (d_sources d). so_uid s = so_uid s0 \<and> (so_upstream s = '''' \<or> so_upstream s = so_upstream s0))"

lemma fewer_ok:
  assumes "fewer d e" "keys_ok d" "leads_ok d" "acyclic (hangs_from (d_sources d))"
  shows "keys_ok e" "leads_ok e" "acyclic (hangs_from (d_sources e))"
proof -
  have F: "set (d_feeds e) \<subseteq> set (d_feeds d)"
    and P: "\<And>p. p \<in> set (d_pdus e) \<Longrightarrow> \<exists>p0 \<in> set (d_pdus d). pu_uid p = pu_uid p0 \<and> pu_outlets p = pu_outlets p0"
    and S: "\<And>s. s \<in> set (d_sources e) \<Longrightarrow> \<exists>s0 \<in> set (d_sources d). so_uid s = so_uid s0 \<and> (so_upstream s = '''' \<or> so_upstream s = so_upstream s0)"
    using assms(1) by (auto simp: fewer_def)
  have "'''' \<notin> pu_uid ` set (d_pdus e)"
  proof
    assume "'''' \<in> pu_uid ` set (d_pdus e)"
    then obtain p where "p \<in> set (d_pdus e)" "pu_uid p = ''''" by auto
    then show False using P [of p] assms(2) by (metis image_eqI keys_ok_def)
  qed
  moreover have "'''' \<notin> so_uid ` set (d_sources e)"
  proof
    assume "'''' \<in> so_uid ` set (d_sources e)"
    then obtain s where "s \<in> set (d_sources e)" "so_uid s = ''''" by auto
    then show False using S [of s] assms(2) by (metis image_eqI keys_ok_def)
  qed
  ultimately show "keys_ok e" using assms(1,2) F by (auto simp: keys_ok_def fewer_def)
  note L = leads_okD [OF assms(3)]
  show "leads_ok e"
  proof (rule leads_okI)
    fix f p assume f: "f \<in> set (d_feeds e)" "p \<in> set (d_pdus e)" "pu_uid p = fd_pdu f" "0 < pu_outlets p"
    obtain p0 where p0: "p0 \<in> set (d_pdus d)" "pu_uid p = pu_uid p0" "pu_outlets p = pu_outlets p0" using P [OF f(2)] by auto
    then show "fd_outlet f \<le> pu_outlets p" using L(2) [of f p0] f F by auto
  next
    fix p assume "p \<in> set (d_pdus e)"
    then show "0 \<le> pu_outlets p" using P L(3) by force
  qed (use L(1) F in blast)
  have "hangs_from (d_sources e) \<subseteq> hangs_from (d_sources d)" using S by (fastforce simp: hangs_from_def)
  then show "acyclic (hangs_from (d_sources e))" using assms(4) acyclic_subset by blast
qed

lemma fewer_refl: "keys_ok d \<Longrightarrow> fewer d d"
  unfolding fewer_def keys_ok_def by auto

lemma fewer_trans:
  assumes "fewer d e" "fewer e g"
  shows "fewer d g"
proof -
  have "\<exists>p0 \<in> set (d_pdus d). pu_uid p = pu_uid p0 \<and> pu_outlets p = pu_outlets p0" if "p \<in> set (d_pdus g)" for p
    using assms that unfolding fewer_def by metis
  moreover have "\<exists>s0 \<in> set (d_sources d). so_uid s = so_uid s0 \<and> (so_upstream s = '''' \<or> so_upstream s = so_upstream s0)"
    if "s \<in> set (d_sources g)" for s
    using assms that unfolding fewer_def by metis
  ultimately show ?thesis using assms unfolding fewer_def by blast
qed

section \<open>Items and racks\<close>

lemma keys_map: "(\<And>r. key (g r) = key r) \<Longrightarrow> key ` set (map g I) = key ` set I"
  by (simp add: image_image)

lemma keys_update: "(\<And>r. key (f r) = key r) \<Longrightarrow> key ` set (row_update key u f I) = key ` set I"
  unfolding row_update_def by (rule keys_map) simp

lemma same_rest:
  assumes "d_feeds e = d_feeds d" "d_pdus e = d_pdus d" "d_sources e = d_sources d"
  shows "keys_ok e = keys_ok d" "leads_ok e = leads_ok d" "hangs_from (d_sources e) = hangs_from (d_sources d)"
  using assms by (simp_all add: keys_ok_def leads_ok_def)

lemma distinct_filter_map: "distinct (map f xs) \<Longrightarrow> distinct (map f (filter P xs))"
  by (rule distinct_map_filter_fst)

lemma map_map_same: "(\<And>x. key (h x) = key x) \<Longrightarrow> map key (map h xs) = map key xs"
  by simp

text \<open>Creating an item.\<close>

lemma create_rest:
  assumes ok: "inventory_ok d" and e: "e = fst (item_create a u stamp q d)"
  shows "keys_ok e \<and> refs_ok e \<and> leads_ok e \<and> acyclic (hangs_from (d_sources e))"
proof (cases a u stamp q d rule: item_create_cases)
  case refused
  then show ?thesis using ok e by (simp add: inventory_ok_def)
next
  case (written rack p m)
  note D = inventory_okD [OF ok]
  define n where "n = new_item u m"
  have E: "e = d\<lparr>d_items := row_create n (d_items d), d_parts := d_parts d @ map (\<lambda>v. \<lparr>pa_uid = v, pa_item = u\<rparr>) stamp\<rparr>" "it_uid n = u"
    using e written(3) by (simp_all add: n_def)
  have "refs_ok e"
    unfolding E(1) by (rule refs_grow [OF D(3)]) (auto simp: part_ref_def E(2))
  then show ?thesis using D(2,4,5) same_rest [of e d] by (simp add: E(1))
qed

text \<open>What follows an item to another rack.\<close>

lemma strip_moved:
  "d_pdus (move_strip r p d) = map (\<lambda>q. if pu_uid q = pu_uid p then (if (case row_get so_uid (d_sources d) (pu_source p) of None \<Rightarrow> False
       | Some s \<Rightarrow> so_site s \<noteq> '''' \<and> so_site s \<noteq> site_of_rack d r) then q\<lparr>pu_rack := r, pu_source := ''''\<rparr> else q\<lparr>pu_rack := r\<rparr>) else q) (d_pdus d)"
  "set (d_feeds (move_strip r p d)) \<subseteq> set (d_feeds d)" "d_sources (move_strip r p d) = d_sources d"
  "d_cables (move_strip r p d) = d_cables d" "d_parts (move_strip r p d) = d_parts d" "d_items (move_strip r p d) = d_items d"
  "d_racks (move_strip r p d) = d_racks d" "distinct (map fd_uid (d_feeds d)) \<Longrightarrow> distinct (map fd_uid (d_feeds (move_strip r p d)))"
  by (auto simp: move_strip_def Let_def row_update_def distinct_filter_map)

lemma move_strip_keeps:
  assumes K: "keys_ok d" and R: "refs_ok d" and r: "r \<in> rkeys d"
  shows "fewer d (move_strip r p d)" "refs_ok (move_strip r p d)"
proof -
  let ?e = "move_strip r p d"
  have keys: "map pu_uid (d_pdus ?e) = map pu_uid (d_pdus d)" by (simp add: strip_moved(1))
  have ks: "pkeys ?e = pkeys d" by (metis keys set_map)
  have each: "\<exists>p0 \<in> set (d_pdus d). pu_uid x = pu_uid p0 \<and> pu_outlets x = pu_outlets p0 \<and> (pu_rack x = r \<or> pu_rack x = pu_rack p0)
      \<and> (pu_source x = '''' \<or> pu_source x = pu_source p0)" if x: "x \<in> set (d_pdus ?e)" for x
  proof -
    obtain p0 where "p0 \<in> set (d_pdus d)" "x = p0 \<or> x = p0\<lparr>pu_rack := r\<rparr> \<or> x = p0\<lparr>pu_rack := r, pu_source := ''''\<rparr>"
      using x unfolding strip_moved(1) by (auto split: if_splits)
    then show ?thesis by (intro bexI [of _ p0]) auto
  qed
  show "fewer d ?e"
    unfolding fewer_def
  proof (intro conjI ballI)
    fix x assume "x \<in> set (d_pdus ?e)"
    from each [OF this] show "\<exists>p0 \<in> set (d_pdus d). pu_uid x = pu_uid p0 \<and> pu_outlets x = pu_outlets p0" by auto
  qed (use K strip_moved(2,8) [where r = r and p = p and d = d] keys in \<open>auto simp: strip_moved(3) keys_ok_def\<close>)
  note D = refs_okD [OF R]
  show "refs_ok ?e"
  proof (rule refs_okI)
    fix x assume "x \<in> set (d_pdus ?e)"
    then obtain p0 where "p0 \<in> set (d_pdus d)" "pu_rack x = r \<or> pu_rack x = pu_rack p0" "pu_source x = '''' \<or> pu_source x = pu_source p0"
      using each by blast
    then show "pdu_ref (rkeys ?e) (skeys ?e) x" using D(2) r unfolding strip_moved(3,7) pdu_ref_def by metis
  next
    fix f assume "f \<in> set (d_feeds ?e)"
    then show "feed_ref (ikeys ?e) (pkeys ?e) f" using D(1) strip_moved(2) [where r = r and p = p and d = d] unfolding ks strip_moved(6) by blast
  qed (use D in \<open>unfold strip_moved(3-7), blast+\<close>)
qed

lemma move_strips_keep:
  assumes "keys_ok d" "refs_ok d" "leads_ok d" "acyclic (hangs_from (d_sources d))" "r \<in> rkeys d"
  shows "fewer d (fold (move_strip r) ps d) \<and> refs_ok (fold (move_strip r) ps d)"
  using assms
proof (induction ps arbitrary: d)
  case Nil
  then show ?case by (simp add: fewer_refl)
next
  case (Cons p ps)
  note M = move_strip_keeps [OF Cons.prems(1,2,5), of p]
  note K = fewer_ok [OF M(1) Cons.prems(1,3,4)]
  have "r \<in> rkeys (move_strip r p d)" using Cons.prems(5) by (simp only: strip_moved(7))
  from Cons.IH [OF K(1) M(2) K(2,3) this] show ?case using M(1) fewer_trans by auto
qed

lemma unplug_keeps:
  assumes "keys_ok d" "refs_ok d"
  shows "fewer d (unplug_far us r d)" "refs_ok (unplug_far us r d)"
proof -
  show "fewer d (unplug_far us r d)"
    using assms(1) unfolding fewer_def keys_ok_def unplug_far_def Let_def by (auto simp: distinct_filter_map)
  show "refs_ok (unplug_far us r d)"
    using refs_okD [OF assms(2)] by (intro refs_okI) (simp_all add: unplug_far_def Let_def)
qed

lemma leave_keeps:
  assumes "keys_ok d" "refs_ok d"
  shows "fewer d (leave_sources u r d)" "refs_ok (leave_sources u r d)"
proof -
  define h where "h s = (if so_item s = u \<and> so_site s \<noteq> '''' \<and> so_site s \<noteq> site_of_rack d r then s\<lparr>so_item := ''''\<rparr> else s)" for s :: dc_source
  have e: "leave_sources u r d = d\<lparr>d_sources := map h (d_sources d)\<rparr>" by (simp add: leave_sources_def Let_def h_def [abs_def])
  have h: "so_uid (h s) = so_uid s" "so_upstream (h s) = so_upstream s" "so_item (h s) = '''' \<or> so_item (h s) = so_item s" for s
    by (simp_all add: h_def)
  have comp: "so_uid \<circ> h = so_uid" by (simp add: fun_eq_iff h)
  have ks': "so_uid ` set (map h (d_sources d)) = skeys d" by (simp add: image_image h)
  show "fewer d (leave_sources u r d)"
    using assms(1) h unfolding fewer_def keys_ok_def e by (auto simp: comp)
  note D = refs_okD [OF assms(2)]
  show "refs_ok (leave_sources u r d)"
    unfolding e
  proof (rule refs_okI)
    fix s assume "s \<in> set (d_sources (d\<lparr>d_sources := map h (d_sources d)\<rparr>))"
    then obtain t where "t \<in> set (d_sources d)" "s = h t" by auto
    then show "source_ref (ikeys (d\<lparr>d_sources := map h (d_sources d)\<rparr>)) (skeys (d\<lparr>d_sources := map h (d_sources d)\<rparr>)) s"
      using D(5) [of t] h [of t] ks' by (auto simp: source_ref_def)
  qed (use D ks' in simp_all)
qed

lemma follow_keeps:
  assumes "keys_ok d" "refs_ok d" "leads_ok d" "acyclic (hangs_from (d_sources d))" "r \<in> rkeys d"
  shows "fewer d (follow_to_rack u r b d) \<and> refs_ok (follow_to_rack u r b d)"
proof -
  define us where "us = u # map it_uid (children_of d u)"
  define d1 where "d1 = unplug_far us r d"
  define d2 where "d2 = fold (move_strip r) (filter (\<lambda>p. pu_item p = u) (d_pdus d1)) d1"
  define d3 where "d3 = leave_sources u r d2"
  have 1: "fewer d d1" "refs_ok d1" using unplug_keeps assms by (auto simp: d1_def)
  note k1 = fewer_ok [OF 1(1) assms(1,3,4)]
  have "r \<in> rkeys d1" using assms(5) by (simp add: d1_def unplug_far_def Let_def)
  from move_strips_keep [OF k1(1) 1(2) k1(2,3) this] have 2: "fewer d1 d2" "refs_ok d2" by (simp_all add: d2_def)
  note k2 = fewer_ok [OF 2(1) k1]
  have 3: "fewer d2 d3" "refs_ok d3" using leave_keeps [OF k2(1) 2(2)] by (simp_all add: d3_def)
  have "follow_to_rack u r b d = (if b then d3\<lparr>d_cables := filter (\<lambda>c. c \<notin> set (cables_of d3 us)) (d_cables d3)\<rparr> else d3)"
    by (simp only: follow_to_rack_def d1_def d2_def d3_def us_def Let_def)
  moreover have "fewer d d3" using 1(1) 2(1) 3(1) fewer_trans by blast
  moreover have "fewer d (d3\<lparr>d_cables := C\<rparr>) = fewer d d3" for C by (simp add: fewer_def)
  moreover have "refs_ok (d3\<lparr>d_cables := filter P (d_cables d3)\<rparr>)" for P
    using refs_okD [OF 3(2)] by (intro refs_okI) simp_all
  ultimately show ?thesis using 3(2) by simp
qed

lemma rest_of_items:
  assumes "inventory_ok d" "it_uid ` set I = ikeys d"
  shows "keys_ok (d\<lparr>d_items := I\<rparr>)" "refs_ok (d\<lparr>d_items := I\<rparr>)" "leads_ok (d\<lparr>d_items := I\<rparr>)"
    "acyclic (hangs_from (d_sources (d\<lparr>d_items := I\<rparr>)))"
proof -
  have "keys_ok (d\<lparr>d_items := I\<rparr>) = keys_ok d" "leads_ok (d\<lparr>d_items := I\<rparr>) = leads_ok d" "refs_ok (d\<lparr>d_items := I\<rparr>) = refs_ok d"
    using assms(2) by (simp_all add: keys_ok_def leads_ok_def refs_ok_def)
  then show "keys_ok (d\<lparr>d_items := I\<rparr>)" "refs_ok (d\<lparr>d_items := I\<rparr>)" "leads_ok (d\<lparr>d_items := I\<rparr>)"
    "acyclic (hangs_from (d_sources (d\<lparr>d_items := I\<rparr>)))"
    using inventory_okD(2-5) [OF assms(1)] by simp_all
qed

lemma carry_children_only: "\<exists>I. carry_children u d = d\<lparr>d_items := I\<rparr> \<and> it_uid ` set I = ikeys d"
proof (cases "row_get it_uid (d_items d) u")
  case None
  then have "carry_children u d = d\<lparr>d_items := d_items d\<rparr>" by (simp add: carry_children_def)
  then show ?thesis by blast
next
  case (Some t)
  define g where "g j = (if it_uid j \<in> it_uid ` set (children_of d u) then take_place t j else j)" for j
  have "it_uid ` set (map g (d_items d)) = ikeys d" by (rule keys_map) (simp add: g_def take_place_views)
  moreover have "carry_children u d = d\<lparr>d_items := map g (d_items d)\<rparr>"
    by (simp add: carry_children_def Some fold_row_update take_place_views g_def [abs_def])
  ultimately show ?thesis by blast
qed

lemma settled_rest:
  assumes ok: "inventory_ok d" and I: "it_uid ` set I = ikeys d" and s: "settled u (d\<lparr>d_items := I\<rparr>) e"
    and r: "racks_ok (d_racks e) (d_items e)"
  shows "keys_ok e \<and> refs_ok e \<and> leads_ok e \<and> acyclic (hangs_from (d_sources e))"
proof -
  note K = rest_of_items [OF ok I]
  show ?thesis
    using s unfolding settled_def
  proof
    assume "e = d\<lparr>d_items := I\<rparr>"
    then show ?thesis using K by simp
  next
    assume "\<exists>j b. row_get it_uid (d_items (d\<lparr>d_items := I\<rparr>)) u = Some j \<and> it_rack j \<noteq> '''' \<and> e = follow_to_rack u (it_rack j) b (d\<lparr>d_items := I\<rparr>)"
    then obtain j b where j: "row_get it_uid I u = Some j" "it_rack j \<noteq> ''''" and e: "e = follow_to_rack u (it_rack j) b (d\<lparr>d_items := I\<rparr>)" by auto
    have "racks_ok (d_racks d) I" using r by (simp add: e)
    then have "it_rack j \<in> rkeys (d\<lparr>d_items := I\<rparr>)" using racks_okD(5) row_get_Some [OF j(1)] j(2) by (auto simp: housed_def)
    from follow_keeps [OF K this] have "fewer (d\<lparr>d_items := I\<rparr>) e" "refs_ok e" by (simp_all add: e)
    then show ?thesis using fewer_ok [OF _ K(1,3,4)] by blast
  qed
qed

lemma update_rest:
  assumes ok: "inventory_ok d" and e: "e = fst (item_update a u q d)"
  shows "keys_ok e \<and> refs_ok e \<and> leads_ok e \<and> acyclic (hangs_from (d_sources e))"
proof (cases a u q d rule: item_update_cases)
  case refused
  then show ?thesis using ok e by (simp add: inventory_ok_def)
next
  case (plain i p)
  have k: "it_uid ` set (row_update it_uid u (apply_req p) (d_items d)) = ikeys d" by (rule keys_update) simp
  show ?thesis
    by (rule settled_rest [OF ok k]) (use plain(3) e item_update_racks_ok [OF inventory_okD(1) [OF ok] e] in simp_all)
next
  case (moved i p rack m)
  let ?d = "d\<lparr>d_items := row_update it_uid u (edited p m) (d_items d)\<rparr>"
  have k: "ikeys ?d = ikeys d" by (simp add: keys_update del: set_row_update)
  obtain I where I: "carry_children u ?d = ?d\<lparr>d_items := I\<rparr>" "it_uid ` set I = ikeys ?d" using carry_children_only by blast
  then have I': "carry_children u ?d = d\<lparr>d_items := I\<rparr>" "it_uid ` set I = ikeys d" using k by simp_all
  show ?thesis
    by (rule settled_rest [OF ok I'(2)]) (use moved(6) e I'(1) item_update_racks_ok [OF inventory_okD(1) [OF ok] e] in simp_all)
qed

lemma clear_keeps:
  assumes "\<And>s. so_uid (h s) = so_uid s" "\<And>s. so_upstream (h s) = so_upstream s"
  shows "distinct (map so_uid (map h ss)) = distinct (map so_uid ss)" "hangs_from (map h ss) = hangs_from ss"
    "so_uid ` set (map h ss) = so_uid ` set ss"
proof -
  have "so_uid \<circ> h = so_uid" by (simp add: fun_eq_iff assms)
  then show "distinct (map so_uid (map h ss)) = distinct (map so_uid ss)" by simp
  have "hangs_from ss = (\<lambda>s. (so_uid s, so_upstream s)) ` {s \<in> set ss. so_upstream s \<noteq> ''''}" for ss by (auto simp: hangs_from_def)
  moreover have "{s \<in> set (map h ss). so_upstream s \<noteq> ''''} = h ` {s \<in> set ss. so_upstream s \<noteq> ''''}" by (auto simp: assms)
  ultimately show "hangs_from (map h ss) = hangs_from ss" by (simp only: image_image assms)
  show "so_uid ` set (map h ss) = so_uid ` set ss" by (simp add: image_image assms)
qed

lemma delete_rest:
  assumes ok: "inventory_ok d" and e: "e = fst (item_delete a u d)"
  shows "keys_ok e \<and> refs_ok e \<and> leads_ok e \<and> acyclic (hangs_from (d_sources e))"
proof (cases a u d rule: item_delete_cases)
  case refused
  then show ?thesis using ok e by (simp add: inventory_ok_def)
next
  case gone
  note D = inventory_okD [OF ok]
  note R = refs_okD [OF D(3)]
  define h where "h s = (if so_item s = u then s\<lparr>so_item := ''''\<rparr> else s)" for s :: dc_source
  define g where "g p = (if pu_item p = u then p\<lparr>pu_item := ''''\<rparr> else p)" for p :: dc_pdu
  have h: "so_uid (h s) = so_uid s" "so_upstream (h s) = so_upstream s" "so_item (h s) \<noteq> u \<or> so_item (h s) = ''''"
    "so_item (h s) = so_item s \<or> so_item (h s) = ''''" for s
    by (auto simp: h_def)
  have g: "pu_uid (g p) = pu_uid p" "pu_outlets (g p) = pu_outlets p" "pu_rack (g p) = pu_rack p" "pu_source (g p) = pu_source p" for p
    by (simp_all add: g_def)
  have E: "d_feeds e = filter (\<lambda>f. fd_item f \<noteq> u) (d_feeds d)" "d_cables e = filter (\<lambda>c. c \<notin> set (cables_of d [u])) (d_cables d)"
    "d_parts e = filter (\<lambda>p. pa_item p \<noteq> u) (d_parts d)" "d_sources e = map h (d_sources d)" "d_pdus e = map g (d_pdus d)"
    "d_items e = row_delete it_uid u (d_items d)" "d_racks e = d_racks d"
    using e gone(3) by (simp_all add: forget_scope_def h_def [abs_def] g_def [abs_def])
  have une: "u \<noteq> ''''" using gone(2) racks_okD(4) [OF D(1)] by (metis row_get_None)
  have ik: "ikeys e = ikeys d - {u}" by (auto simp: E(6))
  have pk: "pkeys e = pkeys d" by (simp add: E(5) image_image g)
  have sk: "skeys e = skeys d" by (simp add: E(4) image_image h)
  have pcomp: "pu_uid \<circ> g = pu_uid" and scomp: "so_uid \<circ> h = so_uid" by (simp_all add: fun_eq_iff g h)
  have "fewer d e"
    unfolding fewer_def
  proof (intro conjI ballI)
    show "distinct (map fd_uid (d_feeds e))" "distinct (map pu_uid (d_pdus e))" "distinct (map so_uid (d_sources e))"
      using D(2) by (simp_all add: E keys_ok_def distinct_filter_map pcomp scomp)
  qed (auto simp: E g h)
  from fewer_ok [OF this D(2,4,5)] have "keys_ok e" "leads_ok e" "acyclic (hangs_from (d_sources e))" by blast+
  moreover have "refs_ok e"
  proof (rule refs_okI)
    fix f assume "f \<in> set (d_feeds e)"
    then show "feed_ref (ikeys e) (pkeys e) f" using R(1) [of f] by (auto simp: E(1) ik pk feed_ref_def)
  next
    fix p assume "p \<in> set (d_pdus e)"
    then obtain p0 where "p0 \<in> set (d_pdus d)" "p = g p0" by (auto simp: E(5))
    then show "pdu_ref (rkeys e) (skeys e) p" using R(2) [of p0] by (simp add: sk E(7) pdu_ref_def g)
  next
    fix c assume "c \<in> set (d_cables e)"
    then have "c \<in> set (d_cables d)" "cb_a c \<noteq> u" "cb_b c \<noteq> u" using une by (auto simp: E(2) cables_of_def)
    then show "cable_ref (ikeys e) c" using R(3) by (auto simp: cable_ref_def ik)
  next
    fix p assume "p \<in> set (d_parts e)"
    then show "part_ref (ikeys e) p" using R(4) by (auto simp: part_ref_def ik E(3))
  next
    fix s assume "s \<in> set (d_sources e)"
    then obtain t where "t \<in> set (d_sources d)" "s = h t" by (auto simp: E(4))
    then show "source_ref (ikeys e) (skeys e) s" using R(5) [of t] h [of t] by (auto simp: source_ref_def ik sk)
  qed
  ultimately show ?thesis by blast
qed

lemma rack_rest:
  assumes ok: "inventory_ok d" and e: "e = d\<lparr>d_racks := R\<rparr>" and R: "rkeys d \<subseteq> rk_uid ` set R"
  shows "keys_ok e \<and> refs_ok e \<and> leads_ok e \<and> acyclic (hangs_from (d_sources e))"
proof -
  note D = inventory_okD [OF ok]
  have "refs_ok e" unfolding e by (rule refs_grow [OF D(3)]) (use R in auto)
  then show ?thesis using D same_rest [of e d] by (simp add: e)
qed

lemma empty_rack_rest:
  fixes d u
  defines "us \<equiv> it_uid ` {i \<in> set (d_items d). it_rack i = u}" and "ps \<equiv> pu_uid ` {p \<in> set (d_pdus d). pu_rack p = u}"
  assumes "'''' \<notin> us" "'''' \<notin> ps"
  shows "d_feeds (empty_rack u d) = filter (\<lambda>f. \<not> (fd_pdu f \<in> ps \<or> fd_item f \<in> us)) (d_feeds d)"
    "set (d_cables (empty_rack u d)) = {c \<in> set (d_cables d). cb_a c \<notin> us \<and> cb_b c \<notin> us}"
    "set (d_parts (empty_rack u d)) = {p \<in> set (d_parts d). pa_item p \<notin> us}"
    "d_sources (empty_rack u d) = map (\<lambda>s. if so_item s \<in> us then s\<lparr>so_item := ''''\<rparr> else s) (d_sources d)"
    "d_pdus (empty_rack u d) = filter (\<lambda>p. pu_uid p \<notin> ps) (map (\<lambda>p. if pu_uid p \<notin> ps \<and> pu_item p \<in> us then p\<lparr>pu_item := ''''\<rparr> else p) (d_pdus d))"
proof -
  have F: "d_feeds (fold (\<lambda>w d. forget_scope Item w (d\<lparr>d_items := row_delete it_uid w (d_items d)\<rparr>)) ws e) = d_feeds e
     \<and> d_cables (fold (\<lambda>w d. forget_scope Item w (d\<lparr>d_items := row_delete it_uid w (d_items d)\<rparr>)) ws e) = d_cables e
     \<and> d_parts (fold (\<lambda>w d. forget_scope Item w (d\<lparr>d_items := row_delete it_uid w (d_items d)\<rparr>)) ws e) = d_parts e
     \<and> d_sources (fold (\<lambda>w d. forget_scope Item w (d\<lparr>d_items := row_delete it_uid w (d_items d)\<rparr>)) ws e) = d_sources e
     \<and> d_pdus (fold (\<lambda>w d. forget_scope Item w (d\<lparr>d_items := row_delete it_uid w (d_items d)\<rparr>)) ws e) = d_pdus e" for ws e
    by (induction ws arbitrary: e) (auto simp: forget_scope_def)
  have us: "set (map it_uid (items_of d u)) = us" by (auto simp: us_def items_of_def)
  have ps: "set (map pu_uid (pdus_of d u)) = ps" by (auto simp: ps_def pdus_of_def)
  have nps: "set (filter (\<lambda>p. p \<noteq> '''') (map pu_uid (pdus_of d u))) = ps" unfolding set_filter ps using assms(4) by auto
  have nus: "set (filter (\<lambda>p. p \<noteq> '''') (map it_uid (items_of d u))) = us" unfolding set_filter us using assms(3) by auto
  show "d_feeds (empty_rack u d) = filter (\<lambda>f. \<not> (fd_pdu f \<in> ps \<or> fd_item f \<in> us)) (d_feeds d)"
    "d_sources (empty_rack u d) = map (\<lambda>s. if so_item s \<in> us then s\<lparr>so_item := ''''\<rparr> else s) (d_sources d)"
    "d_pdus (empty_rack u d) = filter (\<lambda>p. pu_uid p \<notin> ps) (map (\<lambda>p. if pu_uid p \<notin> ps \<and> pu_item p \<in> us then p\<lparr>pu_item := ''''\<rparr> else p) (d_pdus d))"
    unfolding empty_rack_def Let_def us ps nps by (simp_all add: F)
  have "set (cables_of d (map it_uid (items_of d u))) = {c \<in> set (d_cables d). cb_a c \<in> us \<or> cb_b c \<in> us}"
    unfolding cables_of_def Let_def nus by auto
  then show "set (d_cables (empty_rack u d)) = {c \<in> set (d_cables d). cb_a c \<notin> us \<and> cb_b c \<notin> us}"
    unfolding empty_rack_def Let_def by (auto simp add: F)
  have "set (parts_of d (map it_uid (items_of d u))) = {p \<in> set (d_parts d). pa_item p \<in> us}"
    unfolding parts_of_def Let_def nus by auto
  then show "set (d_parts (empty_rack u d)) = {p \<in> set (d_parts d). pa_item p \<notin> us}"
    unfolding empty_rack_def Let_def by (auto simp add: F)
qed

lemma drop_rack_rest:
  assumes ok: "inventory_ok d" and e: "e = fst (rack_delete a b u d)"
  shows "keys_ok e \<and> refs_ok e \<and> leads_ok e \<and> acyclic (hangs_from (d_sources e))"
proof (cases a b u d rule: rack_delete_cases)
  case refused
  then show ?thesis using ok e by (simp add: inventory_ok_def)
next
  case gone
  note D = inventory_okD [OF ok]
  note R = refs_okD [OF D(3)]
  define us where "us = it_uid ` {i \<in> set (d_items d). it_rack i = u}"
  define ps where "ps = pu_uid ` {p \<in> set (d_pdus d). pu_rack p = u}"
  define h where "h s = (if so_item s \<in> us then s\<lparr>so_item := ''''\<rparr> else s)" for s :: dc_source
  define g where "g p = (if pu_uid p \<notin> ps \<and> pu_item p \<in> us then p\<lparr>pu_item := ''''\<rparr> else p)" for p :: dc_pdu
  have h: "so_uid (h s) = so_uid s" "so_upstream (h s) = so_upstream s" "so_item (h s) \<notin> us \<or> so_item (h s) = ''''"
    "so_item (h s) = so_item s \<or> so_item (h s) = ''''" for s
    by (auto simp: h_def)
  have g: "pu_uid (g p) = pu_uid p" "pu_outlets (g p) = pu_outlets p" "pu_rack (g p) = pu_rack p" "pu_source (g p) = pu_source p" for p
    by (simp_all add: g_def)
  have une: "'''' \<notin> us" using racks_okD(4) [OF D(1)] by (auto simp: us_def)
  have pne: "'''' \<notin> ps" using D(2) by (auto simp: ps_def keys_ok_def)
  have ein: "d_items e = filter (\<lambda>i. it_rack i \<noteq> u) (d_items d)" "d_racks e = row_delete rk_uid u (d_racks d)"
    using e gone(3) emptied_items [OF racks_okD(3) [OF D(1)], of u] by (simp_all add: forget_scope_def)
  have eq: "d_feeds e = d_feeds (emptied u d)" "d_cables e = d_cables (emptied u d)" "d_parts e = d_parts (emptied u d)"
    "d_sources e = d_sources (emptied u d)" "d_pdus e = d_pdus (emptied u d)"
    using e gone(3) by (simp_all add: forget_scope_def)
  have "d_feeds e = filter (\<lambda>f. \<not> (fd_pdu f \<in> ps \<or> fd_item f \<in> us)) (d_feeds d)
      \<and> set (d_cables e) = {c \<in> set (d_cables d). cb_a c \<notin> us \<and> cb_b c \<notin> us} \<and> set (d_parts e) = {p \<in> set (d_parts d). pa_item p \<notin> us}
      \<and> d_sources e = map h (d_sources d) \<and> d_pdus e = filter (\<lambda>p. pu_uid p \<notin> ps) (map g (d_pdus d))"
  proof (cases "rack_contents d u = 0")
    case True
    have z: "us = {}" "ps = {}"
      using True by (auto simp: rack_contents_def us_def ps_def items_of_def pdus_of_def filter_empty_conv)
    have "h = id" "g = id" by (auto simp: h_def g_def z fun_eq_iff)
    then show ?thesis unfolding eq emptied_def z using True by simp
  next
    case False
    note X = empty_rack_rest [where d = d and u = u, folded us_def ps_def, OF une pne]
    show ?thesis using X False unfolding eq emptied_def h_def [abs_def] g_def [abs_def] by simp
  qed
  then have E: "d_feeds e = filter (\<lambda>f. \<not> (fd_pdu f \<in> ps \<or> fd_item f \<in> us)) (d_feeds d)"
    "set (d_cables e) = {c \<in> set (d_cables d). cb_a c \<notin> us \<and> cb_b c \<notin> us}" "set (d_parts e) = {p \<in> set (d_parts d). pa_item p \<notin> us}"
    "d_sources e = map h (d_sources d)" "d_pdus e = filter (\<lambda>p. pu_uid p \<notin> ps) (map g (d_pdus d))"
    by blast+
  have inj: "pu_rack p = u" if "p \<in> set (d_pdus d)" "pu_uid p \<in> ps" for p
    using that D(2) by (auto simp: ps_def keys_ok_def distinct_map inj_on_def)
  have injI: "it_rack i = u" if "i \<in> set (d_items d)" "it_uid i \<in> us" for i
    using that racks_okD(3) [OF D(1)] by (auto simp: us_def distinct_map inj_on_def)
  have ik: "ikeys e = ikeys d - us" using injI by (auto simp: ein us_def)
  have "set (d_pdus e) = g ` {p \<in> set (d_pdus d). pu_uid p \<notin> ps}" by (auto simp: E(5) g)
  then have pk: "pkeys e = pkeys d - ps" by (auto simp: image_image g)
  have sk: "skeys e = skeys d" by (simp add: E(4) image_image h)
  have rk: "rkeys e = rkeys d - {u}" by (auto simp: ein)
  have scomp: "so_uid \<circ> h = so_uid" and pcomp: "pu_uid \<circ> g = pu_uid" by (simp_all add: fun_eq_iff h g)
  have "fewer d e"
    unfolding fewer_def
  proof (intro conjI ballI)
    show "distinct (map fd_uid (d_feeds e))" "distinct (map pu_uid (d_pdus e))" "distinct (map so_uid (d_sources e))"
      using D(2) unfolding E by (simp_all add: keys_ok_def distinct_filter_map pcomp scomp)
  qed (auto simp: E g h)
  from fewer_ok [OF this D(2,4,5)] have "keys_ok e" "leads_ok e" "acyclic (hangs_from (d_sources e))" by blast+
  moreover have "refs_ok e"
  proof (rule refs_okI)
    fix f assume "f \<in> set (d_feeds e)"
    then show "feed_ref (ikeys e) (pkeys e) f" using R(1) [of f] by (auto simp: E(1) ik pk feed_ref_def)
  next
    fix p assume "p \<in> set (d_pdus e)"
    then obtain p0 where "p0 \<in> set (d_pdus d)" "p = g p0" "pu_uid p0 \<notin> ps" by (auto simp: E(5) g)
    then show "pdu_ref (rkeys e) (skeys e) p" using R(2) [of p0] by (auto simp: sk rk pdu_ref_def g ps_def)
  next
    fix c assume "c \<in> set (d_cables e)"
    then show "cable_ref (ikeys e) c" using R(3) [of c] by (auto simp: cable_ref_def ik E(2))
  next
    fix p assume "p \<in> set (d_parts e)"
    then show "part_ref (ikeys e) p" using R(4) [of p] by (auto simp: part_ref_def ik E(3))
  next
    fix s assume "s \<in> set (d_sources e)"
    then obtain t where "t \<in> set (d_sources d)" "s = h t" by (auto simp: E(4))
    then show "source_ref (ikeys e) (skeys e) s" using R(5) [of t] h [of t] by (auto simp: source_ref_def ik sk)
  qed
  ultimately show ?thesis by blast
qed

end
