(* ===== verification/Dcim_Leads.thy ===== *)
theory Dcim_Leads
  imports Dcim_Inventory
begin

text \<open>
  The requests about strips, leads and cables keep the inventory: every lead ends at an item and a strip that are there,
  no numbered outlet has two.
\<close>

section \<open>Strips, leads and cables\<close>

lemma counts_nonneg:
  assumes "counts vs = Some ns" "n \<in> set ns"
  shows "0 \<le> opt n 0"
proof -
  have no: "Some None \<notin> set (map (map_option (num_col 0 0 NUM_MAX)) vs)"
    and ns: "ns = map (\<lambda>n. Option.bind n id) (map (map_option (num_col 0 0 NUM_MAX)) vs)"
    using assms(1) by (auto simp: counts_def Let_def split: if_splits)
  obtain v where v: "v \<in> set vs" "n = Option.bind (map_option (num_col 0 0 NUM_MAX) v) id" using assms(2) ns by auto
  show ?thesis
  proof (cases n)
    case (Some k)
    then obtain z where "num_col 0 0 NUM_MAX z = Some k" using v(2) by (cases v) auto
    then show ?thesis using num_col_range Some by (auto simp: opt_def)
  qed (simp add: opt_def)
qed

lemma pdu_create_rest:
  assumes ok: "inventory_ok d" and u: "fresh u (map pu_uid (d_pdus d))" and e: "e = fst (pdu_create a u q d)"
  shows "inventory_ok e"
proof (cases "e = d")
  case False
  note D = inventory_okD [OF ok]
  define rack where "rack = opt (pq_rack q) ''''"
  define src where "src = opt (pq_source q) ''''"
  obtain n m where c: "counts [pq_outlets q, pq_capacity q] = Some [n, m]" and r: "row_get rk_uid (d_racks d) rack \<noteq> None"
    and s: "\<not> source_for_rack_bad d rack src" and E: "e = d\<lparr>d_pdus := row_create (new_pdu u q n m) (d_pdus d)\<rparr>"
    using False unfolding e pdu_create_def Let_def rack_def src_def
    by (auto split: if_splits writable.splits option.splits list.splits simp: rack_writable_def)
  define p where "p = new_pdu u q n m"
  have p: "pu_uid p = u" "pu_rack p = rack" "pu_source p = src" "pu_outlets p = opt n 0"
    by (simp_all add: p_def new_pdu_def rack_def src_def)
  note E = E [folded p_def]
  have S: "src = '''' \<or> src \<in> skeys d" using s by (auto simp: source_for_rack_bad_def row_get_None split: option.splits dest: row_get_Some)
  have "refs_ok e"
    unfolding E by (rule refs_grow [OF D(3)]) (use r S in \<open>auto simp: pdu_ref_def p row_get_None\<close>)
  moreover have "keys_ok e" using D(2) u by (auto simp: E keys_ok_def fresh_def p row_create_def)
  moreover have F: "d_feeds e = d_feeds d" by (simp add: E)
  have "leads_ok e"
  proof (rule leads_okI)
    fix f x assume f: "f \<in> set (d_feeds e)" "x \<in> set (d_pdus e)" "pu_uid x = fd_pdu f" "0 < pu_outlets x"
    have "fd_pdu f \<noteq> u" using refs_okD(1) [OF D(3), of f] f(1) u by (auto simp: E feed_ref_def fresh_def)
    then show "fd_outlet f \<le> pu_outlets x" using leads_okD(2) [OF D(4), of f x] f p(1) by (auto simp: E)
  next
    fix x assume "x \<in> set (d_pdus e)"
    then show "0 \<le> pu_outlets x" using leads_okD(3) [OF D(4), of x] counts_nonneg [OF c, of n] p(4) by (auto simp: E)
  qed (unfold F, rule leads_okD(1) [OF D(4)])
  ultimately show ?thesis using D(1,5) unfolding inventory_ok_def by (simp add: E)
next
  case True
  show ?thesis using ok unfolding True .
qed

lemma outlets_short_bound:
  assumes "\<not> outlets_short d u n" "0 < n" "f \<in> set (d_feeds d)" "fd_pdu f = u" "u \<noteq> ''''"
  shows "fd_outlet f \<le> n"
proof -
  have M: "m \<le> fold (\<lambda>f. max (fd_outlet f)) fs m \<and> (\<forall>f \<in> set fs. fd_outlet f \<le> fold (\<lambda>f. max (fd_outlet f)) fs m)" for fs m
  proof (induction fs arbitrary: m)
    case (Cons f fs)
    show ?case using Cons.IH [of "max (fd_outlet f) m"] by auto
  qed simp
  have "f \<in> set (feeds_of d [u])" using assms(3-5) by (simp add: feeds_of_def)
  then have "fd_outlet f \<le> fold (\<lambda>f. max (fd_outlet f)) (feeds_of d [u]) 0" using M by blast
  then show ?thesis using assms(1,2) by (simp add: outlets_short_def Let_def)
qed

lemma pdu_update_rest:
  assumes ok: "inventory_ok d" and e: "e = fst (pdu_update a u q d)"
  shows "inventory_ok e"
proof (cases "e = d")
  case False
  note D = inventory_okD [OF ok]
  obtain p n m where p: "row_get pu_uid (d_pdus d) u = Some p" and c: "counts [pq_outlets q, pq_capacity q] = Some [n, m]"
    and sh: "\<not> (n \<noteq> None \<and> outlets_short d u (opt n 0))" and so: "\<not> (pq_source q \<noteq> None \<and> source_for_rack_bad d (pu_rack p) (opt (pq_source q) ''''))"
    and E: "e = d\<lparr>d_pdus := row_update pu_uid u (pdu_edit q n m) (d_pdus d)\<rparr>"
    using False unfolding e pdu_update_def Let_def
    by (auto split: if_splits option.splits list.splits)
  have short: "n \<noteq> None \<Longrightarrow> \<not> outlets_short d u (opt n 0)" and s: "pq_source q \<noteq> None \<Longrightarrow> \<not> source_for_rack_bad d (pu_rack p) (opt (pq_source q) '''')"
    using sh so by auto
  define h where "h = pdu_edit q n m"
  have h: "\<And>p. pu_uid (h p) = pu_uid p" "\<And>p. pu_rack (h p) = pu_rack p" "\<And>p. pu_source (h p) = opt (pq_source q) (pu_source p)"
      "\<And>p. pu_outlets (h p) = opt n (pu_outlets p)"
    by (simp_all add: h_def pdu_edit_def)
  note E = E [folded h_def]
  have keys: "map pu_uid (row_update pu_uid u h (d_pdus d)) = map pu_uid (d_pdus d)" by (simp add: keys_row_update h)
  then have pk: "pkeys e = pkeys d" by (simp add: E keys_update h)
  have S: "opt (pq_source q) x = '''' \<or> opt (pq_source q) x \<in> skeys d" if "x = '''' \<or> x \<in> skeys d" for x
    using s that by (cases "pq_source q") (auto simp: opt_def source_for_rack_bad_def row_get_None split: option.splits dest: row_get_Some)
  have une: "u \<noteq> ''''" using D(2) row_get_Some [OF p] by (metis imageI keys_ok_def)
  have "refs_ok e"
  proof (rule refs_grow [OF D(3)])
    fix x assume "x \<in> set (d_pdus e)"
    then obtain x0 where x0: "x0 \<in> set (d_pdus d)" "x = (if pu_uid x0 = u then h x0 else x0)" by (auto simp: E set_row_update)
    have "pdu_ref (rkeys d) (skeys d) x" using refs_okD(2) [OF D(3) x0(1)] S [of "pu_source x0"] by (simp add: x0(2) pdu_ref_def h)
    then show "x \<in> set (d_pdus d) \<or> pdu_ref (rkeys e) (skeys e) x" by (simp add: E)
  qed (use pk in \<open>auto simp: E\<close>)
  moreover have "keys_ok e" using D(2) keys pk by (simp add: E keys_ok_def)
  moreover have F: "d_feeds e = d_feeds d" by (simp add: E)
  have "leads_ok e"
  proof (rule leads_okI)
    fix f x assume f: "f \<in> set (d_feeds e)" "x \<in> set (d_pdus e)" "pu_uid x = fd_pdu f" "0 < pu_outlets x"
    then have fd: "f \<in> set (d_feeds d)" by (simp add: E)
    obtain x0 where x0: "x0 \<in> set (d_pdus d)" "x = (if pu_uid x0 = u then h x0 else x0)" using f(2) by (auto simp: E set_row_update)
    show "fd_outlet f \<le> pu_outlets x"
    proof (cases "pu_uid x0 = u \<and> n \<noteq> None")
      case True
      then have "pu_outlets x = opt n 0" "fd_pdu f = u" using x0 f(3) by (auto simp: h opt_def)
      then show ?thesis using outlets_short_bound [OF short _ fd _ une] True f(4) by auto
    next
      case False
      then have "pu_outlets x = pu_outlets x0" "pu_uid x = pu_uid x0" using x0 by (auto simp: h opt_def)
      then show ?thesis using leads_okD(2) [OF D(4) fd x0(1)] f by simp
    qed
  next
    fix x assume "x \<in> set (d_pdus e)"
    then show "0 \<le> pu_outlets x"
      using leads_okD(3) [OF D(4)] counts_nonneg [OF c, of n] by (cases n) (auto simp: E set_row_update h opt_def)
  qed (unfold F, rule leads_okD(1) [OF D(4)])
  ultimately show ?thesis using D(1,5) unfolding inventory_ok_def by (simp add: E)
next
  case True
  show ?thesis using ok unfolding True .
qed


lemma pdu_delete_cases:
  obtains (refused) "fst (pdu_delete a u d) = d"
  | (gone) p where "row_get pu_uid (d_pdus d) u = Some p"
      "fst (pdu_delete a u d) = d\<lparr>d_feeds := filter (\<lambda>f. f \<notin> set (feeds_of d [u])) (d_feeds d), d_pdus := row_delete pu_uid u (d_pdus d)\<rparr>"
proof (cases "fst (pdu_delete a u d) = d")
  case False
  then have "(\<exists>p. row_get pu_uid (d_pdus d) u = Some p) \<and>
      fst (pdu_delete a u d) = d\<lparr>d_feeds := filter (\<lambda>f. f \<notin> set (feeds_of d [u])) (d_feeds d), d_pdus := row_delete pu_uid u (d_pdus d)\<rparr>"
    unfolding pdu_delete_def by (auto split: option.splits if_splits)
  then show ?thesis using gone by blast
qed (rule refused)

lemma pdu_delete_rest:
  assumes ok: "inventory_ok d" and e: "e = fst (pdu_delete a u d)"
  shows "inventory_ok e"
proof (cases a u d rule: pdu_delete_cases)
  case refused
  then show ?thesis using ok e by simp
next
  case (gone p)
  note D = inventory_okD [OF ok]
  note R = refs_okD [OF D(3)]
  note E = e [unfolded gone(2)]
  have une: "u \<noteq> ''''" using D(2) row_get_Some [OF gone(1)] by (metis imageI keys_ok_def)
  have fs: "d_feeds e = filter (\<lambda>f. fd_pdu f \<noteq> u) (d_feeds d)"
    unfolding E by (auto simp: feeds_of_def une intro: filter_cong)
  have pk: "pkeys e = pkeys d - {u}" by (auto simp: E)
  have ie: "ikeys e = ikeys d" by (simp add: E)
  have "fewer d e"
    unfolding fewer_def
  proof (intro conjI ballI)
    show "distinct (map fd_uid (d_feeds e))" "distinct (map pu_uid (d_pdus e))" "distinct (map so_uid (d_sources e))"
      using D(2) unfolding fs by (simp_all add: E keys_ok_def distinct_filter_map distinct_row_delete)
  qed (auto simp: fs E)
  from fewer_ok [OF this D(2,4,5)] have "keys_ok e" "leads_ok e" "acyclic (hangs_from (d_sources e))" by blast+
  moreover have "refs_ok e"
  proof (rule refs_okI)
    fix f assume "f \<in> set (d_feeds e)"
    then show "feed_ref (ikeys e) (pkeys e) f" using R(1) [of f] by (auto simp only: fs pk ie feed_ref_def set_filter mem_Collect_eq Diff_iff singleton_iff)
  qed (use R(2-5) in \<open>simp_all add: E\<close>)
  ultimately show ?thesis using D(1) unfolding inventory_ok_def by (simp add: E)
qed

text \<open>A lead.\<close>

lemma feed_create_cases:
  obtains (refused) "fst (feed_create a u q d) = d"
  | (written) n m where "rack_writable d (seen_orgs a) (rack_of_pdu d (opt (fq_pdu q) '''')) = Allowed"
      "end_bad d (seen_orgs a) (opt (fq_item q) '''') = None" "\<not> outlet_bad d (opt (fq_pdu q) '''') (opt n 0) ''''"
      "fst (feed_create a u q d) = d\<lparr>d_feeds := row_create (new_feed u q n m) (d_feeds d)\<rparr>"
proof (cases "fst (feed_create a u q d) = d")
  case False
  then have "\<exists>n m. rack_writable d (seen_orgs a) (rack_of_pdu d (opt (fq_pdu q) '''')) = Allowed
      \<and> end_bad d (seen_orgs a) (opt (fq_item q) '''') = None \<and> \<not> outlet_bad d (opt (fq_pdu q) '''') (opt n 0) ''''
      \<and> fst (feed_create a u q d) = d\<lparr>d_feeds := row_create (new_feed u q n m) (d_feeds d)\<rparr>"
    unfolding feed_create_def Let_def
    by (auto split: writable.splits option.splits list.splits if_splits)
  then show ?thesis using written by blast
qed (rule refused)

lemma end_there:
  assumes "end_bad d al u = None"
  shows "u \<in> ikeys d"
  using assms by (auto simp: end_bad_def split: option.splits dest: row_get_Some)

lemma pdu_there:
  assumes "rack_writable d al (rack_of_pdu d u) = Allowed" "racks_ok (d_racks d) (d_items d)"
  shows "u \<in> pkeys d"
proof (rule ccontr)
  assume "u \<notin> pkeys d"
  then have "rack_of_pdu d u = ''''" by (simp add: rack_of_pdu_def flip: row_get_None)
  moreover have "row_get rk_uid (d_racks d) '''' = None" using racks_okD(2) [OF assms(2)] by (simp add: row_get_None)
  ultimately show False using assms(1) by (simp add: rack_writable_def)
qed

lemma outlet_free:
  assumes "\<not> outlet_bad d p n mine" "0 < n" "f \<in> set (d_feeds d)" "fd_pdu f = p" "fd_outlet f = n" "p \<noteq> ''''"
  shows "fd_uid f = mine"
proof -
  have "f \<in> set (feeds_of d [p])" using assms(3,4,6) by (simp add: feeds_of_def)
  then show ?thesis using assms(1,2,5) by (auto simp: outlet_bad_def Let_def list_ex_iff)
qed

lemma outlet_within:
  assumes "\<not> outlet_bad d (pu_uid p) n mine" "0 < n" "p \<in> set (d_pdus d)" "distinct (map pu_uid (d_pdus d))" "0 < pu_outlets p"
  shows "n \<le> pu_outlets p"
  using assms(1,2,5) row_get_in [OF assms(4,3)] by (simp add: outlet_bad_def Let_def)

lemma feed_create_rest:
  assumes ok: "inventory_ok d" and u: "fresh u (map fd_uid (d_feeds d))" and e: "e = fst (feed_create a u q d)"
  shows "inventory_ok e"
proof (cases a u q d rule: feed_create_cases)
  case refused
  then show ?thesis using ok e by simp
next
  case (written n m)
  note D = inventory_okD [OF ok]
  define x where "x = new_feed u q n m"
  define p where "p = opt (fq_pdu q) ''''"
  have x: "fd_uid x = u" "fd_item x = opt (fq_item q) ''''" "fd_pdu x = p" "fd_outlet x = opt n 0" by (simp_all add: x_def new_feed_def p_def)
  note E = e [unfolded written(4), folded x_def]
  note W = written(1-3) [folded p_def]
  have pin: "p \<in> pkeys d" using pdu_there [OF W(1) D(1)] .
  then have pne: "p \<noteq> ''''" using D(2) by (metis keys_ok_def)
  have "refs_ok e"
    unfolding E by (rule refs_grow [OF D(3)]) (use end_there [OF W(2)] pin in \<open>auto simp: feed_ref_def x\<close>)
  moreover have "keys_ok e" using D(2) u by (auto simp: E keys_ok_def fresh_def x row_create_def)
  moreover have fs: "set (d_feeds e) = insert x (set (d_feeds d))" "d_pdus e = d_pdus d" by (simp_all add: E)
  have one: "fd_uid f = ''''" if "f \<in> set (d_feeds d)" "fd_pdu f = p" "fd_outlet f = fd_outlet x" "0 < fd_outlet x" for f
    using outlet_free [OF W(3) _ that(1,2) _ pne] that(3,4) by (simp add: x)
  have none: False if "f \<in> set (d_feeds d)" "fd_pdu f = p" "fd_outlet f = fd_outlet x" "0 < fd_outlet x" for f
    using one [OF that] that(1) D(2) by (metis imageI keys_ok_def)
  have "leads_ok e"
  proof (rule leads_okI)
    fix f g assume "f \<in> set (d_feeds e)" "g \<in> set (d_feeds e)" "fd_pdu f = fd_pdu g" "fd_outlet f = fd_outlet g" "0 < fd_outlet f"
    then show "fd_uid f = fd_uid g" using leads_okD(1) [OF D(4), of f g] none [of f] none [of g] by (auto simp: fs x(3))
  next
    fix f y assume f: "f \<in> set (d_feeds e)" "y \<in> set (d_pdus e)" "pu_uid y = fd_pdu f" "0 < pu_outlets y"
    show "fd_outlet f \<le> pu_outlets y"
    proof (cases "f = x")
      case True
      have "\<not> outlet_bad d (pu_uid y) (fd_outlet x) ''''" using W(3) f(3) by (simp add: True x)
      from outlet_within [OF this _ _ _ f(4)] show ?thesis using f D(2) True by (cases "0 < fd_outlet x") (auto simp: fs keys_ok_def)
    qed (use leads_okD(2) [OF D(4), of f y] f in \<open>auto simp: fs\<close>)
  qed (unfold fs(2), rule leads_okD(3) [OF D(4)])
  ultimately show ?thesis using D(1,5) unfolding inventory_ok_def by (simp add: E)
qed


lemma feed_update_cases:
  obtains (refused) "fst (feed_update a u q d) = d"
  | (written) f n m where "row_get fd_uid (d_feeds d) u = Some f" "counts [fq_outlet q, fq_watts q] = Some [n, m]"
      "n \<noteq> None \<Longrightarrow> \<not> outlet_bad d (fd_pdu f) (opt n 0) u"
      "fst (feed_update a u q d) = d\<lparr>d_feeds := row_update fd_uid u (feed_edit n m) (d_feeds d)\<rparr>"
proof (cases "fst (feed_update a u q d) = d")
  case False
  then have "\<exists>f n m. row_get fd_uid (d_feeds d) u = Some f \<and> counts [fq_outlet q, fq_watts q] = Some [n, m]
      \<and> (n \<noteq> None \<longrightarrow> \<not> outlet_bad d (fd_pdu f) (opt n 0) u)
      \<and> fst (feed_update a u q d) = d\<lparr>d_feeds := row_update fd_uid u (feed_edit n m) (d_feeds d)\<rparr>"
    unfolding feed_update_def by (auto split: option.splits list.splits if_splits)
  then show ?thesis using written by blast
qed (rule refused)

lemma feed_update_rest:
  assumes ok: "inventory_ok d" and e: "e = fst (feed_update a u q d)"
  shows "inventory_ok e"
proof (cases a u q d rule: feed_update_cases)
  case refused
  then show ?thesis using ok e by simp
next
  case (written f0 n m)
  note D = inventory_okD [OF ok]
  define h where "h = feed_edit n m"
  have h: "fd_uid (h f) = fd_uid f" "fd_item (h f) = fd_item f" "fd_pdu (h f) = fd_pdu f" "fd_outlet (h f) = opt n (fd_outlet f)" for f
    by (simp_all add: h_def feed_edit_def)
  note E = e [unfolded written(4), folded h_def]
  have f0: "f0 \<in> set (d_feeds d)" "fd_uid f0 = u" using row_get_Some [OF written(1)] by auto
  have only: "f = f0" if "f \<in> set (d_feeds d)" "fd_uid f = u" for f
    using that f0 D(2) by (auto simp: keys_ok_def distinct_map dest: inj_onD)
  have fs: "set (d_feeds e) = (\<lambda>f. if fd_uid f = u then h f else f) ` set (d_feeds d)" and es: "d_pdus e = d_pdus d" "pkeys e = pkeys d" "ikeys e = ikeys d"
    by (simp_all add: E set_row_update)
  have mk: "map fd_uid (d_feeds e) = map fd_uid (d_feeds d)" by (simp add: E keys_row_update h)
  have ku: "fd_uid ` set (d_feeds e) = fd_uid ` set (d_feeds d)" by (metis mk set_map)
  have ds: "d_sources e = d_sources d" by (simp add: E)
  have "keys_ok e" using D(2) unfolding keys_ok_def mk ku es(1) ds .
  moreover have "refs_ok e"
    unfolding E by (rule refs_grow [OF D(3)]) (use refs_okD(1) [OF D(3)] in \<open>auto simp: feed_ref_def set_row_update h\<close>)
  moreover have pne: "fd_pdu f \<noteq> ''''" if "f \<in> set (d_feeds d)" for f
    using refs_okD(1) [OF D(3) that] D(2) by (metis feed_ref_def keys_ok_def)
  have new: "fd_uid f = u" if "n \<noteq> None" "f \<in> set (d_feeds d)" "fd_pdu f = fd_pdu f0" "fd_outlet f = opt n 0" "0 < opt n 0" for f
    using outlet_free [OF written(3) _ that(2,3,4)] that pne [OF f0(1)] by blast
  have "leads_ok e"
  proof (rule leads_okI)
    fix f g assume a: "f \<in> set (d_feeds e)" "g \<in> set (d_feeds e)" "fd_pdu f = fd_pdu g" "fd_outlet f = fd_outlet g" "0 < fd_outlet f"
    obtain f1 g1 where b: "f1 \<in> set (d_feeds d)" "f = (if fd_uid f1 = u then h f1 else f1)" "g1 \<in> set (d_feeds d)" "g = (if fd_uid g1 = u then h g1 else g1)"
      using a(1,2) unfolding fs by blast
    have c: "fd_pdu f1 = fd_pdu g1" "fd_uid f = fd_uid f1" "fd_uid g = fd_uid g1" using a(3) b(2,4) h by (metis, metis, metis)
    show "fd_uid f = fd_uid g"
    proof (cases "n = None")
      case True
      then have "fd_outlet f = fd_outlet f1" "fd_outlet g = fd_outlet g1" using b by (simp_all add: h opt_def)
      then show ?thesis using leads_okD(1) [OF D(4) b(1,3) c(1)] a(4,5) c by simp
    next
      case False
      then have o: "fd_outlet f = (if fd_uid f1 = u then opt n 0 else fd_outlet f1)" "fd_outlet g = (if fd_uid g1 = u then opt n 0 else fd_outlet g1)"
        using b by (auto simp: h opt_def)
      consider "fd_uid f1 = u" "fd_uid g1 = u" | "fd_uid f1 = u" "fd_uid g1 \<noteq> u" | "fd_uid f1 \<noteq> u" "fd_uid g1 = u"
        | "fd_uid f1 \<noteq> u" "fd_uid g1 \<noteq> u" by blast
      then show ?thesis
      proof cases
        case 2
        then show ?thesis using new [OF False b(3)] only [OF b(1)] c o a(4,5) by simp
      next
        case 3
        then show ?thesis using new [OF False b(1)] only [OF b(3)] c o a(4,5) by simp
      next
        case 4
        then show ?thesis using leads_okD(1) [OF D(4) b(1,3) c(1)] a(4,5) c o by simp
      qed (simp add: c)
    qed
  next
    fix f y assume a: "f \<in> set (d_feeds e)" "y \<in> set (d_pdus e)" "pu_uid y = fd_pdu f" "0 < pu_outlets y"
    obtain f1 where b: "f1 \<in> set (d_feeds d)" "f = (if fd_uid f1 = u then h f1 else f1)" using a(1) unfolding fs by blast
    have c: "fd_pdu f1 = fd_pdu f" using b(2) h by metis
    have y: "y \<in> set (d_pdus d)" using a(2) es by simp
    show "fd_outlet f \<le> pu_outlets y"
    proof (cases "fd_uid f1 = u \<and> n \<noteq> None")
      case True
      then have "f1 = f0" "fd_outlet f = opt n 0" using only [OF b(1)] b(2) by (auto simp: h opt_def)
      then have "\<not> outlet_bad d (pu_uid y) (fd_outlet f) u" using written(3) True c a(3) by metis
      from outlet_within [OF this _ y _ a(4)] show ?thesis using D(2) a(4) by (cases "0 < fd_outlet f") (auto simp: keys_ok_def)
    next
      case False
      then have "fd_outlet f = fd_outlet f1" using b by (auto simp: h opt_def)
      then show ?thesis using leads_okD(2) [OF D(4) b(1) y] c a by simp
    qed
  qed (unfold es(1), rule leads_okD(3) [OF D(4)])
  ultimately show ?thesis using D(1,5) unfolding inventory_ok_def by (simp add: E)
qed

lemma feed_delete_rest:
  assumes ok: "inventory_ok d" and e: "e = fst (feed_delete a u d)"
  shows "inventory_ok e"
proof (cases "fst (feed_delete a u d) = d")
  case True
  show ?thesis using ok unfolding e True .
next
  case False
  then have E: "e = d\<lparr>d_feeds := row_delete fd_uid u (d_feeds d)\<rparr>"
    unfolding e feed_delete_def by (auto split: option.splits if_splits)
  note D = inventory_okD [OF ok]
  have "fewer d e" using D(2) by (auto simp: fewer_def E keys_ok_def distinct_row_delete)
  from fewer_ok [OF this D(2,4,5)] have "keys_ok e" "leads_ok e" "acyclic (hangs_from (d_sources e))" by blast+
  moreover have "refs_ok e" unfolding E by (rule refs_grow [OF D(3)]) simp_all
  ultimately show ?thesis using D(1) unfolding inventory_ok_def by (simp add: E)
qed

text \<open>A cable.\<close>

lemma cables_rest:
  assumes ok: "inventory_ok d" and E: "e = d\<lparr>d_cables := cs\<rparr>" and c: "\<And>c. c \<in> set cs \<Longrightarrow> cable_ref (ikeys d) c"
  shows "inventory_ok e"
proof -
  note D = inventory_okD [OF ok]
  have "refs_ok e" unfolding E by (rule refs_grow [OF D(3)]) (use c in simp_all)
  moreover have "keys_ok e" "leads_ok e" "hangs_from (d_sources e) = hangs_from (d_sources d)"
    using D(2,4) same_rest [of e d] by (simp_all add: E)
  ultimately show ?thesis using D(1,5) unfolding inventory_ok_def by (simp add: E)
qed

lemma ends_there:
  assumes "List.map_filter (end_bad d al) us = []" "u \<in> set us"
  shows "u \<in> ikeys d"
proof (rule end_there)
  show "end_bad d al u = None" using assms by (induction us) (auto simp: map_filter_simps split: option.splits)
qed

lemma cable_create_rest:
  assumes ok: "inventory_ok d" and e: "e = fst (cable_create a u q d)"
  shows "inventory_ok e"
proof (cases "fst (cable_create a u q d) = d")
  case True
  show ?thesis using ok unfolding e True .
next
  case False
  then have "List.map_filter (end_bad d (seen_orgs a)) [opt (cq_a q) '''', opt (cq_b q) ''''] = []
      \<and> e = d\<lparr>d_cables := row_create (new_cable u q) (d_cables d)\<rparr>"
    unfolding e cable_create_def Let_def by (auto split: writable.splits list.splits if_splits)
  then have W: "List.map_filter (end_bad d (seen_orgs a)) [opt (cq_a q) '''', opt (cq_b q) ''''] = []"
    and E: "e = d\<lparr>d_cables := row_create (new_cable u q) (d_cables d)\<rparr>" by blast+
  show ?thesis
  proof (rule cables_rest [OF ok E])
    fix c assume "c \<in> set (row_create (new_cable u q) (d_cables d))"
    then consider "c = new_cable u q" | "c \<in> set (d_cables d)" by auto
    then show "cable_ref (ikeys d) c"
    proof cases
      case 1
      then show ?thesis using ends_there [OF W] by (auto simp: cable_ref_def new_cable_def cable_edit_def)
    qed (rule refs_okD(3) [OF inventory_okD(3) [OF ok]])
  qed
qed

lemma cable_update_cases:
  obtains (refused) "fst (cable_update a u q d) = d"
  | (written) c where "row_get cb_uid (d_cables d) u = Some c"
      "List.map_filter (end_bad d (seen_orgs a)) (moved_ends q c) = []"
      "fst (cable_update a u q d) = d\<lparr>d_cables := row_update cb_uid u (cable_edit q) (d_cables d)\<rparr>"
proof (cases "row_get cb_uid (d_cables d) u")
  case None
  then show ?thesis by (intro refused) (simp add: cable_update_def)
next
  case (Some c)
  show ?thesis
  proof (cases "List.map_filter (end_bad d (seen_orgs a)) (moved_ends q c)")
    case Nil
    have "fst (cable_update a u q d) = d \<or> fst (cable_update a u q d) = d\<lparr>d_cables := row_update cb_uid u (cable_edit q) (d_cables d)\<rparr>"
      unfolding cable_update_def Let_def Some option.case Nil list.case by simp
    then show ?thesis using refused written [OF Some Nil] by blast
  next
    case (Cons e es)
    then show ?thesis by (intro refused) (simp add: cable_update_def Let_def Some split: prod.split)
  qed
qed

lemma cable_update_rest:
  assumes ok: "inventory_ok d" and e: "e = fst (cable_update a u q d)"
  shows "inventory_ok e"
proof (cases a u q d rule: cable_update_cases)
  case refused
  then show ?thesis using ok e by simp
next
  case (written c)
  note C = refs_okD(3) [OF inventory_okD(3) [OF ok]]
  have c: "cb_a c \<in> ikeys d" "cb_b c \<in> ikeys d" using C row_get_Some [OF written(1)] unfolding cable_ref_def by blast+
  have "X \<in> ikeys d" if "cq_a q = Some X" for X
    using ends_there [OF written(2), of X] c(1) that by (cases "X = cb_a c") (simp_all add: moved_ends_def opt_def Let_def)
  moreover have "X \<in> ikeys d" if "cq_b q = Some X" for X
    using ends_there [OF written(2), of X] c(2) that by (cases "X = cb_b c") (simp_all add: moved_ends_def opt_def Let_def)
  ultimately have ends: "opt (cq_a q) y \<in> ikeys d" "opt (cq_b q) y \<in> ikeys d" if "y \<in> ikeys d" for y
    using that by (simp_all add: opt_def split: option.split)
  show ?thesis
  proof (rule cables_rest [OF ok e [unfolded written(3)]])
    fix x assume "x \<in> set (row_update cb_uid u (cable_edit q) (d_cables d))"
    then obtain x0 where "x0 \<in> set (d_cables d)" "x = (if cb_uid x0 = u then cable_edit q x0 else x0)" by (auto simp: set_row_update)
    then show "cable_ref (ikeys d) x" using C [of x0] ends by (auto simp: cable_ref_def cable_edit_def)
  qed
qed

lemma cable_delete_rest:
  assumes ok: "inventory_ok d" and e: "e = fst (cable_delete a u d)"
  shows "inventory_ok e"
proof (cases "fst (cable_delete a u d) = d")
  case True
  show ?thesis using ok unfolding e True .
next
  case False
  then have E: "e = d\<lparr>d_cables := row_delete cb_uid u (d_cables d)\<rparr>"
    unfolding e cable_delete_def by (auto split: option.splits if_splits)
  show ?thesis by (rule cables_rest [OF ok E]) (use refs_okD(3) [OF inventory_okD(3) [OF ok]] in simp)
qed

end
