(* ===== verification/Dcim_Sources.thy ===== *)
theory Dcim_Sources
  imports Dcim_Inventory
begin

text \<open>
  The requests about power sources: no chain comes back to itself, whatever is created, edited, copied or deleted, and
  so every chain ends at a source that hangs from nothing.
\<close>

definition sources_ok :: "string set \<Rightarrow> dc_source list \<Rightarrow> bool" where
  "sources_ok I ss \<longleftrightarrow> distinct (map so_uid ss) \<and> '''' \<notin> so_uid ` set ss \<and> (\<forall>s \<in> set ss. source_ref I (so_uid ` set ss) s) \<and> acyclic (hangs_from ss)"

lemma sources_okI:
  "inventory_ok d \<Longrightarrow> sources_ok (ikeys d) (d_sources d)"
  unfolding sources_ok_def inventory_ok_def keys_ok_def refs_ok_def by blast

text \<open>What changes only the sources keeps the rest when none of them goes.\<close>

lemma sources_rest:
  assumes ok: "inventory_ok d" and E: "e = d\<lparr>d_sources := ss\<rparr>" and s: "sources_ok (ikeys d) ss" and sub: "skeys d \<subseteq> so_uid ` set ss"
  shows "inventory_ok e"
proof -
  note D = inventory_okD [OF ok]
  have S: "source_ref (ikeys d) (so_uid ` set ss) x" if "x \<in> set ss" for x using s that by (simp add: sources_ok_def)
  have rest: "d_feeds e = d_feeds d" "d_pdus e = d_pdus d" "d_cables e = d_cables d" "d_parts e = d_parts d" "d_sources e = ss"
    "ikeys e = ikeys d" "pkeys e = pkeys d" "rkeys e = rkeys d" "skeys e = so_uid ` set ss"
    by (simp_all add: E)
  have "refs_ok e"
    by (rule refs_grow [OF D(3)]) (use S sub in \<open>unfold rest, blast+\<close>)
  moreover have "keys_ok e" "acyclic (hangs_from (d_sources e))" using D(2) s unfolding keys_ok_def rest sources_ok_def by blast+
  moreover have "leads_ok e" using D(4) unfolding leads_ok_def rest .
  ultimately show ?thesis using D(1) unfolding inventory_ok_def by (simp add: E)
qed

lemma sources_append:
  assumes ok: "sources_ok I ss" and u: "so_uid c \<noteq> ''''" "so_uid c \<notin> so_uid ` set ss"
    and up: "so_upstream c = '''' \<or> so_upstream c \<in> so_uid ` set ss" and it: "so_item c = '''' \<or> so_item c \<in> I"
  shows "sources_ok I (ss @ [c])"
proof -
  let ?R = "hangs_from ss"
  have H: "hangs_from (ss @ [c]) = (if so_upstream c = '''' then ?R else insert (so_uid c, so_upstream c) ?R)"
    by (auto simp: hangs_from_def)
  have "acyclic (hangs_from (ss @ [c]))"
  proof (cases "so_upstream c = ''''")
    case False
    have "(so_upstream c, so_uid c) \<notin> ?R\<^sup>*"
    proof
      assume "(so_upstream c, so_uid c) \<in> ?R\<^sup>*"
      then show False
      proof cases
        case base
        then show ?thesis using up False u(2) by simp
      next
        case (step z)
        then obtain s where "s \<in> set ss" "so_upstream s = so_uid c" by (auto simp: hangs_from_def)
        then show ?thesis using ok u unfolding sources_ok_def source_ref_def by metis
      qed
    qed
    then show ?thesis using ok H False by (simp add: sources_ok_def)
  qed (use ok H in \<open>simp add: sources_ok_def\<close>)
  moreover have "source_ref I (so_uid ` set (ss @ [c])) s" if "s \<in> set (ss @ [c])" for s
    using that ok up it by (auto simp: sources_ok_def source_ref_def)
  ultimately show ?thesis using ok u unfolding sources_ok_def by auto
qed

section \<open>The chain lists everything above\<close>

lemma hangs_fromI: "s \<in> set ss \<Longrightarrow> so_upstream s \<noteq> '''' \<Longrightarrow> (so_uid s, so_upstream s) \<in> hangs_from ss"
  unfolding hangs_from_def by blast

lemma chain_up_lists:
  assumes ac: "acyclic (hangs_from ss)" and dist: "distinct (map so_uid ss)" and ne: "'''' \<notin> so_uid ` set ss"
    and path: "(u, w) \<in> (hangs_from ss)\<^sup>*" and w: "w \<in> so_uid ` set ss"
    and seen: "\<And>x. x \<in> set seen \<Longrightarrow> (u, x) \<notin> (hangs_from ss)\<^sup>*"
  shows "\<exists>h \<in> set (chain_up ss False (\<lambda>_. True) site u seen). map_option so_uid (hop_source h) = Some w"
  using path seen
proof (induction arbitrary: site seen rule: converse_rtrancl_induct)
  case base
  then have "w \<notin> set seen" "w \<noteq> ''''" using w ne by blast+
  moreover obtain s where "row_get so_uid ss w = Some s" using w row_get_None by (metis not_None_eq)
  ultimately show ?case using row_get_Some [of so_uid ss w s] by (subst chain_up.simps) (simp add: Let_def)
next
  case (step u z)
  obtain s where s: "s \<in> set ss" "so_uid s = u" "so_upstream s = z" using step.hyps(1) by (auto simp: hangs_from_def)
  have row: "row_get so_uid ss u = Some s" using row_get_in [OF dist s(1)] s(2) by simp
  have u: "u \<notin> set seen" using step.prems by blast
  have une: "u \<noteq> ''''" using ne s(1,2) by (metis imageI)
  have "(z, x) \<notin> (hangs_from ss)\<^sup>*" if "x \<in> set (u # seen)" for x
  proof
    assume zx: "(z, x) \<in> (hangs_from ss)\<^sup>*"
    show False
    proof (cases "x = u")
      case True
      then have "(u, u) \<in> (hangs_from ss)\<^sup>+" using step.hyps(1) zx by (metis rtrancl_into_trancl2)
      then show ?thesis using ac by (simp add: acyclic_def)
    next
      case False
      then show ?thesis using that step.prems [of x] converse_rtrancl_into_rtrancl [OF step.hyps(1) zx] by simp
    qed
  qed
  from step.IH [OF this] obtain h where "h \<in> set (chain_up ss False (\<lambda>_. True) (txt_or (so_site s) site) z (u # seen))"
    "map_option so_uid (hop_source h) = Some w" by blast
  then show ?case using u une row s(3) by (subst chain_up.simps) (auto simp: Let_def)
qed

lemma upstream_ok:
  assumes ok: "sources_ok I (d_sources d)" and b: "upstream_bad d u up = None" and u: "u \<in> skeys d"
  shows "up = '''' \<or> (up \<in> skeys d \<and> (up, u) \<notin> (hangs_from (d_sources d))\<^sup>*)"
proof (cases "up = ''''")
  case False
  with b have up: "up \<noteq> u" "row_get so_uid (d_sources d) up \<noteq> None"
    and no: "\<not> list_ex (\<lambda>h. map_option so_uid (hop_source h) = Some u) (chain (d_sources d) [] False (\<lambda>_. True) up)"
    by (auto simp: upstream_bad_def split: if_splits)
  have "(up, u) \<notin> (hangs_from (d_sources d))\<^sup>*"
  proof
    assume p: "(up, u) \<in> (hangs_from (d_sources d))\<^sup>*"
    have "\<exists>h \<in> set (chain_up (d_sources d) False (\<lambda>_. True) '''' up []). map_option so_uid (hop_source h) = Some u"
      by (rule chain_up_lists [OF _ _ _ p u]) (use ok in \<open>auto simp: sources_ok_def\<close>)
    then show False using no by (auto simp: chain_def list_ex_iff)
  qed
  then show ?thesis using up(2) unfolding row_get_None by blast
qed simp


section \<open>What the requests keep\<close>

lemma source_create_cases:
  obtains (refused) "fst (source_create a u q d) = d"
  | (written) n where "upstream_bad d '''' (opt (sq_upstream q) '''') = None" "\<not> source_item_bad d '''' (opt (sq_item q) '''') (opt (sq_site q) '''')"
      "fst (source_create a u q d) = d\<lparr>d_sources := row_create (new_source u q n) (d_sources d)\<rparr>"
proof (cases "fst (source_create a u q d) = d")
  case False
  then obtain n where b: "bypass_num (sq_bypass q) = Some n"
    unfolding source_create_def Let_def by (auto split: option.splits if_splits)
  have "fst (source_create a u q d) = d \<or> (upstream_bad d '''' (opt (sq_upstream q) '''') = None \<and> \<not> source_item_bad d '''' (opt (sq_item q) '''') (opt (sq_site q) '''')
      \<and> fst (source_create a u q d) = d\<lparr>d_sources := row_create (new_source u q n) (d_sources d)\<rparr>)"
    unfolding source_create_def Let_def b option.case
    by (cases "upstream_bad d '''' (opt (sq_upstream q) '''')") (simp_all only: option.case fst_conv if_cancel split: if_split, blast+)
  then show ?thesis using False written by blast
qed (rule refused)

lemma item_there:
  assumes "\<not> source_item_bad d u i site"
  shows "i = '''' \<or> i \<in> ikeys d"
  using assms row_get_Some by (fastforce simp: source_item_bad_def split: option.splits)

lemma source_create_rest:
  assumes ok: "inventory_ok d" and u: "fresh u (map so_uid (d_sources d))" and e: "e = fst (source_create a u q d)"
  shows "inventory_ok e"
proof (cases a u q d rule: source_create_cases)
  case refused
  then show ?thesis using ok e by simp
next
  case (written n)
  note S = sources_okI [OF ok]
  have up: "opt (sq_upstream q) '''' = '''' \<or> opt (sq_upstream q) '''' \<in> skeys d"
    using written(1) by (auto simp: upstream_bad_def row_get_None split: if_splits)
  have "sources_ok (ikeys d) (d_sources d @ [new_source u q n])"
    by (rule sources_append [OF S]) (use u up item_there [OF written(2)] in \<open>auto simp: fresh_def new_source_def\<close>)
  then show ?thesis by (intro sources_rest [OF ok e [unfolded written(3) row_create_def]]) auto
qed

lemma source_update_cases:
  obtains (refused) "fst (source_update a u q d) = d"
  | (written) site n where "u \<in> skeys d" "\<And>x. sq_upstream q = Some x \<Longrightarrow> upstream_bad d u x = None"
      "\<And>x. sq_item q = Some x \<Longrightarrow> \<not> source_item_bad d u x site"
      "fst (source_update a u q d) = d\<lparr>d_sources := row_update so_uid u (source_edit q n) (d_sources d)\<rparr>"
proof (cases "fst (source_update a u q d) = d")
  case False
  then have "u \<in> skeys d \<and> (\<exists>site n. (\<forall>x. sq_upstream q = Some x \<longrightarrow> upstream_bad d u x = None)
      \<and> (\<forall>x. sq_item q = Some x \<longrightarrow> \<not> source_item_bad d u x site)
      \<and> fst (source_update a u q d) = d\<lparr>d_sources := row_update so_uid u (source_edit q n) (d_sources d)\<rparr>)"
  proof -
    have W: "source_writable d (seen_orgs a) u = Allowed"
      using False unfolding source_update_def by (auto split: writable.splits if_splits)
    then obtain s where s: "row_get so_uid (d_sources d) u = Some s" by (auto simp: source_writable_def split: option.splits)
    obtain n where b: "bypass_num (sq_bypass q) = Some n"
      using False unfolding source_update_def W writable.case Let_def by (auto split: option.splits if_splits)
    have "fst (source_update a u q d) = d \<or> ((case sq_upstream q of None \<Rightarrow> None | Some up \<Rightarrow> upstream_bad d u up) = None
        \<and> \<not> (sq_item q \<noteq> None \<and> source_item_bad d u (opt (sq_item q) '''') (so_site s))
        \<and> fst (source_update a u q d) = d\<lparr>d_sources := row_update so_uid u (source_edit q n) (d_sources d)\<rparr>)"
      unfolding source_update_def W writable.case Let_def s b option.case
      by (cases "case sq_upstream q of None \<Rightarrow> None | Some up \<Rightarrow> upstream_bad d u up") (simp_all only: option.case fst_conv if_cancel split: if_split, blast+)
    with False have "(case sq_upstream q of None \<Rightarrow> None | Some up \<Rightarrow> upstream_bad d u up) = None"
        "\<not> (sq_item q \<noteq> None \<and> source_item_bad d u (opt (sq_item q) '''') (so_site s))"
        "fst (source_update a u q d) = d\<lparr>d_sources := row_update so_uid u (source_edit q n) (d_sources d)\<rparr>" by blast+
    then show ?thesis using row_get_Some [OF s] by (auto simp: opt_def)
  qed
  then show ?thesis using written by blast
qed (rule refused)

lemma source_update_rest:
  assumes ok: "inventory_ok d" and e: "e = fst (source_update a u q d)"
  shows "inventory_ok e"
proof (cases a u q d rule: source_update_cases)
  case refused
  then show ?thesis using ok e by simp
next
  case (written site n)
  let ?ss = "d_sources d" and ?h = "source_edit q n"
  let ?tt = "row_update so_uid u ?h ?ss"
  note S = sources_okI [OF ok]
  have h: "so_uid (?h s) = so_uid s" "so_upstream (?h s) = opt (sq_upstream q) (so_upstream s)" "so_item (?h s) = opt (sq_item q) (so_item s)" for s
    by (simp_all add: source_edit_def)
  have keys: "map so_uid ?tt = map so_uid ?ss" by (simp add: keys_row_update h)
  then have ks: "so_uid ` set ?tt = so_uid ` set ?ss" by (metis set_map)
  have UP: "up = '''' \<or> (up \<in> skeys d \<and> (up, u) \<notin> (hangs_from ?ss)\<^sup>*)" if "sq_upstream q = Some up" for up
    using upstream_ok [OF S written(2) [OF that] written(1)] .
  have IT: "i = '''' \<or> i \<in> ikeys d" if "sq_item q = Some i" for i using item_there [OF written(3) [OF that]] .
  have ref: "source_ref (ikeys d) (skeys d) x" if "x \<in> set ?ss" for x using S that by (simp add: sources_ok_def)
  have "source_ref (ikeys d) (skeys d) x" if "x \<in> set ?tt" for x
  proof -
    obtain s where s: "s \<in> set ?ss" "x = (if so_uid s = u then ?h s else s)" using \<open>x \<in> set ?tt\<close> by (auto simp: set_row_update)
    have "source_ref (ikeys d) (skeys d) (?h s)"
      using ref [OF s(1)] UP IT by (auto simp: source_ref_def h opt_def split: option.splits)
    then show ?thesis using ref [OF s(1)] s(2) by simp
  qed
  moreover have "acyclic (hangs_from ?tt)"
  proof (cases "sq_upstream q = None \<or> sq_upstream q = Some ''''")
    case True
    have "hangs_from ?tt \<subseteq> hangs_from ?ss"
      using True by (auto simp: hangs_from_def set_row_update h opt_def split: if_splits)
    then show ?thesis using S acyclic_subset by (auto simp: sources_ok_def)
  next
    case False
    then obtain up where up: "sq_upstream q = Some up" "up \<noteq> ''''" by auto
    have "hangs_from ?tt \<subseteq> insert (u, up) (hangs_from ?ss)"
      using up by (auto simp: hangs_from_def set_row_update h opt_def split: if_splits)
    moreover have "acyclic (insert (u, up) (hangs_from ?ss))" using UP [OF up(1)] up(2) S by (simp add: sources_ok_def)
    ultimately show ?thesis by (rule acyclic_subset [rotated])
  qed
  ultimately have "sources_ok (ikeys d) ?tt" using S unfolding sources_ok_def keys ks by blast
  then show ?thesis by (intro sources_rest [OF ok e [unfolded written(4)]]) (simp_all add: ks)
qed

text \<open>A copy.\<close>

lemma clone_rows_keep:
  assumes "sources_ok I rows" "\<And>s p. (s, p) \<in> set todo \<Longrightarrow> p = '''' \<or> p \<in> so_uid ` set rows"
  shows "sources_ok I (clone_rows ss draw suffix first todo seen n rows)
    \<and> so_uid ` set rows \<subseteq> so_uid ` set (clone_rows ss draw suffix first todo seen n rows)"
  using assms
proof (induction ss draw suffix first todo seen n rows rule: clone_rows.induct)
  case (1 ss draw suffix first todo seen n rows)
  show ?case
  proof (cases todo)
    case Nil
    then show ?thesis using "1.prems"(1) by (subst (1 2) clone_rows.simps) simp
  next
    case (Cons sp rest)
    obtain s p where sp: "sp = (s, p)" by (cases sp)
    note C = Cons [unfolded sp]
    consider "so_uid s \<in> set seen \<or> CLONE_MAX \<le> n" | "\<not> (so_uid s \<in> set seen \<or> CLONE_MAX \<le> n)" "draw n = '''' \<or> draw n \<in> so_uid ` set rows"
      | "\<not> (so_uid s \<in> set seen \<or> CLONE_MAX \<le> n)" "\<not> (draw n = '''' \<or> draw n \<in> so_uid ` set rows)" by blast
    then show ?thesis
    proof cases
      case 1
      have "sources_ok I (clone_rows ss draw suffix first rest seen n rows)
          \<and> so_uid ` set rows \<subseteq> so_uid ` set (clone_rows ss draw suffix first rest seen n rows)"
        by (rule "1.IH"(1) [OF C refl 1]) (use "1.prems" C in auto)
      then show ?thesis using 1 by (subst (1 2) clone_rows.simps) (simp add: C)
    next
      case 2
      then show ?thesis using "1.prems"(1) by (subst (1 2) clone_rows.simps) (simp add: C)
    next
      case 3
      define copy where "copy = \<lparr>so_uid = draw n, so_site = so_site s,
          so_name = (if so_uid s = first then py_strip (so_name s @ '' '' @ suffix) else so_name s),
          so_kind = so_kind s, so_upstream = p, so_bypass = 0, so_item = ''''\<rparr>"
      have "p = '''' \<or> p \<in> so_uid ` set rows" using "1.prems"(2) [of s p] C by simp
      then have A: "sources_ok I (rows @ [copy])"
        using 3(2) by (intro sources_append [OF "1.prems"(1)]) (simp_all add: copy_def)
      let ?r = "clone_rows ss draw suffix first (map (\<lambda>h. (h, draw n)) (hanging ss (so_uid s)) @ rest) (so_uid s # seen) (Suc n) (rows @ [copy])"
      have "sources_ok I ?r \<and> so_uid ` set (rows @ [copy]) \<subseteq> so_uid ` set ?r"
        by (rule "1.IH"(2) [OF C refl 3 copy_def A]) (use "1.prems"(2) C in \<open>auto simp: copy_def\<close>)
      moreover have "clone_rows ss draw suffix first todo seen n rows = ?r"
        using 3 by (subst clone_rows.simps) (simp add: C copy_def Let_def)
      ultimately show ?thesis by auto
    qed
  qed
qed

lemma source_clone_rest:
  assumes ok: "inventory_ok d" and e: "e = fst (source_clone a draw suffix u d)"
  shows "inventory_ok e"
proof (cases "fst (source_clone a draw suffix u d) = d")
  case True
  show ?thesis using ok unfolding e True .
next
  case False
  then obtain s where s: "row_get so_uid (d_sources d) u = Some s"
    and E: "e = d\<lparr>d_sources := clone_rows (d_sources d) draw suffix u [(s, so_upstream s)] [] 0 (d_sources d)\<rparr>"
    unfolding e source_clone_def by (auto split: writable.splits option.splits if_splits)
  note S = sources_okI [OF ok]
  have up: "so_upstream s = '''' \<or> so_upstream s \<in> skeys d"
    using S row_get_Some [OF s] unfolding sources_ok_def source_ref_def by blast
  have "sources_ok (ikeys d) (clone_rows (d_sources d) draw suffix u [(s, so_upstream s)] [] 0 (d_sources d))
      \<and> skeys d \<subseteq> so_uid ` set (clone_rows (d_sources d) draw suffix u [(s, so_upstream s)] [] 0 (d_sources d))"
    by (rule clone_rows_keep [OF S]) (use up in auto)
  then show ?thesis using sources_rest [OF ok E] by blast
qed

lemma source_delete_rest:
  assumes ok: "inventory_ok d" and e: "e = fst (source_delete a u d)"
  shows "inventory_ok e"
proof (cases "fst (source_delete a u d) = d")
  case True
  show ?thesis using ok unfolding e True .
next
  case False
  note D = inventory_okD [OF ok]
  note R = refs_okD [OF D(3)]
  define h where "h s = (if so_upstream s = u then s\<lparr>so_upstream := ''''\<rparr> else s)" for s :: dc_source
  define g where "g p = (if pu_source p = u then p\<lparr>pu_source := ''''\<rparr> else p)" for p :: dc_pdu
  define f where "f i = (if it_source i = u then i\<lparr>it_source := ''''\<rparr> else i)" for i :: dc_item
  have E: "e = d\<lparr>d_sources := row_delete so_uid u (map h (d_sources d)), d_pdus := map g (d_pdus d), d_items := map f (d_items d)\<rparr>"
    using False unfolding e source_delete_def h_def g_def f_def by (auto split: writable.splits if_splits)
  have h: "so_uid (h s) = so_uid s" "so_item (h s) = so_item s" "so_upstream (h s) = '''' \<or> (so_upstream (h s) = so_upstream s \<and> so_upstream s \<noteq> u)" for s
    by (simp_all add: h_def)
  have g: "pu_uid (g p) = pu_uid p" "pu_outlets (g p) = pu_outlets p" "pu_rack (g p) = pu_rack p"
    "pu_source (g p) = '''' \<or> (pu_source (g p) = pu_source p \<and> pu_source p \<noteq> u)" for p
    by (simp_all add: g_def)
  have f: "alike (f i) i" for i by (simp add: alike_def same_place_def f_def)
  have racks: "racks_ok (d_racks e) (d_items e)" unfolding E by simp (rule racks_ok_alike [OF D(1) f])
  have mi: "it_uid (f i) = it_uid i" for i using f by (simp add: alike_def)
  have ik: "ikeys e = ikeys d" by (simp add: E image_image mi)
  have pk: "pkeys e = pkeys d" by (simp add: E image_image g)
  have "set (d_sources e) = h ` {s \<in> set (d_sources d). so_uid s \<noteq> u}" by (auto simp: E h)
  then have sk: "skeys e = skeys d - {u}" by (auto simp: image_image h)
  have rest: "d_feeds e = d_feeds d" "d_cables e = d_cables d" "d_parts e = d_parts d" "d_racks e = d_racks d"
    "d_pdus e = map g (d_pdus d)" "d_sources e = row_delete so_uid u (map h (d_sources d))" by (simp_all add: E)
  have comp: "so_uid \<circ> h = so_uid" "pu_uid \<circ> g = pu_uid" by (simp_all add: fun_eq_iff h g)
  have "fewer d e"
    unfolding fewer_def
  proof (intro conjI ballI)
    show "distinct (map fd_uid (d_feeds e))" "distinct (map pu_uid (d_pdus e))" "distinct (map so_uid (d_sources e))"
      using D(2) unfolding rest by (simp_all add: keys_ok_def comp distinct_row_delete)
  next
    fix p assume "p \<in> set (d_pdus e)"
    then show "\<exists>p0 \<in> set (d_pdus d). pu_uid p = pu_uid p0 \<and> pu_outlets p = pu_outlets p0" using g unfolding rest by auto
  next
    fix s assume "s \<in> set (d_sources e)"
    then obtain s0 where "s0 \<in> set (d_sources d)" "s = h s0" unfolding rest by auto
    then show "\<exists>s0 \<in> set (d_sources d). so_uid s = so_uid s0 \<and> (so_upstream s = '''' \<or> so_upstream s = so_upstream s0)" using h by metis
  qed (simp add: rest)
  from fewer_ok [OF this D(2,4,5)] have "keys_ok e" "leads_ok e" "acyclic (hangs_from (d_sources e))" by blast+
  moreover have "refs_ok e"
  proof (rule refs_okI)
    fix p assume "p \<in> set (d_pdus e)"
    then obtain p0 where p0: "p0 \<in> set (d_pdus d)" "p = g p0" unfolding rest by auto
    show "pdu_ref (rkeys e) (skeys e) p" using R(2) [OF p0(1)] g [of p0] unfolding pdu_ref_def p0(2) sk rest(4) by auto
  next
    fix s assume "s \<in> set (d_sources e)"
    then obtain s0 where s0: "s0 \<in> set (d_sources d)" "s = h s0" unfolding rest by auto
    show "source_ref (ikeys e) (skeys e) s" using R(5) [OF s0(1)] h [of s0] unfolding source_ref_def s0(2) sk ik by auto
  qed (use R(1,3,4) in \<open>unfold rest(1-3) ik pk, blast+\<close>)
  ultimately show ?thesis using racks unfolding inventory_ok_def by blast
qed

section \<open>Every chain ends\<close>

definition levels :: "hop list \<Rightarrow> dc_source list" where
  "levels hs = List.map_filter hop_source hs"

lemma levels_simps [simp]: "levels [] = []" "levels (Hop s c # hs) = s # levels hs" "levels (Hidden_Hop # hs) = levels hs"
  by (simp_all add: levels_def map_filter_simps)

text \<open>What climbing from a source to the top of its chain is.\<close>

definition climbs :: "dc_source list \<Rightarrow> dc_source \<Rightarrow> dc_source list \<Rightarrow> bool" where
  "climbs ss s L \<longleftrightarrow> L \<noteq> [] \<and> hd L = s \<and> so_upstream (last L) = '''' \<and> successively (\<lambda>a b. so_upstream a = so_uid b) L
     \<and> set L \<subseteq> set ss \<and> distinct (map so_uid L) \<and> (\<forall>t \<in> set L. (so_uid s, so_uid t) \<in> (hangs_from ss)\<^sup>*)"

lemma chain_to_top:
  assumes ok: "sources_ok I ss" and s: "s \<in> set ss" and seen: "\<And>x. x \<in> set seen \<Longrightarrow> (so_uid s, x) \<notin> (hangs_from ss)\<^sup>*"
  shows "climbs ss s (levels (chain_up ss False (\<lambda>_. True) site (so_uid s) seen))"
proof -
  let ?R = "hangs_from ss"
  have dist: "distinct (map so_uid ss)" and ne: "'''' \<notin> so_uid ` set ss" and ac: "acyclic ?R" using ok by (auto simp: sources_ok_def)
  have "?R \<subseteq> (\<lambda>s. (so_uid s, so_upstream s)) ` set ss" by (auto simp: hangs_from_def)
  then have "finite ?R" by (rule finite_subset) simp
  then have wf: "wf (?R\<inverse>)" using ac by (rule finite_acyclic_wf_converse)
  have "s \<in> set ss \<Longrightarrow> so_uid s = u \<Longrightarrow> (\<And>x. x \<in> set seen \<Longrightarrow> (u, x) \<notin> ?R\<^sup>*) \<Longrightarrow>
    climbs ss s (levels (chain_up ss False (\<lambda>_. True) site u seen))" for s u
    using wf
  proof (induction u arbitrary: s seen site rule: wf_induct_rule)
    case (less u)
    note s = less.prems(1,2)
    have row: "row_get so_uid ss u = Some s" using row_get_in [OF dist s(1)] s(2) by simp
    have use: "u \<notin> set seen" using less.prems(3) by blast
    have une: "u \<noteq> ''''" using ne s by (metis imageI)
    let ?z = "so_upstream s" and ?site = "txt_or (so_site s) site"
    have step: "levels (chain_up ss False (\<lambda>_. True) site u seen) = s # levels (chain_up ss False (\<lambda>_. True) ?site ?z (u # seen))"
      using use une row by (subst chain_up.simps) (simp add: Let_def)
    show ?case
    proof (cases "?z = ''''")
      case True
      then have "chain_up ss False (\<lambda>_. True) ?site ?z (u # seen) = []" by (subst chain_up.simps) simp
      then show ?thesis using s True by (simp add: step climbs_def)
    next
      case False
      then have edge: "(u, ?z) \<in> ?R" using hangs_fromI [OF s(1) False] s(2) by simp
      obtain t where t: "t \<in> set ss" "so_uid t = ?z"
        using ok s(1) False unfolding sources_ok_def source_ref_def by (metis imageE)
      have "(?z, x) \<notin> ?R\<^sup>*" if "x \<in> set (u # seen)" for x
      proof
        assume zx: "(?z, x) \<in> ?R\<^sup>*"
        show False
        proof (cases "x = u")
          case True
          then have "(u, u) \<in> ?R\<^sup>+" using edge zx by (metis rtrancl_into_trancl2)
          then show ?thesis using ac by (simp add: acyclic_def)
        next
          case False
          then show ?thesis using that less.prems(3) [of x] converse_rtrancl_into_rtrancl [OF edge zx] by simp
        qed
      qed
      define L where "L = levels (chain_up ss False (\<lambda>_. True) ?site ?z (u # seen))"
      have IH: "climbs ss t L" unfolding L_def by (rule less.IH [OF _ t]) (use edge \<open>\<And>x. x \<in> set (u # seen) \<Longrightarrow> (?z, x) \<notin> ?R\<^sup>*\<close> in auto)
      then have L: "L \<noteq> []" "hd L = t" "so_upstream (last L) = ''''" "successively (\<lambda>a b. so_upstream a = so_uid b) L"
        "set L \<subseteq> set ss" "distinct (map so_uid L)" "\<And>x. x \<in> set L \<Longrightarrow> (?z, so_uid x) \<in> ?R\<^sup>*"
        unfolding climbs_def t(2) by blast+
      have not_u: "so_uid x \<noteq> u" if "x \<in> set L" for x
      proof
        assume "so_uid x = u"
        then have "(u, u) \<in> ?R\<^sup>+" using L(7) [OF that] edge by (metis rtrancl_into_trancl2)
        then show False using ac by (simp add: acyclic_def)
      qed
      have "so_uid s \<notin> so_uid ` set L" using not_u s(2) by (metis imageE)
      moreover have "successively (\<lambda>a b. so_upstream a = so_uid b) (s # L)"
        using L(1,2,4) t(2) by (cases L) simp_all
      moreover have "(u, so_uid x) \<in> ?R\<^sup>*" if "x \<in> set L" for x
        using L(7) [OF that] converse_rtrancl_into_rtrancl [OF edge] by blast
      ultimately show ?thesis using L(1,3,5,6) s(1) unfolding step L_def [symmetric] climbs_def using s(2) by simp
    qed
  qed
  from this [OF s refl seen] show ?thesis .
qed

end
