(* ===== verification/Dcim_Machine.thy ===== *)
theory Dcim_Machine
  imports Dcim_Leads Dcim_Sources
begin

text \<open>
  The whole inventory: every request keeps what \<open>inventory_ok\<close> says, so it holds of whatever any sequence of them makes
  of sites and rooms with nothing in them, and what it means for the racks, the leads and the power.
\<close>

section \<open>Every request keeps the inventory\<close>

lemma inventory_okI:
  assumes "racks_ok (d_racks e) (d_items e)" "keys_ok e \<and> refs_ok e \<and> leads_ok e \<and> acyclic (hangs_from (d_sources e))"
  shows "inventory_ok e"
  using assms by (simp add: inventory_ok_def)

lemma fresh_keys: "fresh u (map key rows) \<Longrightarrow> u \<notin> key ` set rows \<and> u \<noteq> ''''"
  by (simp add: fresh_def)

lemma rack_create_rest:
  assumes ok: "inventory_ok d" and e: "e = fst (rack_create a r u q d)"
  shows "keys_ok e \<and> refs_ok e \<and> leads_ok e \<and> acyclic (hangs_from (d_sources e))"
proof (cases a r u q d rule: rack_create_cases)
  case refused
  then show ?thesis using ok e by (simp add: inventory_ok_def)
next
  case (written r)
  show ?thesis by (rule rack_rest [OF ok e [unfolded written(3)]]) auto
qed

lemma rack_update_rest:
  assumes ok: "inventory_ok d" and e: "e = fst (rack_update a r u q d)"
  shows "keys_ok e \<and> refs_ok e \<and> leads_ok e \<and> acyclic (hangs_from (d_sources e))"
proof (cases a r u q d rule: rack_update_cases)
  case refused
  then show ?thesis using ok e by (simp add: inventory_ok_def)
next
  case (written n room el)
  have "rk_uid ` set (row_update rk_uid u (rack_edit q n room el) (d_racks d)) = rkeys d"
    by (rule keys_update) (simp add: rack_edit_def)
  then show ?thesis by (intro rack_rest [OF ok e [unfolded written(3)]]) simp
qed

lemma dc_step_ok:
  assumes ok: "inventory_ok d"
  shows "inventory_ok (dc_step d ev)"
proof -
  note R = inventory_okD(1) [OF ok]
  show ?thesis
  proof (cases ev)
    case (Place a u stamp q)
    have "inventory_ok (fst (item_create a u stamp q d))" if f: "fresh u (map it_uid (d_items d))"
      using item_create_racks_ok [OF R _ _ refl] fresh_keys [OF f] create_rest [OF ok refl] by (blast intro: inventory_okI)
    then show ?thesis using Place ok by simp
  next
    case (Edit_Item a u q)
    then show ?thesis using item_update_racks_ok [OF R refl] update_rest [OF ok refl] by (simp add: inventory_okI)
  next
    case (Remove_Item a u)
    then show ?thesis using item_delete_racks_ok [OF R refl] delete_rest [OF ok refl] by (simp add: inventory_okI)
  next
    case (New_Rack a row u q)
    have "inventory_ok (fst (rack_create a row u q d))" if f: "fresh u (map rk_uid (d_racks d))"
      using rack_create_racks_ok [OF R _ _ refl] fresh_keys [OF f] rack_create_rest [OF ok refl] by (blast intro: inventory_okI)
    then show ?thesis using New_Rack ok by simp
  next
    case (Edit_Rack a row u q)
    then show ?thesis using rack_update_racks_ok [OF R refl] rack_update_rest [OF ok refl] by (simp add: inventory_okI)
  next
    case (Drop_Rack a b u)
    then show ?thesis using rack_delete_racks_ok [OF R refl] drop_rack_rest [OF ok refl] by (simp add: inventory_okI)
  next
    case (New_Strip a u q)
    then show ?thesis using pdu_create_rest [OF ok _ refl] ok by simp
  next
    case (Plug a u q)
    then show ?thesis using feed_create_rest [OF ok _ refl] ok by simp
  next
    case (Wire a u q)
    then show ?thesis using cable_create_rest [OF ok refl] ok by simp
  next
    case (New_Source a u q)
    then show ?thesis using source_create_rest [OF ok _ refl] ok by simp
  qed (simp_all add: pdu_update_rest [OF ok refl] pdu_delete_rest [OF ok refl] feed_update_rest [OF ok refl] feed_delete_rest [OF ok refl]
      cable_update_rest [OF ok refl] cable_delete_rest [OF ok refl] source_update_rest [OF ok refl] source_clone_rest [OF ok refl]
      source_delete_rest [OF ok refl])
qed

interpretation inventory: machine dc_step inventory_ok
  by unfold_locales (rule dc_step_ok)

text \<open>The inventory before anything is placed: sites, rooms and what was said of them.\<close>

definition bare :: "dc_site list \<Rightarrow> dc_room list \<Rightarrow> said \<Rightarrow> dcim" where
  "bare sites rooms said = \<lparr>d_sites = sites, d_rooms = rooms, d_racks = [], d_items = [], d_pdus = [], d_feeds = [], d_cables = [],
     d_links = [], d_sources = [], d_parts = [], d_said = said\<rparr>"

definition after :: "dc_site list \<Rightarrow> dc_room list \<Rightarrow> said \<Rightarrow> dc_event list \<Rightarrow> dcim" where
  "after sites rooms said es = foldl dc_step (bare sites rooms said) es"

lemma after_ok: "inventory_ok (after sites rooms said es)"
  unfolding after_def
proof (rule inventory.run_inv)
  show "inventory_ok (bare sites rooms said)"
    by (simp add: inventory_ok_def bare_def racks_ok_def keys_ok_def refs_ok_def leads_ok_def hangs_from_def acyclic_def)
qed


section \<open>A small one\<close>

text \<open>A rack of four units, two servers sharing a unit, a strip fed by a UPS on the mains, a lead and a cable.\<close>

definition boss :: asking where
  "boss = \<lparr>as_perms = [''dcim_edit'', ''dcim_cable_edit'', ''orgs_all_view''], as_build = None, as_cat = [], as_asset = None\<rparr>"

definition half :: "int \<Rightarrow> jval item_req" where
  "half k = \<lparr>rq_rack = Some ''r'', rq_start = Some (JInt 2), rq_height = Some (JInt 1), rq_face = Some ''front'', rq_device = None,
     rq_type = None, rq_label = None, rq_role = None, rq_build = None, rq_slots = Some (JInt 2), rq_slot = Some (JInt k), rq_span = None,
     rq_split = None, rq_parent = None, rq_placement = None, rq_room = None, rq_side = None, rq_side_slot = None, rq_disconnect = False\<rparr>"

definition sample :: "dc_event list" where
  "sample =
     [New_Rack boss (\<lambda>_ _. True) ''r'' \<lparr>rr_room = Some ''m'', rr_name = Some ''R1'', rr_height = Some (JInt 4), rr_depth = None,
        rr_front = None, rr_mount = None, rr_rear = None, rr_access = None, rr_row = None\<rparr>,
      Place boss ''a'' [] (half 1), Place boss ''b'' [] (half 2), Place boss ''c'' [] (half 2),
      New_Source boss ''s1'' \<lparr>sq_site = Some ''s'', sq_name = Some ''Mains'', sq_kind = Some ''mains'', sq_upstream = None, sq_bypass = None, sq_item = None\<rparr>,
      New_Source boss ''s2'' \<lparr>sq_site = Some ''s'', sq_name = Some ''UPS'', sq_kind = Some ''ups'', sq_upstream = Some ''s1'', sq_bypass = None, sq_item = None\<rparr>,
      Edit_Source boss ''s1'' \<lparr>sq_site = None, sq_name = None, sq_kind = None, sq_upstream = Some ''s2'', sq_bypass = None, sq_item = None\<rparr>,
      New_Strip boss ''p'' \<lparr>pq_rack = Some ''r'', pq_name = Some ''P'', pq_feed = None, pq_outlets = Some (JInt 2), pq_capacity = None,
        pq_source = Some ''s2'', pq_item = None\<rparr>,
      Plug boss ''f'' \<lparr>fq_item = Some ''a'', fq_pdu = Some ''p'', fq_outlet = Some (JInt 1), fq_watts = None\<rparr>,
      Plug boss ''g'' \<lparr>fq_item = Some ''b'', fq_pdu = Some ''p'', fq_outlet = Some (JInt 1), fq_watts = None\<rparr>,
      Plug boss ''h'' \<lparr>fq_item = Some ''b'', fq_pdu = Some ''p'', fq_outlet = Some (JInt 2), fq_watts = None\<rparr>,
      Wire boss ''k'' \<lparr>cq_a = Some ''a'', cq_a_port = Some ''1'', cq_b = Some ''b'', cq_b_port = Some ''1''\<rparr>]"

definition sample_sites :: "dc_site list" where
  "sample_sites = [\<lparr>si_uid = ''s'', si_name = ''S''\<rparr>]"

definition sample_rooms :: "dc_room list" where
  "sample_rooms = [\<lparr>ro_uid = ''m'', ro_site = ''s'', ro_name = ''M''\<rparr>]"

definition sampled :: dcim where
  "sampled = after sample_sites sample_rooms [] sample"

lemma sampled_facts:
  "hd (d_items sampled) \<in> set (d_items sampled)" "last (d_items sampled) \<in> set (d_items sampled)"
  "it_uid (hd (d_items sampled)) = ''a''" "it_uid (last (d_items sampled)) = ''b''" "it_rack (hd (d_items sampled)) = ''r''"
  "it_rack (last (d_items sampled)) = ''r''" "it_parent (hd (d_items sampled)) = ''''" "on_rails (hd (d_items sampled))"
  "taken_by (hd (d_items sampled)) (''front'', 2)" "taken_by (last (d_items sampled)) (''front'', 2)"
  "map fd_uid (d_feeds sampled) = [''f'', ''h'']" "map so_uid (d_sources sampled) = [''s1'', ''s2'']"
  by code_simp+

section \<open>What is true of every inventory\<close>

lemma racks_of_ok:
  assumes ok: "racks_ok R I" and i: "i \<in> set I"
  shows "on_rails i \<Longrightarrow> \<exists>r \<in> set R. rk_uid r = it_rack i \<and> 1 \<le> it_start i \<and> it_start i + max 1 (num_or (it_height i) 1) - 1 \<le> rk_height r"
    "it_parent i \<noteq> '''' \<Longrightarrow> \<exists>p \<in> set I. it_uid p = it_parent i \<and> it_parent p = '''' \<and> same_place p i"
proof -
  assume rails: "on_rails i"
  then have "it_placement i \<noteq> ''room''" by (auto simp: on_rails_def txt_or_def split: if_splits)
  then obtain r where "r \<in> set R" "rk_uid r = it_rack i" using racks_okD(5) [OF ok i] by (auto simp: housed_def)
  then show "\<exists>r \<in> set R. rk_uid r = it_rack i \<and> 1 \<le> it_start i \<and> it_start i + max 1 (num_or (it_height i) 1) - 1 \<le> rk_height r"
    using racks_okD(6) [OF ok i] rails by (auto simp: inside_def)
next
  assume "it_parent i \<noteq> ''''"
  then show "\<exists>p \<in> set I. it_uid p = it_parent i \<and> it_parent p = '''' \<and> same_place p i" using racks_okD(7) [OF ok i] by (simp add: hangs_def)
qed

text \<open>@CLAIM dc_racks@ Whatever is placed, moved, resized or taken away, by whoever may, in any order, a rack stays one that can exist.
  What is bolted to the rails is in a rack that is there, within its units. Two pieces of equipment on the same face of
  the same unit have disjoint parts of its width. What is mounted on another has the place of what carries it, which is
  itself not mounted, and two that share a carrier's width have disjoint parts of it.\<close>

theorem racks_stay_possible:
  assumes "i \<in> set (d_items (after sites rooms said es))" "j \<in> set (d_items (after sites rooms said es))" "it_uid i \<noteq> it_uid j"
  shows "(on_rails i \<longrightarrow> (\<exists>r \<in> set (d_racks (after sites rooms said es)). rk_uid r = it_rack i
         \<and> 1 \<le> it_start i \<and> it_start i + max 1 (num_or (it_height i) 1) - 1 \<le> rk_height r))
     \<and> (it_rack i = it_rack j \<longrightarrow> taken_by i fu \<longrightarrow> taken_by j fu \<longrightarrow> \<not> overlap (item_slot i) (item_slot j))
     \<and> (it_parent i \<noteq> '''' \<longrightarrow> (\<exists>p \<in> set (d_items (after sites rooms said es)). it_uid p = it_parent i \<and> it_parent p = '''' \<and> same_place p i))
     \<and> (it_parent i = it_parent j \<longrightarrow> it_parent i \<noteq> '''' \<longrightarrow> 1 < num_or (it_slots i) 1 \<longrightarrow> 1 < num_or (it_slots j) 1
          \<longrightarrow> \<not> pieces_meet (item_piece i) (item_piece j))"
proof -
  note ok = inventory_okD(1) [OF after_ok [of sites rooms said es]]
  show ?thesis
    using racks_of_ok [OF ok assms(1)] racks_okD(8,9) [OF ok assms] unfolding apart_def side_by_side_def by blast
qed

theorem racks_stay_possible_witness:
  "(\<exists>r \<in> set (d_racks sampled). rk_uid r = ''r'' \<and> 1 \<le> it_start (hd (d_items sampled)))
   \<and> \<not> overlap (item_slot (hd (d_items sampled))) (item_slot (last (d_items sampled)))"
  using racks_stay_possible [where sites = sample_sites and rooms = sample_rooms and said = "[]" and es = sample, folded sampled_def, of "hd (d_items sampled)" "last (d_items sampled)" "(''front'', 2)"]
  by (auto simp: sampled_facts)

text \<open>@CLAIM dc_refs@ Nothing in the inventory points at a row that is gone: both ends of a lead and of a cable, the item of an inventory
  number, the rack and the source of a strip, the item a source is and what it hangs from. Deleting an item, a strip, a
  source or a rack with everything in it takes or loosens all that named it.\<close>

theorem nothing_dangles:
  "(\<forall>f \<in> set (d_feeds (after sites rooms said es)). fd_item f \<in> it_uid ` set (d_items (after sites rooms said es))
       \<and> fd_pdu f \<in> pu_uid ` set (d_pdus (after sites rooms said es)))
   \<and> (\<forall>p \<in> set (d_pdus (after sites rooms said es)). pu_rack p \<in> rk_uid ` set (d_racks (after sites rooms said es))
       \<and> pu_source p \<in> insert '''' (so_uid ` set (d_sources (after sites rooms said es))))
   \<and> (\<forall>c \<in> set (d_cables (after sites rooms said es)). {cb_a c, cb_b c} \<subseteq> it_uid ` set (d_items (after sites rooms said es)))
   \<and> (\<forall>p \<in> set (d_parts (after sites rooms said es)). pa_item p \<in> it_uid ` set (d_items (after sites rooms said es)))
   \<and> (\<forall>s \<in> set (d_sources (after sites rooms said es)). so_item s \<in> insert '''' (it_uid ` set (d_items (after sites rooms said es)))
       \<and> so_upstream s \<in> insert '''' (so_uid ` set (d_sources (after sites rooms said es))))"
  using inventory_okD(3) [OF after_ok [of sites rooms said es]]
  unfolding refs_ok_def feed_ref_def pdu_ref_def cable_ref_def part_ref_def source_ref_def by simp

theorem nothing_dangles_witness:
  "(\<forall>f \<in> set (d_feeds sampled). fd_item f \<in> it_uid ` set (d_items sampled)) \<and> map fd_uid (d_feeds sampled) = [''f'', ''h'']"
  using nothing_dangles [where sites = sample_sites and rooms = sample_rooms and said = "[]" and es = sample, folded sampled_def] sampled_facts(11) by blast

text \<open>@CLAIM dc_leads@ A numbered outlet feeds at most one thing: no two leads are in the same outlet of the same strip, and none is in an outlet
  the strip does not have when it says how many, also after the strip is edited, an item is moved to another rack or a
  lead is moved to another outlet.\<close>

theorem one_lead_per_outlet:
  assumes "f \<in> set (d_feeds (after sites rooms said es))" "0 < fd_outlet f"
  shows "(\<forall>g \<in> set (d_feeds (after sites rooms said es)). fd_pdu g = fd_pdu f \<longrightarrow> fd_outlet g = fd_outlet f \<longrightarrow> g = f)
    \<and> (\<forall>p \<in> set (d_pdus (after sites rooms said es)). pu_uid p = fd_pdu f \<longrightarrow> 0 < pu_outlets p \<longrightarrow> fd_outlet f \<le> pu_outlets p)"
proof -
  note D = inventory_okD [OF after_ok [of sites rooms said es]]
  have "g = f" if g: "g \<in> set (d_feeds (after sites rooms said es))" "fd_pdu g = fd_pdu f" "fd_outlet g = fd_outlet f" for g
  proof -
    have "fd_uid g = fd_uid f" using leads_okD(1) [OF D(4) g(1) assms(1) g(2,3)] g(3) assms(2) by simp
    then show ?thesis using D(2) g(1) assms(1) by (auto simp: keys_ok_def distinct_map dest: inj_onD)
  qed
  then show ?thesis using leads_okD(2) [OF D(4) assms(1)] by blast
qed

theorem one_lead_per_outlet_witness:
  "\<forall>g \<in> set (d_feeds sampled). fd_pdu g = ''p'' \<longrightarrow> fd_outlet g = 1 \<longrightarrow> g = hd (d_feeds sampled)"
proof -
  have F: "hd (d_feeds sampled) \<in> set (d_feeds sampled)" "fd_outlet (hd (d_feeds sampled)) = 1" "fd_pdu (hd (d_feeds sampled)) = ''p''"
    by code_simp+
  have "0 < fd_outlet (hd (d_feeds sampled))" using F(2) by simp
  from conjunct1 [OF one_lead_per_outlet [where sites = sample_sites and rooms = sample_rooms and said = "[]" and es = sample, folded sampled_def, OF F(1) this]] show ?thesis unfolding F(2,3) .
qed

text \<open>@CLAIM dc_chain@ The walk up from a power source always ends at the top: it starts at the source, each level is what the one before
  hangs from, no level comes twice, and the last hangs from nothing.\<close>

theorem power_chain_ends:
  assumes "s \<in> set (d_sources (after sites rooms said es))"
  shows "climbs (d_sources (after sites rooms said es)) s
    (levels (chain (d_sources (after sites rooms said es)) [] False (\<lambda>_. True) (so_uid s)))"
  unfolding chain_def append_Nil2 by (rule chain_to_top [OF sources_okI [OF after_ok] assms]) simp

theorem power_chain_ends_witness:
  "climbs (d_sources sampled) (last (d_sources sampled)) (levels (chain (d_sources sampled) [] False (\<lambda>_. True) ''s2''))"
proof -
  have "last (d_sources sampled) \<in> set (d_sources sampled)" "so_uid (last (d_sources sampled)) = ''s2''"
    by code_simp+
  then show ?thesis
    using power_chain_ends [where sites = sample_sites and rooms = sample_rooms and said = "[]" and es = sample, folded sampled_def, of "last (d_sources sampled)"] by simp
qed

text \<open>@CLAIM dc_loop@ Whether a source may hang from another is decided exactly: the request is told there is a loop precisely when the
  chain above the new upstream comes back to the source.\<close>

theorem loop_check_exact:
  assumes "u \<in> so_uid ` set (d_sources (after sites rooms said es))" "v \<in> so_uid ` set (d_sources (after sites rooms said es))" "u \<noteq> v"
  shows "upstream_bad (after sites rooms said es) u v =
    (if (v, u) \<in> (hangs_from (d_sources (after sites rooms said es)))\<^sup>* then Some ''dcim_upstream_loop'' else None)"
proof -
  let ?d = "after sites rooms said es"
  note S = sources_okI [OF after_ok, of sites rooms said es]
  have dist: "distinct (map so_uid (d_sources ?d))" and ne: "'''' \<notin> so_uid ` set (d_sources ?d)" and ac: "acyclic (hangs_from (d_sources ?d))"
    using S by (auto simp: sources_ok_def)
  obtain s where t: "s \<in> set (d_sources ?d)" "so_uid s = v" using assms(2) by blast
  have "climbs (d_sources ?d) s (levels (chain_up (d_sources ?d) False (\<lambda>_. True) '''' v []))"
    using chain_to_top [OF S t(1), of "[]" "''''"] t(2) by simp
  then have sound: "(v, so_uid x) \<in> (hangs_from (d_sources ?d))\<^sup>*"
    if "x \<in> set (levels (chain_up (d_sources ?d) False (\<lambda>_. True) '''' v []))" for x
    using that t(2) by (simp add: climbs_def)
  have "list_ex (\<lambda>h. map_option so_uid (hop_source h) = Some u) (chain (d_sources ?d) [] False (\<lambda>_. True) v)
      \<longleftrightarrow> (v, u) \<in> (hangs_from (d_sources ?d))\<^sup>*" (is "?L \<longleftrightarrow> ?R")
  proof
    assume ?L
    then obtain h x where "h \<in> set (chain_up (d_sources ?d) False (\<lambda>_. True) '''' v [])" "hop_source h = Some x" "so_uid x = u"
      by (auto simp: chain_def list_ex_iff)
    then show ?R using sound [of x] by (force simp: levels_def List.map_filter_def)
  next
    assume ?R
    from chain_up_lists [OF ac dist ne this assms(1), of "[]" "''''"] show ?L by (auto simp: chain_def list_ex_iff)
  qed
  moreover have "v \<noteq> ''''" using ne assms(2) by metis
  moreover have "row_get so_uid (d_sources ?d) v \<noteq> None" using assms(2) by (simp add: row_get_None)
  ultimately show ?thesis using assms(3) by (simp add: upstream_bad_def)
qed

theorem loop_check_exact_witness:
  "upstream_bad sampled ''s1'' ''s2'' = (if (''s2'', ''s1'') \<in> (hangs_from (d_sources sampled))\<^sup>* then Some ''dcim_upstream_loop'' else None)
   \<and> upstream_bad sampled ''s1'' ''s2'' = Some ''dcim_upstream_loop''"
proof
  have keys: "''s1'' \<in> so_uid ` set (d_sources sampled)" "''s2'' \<in> so_uid ` set (d_sources sampled)" by code_simp+
  show "upstream_bad sampled ''s1'' ''s2'' = (if (''s2'', ''s1'') \<in> (hangs_from (d_sources sampled))\<^sup>* then Some ''dcim_upstream_loop'' else None)"
    by (rule loop_check_exact [where sites = sample_sites and rooms = sample_rooms and said = "[]" and es = sample, folded sampled_def, OF keys]) simp
  show "upstream_bad sampled ''s1'' ''s2'' = Some ''dcim_upstream_loop''" by code_simp
qed

end
